(* ===== verification/Prelude.thy ===== *)
theory Prelude
  imports Main "HOL-Library.Word"
begin

text \<open>
  Shared vocabulary of the development: the machine integer types of the C sources, the result
  type of operations that may end the process, the little endian byte codec the x86\_64 structures
  are laid out with, and the generic lemmas on words, lists and byte codecs that the component
  theories use through the collections \<open>run_simps\<close>, \<open>mask_simps\<close> and \<open>codec_simps\<close>.
\<close>

unbundle bit_operations_syntax

named_theorems run_simps \<open>unfolding of the result type\<close>
named_theorems mask_simps \<open>numeric masks of the sources as \<open>mask n\<close>\<close>
named_theorems codec_simps \<open>encode/decode pairs of on-media structures\<close>


section \<open>Machine integers\<close>

type_synonym u8 = "8 word"
type_synonym u16 = "16 word"
type_synonym u32 = "32 word"
type_synonym u64 = "64 word"

text \<open>
  A signed field keeps its width too; \<open>sint\<close> reads it.
\<close>

type_synonym i32 = "32 word"
type_synonym i64 = "64 word"


section \<open>Operations that may end the process\<close>

text \<open>
  The utilities stop on the first inconsistency: a failed \<open>assert\<close>, an \<open>err\<close> or \<open>errx\<close> call, or
  a fault of the machine (a dereference of a null or dangling pointer, an array index out of range,
  an exhausted stack) or a thread that waits for itself. Every such end is a value of \<open>stop\<close>,
  the string saying which source statement it is. A loop that has no bound of its own runs on fuel, and \<open>Diverges\<close> is the value
  it has when the fuel is used up.
\<close>

datatype stop =
    Assert_failed string
  | Exit_with int string
  | Null_deref string
  | Out_of_bounds string
  | Stack_exhausted
  | Use_after_free string
  | Deadlock string
  | Diverges string

type_synonym 'a run = "stop + 'a"

definition bind_run :: "'a run \<Rightarrow> ('a \<Rightarrow> 'b run) \<Rightarrow> 'b run" where
  "bind_run m f = (case m of Inl e \<Rightarrow> Inl e | Inr x \<Rightarrow> f x)"

definition assert_run :: "bool \<Rightarrow> string \<Rightarrow> unit run" where
  "assert_run b what = (if b then Inr () else Inl (Assert_failed what))"

lemma bind_run_simps [simp, run_simps]:
  "bind_run (Inl e) f = Inl e"
  "bind_run (Inr x) f = f x"
  by (simp_all add: bind_run_def)

lemma bind_run_Inr_iff:
  "bind_run m f = Inr y \<longleftrightarrow> (\<exists>x. m = Inr x \<and> f x = Inr y)"
  by (cases m) auto

lemma bind_run_InrE [elim!]:
  assumes "bind_run m f = Inr y"
  obtains x where "m = Inr x" and "f x = Inr y"
  using assms by (auto simp: bind_run_Inr_iff)

lemma bind_run_cong [fundef_cong]:
  "m = m' \<Longrightarrow> (\<And>x. m' = Inr x \<Longrightarrow> f x = f' x) \<Longrightarrow> bind_run m f = bind_run m' f'"
  by (cases m') auto

lemma assert_run_Inr [simp, run_simps]: "assert_run b what = Inr u \<longleftrightarrow> b"
  by (simp add: assert_run_def)

lemma assert_run_True [simp, run_simps]: "assert_run True what = Inr ()"
  by (simp add: assert_run_def)



section \<open>Words: masks, alignment and the decomposition of an offset\<close>

text \<open>
  The sources cut an offset at a power of two with \<open>& MASK\<close>, \<open>& ~MASK\<close>, \<open>>>\<close> and \<open>/\<close>. The lemmas
  read all of them as \<open>mod\<close> and \<open>div\<close> of the natural number the word denotes.
\<close>

lemma and_mask_unat: "unat (x AND mask n :: 'a::len word) = unat x mod 2 ^ n"
  by (metis take_bit_eq_mask take_bit_eq_mod unsigned_take_bit_eq)

lemma drop_bit_unat: "unat (drop_bit n x :: 'a::len word) = unat x div 2 ^ n"
  by (subst unat_drop_bit_eq) (rule drop_bit_eq_div)

lemma and_not_mask_plus: "(x AND NOT (mask n)) + (x AND mask n) = (x :: 'a::len word)"
proof -
  have "(x AND NOT (mask n)) + (x AND mask n) = (x AND NOT (mask n)) OR (x AND mask n)"
    by (rule disjunctive_add) (auto simp: bit_simps)
  also have "\<dots> = x"
    by (rule bit_word_eqI) (auto simp: bit_simps)
  finally show ?thesis .
qed

lemma unat_and_not_mask:
  "unat (x AND NOT (mask n) :: 'a::len word) = unat x - unat x mod 2 ^ n"
proof -
  have le: "x AND mask n \<le> x"
    by (simp add: word_and_le2)
  have "x AND NOT (mask n) = x - (x AND mask n)"
    using and_not_mask_plus [of x n] by (metis add_diff_cancel_right')
  then have "unat (x AND NOT (mask n)) = unat x - unat (x AND mask n)"
    using le by (simp add: unat_sub)
  then show ?thesis by (simp add: and_mask_unat)
qed

lemma word_div_unat: "unat (x div y :: 'a::len word) = unat x div unat y"
  by (rule unat_div_distrib)

lemma uint_int_unat: "uint (x :: 'a::len word) = int (unat x)"
  by simp

lemma unat_push_bit:
  fixes x :: "'a::len word"
  assumes "unat x * 2 ^ n < 2 ^ LENGTH('a)"
  shows "unat (push_bit n x) = unat x * 2 ^ n"
proof -
  have "unat (push_bit n x) = take_bit LENGTH('a) (push_bit n (unat x))"
    by (rule unsigned_push_bit_eq)
  also have "\<dots> = (unat x * 2 ^ n) mod 2 ^ LENGTH('a)"
    by (simp only: push_bit_eq_mult take_bit_eq_mod)
  also have "\<dots> = unat x * 2 ^ n"
    using assms by simp
  finally show ?thesis .
qed

lemma nat_or_above:
  fixes a b :: nat
  assumes "2 ^ n dvd a" and "b < 2 ^ n"
  shows "a OR b = a + b"
proof -
  have "\<not> bit a k" if "k < n" for k
  proof -
    from assms(1) have "take_bit n a = 0"
      by (simp add: take_bit_eq_0_iff)
    with that show ?thesis by (metis bit_take_bit_iff bit_0_eq bot_apply bot_bool_def)
  qed
  moreover have "bit b k \<Longrightarrow> k < n" for k
    using assms(2) by (metis bit_take_bit_iff take_bit_nat_eq_self)
  ultimately have "a AND b = 0"
    by (intro bit_eqI) (auto simp: bit_simps)
  then show ?thesis by (simp add: disjunctive_add_eq_or)
qed

lemma unat_or_above:
  fixes a b :: "'a::len word"
  assumes "2 ^ n dvd unat a" and "unat b < 2 ^ n"
  shows "unat (a OR b) = unat a + unat b"
  using nat_or_above [OF assms] by (simp add: unsigned_or_eq)

lemma nat_digit:
  fixes q r b :: nat
  assumes "r < b"
  shows "(q * b + r) div b = q" and "(q * b + r) mod b = r"
  using assms by simp_all

lemma nat_digits3:
  fixes n a b :: nat
  shows "n div (b * a) * (b * a) + n div b mod a * b + n mod b = n"
proof -
  have "n div (b * a) * (b * a) + n div b mod a * b = (n div b div a * a + n div b mod a) * b"
    unfolding div_mult2_eq by (simp only: distrib_right mult.assoc mult.commute [of b a])
  also have "\<dots> = n div b * b" by (simp only: div_mult_mod_eq)
  finally show ?thesis by (metis div_mult_mod_eq)
qed

lemma mod_div_digit: "n mod (b * a) div b = n div b mod (a::nat)"
  by (cases "b = 0") (simp_all add: mod_mult2_eq)

lemma digit_pair_eq_iff:
  fixes b q r q' r' :: nat
  assumes "r < b" and "r' < b"
  shows "q * b + r = q' * b + r' \<longleftrightarrow> q = q' \<and> r = r'"
  using assms by (metis nat_digit)

lemma high_digit_mod:
  fixes q n b c :: nat
  assumes "c dvd b"
  shows "(q * b + n mod b) mod c = n mod c"
proof -
  have "(q * b + n mod b) mod c = (n mod b) mod c"
    using assms by (metis dvd_mult2 mod_add_left_eq add_0 dvd_imp_mod_0 mult.commute)
  then show ?thesis using assms by (simp add: mod_mod_cancel)
qed


section \<open>Little endian bytes\<close>

text \<open>
  The sources address structures both by field and by byte. \<open>le_bytes n w\<close> are the \<open>n\<close> bytes a
  word occupies on the (little endian) machine, \<open>le_word\<close> reads them back.
\<close>

definition le_bytes :: "nat \<Rightarrow> 'a::len word \<Rightarrow> u8 list" where
  "le_bytes n w = map (\<lambda>i. ucast (drop_bit (8 * i) w)) [0..<n]"

definition le_word :: "u8 list \<Rightarrow> 'a::len word" where
  "le_word bs = foldr (\<lambda>b acc. ucast b OR push_bit 8 acc) bs 0"

lemma length_le_bytes [simp, codec_simps]: "length (le_bytes n w) = n"
  by (simp add: le_bytes_def)

lemma le_word_Cons: "le_word (b # bs) = ucast b OR push_bit 8 (le_word bs)"
  by (simp add: le_word_def)

lemma le_word_Nil [simp]: "le_word [] = 0"
  by (simp add: le_word_def)

lemma bit_le_word:
  "bit (le_word bs :: 'a::len word) k \<longleftrightarrow>
     k < LENGTH('a) \<and> k div 8 < length bs \<and> bit (bs ! (k div 8)) (k mod 8)"
proof (induction bs arbitrary: k)
  case Nil
  then show ?case by simp
next
  case (Cons b bs)
  show ?case
  proof (cases "k < 8")
    case True
    then show ?thesis by (auto simp: le_word_Cons bit_simps)
  next
    case False
    then have k: "k div 8 = Suc ((k - 8) div 8)" "k mod 8 = (k - 8) mod 8"
      by (simp_all add: le_div_geq le_mod_geq)
    have "\<not> bit (ucast b :: 'a word) k"
      using False by (auto simp: bit_simps dest: bit_imp_le_length)
    with False show ?thesis
      by (auto simp: le_word_Cons bit_simps Cons.IH k)
  qed
qed

lemma le_word_le_bytes [codec_simps]:
  fixes w :: "'a::len word"
  assumes "LENGTH('a) \<le> 8 * n"
  shows "le_word (le_bytes n w) = w"
proof (rule bit_word_eqI)
  fix k assume k: "k < LENGTH('a)"
  then have "k div 8 < n" using assms by auto
  then show "bit (le_word (le_bytes n w) :: 'a word) k \<longleftrightarrow> bit w k"
    using k by (simp add: bit_le_word le_bytes_def bit_simps)
qed

lemma le_bytes_le_word [codec_simps]:
  assumes "length bs = n" and "8 * n \<le> LENGTH('a)"
  shows "le_bytes n (le_word bs :: 'a::len word) = bs"
proof (rule nth_equalityI)
  fix i assume "i < length (le_bytes n (le_word bs :: 'a word))"
  then have i: "i < n" by simp
  have "le_bytes n (le_word bs :: 'a word) ! i = ucast (drop_bit (8 * i) (le_word bs :: 'a word))"
    using i by (simp add: le_bytes_def)
  also have "\<dots> = bs ! i"
  proof (rule bit_word_eqI)
    fix k assume k: "k < LENGTH(8)"
    then have "(8 * i + k) div 8 = i" "(8 * i + k) mod 8 = k" "8 * i + k < 8 * n" using i by auto
    with k i assms show "bit (ucast (drop_bit (8 * i) (le_word bs :: 'a word)) :: u8) k = bit (bs ! i) k"
      by (auto simp: bit_simps bit_le_word)
  qed
  finally show "le_bytes n (le_word bs :: 'a word) ! i = bs ! i" .
qed (simp add: assms)

text \<open>Bytes stored into a buffer at an offset.\<close>

definition overwrite :: "'a list \<Rightarrow> nat \<Rightarrow> 'a list \<Rightarrow> 'a list" where
  "overwrite buf off bs = take off buf @ bs @ drop (off + length bs) buf"

lemma length_overwrite [simp]: "off + length bs \<le> length buf \<Longrightarrow> length (overwrite buf off bs) = length buf"
  by (simp add: overwrite_def)

lemma take_overwrite: "off \<le> length buf \<Longrightarrow> take (off + length bs) (overwrite buf off bs) = take off buf @ bs"
  by (simp add: overwrite_def)

lemma overwrite_full: "off + length bs = length buf \<Longrightarrow> overwrite buf off bs = take off buf @ bs"
  by (simp add: overwrite_def)

end
