(* ===== verification/Disk_Format.thy ===== *)
theory Disk_Format
  imports Prelude
begin

text \<open>
  The on-media format of \<open>sys/vfs/hammer/hammer_disk.h\<close>: the encodings of \<open>hammer_off_t\<close> (zone,
  volume and offset bits), the translations between zones, the two-level blockmap index macros,
  and the structures of the volume header, the blockmap layers and the UNDO FIFO. The lemmas show
  that the encodings are lossless, that the layer indices enumerate the big-blocks of the 60-bit
  address space one to one, and that the translations between zones keep them.
\<close>

section \<open>Buffers, zones and volumes\<close>

definition HAMMER_BUFSIZE :: int where
  "HAMMER_BUFSIZE = 16384"

definition HAMMER_BUFMASK64 :: u64 where
  "HAMMER_BUFMASK64 = 16383"

definition HAMMER_OFF_ZONE_MASK :: u64 where
  "HAMMER_OFF_ZONE_MASK = 0xF000000000000000"

definition HAMMER_OFF_SHORT_MASK :: u64 where
  "HAMMER_OFF_SHORT_MASK = 0x000FFFFFFFFFFFFF"

definition HAMMER_OFF_LONG_MASK :: u64 where
  "HAMMER_OFF_LONG_MASK = 0x0FFFFFFFFFFFFFFF"

definition HAMMER_OFF_BAD :: u64 where
  "HAMMER_OFF_BAD = - 1"

definition HAMMER_MAX_VOLUMES :: int where
  "HAMMER_MAX_VOLUMES = 256"

definition HAMMER_ZONE_RAW_BUFFER :: u64 where
  "HAMMER_ZONE_RAW_BUFFER = 0x2000000000000000"

definition HAMMER_ZONE_UNDO :: u64 where
  "HAMMER_ZONE_UNDO = 0x3000000000000000"

definition HAMMER_ZONE_RAW_VOLUME_INDEX :: int where
  "HAMMER_ZONE_RAW_VOLUME_INDEX = 1"

definition HAMMER_ZONE_RAW_BUFFER_INDEX :: int where
  "HAMMER_ZONE_RAW_BUFFER_INDEX = 2"

definition HAMMER_ZONE_UNDO_INDEX :: int where
  "HAMMER_ZONE_UNDO_INDEX = 3"

definition HAMMER_ZONE_FREEMAP_INDEX :: int where
  "HAMMER_ZONE_FREEMAP_INDEX = 4"

definition HAMMER_ZONE_BTREE_INDEX :: int where
  "HAMMER_ZONE_BTREE_INDEX = 8"

definition HAMMER_ZONE_META_INDEX :: int where
  "HAMMER_ZONE_META_INDEX = 9"

definition HAMMER_ZONE_LARGE_DATA_INDEX :: int where
  "HAMMER_ZONE_LARGE_DATA_INDEX = 10"

definition HAMMER_ZONE_SMALL_DATA_INDEX :: int where
  "HAMMER_ZONE_SMALL_DATA_INDEX = 11"

definition HAMMER_ZONE_UNAVAIL_INDEX :: int where
  "HAMMER_ZONE_UNAVAIL_INDEX = 15"

definition HAMMER_MAX_ZONES :: int where
  "HAMMER_MAX_ZONES = 16"

definition HAMMER_ROOT_VOLNO :: int where
  "HAMMER_ROOT_VOLNO = 0"

lemmas zone_index_defs =
  HAMMER_ZONE_RAW_VOLUME_INDEX_def HAMMER_ZONE_RAW_BUFFER_INDEX_def HAMMER_ZONE_UNDO_INDEX_def
  HAMMER_ZONE_FREEMAP_INDEX_def HAMMER_ZONE_BTREE_INDEX_def HAMMER_ZONE_META_INDEX_def
  HAMMER_ZONE_LARGE_DATA_INDEX_def HAMMER_ZONE_SMALL_DATA_INDEX_def
  HAMMER_ZONE_UNAVAIL_INDEX_def HAMMER_MAX_ZONES_def HAMMER_ROOT_VOLNO_def

definition HAMMER_ZONE :: "u64 \<Rightarrow> u64" where
  "HAMMER_ZONE offset = offset AND HAMMER_OFF_ZONE_MASK"

definition hammer_is_zone_raw_buffer :: "u64 \<Rightarrow> bool" where
  "hammer_is_zone_raw_buffer offset \<longleftrightarrow> HAMMER_ZONE offset = HAMMER_ZONE_RAW_BUFFER"

definition hammer_is_zone_undo :: "u64 \<Rightarrow> bool" where
  "hammer_is_zone_undo offset \<longleftrightarrow> HAMMER_ZONE offset = HAMMER_ZONE_UNDO"

definition HAMMER_ZONE_ENCODE :: "int \<Rightarrow> u64 \<Rightarrow> u64" where
  "HAMMER_ZONE_ENCODE zone ham_off = push_bit 60 (word_of_int zone) OR ham_off"

definition HAMMER_ZONE_DECODE :: "u64 \<Rightarrow> int" where
  "HAMMER_ZONE_DECODE ham_off = uint (drop_bit 60 ham_off)"

definition HAMMER_VOL_ENCODE :: "int \<Rightarrow> u64" where
  "HAMMER_VOL_ENCODE vol_no = push_bit 52 (word_of_int (vol_no AND 255))"

definition HAMMER_VOL_DECODE :: "u64 \<Rightarrow> int" where
  "HAMMER_VOL_DECODE ham_off = uint (drop_bit 52 ham_off AND 255)"

definition HAMMER_OFF_SHORT_ENCODE :: "u64 \<Rightarrow> u64" where
  "HAMMER_OFF_SHORT_ENCODE offset = offset AND HAMMER_OFF_SHORT_MASK"

definition HAMMER_OFF_LONG_ENCODE :: "u64 \<Rightarrow> u64" where
  "HAMMER_OFF_LONG_ENCODE offset = offset AND HAMMER_OFF_LONG_MASK"

definition HAMMER_ENCODE :: "int \<Rightarrow> int \<Rightarrow> u64 \<Rightarrow> u64" where
  "HAMMER_ENCODE zone vol_no offset =
     (push_bit 60 (word_of_int zone) OR HAMMER_VOL_ENCODE vol_no) OR HAMMER_OFF_SHORT_ENCODE offset"

definition HAMMER_ENCODE_RAW_BUFFER :: "int \<Rightarrow> u64 \<Rightarrow> u64" where
  "HAMMER_ENCODE_RAW_BUFFER vol_no offset =
     HAMMER_ENCODE HAMMER_ZONE_RAW_BUFFER_INDEX vol_no offset"

definition HAMMER_ENCODE_UNDO :: "u64 \<Rightarrow> u64" where
  "HAMMER_ENCODE_UNDO offset = HAMMER_ENCODE HAMMER_ZONE_UNDO_INDEX HAMMER_ROOT_VOLNO offset"

definition hammer_is_index_record :: "int \<Rightarrow> bool" where
  "hammer_is_index_record zone \<longleftrightarrow> HAMMER_ZONE_BTREE_INDEX \<le> zone \<and> zone < HAMMER_MAX_ZONES"

definition hammer_is_index_direct_xlated :: "int \<Rightarrow> bool" where
  "hammer_is_index_direct_xlated zone \<longleftrightarrow>
     zone = HAMMER_ZONE_RAW_BUFFER_INDEX \<or> zone = HAMMER_ZONE_FREEMAP_INDEX \<or>
     hammer_is_index_record zone"

definition hammer_is_zone_direct_xlated :: "u64 \<Rightarrow> bool" where
  "hammer_is_zone_direct_xlated offset \<longleftrightarrow>
     hammer_is_index_direct_xlated (HAMMER_ZONE_DECODE offset)"

definition hammer_xlate_to_zoneX :: "int \<Rightarrow> u64 \<Rightarrow> u64" where
  "hammer_xlate_to_zoneX zone offset =
     HAMMER_ZONE_ENCODE zone (offset AND NOT HAMMER_OFF_ZONE_MASK)"

definition hammer_xlate_to_zone2 :: "u64 \<Rightarrow> u64" where
  "hammer_xlate_to_zone2 offset = hammer_xlate_to_zoneX HAMMER_ZONE_RAW_BUFFER_INDEX offset"

definition hammer_data_zone_index :: "i32 \<Rightarrow> int" where
  "hammer_data_zone_index data_len =
     (if HAMMER_BUFSIZE \<le> sint data_len then HAMMER_ZONE_LARGE_DATA_INDEX
      else HAMMER_ZONE_SMALL_DATA_INDEX)"

section \<open>Big-blocks and the two blockmap layers\<close>

definition HAMMER_BIGBLOCK_SIZE :: int where
  "HAMMER_BIGBLOCK_SIZE = 8192 * 1024"

definition HAMMER_BIGBLOCK_SIZE64 :: u64 where
  "HAMMER_BIGBLOCK_SIZE64 = 8192 * 1024"

definition HAMMER_BIGBLOCK_MASK64 :: u64 where
  "HAMMER_BIGBLOCK_MASK64 = HAMMER_BIGBLOCK_SIZE64 - 1"

definition HAMMER_BIGBLOCK_DOALIGN :: "u64 \<Rightarrow> u64" where
  "HAMMER_BIGBLOCK_DOALIGN offset =
     (offset + HAMMER_BIGBLOCK_MASK64) AND NOT HAMMER_BIGBLOCK_MASK64"

record hammer_blockmap =
  bm_phys_offset :: u64
  bm_first_offset :: u64
  bm_next_offset :: u64
  bm_alloc_offset :: u64
  bm_reserved01 :: u32
  bm_entry_crc :: u32

record hammer_blockmap_layer1 =
  l1_blocks_free :: u64
  l1_phys_offset :: u64
  l1_reserved01 :: u64
  l1_layer2_crc :: u32
  l1_layer1_crc :: u32

record hammer_blockmap_layer2 =
  l2_zone :: u8
  l2_reserved01 :: u8
  l2_reserved02 :: u16
  l2_append_off :: u32
  l2_bytes_free :: i32
  l2_entry_crc :: u32

definition HAMMER_BLOCKMAP_UNAVAIL :: u64 where
  "HAMMER_BLOCKMAP_UNAVAIL = - 1"

definition HAMMER_BLOCKMAP_RADIX1 :: int where
  "HAMMER_BLOCKMAP_RADIX1 = HAMMER_BIGBLOCK_SIZE div 32"

definition HAMMER_BLOCKMAP_RADIX2 :: int where
  "HAMMER_BLOCKMAP_RADIX2 = HAMMER_BIGBLOCK_SIZE div 16"

definition HAMMER_BLOCKMAP_LAYER2 :: u64 where
  "HAMMER_BLOCKMAP_LAYER2 = word_of_int HAMMER_BLOCKMAP_RADIX2 * HAMMER_BIGBLOCK_SIZE64"

definition HAMMER_BLOCKMAP_LAYER1 :: u64 where
  "HAMMER_BLOCKMAP_LAYER1 = word_of_int HAMMER_BLOCKMAP_RADIX1 * HAMMER_BLOCKMAP_LAYER2"

definition HAMMER_BLOCKMAP_LAYER1_MASK :: u64 where
  "HAMMER_BLOCKMAP_LAYER1_MASK = HAMMER_BLOCKMAP_LAYER1 - 1"

definition HAMMER_BLOCKMAP_LAYER2_MASK :: u64 where
  "HAMMER_BLOCKMAP_LAYER2_MASK = HAMMER_BLOCKMAP_LAYER2 - 1"

definition HAMMER_BLOCKMAP_LAYER2_DOALIGN :: "u64 \<Rightarrow> u64" where
  "HAMMER_BLOCKMAP_LAYER2_DOALIGN offset =
     (offset + HAMMER_BLOCKMAP_LAYER2_MASK) AND NOT HAMMER_BLOCKMAP_LAYER2_MASK"

definition HAMMER_BLOCKMAP_LAYER1_INDEX :: "u64 \<Rightarrow> int" where
  "HAMMER_BLOCKMAP_LAYER1_INDEX zone2_offset =
     uint ((zone2_offset AND HAMMER_BLOCKMAP_LAYER1_MASK) div HAMMER_BLOCKMAP_LAYER2)"

definition HAMMER_BLOCKMAP_LAYER2_INDEX :: "u64 \<Rightarrow> int" where
  "HAMMER_BLOCKMAP_LAYER2_INDEX zone2_offset =
     uint ((zone2_offset AND HAMMER_BLOCKMAP_LAYER2_MASK) div HAMMER_BIGBLOCK_SIZE64)"

definition HAMMER_BLOCKMAP_LAYER1_OFFSET :: "u64 \<Rightarrow> u64" where
  "HAMMER_BLOCKMAP_LAYER1_OFFSET zone2_offset =
     word_of_int (HAMMER_BLOCKMAP_LAYER1_INDEX zone2_offset) * 32"

definition HAMMER_BLOCKMAP_LAYER2_OFFSET :: "u64 \<Rightarrow> u64" where
  "HAMMER_BLOCKMAP_LAYER2_OFFSET zone2_offset =
     word_of_int (HAMMER_BLOCKMAP_LAYER2_INDEX zone2_offset) * 16"

definition HAMMER_ZONE_LAYER2_NEXT_OFFSET :: "u64 \<Rightarrow> u64" where
  "HAMMER_ZONE_LAYER2_NEXT_OFFSET offset =
     (offset + HAMMER_BIGBLOCK_SIZE64) AND NOT HAMMER_BIGBLOCK_MASK64"

section \<open>The UNDO FIFO\<close>

definition HAMMER_MIN_UNDO_BIGBLOCKS :: int where
  "HAMMER_MIN_UNDO_BIGBLOCKS = 64"

definition HAMMER_MAX_UNDO_BIGBLOCKS :: int where
  "HAMMER_MAX_UNDO_BIGBLOCKS = 128"

definition HAMMER_HEAD_ALIGN_MASK :: u32 where
  "HAMMER_HEAD_ALIGN_MASK = 7"

definition HAMMER_UNDO_ALIGN :: u32 where
  "HAMMER_UNDO_ALIGN = 512"

definition HAMMER_UNDO_MASK :: u32 where
  "HAMMER_UNDO_MASK = 511"

definition HAMMER_UNDO_MASK64 :: u64 where
  "HAMMER_UNDO_MASK64 = 511"

definition HAMMER_UNDO_DOALIGN :: "u64 \<Rightarrow> u64" where
  "HAMMER_UNDO_DOALIGN offset = (offset + 511) AND NOT HAMMER_UNDO_MASK64"

record hammer_fifo_head =
  hdr_signature :: u16
  hdr_type :: u16
  hdr_size :: u32
  hdr_seq :: u32
  hdr_crc :: u32

record hammer_fifo_tail =
  tail_signature :: u16
  tail_type :: u16
  tail_size :: u32

section \<open>The volume header\<close>

text \<open>
  Fixed-size arrays of the header are lists: 16 bytes of each uuid, 64 bytes of the label, 16
  blockmaps and 128 UNDO big-blocks.
\<close>

definition HAMMER_FSBUF_VOLUME :: u64 where
  "HAMMER_FSBUF_VOLUME = 0xC8414D4DC5523031"

record hammer_volume_ondisk =
  vol_signature :: u64
  vol_bot_beg :: i64
  vol_mem_beg :: i64
  vol_buf_beg :: i64
  vol_buf_end :: i64
  vol_reserved01 :: i64
  vol_fsid :: "u8 list"
  vol_fstype :: "u8 list"
  vol_label :: "u8 list"
  od_vol_no :: i32
  vol_count :: i32
  vol_version :: u32
  vol_crc :: u32
  vol_flags :: u32
  vol_rootvol :: u32
  vol_reserved :: "u32 list"
  vol0_stat_bigblocks :: i64
  vol0_stat_freebigblocks :: i64
  vol0_reserved01 :: i64
  vol0_stat_inodes :: i64
  vol0_reserved02 :: i64
  vol0_btree_root :: u64
  vol0_next_tid :: u64
  vol0_reserved03 :: u64
  vol0_blockmap :: "hammer_blockmap list"
  vol0_undo_array :: "u64 list"

definition HAMMER_VOL_VERSION_MIN :: u32 where
  "HAMMER_VOL_VERSION_MIN = 1"

definition HAMMER_VOL_VERSION_WIP :: u32 where
  "HAMMER_VOL_VERSION_WIP = 8"

definition HAMMER_VOL_VERSION_SIX :: u32 where
  "HAMMER_VOL_VERSION_SIX = 6"

definition HAMMER_VOL_VERSION_SEVEN :: u32 where
  "HAMMER_VOL_VERSION_SEVEN = 7"

definition hammer_xlate_to_phys :: "hammer_volume_ondisk \<Rightarrow> u64 \<Rightarrow> i64" where
  "hammer_xlate_to_phys volume zone2_offset =
     vol_buf_beg volume + HAMMER_OFF_SHORT_ENCODE zone2_offset"

definition HAMMER_UNDO_INDEX :: "u64 \<Rightarrow> u64" where
  "HAMMER_UNDO_INDEX zone3_offset = HAMMER_OFF_SHORT_ENCODE zone3_offset div HAMMER_BIGBLOCK_SIZE64"

text \<open>
  The C macro indexes \<open>vol0_undo_array\<close> without a check; an index of 128 or more is outside the
  array.
\<close>

definition hammer_xlate_to_undo :: "hammer_volume_ondisk \<Rightarrow> u64 \<Rightarrow> u64 run" where
  "hammer_xlate_to_undo volume zone3_offset =
     (let i = unat (HAMMER_UNDO_INDEX zone3_offset) in
      if i < length (vol0_undo_array volume)
      then Inr (vol0_undo_array volume ! i + (zone3_offset AND HAMMER_BIGBLOCK_MASK64))
      else Inl (Out_of_bounds ''vol0_undo_array''))"

definition HAMMER_VOL_BUF_SIZE :: "hammer_volume_ondisk \<Rightarrow> i64" where
  "HAMMER_VOL_BUF_SIZE volume = vol_buf_end volume - vol_buf_beg volume"

lemma mask_defs [mask_simps]:
  "HAMMER_BUFMASK64 = mask 14"
  "HAMMER_BIGBLOCK_MASK64 = mask 23"
  "HAMMER_BLOCKMAP_LAYER2_MASK = mask 42"
  "HAMMER_BLOCKMAP_LAYER1_MASK = mask 60"
  "HAMMER_OFF_SHORT_MASK = mask 52"
  "HAMMER_OFF_LONG_MASK = mask 60"
  "HAMMER_OFF_ZONE_MASK = NOT (mask 60)"
  "HAMMER_BLOCKMAP_LAYER2 = 2 ^ 42"
  "HAMMER_BIGBLOCK_SIZE64 = 2 ^ 23"
  by code_simp+

section \<open>Offsets read as natural numbers\<close>

text \<open>
  Every macro above is an arithmetic operation on the number the offset denotes. These readings
  are the interface of the macros to the other theories.
\<close>

lemma unat_pow2_64:
  "unat ((2::u64) ^ 42) = 2 ^ 42" "unat ((2::u64) ^ 23) = 2 ^ 23"
  by simp_all

lemma zone_decode_nat: "HAMMER_ZONE_DECODE x = int (unat x div 2 ^ 60)"
  unfolding HAMMER_ZONE_DECODE_def uint_int_unat drop_bit_unat ..

lemma and_255: "(x :: u64) AND 255 = x AND mask 8"
  by (simp add: mask_eq_exp_minus_1)

lemma vol_decode_nat: "HAMMER_VOL_DECODE x = int (unat x div 2 ^ 52 mod 256)"
  unfolding HAMMER_VOL_DECODE_def and_255 uint_int_unat and_mask_unat drop_bit_unat by simp

lemma short_nat: "unat (HAMMER_OFF_SHORT_ENCODE x) = unat x mod 2 ^ 52"
  by (simp only: HAMMER_OFF_SHORT_ENCODE_def mask_simps and_mask_unat)

lemma long_nat: "unat (HAMMER_OFF_LONG_ENCODE x) = unat x mod 2 ^ 60"
  by (simp only: HAMMER_OFF_LONG_ENCODE_def mask_simps and_mask_unat)

lemma layer1_index_nat: "HAMMER_BLOCKMAP_LAYER1_INDEX x = int (unat x mod 2 ^ 60 div 2 ^ 42)"
  by (simp only: HAMMER_BLOCKMAP_LAYER1_INDEX_def mask_simps and_mask_unat uint_int_unat
      word_div_unat unat_pow2_64)

lemma layer2_index_nat: "HAMMER_BLOCKMAP_LAYER2_INDEX x = int (unat x mod 2 ^ 42 div 2 ^ 23)"
  by (simp only: HAMMER_BLOCKMAP_LAYER2_INDEX_def mask_simps and_mask_unat uint_int_unat
      word_div_unat unat_pow2_64)

lemma encode_nat:
  assumes z: "0 \<le> z" "z < 16" and v: "0 \<le> v" "v < 256"
  shows "unat (HAMMER_ENCODE z v off) = nat z * 2 ^ 60 + nat v * 2 ^ 52 + unat off mod 2 ^ 52"
proof -
  have "v AND 255 = take_bit 8 v"
    by (simp add: take_bit_eq_mask mask_eq_exp_minus_1)
  then have vm: "v AND 255 = v"
    using v by (simp add: take_bit_int_eq_self)
  have z60: "unat (push_bit 60 (word_of_int z) :: u64) = nat z * 2 ^ 60"
    using z by (subst unat_push_bit) (simp_all add: unat_eq_nat_uint uint_word_of_int)
  have v52: "unat (HAMMER_VOL_ENCODE v) = nat v * 2 ^ 52"
    unfolding HAMMER_VOL_ENCODE_def vm
    using v by (subst unat_push_bit) (simp_all add: unat_eq_nat_uint uint_word_of_int)
  have zv: "unat (push_bit 60 (word_of_int z) OR HAMMER_VOL_ENCODE v :: u64)
      = nat z * 2 ^ 60 + nat v * 2 ^ 52"
    using v by (subst unat_or_above [where n = 60]) (simp_all add: z60 v52)
  show ?thesis
    unfolding HAMMER_ENCODE_def
    by (subst unat_or_above [where n = 52]) (simp_all add: zv short_nat)
qed

lemma zone_encode_nat:
  assumes z: "0 \<le> z" "z < 16" and "unat off < 2 ^ 60"
  shows "unat (HAMMER_ZONE_ENCODE z off) = nat z * 2 ^ 60 + unat off"
proof -
  have z60: "unat (push_bit 60 (word_of_int z) :: u64) = nat z * 2 ^ 60"
    using z by (subst unat_push_bit) (simp_all add: unat_eq_nat_uint uint_word_of_int)
  show ?thesis
    unfolding HAMMER_ZONE_ENCODE_def
    using assms by (subst unat_or_above [where n = 60]) (simp_all add: z60)
qed

lemma xlate_zoneX_nat:
  assumes "0 \<le> z" "z < 16"
  shows "unat (hammer_xlate_to_zoneX z off) = nat z * 2 ^ 60 + unat off mod 2 ^ 60"
proof -
  have "unat (off AND mask 60) = unat off mod 2 ^ 60" by (rule and_mask_unat)
  with assms show ?thesis
    unfolding hammer_xlate_to_zoneX_def mask_simps
    by (subst zone_encode_nat) (simp_all)
qed

lemma zone_is_nat: "(HAMMER_ZONE x = HAMMER_ZONE y) \<longleftrightarrow> unat x div 2 ^ 60 = unat y div 2 ^ 60"
proof -
  have "unat (HAMMER_ZONE w) = unat w div 2 ^ 60 * 2 ^ 60" for w
    unfolding HAMMER_ZONE_def mask_simps unat_and_not_mask by (simp add: minus_mod_eq_div_mult)
  then show ?thesis
    unfolding word_unat_eq_iff by simp
qed

lemma raw_buffer_nat: "hammer_is_zone_raw_buffer x \<longleftrightarrow> unat x div 2 ^ 60 = 2"
  using zone_is_nat [of x HAMMER_ZONE_RAW_BUFFER]
  by (simp add: hammer_is_zone_raw_buffer_def HAMMER_ZONE_def HAMMER_ZONE_RAW_BUFFER_def HAMMER_OFF_ZONE_MASK_def)

lemma undo_nat: "hammer_is_zone_undo x \<longleftrightarrow> unat x div 2 ^ 60 = 3"
  using zone_is_nat [of x HAMMER_ZONE_UNDO]
  by (simp add: hammer_is_zone_undo_def HAMMER_ZONE_def HAMMER_ZONE_UNDO_def HAMMER_OFF_ZONE_MASK_def)

lemma offset_digits:
  fixes z v k :: nat
  assumes "v < 256" and "k < 2 ^ 52"
  shows "(z * 2 ^ 60 + v * 2 ^ 52 + k) div 2 ^ 60 = z"
    and "(z * 2 ^ 60 + v * 2 ^ 52 + k) div 2 ^ 52 mod 256 = v"
    and "(z * 2 ^ 60 + v * 2 ^ 52 + k) mod 2 ^ 52 = k"
proof -
  have e: "z * 2 ^ 60 + v * 2 ^ 52 + k = (z * 256 + v) * 2 ^ 52 + k" by simp
  have d: "(z * 2 ^ 60 + v * 2 ^ 52 + k) div 2 ^ 52 = z * 256 + v"
    unfolding e using assms(2) by (rule nat_digit)
  show "(z * 2 ^ 60 + v * 2 ^ 52 + k) div 2 ^ 52 mod 256 = v"
    unfolding d using assms(1) by (rule nat_digit)
  show "(z * 2 ^ 60 + v * 2 ^ 52 + k) mod 2 ^ 52 = k"
    unfolding e using assms(2) by (rule nat_digit)
  have "(z * 2 ^ 60 + v * 2 ^ 52 + k) div (2 ^ 52 * 256) = z"
    unfolding div_mult2_eq d using assms(1) by (rule nat_digit)
  then show "(z * 2 ^ 60 + v * 2 ^ 52 + k) div 2 ^ 60 = z" by simp
qed

lemma bigblock_mask_nat: "unat (x AND HAMMER_BIGBLOCK_MASK64) = unat x mod 2 ^ 23"
  by (simp only: mask_simps and_mask_unat)

lemma bufmask_nat: "unat (x AND HAMMER_BUFMASK64) = unat x mod 2 ^ 14"
  by (simp only: mask_simps and_mask_unat)

lemma bigblock_base_nat: "unat (x AND NOT HAMMER_BIGBLOCK_MASK64) = unat x div 2 ^ 23 * 2 ^ 23"
  unfolding mask_simps unat_and_not_mask by (simp add: minus_mod_eq_div_mult)

lemma buf_base_nat: "unat (x AND NOT HAMMER_BUFMASK64) = unat x div 2 ^ 14 * 2 ^ 14"
  unfolding mask_simps unat_and_not_mask by (simp add: minus_mod_eq_div_mult)

section \<open>Properties of the encodings\<close>

text \<open>
  C30: an offset encoded from a zone, a volume number and a 52-bit offset decodes to the same zone,
  volume number and offset.
\<close>

theorem hammer_encode_roundtrip:
  assumes "0 \<le> zone" "zone < 16" "0 \<le> vol_no" "vol_no < 256" "off \<le> HAMMER_OFF_SHORT_MASK"
  shows "HAMMER_ZONE_DECODE (HAMMER_ENCODE zone vol_no off) = zone \<and>
    HAMMER_VOL_DECODE (HAMMER_ENCODE zone vol_no off) = vol_no \<and>
    HAMMER_OFF_SHORT_ENCODE (HAMMER_ENCODE zone vol_no off) = off"
proof -
  have off: "unat off < 2 ^ 52"
    using assms(5) by (simp add: word_le_nat_alt HAMMER_OFF_SHORT_MASK_def)
  have v: "nat vol_no < 256" using assms by simp
  let ?e = "HAMMER_ENCODE zone vol_no off"
  have e: "unat ?e = nat zone * 2 ^ 60 + nat vol_no * 2 ^ 52 + unat off"
    using encode_nat [of zone vol_no off] assms off by simp
  show ?thesis
    using assms
    by (simp only: zone_decode_nat vol_decode_nat word_unat_eq_iff short_nat e
        offset_digits [OF v off]) simp
qed

theorem hammer_encode_roundtrip_witness:
  "HAMMER_ZONE_DECODE (HAMMER_ENCODE 8 3 0x123456789) = 8 \<and>
   HAMMER_VOL_DECODE (HAMMER_ENCODE 8 3 0x123456789) = 3 \<and>
   HAMMER_OFF_SHORT_ENCODE (HAMMER_ENCODE 8 3 0x123456789) = 0x123456789"
  by (rule hammer_encode_roundtrip) (simp_all add: HAMMER_OFF_SHORT_MASK_def)

lemma hammer_offset_rebuild:
  "HAMMER_ENCODE (HAMMER_ZONE_DECODE x) (HAMMER_VOL_DECODE x) (HAMMER_OFF_SHORT_ENCODE x) = x"
proof -
  have "unat x < 2 ^ 64" using unsigned_less [of x] by simp
  then have z: "HAMMER_ZONE_DECODE x < 16"
    unfolding zone_decode_nat by simp
  have v: "HAMMER_VOL_DECODE x < 256"
    unfolding vol_decode_nat by simp
  have "unat (HAMMER_ENCODE (HAMMER_ZONE_DECODE x) (HAMMER_VOL_DECODE x) (HAMMER_OFF_SHORT_ENCODE x))
    = unat x div 2 ^ 60 * 2 ^ 60 + unat x div 2 ^ 52 mod 256 * 2 ^ 52 + unat x mod 2 ^ 52"
    using z v by (subst encode_nat) (simp_all add: zone_decode_nat vol_decode_nat short_nat)
  also have "\<dots> = unat x"
    using nat_digits3 [of "unat x" "2 ^ 52" 256] by simp
  finally show ?thesis by (simp only: word_unat_eq_iff)
qed

lemma layer_digits:
  fixes n :: nat
  defines "m \<equiv> n mod 2 ^ 60"
  shows "m = n mod 2 ^ 60 div 2 ^ 42 * 2 ^ 42 + n mod 2 ^ 42 div 2 ^ 23 * 2 ^ 23 + n mod 2 ^ 23"
    and "m div 2 ^ 23 = n mod 2 ^ 60 div 2 ^ 42 * 2 ^ 19 + n mod 2 ^ 42 div 2 ^ 23"
proof -
  have "n mod 2 ^ 42 = m mod 2 ^ 42" "n mod 2 ^ 23 = m mod 2 ^ 23"
    unfolding m_def by (simp_all add: mod_mod_cancel)
  moreover have "m mod 2 ^ 42 div 2 ^ 23 = m div 2 ^ 23 mod 2 ^ 19"
    using mod_div_digit [of m "2 ^ 23" "2 ^ 19"] by simp
  ultimately have d: "n mod 2 ^ 42 div 2 ^ 23 = m div 2 ^ 23 mod 2 ^ 19"
      "n mod 2 ^ 23 = m mod 2 ^ 23" by simp_all
  show "m = n mod 2 ^ 60 div 2 ^ 42 * 2 ^ 42 + n mod 2 ^ 42 div 2 ^ 23 * 2 ^ 23 + n mod 2 ^ 23"
    unfolding d using nat_digits3 [of m "2 ^ 23" "2 ^ 19"] by (simp add: m_def)
  have "m div 2 ^ 23 = m div 2 ^ 23 div 2 ^ 19 * 2 ^ 19 + m div 2 ^ 23 mod 2 ^ 19"
    by (simp only: div_mult_mod_eq)
  then show "m div 2 ^ 23 = n mod 2 ^ 60 div 2 ^ 42 * 2 ^ 19 + n mod 2 ^ 42 div 2 ^ 23"
    unfolding d by (simp add: m_def div_mult2_eq [symmetric])
qed
text \<open>
  C26: the two layer indices enumerate the big-blocks of the 60-bit address space: they are within
  the radix of their layer, they rebuild the offset together with the offset inside the big-block,
  and two offsets share both indices exactly when they lie in the same big-block.
\<close>

theorem layer_indices_enumerate_bigblocks:
  "(0 \<le> HAMMER_BLOCKMAP_LAYER1_INDEX x \<and> HAMMER_BLOCKMAP_LAYER1_INDEX x < HAMMER_BLOCKMAP_RADIX1 \<and>
    0 \<le> HAMMER_BLOCKMAP_LAYER2_INDEX x \<and> HAMMER_BLOCKMAP_LAYER2_INDEX x < HAMMER_BLOCKMAP_RADIX2 \<and>
    uint (HAMMER_OFF_LONG_ENCODE x) =
      HAMMER_BLOCKMAP_LAYER1_INDEX x * uint HAMMER_BLOCKMAP_LAYER2 +
      HAMMER_BLOCKMAP_LAYER2_INDEX x * HAMMER_BIGBLOCK_SIZE +
      uint (x AND HAMMER_BIGBLOCK_MASK64)) \<and>
   (HAMMER_BLOCKMAP_LAYER1_INDEX x = HAMMER_BLOCKMAP_LAYER1_INDEX y \<and>
    HAMMER_BLOCKMAP_LAYER2_INDEX x = HAMMER_BLOCKMAP_LAYER2_INDEX y \<longleftrightarrow>
    HAMMER_OFF_LONG_ENCODE x AND NOT HAMMER_BIGBLOCK_MASK64 =
    HAMMER_OFF_LONG_ENCODE y AND NOT HAMMER_BIGBLOCK_MASK64)"
  (is "?A \<and> ?B")
proof
  have big: "uint HAMMER_BLOCKMAP_LAYER2 = 2 ^ 42" "HAMMER_BIGBLOCK_SIZE = 2 ^ 23"
    by (simp_all only: mask_simps HAMMER_BIGBLOCK_SIZE_def) simp_all
  have "int (unat x mod 2 ^ 60) = int (unat x mod 2 ^ 60 div 2 ^ 42 * 2 ^ 42 +
      unat x mod 2 ^ 42 div 2 ^ 23 * 2 ^ 23 + unat x mod 2 ^ 23)"
    by (subst layer_digits(1)) (rule refl)
  then show ?A
    unfolding layer1_index_nat layer2_index_nat uint_int_unat [of "HAMMER_OFF_LONG_ENCODE x"]
      uint_int_unat [of "x AND HAMMER_BIGBLOCK_MASK64"] long_nat bigblock_mask_nat big
    by (simp add: HAMMER_BLOCKMAP_RADIX1_def HAMMER_BLOCKMAP_RADIX2_def HAMMER_BIGBLOCK_SIZE_def
        less_mult_imp_div_less)
next
  have "unat x mod 2 ^ 60 div 2 ^ 23 = unat y mod 2 ^ 60 div 2 ^ 23 \<longleftrightarrow>
      unat x mod 2 ^ 60 div 2 ^ 42 = unat y mod 2 ^ 60 div 2 ^ 42 \<and>
      unat x mod 2 ^ 42 div 2 ^ 23 = unat y mod 2 ^ 42 div 2 ^ 23"
    unfolding layer_digits(2) by (rule digit_pair_eq_iff) simp_all
  then show ?B
    unfolding layer1_index_nat layer2_index_nat word_unat_eq_iff bigblock_base_nat long_nat
    by simp
qed

text \<open>
  C27: translating an offset to another zone replaces the zone bits only: the volume, the offset
  inside the volume, both layer indices and the offset inside the big-block stay, so the freemap
  entry of an address can be found from the address in any directly translated zone; translating
  twice is translating once.
\<close>

theorem xlate_keeps_location:
  assumes "0 \<le> zone" and "zone < HAMMER_MAX_ZONES"
  shows "HAMMER_ZONE_DECODE (hammer_xlate_to_zoneX zone x) = zone \<and>
    HAMMER_VOL_DECODE (hammer_xlate_to_zoneX zone x) = HAMMER_VOL_DECODE x \<and>
    HAMMER_OFF_SHORT_ENCODE (hammer_xlate_to_zoneX zone x) = HAMMER_OFF_SHORT_ENCODE x \<and>
    HAMMER_BLOCKMAP_LAYER1_INDEX (hammer_xlate_to_zoneX zone x) = HAMMER_BLOCKMAP_LAYER1_INDEX x \<and>
    HAMMER_BLOCKMAP_LAYER2_INDEX (hammer_xlate_to_zoneX zone x) = HAMMER_BLOCKMAP_LAYER2_INDEX x \<and>
    hammer_xlate_to_zone2 (hammer_xlate_to_zoneX zone x) = hammer_xlate_to_zone2 x"
proof -
  let ?m = "unat x mod 2 ^ 60"
  have z: "0 \<le> zone" "zone < 16" using assms by (simp_all add: HAMMER_MAX_ZONES_def)
  have u: "unat (hammer_xlate_to_zoneX zone x) = nat zone * 2 ^ 60 + ?m"
    using z by (rule xlate_zoneX_nat)
  have low: "(nat zone * 2 ^ 60 + ?m) mod 2 ^ 52 = unat x mod 2 ^ 52"
    "(nat zone * 2 ^ 60 + ?m) mod 2 ^ 42 = unat x mod 2 ^ 42"
    "(nat zone * 2 ^ 60 + ?m) mod 2 ^ 60 = ?m"
    by (rule high_digit_mod; simp)+
  have digit: "n div 2 ^ 52 mod 256 = n mod 2 ^ 60 div 2 ^ 52" for n :: nat
    using mod_div_digit [of n "2 ^ 52" 256] by simp
  have vol: "(nat zone * 2 ^ 60 + ?m) div 2 ^ 52 mod 256 = unat x div 2 ^ 52 mod 256"
    by (simp only: digit low(3))
  have "HAMMER_ZONE_DECODE (hammer_xlate_to_zoneX zone x) = zone"
    unfolding zone_decode_nat u using z by (subst nat_digit) simp_all
  moreover have "hammer_xlate_to_zone2 (hammer_xlate_to_zoneX zone x) = hammer_xlate_to_zone2 x"
    by (simp add: hammer_xlate_to_zone2_def zone_index_defs word_unat_eq_iff xlate_zoneX_nat u low(3))
  ultimately show ?thesis
    by (simp only: vol_decode_nat word_unat_eq_iff short_nat layer1_index_nat layer2_index_nat
        u low vol simp_thms)
qed

theorem xlate_keeps_location_witness:
  "HAMMER_ZONE_DECODE (hammer_xlate_to_zoneX 2 0x8030000012345678) = 2 \<and>
   HAMMER_VOL_DECODE (hammer_xlate_to_zoneX 2 0x8030000012345678) = 3 \<and>
   HAMMER_BLOCKMAP_LAYER2_INDEX (hammer_xlate_to_zoneX 2 0x8030000012345678) = 36"
proof -
  have "HAMMER_VOL_DECODE 0x8030000012345678 = 3"
    and "HAMMER_BLOCKMAP_LAYER2_INDEX 0x8030000012345678 = 36"
    by (simp_all add: vol_decode_nat layer2_index_nat)
  then show ?thesis
    using xlate_keeps_location [of 2 "0x8030000012345678"] by (simp add: HAMMER_MAX_ZONES_def)
qed

end
