(* ===== verification/Btree_Format.thy ===== *)
theory Btree_Format
  imports Disk_Format
begin

text \<open>
  The B-Tree structures of \<open>sys/vfs/hammer/hammer_btree.h\<close> and the record constants of
  \<open>hammer_disk.h\<close> that select how an element is checked and accounted: element base, leaf and
  internal elements, nodes, the element classifiers and the localization encoding of a
  pseudo-filesystem id.
\<close>

section \<open>Record types and limits\<close>

definition HAMMER_LOCALIZE_INODE :: u32 where
  "HAMMER_LOCALIZE_INODE = 0x00000001"

definition HAMMER_LOCALIZE_MISC :: u32 where
  "HAMMER_LOCALIZE_MISC = 0x00000002"

definition HAMMER_LOCALIZE_PSEUDOFS_MASK :: u32 where
  "HAMMER_LOCALIZE_PSEUDOFS_MASK = 0xFFFF0000"

definition HAMMER_RECTYPE_INODE :: u16 where
  "HAMMER_RECTYPE_INODE = 0x0001"

definition HAMMER_RECTYPE_DATA :: u16 where
  "HAMMER_RECTYPE_DATA = 0x0010"

definition HAMMER_BTREE_TYPE_INTERNAL :: u8 where
  "HAMMER_BTREE_TYPE_INTERNAL = 0x49"

definition HAMMER_BTREE_TYPE_LEAF :: u8 where
  "HAMMER_BTREE_TYPE_LEAF = 0x4C"

definition HAMMER_BTREE_TYPE_RECORD :: u8 where
  "HAMMER_BTREE_TYPE_RECORD = 0x52"

definition HAMMER_BTREE_TYPE_DELETED :: u8 where
  "HAMMER_BTREE_TYPE_DELETED = 0x44"

definition HAMMER_BTREE_TYPE_NONE :: u8 where
  "HAMMER_BTREE_TYPE_NONE = 0"

definition HAMMER_BTREE_LEAF_ELMS :: int where
  "HAMMER_BTREE_LEAF_ELMS = 63"

definition HAMMER_BTREE_INT_ELMS :: int where
  "HAMMER_BTREE_INT_ELMS = HAMMER_BTREE_LEAF_ELMS - 1"

section \<open>Elements and nodes\<close>

record hammer_base_elm =
  obj_id :: i64
  key :: i64
  create_tid :: u64
  delete_tid :: u64
  rec_type :: u16
  obj_type :: u8
  btype :: u8
  localization :: u32

record hammer_btree_internal_elm =
  int_base :: hammer_base_elm
  int_mirror_tid :: u64
  int_subtree_offset :: u64
  int_reserved01 :: i32
  int_reserved02 :: i32

record hammer_btree_leaf_elm =
  leaf_base :: hammer_base_elm
  leaf_create_ts :: u32
  leaf_delete_ts :: u32
  leaf_data_offset :: u64
  leaf_data_len :: i32
  leaf_data_crc :: u32

text \<open>
  The union of the two element kinds; which member the code reads is decided by the type of the
  node that holds the element.
\<close>

datatype hammer_btree_elm =
    Leaf_Elm hammer_btree_leaf_elm
  | Internal_Elm hammer_btree_internal_elm

fun elm_base :: "hammer_btree_elm \<Rightarrow> hammer_base_elm" where
  "elm_base (Leaf_Elm l) = leaf_base l"
| "elm_base (Internal_Elm i) = int_base i"

record hammer_node_ondisk =
  nd_crc :: u32
  nd_reserved01 :: u32
  nd_parent :: u64
  nd_count :: i32
  nd_type :: u8
  nd_reserved02 :: u8
  nd_reserved03 :: u16
  nd_reserved04 :: u64
  nd_reserved05 :: u64
  nd_reserved06 :: u64
  nd_reserved07 :: u64
  nd_mirror_tid :: u64
  nd_elms :: "hammer_btree_elm list"

definition hammer_is_internal_node_elm :: "hammer_btree_elm \<Rightarrow> int" where
  "hammer_is_internal_node_elm elm =
     (if btype (elm_base elm) = HAMMER_BTREE_TYPE_INTERNAL \<or>
         btype (elm_base elm) = HAMMER_BTREE_TYPE_LEAF then 1 else 0)"

definition hammer_is_leaf_node_elm :: "hammer_btree_elm \<Rightarrow> int" where
  "hammer_is_leaf_node_elm elm =
     (if btype (elm_base elm) = HAMMER_BTREE_TYPE_RECORD then 1 else 0)"

definition hammer_node_max_elements :: "u8 \<Rightarrow> int" where
  "hammer_node_max_elements type =
     (if type = HAMMER_BTREE_TYPE_LEAF then HAMMER_BTREE_LEAF_ELMS
      else if type = HAMMER_BTREE_TYPE_INTERNAL then HAMMER_BTREE_INT_ELMS
      else - 1)"

definition hammer_elm_btype :: "hammer_btree_elm \<Rightarrow> u8" where
  "hammer_elm_btype elm =
     (let t = btype (elm_base elm) in
      if t = HAMMER_BTREE_TYPE_INTERNAL \<or> t = HAMMER_BTREE_TYPE_LEAF \<or>
         t = HAMMER_BTREE_TYPE_RECORD \<or> t = HAMMER_BTREE_TYPE_DELETED then t
      else if t = HAMMER_BTREE_TYPE_NONE then 0x2A else 0x3F)"

section \<open>Localization\<close>

definition lo_to_pfs :: "u32 \<Rightarrow> int" where
  "lo_to_pfs lo = uint (drop_bit 16 (lo AND HAMMER_LOCALIZE_PSEUDOFS_MASK))"

definition pfs_to_lo :: "int \<Rightarrow> u32" where
  "pfs_to_lo pfs = push_bit 16 (word_of_int pfs) AND HAMMER_LOCALIZE_PSEUDOFS_MASK"

lemma pfs_mask: "HAMMER_LOCALIZE_PSEUDOFS_MASK = NOT (mask 16)"
  by code_simp

lemma lo_to_pfs_pfs_to_lo:
  assumes "0 \<le> pfs" and "pfs < 65536"
  shows "lo_to_pfs (pfs_to_lo pfs OR (lo AND mask 16)) = pfs"
proof -
  let ?p = "word_of_int pfs :: u32"
  have p: "unat ?p = nat pfs"
    using assms by (simp add: unat_eq_nat_uint uint_word_of_int)
  have "drop_bit 16 ((pfs_to_lo pfs OR (lo AND mask 16)) AND NOT (mask 16)) =
      drop_bit 16 (push_bit 16 ?p)"
    unfolding pfs_to_lo_def pfs_mask
    by (rule bit_word_eqI) (auto simp: bit_simps dest: bit_imp_le_length)
  moreover have "unat (push_bit 16 ?p) = nat pfs * 2 ^ 16"
    using assms by (subst unat_push_bit) (simp_all add: p)
  ultimately show ?thesis
    using assms unfolding lo_to_pfs_def pfs_mask uint_int_unat by (simp add: drop_bit_unat)
qed

end
