(* ===== verification/Crc32.thy ===== *)
theory Crc32
  imports Crc_Tables
begin

text \<open>
  The checksums of \<open>sys/libkern/crc32.c\<close> and \<open>icrc32.c\<close>: the byte loop over one table and the
  slicing-by-eight loop, whose split into head, slices and tail depends on the address of the
  buffer. The lemmas relate both to a bitwise shift register and derive what the checksums detect.
  A buffer is the list of its bytes; \<open>addr\<close> is its address.
\<close>

section \<open>CRC-32 and CRC-32C\<close>

text \<open>The loop body of every byte loop: one table lookup.\<close>

definition crc_table_step :: "u32 list \<Rightarrow> u32 \<Rightarrow> u8 \<Rightarrow> u32" where
  "crc_table_step tab crc b = (tab ! unat ((crc XOR ucast b) AND 0xFF)) XOR drop_bit 8 crc"

definition crc_table_bytes :: "u32 list \<Rightarrow> u32 \<Rightarrow> u8 list \<Rightarrow> u32" where
  "crc_table_bytes tab crc buf = foldl (crc_table_step tab) crc buf"

definition crc32 :: "u8 list \<Rightarrow> u32" where
  "crc32 buf = crc_table_bytes crc32_tab (NOT 0) buf XOR NOT 0"

definition crc32_ext :: "u8 list \<Rightarrow> u32 \<Rightarrow> u32" where
  "crc32_ext buf ocrc = crc_table_bytes crc32_tab (NOT ocrc) buf XOR NOT 0"

definition singletable_crc32c :: "u32 \<Rightarrow> u8 list \<Rightarrow> u32" where
  "singletable_crc32c crc buf = crc_table_bytes crc32Table crc buf"

text \<open>
  The body of the loop over pairs of 32-bit words (the little endian branch), on the words it
  loads.
\<close>

definition crc32c_sb8_step :: "u32 \<Rightarrow> u32 \<Rightarrow> u32 \<Rightarrow> u32" where
  "crc32c_sb8_step crc0 word0 word1 =
    (let crc = crc0 XOR word0;
         term1 = (sctp_crc_tableil8_o88 ! unat (crc AND 0xFF)) XOR
                 (sctp_crc_tableil8_o80 ! unat (drop_bit 8 crc AND 0xFF));
         term2 = drop_bit 16 crc;
         crc = term1 XOR
               (sctp_crc_tableil8_o72 ! unat (term2 AND 0xFF)) XOR
               (sctp_crc_tableil8_o64 ! unat (drop_bit 8 term2 AND 0xFF));
         term1 = (sctp_crc_tableil8_o56 ! unat (word1 AND 0xFF)) XOR
                 (sctp_crc_tableil8_o48 ! unat (drop_bit 8 word1 AND 0xFF));
         term2 = drop_bit 16 word1
     in crc XOR term1 XOR
        (sctp_crc_tableil8_o40 ! unat (term2 AND 0xFF)) XOR
        (sctp_crc_tableil8_o32 ! unat (drop_bit 8 term2 AND 0xFF)))"

fun crc32c_sb8_loop :: "nat \<Rightarrow> u32 \<Rightarrow> u8 list \<Rightarrow> u32 \<times> u8 list" where
  "crc32c_sb8_loop 0 crc p_buf = (crc, p_buf)"
| "crc32c_sb8_loop (Suc n) crc p_buf =
     crc32c_sb8_loop n (crc32c_sb8_step crc (le_word (take 4 p_buf)) (le_word (take 4 (drop 4 p_buf))))
       (drop 8 p_buf)"

definition crc32c_sb8_64_bit :: "u32 \<Rightarrow> u8 list \<Rightarrow> nat \<Rightarrow> u32" where
  "crc32c_sb8_64_bit crc p_buf init_bytes =
    (let running_length = (length p_buf - init_bytes) div 8 * 8;
         end_bytes = length p_buf - init_bytes - running_length;
         crc = crc_table_bytes sctp_crc_tableil8_o32 crc (take init_bytes p_buf);
         (crc, p_buf) = crc32c_sb8_loop (running_length div 8) crc (drop init_bytes p_buf)
     in crc_table_bytes sctp_crc_tableil8_o32 crc (take end_bytes p_buf))"

definition multitable_crc32c :: "u64 \<Rightarrow> u32 \<Rightarrow> u8 list \<Rightarrow> u32" where
  "multitable_crc32c addr crc32c buffer =
    (if length buffer = 0 then crc32c
     else crc32c_sb8_64_bit crc32c buffer (unat (4 - (addr AND 3))))"

definition calculate_crc32c :: "u64 \<Rightarrow> u32 \<Rightarrow> u8 list \<Rightarrow> u32" where
  "calculate_crc32c addr crc32c buffer =
    (if length buffer < 4 then singletable_crc32c crc32c buffer
     else multitable_crc32c addr crc32c buffer)"

definition iscsi_crc32 :: "u64 \<Rightarrow> u8 list \<Rightarrow> u32" where
  "iscsi_crc32 addr buf = NOT (calculate_crc32c addr (- 1) (take (length buf mod 2 ^ 32) buf))"

definition iscsi_crc32_ext :: "u64 \<Rightarrow> u8 list \<Rightarrow> u32 \<Rightarrow> u32" where
  "iscsi_crc32_ext addr buf ocrc =
     NOT (calculate_crc32c addr (NOT ocrc) (take (length buf mod 2 ^ 32) buf))"

section \<open>The reference: a bitwise shift register\<close>

definition crc_bytes :: "u32 \<Rightarrow> u32 \<Rightarrow> u8 list \<Rightarrow> u32" where
  "crc_bytes poly crc buf = foldl (\<lambda>c b. crc_byte poly (c XOR ucast b)) crc buf"

lemma crc_bit_even: "\<not> bit c 0 \<Longrightarrow> crc_bit p c = drop_bit 1 c"
  by (simp add: crc_bit_alt)

lemma crc_bit_funpow_shift:
  assumes "\<And>k. k < n \<Longrightarrow> \<not> bit y k"
  shows "(crc_bit p ^^ n) y = drop_bit n y"
  using assms
proof (induction n)
  case 0
  then show ?case by simp
next
  case (Suc n)
  then have "(crc_bit p ^^ n) y = drop_bit n y" and "\<not> bit (drop_bit n y) 0"
    by (simp_all add: bit_drop_bit_eq)
  then show ?case by (simp add: crc_bit_even)
qed

lemma crc_byte_push:
  assumes x: "x < 2 ^ 24"
  shows "crc_byte p (push_bit 8 x) = x"
proof -
  have "crc_byte p (push_bit 8 x) = drop_bit 8 (push_bit 8 x)"
    unfolding crc_byte_def by (rule crc_bit_funpow_shift) (simp add: bit_simps)
  also have "\<dots> = x"
  proof -
    have "unat x < 2 ^ 24" using x by (simp add: word_less_nat_alt)
    then have "unat (push_bit 8 x) = unat x * 2 ^ 8"
      by (intro unat_push_bit) simp
    then show ?thesis by (simp add: word_unat_eq_iff drop_bit_unat)
  qed
  finally show ?thesis .
qed

lemma low_byte_split: "(c :: u32) = (c AND 0xFF) XOR push_bit 8 (drop_bit 8 c)"
proof (rule bit_word_eqI)
  fix k assume k: "k < LENGTH(32)"
  have m: "(0xFF :: u32) = mask 8" by (simp add: mask_eq_exp_minus_1)
  show "bit c k \<longleftrightarrow> bit ((c AND 0xFF) XOR push_bit 8 (drop_bit 8 c)) k"
    using k unfolding m by (auto simp: bit_simps)
qed

lemma drop_8_less: "drop_bit 8 (c :: u32) < 2 ^ 24"
proof -
  have "unat c div 2 ^ 8 < 2 ^ 24"
    using unsigned_less [of c, where ?'a = nat] by (simp add: less_mult_imp_div_less)
  then show ?thesis by (simp add: word_less_nat_alt drop_bit_unat)
qed

lemma crc_byte_split: "crc_byte p c = crc_byte p (c AND 0xFF) XOR drop_bit 8 c"
  by (subst low_byte_split) (simp only: crc_byte_linear crc_byte_push [OF drop_8_less])

lemma byte_index: "unat ((c :: u32) AND 0xFF) < 256"
proof -
  have m: "(0xFF :: u32) = mask 8" by (simp add: mask_eq_exp_minus_1)
  show ?thesis unfolding m and_mask_unat by simp
qed

lemma drop_8_xor_byte: "drop_bit 8 (c XOR ucast (b :: u8)) = drop_bit 8 (c :: u32)"
proof -
  have "drop_bit 8 (ucast b :: u32) = 0"
    by (rule bit_word_eqI) (auto simp: bit_simps dest: bit_imp_le_length)
  then show ?thesis by (simp add: drop_bit_xor)
qed

text \<open>A table lookup is eight steps of the shift register.\<close>

lemma crc_table_step_eq:
  assumes "tab = map (\<lambda>i. crc_byte p (of_nat i)) [0..<256]"
  shows "crc_table_step tab c b = crc_byte p (c XOR ucast b)"
proof -
  have "crc_table_step tab c b = crc_byte p ((c XOR ucast b) AND 0xFF) XOR drop_bit 8 c"
    by (simp add: crc_table_step_def assms byte_index)
  then show ?thesis
    using crc_byte_split [of p "c XOR ucast b"] by (simp only: drop_8_xor_byte)
qed

lemma crc_table_bytes_eq:
  assumes "tab = map (\<lambda>i. crc_byte p (of_nat i)) [0..<256]"
  shows "crc_table_bytes tab = crc_bytes p"
proof -
  have "crc_table_step tab = (\<lambda>c b. crc_byte p (c XOR ucast b))"
    using crc_table_step_eq [OF assms] by (intro ext)
  then show ?thesis by (intro ext) (simp add: crc_table_bytes_def crc_bytes_def)
qed

lemma crc_bytes_append: "crc_bytes p c (xs @ ys) = crc_bytes p (crc_bytes p c xs) ys"
  by (simp add: crc_bytes_def)

section \<open>Slicing by eight\<close>

text \<open>
  The byte map shifts a higher byte down, so iterating it on a word is the XOR of iterating it,
  less often, on the bytes of the word.
\<close>

lemma funpow_word_bytes:
  fixes w :: u32
  shows "(crc_byte p ^^ (n + 4)) w =
    (crc_byte p ^^ (n + 4)) (w AND 0xFF) XOR (crc_byte p ^^ (n + 3)) (drop_bit 8 w AND 0xFF) XOR
    (crc_byte p ^^ (n + 2)) (drop_bit 16 w AND 0xFF) XOR
    (crc_byte p ^^ (n + 1)) (drop_bit 24 w AND 0xFF)"
proof -
  have step: "(crc_byte p ^^ Suc m) v = (crc_byte p ^^ Suc m) (v AND 0xFF) XOR
      (crc_byte p ^^ m) (drop_bit 8 v)" for m v
  proof -
    have "(crc_byte p ^^ Suc m) v = (crc_byte p ^^ m) (crc_byte p v)"
      by (simp only: funpow_Suc_right o_apply)
    also have "\<dots> = (crc_byte p ^^ m) (crc_byte p (v AND 0xFF) XOR drop_bit 8 v)"
      by (subst crc_byte_split) (rule refl)
    finally show ?thesis
      by (simp only: crc_byte_funpow_linear funpow_Suc_right o_apply)
  qed
  have top: "drop_bit 24 w AND 0xFF = drop_bit 24 w"
  proof -
    have m: "(0xFF :: u32) = mask 8" by (simp add: mask_eq_exp_minus_1)
    show ?thesis
      unfolding m by (rule bit_word_eqI) (auto simp: bit_simps dest: bit_imp_le_length)
  qed
  have "(crc_byte p ^^ Suc (Suc (Suc (Suc n)))) w =
      (crc_byte p ^^ Suc (Suc (Suc (Suc n)))) (w AND 0xFF) XOR
      ((crc_byte p ^^ Suc (Suc (Suc n))) (drop_bit 8 w AND 0xFF) XOR
      ((crc_byte p ^^ Suc (Suc n)) (drop_bit 16 w AND 0xFF) XOR
       (crc_byte p ^^ Suc n) (drop_bit 24 w AND 0xFF)))"
    using step [of "Suc (Suc (Suc n))" w] step [of "Suc (Suc n)" "drop_bit 8 w"]
      step [of "Suc n" "drop_bit 16 w"]
    by (simp only: drop_bit_drop_bit top) simp
  then show ?thesis
    by (simp only: add_Suc_right add_0_right numeral_eq_Suc One_nat_def pred_numeral_simps
        xor.assoc) simp
qed

lemma nth_table:
  assumes "tab = map (\<lambda>i. f (of_nat i)) [0..<256]"
  shows "tab ! unat ((c :: u32) AND 0xFF) = f (c AND 0xFF)"
  by (simp add: assms byte_index)

lemmas sctp_tables = sctp_crc_tableil8_o32_eq sctp_crc_tableil8_o40_eq sctp_crc_tableil8_o48_eq
  sctp_crc_tableil8_o56_eq sctp_crc_tableil8_o64_eq sctp_crc_tableil8_o72_eq
  sctp_crc_tableil8_o80_eq sctp_crc_tableil8_o88_eq

lemma crc32c_sb8_step_eq:
  "crc32c_sb8_step crc word0 word1 =
     (crc_byte crc32c_poly ^^ 8) (crc XOR word0) XOR (crc_byte crc32c_poly ^^ 4) word1"
proof -
  let ?f = "crc_byte crc32c_poly"
  have w0: "(?f ^^ 8) w = (?f ^^ 8) (w AND 0xFF) XOR (?f ^^ 7) (drop_bit 8 w AND 0xFF) XOR
      (?f ^^ 6) (drop_bit 16 w AND 0xFF) XOR (?f ^^ 5) (drop_bit 24 w AND 0xFF)" for w
    using funpow_word_bytes [where n = 4 and w = w and p = crc32c_poly] by simp
  have w1: "(?f ^^ 4) w = (?f ^^ 4) (w AND 0xFF) XOR (?f ^^ 3) (drop_bit 8 w AND 0xFF) XOR
      (?f ^^ 2) (drop_bit 16 w AND 0xFF) XOR (?f ^^ 1) (drop_bit 24 w AND 0xFF)" for w
    using funpow_word_bytes [where n = 0 and w = w and p = crc32c_poly] by (simp only: add_0_left)
  have tab: "sctp_crc_tableil8_o32 ! unat (c AND 0xFF) = (?f ^^ 1) (c AND 0xFF)"
    "sctp_crc_tableil8_o40 ! unat (c AND 0xFF) = (?f ^^ 2) (c AND 0xFF)"
    "sctp_crc_tableil8_o48 ! unat (c AND 0xFF) = (?f ^^ 3) (c AND 0xFF)"
    "sctp_crc_tableil8_o56 ! unat (c AND 0xFF) = (?f ^^ 4) (c AND 0xFF)"
    "sctp_crc_tableil8_o64 ! unat (c AND 0xFF) = (?f ^^ 5) (c AND 0xFF)"
    "sctp_crc_tableil8_o72 ! unat (c AND 0xFF) = (?f ^^ 6) (c AND 0xFF)"
    "sctp_crc_tableil8_o80 ! unat (c AND 0xFF) = (?f ^^ 7) (c AND 0xFF)"
    "sctp_crc_tableil8_o88 ! unat (c AND 0xFF) = (?f ^^ 8) (c AND 0xFF)" for c
    by (rule nth_table, rule sctp_tables)+
  have d: "drop_bit 8 (drop_bit 16 w) = drop_bit 24 (w :: u32)" for w by simp
  show ?thesis
    unfolding crc32c_sb8_step_def Let_def d
    by (subst w0, subst w1) (simp only: tab xor.assoc xor.commute xor.left_commute)
qed

lemma byte_of_le_word:
  assumes "i < length bs" and "i < 4"
  shows "drop_bit (8 * i) (le_word bs :: u32) AND 0xFF = ucast (bs ! i)"
proof -
  have m: "(0xFF :: u32) = mask 8" by (simp add: mask_eq_exp_minus_1)
  show ?thesis
    unfolding m
  proof (rule bit_word_eqI)
    fix k assume k: "k < LENGTH(32)"
    have "8 * i + k < 32" "(8 * i + k) div 8 = i" "(8 * i + k) mod 8 = k" if "k < 8"
      using that assms(2) by auto
    then show "bit (drop_bit (8 * i) (le_word bs :: u32) AND mask 8) k \<longleftrightarrow> bit (ucast (bs ! i) :: u32) k"
      using k assms by (cases "k < 8") (auto simp: bit_simps bit_le_word dest: bit_imp_le_length)
  qed
qed

lemma le_word_less:
  assumes "length bs \<le> 3"
  shows "(le_word bs :: u32) < 2 ^ 24"
proof -
  have "(le_word bs :: u32) = le_word bs AND mask 24"
  proof (rule bit_word_eqI)
    fix k :: nat
    have "k < 24" if "k div 8 < length bs" using that assms by auto
    then show "bit (le_word bs :: u32) k \<longleftrightarrow> bit (le_word bs AND mask 24 :: u32) k"
      by (auto simp: bit_simps bit_le_word)
  qed
  then have "unat (le_word bs :: u32) = unat (le_word bs AND mask 24 :: u32)"
    by (rule arg_cong)
  also have "\<dots> < 2 ^ 24"
    unfolding and_mask_unat by simp
  finally have "unat (le_word bs :: u32) < 2 ^ 24" .
  then show ?thesis by (simp add: word_less_nat_alt)
qed

lemma word_of_bytes:
  assumes "length bs \<le> 4"
  shows "(crc_byte p ^^ length bs) (c XOR le_word bs) = crc_bytes p c bs"
  using assms
proof (induction bs arbitrary: c)
  case Nil
  then show ?case by (simp add: crc_bytes_def)
next
  case (Cons b bs)
  let ?W = "le_word bs :: u32"
  have W: "?W < 2 ^ 24" using Cons.prems by (intro le_word_less) simp
  have "(le_word (b # bs) :: u32) = ucast b XOR push_bit 8 ?W"
    unfolding le_word_Cons
    by (rule bit_word_eqI) (auto simp: bit_simps dest: bit_imp_le_length)
  then have "crc_byte p (c XOR le_word (b # bs)) = crc_byte p (c XOR ucast b) XOR ?W"
    by (simp add: crc_byte_linear crc_byte_push [OF W] xor.assoc)
  then have "(crc_byte p ^^ length (b # bs)) (c XOR le_word (b # bs)) =
      (crc_byte p ^^ length bs) (crc_byte p (c XOR ucast b) XOR ?W)"
    by (simp add: funpow_swap1)
  also have "\<dots> = crc_bytes p (crc_byte p (c XOR ucast b)) bs"
    using Cons.prems by (intro Cons.IH) simp
  finally show ?case by (simp add: crc_bytes_def)
qed

lemma bytes4_word:
  "length bs = 4 \<Longrightarrow> (crc_byte p ^^ 4) (c XOR le_word bs) = crc_bytes p c bs"
  using word_of_bytes [of bs p c] by simp

lemma crc32c_sb8_step_bytes:
  assumes "length xs = 4" and "length ys = 4"
  shows "crc32c_sb8_step crc (le_word xs) (le_word ys) = crc_bytes crc32c_poly crc (xs @ ys)"
proof -
  let ?f = "crc_byte crc32c_poly"
  have "(?f ^^ 8) (crc XOR le_word xs) = (?f ^^ 4) (crc_bytes crc32c_poly crc xs)"
    using funpow_add [of 4 4 ?f] by (simp add: bytes4_word [OF assms(1), symmetric])
  then show ?thesis
    by (simp only: crc32c_sb8_step_eq crc_bytes_append bytes4_word [OF assms(2), symmetric]
        crc_byte_funpow_linear)
qed

lemma crc32c_sb8_loop_eq:
  assumes "8 * n \<le> length buf"
  shows "crc32c_sb8_loop n crc buf = (crc_bytes crc32c_poly crc (take (8 * n) buf), drop (8 * n) buf)"
  using assms
proof (induction n arbitrary: crc buf)
  case 0
  then show ?case by (simp add: crc_bytes_def)
next
  case (Suc n)
  let ?hd = "take 4 buf @ take 4 (drop 4 buf)"
  have hd: "?hd = take 8 buf"
    using take_add [of 4 4 buf] by simp
  have step: "crc32c_sb8_step crc (le_word (take 4 buf)) (le_word (take 4 (drop 4 buf))) =
      crc_bytes crc32c_poly crc (take 8 buf)"
    using Suc.prems unfolding hd [symmetric] by (intro crc32c_sb8_step_bytes) simp_all
  have "crc32c_sb8_loop n (crc_bytes crc32c_poly crc (take 8 buf)) (drop 8 buf) =
      (crc_bytes crc32c_poly (crc_bytes crc32c_poly crc (take 8 buf)) (take (8 * n) (drop 8 buf)),
       drop (8 * n) (drop 8 buf))"
    using Suc.prems by (intro Suc.IH) simp
  then show ?case
    by (simp add: step crc_bytes_append [symmetric] take_add [symmetric] add.commute)
qed

lemma crc32c_sb8_64_bit_eq:
  assumes "init_bytes \<le> length buf"
  shows "crc32c_sb8_64_bit crc buf init_bytes = crc_bytes crc32c_poly crc buf"
proof -
  let ?rest = "drop init_bytes buf"
  let ?n = "length ?rest div 8"
  have tab: "crc_table_bytes sctp_crc_tableil8_o32 = crc_bytes crc32c_poly"
    by (rule crc_table_bytes_eq) (simp add: sctp_crc_tableil8_o32_eq)
  have n: "8 * ?n \<le> length ?rest" by simp
  have "crc32c_sb8_64_bit crc buf init_bytes =
      crc_bytes crc32c_poly crc (take init_bytes buf @ take (8 * ?n) ?rest @ drop (8 * ?n) ?rest)"
    using crc32c_sb8_loop_eq [OF n] unfolding crc32c_sb8_64_bit_def tab crc_bytes_append
    by (simp add: Let_def mult.commute)
  then show ?thesis by (simp only: append_take_drop_id)
qed

lemma calculate_crc32c_eq: "calculate_crc32c addr crc buf = crc_bytes crc32c_poly crc buf"
proof (cases "length buf < 4")
  case True
  then show ?thesis
    using crc_table_bytes_eq [OF crc32Table_eq]
    by (simp add: calculate_crc32c_def singletable_crc32c_def)
next
  case False
  have "unat (4 - (addr AND 3)) \<le> 4"
  proof -
    have m: "(3 :: u64) = mask 2" by (simp add: mask_eq_exp_minus_1)
    have "unat (addr AND 3) < 4" unfolding m and_mask_unat by simp
    then show ?thesis by (simp add: unat_sub word_le_nat_alt)
  qed
  with False show ?thesis
    by (auto simp: calculate_crc32c_def multitable_crc32c_def crc32c_sb8_64_bit_eq crc_bytes_def)
qed

section \<open>Injectivity: what the CRC detects\<close>

lemma crc_bit_kernel:
  assumes "bit p 31" and "crc_bit p c = 0"
  shows "c = 0"
proof -
  have low: "\<not> bit c 0"
  proof
    assume "bit c 0"
    with assms(2) have "drop_bit 1 c XOR p = 0" by (simp add: crc_bit_alt)
    then have "bit (drop_bit 1 c XOR p) 31 = bit (0 :: u32) 31" by simp
    moreover have "\<not> bit (drop_bit 1 c) 31"
      using bit_imp_le_length [of c 32] by (auto simp: bit_simps)
    ultimately show False using assms(1) by (simp add: bit_xor_iff del: drop_bit_xor)
  qed
  with assms(2) have z: "drop_bit 1 c = 0" by (simp add: crc_bit_alt)
  have "\<not> bit c (Suc k)" for k
  proof -
    have "bit c (Suc k) = bit (drop_bit 1 c) k" by (simp add: bit_drop_bit_eq)
    then show ?thesis by (simp only: z bit_0_eq bot_apply bot_bool_def)  simp
  qed
  with low have "\<not> bit c k" for k by (cases k) auto
  then show ?thesis by (intro bit_word_eqI) simp
qed

lemma xor_right_cancel: "(a XOR x = b XOR x) \<longleftrightarrow> a = (b :: u32)"
proof
  assume "a XOR x = b XOR x"
  then have "(a XOR x) XOR x = (b XOR x) XOR x" by (simp only:)
  then show "a = b" by (simp only: xor.assoc xor_self_eq xor.right_neutral)
qed simp

lemma xor_left_cancel: "(x XOR a = x XOR b) \<longleftrightarrow> a = (b :: u32)"
  using xor_right_cancel [of a x b] by (simp only: xor.commute [of x])

lemma crc_byte_inj:
  assumes "bit p 31"
  shows "inj (crc_byte p)"
proof (rule injI)
  fix a b assume "crc_byte p a = crc_byte p b"
  then have z: "crc_byte p (a XOR b) = 0" by (simp add: crc_byte_linear)
  have "c = 0" if "(crc_bit p ^^ n) c = 0" for n c
    using that by (induction n) (auto dest: crc_bit_kernel [OF assms])
  with z have "a XOR b = 0" unfolding crc_byte_def by blast
  then have "a XOR b = b XOR b" by simp
  then show "a = b" by (simp only: xor_right_cancel)
qed

lemma crc_byte_funpow_inj: "bit p 31 \<Longrightarrow> inj (crc_byte p ^^ n)"
proof (induction n)
  case 0
  then show ?case by (simp add: inj_on_def)
next
  case (Suc n)
  then show ?case unfolding funpow.simps by (intro inj_compose crc_byte_inj)
qed

lemma crc_bytes_inj_state:
  assumes "bit p 31" and "crc_bytes p c xs = crc_bytes p d xs"
  shows "c = d"
  using assms(2)
proof (induction xs arbitrary: c d)
  case Nil
  then show ?case by (simp add: crc_bytes_def)
next
  case (Cons x xs)
  then have "crc_byte p (c XOR ucast x) = crc_byte p (d XOR ucast x)"
    by (simp add: crc_bytes_def)
  then have "c XOR ucast x = d XOR ucast x"
    using crc_byte_inj [OF assms(1)] by (simp add: inj_eq)
  then show ?case by (simp only: xor_right_cancel)
qed

lemma le_word_inj:
  assumes "length xs = length ys" and "length xs \<le> 4" and "(le_word xs :: u32) = le_word ys"
  shows "xs = ys"
proof (rule nth_equalityI)
  show "length xs = length ys" by (rule assms)
  fix i assume i: "i < length xs"
  with assms have eq: "(ucast (xs ! i) :: u32) = ucast (ys ! i)"
    using byte_of_le_word [of i xs] byte_of_le_word [of i ys] by simp
  show "xs ! i = ys ! i"
  proof (rule bit_word_eqI)
    fix k assume "k < LENGTH(8)"
    moreover have "bit (ucast (xs ! i) :: u32) k = bit (ucast (ys ! i) :: u32) k"
      by (simp only: eq)
    ultimately show "bit (xs ! i) k = bit (ys ! i) k" by (simp add: bit_simps)
  qed
qed

lemma crc_bytes_burst:
  assumes "bit p 31" and "length ys = length zs" and "length ys \<le> 4" and "ys \<noteq> zs"
  shows "crc_bytes p c (xs @ ys @ ws) \<noteq> crc_bytes p c (xs @ zs @ ws)"
proof
  let ?c = "crc_bytes p c xs" and ?n = "length ys"
  assume "crc_bytes p c (xs @ ys @ ws) = crc_bytes p c (xs @ zs @ ws)"
  then have "crc_bytes p ?c ys = crc_bytes p ?c zs"
    unfolding crc_bytes_append by (rule crc_bytes_inj_state [OF assms(1)])
  then have "(crc_byte p ^^ ?n) (?c XOR le_word ys) = (crc_byte p ^^ ?n) (?c XOR le_word zs)"
    using word_of_bytes [of ys p ?c] word_of_bytes [of zs p ?c] assms(2,3) by simp
  then have "?c XOR le_word ys = ?c XOR le_word zs"
    using crc_byte_funpow_inj [OF assms(1)] by (simp add: inj_eq)
  then have "(le_word ys :: u32) = le_word zs"
    by (simp only: xor_left_cancel)
  then show False using le_word_inj [OF assms(2,3)] assms(4) by blast
qed

lemma iscsi_crc32_addr: "iscsi_crc32 addr buf = iscsi_crc32 addr' buf"
  by (simp add: iscsi_crc32_def calculate_crc32c_eq)

lemma crc32_burst:
  assumes "length ys = length zs" and "length ys \<le> 4" and "ys \<noteq> zs"
  shows "crc32 (xs @ ys @ ws) \<noteq> crc32 (xs @ zs @ ws)"
  using crc_bytes_burst [OF _ assms, of crc32_poly]
  by (simp add: crc32_def crc32_poly_def crc_table_bytes_eq [OF crc32_tab_eq])

lemma iscsi_crc32_burst:
  assumes "length ys = length zs" and "length ys \<le> 4" and "ys \<noteq> zs"
    and "length (xs @ ys @ ws) < 2 ^ 32"
  shows "iscsi_crc32 addr (xs @ ys @ ws) \<noteq> iscsi_crc32 addr' (xs @ zs @ ws)"
  using crc_bytes_burst [OF _ assms(1-3), of crc32c_poly] assms(1,4)
  by (simp add: iscsi_crc32_def crc32c_poly_def calculate_crc32c_eq)

section \<open>Properties\<close>

text \<open>
  C19: the table-driven \<open>crc32\<close> and \<open>crc32_ext\<close> compute the bitwise CRC of polynomial
  \<open>$edb88320\<close> with inverted input and output register.
\<close>

theorem crc32_is_bitwise:
  "crc32 buf = NOT (crc_bytes crc32_poly (NOT 0) buf) \<and>
   crc32_ext buf ocrc = NOT (crc_bytes crc32_poly (NOT ocrc) buf)"
  by (simp add: crc32_def crc32_ext_def crc_table_bytes_eq [OF crc32_tab_eq])

text \<open>
  C18: for every buffer shorter than 4 GiB at every address, so for every split into head bytes,
  8-byte slices and tail bytes, the slicing-by-eight \<open>iscsi_crc32\<close> computes the bitwise CRC32C.
\<close>

theorem iscsi_crc32_is_bitwise:
  assumes "length buf < 2 ^ 32"
  shows "iscsi_crc32 addr buf = NOT (crc_bytes crc32c_poly (NOT 0) buf) \<and>
    iscsi_crc32_ext addr buf ocrc = NOT (crc_bytes crc32c_poly (NOT ocrc) buf)"
  using assms by (simp add: iscsi_crc32_def iscsi_crc32_ext_def calculate_crc32c_eq)

text \<open>The check value of CRC-32C: the nine ASCII digits at an address that is 1 modulo 4.\<close>

theorem iscsi_crc32_is_bitwise_witness:
  "iscsi_crc32 0x7ffe0001 [49, 50, 51, 52, 53, 54, 55, 56, 57] = 0xE3069283"
proof -
  have s: "crc_byte crc32c_poly (- 50) = 0x6F0A661C"
    "crc_byte crc32c_poly 0x6F0A662E = 0x8CAA3B9F"
    "crc_byte crc32c_poly 0x8CAA3BAC = 0xEF84D04D"
    "crc_byte crc32c_poly 0xEF84D079 = 0x9C50B11"
    "crc_byte crc32c_poly 0x9C50B24 = 0xE72EDCCA"
    "crc_byte crc32c_poly 0xE72EDCFC = 0xBECA8E79"
    "crc_byte crc32c_poly 0xBECA8E4E = 0xEDBD6815"
    "crc_byte crc32c_poly 0xEDBD682D = 0x9F787F65"
    "crc_byte crc32c_poly 0x9F787F5C = 0x1CF96D7C"
    by (simp_all add: crc_byte_unroll crc_bit_def crc32c_poly_def)
  have "crc_bytes crc32c_poly (NOT 0) [49, 50, 51, 52, 53, 54, 55, 56, 57] = NOT 0xE3069283"
    by (simp add: crc_bytes_def s)
  then show ?thesis
    using iscsi_crc32_is_bitwise [of "[49, 50, 51, 52, 53, 54, 55, 56, 57]" "0x7ffe0001" 0] by simp
qed

text \<open>
  C28: a CRC can be continued: extending the CRC of one buffer over a second one, wherever the two
  buffers lie, gives the CRC of their concatenation.
\<close>

theorem crc_extends:
  assumes "length xs + length ys < 2 ^ 32"
  shows "crc32_ext ys (crc32 xs) = crc32 (xs @ ys) \<and>
    iscsi_crc32_ext addr' ys (iscsi_crc32 addr xs) = iscsi_crc32 addr'' (xs @ ys)"
  using assms
  by (simp add: crc32_def crc32_ext_def crc_table_bytes_eq [OF crc32_tab_eq] iscsi_crc32_def
      iscsi_crc32_ext_def calculate_crc32c_eq crc_bytes_append)

theorem crc_extends_witness:
  "crc32_ext [3] (crc32 [1, 2]) = crc32 [1, 2, 3] \<and>
   iscsi_crc32_ext 3 [3] (iscsi_crc32 1 [1, 2]) = iscsi_crc32 2 [1, 2, 3]"
  using crc_extends [of "[1, 2]" "[3]" 3 1 2] by simp

text \<open>
  C22: both CRCs detect every corruption that is confined to four adjacent bytes.
\<close>

theorem crc_detects_burst:
  assumes "length ys = length zs" and "length ys \<le> 4" and "ys \<noteq> zs"
    and "length (xs @ ys @ ws) < 2 ^ 32"
  shows "crc32 (xs @ ys @ ws) \<noteq> crc32 (xs @ zs @ ws) \<and>
    iscsi_crc32 addr (xs @ ys @ ws) \<noteq> iscsi_crc32 addr' (xs @ zs @ ws)"
  using crc32_burst [OF assms(1-3)] iscsi_crc32_burst [OF assms] by blast

theorem crc_detects_burst_witness:
  "crc32 ([7] @ [1, 2] @ [9]) \<noteq> crc32 ([7] @ [1, 3] @ [9]) \<and>
   iscsi_crc32 0 ([7] @ [1, 2] @ [9]) \<noteq> iscsi_crc32 1 ([7] @ [1, 3] @ [9])"
  by (rule crc_detects_burst) simp_all

end
