(* ===== verification/Hammer_Crc.thy ===== *)
theory Hammer_Crc
  imports Btree_Format Crc32
begin

text \<open>
  The checksums of \<open>sys/vfs/hammer/hammer_crc.h\<close> over the byte images of the on-disk structures.
  Every structure has three operations: compute the checksum (\<open>get\<close>), store it (\<open>set\<close>) and compare
  it (\<open>test\<close>).  Volumes of version 7 and later use the CRC-32C, older ones the CRC-32; a test on a
  version 7 volume accepts the older checksum too, for structures written before an upgrade.
  The locale \<open>crc_struct\<close> states the contract of the three operations once, and every structure
  of the header interprets it.
\<close>

section \<open>Byte images\<close>

text \<open>
  The structures are naturally aligned, without padding, and every platform the utilities run on is
  little endian: the image is the concatenation of the fields.
\<close>

definition blockmap_bytes :: "hammer_blockmap \<Rightarrow> u8 list" where
  "blockmap_bytes b =
     le_bytes 8 (bm_phys_offset b) @ le_bytes 8 (bm_first_offset b) @
     le_bytes 8 (bm_next_offset b) @ le_bytes 8 (bm_alloc_offset b) @
     le_bytes 4 (bm_reserved01 b) @ le_bytes 4 (bm_entry_crc b)"

definition layer1_bytes :: "hammer_blockmap_layer1 \<Rightarrow> u8 list" where
  "layer1_bytes l =
     le_bytes 8 (l1_blocks_free l) @ le_bytes 8 (l1_phys_offset l) @ le_bytes 8 (l1_reserved01 l) @
     le_bytes 4 (l1_layer2_crc l) @ le_bytes 4 (l1_layer1_crc l)"

definition layer2_bytes :: "hammer_blockmap_layer2 \<Rightarrow> u8 list" where
  "layer2_bytes l =
     [l2_zone l, l2_reserved01 l] @ le_bytes 2 (l2_reserved02 l) @ le_bytes 4 (l2_append_off l) @
     le_bytes 4 (l2_bytes_free l) @ le_bytes 4 (l2_entry_crc l)"

definition fifo_head_bytes :: "hammer_fifo_head \<Rightarrow> u8 list" where
  "fifo_head_bytes h =
     le_bytes 2 (hdr_signature h) @ le_bytes 2 (hdr_type h) @ le_bytes 4 (hdr_size h) @
     le_bytes 4 (hdr_seq h) @ le_bytes 4 (hdr_crc h)"

definition base_elm_bytes :: "hammer_base_elm \<Rightarrow> u8 list" where
  "base_elm_bytes e =
     le_bytes 8 (obj_id e) @ le_bytes 8 (key e) @ le_bytes 8 (create_tid e) @
     le_bytes 8 (delete_tid e) @ le_bytes 2 (rec_type e) @ [obj_type e, btype e] @
     le_bytes 4 (localization e)"

fun btree_elm_bytes :: "hammer_btree_elm \<Rightarrow> u8 list" where
  "btree_elm_bytes (Leaf_Elm l) =
     base_elm_bytes (leaf_base l) @ le_bytes 4 (leaf_create_ts l) @ le_bytes 4 (leaf_delete_ts l) @
     le_bytes 8 (leaf_data_offset l) @ le_bytes 4 (leaf_data_len l) @ le_bytes 4 (leaf_data_crc l)"
| "btree_elm_bytes (Internal_Elm i) =
     base_elm_bytes (int_base i) @ le_bytes 8 (int_mirror_tid i) @
     le_bytes 8 (int_subtree_offset i) @ le_bytes 4 (int_reserved01 i) @
     le_bytes 4 (int_reserved02 i)"

definition node_bytes :: "hammer_node_ondisk \<Rightarrow> u8 list" where
  "node_bytes n =
     le_bytes 4 (nd_crc n) @ le_bytes 4 (nd_reserved01 n) @ le_bytes 8 (nd_parent n) @
     le_bytes 4 (nd_count n) @ [nd_type n, nd_reserved02 n] @ le_bytes 2 (nd_reserved03 n) @
     le_bytes 8 (nd_reserved04 n) @ le_bytes 8 (nd_reserved05 n) @ le_bytes 8 (nd_reserved06 n) @
     le_bytes 8 (nd_reserved07 n) @ le_bytes 8 (nd_mirror_tid n) @
     concat (map btree_elm_bytes (nd_elms n))"

definition volume_bytes :: "hammer_volume_ondisk \<Rightarrow> u8 list" where
  "volume_bytes v =
     le_bytes 8 (vol_signature v) @ le_bytes 8 (vol_bot_beg v) @ le_bytes 8 (vol_mem_beg v) @
     le_bytes 8 (vol_buf_beg v) @ le_bytes 8 (vol_buf_end v) @ le_bytes 8 (vol_reserved01 v) @
     vol_fsid v @ vol_fstype v @ vol_label v @
     le_bytes 4 (od_vol_no v) @ le_bytes 4 (vol_count v) @
     le_bytes 4 (vol_version v) @ le_bytes 4 (vol_crc v) @ le_bytes 4 (vol_flags v) @
     le_bytes 4 (vol_rootvol v) @ concat (map (le_bytes 4) (vol_reserved v)) @
     le_bytes 8 (vol0_stat_bigblocks v) @ le_bytes 8 (vol0_stat_freebigblocks v) @
     le_bytes 8 (vol0_reserved01 v) @ le_bytes 8 (vol0_stat_inodes v) @
     le_bytes 8 (vol0_reserved02 v) @ le_bytes 8 (vol0_btree_root v) @
     le_bytes 8 (vol0_next_tid v) @ le_bytes 8 (vol0_reserved03 v) @
     concat (map blockmap_bytes (vol0_blockmap v)) @
     concat (map (le_bytes 8) (vol0_undo_array v))"

text \<open>The lengths of the fixed-size arrays of the header.\<close>

definition volume_shape :: "hammer_volume_ondisk \<Rightarrow> bool" where
  "volume_shape v \<longleftrightarrow>
     length (vol_fsid v) = 16 \<and> length (vol_fstype v) = 16 \<and> length (vol_label v) = 64 \<and>
     length (vol_reserved v) = 8 \<and> length (vol0_blockmap v) = 16 \<and>
     length (vol0_undo_array v) = 128"

definition HAMMER_BLOCKMAP_CRCSIZE :: nat where
  "HAMMER_BLOCKMAP_CRCSIZE = 36"

definition HAMMER_LAYER1_CRCSIZE :: nat where
  "HAMMER_LAYER1_CRCSIZE = 28"

definition HAMMER_LAYER2_CRCSIZE :: nat where
  "HAMMER_LAYER2_CRCSIZE = 12"

definition HAMMER_FIFO_HEAD_CRCOFF :: nat where
  "HAMMER_FIFO_HEAD_CRCOFF = 12"

definition HAMMER_VOL_CRCSIZE1 :: nat where
  "HAMMER_VOL_CRCSIZE1 = 156"

definition HAMMER_VOL_CRCSIZE2 :: nat where
  "HAMMER_VOL_CRCSIZE2 = 1928 - HAMMER_VOL_CRCSIZE1 - 4"

definition HAMMER_BTREE_CRCSIZE :: nat where
  "HAMMER_BTREE_CRCSIZE = 4096 - 4"

definition HAMMER_INODE_CRCSIZE :: nat where
  "HAMMER_INODE_CRCSIZE = 112"

lemmas crcsize_defs = HAMMER_BLOCKMAP_CRCSIZE_def HAMMER_LAYER1_CRCSIZE_def
  HAMMER_LAYER2_CRCSIZE_def HAMMER_FIFO_HEAD_CRCOFF_def HAMMER_VOL_CRCSIZE1_def
  HAMMER_VOL_CRCSIZE2_def HAMMER_BTREE_CRCSIZE_def HAMMER_INODE_CRCSIZE_def

lemma length_struct_bytes [simp, codec_simps]:
  "length (blockmap_bytes b) = 40" "length (layer1_bytes l1) = 32" "length (layer2_bytes l2) = 16"
  "length (fifo_head_bytes h) = 16" "length (base_elm_bytes e) = 40"
  by (simp_all add: blockmap_bytes_def layer1_bytes_def layer2_bytes_def fifo_head_bytes_def
      base_elm_bytes_def)

lemma length_btree_elm_bytes [simp, codec_simps]: "length (btree_elm_bytes e) = 64"
  by (cases e) simp_all

lemma length_concat_const: "(\<And>x. length (f x) = k) \<Longrightarrow> length (concat (map f xs)) = k * length xs"
  by (induction xs) simp_all

text \<open>The sizes the header file states: a 1928-byte volume header and a 4096-byte node.\<close>

lemma length_volume_bytes: "volume_shape v \<Longrightarrow> length (volume_bytes v) = 1928"
  unfolding volume_shape_def volume_bytes_def by (simp add: length_concat_const del: length_concat)

lemma length_node_bytes: "length (nd_elms n) = 63 \<Longrightarrow> length (node_bytes n) = 4096"
  unfolding node_bytes_def by (simp add: length_concat_const del: length_concat)

section \<open>Checksum operations\<close>

text \<open>\<open>iscsi_crc32\<close> is applied at address 0: its value does not depend on the address.\<close>

definition hammer_datacrc :: "u32 \<Rightarrow> u8 list \<Rightarrow> u32" where
  "hammer_datacrc version buf =
     (if version \<ge> HAMMER_VOL_VERSION_SEVEN then iscsi_crc32 0 buf else crc32 buf)"

definition hammer_datacrc_ext :: "u32 \<Rightarrow> u8 list \<Rightarrow> u32 \<Rightarrow> u32" where
  "hammer_datacrc_ext version buf ocrc =
     (if version \<ge> HAMMER_VOL_VERSION_SEVEN then iscsi_crc32_ext 0 buf ocrc
      else crc32_ext buf ocrc)"

definition hammer_crc_get_blockmap :: "u32 \<Rightarrow> hammer_blockmap \<Rightarrow> u32" where
  "hammer_crc_get_blockmap version blockmap =
     hammer_datacrc version (take HAMMER_BLOCKMAP_CRCSIZE (blockmap_bytes blockmap))"

definition hammer_crc_set_blockmap :: "u32 \<Rightarrow> hammer_blockmap \<Rightarrow> hammer_blockmap" where
  "hammer_crc_set_blockmap version blockmap =
     blockmap\<lparr>bm_entry_crc := hammer_crc_get_blockmap version blockmap\<rparr>"

definition hammer_crc_test_blockmap :: "u32 \<Rightarrow> hammer_blockmap \<Rightarrow> bool" where
  "hammer_crc_test_blockmap version blockmap =
     (if bm_entry_crc blockmap = hammer_crc_get_blockmap version blockmap then True
      else if version \<ge> HAMMER_VOL_VERSION_SEVEN then
        bm_entry_crc blockmap = hammer_crc_get_blockmap HAMMER_VOL_VERSION_SIX blockmap
      else False)"

definition hammer_crc_get_layer1 :: "u32 \<Rightarrow> hammer_blockmap_layer1 \<Rightarrow> u32" where
  "hammer_crc_get_layer1 version layer1 =
     hammer_datacrc version (take HAMMER_LAYER1_CRCSIZE (layer1_bytes layer1))"

definition hammer_crc_set_layer1 :: "u32 \<Rightarrow> hammer_blockmap_layer1 \<Rightarrow> hammer_blockmap_layer1" where
  "hammer_crc_set_layer1 version layer1 =
     layer1\<lparr>l1_layer1_crc := hammer_crc_get_layer1 version layer1\<rparr>"

definition hammer_crc_test_layer1 :: "u32 \<Rightarrow> hammer_blockmap_layer1 \<Rightarrow> bool" where
  "hammer_crc_test_layer1 version layer1 =
     (if l1_layer1_crc layer1 = hammer_crc_get_layer1 version layer1 then True
      else if version \<ge> HAMMER_VOL_VERSION_SEVEN then
        l1_layer1_crc layer1 = hammer_crc_get_layer1 HAMMER_VOL_VERSION_SIX layer1
      else False)"

definition hammer_crc_get_layer2 :: "u32 \<Rightarrow> hammer_blockmap_layer2 \<Rightarrow> u32" where
  "hammer_crc_get_layer2 version layer2 =
     hammer_datacrc version (take HAMMER_LAYER2_CRCSIZE (layer2_bytes layer2))"

definition hammer_crc_set_layer2 :: "u32 \<Rightarrow> hammer_blockmap_layer2 \<Rightarrow> hammer_blockmap_layer2" where
  "hammer_crc_set_layer2 version layer2 =
     layer2\<lparr>l2_entry_crc := hammer_crc_get_layer2 version layer2\<rparr>"

definition hammer_crc_test_layer2 :: "u32 \<Rightarrow> hammer_blockmap_layer2 \<Rightarrow> bool" where
  "hammer_crc_test_layer2 version layer2 =
     (if l2_entry_crc layer2 = hammer_crc_get_layer2 version layer2 then True
      else if version \<ge> HAMMER_VOL_VERSION_SEVEN then
        l2_entry_crc layer2 = hammer_crc_get_layer2 HAMMER_VOL_VERSION_SIX layer2
      else False)"

definition hammer_crc_get_volume :: "u32 \<Rightarrow> hammer_volume_ondisk \<Rightarrow> u32" where
  "hammer_crc_get_volume version ondisk =
     hammer_datacrc version (take HAMMER_VOL_CRCSIZE1 (volume_bytes ondisk)) XOR
     hammer_datacrc version
       (take HAMMER_VOL_CRCSIZE2 (drop (HAMMER_VOL_CRCSIZE1 + 4) (volume_bytes ondisk)))"

definition hammer_crc_set_volume :: "u32 \<Rightarrow> hammer_volume_ondisk \<Rightarrow> hammer_volume_ondisk" where
  "hammer_crc_set_volume version ondisk =
     ondisk\<lparr>vol_crc := hammer_crc_get_volume version ondisk\<rparr>"

definition hammer_crc_test_volume :: "u32 \<Rightarrow> hammer_volume_ondisk \<Rightarrow> bool" where
  "hammer_crc_test_volume version ondisk =
     (if vol_crc ondisk = hammer_crc_get_volume version ondisk then True
      else if version \<ge> HAMMER_VOL_VERSION_SEVEN then
        vol_crc ondisk = hammer_crc_get_volume HAMMER_VOL_VERSION_SIX ondisk
      else False)"

text \<open>
  A FIFO record is its head and the bytes that follow it; the C argument \<open>bytes\<close> is the length of
  both.
\<close>

definition hammer_crc_get_fifo_head :: "u32 \<Rightarrow> hammer_fifo_head \<times> u8 list \<Rightarrow> u32" where
  "hammer_crc_get_fifo_head version rec =
     hammer_datacrc version (take HAMMER_FIFO_HEAD_CRCOFF (fifo_head_bytes (fst rec))) XOR
     hammer_datacrc version (snd rec)"

definition hammer_crc_set_fifo_head ::
    "u32 \<Rightarrow> hammer_fifo_head \<times> u8 list \<Rightarrow> hammer_fifo_head \<times> u8 list" where
  "hammer_crc_set_fifo_head version rec =
     ((fst rec)\<lparr>hdr_crc := hammer_crc_get_fifo_head version rec\<rparr>, snd rec)"

definition hammer_crc_test_fifo_head :: "u32 \<Rightarrow> hammer_fifo_head \<times> u8 list \<Rightarrow> bool" where
  "hammer_crc_test_fifo_head version rec =
     (if hdr_crc (fst rec) = hammer_crc_get_fifo_head version rec then True
      else if version \<ge> HAMMER_VOL_VERSION_SEVEN then
        hdr_crc (fst rec) = hammer_crc_get_fifo_head HAMMER_VOL_VERSION_SIX rec
      else False)"

definition hammer_crc_get_btree :: "u32 \<Rightarrow> hammer_node_ondisk \<Rightarrow> u32" where
  "hammer_crc_get_btree version node =
     hammer_datacrc version (take HAMMER_BTREE_CRCSIZE (drop 4 (node_bytes node)))"

definition hammer_crc_set_btree :: "u32 \<Rightarrow> hammer_node_ondisk \<Rightarrow> hammer_node_ondisk" where
  "hammer_crc_set_btree version node =
     node\<lparr>nd_crc := hammer_crc_get_btree version node\<rparr>"

definition hammer_crc_test_btree :: "u32 \<Rightarrow> hammer_node_ondisk \<Rightarrow> bool" where
  "hammer_crc_test_btree version node =
     (if nd_crc node = hammer_crc_get_btree version node then True
      else if version \<ge> HAMMER_VOL_VERSION_SEVEN then
        nd_crc node = hammer_crc_get_btree HAMMER_VOL_VERSION_SIX node
      else False)"

text \<open>
  The data of a leaf element is a byte list that holds at least \<open>data_len\<close> bytes.
\<close>

definition hammer_crc_get_leaf :: "u32 \<Rightarrow> u8 list \<Rightarrow> hammer_btree_leaf_elm \<Rightarrow> u32" where
  "hammer_crc_get_leaf version data leaf =
     (if leaf_data_len leaf = 0 then 0
      else if rec_type (leaf_base leaf) = HAMMER_RECTYPE_INODE then
        (if leaf_data_len leaf \<noteq> 128 then 0
         else hammer_datacrc version (take HAMMER_INODE_CRCSIZE data))
      else hammer_datacrc version (take (unat (scast (leaf_data_len leaf) :: u64)) data))"

definition hammer_crc_set_leaf ::
    "u32 \<Rightarrow> u8 list \<Rightarrow> hammer_btree_leaf_elm \<Rightarrow> hammer_btree_leaf_elm" where
  "hammer_crc_set_leaf version data leaf =
     leaf\<lparr>leaf_data_crc := hammer_crc_get_leaf version data leaf\<rparr>"

definition hammer_crc_test_leaf :: "u32 \<Rightarrow> u8 list \<Rightarrow> hammer_btree_leaf_elm \<Rightarrow> bool" where
  "hammer_crc_test_leaf version data leaf =
     (if leaf_data_crc leaf = hammer_crc_get_leaf version data leaf then True
      else if version \<ge> HAMMER_VOL_VERSION_SEVEN then
        leaf_data_crc leaf = hammer_crc_get_leaf HAMMER_VOL_VERSION_SIX data leaf
      else False)"

section \<open>The contract of a checksummed structure\<close>

text \<open>
  Contract of \<open>get\<close>, \<open>set\<close> and \<open>test\<close>: the checksum does not cover its own field, \<open>set\<close> stores
  it, \<open>test\<close> accepts the checksum of the volume version and on version 7 volumes also the older one,
  and the checksum depends on the version through the choice of algorithm only.
\<close>

locale crc_struct =
  fixes wf :: "'a \<Rightarrow> bool"
    and get :: "u32 \<Rightarrow> 'a \<Rightarrow> u32"
    and set :: "u32 \<Rightarrow> 'a \<Rightarrow> 'a"
    and test :: "u32 \<Rightarrow> 'a \<Rightarrow> bool"
    and stored :: "'a \<Rightarrow> u32"
  assumes get_set: "wf x \<Longrightarrow> get v (set w x) = get v x"
    and stored_set: "stored (set v x) = get v x"
    and test_iff: "test v x \<longleftrightarrow> stored x = get v x \<or> 7 \<le> v \<and> stored x = get 6 x"
    and get_version: "7 \<le> v \<longleftrightarrow> 7 \<le> w \<Longrightarrow> get v x = get w x"
begin

lemma test_set:
  assumes "wf x" and "7 \<le> w \<longrightarrow> 7 \<le> v"
  shows "test v (set w x)"
proof (cases "7 \<le> v \<longleftrightarrow> 7 \<le> w")
  case True
  then show ?thesis using get_version [of v w x] assms(1) by (simp add: test_iff stored_set get_set)
next
  case False
  with assms(2) have "7 \<le> v" and "\<not> 7 \<le> w" by simp_all
  moreover have "get w x = get 6 x"
    using \<open>\<not> 7 \<le> w\<close> by (intro get_version) simp
  ultimately show ?thesis using assms(1) by (simp add: test_iff stored_set get_set)
qed

lemma test_reject:
  assumes "\<not> 7 \<le> v" and "stored x \<noteq> get v x"
  shows "\<not> test v x"
  using assms by (simp add: test_iff)

end

lemma hammer_datacrc_version: "7 \<le> v \<longleftrightarrow> 7 \<le> w \<Longrightarrow> hammer_datacrc v = hammer_datacrc w"
  by (simp add: hammer_datacrc_def HAMMER_VOL_VERSION_SEVEN_def fun_eq_iff)

lemmas version_defs = HAMMER_VOL_VERSION_SEVEN_def HAMMER_VOL_VERSION_SIX_def

interpretation blockmap_crc: crc_struct "\<lambda>_. True" hammer_crc_get_blockmap
  hammer_crc_set_blockmap hammer_crc_test_blockmap bm_entry_crc
  by unfold_locales
    (auto simp: hammer_crc_get_blockmap_def hammer_crc_set_blockmap_def
      hammer_crc_test_blockmap_def blockmap_bytes_def crcsize_defs version_defs
      dest!: hammer_datacrc_version)

interpretation layer1_crc: crc_struct "\<lambda>_. True" hammer_crc_get_layer1
  hammer_crc_set_layer1 hammer_crc_test_layer1 l1_layer1_crc
  by unfold_locales
    (auto simp: hammer_crc_get_layer1_def hammer_crc_set_layer1_def
      hammer_crc_test_layer1_def layer1_bytes_def crcsize_defs version_defs
      dest!: hammer_datacrc_version)

interpretation layer2_crc: crc_struct "\<lambda>_. True" hammer_crc_get_layer2
  hammer_crc_set_layer2 hammer_crc_test_layer2 l2_entry_crc
  by unfold_locales
    (auto simp: hammer_crc_get_layer2_def hammer_crc_set_layer2_def
      hammer_crc_test_layer2_def layer2_bytes_def crcsize_defs version_defs
      dest!: hammer_datacrc_version)

lemma volume_bytes_crc_field:
  assumes "volume_shape v"
  shows "take 156 (volume_bytes (v\<lparr>vol_crc := c\<rparr>)) = take 156 (volume_bytes v)"
    and "drop 160 (volume_bytes (v\<lparr>vol_crc := c\<rparr>)) = drop 160 (volume_bytes v)"
  using assms by (simp_all add: volume_shape_def volume_bytes_def)

interpretation volume_crc: crc_struct volume_shape hammer_crc_get_volume
  hammer_crc_set_volume hammer_crc_test_volume vol_crc
  by unfold_locales
    (auto simp: hammer_crc_get_volume_def hammer_crc_set_volume_def
      hammer_crc_test_volume_def volume_bytes_crc_field crcsize_defs version_defs
      dest!: hammer_datacrc_version)

interpretation fifo_crc: crc_struct "\<lambda>_. True" hammer_crc_get_fifo_head
  hammer_crc_set_fifo_head hammer_crc_test_fifo_head "\<lambda>rec. hdr_crc (fst rec)"
  by unfold_locales
    (auto simp: hammer_crc_get_fifo_head_def hammer_crc_set_fifo_head_def
      hammer_crc_test_fifo_head_def fifo_head_bytes_def crcsize_defs version_defs
      dest!: hammer_datacrc_version)

interpretation btree_crc: crc_struct "\<lambda>_. True" hammer_crc_get_btree
  hammer_crc_set_btree hammer_crc_test_btree nd_crc
  by unfold_locales
    (auto simp: hammer_crc_get_btree_def hammer_crc_set_btree_def
      hammer_crc_test_btree_def node_bytes_def crcsize_defs version_defs
      dest!: hammer_datacrc_version)

interpretation leaf_crc: crc_struct "\<lambda>_. True" "\<lambda>v. hammer_crc_get_leaf v data"
  "\<lambda>v. hammer_crc_set_leaf v data" "\<lambda>v. hammer_crc_test_leaf v data" leaf_data_crc
  by unfold_locales
    (auto simp: hammer_crc_get_leaf_def hammer_crc_set_leaf_def
      hammer_crc_test_leaf_def version_defs dest!: hammer_datacrc_version)

lemma hammer_datacrc_burst:
  assumes "length ys = length zs" and "length ys \<le> 4" and "ys \<noteq> zs"
    and "length (xs @ ys @ ws) < 2 ^ 32"
  shows "hammer_datacrc v (xs @ ys @ ws) \<noteq> hammer_datacrc v (xs @ zs @ ws)"
  using crc32_burst [OF assms(1-3)] iscsi_crc32_burst [OF assms] by (simp add: hammer_datacrc_def)

section \<open>Properties\<close>

text \<open>A free big-block and a blank header, as inputs on which the statements are evaluated.\<close>

definition layer2_free :: hammer_blockmap_layer2 where
  "layer2_free = \<lparr>l2_zone = 0, l2_reserved01 = 0, l2_reserved02 = 0, l2_append_off = 0,
     l2_bytes_free = 0x800000, l2_entry_crc = 0\<rparr>"

definition volume_blank :: hammer_volume_ondisk where
  "volume_blank = \<lparr>vol_signature = HAMMER_FSBUF_VOLUME, vol_bot_beg = 0, vol_mem_beg = 0,
     vol_buf_beg = 0, vol_buf_end = 0, vol_reserved01 = 0, vol_fsid = replicate 16 0,
     vol_fstype = replicate 16 0, vol_label = replicate 64 0, od_vol_no = 0, vol_count = 1,
     vol_version = 7, vol_crc = 0, vol_flags = 0, vol_rootvol = 0, vol_reserved = replicate 8 0,
     vol0_stat_bigblocks = 0, vol0_stat_freebigblocks = 0, vol0_reserved01 = 0,
     vol0_stat_inodes = 0, vol0_reserved02 = 0, vol0_btree_root = 0, vol0_next_tid = 0,
     vol0_reserved03 = 0,
     vol0_blockmap = replicate 16 \<lparr>bm_phys_offset = 0, bm_first_offset = 0, bm_next_offset = 0,
       bm_alloc_offset = 0, bm_reserved01 = 0, bm_entry_crc = 0\<rparr>,
     vol0_undo_array = replicate 128 0\<rparr>"

text \<open>
  C20: a structure whose checksum was stored under version \<open>w\<close> passes the test under version \<open>v\<close>
  unless \<open>w\<close> uses the new checksum and \<open>v\<close> the old one; in particular everything written before an
  upgrade to version 7 still tests valid after it.  This holds of all seven checksummed structures.
\<close>

theorem crc_set_then_test:
  assumes "7 \<le> w \<longrightarrow> 7 \<le> v" and "volume_shape ondisk"
  shows "hammer_crc_test_blockmap v (hammer_crc_set_blockmap w blockmap) \<and>
    hammer_crc_test_layer1 v (hammer_crc_set_layer1 w layer1) \<and>
    hammer_crc_test_layer2 v (hammer_crc_set_layer2 w layer2) \<and>
    hammer_crc_test_volume v (hammer_crc_set_volume w ondisk) \<and>
    hammer_crc_test_fifo_head v (hammer_crc_set_fifo_head w rec) \<and>
    hammer_crc_test_btree v (hammer_crc_set_btree w node) \<and>
    hammer_crc_test_leaf v data (hammer_crc_set_leaf w data leaf)"
  using assms
  by (simp add: blockmap_crc.test_set layer1_crc.test_set layer2_crc.test_set volume_crc.test_set
      fifo_crc.test_set btree_crc.test_set leaf_crc.test_set)

theorem crc_set_then_test_witness:
  "hammer_crc_test_layer2 7 (hammer_crc_set_layer2 6 layer2_free) \<and>
   hammer_crc_test_volume 7 (hammer_crc_set_volume 6 volume_blank)"
proof -
  have "volume_shape volume_blank" by (simp add: volume_shape_def volume_blank_def)
  then show ?thesis
    using crc_set_then_test [of 6 7 volume_blank undefined undefined layer2_free] by simp
qed

text \<open>
  C21: the data checksum of a leaf covers what it should: it detects every change of up to four
  adjacent bytes of the covered part, which is all of the data except for an inode, where the last
  16 of the 128 bytes, the two time stamps that are updated in place, do not enter the checksum.
\<close>

theorem leaf_crc_coverage:
  assumes "length ys = length zs" and "length ys \<le> 4" and "ys \<noteq> zs"
    and "sint (leaf_data_len leaf) = int (length (xs @ ys @ ws))"
    and "is_inode \<longleftrightarrow> rec_type (leaf_base leaf) = HAMMER_RECTYPE_INODE"
    and "is_inode \<longrightarrow> leaf_data_len leaf = 128"
    and "covered = (if is_inode then 112 else length (xs @ ys @ ws))"
  shows "(length (xs @ ys) \<le> covered \<longrightarrow>
      hammer_crc_get_leaf v (xs @ ys @ ws) leaf \<noteq> hammer_crc_get_leaf v (xs @ zs @ ws) leaf) \<and>
    (covered \<le> length xs \<longrightarrow>
      hammer_crc_get_leaf v (xs @ ys @ ws) leaf = hammer_crc_get_leaf v (xs @ zs @ ws) leaf)"
proof -
  let ?n = "length (xs @ ys @ ws)"
  have pos: "0 < length ys" using assms(1,3) by auto
  have nz: "leaf_data_len leaf \<noteq> 0"
  proof
    assume "leaf_data_len leaf = 0"
    with assms(4) have "?n = 0" by (simp only: signed_0 of_nat_eq_0_iff eq_commute)
    with pos show False by simp
  qed
  have small: "?n < 2 ^ 32"
    using assms(4) sint_lt [of "leaf_data_len leaf"] by simp
  have len: "unat (scast (leaf_data_len leaf) :: u64) = ?n"
    using assms(4) small by (simp add: scast_eq unat_of_nat unsigned_of_nat take_bit_nat_eq_self flip: of_nat_add)
  have same: "hammer_crc_get_leaf v zs' leaf = hammer_datacrc v (take covered zs')" for zs'
    using assms(5-7) nz len by (auto simp: hammer_crc_get_leaf_def crcsize_defs)
  have cut: "take covered (xs @ bs @ ws) = xs @ bs @ take (covered - length (xs @ ys)) ws"
    if "length (xs @ ys) \<le> covered" and "length bs = length ys" for bs
    using that by simp
  have "hammer_datacrc v (xs @ ys @ take m ws) \<noteq> hammer_datacrc v (xs @ zs @ take m ws)" for m
    using hammer_datacrc_burst [OF assms(1-3), of xs "take m ws"] small by simp
  then show ?thesis
    unfolding same using cut assms(1) by simp
qed

theorem leaf_crc_coverage_witness:
  "\<exists>leaf. hammer_crc_get_leaf 7 [1, 2, 3] leaf \<noteq> hammer_crc_get_leaf 7 [1, 9, 3] leaf"
proof -
  define leaf :: hammer_btree_leaf_elm where "leaf = \<lparr>leaf_base = \<lparr>obj_id = 1, key = 0, create_tid = 1,
    delete_tid = 0, rec_type = HAMMER_RECTYPE_DATA, obj_type = 0, btype = HAMMER_BTREE_TYPE_RECORD,
    localization = HAMMER_LOCALIZE_MISC\<rparr>, leaf_create_ts = 0, leaf_delete_ts = 0,
    leaf_data_offset = 0, leaf_data_len = 3, leaf_data_crc = 0\<rparr>"
  have "hammer_crc_get_leaf 7 ([1] @ [2] @ [3]) leaf \<noteq> hammer_crc_get_leaf 7 ([1] @ [9] @ [3]) leaf"
    using leaf_crc_coverage [of "[2]" "[9]" leaf "[1]" "[3]" False 3 7]
    by (simp add: leaf_def HAMMER_RECTYPE_DATA_def HAMMER_RECTYPE_INODE_def)
  then show ?thesis by auto
qed

end
