(* ===== verification/Io_Monad.thy ===== *)
theory Io_Monad
  imports Prelude
begin

text \<open>
  Stateful operations that may end the process: a function from the state to a result and the next
  state, or to the reason the process stopped.  \<open>wp m Q s\<close> says that \<open>m\<close> started in \<open>s\<close> returns,
  with a result and a state that satisfy \<open>Q\<close>; its rules, collected in \<open>wp_simps\<close>, compute the
  condition from the text of an operation.
\<close>

named_theorems wp_simps \<open>weakest preconditions of the basic operations\<close>

type_synonym ('s, 'a) io = "'s \<Rightarrow> ('a \<times> 's) run"

definition returnS :: "'a \<Rightarrow> ('s, 'a) io" where
  "returnS x s = Inr (x, s)"

definition bindS :: "('s, 'a) io \<Rightarrow> ('a \<Rightarrow> ('s, 'b) io) \<Rightarrow> ('s, 'b) io" where
  "bindS m f s = (case m s of Inl e \<Rightarrow> Inl e | Inr (x, s') \<Rightarrow> f x s')"

definition stopS :: "stop \<Rightarrow> ('s, 'a) io" where
  "stopS e s = Inl e"

definition getS :: "('s \<Rightarrow> 'a) \<Rightarrow> ('s, 'a) io" where
  "getS f s = Inr (f s, s)"

definition modifyS :: "('s \<Rightarrow> 's) \<Rightarrow> ('s, unit) io" where
  "modifyS f s = Inr ((), f s)"

definition assertS :: "bool \<Rightarrow> string \<Rightarrow> ('s, unit) io" where
  "assertS b what s = (if b then Inr ((), s) else Inl (Assert_failed what))"

definition liftS :: "'a run \<Rightarrow> ('s, 'a) io" where
  "liftS r s = (case r of Inl e \<Rightarrow> Inl e | Inr x \<Rightarrow> Inr (x, s))"

definition whenS :: "bool \<Rightarrow> ('s, unit) io \<Rightarrow> ('s, unit) io" where
  "whenS b m = (if b then m else returnS ())"

text \<open>A counted loop over the elements of a list.\<close>

fun forS :: "'b list \<Rightarrow> ('b \<Rightarrow> 'a \<Rightarrow> ('s, 'a) io) \<Rightarrow> 'a \<Rightarrow> ('s, 'a) io" where
  "forS [] body x = returnS x"
| "forS (i # is) body x = bindS (body i x) (forS is body)"

definition wp :: "('s, 'a) io \<Rightarrow> ('a \<Rightarrow> 's \<Rightarrow> bool) \<Rightarrow> 's \<Rightarrow> bool" where
  "wp m Q s \<longleftrightarrow> (\<exists>x s'. m s = Inr (x, s') \<and> Q x s')"

lemma wp_return [wp_simps]: "wp (returnS x) Q = (\<lambda>s. Q x s)"
  by (simp add: fun_eq_iff wp_def returnS_def)

lemma wp_bind [wp_simps]: "wp (bindS m f) Q = (\<lambda>s. wp m (\<lambda>x. wp (f x) Q) s)"
  by (auto simp: fun_eq_iff wp_def bindS_def split: sum.splits)

lemma wp_stop [wp_simps]: "wp (stopS e) Q = (\<lambda>s. False)"
  by (simp add: fun_eq_iff wp_def stopS_def)

lemma wp_get [wp_simps]: "wp (getS f) Q = (\<lambda>s. Q (f s) s)"
  by (simp add: fun_eq_iff wp_def getS_def)

lemma wp_modify [wp_simps]: "wp (modifyS f) Q = (\<lambda>s. Q () (f s))"
  by (simp add: fun_eq_iff wp_def modifyS_def)

lemma wp_assert [wp_simps]: "wp (assertS b what) Q = (\<lambda>s. b \<and> Q () s)"
  by (simp add: fun_eq_iff wp_def assertS_def)

lemma wp_lift [wp_simps]: "wp (liftS r) Q = (\<lambda>s. (\<exists>x. r = Inr x \<and> Q x s))"
  by (auto simp: fun_eq_iff wp_def liftS_def split: sum.splits)

lemma wp_when [wp_simps]: "wp (whenS b m) Q = (\<lambda>s. (if b then wp m Q s else Q () s))"
  by (simp add: fun_eq_iff whenS_def wp_return)

lemma wp_if [wp_simps]: "wp (if b then m else m') Q = (\<lambda>s. (if b then wp m Q s else wp m' Q s))"
  by simp

lemma wp_case_option [wp_simps]:
  "wp (case x of None \<Rightarrow> m | Some y \<Rightarrow> f y) Q =
     (\<lambda>s. (case x of None \<Rightarrow> wp m Q s | Some y \<Rightarrow> wp (f y) Q s))"
  by (simp add: fun_eq_iff split: option.splits)

lemma wp_case_prod [wp_simps]:
  "wp (case p of (x, y) \<Rightarrow> f x y) Q = (\<lambda>s. (case p of (x, y) \<Rightarrow> wp (f x y) Q s))"
  by (simp add: fun_eq_iff split: prod.splits)

lemma wp_let [wp_simps]: "wp (Let x f) Q = (\<lambda>s. wp (f x) Q s)"
  by (simp add: fun_eq_iff Let_def)

lemma wp_mono: "wp m Q s \<Longrightarrow> (\<And>x s'. Q x s' \<Longrightarrow> R x s') \<Longrightarrow> wp m R s"
  by (auto simp: wp_def)

lemma wp_conj: "wp m Q s \<Longrightarrow> wp m R s \<Longrightarrow> wp m (\<lambda>x s'. Q x s' \<and> R x s') s"
  by (auto simp: wp_def)

lemma wp_Inr: "m s = Inr (x, s') \<Longrightarrow> wp m Q s \<Longrightarrow> Q x s'"
  by (auto simp: wp_def)

lemma wp_returns: "wp m Q s \<Longrightarrow> \<exists>x s'. m s = Inr (x, s') \<and> Q x s'"
  by (simp add: wp_def)

text \<open>An invariant of a counted loop, indexed by the elements still to be processed.\<close>

lemma wp_for:
  assumes "I is x s"
    and "\<And>i is x s. I (i # is) x s \<Longrightarrow> wp (body i x) (I is) s"
  shows "wp (forS is body x) (I []) s"
  using assms(1)
proof (induction "is" arbitrary: x s)
  case Nil
  then show ?case by (simp add: wp_return)
next
  case (Cons i "is")
  from assms(2) [OF Cons.prems] show ?case
    unfolding forS.simps wp_bind by (rule wp_mono) (rule Cons.IH)
qed

text \<open>The same for a loop over the first \<open>n\<close> values of a function.\<close>

lemma wp_for_upto:
  assumes "I 0 x s" and "\<And>k x s. k < n \<Longrightarrow> I k x s \<Longrightarrow> wp (body (f k) x) (I (Suc k)) s"
  shows "wp (forS (map f [0..<n]) body x) (I n) s"
proof -
  have "wp (forS (map f [k..<n]) body x) (I n) s" if "k \<le> n" "I k x s" for k x s
    using that
  proof (induction "n - k" arbitrary: k x s)
    case 0
    then show ?case by (simp add: wp_simps)
  next
    case (Suc m)
    then have k: "k < n" by simp
    then have "[k..<n] = k # [Suc k..<n]" by (rule upt_conv_Cons)
    moreover have "wp (body (f k) x) (\<lambda>y. wp (forS (map f [Suc k..<n]) body y) (I n)) s"
      by (rule wp_mono [OF assms(2) [OF k Suc.prems(2)]]) (use Suc k in simp)
    ultimately show ?case by (simp add: wp_simps)
  qed
  with assms(1) show ?thesis by simp
qed

text \<open>An invariant of the state alone.\<close>

lemma wp_for_all:
  assumes "J s" and "\<And>i x s. i \<in> set is \<Longrightarrow> J s \<Longrightarrow> wp (body i x) (\<lambda>_. J) s"
  shows "wp (forS is body x) (\<lambda>_. J) s"
proof -
  have "wp (forS is body x) (\<lambda>y t. set [] \<subseteq> set is \<and> J t) s"
    by (rule wp_for [where I = "\<lambda>js y t. set js \<subseteq> set is \<and> J t"]) (use assms wp_mono in fastforce)+
  then show ?thesis by simp
qed

text \<open>A loop whose rounds leave the state as it is.\<close>

lemma forS_pure:
  assumes "\<And>i x. body i x s = Inr (g i x, s)"
  shows "forS is body x s = Inr (foldl (\<lambda>x i. g i x) x is, s)"
  by (induction "is" arbitrary: x) (simp_all add: returnS_def bindS_def assms)

lemma forS_checks:
  assumes "\<And>i x. body i x s = Inr ((), s) \<or> (\<exists>e. body i x s = Inl e)"
  shows "forS is body () s = Inr (r, t) \<longleftrightarrow> t = s \<and> (\<forall>i\<in>set is. body i () s = Inr ((), s))"
proof (induction "is")
  case (Cons i "is")
  show ?case using assms [of i "()"] Cons by (auto simp: bindS_def)
qed (auto simp: returnS_def)

lemma bindS_Inr_iff: "bindS m g s = Inr r \<longleftrightarrow> (\<exists>x t. m s = Inr (x, t) \<and> g x t = Inr r)"
  by (auto simp: bindS_def split: sum.splits)

lemma forS_skip: "(\<And>i. i \<in> set is \<Longrightarrow> body i x s = Inr (x, s)) \<Longrightarrow> forS is body x s = Inr (x, s)"
  by (induction "is") (simp_all add: returnS_def bindS_def)

lemma forS_append: "forS (xs @ ys) body x = bindS (forS xs body x) (forS ys body)"
  by (induction xs arbitrary: x) (auto simp: fun_eq_iff bindS_def returnS_def split: sum.splits)

lemma bindS_cong [fundef_cong]:
  assumes "m s = m' s'" and "s = s'" and "\<And>x t. m' s' = Inr (x, t) \<Longrightarrow> f x t = f' x t"
  shows "bindS m f s = bindS m' f' s'"
  using assms by (auto simp: bindS_def split: sum.splits)

section \<open>Operations that may stop\<close>

named_theorems wlp_simps \<open>preconditions of the basic operations when some stops are allowed\<close>

text \<open>\<open>wlp E m Q s\<close>: from \<open>s\<close> the operation returns with \<open>Q\<close>, or stops for a reason in \<open>E\<close>.\<close>

definition wlp :: "stop set \<Rightarrow> ('s, 'a) io \<Rightarrow> ('a \<Rightarrow> 's \<Rightarrow> bool) \<Rightarrow> 's \<Rightarrow> bool" where
  "wlp E m Q s = (case m s of Inl e \<Rightarrow> e \<in> E | Inr (x, t) \<Rightarrow> Q x t)"

lemma wlp_basic [wlp_simps]:
  "wlp E (returnS x) Q = (\<lambda>s. Q x s)" "wlp E (getS f) R = (\<lambda>s. R (f s) s)"
  "wlp E (modifyS g) T = (\<lambda>s. T () (g s))" "wlp E (stopS e) U = (\<lambda>s. e \<in> E)"
  by (simp_all add: fun_eq_iff wlp_def returnS_def getS_def modifyS_def stopS_def)

lemma wlp_bind [wlp_simps]: "wlp E (bindS m f) Q = (\<lambda>s. wlp E m (\<lambda>x. wlp E (f x) Q) s)"
  by (auto simp: fun_eq_iff wlp_def bindS_def split: sum.splits)

lemma wlp_assert [wlp_simps]: "wlp E (assertS b what) Q = (\<lambda>s. if b then Q () s else Assert_failed what \<in> E)"
  by (simp add: fun_eq_iff wlp_def assertS_def)

lemma wlp_branches [wlp_simps]:
  "wlp E (if b then m else m') Q = (\<lambda>s. if b then wlp E m Q s else wlp E m' Q s)"
  "wlp E (whenS b w) R = (\<lambda>s. if b then wlp E w R s else R () s)"
  "wlp E (case x of None \<Rightarrow> m | Some y \<Rightarrow> f y) Q = (\<lambda>s. case x of None \<Rightarrow> wlp E m Q s | Some y \<Rightarrow> wlp E (f y) Q s)"
  "wlp E (case p of (x, y) \<Rightarrow> g x y) Q = (\<lambda>s. case p of (x, y) \<Rightarrow> wlp E (g x y) Q s)"
  "wlp E (Let z h) Q = (\<lambda>s. wlp E (h z) Q s)"
  by (auto simp: fun_eq_iff whenS_def wlp_basic split: option.splits prod.splits)

lemma wlp_mono: "wlp E m Q s \<Longrightarrow> (\<And>x t. Q x t \<Longrightarrow> R x t) \<Longrightarrow> wlp E m R s"
  by (auto simp: wlp_def split: sum.splits)

lemma wp_wlp: "wp m Q s \<Longrightarrow> wlp E m Q s"
  by (auto simp: wlp_def wp_def)

lemma wlp_for_all:
  assumes "J s" and "\<And>i x s. J s \<Longrightarrow> wlp E (body i x) (\<lambda>_. J) s"
  shows "wlp E (forS is body x) (\<lambda>_. J) s"
  using assms(1)
proof (induction "is" arbitrary: x s)
  case (Cons i "is")
  show ?case unfolding forS.simps wlp_bind
    by (rule wlp_mono [OF assms(2) [OF Cons.prems]]) (rule Cons.IH)
qed (simp add: wlp_basic)

end
