(* ===== verification/Buffer_State.thy ===== *)
theory Buffer_State
  imports Hammer_Crc Io_Monad
begin

text \<open>
  The process state of \<open>hammer(8)\<close> and \<open>newfs_hammer(8)\<close>: the volumes, the buffers, the cache list
  and the globals of \<open>sbin/hammer/ondisk.c\<close> and \<open>sbin/hammer/cache.c\<close>, together with the block
  devices behind the open volumes.  A buffer is named by the number of its allocation and a volume
  by its position on \<open>VolList\<close>, from which no volume is ever removed.
\<close>

section \<open>Structures of \<open>hammer_util.h\<close>\<close>

definition HAMMER_BUFLISTS :: nat where
  "HAMMER_BUFLISTS = 64"

definition HAMMER_BUFLISTMASK :: i32 where
  "HAMMER_BUFLISTMASK = 63"

text \<open>The content of a 16 KB buffer is a function from the byte index.\<close>

type_synonym bytes = "nat \<Rightarrow> u8"

record cache_info =
  cache_refs :: int
  cache_modified :: bool
  cache_delete :: bool

record buffer_info = cache_info +
  buf_zone2_offset :: u64
  buf_raw_offset :: i64
  buf_volume :: nat
  buf_ondisk :: bytes

text \<open>
  The header area of a volume is 16 KB: the structure and the bytes behind it, which are read and
  written with it.
\<close>

record volume_info =
  v_name :: string
  v_type :: string
  v_vol_no :: int
  v_rdonly :: bool
  v_fd :: nat
  v_size :: i64
  v_device_offset :: i64
  v_free_off :: u64
  v_free_end :: u64
  v_ondisk :: hammer_volume_ondisk
  v_tail :: "u8 list"
  v_buffer_lists :: "nat list list"

text \<open>
  What the operating system provides: the content of a device or file and, for every offset,
  whether a transfer of 16 KB there completes.
\<close>

record device =
  dev_bytes :: bytes
  dev_read_ok :: "int \<Rightarrow> bool"
  dev_write_ok :: "int \<Rightarrow> bool"

record hammer_state =
  VolList :: "volume_info list"
  valid_hammer_volumes :: int
  buffers :: "nat \<Rightarrow> buffer_info option"
  next_buffer :: nat
  CacheList :: "nat list"
  CacheUse :: int
  CacheMax :: int
  UseReadBehind :: int
  UseReadAhead :: int
  HammerVersion :: u32
  Hammer_FSType :: "u8 list"
  Hammer_FSId :: "u8 list"
  devices :: "nat \<Rightarrow> device"

type_synonym 'a hio = "(hammer_state, 'a) io"

section \<open>Pointers\<close>

text \<open>
  A dereference of a buffer that was freed is a fault, as is an access beyond the 16 KB of its
  content.
\<close>

definition get_buf :: "nat \<Rightarrow> buffer_info hio" where
  "get_buf b s = (case buffers s b of None \<Rightarrow> Inl (Use_after_free ''buffer'') | Some x \<Rightarrow> Inr (x, s))"

definition upd_buf :: "nat \<Rightarrow> (buffer_info \<Rightarrow> buffer_info) \<Rightarrow> unit hio" where
  "upd_buf b f s = (case buffers s b of
       None \<Rightarrow> Inl (Use_after_free ''buffer'')
     | Some x \<Rightarrow> Inr ((), s\<lparr>buffers := (buffers s)(b \<mapsto> f x)\<rparr>))"

definition new_buf :: "buffer_info \<Rightarrow> nat hio" where
  "new_buf x s = Inr (next_buffer s,
     s\<lparr>buffers := (buffers s)(next_buffer s \<mapsto> x), next_buffer := Suc (next_buffer s)\<rparr>)"

definition free_buf :: "nat \<Rightarrow> unit hio" where
  "free_buf b = modifyS (\<lambda>s. s\<lparr>buffers := (buffers s)(b := None)\<rparr>)"

definition get_vol :: "nat \<Rightarrow> volume_info hio" where
  "get_vol i s = (if i < length (VolList s) then Inr (VolList s ! i, s)
     else Inl (Use_after_free ''volume''))"

definition upd_vol :: "nat \<Rightarrow> (volume_info \<Rightarrow> volume_info) \<Rightarrow> unit hio" where
  "upd_vol i f s = (if i < length (VolList s)
     then Inr ((), s\<lparr>VolList := (VolList s)[i := f (VolList s ! i)]\<rparr>)
     else Inl (Use_after_free ''volume''))"

definition read_bytes :: "bytes \<Rightarrow> nat \<Rightarrow> nat \<Rightarrow> u8 list" where
  "read_bytes m off n = map m [off..<off + n]"

definition write_bytes :: "bytes \<Rightarrow> nat \<Rightarrow> u8 list \<Rightarrow> bytes" where
  "write_bytes m off bs i = (if off \<le> i \<and> i < off + length bs then bs ! (i - off) else m i)"

text \<open>A pointer into the content of a buffer, and typed access through it.\<close>

type_synonym ptr = "nat \<times> nat"

definition load :: "ptr \<Rightarrow> nat \<Rightarrow> u8 list hio" where
  "load p n = bindS (get_buf (fst p)) (\<lambda>x.
     if snd p + n \<le> 16384 then returnS (read_bytes (buf_ondisk x) (snd p) n)
     else stopS (Out_of_bounds ''buffer content''))"

definition store :: "ptr \<Rightarrow> u8 list \<Rightarrow> unit hio" where
  "store p bs =
     (if snd p + length bs \<le> 16384
      then upd_buf (fst p) (\<lambda>x. x\<lparr>buf_ondisk := write_bytes (buf_ondisk x) (snd p) bs\<rparr>)
      else stopS (Out_of_bounds ''buffer content''))"

definition nonnull :: "'a option \<Rightarrow> string \<Rightarrow> 'a hio" where
  "nonnull p what = (case p of None \<Rightarrow> stopS (Null_deref what) | Some x \<Rightarrow> returnS x)"

lemma wp_get_buf [wp_simps]: "wp (get_buf b) Q = (\<lambda>s. (\<exists>x. buffers s b = Some x \<and> Q x s))"
  by (auto simp: fun_eq_iff wp_def get_buf_def split: option.splits)

lemma wp_upd_buf [wp_simps]:
  "wp (upd_buf b f) Q =
     (\<lambda>s. (\<exists>x. buffers s b = Some x \<and> Q () (s\<lparr>buffers := (buffers s)(b \<mapsto> f x)\<rparr>)))"
  by (auto simp: fun_eq_iff wp_def upd_buf_def split: option.splits)

lemma wp_new_buf [wp_simps]:
  "wp (new_buf x) Q =
     (\<lambda>s. Q (next_buffer s)
       (s\<lparr>buffers := (buffers s)(next_buffer s \<mapsto> x), next_buffer := Suc (next_buffer s)\<rparr>))"
  by (simp add: fun_eq_iff wp_def new_buf_def)

lemma wp_free_buf [wp_simps]:
  "wp (free_buf b) Q = (\<lambda>s. Q () (s\<lparr>buffers := (buffers s)(b := None)\<rparr>))"
  by (simp add: fun_eq_iff free_buf_def wp_modify)

lemma wp_get_vol [wp_simps]:
  "wp (get_vol i) Q = (\<lambda>s. i < length (VolList s) \<and> Q (VolList s ! i) s)"
  by (auto simp: fun_eq_iff wp_def get_vol_def)

lemma wp_upd_vol [wp_simps]:
  "wp (upd_vol i f) Q = (\<lambda>s. i < length (VolList s) \<and>
     Q () (s\<lparr>VolList := (VolList s)[i := f (VolList s ! i)]\<rparr>))"
  by (auto simp: fun_eq_iff wp_def upd_vol_def)

lemma wp_load [wp_simps]:
  "wp (load p n) Q = (\<lambda>s. snd p + n \<le> 16384 \<and>
     (\<exists>x. buffers s (fst p) = Some x \<and> Q (read_bytes (buf_ondisk x) (snd p) n) s))"
  by (auto simp: fun_eq_iff load_def wp_simps)

lemma wp_store [wp_simps]:
  "wp (store p bs) Q = (\<lambda>s. snd p + length bs \<le> 16384 \<and>
     (\<exists>x. buffers s (fst p) = Some x \<and>
        Q () (s\<lparr>buffers := (buffers s)(fst p \<mapsto>
          x\<lparr>buf_ondisk := write_bytes (buf_ondisk x) (snd p) bs\<rparr>)\<rparr>)))"
  by (auto simp: fun_eq_iff store_def wp_simps)

lemma wp_nonnull [wp_simps]: "wp (nonnull p what) Q = (\<lambda>s. (\<exists>x. p = Some x \<and> Q x s))"
  by (auto simp: fun_eq_iff nonnull_def wp_simps split: option.splits)

lemma length_read_bytes [simp]: "length (read_bytes m off n) = n"
  by (simp add: read_bytes_def)

lemma nth_read_bytes [simp]: "i < n \<Longrightarrow> read_bytes m off n ! i = m (off + i)"
  by (simp add: read_bytes_def)

lemma read_write_bytes [simp]: "read_bytes (write_bytes m off bs) off (length bs) = bs"
  by (rule nth_equalityI) (simp_all add: write_bytes_def)

lemma read_write_bytes_other:
  "off' + n \<le> off \<or> off + length bs \<le> off' \<Longrightarrow>
     read_bytes (write_bytes m off bs) off' n = read_bytes m off' n"
  by (rule nth_equalityI) (auto simp: write_bytes_def)

section \<open>Decoding of freemap entries\<close>

definition layer1_of_bytes :: "u8 list \<Rightarrow> hammer_blockmap_layer1" where
  "layer1_of_bytes bs = \<lparr>l1_blocks_free = le_word (take 8 bs),
     l1_phys_offset = le_word (take 8 (drop 8 bs)), l1_reserved01 = le_word (take 8 (drop 16 bs)),
     l1_layer2_crc = le_word (take 4 (drop 24 bs)), l1_layer1_crc = le_word (take 4 (drop 28 bs))\<rparr>"

definition layer2_of_bytes :: "u8 list \<Rightarrow> hammer_blockmap_layer2" where
  "layer2_of_bytes bs = \<lparr>l2_zone = le_word (take 1 bs), l2_reserved01 = le_word (take 1 (drop 1 bs)),
     l2_reserved02 = le_word (take 2 (drop 2 bs)), l2_append_off = le_word (take 4 (drop 4 bs)),
     l2_bytes_free = le_word (take 4 (drop 8 bs)), l2_entry_crc = le_word (take 4 (drop 12 bs))\<rparr>"

lemma layer1_of_layer1_bytes [simp, codec_simps]: "layer1_of_bytes (layer1_bytes l) = l"
  by (simp add: layer1_of_bytes_def layer1_bytes_def le_word_le_bytes)

lemma le_word_single: "le_word [b :: u8] = b"
  by (simp add: le_word_Cons)

lemma layer2_of_layer2_bytes [simp, codec_simps]: "layer2_of_bytes (layer2_bytes l) = l"
  by (simp add: layer2_of_bytes_def layer2_bytes_def le_word_le_bytes le_word_single)

end
