(* ===== verification/Buffer_Cache.thy ===== *)
theory Buffer_Cache
  imports Buffer_State
begin

text \<open>
  The buffer cache of \<open>sbin/hammer/cache.c\<close> and the buffer operations of \<open>sbin/hammer/ondisk.c\<close>:
  lookup, allocation, release, eviction, write back and read ahead.  The translation of a zone
  offset, which itself reads buffers, is an argument \<open>lookup\<close> of the operations here; the theory of
  the blockmap supplies it.
\<close>

section \<open>Volumes\<close>

fun get_volume_from :: "nat \<Rightarrow> volume_info list \<Rightarrow> int \<Rightarrow> nat option" where
  "get_volume_from i [] vol_no = None"
| "get_volume_from i (v # vs) vol_no =
     (if v_vol_no v = vol_no then Some i else get_volume_from (Suc i) vs vol_no)"

definition get_volume :: "hammer_state \<Rightarrow> int \<Rightarrow> nat option" where
  "get_volume s vol_no = get_volume_from 0 (VolList s) vol_no"

definition get_root_volume :: "hammer_state \<Rightarrow> nat option" where
  "get_root_volume s = get_volume s HAMMER_ROOT_VOLNO"

section \<open>Core I/O\<close>

text \<open>
  \<open>pread\<close> and \<open>pwrite\<close> of 16 KB; a short transfer or an error is the result \<open>-1\<close>.  A volume opened
  read-only discards writes and reports success.
\<close>

definition dev_read :: "volume_info \<Rightarrow> int \<Rightarrow> bytes option hio" where
  "dev_read volume offset s =
     (let d = devices s (v_fd volume) in
      Inr (if 0 \<le> offset \<and> dev_read_ok d offset
           then Some (\<lambda>i. dev_bytes d (nat offset + i)) else None, s))"

definition dev_write :: "volume_info \<Rightarrow> bytes \<Rightarrow> int \<Rightarrow> int hio" where
  "dev_write volume data offset s =
     (let d = devices s (v_fd volume) in
      if v_rdonly volume then Inr (0, s)
      else if 0 \<le> offset \<and> dev_write_ok d offset then
        Inr (0, s\<lparr>devices := (devices s)(v_fd volume :=
          d\<lparr>dev_bytes := write_bytes (dev_bytes d) (nat offset) (map data [0..<16384])\<rparr>)\<rparr>)
      else Inr (- 1, s))"

definition readhammerbuf :: "nat \<Rightarrow> int hio" where
  "readhammerbuf b =
     bindS (get_buf b) (\<lambda>buffer.
     bindS (get_vol (buf_volume buffer)) (\<lambda>volume.
     bindS (dev_read volume (sint (buf_raw_offset buffer))) (\<lambda>r.
     case r of
       None \<Rightarrow> returnS (- 1)
     | Some data \<Rightarrow> bindS (upd_buf b (\<lambda>x. x\<lparr>buf_ondisk := data\<rparr>)) (\<lambda>_. returnS 0))))"

definition writehammerbuf :: "nat \<Rightarrow> int hio" where
  "writehammerbuf b =
     bindS (get_buf b) (\<lambda>buffer.
     bindS (get_vol (buf_volume buffer)) (\<lambda>volume.
     dev_write volume (buf_ondisk buffer) (sint (buf_raw_offset buffer))))"

definition writehammervol :: "nat \<Rightarrow> int hio" where
  "writehammervol vi =
     bindS (get_vol vi) (\<lambda>volume.
     dev_write volume (\<lambda>i. (volume_bytes (v_ondisk volume) @ v_tail volume) ! i) 0)"

section \<open>The cache list\<close>

definition hammer_cache_add :: "nat \<Rightarrow> unit hio" where
  "hammer_cache_add b =
     modifyS (\<lambda>s. s\<lparr>CacheList := b # CacheList s, CacheUse := CacheUse s + HAMMER_BUFSIZE\<rparr>)"

definition hammer_cache_del :: "nat \<Rightarrow> unit hio" where
  "hammer_cache_del b =
     modifyS (\<lambda>s. s\<lparr>CacheList := remove1 b (CacheList s), CacheUse := CacheUse s - HAMMER_BUFSIZE\<rparr>)"

definition hammer_cache_used :: "nat \<Rightarrow> unit hio" where
  "hammer_cache_used b = modifyS (\<lambda>s. s\<lparr>CacheList := remove1 b (CacheList s) @ [b]\<rparr>)"

section \<open>Lookup, write back and release\<close>

definition buffer_hash :: "u64 \<Rightarrow> nat" where
  "buffer_hash zone2_offset =
     unat ((ucast (zone2_offset div word_of_int HAMMER_BUFSIZE) :: i32) AND HAMMER_BUFLISTMASK)"

fun find_buffer_in :: "nat list \<Rightarrow> u64 \<Rightarrow> nat option hio" where
  "find_buffer_in [] zone2_offset = returnS None"
| "find_buffer_in (b # bs) zone2_offset =
     bindS (get_buf b) (\<lambda>buffer.
     if buf_zone2_offset buffer = zone2_offset then returnS (Some b)
     else find_buffer_in bs zone2_offset)"

definition find_buffer :: "u64 \<Rightarrow> nat option hio" where
  "find_buffer zone2_offset =
     bindS (getS (\<lambda>s. get_volume s (HAMMER_VOL_DECODE zone2_offset))) (\<lambda>volume.
     case volume of
       None \<Rightarrow> stopS (Assert_failed ''volume'')
     | Some vi \<Rightarrow>
         bindS (get_vol vi) (\<lambda>v.
         find_buffer_in (v_buffer_lists v ! buffer_hash zone2_offset) zone2_offset))"

definition flush_buffer :: "nat \<Rightarrow> unit hio" where
  "flush_buffer b =
     bindS (writehammerbuf b) (\<lambda>n.
     bindS (whenS (n = - 1) (stopS (Exit_with 1 ''Write volume''))) (\<lambda>_.
     upd_buf b (\<lambda>x. x\<lparr>cache_modified := False\<rparr>)))"

definition rel_buffer :: "nat option \<Rightarrow> unit hio" where
  "rel_buffer bufferp = (case bufferp of
       None \<Rightarrow> returnS ()
     | Some b \<Rightarrow>
         bindS (get_buf b) (\<lambda>buffer.
         bindS (assertS (cache_refs buffer > 0) ''buffer->cache.refs > 0'') (\<lambda>_.
         bindS (upd_buf b (\<lambda>x. x\<lparr>cache_refs := cache_refs x - 1\<rparr>)) (\<lambda>_.
         whenS (cache_refs buffer - 1 = 0 \<and> cache_delete buffer)
           (bindS (whenS (cache_modified buffer) (flush_buffer b)) (\<lambda>_.
            bindS (upd_vol (buf_volume buffer) (\<lambda>v.
              let hi = buffer_hash (buf_zone2_offset buffer) in
              v\<lparr>v_buffer_lists :=
                (v_buffer_lists v)[hi := remove1 b (v_buffer_lists v ! hi)]\<rparr>)) (\<lambda>_.
            bindS (hammer_cache_del b) (\<lambda>_.
            free_buf b))))))))"

section \<open>Eviction\<close>

text \<open>
  One turn of the loop per unit of fuel.  The divisions are of non-negative numbers.
\<close>

fun cache_flush_loop :: "nat \<Rightarrow> nat option \<Rightarrow> int \<Rightarrow> unit hio" where
  "cache_flush_loop 0 first count = stopS (Diverges ''hammer_cache_flush'')"
| "cache_flush_loop (Suc n) first count =
     bindS (getS CacheList) (\<lambda>list.
     case list of
       [] \<Rightarrow> returnS ()
     | cache # _ \<Rightarrow>
         if Some cache = first then returnS ()
         else
           bindS (get_buf cache) (\<lambda>c.
           if cache_refs c \<noteq> 0 then
             bindS (hammer_cache_used cache) (\<lambda>_.
             cache_flush_loop n (if first = None then Some cache else first) (count + 1))
           else
             bindS (getS CacheUse) (\<lambda>use.
             bindS (whenS (count \<ge> use div HAMMER_BUFSIZE)
               (modifyS (\<lambda>s. s\<lparr>CacheMax := CacheMax s + HAMMER_BUFSIZE * 512\<rparr>))) (\<lambda>_.
             bindS (upd_buf cache (\<lambda>x. x\<lparr>cache_refs := 1, cache_delete := True\<rparr>)) (\<lambda>_.
             bindS (rel_buffer (Some cache)) (\<lambda>_.
             bindS (getS (\<lambda>s. CacheUse s < CacheMax s div 2)) (\<lambda>low.
             if low then returnS ()
             else cache_flush_loop n first
               (if count \<ge> use div HAMMER_BUFSIZE then 0 else count))))))))"

definition hammer_cache_flush :: "unit hio" where
  "hammer_cache_flush =
     bindS (getS (\<lambda>s. CacheUse s \<ge> CacheMax s)) (\<lambda>full.
     bindS (getS (\<lambda>s. length (CacheList s))) (\<lambda>n.
     whenS full (cache_flush_loop (n + 1) None 0)))"

section \<open>Acquisition\<close>

definition blockmap_xlate_to_zone2 :: "(u64 \<Rightarrow> (u64 \<times> int) hio) \<Rightarrow> u64 \<Rightarrow> u64 hio" where
  "blockmap_xlate_to_zone2 lookup buf_offset =
     bindS (if hammer_is_zone_raw_buffer buf_offset then returnS (buf_offset, 0)
            else lookup buf_offset) (\<lambda>(zone2_offset, error).
     if error \<noteq> 0 then returnS HAMMER_OFF_BAD
     else bindS (assertS (hammer_is_zone_raw_buffer zone2_offset)
                  ''hammer_is_zone_raw_buffer(zone2_offset)'') (\<lambda>_.
          returnS zone2_offset))"

definition alloc_buffer :: "u64 \<Rightarrow> int \<Rightarrow> nat hio" where
  "alloc_buffer zone2_offset isnew =
     bindS (getS (\<lambda>s. get_volume s (HAMMER_VOL_DECODE zone2_offset))) (\<lambda>volume.
     case volume of
       None \<Rightarrow> stopS (Assert_failed ''volume != NULL'')
     | Some vi \<Rightarrow>
         bindS (get_vol vi) (\<lambda>v.
         bindS (new_buf \<lparr>cache_refs = 0, cache_modified = False, cache_delete = False,
             buf_zone2_offset = zone2_offset,
             buf_raw_offset = hammer_xlate_to_phys (v_ondisk v) zone2_offset,
             buf_volume = vi, buf_ondisk = (\<lambda>_. 0)\<rparr>) (\<lambda>b.
         bindS (whenS (isnew \<le> 0)
             (bindS (readhammerbuf b) (\<lambda>n.
              whenS (n = - 1) (stopS (Exit_with 1 ''Failed to read''))))) (\<lambda>_.
         bindS (upd_vol vi (\<lambda>v.
             let hi = buffer_hash zone2_offset in
             v\<lparr>v_buffer_lists :=
               (v_buffer_lists v)[hi := v_buffer_lists v ! hi @ [b]]\<rparr>)) (\<lambda>_.
         bindS (hammer_cache_add b) (\<lambda>_.
         returnS b))))))"

text \<open>
  \<open>get_buffer\<close> up to the read ahead: the buffer, or none when the offset does not translate, and
  the flag \<open>dora\<close> that asks for read ahead.
\<close>

definition get_buffer_nora ::
    "(u64 \<Rightarrow> (u64 \<times> int) hio) \<Rightarrow> u64 \<Rightarrow> int \<Rightarrow> (nat option \<times> bool) hio" where
  "get_buffer_nora lookup buf_offset isnew =
     bindS (blockmap_xlate_to_zone2 lookup buf_offset) (\<lambda>zone2_offset.
     if zone2_offset = HAMMER_OFF_BAD then returnS (None, False)
     else
       let zone2_offset = zone2_offset AND NOT HAMMER_BUFMASK64 in
       bindS (find_buffer zone2_offset) (\<lambda>found.
       bindS (case found of
           None \<Rightarrow> bindS (alloc_buffer zone2_offset isnew) (\<lambda>b. returnS (b, isnew = 0))
         | Some b \<Rightarrow>
             bindS (assertS (isnew \<noteq> - 1) ''isnew != -1'') (\<lambda>_.
             bindS (hammer_cache_used b) (\<lambda>_.
             returnS (b, False)))) (\<lambda>(b, dora).
       bindS (upd_buf b (\<lambda>x. x\<lparr>cache_refs := cache_refs x + 1\<rparr>)) (\<lambda>_.
       bindS hammer_cache_flush (\<lambda>_.
       bindS (whenS (isnew > 0)
           (bindS (get_buf b) (\<lambda>buffer.
            bindS (assertS (\<not> cache_modified buffer) ''buffer->cache.modified == 0'') (\<lambda>_.
            upd_buf b (\<lambda>x. x\<lparr>buf_ondisk := (\<lambda>_. 0), cache_modified := True\<rparr>))))) (\<lambda>_.
       returnS (Some b, dora)))))))"

function get_buffer_readahead_loop ::
    "(u64 \<Rightarrow> (u64 \<times> int) hio) \<Rightarrow> nat \<Rightarrow> int \<Rightarrow> int \<Rightarrow> i64 \<Rightarrow> unit hio" where
  "get_buffer_readahead_loop lookup vi ri re raw_offset =
     (if ri < re then
        bindS (get_vol vi) (\<lambda>volume.
        if sint raw_offset \<ge> sint (vol_buf_end (v_ondisk volume)) then returnS ()
        else if sint raw_offset < sint (vol_buf_beg (v_ondisk volume)) \<or> ri = 0 then
          get_buffer_readahead_loop lookup vi (ri + 1) re (raw_offset + word_of_int HAMMER_BUFSIZE)
        else
          let zone2_offset = HAMMER_ENCODE_RAW_BUFFER (v_vol_no volume)
                (raw_offset - vol_buf_beg (v_ondisk volume)) in
          bindS (find_buffer zone2_offset) (\<lambda>found.
          bindS (whenS (found = None)
              (bindS (get_buffer_nora lookup zone2_offset (- 1)) (\<lambda>(buffer, _).
               rel_buffer buffer))) (\<lambda>_.
          get_buffer_readahead_loop lookup vi (ri + 1) re
            (raw_offset + word_of_int HAMMER_BUFSIZE))))
      else returnS ())"
  by pat_completeness auto

termination
  by (relation "measure (\<lambda>(_, _, ri, re, _). nat (re - ri))") auto

declare get_buffer_readahead_loop.simps [simp del]

definition get_buffer_readahead :: "(u64 \<Rightarrow> (u64 \<times> int) hio) \<Rightarrow> nat \<Rightarrow> unit hio" where
  "get_buffer_readahead lookup base =
     bindS (get_buf base) (\<lambda>x.
     bindS (getS UseReadBehind) (\<lambda>ri.
     bindS (getS UseReadAhead) (\<lambda>re.
     get_buffer_readahead_loop lookup (buf_volume x) ri re
       (buf_raw_offset x + word_of_int (ri * HAMMER_BUFSIZE)))))"

definition get_buffer :: "(u64 \<Rightarrow> (u64 \<times> int) hio) \<Rightarrow> u64 \<Rightarrow> int \<Rightarrow> nat option hio" where
  "get_buffer lookup buf_offset isnew =
     bindS (get_buffer_nora lookup buf_offset isnew) (\<lambda>(buffer, dora).
     case buffer of
       None \<Rightarrow> returnS None
     | Some b \<Rightarrow>
         bindS (whenS dora (get_buffer_readahead lookup b)) (\<lambda>_.
         returnS (Some b)))"

text \<open>
  The pointer to the data and the buffer that holds it; the caller's buffer \<open>bufferp\<close> is kept when
  it already covers the offset.
\<close>

definition get_buffer_data ::
    "(u64 \<Rightarrow> (u64 \<times> int) hio) \<Rightarrow> u64 \<Rightarrow> nat option \<Rightarrow> int \<Rightarrow> (ptr option \<times> nat option) hio" where
  "get_buffer_data lookup buf_offset bufferp isnew =
     bindS (case bufferp of
         None \<Rightarrow> returnS None
       | Some b \<Rightarrow>
           bindS (get_buf b) (\<lambda>x.
           bindS (if hammer_is_zone_undo buf_offset then
                    bindS (get_vol (buf_volume x)) (\<lambda>volume.
                    bindS (liftS (hammer_xlate_to_undo (v_ondisk volume) buf_offset)) (\<lambda>off.
                    returnS (off XOR buf_zone2_offset x)))
                  else if hammer_is_zone_direct_xlated buf_offset then
                    returnS (HAMMER_OFF_LONG_ENCODE buf_offset XOR
                      HAMMER_OFF_LONG_ENCODE (buf_zone2_offset x))
                  else stopS (Assert_failed ''0'')) (\<lambda>diff.
           if isnew > 0 \<or> diff AND NOT HAMMER_BUFMASK64 \<noteq> 0 then
             bindS (rel_buffer (Some b)) (\<lambda>_. returnS None)
           else
             bindS (hammer_cache_used b) (\<lambda>_. returnS (Some b))))) (\<lambda>bufferp.
     bindS (case bufferp of
         None \<Rightarrow> get_buffer lookup buf_offset isnew
       | Some b \<Rightarrow> returnS (Some b)) (\<lambda>bufferp.
     returnS (map_option (\<lambda>b. (b, unat (buf_offset AND HAMMER_BUFMASK64))) bufferp, bufferp)))"

section \<open>Write back of everything\<close>

definition flush_volume :: "nat \<Rightarrow> unit hio" where
  "flush_volume vi =
     bindS (forS [0..<HAMMER_BUFLISTS] (\<lambda>i _.
       bindS (get_vol vi) (\<lambda>volume.
       forS (v_buffer_lists volume ! i) (\<lambda>b _. flush_buffer b) ())) ()) (\<lambda>_.
     bindS (writehammervol vi) (\<lambda>n.
     whenS (n = - 1) (stopS (Exit_with 1 ''Write volume''))))"

definition flush_all_volumes :: "unit hio" where
  "flush_all_volumes =
     bindS (getS (\<lambda>s. length (VolList s))) (\<lambda>n.
     forS [0..<n] (\<lambda>vi _. flush_volume vi) ())"

end
