(* ===== verification/Cache_Invariant.thy ===== *)
theory Cache_Invariant
  imports Buffer_Cache
begin

text \<open>
  What the buffer cache promises.  \<open>media\<close> is the content of a volume as the program sees it: the
  cached content where a buffer exists and the device elsewhere.  The invariant \<open>good D\<close> says that
  the lists agree with the buffers and that every buffer outside \<open>D\<close> that is not marked modified
  equals the device; \<open>D\<close> are the buffers a caller has changed and not marked yet.  Every operation
  of the cache keeps the invariant and the media, whatever it evicts.
\<close>

section \<open>The media view\<close>

definition buf_short :: "buffer_info \<Rightarrow> nat" where
  "buf_short x = unat (buf_zone2_offset x) mod 2 ^ 52"

definition vol_beg :: "hammer_state \<Rightarrow> nat \<Rightarrow> nat" where
  "vol_beg s vi = nat (sint (vol_buf_beg (v_ondisk (VolList s ! vi))))"

definition vol_area :: "hammer_state \<Rightarrow> nat \<Rightarrow> nat" where
  "vol_area s vi = nat (sint (vol_buf_end (v_ondisk (VolList s ! vi)))) - vol_beg s vi"

definition disk :: "hammer_state \<Rightarrow> nat \<Rightarrow> nat \<Rightarrow> u8" where
  "disk s vi a = dev_bytes (devices s (v_fd (VolList s ! vi))) (vol_beg s vi + a)"

definition covers :: "hammer_state \<Rightarrow> nat \<Rightarrow> nat \<Rightarrow> nat \<Rightarrow> bool" where
  "covers s vi a b = (case buffers s b of None \<Rightarrow> False
     | Some x \<Rightarrow> buf_volume x = vi \<and> buf_short x = a div 16384 * 16384)"

definition media :: "hammer_state \<Rightarrow> nat \<Rightarrow> nat \<Rightarrow> u8" where
  "media s vi a = (case find (covers s vi a) (CacheList s) of
       None \<Rightarrow> disk s vi a
     | Some b \<Rightarrow> (case buffers s b of None \<Rightarrow> 0 | Some x \<Rightarrow> buf_ondisk x (a mod 16384)))"

section \<open>The invariant\<close>

definition area_ok :: "hammer_volume_ondisk \<Rightarrow> bool" where
  "area_ok od \<longleftrightarrow> (let beg = sint (vol_buf_beg od); fin = sint (vol_buf_end od) in
     0 \<le> beg \<and> beg \<le> fin \<and> fin < 2 ^ 62 \<and> fin - beg \<le> 2 ^ 52 \<and>
     16384 dvd beg \<and> 16384 dvd fin \<and> (beg < fin \<longrightarrow> 16384 \<le> beg))"

definition vol_ok :: "volume_info \<Rightarrow> bool" where
  "vol_ok v \<longleftrightarrow> 0 \<le> v_vol_no v \<and> v_vol_no v < 256 \<and> length (v_buffer_lists v) = 64 \<and>
     area_ok (v_ondisk v)"

definition vols_ok :: "hammer_state \<Rightarrow> bool" where
  "vols_ok s \<longleftrightarrow> distinct (map v_vol_no (VolList s)) \<and> distinct (map v_fd (VolList s)) \<and>
     (\<forall>v\<in>set (VolList s). vol_ok v)"

definition buf_ok :: "hammer_state \<Rightarrow> nat \<Rightarrow> buffer_info \<Rightarrow> bool" where
  "buf_ok s b x \<longleftrightarrow>
     b < next_buffer s \<and> buf_volume x < length (VolList s) \<and>
     hammer_is_zone_raw_buffer (buf_zone2_offset x) \<and> 16384 dvd unat (buf_zone2_offset x) \<and>
     HAMMER_VOL_DECODE (buf_zone2_offset x) = v_vol_no (VolList s ! buf_volume x) \<and>
     buf_raw_offset x = hammer_xlate_to_phys (v_ondisk (VolList s ! buf_volume x)) (buf_zone2_offset x) \<and>
     buf_short x + 16384 \<le> vol_area s (buf_volume x) \<and>
     0 \<le> cache_refs x"

definition lists_ok :: "hammer_state \<Rightarrow> bool" where
  "lists_ok s \<longleftrightarrow>
     distinct (CacheList s) \<and> set (CacheList s) = dom (buffers s) \<and>
     CacheUse s = 16384 * int (length (CacheList s)) \<and>
     (\<forall>vi < length (VolList s). \<forall>hi < 64.
        distinct (v_buffer_lists (VolList s ! vi) ! hi) \<and>
        set (v_buffer_lists (VolList s ! vi) ! hi) =
          {b. \<exists>x. buffers s b = Some x \<and> buf_volume x = vi \<and> buffer_hash (buf_zone2_offset x) = hi})"

definition bufs_ok :: "hammer_state \<Rightarrow> bool" where
  "bufs_ok s \<longleftrightarrow>
     (\<forall>b x. buffers s b = Some x \<longrightarrow> buf_ok s b x) \<and>
     (\<forall>b x b' x'. buffers s b = Some x \<longrightarrow> buffers s b' = Some x' \<longrightarrow>
        buf_zone2_offset x = buf_zone2_offset x' \<longrightarrow> b = b')"

definition coherent :: "nat set \<Rightarrow> hammer_state \<Rightarrow> bool" where
  "coherent D s \<longleftrightarrow>
     (\<forall>b x. buffers s b = Some x \<longrightarrow>
        (cache_modified x \<longrightarrow> \<not> v_rdonly (VolList s ! buf_volume x)) \<and>
        (\<not> cache_modified x \<longrightarrow> b \<notin> D \<longrightarrow>
           (\<forall>i<16384. buf_ondisk x i = disk s (buf_volume x) (buf_short x + i)))) \<and>
     (\<forall>b\<in>D. \<exists>x. buffers s b = Some x \<and> 0 < cache_refs x)"

definition io_ok :: "hammer_state \<Rightarrow> bool" where
  "io_ok s \<longleftrightarrow> \<bar>UseReadBehind s\<bar> < 2 ^ 17 \<and>
     (\<forall>v\<in>set (VolList s). dev_write_ok (devices s (v_fd v)) 0 \<and>
       (\<forall>off. sint (vol_buf_beg (v_ondisk v)) \<le> off \<longrightarrow> off + 16384 \<le> sint (vol_buf_end (v_ondisk v)) \<longrightarrow>
          dev_read_ok (devices s (v_fd v)) off \<and> dev_write_ok (devices s (v_fd v)) off))"

definition wfs :: "nat set \<Rightarrow> hammer_state \<Rightarrow> bool" where
  "wfs D s \<longleftrightarrow> vols_ok s \<and> io_ok s \<and> lists_ok s \<and> bufs_ok s \<and> coherent D s"

text \<open>Only the eviction loop sets the delete flag, and it releases the buffer at once.\<close>

definition good :: "nat set \<Rightarrow> hammer_state \<Rightarrow> bool" where
  "good D s \<longleftrightarrow> wfs D s \<and> (\<forall>b x. buffers s b = Some x \<longrightarrow> \<not> cache_delete x)"

section \<open>What an operation keeps\<close>

definition refs_of :: "hammer_state \<Rightarrow> nat \<Rightarrow> int" where
  "refs_of s b = (case buffers s b of None \<Rightarrow> 0 | Some x \<Rightarrow> cache_refs x)"

definition vol_frame :: "volume_info \<Rightarrow> volume_info" where
  "vol_frame v = v\<lparr>v_buffer_lists := []\<rparr>"

definition frame :: "hammer_state \<Rightarrow> _" where
  "frame s = (map vol_frame (VolList s), valid_hammer_volumes s, UseReadBehind s, UseReadAhead s,
     HammerVersion s, Hammer_FSType s, Hammer_FSId s,
     \<lambda>fd. (dev_read_ok (devices s fd), dev_write_ok (devices s fd)))"

definition same_bufs :: "hammer_state \<Rightarrow> hammer_state \<Rightarrow> bool" where
  "same_bufs s s' \<longleftrightarrow> next_buffer s \<le> next_buffer s' \<and>
     (\<forall>b x'. buffers s' b = Some x' \<longrightarrow> b < next_buffer s \<longrightarrow>
        (\<exists>x. buffers s b = Some x \<and> buf_zone2_offset x' = buf_zone2_offset x \<and>
           (cache_modified x' \<longrightarrow> cache_modified x))) \<and>
     (\<forall>b x'. buffers s' b = Some x' \<longrightarrow> cache_modified x' \<longrightarrow> (\<exists>x. buffers s b = Some x \<and> cache_modified x))"

definition keeps :: "(nat \<Rightarrow> int) \<Rightarrow> hammer_state \<Rightarrow> hammer_state \<Rightarrow> bool" where
  "keeps R s s' \<longleftrightarrow> frame s' = frame s \<and>
     (\<forall>vi < length (VolList s). media s' vi = media s vi) \<and>
     (\<forall>b. refs_of s' b = refs_of s b + R b) \<and> same_bufs s s'"

lemma keeps_refl: "keeps (\<lambda>_. 0) s s"
  by (simp add: keeps_def same_bufs_def)

lemma same_bufs_trans:
  assumes "same_bufs s s1" and "same_bufs s1 s2"
  shows "same_bufs s s2"
  unfolding same_bufs_def
proof (intro conjI allI impI)
  show "next_buffer s \<le> next_buffer s2" using assms by (auto simp: same_bufs_def)
  show "\<exists>x. buffers s b = Some x \<and> cache_modified x" if "buffers s2 b = Some x2" "cache_modified x2" for b x2
    using assms that unfolding same_bufs_def by meson
  fix b x2 assume b: "buffers s2 b = Some x2" "b < next_buffer s"
  then obtain x1 where "buffers s1 b = Some x1" "buf_zone2_offset x2 = buf_zone2_offset x1"
    "cache_modified x2 \<longrightarrow> cache_modified x1"
    using assms unfolding same_bufs_def by (meson order.strict_trans2)
  moreover from this(1) b(2) obtain x where "buffers s b = Some x"
    "buf_zone2_offset x1 = buf_zone2_offset x" "cache_modified x1 \<longrightarrow> cache_modified x"
    using assms unfolding same_bufs_def by meson
  ultimately show "\<exists>x. buffers s b = Some x \<and> buf_zone2_offset x2 = buf_zone2_offset x \<and>
      (cache_modified x2 \<longrightarrow> cache_modified x)" by auto
qed

lemma frame_vols:
  assumes "frame s' = frame s"
  shows "length (VolList s') = length (VolList s)"
    and "i < length (VolList s) \<Longrightarrow> vol_frame (VolList s' ! i) = vol_frame (VolList s ! i)"
proof -
  have m: "map vol_frame (VolList s') = map vol_frame (VolList s)"
    using assms by (simp add: frame_def)
  then show len: "length (VolList s') = length (VolList s)" by (metis length_map)
  show "vol_frame (VolList s' ! i) = vol_frame (VolList s ! i)" if "i < length (VolList s)"
    using that len m by (metis nth_map)
qed

lemma keeps_trans:
  assumes "keeps R s s1" and "keeps R' s1 s2"
  shows "keeps (\<lambda>b. R b + R' b) s s2"
  using assms frame_vols(1) [of s1 s] same_bufs_trans [of s s1 s2] by (auto simp: keeps_def)

lemma vol_frame_fields:
  assumes "vol_frame v = vol_frame w"
  shows "v_vol_no v = v_vol_no w" "v_fd v = v_fd w" "v_ondisk v = v_ondisk w"
    "v_rdonly v = v_rdonly w" "v_free_off v = v_free_off w" "v_free_end v = v_free_end w"
  using assms by (cases v; cases w; simp add: vol_frame_def)+

lemma frame_fields:
  assumes "frame s' = frame s" and "i < length (VolList s)"
  shows "v_vol_no (VolList s' ! i) = v_vol_no (VolList s ! i)"
    "v_fd (VolList s' ! i) = v_fd (VolList s ! i)"
    "v_ondisk (VolList s' ! i) = v_ondisk (VolList s ! i)"
    "v_rdonly (VolList s' ! i) = v_rdonly (VolList s ! i)"
    "vol_beg s' i = vol_beg s i" "vol_area s' i = vol_area s i"
  using vol_frame_fields [OF frame_vols(2) [OF assms]] by (simp_all add: vol_beg_def vol_area_def)

section \<open>Reading the media\<close>

lemma wfsD:
  assumes "wfs D s"
  shows "vols_ok s" "io_ok s" "lists_ok s" "bufs_ok s" "coherent D s"
  using assms by (simp_all add: wfs_def)

lemma buf_okD:
  assumes "bufs_ok s" and "buffers s b = Some x"
  shows "b < next_buffer s" "buf_volume x < length (VolList s)"
    "hammer_is_zone_raw_buffer (buf_zone2_offset x)" "16384 dvd unat (buf_zone2_offset x)"
    "HAMMER_VOL_DECODE (buf_zone2_offset x) = v_vol_no (VolList s ! buf_volume x)"
    "buf_raw_offset x = hammer_xlate_to_phys (v_ondisk (VolList s ! buf_volume x)) (buf_zone2_offset x)"
    "buf_short x + 16384 \<le> vol_area s (buf_volume x)"
    "0 \<le> cache_refs x"
  using assms by (auto simp: bufs_ok_def buf_ok_def)

lemma buf_unique:
  "bufs_ok s \<Longrightarrow> buffers s b = Some x \<Longrightarrow> buffers s b' = Some x' \<Longrightarrow>
     buf_zone2_offset x = buf_zone2_offset x' \<Longrightarrow> b = b'"
  unfolding bufs_ok_def by blast

text \<open>A raw buffer offset is its volume number and its short offset.\<close>

lemma zone2_eqI:
  assumes "hammer_is_zone_raw_buffer z" and "hammer_is_zone_raw_buffer z'"
    and "HAMMER_VOL_DECODE z = HAMMER_VOL_DECODE z'"
    and "unat z mod 2 ^ 52 = unat z' mod 2 ^ 52"
  shows "z = z'"
proof -
  have q: "unat w div 2 ^ 52 = 2 * 256 + unat w div 2 ^ 52 mod 256"
    if "unat w div 2 ^ 60 = 2" for w :: u64
  proof -
    have "unat w div 2 ^ 60 = unat w div 2 ^ 52 div 256"
      using div_mult2_eq [of "unat w" "2 ^ 52" 256] by simp
    with that show ?thesis by (metis div_mult_mod_eq mult.commute)
  qed
  have "unat z div 2 ^ 52 mod 256 = unat z' div 2 ^ 52 mod 256"
    using assms(3) by (simp add: vol_decode_nat)
  with assms(1,2) have "unat z div 2 ^ 52 = unat z' div 2 ^ 52"
    using q [of z] q [of z'] by (simp add: raw_buffer_nat)
  with assms(4) show ?thesis by (metis div_mult_mod_eq word_unat_eq_iff)
qed

lemma vol_index_unique:
  assumes "vols_ok s" and "i < length (VolList s)" and "j < length (VolList s)"
    and "v_vol_no (VolList s ! i) = v_vol_no (VolList s ! j)"
  shows "i = j"
  using assms unfolding vols_ok_def by (metis distinct_map inj_on_contraD nth_eq_iff_index_eq nth_mem)

lemma covers_unique:
  assumes "vols_ok s" and "bufs_ok s" and "covers s vi a b" and "covers s vi a b'"
  shows "b = b'"
proof -
  from assms(3,4) obtain x x' where x: "buffers s b = Some x" "buf_volume x = vi"
      "buf_short x = a div 16384 * 16384"
    and x': "buffers s b' = Some x'" "buf_volume x' = vi" "buf_short x' = a div 16384 * 16384"
    by (auto simp: covers_def split: option.splits)
  have "buf_zone2_offset x = buf_zone2_offset x'"
    using buf_okD [OF assms(2) x(1)] buf_okD [OF assms(2) x'(1)] x x'
    by (intro zone2_eqI) (simp_all add: buf_short_def)
  then show ?thesis by (rule buf_unique [OF assms(2) x(1) x'(1)])
qed

lemma media_cached:
  assumes "vols_ok s" and "bufs_ok s" and "lists_ok s" and "buffers s b = Some x"
    and "buf_volume x = vi" and "buf_short x = a div 16384 * 16384"
  shows "media s vi a = buf_ondisk x (a mod 16384)"
proof -
  have c: "covers s vi a b" using assms by (simp add: covers_def)
  have "b \<in> set (CacheList s)" using assms by (auto simp: lists_ok_def)
  then obtain b' where f: "find (covers s vi a) (CacheList s) = Some b'"
    using c by (metis find_None_iff not_Some_eq)
  then have "covers s vi a b'" by (auto simp: find_Some_iff)
  with c have "b' = b" by (rule covers_unique [OF assms(1,2), rotated])
  with f assms(4) show ?thesis by (simp add: media_def)
qed

lemma media_uncached:
  assumes "\<And>b. \<not> covers s vi a b"
  shows "media s vi a = disk s vi a"
proof -
  have "find (covers s vi a) (CacheList s) = None" using assms by (simp add: find_None_iff)
  then show ?thesis by (simp add: media_def)
qed

section \<open>Updates of one buffer\<close>

lemma vols_ok_simps [simp]:
  "vols_ok (s\<lparr>buffers := f\<rparr>) = vols_ok s" "vols_ok (s\<lparr>devices := d\<rparr>) = vols_ok s"
  "vols_ok (s\<lparr>CacheList := l\<rparr>) = vols_ok s" "vols_ok (s\<lparr>CacheUse := u\<rparr>) = vols_ok s"
  "vols_ok (s\<lparr>CacheMax := u\<rparr>) = vols_ok s" "vols_ok (s\<lparr>next_buffer := n\<rparr>) = vols_ok s"
  by (simp_all add: vols_ok_def)

lemma vol_beg_simps [simp]:
  "vol_beg (s\<lparr>buffers := f\<rparr>) = vol_beg s" "vol_beg (s\<lparr>devices := d\<rparr>) = vol_beg s"
  "vol_beg (s\<lparr>CacheList := l\<rparr>) = vol_beg s" "vol_beg (s\<lparr>CacheUse := u\<rparr>) = vol_beg s"
  "vol_beg (s\<lparr>CacheMax := u\<rparr>) = vol_beg s" "vol_beg (s\<lparr>next_buffer := n\<rparr>) = vol_beg s"
  by (simp_all add: vol_beg_def fun_eq_iff)

lemma vol_area_simps [simp]:
  "vol_area (s\<lparr>buffers := f\<rparr>) = vol_area s" "vol_area (s\<lparr>devices := d\<rparr>) = vol_area s"
  "vol_area (s\<lparr>CacheList := l\<rparr>) = vol_area s" "vol_area (s\<lparr>CacheUse := u\<rparr>) = vol_area s"
  "vol_area (s\<lparr>CacheMax := u\<rparr>) = vol_area s" "vol_area (s\<lparr>next_buffer := n\<rparr>) = vol_area s"
  by (simp_all add: vol_area_def fun_eq_iff)

lemma disk_simps [simp]:
  "disk (s\<lparr>buffers := f\<rparr>) = disk s"
  "disk (s\<lparr>CacheList := l\<rparr>) = disk s" "disk (s\<lparr>CacheUse := u\<rparr>) = disk s"
  "disk (s\<lparr>CacheMax := u\<rparr>) = disk s" "disk (s\<lparr>next_buffer := n\<rparr>) = disk s"
  by (simp_all add: disk_def fun_eq_iff)

lemma frame_simps [simp]:
  "frame (s\<lparr>buffers := f\<rparr>) = frame s"
  "frame (s\<lparr>CacheList := l\<rparr>) = frame s" "frame (s\<lparr>CacheUse := u\<rparr>) = frame s"
  "frame (s\<lparr>CacheMax := u\<rparr>) = frame s" "frame (s\<lparr>next_buffer := n\<rparr>) = frame s"
  by (simp_all add: frame_def)

lemma io_ok_frame: "frame s' = frame s \<Longrightarrow> io_ok s' = io_ok s"
proof -
  assume f: "frame s' = frame s"
  have d: "dev_read_ok (devices s' fd) = dev_read_ok (devices s fd)"
    "dev_write_ok (devices s' fd) = dev_write_ok (devices s fd)" for fd
    using f by (auto simp: frame_def fun_eq_iff)
  have u: "UseReadBehind s' = UseReadBehind s" using f by (simp add: frame_def)
  have "io_ok t \<longleftrightarrow> \<bar>UseReadBehind t\<bar> < 2 ^ 17 \<and> (\<forall>i < length (VolList t). dev_write_ok (devices t (v_fd (VolList t ! i))) 0 \<and>
       (\<forall>off. sint (vol_buf_beg (v_ondisk (VolList t ! i))) \<le> off \<longrightarrow>
          off + 16384 \<le> sint (vol_buf_end (v_ondisk (VolList t ! i))) \<longrightarrow>
          dev_read_ok (devices t (v_fd (VolList t ! i))) off \<and>
          dev_write_ok (devices t (v_fd (VolList t ! i))) off))" for t
    by (simp add: io_ok_def all_set_conv_all_nth)
  then show ?thesis using d u frame_vols [OF f] frame_fields [OF f] by (simp cong: conj_cong)
qed

text \<open>
  The buffer \<open>b\<close> is replaced by one for the same place of the media.
\<close>

lemma upd_same_place:
  assumes "buffers s b = Some x" and "buf_zone2_offset y = buf_zone2_offset x"
    and "buf_volume y = buf_volume x"
  shows "lists_ok s \<Longrightarrow> lists_ok (s\<lparr>buffers := (buffers s)(b \<mapsto> y)\<rparr>)"
    and "covers (s\<lparr>buffers := (buffers s)(b \<mapsto> y)\<rparr>) = covers s"
    and "bufs_ok s \<Longrightarrow> buf_raw_offset y = buf_raw_offset x \<Longrightarrow> 0 \<le> cache_refs y \<Longrightarrow>
      bufs_ok (s\<lparr>buffers := (buffers s)(b \<mapsto> y)\<rparr>)"
proof -
  let ?s = "s\<lparr>buffers := (buffers s)(b \<mapsto> y)\<rparr>"
  have same: "(\<exists>z. ((buffers s)(b \<mapsto> y)) b' = Some z \<and> buf_volume z = vi \<and>
      buffer_hash (buf_zone2_offset z) = hi) \<longleftrightarrow>
    (\<exists>z. buffers s b' = Some z \<and> buf_volume z = vi \<and> buffer_hash (buf_zone2_offset z) = hi)"
    for b' vi hi using assms by auto
  show "lists_ok ?s" if "lists_ok s"
    using that assms unfolding lists_ok_def by (simp add: insert_absorb domI same del: fun_upd_apply)
  show "covers ?s = covers s"
    using assms by (auto simp: covers_def buf_short_def fun_eq_iff split: option.splits)
  show "bufs_ok ?s" if "bufs_ok s" "buf_raw_offset y = buf_raw_offset x" "0 \<le> cache_refs y"
  proof -
    have "buf_ok s b x" using that(1) assms(1) by (simp add: bufs_ok_def)
    then have "buf_ok ?s b y" using that(2-) assms by (simp add: buf_ok_def buf_short_def)
    moreover have "buf_ok ?s b' x'" if "buf_ok s b' x'" for b' x'
      using that by (simp add: buf_ok_def)
    ultimately show ?thesis using that(1) assms unfolding bufs_ok_def by (auto; metis)
  qed
qed

lemma media_upd:
  assumes "vols_ok s" "bufs_ok s" "lists_ok s" "buffers s b = Some x"
    and "buf_zone2_offset y = buf_zone2_offset x" "buf_volume y = buf_volume x"
  shows "media (s\<lparr>buffers := (buffers s)(b \<mapsto> y)\<rparr>) vi a =
    (if vi = buf_volume x \<and> a div 16384 * 16384 = buf_short x then buf_ondisk y (a mod 16384)
     else media s vi a)"
proof -
  let ?s = "s\<lparr>buffers := (buffers s)(b \<mapsto> y)\<rparr>"
  note cov = upd_same_place(2) [OF assms(4-6)]
  show ?thesis
  proof (cases "find (covers s vi a) (CacheList s)")
    case None
    have "b \<in> set (CacheList s)" using assms(3,4) by (auto simp: lists_ok_def)
    with None have "\<not> covers s vi a b" by (auto simp: find_None_iff)
    then have "\<not> (vi = buf_volume x \<and> a div 16384 * 16384 = buf_short x)"
      using assms(4) by (auto simp: covers_def)
    with None cov show ?thesis by (auto simp: media_def)
  next
    case (Some b')
    then have c: "covers s vi a b'" by (auto simp: find_Some_iff)
    have "b' = b \<longleftrightarrow> vi = buf_volume x \<and> a div 16384 * 16384 = buf_short x"
    proof
      assume "b' = b"
      with c assms(4) show "vi = buf_volume x \<and> a div 16384 * 16384 = buf_short x"
        by (simp add: covers_def)
    next
      assume "vi = buf_volume x \<and> a div 16384 * 16384 = buf_short x"
      then have "covers s vi a b" using assms(4) by (simp add: covers_def)
      with c show "b' = b" by (rule covers_unique [OF assms(1,2)])
    qed
    with Some cov show ?thesis by (auto simp: media_def)
  qed
qed

lemma refs_of_upd:
  "refs_of (s\<lparr>buffers := (buffers s)(b \<mapsto> y)\<rparr>) b' = (if b' = b then cache_refs y else refs_of s b')"
  by (simp add: refs_of_def)

section \<open>Device writes\<close>

lemma uint_less_of_unat: "unat w < n \<Longrightarrow> uint w < int n"
  by (simp only: uint_int_unat of_nat_less_iff)

lemma sint_add_short:
  assumes "0 \<le> sint (a :: i64)" and "sint a < 2 ^ 62" and "unat b < 2 ^ 53"
  shows "sint (a + b) = sint a + int (unat b)"
proof -
  have sum: "0 \<le> x \<Longrightarrow> x < 2 ^ 62 \<Longrightarrow> 0 \<le> y \<Longrightarrow> y < 2 ^ 53 \<Longrightarrow>
    - (2 ^ 63) \<le> x + y \<and> x + y < 2 ^ 63" for x y :: int by simp
  have b: "sint b = int (unat b)"
  proof -
    have "uint b < 2 ^ 53" using uint_less_of_unat [OF assms(3)] by simp
    moreover have "- (2 ^ 63) \<le> uint b"
    proof -
      have "- (2 ^ 63) \<le> (0 :: int)" by simp
      also have "\<dots> \<le> uint b" by (rule uint_ge_0)
      finally show ?thesis .
    qed
    ultimately have "signed_take_bit 63 (uint b) = uint b"
      by (intro signed_take_bit_int_eq_self) simp_all
    then show ?thesis by (simp add: sint_uint)
  qed
  have "int (unat b) < 2 ^ 53" using uint_less_of_unat [OF assms(3)] by simp
  moreover have "0 \<le> int (unat b)" by (rule of_nat_0_le_iff)
  ultimately have "- (2 ^ 63) \<le> sint a + sint b \<and> sint a + sint b < 2 ^ 63"
    using assms(1,2) sum [of "sint a" "int (unat b)"] by (simp only: b)
  then have "sint (a + b) = sint a + sint b"
    by (simp add: sint_word_ariths signed_take_bit_int_eq_self)
  with b show ?thesis by simp
qed

lemma vol_okD:
  assumes "vols_ok s" and "vi < length (VolList s)"
  shows "0 \<le> v_vol_no (VolList s ! vi)" "v_vol_no (VolList s ! vi) < 256"
    "length (v_buffer_lists (VolList s ! vi)) = 64" "area_ok (v_ondisk (VolList s ! vi))"
  using assms by (auto simp: vols_ok_def vol_ok_def)

lemma area_okD:
  assumes "area_ok od"
  shows "0 \<le> sint (vol_buf_beg od)" "sint (vol_buf_beg od) \<le> sint (vol_buf_end od)"
    "sint (vol_buf_end od) < 2 ^ 62" "sint (vol_buf_end od) - sint (vol_buf_beg od) \<le> 2 ^ 52"
    "16384 dvd sint (vol_buf_beg od)" "16384 dvd sint (vol_buf_end od)"
    "sint (vol_buf_beg od) < sint (vol_buf_end od) \<Longrightarrow> 16384 \<le> sint (vol_buf_beg od)"
  using assms by (simp_all add: area_ok_def Let_def)

lemma xlate_to_phys_sint:
  assumes "area_ok od"
  shows "sint (hammer_xlate_to_phys od z) = sint (vol_buf_beg od) + int (unat z mod 2 ^ 52)"
proof -
  have "unat (HAMMER_OFF_SHORT_ENCODE z) < 2 ^ 52" by (simp add: short_nat)
  then show ?thesis
    unfolding hammer_xlate_to_phys_def using area_okD [OF assms]
    by (subst sint_add_short) (simp_all add: short_nat)
qed

lemma raw_offset_sint:
  assumes "vols_ok s" and "bufs_ok s" and "buffers s b = Some x"
  shows "sint (buf_raw_offset x) = int (vol_beg s (buf_volume x) + buf_short x)"
    and "sint (buf_raw_offset x) + 16384 \<le> sint (vol_buf_end (v_ondisk (VolList s ! buf_volume x)))"
    and "sint (vol_buf_beg (v_ondisk (VolList s ! buf_volume x))) \<le> sint (buf_raw_offset x)"
proof -
  note x = buf_okD [OF assms(2,3)]
  note a = vol_okD(4) [OF assms(1) x(2)]
  show r: "sint (buf_raw_offset x) = int (vol_beg s (buf_volume x) + buf_short x)"
    using xlate_to_phys_sint [OF a] area_okD [OF a] by (simp add: x(6) vol_beg_def buf_short_def)
  show "sint (buf_raw_offset x) + 16384 \<le> sint (vol_buf_end (v_ondisk (VolList s ! buf_volume x)))"
    "sint (vol_buf_beg (v_ondisk (VolList s ! buf_volume x))) \<le> sint (buf_raw_offset x)"
    unfolding r using x(7) area_okD [OF a] by (auto simp: vol_area_def vol_beg_def)
qed

definition write_dev :: "hammer_state \<Rightarrow> nat \<Rightarrow> nat \<Rightarrow> bytes \<Rightarrow> hammer_state" where
  "write_dev s fd off data = s\<lparr>devices := (devices s)(fd :=
     (devices s fd)\<lparr>dev_bytes := write_bytes (dev_bytes (devices s fd)) off (map data [0..<16384])\<rparr>)\<rparr>"

lemma wp_dev_write [wp_simps]:
  "wp (dev_write v data offset) Q =
     (\<lambda>s. (if v_rdonly v then Q 0 s
      else if 0 \<le> offset \<and> dev_write_ok (devices s (v_fd v)) offset
      then Q 0 (write_dev s (v_fd v) (nat offset) data) else Q (- 1) s))"
  by (simp add: fun_eq_iff wp_def dev_write_def write_dev_def Let_def)

lemma wp_dev_read [wp_simps]:
  "wp (dev_read v offset) Q =
     (\<lambda>s. (if 0 \<le> offset \<and> dev_read_ok (devices s (v_fd v)) offset
      then Q (Some (\<lambda>i. dev_bytes (devices s (v_fd v)) (nat offset + i))) s else Q None s))"
  by (simp add: fun_eq_iff wp_def dev_read_def Let_def)

lemma write_dev_simps [simp]:
  "VolList (write_dev s fd off data) = VolList s" "buffers (write_dev s fd off data) = buffers s"
  "CacheList (write_dev s fd off data) = CacheList s"
  "CacheUse (write_dev s fd off data) = CacheUse s"
  "CacheMax (write_dev s fd off data) = CacheMax s"
  "next_buffer (write_dev s fd off data) = next_buffer s"
  "vol_beg (write_dev s fd off data) = vol_beg s" "vol_area (write_dev s fd off data) = vol_area s"
  "vols_ok (write_dev s fd off data) = vols_ok s"
  "frame (write_dev s fd off data) = frame s"
  "HammerVersion (write_dev s fd off data) = HammerVersion s"
  by (simp_all add: write_dev_def frame_def fun_eq_iff)

lemma write_dev_ok [simp]:
  "lists_ok (write_dev s fd off data) = lists_ok s" "bufs_ok (write_dev s fd off data) = bufs_ok s"
  "covers (write_dev s fd off data) = covers s"
  by (simp_all add: lists_ok_def bufs_ok_def buf_ok_def covers_def fun_eq_iff)

text \<open>Writing the place of a buffer changes the disk there only.\<close>

lemma disk_write_dev:
  assumes "vols_ok s" and "vi < length (VolList s)" and "vj < length (VolList s)"
  shows "disk (write_dev s (v_fd (VolList s ! vi)) (vol_beg s vi + off) data) vj a =
    (if vj = vi \<and> off \<le> a \<and> a < off + 16384 then data (a - off) else disk s vj a)"
proof (cases "vj = vi")
  case True
  have "disk (write_dev s (v_fd (VolList s ! vi)) (vol_beg s vi + off) data) vi a =
      write_bytes (dev_bytes (devices s (v_fd (VolList s ! vi)))) (vol_beg s vi + off)
        (map data [0..<16384]) (vol_beg s vi + a)"
    by (simp add: disk_def write_dev_def)
  also have "\<dots> = (if off \<le> a \<and> a < off + 16384 then data (a - off) else disk s vi a)"
    unfolding write_bytes_def disk_def by auto
  finally show ?thesis using True by simp
next
  case False
  then have "v_fd (VolList s ! vj) \<noteq> v_fd (VolList s ! vi)"
    using assms unfolding vols_ok_def
    by (metis distinct_map inj_on_contraD nth_eq_iff_index_eq nth_mem)
  with False show ?thesis by (simp add: disk_def write_dev_def)
qed

section \<open>Write back\<close>

lemma short_aligned:
  assumes "bufs_ok s" and "buffers s b = Some x"
  shows "16384 dvd buf_short x"
proof -
  have "(16384 :: nat) dvd 2 ^ 52" by (simp add: le_imp_power_dvd [of 14 52 2, simplified])
  then show ?thesis using buf_okD(4) [OF assms] unfolding buf_short_def by (simp add: dvd_mod_iff)
qed

lemma block_of:
  assumes "16384 dvd (k :: nat)"
  shows "a div 16384 * 16384 = k \<longleftrightarrow> k \<le> a \<and> a < k + 16384"
  using assms by (auto elim!: dvdE)

lemma places_disjoint:
  assumes "vols_ok s" "bufs_ok s" "buffers s b = Some x" "buffers s b' = Some x'" "b \<noteq> b'"
    and "buf_volume x = buf_volume x'" "i < 16384"
  shows "\<not> (buf_short x \<le> buf_short x' + i \<and> buf_short x' + i < buf_short x + 16384)"
proof
  assume "buf_short x \<le> buf_short x' + i \<and> buf_short x' + i < buf_short x + 16384"
  then have "(buf_short x' + i) div 16384 * 16384 = buf_short x"
    using block_of [OF short_aligned [OF assms(2,3)]] by blast
  moreover have "(buf_short x' + i) div 16384 * 16384 = buf_short x'"
    using block_of [OF short_aligned [OF assms(2,4)]] assms(7) by simp
  ultimately have "covers s (buf_volume x) (buf_short x) b" "covers s (buf_volume x) (buf_short x) b'"
    using short_aligned [OF assms(2,3)] assms(3,4,6) by (simp_all add: covers_def)
  with assms(5) show False using covers_unique [OF assms(1,2)] by blast
qed

text \<open>Writing a buffer to its place, for any setting of the flag.\<close>

lemma write_back:
  assumes g: "wfs D s" and x: "buffers s b = Some x" "\<not> v_rdonly (VolList s ! buf_volume x)"
    and t: "t = (write_dev s (v_fd (VolList s ! buf_volume x))
      (vol_beg s (buf_volume x) + buf_short x) (buf_ondisk x))
      \<lparr>buffers := (buffers s)(b \<mapsto> x\<lparr>cache_modified := False\<rparr>)\<rparr>"
  shows "wfs (D - {b}) t" and "keeps (\<lambda>_. 0) s t"
proof -
  note G = wfsD [OF g]
  note X = buf_okD [OF G(4) x(1)]
  let ?y = "x\<lparr>cache_modified := False\<rparr>"
  have fr: "frame t = frame s" by (simp add: t)
  have dsk: "disk t vj a = (if vj = buf_volume x \<and> buf_short x \<le> a \<and> a < buf_short x + 16384
      then buf_ondisk x (a - buf_short x) else disk s vj a)" if "vj < length (VolList s)" for vj a
    unfolding t using disk_write_dev [OF G(1) X(2) that] by simp
  have lb: "lists_ok t" "bufs_ok t" "vols_ok t"
    unfolding t using upd_same_place [of "write_dev s fd off data" b x ?y for fd off data] x G X
    by simp_all
  have coh: "coherent (D - {b}) t"
    unfolding coherent_def
  proof (intro conjI allI impI ballI)
    fix b' x' assume b': "buffers t b' = Some x'"
    show "\<not> v_rdonly (VolList t ! buf_volume x')" if "cache_modified x'"
      using that b' G(5) by (auto simp: t coherent_def split: if_splits)
    fix i :: nat assume a: "\<not> cache_modified x'" "b' \<notin> D - {b}" "i < 16384"
    show "buf_ondisk x' i = disk t (buf_volume x') (buf_short x' + i)"
    proof (cases "b' = b")
      case True
      then have "x' = ?y" using b' by (simp add: t)
      then show ?thesis using dsk X(2) a(3) by (simp add: buf_short_def)
    next
      case False
      then have s: "buffers s b' = Some x'" using b' by (simp add: t)
      have "buf_volume x' < length (VolList s)" using buf_okD(2) [OF G(4) s] .
      then have "disk t (buf_volume x') (buf_short x' + i) = disk s (buf_volume x') (buf_short x' + i)"
        using dsk places_disjoint [OF G(1,4) x(1) s False [symmetric] _ a(3)] by auto
      then show ?thesis using G(5) s a False by (simp add: coherent_def)
    qed
  next
    fix b' assume "b' \<in> D - {b}"
    then show "\<exists>x. buffers t b' = Some x \<and> 0 < cache_refs x"
      using G(5) by (auto simp: t coherent_def)
  qed
  show "wfs (D - {b}) t"
    using lb coh io_ok_frame [OF fr] G(2) by (simp add: wfs_def)
  have "media t vi a = media s vi a" if vi: "vi < length (VolList s)" for vi a
  proof (cases "\<exists>c. covers s vi a c")
    case True
    then obtain c z where c: "buffers s c = Some z" "buf_volume z = vi" "buf_short z = a div 16384 * 16384"
      by (auto simp: covers_def split: option.splits)
    then obtain z' where z': "buffers t c = Some z'" "buf_volume z' = vi"
        "buf_short z' = a div 16384 * 16384" "buf_ondisk z' = buf_ondisk z"
      using x(1) by (cases "c = b") (auto simp: t buf_short_def)
    show ?thesis
      using media_cached [OF G(1,4,3) c] media_cached [OF lb(3,2,1) z'(1-3)] z'(4) by simp
  next
    case False
    moreover have "covers t = covers s"
      unfolding t using upd_same_place(2) [OF x(1), of ?y] by (simp add: covers_def fun_eq_iff)
    moreover have "\<not> (vi = buf_volume x \<and> buf_short x \<le> a \<and> a < buf_short x + 16384)"
    proof
      assume "vi = buf_volume x \<and> buf_short x \<le> a \<and> a < buf_short x + 16384"
      then have "covers s vi a b"
        using x(1) block_of [OF short_aligned [OF G(4) x(1)], of a] by (simp add: covers_def)
      with False show False by blast
    qed
    ultimately show ?thesis using dsk [OF vi] by (auto simp: media_uncached)
  qed
  then show "keeps (\<lambda>_. 0) s t"
    using fr x(1) by (auto simp: keeps_def t refs_of_def same_bufs_def fun_eq_iff)
qed

lemma flush_buffer_wp:
  assumes g: "wfs D s" and x: "buffers s b = Some x"
    and D: "b \<in> D \<longrightarrow> \<not> v_rdonly (VolList s ! buf_volume x)"
  shows "wp (flush_buffer b) (\<lambda>_ t. wfs (D - {b}) t \<and> keeps (\<lambda>_. 0) s t \<and>
      buffers t = (buffers s)(b \<mapsto> x\<lparr>cache_modified := False\<rparr>) \<and> VolList t = VolList s \<and>
      CacheList t = CacheList s \<and> CacheUse t = CacheUse s \<and> CacheMax t = CacheMax s \<and>
      next_buffer t = next_buffer s) s"
proof -
  note G = wfsD [OF g]
  note X = buf_okD [OF G(4) x]
  note R = raw_offset_sint [OF G(1,4) x]
  have vi: "VolList s ! buf_volume x \<in> set (VolList s)" using X(2) by simp
  show ?thesis
  proof (cases "v_rdonly (VolList s ! buf_volume x)")
    case True
    with G(5) x have "\<not> cache_modified x" by (auto simp: coherent_def)
    then have same: "(buffers s)(b \<mapsto> x\<lparr>cache_modified := False\<rparr>) = buffers s"
      using x by (simp add: fun_upd_idem)
    have "wfs (D - {b}) s" using g D True by simp
    with True same X(2) x show ?thesis
      by (simp add: flush_buffer_def writehammerbuf_def wp_simps keeps_refl)
  next
    case False
    have "dev_write_ok (devices s (v_fd (VolList s ! buf_volume x))) (sint (buf_raw_offset x))"
      using G(2) vi R(2,3) unfolding io_ok_def by blast
    with False X(2) x R(1) write_back [OF g x False refl] show ?thesis
      by (simp add: flush_buffer_def writehammerbuf_def wp_simps nat_int_add)
  qed
qed

section \<open>Eviction and release\<close>

definition drop_buf :: "hammer_state \<Rightarrow> nat \<Rightarrow> buffer_info \<Rightarrow> hammer_state" where
  "drop_buf s b x = (let hi = buffer_hash (buf_zone2_offset x) in
     s\<lparr>VolList := (VolList s)[buf_volume x := (VolList s ! buf_volume x)\<lparr>v_buffer_lists :=
         (v_buffer_lists (VolList s ! buf_volume x))[hi :=
            remove1 b (v_buffer_lists (VolList s ! buf_volume x) ! hi)]\<rparr>],
       CacheList := remove1 b (CacheList s), CacheUse := CacheUse s - HAMMER_BUFSIZE,
       buffers := (buffers s)(b := None)\<rparr>)"

lemma frame_lists:
  assumes "vi < length (VolList s)"
  shows "frame (s\<lparr>VolList := (VolList s)[vi := (VolList s ! vi)\<lparr>v_buffer_lists := l\<rparr>]\<rparr>) = frame s"
proof -
  have "map vol_frame ((VolList s)[vi := (VolList s ! vi)\<lparr>v_buffer_lists := l\<rparr>]) =
      map vol_frame (VolList s)"
    using assms by (simp add: map_update vol_frame_def list_update_same_conv)
  then show ?thesis by (simp add: frame_def)
qed

lemma buffer_hash_less: "buffer_hash z < 64"
proof -
  have "(ucast (z div word_of_int HAMMER_BUFSIZE) :: i32) AND HAMMER_BUFLISTMASK \<le> 63"
    by (simp add: HAMMER_BUFLISTMASK_def word_and_le1)
  then show ?thesis unfolding buffer_hash_def by (simp add: word_le_nat_alt)
qed

text \<open>Changing the buffer lists of a volume leaves everything but the lists as it was.\<close>

lemma relist:
  assumes "vols_ok s" and "vi < length (VolList s)" and "length l = 64"
    and t: "t = s\<lparr>VolList := (VolList s)[vi := (VolList s ! vi)\<lparr>v_buffer_lists := l\<rparr>]\<rparr>"
  shows "vols_ok t" and "frame t = frame s" and "disk t = disk s" and "vol_beg t = vol_beg s"
    and "vol_area t = vol_area s" and "covers t = covers s"
    and "\<And>vj. v_vol_no (VolList t ! vj) = v_vol_no (VolList s ! vj)"
    and "\<And>vj. v_ondisk (VolList t ! vj) = v_ondisk (VolList s ! vj)"
    and "\<And>vj. v_rdonly (VolList t ! vj) = v_rdonly (VolList s ! vj)"
    and "\<And>vj. vj \<noteq> vi \<Longrightarrow> VolList t ! vj = VolList s ! vj"
    and "v_buffer_lists (VolList t ! vi) = l"
proof -
  have f: "f (VolList t ! vj) = f (VolList s ! vj)"
    if "\<And>v. f (v\<lparr>v_buffer_lists := l\<rparr>) = f v" for f :: "volume_info \<Rightarrow> 'b" and vj
    using that assms(2) by (simp add: t nth_list_update)
  show "v_vol_no (VolList t ! vj) = v_vol_no (VolList s ! vj)" for vj by (rule f) simp
  show "v_rdonly (VolList t ! vj) = v_rdonly (VolList s ! vj)" for vj by (rule f) simp
  show o: "v_ondisk (VolList t ! vj) = v_ondisk (VolList s ! vj)" for vj by (rule f) simp
  have d: "v_fd (VolList t ! vj) = v_fd (VolList s ! vj)" for vj by (rule f) simp
  show b: "vol_beg t = vol_beg s" by (simp add: vol_beg_def o fun_eq_iff)
  show "vol_area t = vol_area s" by (simp add: vol_area_def o b fun_eq_iff)
  show "disk t = disk s" by (simp add: disk_def b d fun_eq_iff) (simp add: t)
  show "covers t = covers s" by (simp add: covers_def t fun_eq_iff)
  show "frame t = frame s" unfolding t by (rule frame_lists [OF assms(2)])
  have "map v_vol_no (VolList t) = map v_vol_no (VolList s)" "map v_fd (VolList t) = map v_fd (VolList s)"
    using assms(2) by (simp_all add: t map_update list_update_same_conv)
  moreover have "\<forall>v\<in>set (VolList t). vol_ok v"
    using assms by (auto simp: t vols_ok_def vol_ok_def dest!: subsetD [OF set_update_subset_insert])
  ultimately show "vols_ok t" using assms(1) by (simp add: vols_ok_def)
  show "VolList t ! vj = VolList s ! vj" if "vj \<noteq> vi" for vj using that by (simp add: t)
  show "v_buffer_lists (VolList t ! vi) = l" using assms(2) by (simp add: t)
qed

lemma lists_okD:
  assumes "lists_ok s"
  shows "distinct (CacheList s)" "set (CacheList s) = dom (buffers s)"
    "CacheUse s = 16384 * int (length (CacheList s))"
    "vi < length (VolList s) \<Longrightarrow> hi < 64 \<Longrightarrow> distinct (v_buffer_lists (VolList s ! vi) ! hi)"
    "vi < length (VolList s) \<Longrightarrow> hi < 64 \<Longrightarrow> set (v_buffer_lists (VolList s ! vi) ! hi) =
       {b. \<exists>x. buffers s b = Some x \<and> buf_volume x = vi \<and> buffer_hash (buf_zone2_offset x) = hi}"
  using assms by (simp_all add: lists_ok_def)

lemma drop_buf_ok:
  assumes g: "wfs D s" and x: "buffers s b = Some x" and c: "\<not> cache_modified x" and D: "b \<notin> D"
  shows "wfs D (drop_buf s b x)" and "keeps (\<lambda>b'. if b' = b then - cache_refs x else 0) s (drop_buf s b x)"
proof -
  note G = wfsD [OF g]
  note X = buf_okD [OF G(4) x]
  note L = lists_okD [OF G(3)]
  let ?hi = "buffer_hash (buf_zone2_offset x)" and ?vi = "buf_volume x"
  let ?l = "(v_buffer_lists (VolList s ! ?vi))[?hi := remove1 b (v_buffer_lists (VolList s ! ?vi) ! ?hi)]"
  define r where "r = s\<lparr>VolList := (VolList s)[?vi := (VolList s ! ?vi)\<lparr>v_buffer_lists := ?l\<rparr>]\<rparr>"
  define t where "t = drop_buf s b x"
  have l64: "length ?l = 64" using vol_okD(3) [OF G(1) X(2)] by simp
  note r = relist [OF G(1) X(2) l64 r_def]
  have tr: "t = r\<lparr>CacheList := remove1 b (CacheList s), CacheUse := CacheUse s - HAMMER_BUFSIZE,
       buffers := (buffers s)(b := None)\<rparr>"
    by (simp add: t_def drop_buf_def r_def Let_def)
  have fields: "buffers t = (buffers s)(b := None)" "CacheList t = remove1 b (CacheList s)"
    "VolList t = VolList r" "next_buffer t = next_buffer s" "devices t = devices s"
    "length (VolList t) = length (VolList s)" "CacheUse t = CacheUse s - 16384"
    by (simp_all add: tr r_def HAMMER_BUFSIZE_def)
  have vo: "vols_ok t" and fr: "frame t = frame s" and dk: "disk t = disk s"
    and be: "vol_beg t = vol_beg s" and ar: "vol_area t = vol_area s"
    using r by (simp_all add: tr)
  have bl: "v_buffer_lists (VolList t ! vj) ! hj = (if vj = ?vi \<and> hj = ?hi
      then remove1 b (v_buffer_lists (VolList s ! vj) ! hj) else v_buffer_lists (VolList s ! vj) ! hj)"
    if "vj < length (VolList s)" "hj < 64" for vj hj
    using that r(10,11) vol_okD(3) [OF G(1) X(2)] by (cases "vj = ?vi") (simp_all add: fields nth_list_update)
  have bc: "b \<in> set (CacheList s)" using L(2) x by auto
  have lo: "lists_ok t"
    unfolding lists_ok_def
  proof (intro conjI allI impI)
    show "distinct (CacheList t)" using L(1) by (simp add: fields)
    show "set (CacheList t) = dom (buffers t)" using L(1,2) by (auto simp: fields)
    show "CacheUse t = 16384 * int (length (CacheList t))"
      using L(3) bc length_pos_if_in_set [OF bc]
      by (cases "length (CacheList s)") (auto simp: fields length_remove1)
    fix vj hj assume v: "vj < length (VolList t)" "hj < (64 :: nat)"
    then have v': "vj < length (VolList s)" by (simp only: fields(6))
    show "distinct (v_buffer_lists (VolList t ! vj) ! hj)"
      using L(4) [OF v' v(2)] bl [OF v' v(2)] by (auto simp: distinct_remove1)
    show "set (v_buffer_lists (VolList t ! vj) ! hj) = {b. \<exists>x. buffers t b = Some x \<and>
        buf_volume x = vj \<and> buffer_hash (buf_zone2_offset x) = hj}"
      using L(4,5) [OF v' v(2)] bl [OF v' v(2)] x by (auto simp: fields)
  qed
  have bo: "bufs_ok t"
    using G(4) r(7,8) unfolding bufs_ok_def buf_ok_def fields(6) fields(1,4) ar
    by (simp add: fields(3))
  have coh: "coherent D t"
    using G(5) D r(9) unfolding coherent_def by (auto simp: fields dk)
  show "wfs D (drop_buf s b x)"
    using vo lo bo coh io_ok_frame [OF fr] G(2) by (simp add: wfs_def t_def)
  have "media t vi a = media s vi a" for vi a
  proof (cases "\<exists>e. covers s vi a e")
    case True
    then obtain e z where e: "buffers s e = Some z" "buf_volume z = vi" "buf_short z = a div 16384 * 16384"
      by (auto simp: covers_def split: option.splits)
    show ?thesis
    proof (cases "e = b")
      case True
      have none: "\<not> covers t vi a e'" for e'
      proof
        assume "covers t vi a e'"
        then have "e' \<noteq> b" "covers s vi a e'" by (auto simp: covers_def fields split: if_splits option.splits)
        moreover have "covers s vi a e" using e by (simp add: covers_def)
        ultimately show False using covers_unique [OF G(1,4)] True by blast
      qed
      have zx: "z = x" using True e x by simp
      have "media s vi a = buf_ondisk x (a mod 16384)" using media_cached [OF G(1,4,3) e] zx by simp
      also have "\<dots> = disk s vi (buf_short x + a mod 16384)"
        using G(5) x c D e zx unfolding coherent_def by auto
      also have "buf_short x + a mod 16384 = a" using e zx by simp
      finally show ?thesis using media_uncached [of t vi a] none dk by simp
    next
      case False
      then have "buffers t e = Some z" using e by (simp add: fields)
      from media_cached [OF vo bo lo this e(2,3)] media_cached [OF G(1,4,3) e] show ?thesis by simp
    qed
  next
    case False
    then have "\<not> covers t vi a e" for e by (auto simp: covers_def fields split: option.splits)
    with False dk show ?thesis by (simp add: media_uncached)
  qed
  then show "keeps (\<lambda>b'. if b' = b then - cache_refs x else 0) s (drop_buf s b x)"
    using fr x by (auto simp: keeps_def t_def [symmetric] fields refs_of_def same_bufs_def fun_eq_iff)
qed

lemma wfs_upd_flags:
  assumes g: "wfs D s" and x: "buffers s b = Some x" and r: "0 \<le> cache_refs y" "b \<in> D \<longrightarrow> 0 < cache_refs y"
    and y: "buf_zone2_offset y = buf_zone2_offset x" "buf_volume y = buf_volume x"
      "buf_raw_offset y = buf_raw_offset x" "buf_ondisk y = buf_ondisk x"
      "cache_modified y = cache_modified x"
  shows "wfs D (s\<lparr>buffers := (buffers s)(b \<mapsto> y)\<rparr>)"
    and "keeps (\<lambda>b'. if b' = b then cache_refs y - cache_refs x else 0) s
      (s\<lparr>buffers := (buffers s)(b \<mapsto> y)\<rparr>)"
proof -
  note G = wfsD [OF g]
  let ?t = "s\<lparr>buffers := (buffers s)(b \<mapsto> y)\<rparr>"
  note p = upd_same_place [OF x y(1,2)]
  have "coherent D ?t" using G(5) x y r unfolding coherent_def by (auto simp: buf_short_def)
  then show "wfs D ?t"
    using p(1,3) G r y io_ok_frame [of ?t s] by (simp add: wfs_def)
  have "media ?t vi a = media s vi a" for vi a
    using media_upd [OF G(1,4,3) x y(1,2), of vi a] media_cached [OF G(1,4,3) x, of vi a] y by auto
  then show "keeps (\<lambda>b'. if b' = b then cache_refs y - cache_refs x else 0) s ?t"
    using x y by (auto simp: keeps_def refs_of_def same_bufs_def fun_eq_iff)
qed

text \<open>The release of the last reference to a buffer marked for deletion.\<close>

lemma evict_wp:
  assumes g: "wfs D s" and x: "buffers s b = Some x" and D: "b \<notin> D" and r: "cache_refs x = 0"
  shows "wp (bindS (upd_buf b (\<lambda>x. x\<lparr>cache_refs := 1, cache_delete := True\<rparr>)) (\<lambda>_. rel_buffer (Some b)))
    (\<lambda>_ t. wfs D t \<and> keeps (\<lambda>_. 0) s t \<and> CacheList t = remove1 b (CacheList s) \<and>
       buffers t = (buffers s)(b := None) \<and> CacheMax t = CacheMax s) s"
proof -
  let ?x0 = "x\<lparr>cache_delete := True, cache_refs := 0\<rparr>"
  let ?s0 = "s\<lparr>buffers := (buffers s)(b \<mapsto> ?x0)\<rparr>"
  note s0 = wfs_upd_flags [OF g x, of ?x0]
  have s0': "wfs D ?s0" "keeps (\<lambda>_. 0) s ?s0" using s0 r D by (simp_all cong: if_cong)
  have b0: "buffers ?s0 b = Some ?x0" by simp
  define drop where "drop = bindS (upd_vol (buf_volume x) (\<lambda>v.
              let hi = buffer_hash (buf_zone2_offset x) in
              v\<lparr>v_buffer_lists :=
                (v_buffer_lists v)[hi := remove1 b (v_buffer_lists v ! hi)]\<rparr>)) (\<lambda>_.
            bindS (hammer_cache_del b) (\<lambda>_. free_buf b))"
  have fin: "wp drop (\<lambda>_ t. wfs D t \<and> keeps (\<lambda>_. 0) s t \<and> CacheList t = remove1 b (CacheList s) \<and>
       buffers t = (buffers s)(b := None) \<and> CacheMax t = CacheMax s) t"
    if t: "wfs D t" "keeps (\<lambda>_. 0) s t" "buffers t = (buffers s)(b \<mapsto> ?x0\<lparr>cache_modified := False\<rparr>)"
      "CacheList t = CacheList s" "CacheMax t = CacheMax s" for t
  proof -
    let ?y = "?x0\<lparr>cache_modified := False\<rparr>"
    have b: "buffers t b = Some ?y" using t(3) by simp
    note d = drop_buf_ok [OF t(1) b _ D]
    have vi: "buf_volume x < length (VolList t)" using buf_okD(2) [OF wfsD(4) [OF t(1)] b] by simp
    have k: "keeps (\<lambda>_. 0) s (drop_buf t b ?y)"
      using keeps_trans [OF t(2) d(2)] by (simp cong: if_cong)
    have "wp drop (\<lambda>_ u. u = drop_buf t b ?y) t"
      using vi unfolding drop_def by (simp add: wp_simps hammer_cache_del_def drop_buf_def Let_def)
    then show ?thesis
      by (rule wp_mono) (use d(1) k t in \<open>auto simp: drop_buf_def Let_def\<close>)
  qed
  have "wp (bindS (whenS (cache_modified x) (flush_buffer b)) (\<lambda>_. drop))
     (\<lambda>_ t. wfs D t \<and> keeps (\<lambda>_. 0) s t \<and> CacheList t = remove1 b (CacheList s) \<and>
       buffers t = (buffers s)(b := None) \<and> CacheMax t = CacheMax s) ?s0"
  proof (cases "cache_modified x")
    case True
    show ?thesis
      unfolding wp_bind wp_when if_P [OF True]
      by (rule wp_mono [OF flush_buffer_wp [OF s0'(1) b0]])
        (use D keeps_trans [OF s0'(2)] in \<open>fastforce intro!: fin\<close>)+
  next
    case False
    have "?x0\<lparr>cache_modified := False\<rparr> = ?x0"
      using False by simp
    with False s0' show ?thesis by (auto simp: wp_simps intro!: fin)
  qed
  then show ?thesis
    using x by (cases "cache_modified x") (simp_all add: rel_buffer_def wp_simps drop_def)
qed

lemma wfs_cache_list:
  assumes "wfs D s" and "distinct l" and "set l = set (CacheList s)"
  shows "wfs D (s\<lparr>CacheList := l\<rparr>)" and "keeps (\<lambda>_. 0) s (s\<lparr>CacheList := l\<rparr>)"
proof -
  let ?t = "s\<lparr>CacheList := l\<rparr>"
  note G = wfsD [OF assms(1)]
  have len: "length l = length (CacheList s)"
    using assms(2,3) lists_okD(1) [OF G(3)] by (metis distinct_card)
  have b: "bufs_ok ?t" "lists_ok ?t" "vols_ok ?t"
    using G(1,3,4) assms(2,3) len by (simp_all add: bufs_ok_def buf_ok_def lists_ok_def)
  moreover have "coherent D ?t" using G(5) by (simp add: coherent_def)
  ultimately show "wfs D ?t" using G(2) by (simp add: wfs_def io_ok_def)
  have cov: "covers ?t = covers s" by (simp add: covers_def fun_eq_iff)
  have "media ?t vi a = media s vi a" for vi a
  proof (cases "\<exists>e. covers s vi a e")
    case True
    then obtain e z where e: "buffers s e = Some z" "buf_volume z = vi" "buf_short z = a div 16384 * 16384"
      by (auto simp: covers_def split: option.splits)
    from media_cached [OF b(3,1,2), of e z vi a] media_cached [OF G(1,4,3) e] e show ?thesis by simp
  next
    case False
    then show ?thesis by (simp add: media_uncached cov)
  qed
  then show "keeps (\<lambda>_. 0) s ?t"
    by (simp add: keeps_def refs_of_def same_bufs_def fun_eq_iff)
qed

lemma wfs_cache_max:
  assumes "wfs D s"
  shows "wfs D (s\<lparr>CacheMax := m\<rparr>)" and "keeps (\<lambda>_. 0) s (s\<lparr>CacheMax := m\<rparr>)"
proof -
  let ?t = "s\<lparr>CacheMax := m\<rparr>"
  have "covers ?t = covers s" by (simp add: covers_def fun_eq_iff)
  then have "media ?t vi a = media s vi a" for vi a
    by (simp add: media_def cong: option.case_cong)
  then show "keeps (\<lambda>_. 0) s ?t" by (simp add: keeps_def refs_of_def same_bufs_def fun_eq_iff)
  show "wfs D ?t"
    using wfsD [OF assms]
    by (simp add: wfs_def io_ok_def bufs_ok_def buf_ok_def lists_ok_def coherent_def)
qed

lemma wp_cache_used:
  assumes "wfs D s" and "b \<in> dom (buffers s)"
  shows "wp (hammer_cache_used b) (\<lambda>_ t. wfs D t \<and> keeps (\<lambda>_. 0) s t \<and> buffers t = buffers s \<and>
    CacheList t = remove1 b (CacheList s) @ [b]) s"
proof -
  note L = lists_okD [OF wfsD(3) [OF assms(1)]]
  have "distinct (remove1 b (CacheList s) @ [b])" "set (remove1 b (CacheList s) @ [b]) = set (CacheList s)"
    using L(1,2) assms(2) by auto
  from wfs_cache_list [OF assms(1) this] show ?thesis
    by (simp add: hammer_cache_used_def wp_simps)
qed

text \<open>
  The eviction loop: once a referenced buffer \<open>f\<close> has been moved to the tail, the buffers in front
  of it bound the number of turns left.
\<close>

fun flush_turns :: "nat option \<Rightarrow> nat list \<Rightarrow> nat" where
  "flush_turns None l = length l + 1"
| "flush_turns (Some f) l = length (takeWhile (\<lambda>b. b \<noteq> f) l) + 1"

definition all_referenced :: "hammer_state \<Rightarrow> bool" where
  "all_referenced s \<longleftrightarrow> (\<forall>b x. buffers s b = Some x \<longrightarrow> 0 < cache_refs x)"

definition low_water :: "hammer_state \<Rightarrow> bool" where
  "low_water s \<longleftrightarrow> CacheUse s < CacheMax s div 2"

definition flush_post :: "nat set \<Rightarrow> hammer_state \<Rightarrow> hammer_state \<Rightarrow> bool" where
  "flush_post D s t \<longleftrightarrow> wfs D t \<and> keeps (\<lambda>_. 0) s t \<and> (low_water t \<or> all_referenced t) \<and>
     (\<forall>b x. buffers t b = Some x \<longrightarrow> (\<exists>x'. buffers s b = Some x' \<and> cache_delete x = cache_delete x'))"

lemma flush_post_trans:
  assumes "keeps (\<lambda>_. 0) s t" and "\<And>b x. buffers t b = Some x \<Longrightarrow> buffers s b = Some x"
    and "flush_post D t u"
  shows "flush_post D s u"
  using assms keeps_trans [OF assms(1), of "\<lambda>_. 0" u] by (fastforce simp: flush_post_def)

text \<open>The buffers from \<open>first\<close> on have been seen and are referenced.\<close>

fun seen_referenced :: "hammer_state \<Rightarrow> nat option \<Rightarrow> bool" where
  "seen_referenced s None = True"
| "seen_referenced s (Some f) =
     (0 < refs_of s f \<and> (\<forall>b\<in>set (dropWhile (\<lambda>b. b \<noteq> f) (CacheList s)). 0 < refs_of s b))"

lemma cache_flush_loop_wp:
  assumes "wfs D s" and "flush_turns first (CacheList s) \<le> n" and "seen_referenced s first"
  shows "wp (cache_flush_loop n first count) (\<lambda>_ t. flush_post D s t) s"
  using assms
proof (induction n arbitrary: first count s)
  case 0
  then show ?case by (cases first) simp_all
next
  case (Suc n)
  note G = wfsD [OF Suc.prems(1)]
  note L = lists_okD [OF G(3)]
  have first_ref: "0 < refs_of s f" if "first = Some f" for f using Suc.prems(3) that by simp
  show ?case
  proof (cases "CacheList s")
    case Nil
    then have "all_referenced s" using L(2) by (auto simp: all_referenced_def)
    with Nil show ?thesis by (simp add: wp_simps flush_post_def Suc.prems(1) keeps_refl)
  next
    case (Cons c l)
    then obtain x where x: "buffers s c = Some x" using L(2) by (metis domD list.set_intros(1))
    consider (seen) "first = Some c" | (ref) "first \<noteq> Some c" "cache_refs x \<noteq> 0"
      | (free) "first \<noteq> Some c" "cache_refs x = 0" by blast
    then show ?thesis
    proof cases
      case seen
      then have r: "0 < refs_of s b" if "b \<in> set (CacheList s)" for b
        using Suc.prems(3) Cons that by auto
      have "all_referenced s"
        unfolding all_referenced_def
      proof (intro allI impI)
        fix b y assume b: "buffers s b = Some y"
        then have "b \<in> set (CacheList s)" using L(2) by auto
        from r [OF this] b show "0 < cache_refs y" by (simp add: refs_of_def)
      qed
      with seen show ?thesis by (simp add: wp_simps Cons flush_post_def Suc.prems(1) keeps_refl)
    next
      case ref
      let ?first = "if first = None then Some c else first"
      have c: "0 < refs_of s c" using x ref buf_okD(8) [OF G(4) x] by (simp add: refs_of_def)
      have in_l: "f \<in> set l" if "first = Some f" for f
        using first_ref [OF that] ref(1) that L(2) Cons by (auto simp: refs_of_def split: option.splits)
      have turns: "flush_turns ?first (l @ [c]) \<le> n"
        using Suc.prems(2) Cons L(1) in_l ref(1) by (cases first) (auto simp: takeWhile_append)
      have "wp (cache_flush_loop n ?first (count + 1)) (\<lambda>_ t. flush_post D s t) t"
        if t: "wfs D t" "keeps (\<lambda>_. 0) s t" "buffers t = buffers s" "CacheList t = l @ [c]" for t
      proof (rule wp_mono [OF Suc.IH [OF t(1)]])
        show "flush_turns ?first (CacheList t) \<le> n" using turns t(4) by simp
        have r: "refs_of t = refs_of s" using t(3) by (simp add: refs_of_def fun_eq_iff)
        show "seen_referenced t ?first"
        proof (cases first)
          case None
          have "c \<notin> set l" using L(1) Cons by simp
          then have "dropWhile (\<lambda>b. b \<noteq> c) (l @ [c]) = [c]" by (induction l) auto
          with None c show ?thesis by (simp add: r t(4))
        next
          case (Some f)
          have "dropWhile (\<lambda>b. b \<noteq> f) (l @ [c]) = dropWhile (\<lambda>b. b \<noteq> f) l @ [c]"
            using in_l [OF Some] by (simp add: dropWhile_append)
          with Some c Suc.prems(3) ref(1) Cons show ?thesis by (auto simp: r t(4))
        qed
      qed (rule flush_post_trans [OF t(2)], simp_all add: t(3))
      moreover have "c \<in> dom (buffers s)" using x by auto
      ultimately show ?thesis
        using ref x Cons by (auto simp: wp_simps intro!: wp_mono [OF wp_cache_used [OF Suc.prems(1)]])
    next
      case free
      let ?full = "count \<ge> CacheUse s div HAMMER_BUFSIZE"
      let ?m = "if ?full then CacheMax s + HAMMER_BUFSIZE * 512 else CacheMax s"
      let ?s = "s\<lparr>CacheMax := ?m\<rparr>"
      note sm = wfs_cache_max [OF Suc.prems(1), of ?m]
      have cD: "c \<notin> D" using G(5) x free(2) by (auto simp: coherent_def)
      have turns: "flush_turns first l \<le> n"
        using Suc.prems(2) Cons free(1) by (cases first) auto
      have next_turn: "wp (cache_flush_loop n first count') (\<lambda>_ t. flush_post D s t) t \<and>
          (low_water t \<longrightarrow> flush_post D s t)"
        if t: "wfs D t" "keeps (\<lambda>_. 0) ?s t" "CacheList t = l" "buffers t = (buffers s)(c := None)"
        for t count'
      proof
        have k: "keeps (\<lambda>_. 0) s t" using keeps_trans [OF sm(2) t(2)] by simp
        have sub: "buffers s b = Some y" if "buffers t b = Some y" for b y
          using that t(4) by (simp split: if_splits)
        show "wp (cache_flush_loop n first count') (\<lambda>_ t. flush_post D s t) t"
        proof (rule wp_mono [OF Suc.IH [OF t(1)]])
          show "flush_turns first (CacheList t) \<le> n" using turns t(3) by simp
          have r: "refs_of t = refs_of s" using k by (simp add: keeps_def fun_eq_iff)
          show "seen_referenced t first"
            using Suc.prems(3) free(1) Cons by (cases first) (auto simp: r t(3))
        qed (rule flush_post_trans [OF k sub])
        show "low_water t \<longrightarrow> flush_post D s t" using t k sub by (auto simp: flush_post_def)
      qed
      have "wp (bindS (upd_buf c (\<lambda>x. x\<lparr>cache_refs := 1, cache_delete := True\<rparr>)) (\<lambda>_. rel_buffer (Some c)))
        (\<lambda>_ t. wfs D t \<and> keeps (\<lambda>_. 0) ?s t \<and> CacheList t = l \<and> buffers t = (buffers s)(c := None)) ?s"
        by (rule wp_mono [OF evict_wp [OF sm(1) _ cD free(2)]]) (use x Cons in auto)
      then have "wp (bindS (upd_buf c (\<lambda>x. x\<lparr>cache_refs := 1, cache_delete := True\<rparr>)) (\<lambda>_. rel_buffer (Some c)))
        (\<lambda>_ t. \<forall>count'. wp (cache_flush_loop n first count') (\<lambda>_ t. flush_post D s t) t \<and>
           (low_water t \<longrightarrow> flush_post D s t)) ?s"
        by (rule wp_mono) (use next_turn in blast)
      then show ?thesis
        using free x Cons by (cases ?full) (auto simp: wp_simps low_water_def elim!: wp_mono)
    qed
  qed
qed

declare cache_flush_loop.simps [simp del]

lemma goodD:
  assumes "good D s"
  shows "wfs D s" "buffers s b = Some x \<Longrightarrow> \<not> cache_delete x"
  using assms by (simp_all add: good_def)

lemma hammer_cache_flush_wp:
  assumes "good D s"
  shows "wp hammer_cache_flush (\<lambda>_ t. good D t \<and> keeps (\<lambda>_. 0) s t \<and>
    (CacheUse s < CacheMax s \<or> low_water t \<or> all_referenced t)) s"
proof -
  have "wp (cache_flush_loop (length (CacheList s) + 1) None 0)
      (\<lambda>_ t. good D t \<and> keeps (\<lambda>_. 0) s t \<and> (low_water t \<or> all_referenced t)) s"
    by (rule wp_mono [OF cache_flush_loop_wp [OF goodD(1) [OF assms]]])
      (use assms in \<open>fastforce simp: good_def flush_post_def\<close>)+
  then show ?thesis
    by (auto simp: hammer_cache_flush_def wp_simps assms keeps_refl elim: wp_mono)
qed

lemma rel_buffer_wp:
  assumes g: "good D s" and x: "buffers s b = Some x" and r: "0 < cache_refs x"
    and D: "b \<in> D \<longrightarrow> 1 < cache_refs x"
  shows "wp (rel_buffer (Some b)) (\<lambda>_ t. good D t \<and>
      keeps (\<lambda>b'. if b' = b then - 1 else 0) s t \<and>
      buffers t = (buffers s)(b \<mapsto> x\<lparr>cache_refs := cache_refs x - 1\<rparr>)) s"
proof -
  let ?y = "x\<lparr>cache_refs := cache_refs x - 1\<rparr>"
  have "\<not> cache_delete x" by (rule goodD(2) [OF g x])
  moreover have "wfs D (s\<lparr>buffers := (buffers s)(b \<mapsto> ?y)\<rparr>)"
    "keeps (\<lambda>b'. if b' = b then - 1 else 0) s (s\<lparr>buffers := (buffers s)(b \<mapsto> ?y)\<rparr>)"
    using wfs_upd_flags [OF goodD(1) [OF g] x, of ?y] r D by (simp_all cong: if_cong)
  ultimately show ?thesis
    using x r goodD(2) [OF g] by (auto simp: rel_buffer_def wp_simps good_def)
qed

section \<open>Lookup\<close>

lemma get_volume_from_Some:
  "get_volume_from i vs n = Some j \<Longrightarrow> i \<le> j \<and> j - i < length vs \<and> v_vol_no (vs ! (j - i)) = n"
proof (induction vs arbitrary: i)
  case (Cons v vs)
  show ?case
  proof (cases "v_vol_no v = n")
    case False
    with Cons.prems have "get_volume_from (Suc i) vs n = Some j" by simp
    from Cons.IH [OF this] have "Suc i \<le> j" "j - Suc i < length vs" "v_vol_no (vs ! (j - Suc i)) = n"
      by simp_all
    moreover from this have "j - i = Suc (j - Suc i)" by simp
    ultimately show ?thesis by simp
  qed (use Cons.prems in simp)
qed simp

lemma get_volume_from_None: "get_volume_from i vs n = None \<longleftrightarrow> (\<forall>v\<in>set vs. v_vol_no v \<noteq> n)"
  by (induction vs arbitrary: i) auto

lemma get_volume_Some:
  assumes "get_volume s n = Some vi"
  shows "vi < length (VolList s)" "v_vol_no (VolList s ! vi) = n"
  using get_volume_from_Some [of 0 "VolList s" n vi] assms by (simp_all add: get_volume_def)

lemma get_volume_index:
  assumes "vols_ok s" and "vi < length (VolList s)"
  shows "get_volume s (v_vol_no (VolList s ! vi)) = Some vi"
proof -
  have "get_volume s (v_vol_no (VolList s ! vi)) \<noteq> None"
    using assms(2) by (auto simp: get_volume_def get_volume_from_None)
  then obtain vj where vj: "get_volume s (v_vol_no (VolList s ! vi)) = Some vj" by blast
  from get_volume_Some [OF this] have "vj = vi"
    using vol_index_unique [OF assms(1)] assms(2) by blast
  with vj show ?thesis by simp
qed

lemma get_volume_frame:
  assumes "frame t = frame s" and "vols_ok s" and "vols_ok t" and "get_volume s n = Some vi"
  shows "get_volume t n = Some vi"
  using get_volume_Some [OF assms(4)] get_volume_index [OF assms(3), of vi] frame_vols [OF assms(1)]
    frame_fields [OF assms(1)] by simp

lemma find_buffer_in_wp:
  assumes "set bs \<subseteq> dom (buffers s)"
  shows "wp (find_buffer_in bs z) (\<lambda>r t. t = s \<and> (case r of
      None \<Rightarrow> \<forall>b\<in>set bs. \<forall>x. buffers s b = Some x \<longrightarrow> buf_zone2_offset x \<noteq> z
    | Some b \<Rightarrow> b \<in> set bs \<and> (\<exists>x. buffers s b = Some x \<and> buf_zone2_offset x = z))) s"
  using assms
proof (induction bs)
  case (Cons b bs)
  then obtain x where x: "buffers s b = Some x" by auto
  show ?case
  proof (cases "buf_zone2_offset x = z")
    case False
    have "wp (find_buffer_in bs z) (\<lambda>r t. t = s \<and> (case r of
        None \<Rightarrow> \<forall>b\<in>set bs. \<forall>x. buffers s b = Some x \<longrightarrow> buf_zone2_offset x \<noteq> z
      | Some b \<Rightarrow> b \<in> set bs \<and> (\<exists>x. buffers s b = Some x \<and> buf_zone2_offset x = z))) s"
      using Cons by simp
    then show ?thesis
      using x False by (auto simp: wp_simps elim!: wp_mono split: option.splits)
  qed (use x in \<open>simp add: wp_simps\<close>)
qed (simp add: wp_simps)

text \<open>The lookup finds the buffer of a place exactly when there is one.\<close>

lemma find_buffer_wp:
  assumes g: "wfs D s" and v: "get_volume s (HAMMER_VOL_DECODE z) = Some vi"
  shows "wp (find_buffer z) (\<lambda>r t. t = s \<and> (case r of
      None \<Rightarrow> \<forall>b x. buffers s b = Some x \<longrightarrow> buf_zone2_offset x \<noteq> z
    | Some b \<Rightarrow> \<exists>x. buffers s b = Some x \<and> buf_zone2_offset x = z)) s"
proof -
  note G = wfsD [OF g]
  note V = get_volume_Some [OF v]
  note L = lists_okD [OF G(3)]
  let ?l = "v_buffer_lists (VolList s ! vi) ! buffer_hash z"
  have set_l: "set ?l = {b. \<exists>x. buffers s b = Some x \<and> buf_volume x = vi \<and>
      buffer_hash (buf_zone2_offset x) = buffer_hash z}"
    by (rule L(5) [OF V(1) buffer_hash_less])
  have all: "b \<in> set ?l" if "buffers s b = Some x" "buf_zone2_offset x = z" for b x
    using that buf_okD(2,5) [OF G(4) that(1)] V vol_index_unique [OF G(1)] by (auto simp: set_l)
  have "set ?l \<subseteq> dom (buffers s)" by (auto simp: set_l)
  from find_buffer_in_wp [OF this, of z]
  have "wp (find_buffer_in ?l z) (\<lambda>r t. t = s \<and> (case r of
      None \<Rightarrow> \<forall>b x. buffers s b = Some x \<longrightarrow> buf_zone2_offset x \<noteq> z
    | Some b \<Rightarrow> \<exists>x. buffers s b = Some x \<and> buf_zone2_offset x = z)) s"
    by (rule wp_mono) (use all in \<open>fastforce split: option.splits\<close>)
  then show ?thesis using v V by (simp add: find_buffer_def wp_simps)
qed

section \<open>Acquisition\<close>

definition link_buf :: "hammer_state \<Rightarrow> buffer_info \<Rightarrow> hammer_state" where
  "link_buf s x = (let b = next_buffer s; vi = buf_volume x; hi = buffer_hash (buf_zone2_offset x) in
     s\<lparr>VolList := (VolList s)[vi := (VolList s ! vi)\<lparr>v_buffer_lists :=
         (v_buffer_lists (VolList s ! vi))[hi := v_buffer_lists (VolList s ! vi) ! hi @ [b]]\<rparr>],
       CacheList := b # CacheList s, CacheUse := CacheUse s + HAMMER_BUFSIZE,
       buffers := (buffers s)(b \<mapsto> x), next_buffer := Suc b\<rparr>)"

text \<open>A place of the media that the cache may hold: a buffer-aligned zone-2 offset inside a volume.\<close>

definition place :: "hammer_state \<Rightarrow> u64 \<Rightarrow> nat \<Rightarrow> bool" where
  "place s z vi \<longleftrightarrow> get_volume s (HAMMER_VOL_DECODE z) = Some vi \<and> hammer_is_zone_raw_buffer z \<and>
     16384 dvd unat z \<and> unat z mod 2 ^ 52 + 16384 \<le> vol_area s vi"

lemma link_buf_ok:
  assumes g: "wfs D s" and p: "place s (buf_zone2_offset x) vi" and vi: "buf_volume x = vi"
    and raw: "buf_raw_offset x = hammer_xlate_to_phys (v_ondisk (VolList s ! vi)) (buf_zone2_offset x)"
    and new: "\<And>b y. buffers s b = Some y \<Longrightarrow> buf_zone2_offset y \<noteq> buf_zone2_offset x"
    and r: "0 \<le> cache_refs x" "\<not> cache_modified x"
    and E: "E = D \<and> (\<forall>i<16384. buf_ondisk x i = disk s vi (buf_short x + i)) \<or>
       E = insert (next_buffer s) D \<and> 0 < cache_refs x"
  shows "wfs E (link_buf s x)" and "frame (link_buf s x) = frame s"
    and "media (link_buf s x) vj a = (if vj = vi \<and> a div 16384 * 16384 = buf_short x
      then buf_ondisk x (a mod 16384) else media s vj a)"
    and "refs_of (link_buf s x) b' = refs_of s b' + (if b' = next_buffer s then cache_refs x else 0)"
    and "same_bufs s (link_buf s x)"
proof -
  note G = wfsD [OF g]
  note L = lists_okD [OF G(3)]
  define b where "b = next_buffer s"
  have v: "vi < length (VolList s)" "v_vol_no (VolList s ! vi) = HAMMER_VOL_DECODE (buf_zone2_offset x)"
    using p get_volume_Some by (auto simp: place_def)
  have fresh: "buffers s b = None"
    using buf_okD(1) [OF G(4)] by (cases "buffers s b") (auto simp: b_def)
  let ?hi = "buffer_hash (buf_zone2_offset x)"
  let ?l = "(v_buffer_lists (VolList s ! vi))[?hi := v_buffer_lists (VolList s ! vi) ! ?hi @ [b]]"
  define r where "r = s\<lparr>VolList := (VolList s)[vi := (VolList s ! vi)\<lparr>v_buffer_lists := ?l\<rparr>]\<rparr>"
  define t where "t = link_buf s x"
  have l64: "length ?l = 64" using vol_okD(3) [OF G(1) v(1)] by simp
  note r = relist [OF G(1) v(1) l64 r_def]
  have tr: "t = r\<lparr>CacheList := b # CacheList s, CacheUse := CacheUse s + HAMMER_BUFSIZE,
       buffers := (buffers s)(b \<mapsto> x), next_buffer := Suc b\<rparr>"
    by (simp add: t_def link_buf_def r_def Let_def vi b_def)
  have len: "length (VolList t) = length (VolList s)" by (simp add: tr r_def)
  have fields: "buffers t = (buffers s)(b \<mapsto> x)" "CacheList t = b # CacheList s"
    "VolList t = VolList r" "next_buffer t = Suc b" "CacheUse t = CacheUse s + 16384"
    by (simp_all add: tr r_def HAMMER_BUFSIZE_def)
  have vo: "vols_ok t" and fr: "frame t = frame s" and dk: "disk t = disk s"
    and be: "vol_beg t = vol_beg s" and ar: "vol_area t = vol_area s"
    using r by (simp_all add: tr)
  have bl: "v_buffer_lists (VolList t ! vj) ! hj = (if vj = vi \<and> hj = ?hi
      then v_buffer_lists (VolList s ! vj) ! hj @ [b] else v_buffer_lists (VolList s ! vj) ! hj)"
    if "vj < length (VolList s)" "hj < 64" for vj hj
    using that r(10,11) vol_okD(3) [OF G(1) v(1)] by (cases "vj = vi") (simp_all add: fields nth_list_update)
  have bn: "b \<notin> set (CacheList s)" using L(2) fresh by auto
  have lo: "lists_ok t"
    unfolding lists_ok_def len
  proof (intro conjI allI impI)
    show "distinct (CacheList t)" using L(1) bn by (simp add: fields)
    show "set (CacheList t) = dom (buffers t)" using L(2) by (auto simp: fields)
    show "CacheUse t = 16384 * int (length (CacheList t))" using L(3) by (simp add: fields)
    fix vj hj assume v': "vj < length (VolList s)" "hj < (64 :: nat)"
    have bnl: "b \<notin> set (v_buffer_lists (VolList s ! vj) ! hj)" using L(5) [OF v'] fresh by auto
    show "distinct (v_buffer_lists (VolList t ! vj) ! hj)"
      using L(4) [OF v'] bl [OF v'] bnl by auto
    show "set (v_buffer_lists (VolList t ! vj) ! hj) = {b. \<exists>x. buffers t b = Some x \<and>
        buf_volume x = vj \<and> buffer_hash (buf_zone2_offset x) = hj}"
      using L(5) [OF v'] bl [OF v'] fresh vi by (auto simp: fields)
  qed
  have bo: "bufs_ok t"
  proof -
    have "buf_ok t b x"
      using v p raw vi r assms(6) by (simp add: buf_ok_def fields(3,4) len [unfolded fields(3)] place_def buf_short_def ar)
    moreover have "buf_ok t b' x'" if "buffers s b' = Some x'" for b' x'
      using buf_okD [OF G(4) that] r(7,8)
      by (simp add: buf_ok_def fields(3,4) len [unfolded fields(3)] b_def ar)
    ultimately show ?thesis
      using new buf_unique [OF G(4)] unfolding bufs_ok_def fields(1) by (auto; metis)
  qed
  have bD: "b \<notin> D" using G(5) fresh by (auto simp: coherent_def)
  have coh: "coherent E t"
    unfolding coherent_def
  proof (intro conjI allI impI ballI)
    fix b' x' assume b': "buffers t b' = Some x'"
    show "\<not> v_rdonly (VolList t ! buf_volume x')" if "cache_modified x'"
    proof -
      have "buffers s b' = Some x'" using b' that assms(7) by (simp add: fields split: if_splits)
      then show ?thesis using that G(5) by (simp add: coherent_def fields(3) r(9))
    qed
    fix i :: nat assume a: "\<not> cache_modified x'" "b' \<notin> E" "i < 16384"
    show "buf_ondisk x' i = disk t (buf_volume x') (buf_short x' + i)"
    proof (cases "b' = b")
      case True
      then show ?thesis using b' a E vi bD by (auto simp: fields(1) dk b_def)
    next
      case False
      then have "buffers s b' = Some x'" using b' by (simp add: fields)
      then show ?thesis using G(5) a E by (auto simp: coherent_def dk)
    qed
  next
    fix e assume "e \<in> E"
    then show "\<exists>x. buffers t e = Some x \<and> 0 < cache_refs x"
      using E G(5) bD by (auto simp: coherent_def fields(1) b_def)
  qed
  show "wfs E (link_buf s x)"
    using vo lo bo coh io_ok_frame [OF fr] G(2) by (simp add: wfs_def t_def)
  show "frame (link_buf s x) = frame s" using fr by (simp add: t_def)
  show "refs_of (link_buf s x) b' = refs_of s b' + (if b' = next_buffer s then cache_refs x else 0)"
    using fresh unfolding t_def [symmetric] by (simp add: refs_of_def fields b_def)
  show "same_bufs s (link_buf s x)"
    unfolding t_def [symmetric] using \<open>\<not> cache_modified x\<close> by (auto simp: same_bufs_def fields b_def)
  show "media (link_buf s x) vj a = (if vj = vi \<and> a div 16384 * 16384 = buf_short x
      then buf_ondisk x (a mod 16384) else media s vj a)"
  proof (cases "vj = vi \<and> a div 16384 * 16384 = buf_short x")
    case True
    have "buffers t b = Some x" by (simp add: fields)
    from media_cached [OF vo bo lo this] True vi show ?thesis by (simp add: t_def)
  next
    case other: False
    show ?thesis
    proof (cases "\<exists>e. covers s vj a e")
      case True
      then obtain e z where e: "buffers s e = Some z" "buf_volume z = vj" "buf_short z = a div 16384 * 16384"
        by (auto simp: covers_def split: option.splits)
      then have "buffers t e = Some z" using fresh by (auto simp: fields)
      from media_cached [OF vo bo lo this e(2,3)] media_cached [OF G(1,4,3) e] other
      show ?thesis by (auto simp: t_def)
    next
      case False
      then have "\<not> covers t vj a e" for e
        using other vi by (auto simp: covers_def fields split: option.splits)
      with False dk other show ?thesis by (auto simp: media_uncached t_def)
    qed
  qed
qed

lemma disk_read:
  assumes "vols_ok s" and "vi < length (VolList s)"
  shows "dev_bytes (devices s (v_fd (VolList s ! vi)))
      (nat (sint (hammer_xlate_to_phys (v_ondisk (VolList s ! vi)) z)) + i) =
    disk s vi (unat z mod 2 ^ 52 + i)"
proof -
  note a = vol_okD(4) [OF assms]
  have "nat (sint (hammer_xlate_to_phys (v_ondisk (VolList s ! vi)) z)) = vol_beg s vi + unat z mod 2 ^ 52"
    unfolding xlate_to_phys_sint [OF a] vol_beg_def using area_okD(1) [OF a] by (simp add: nat_add_distrib)
  then show ?thesis by (simp add: disk_def add.assoc)
qed

lemma place_io:
  assumes "wfs D s" and "place s z vi"
  shows "vi < length (VolList s)"
    and "0 \<le> sint (hammer_xlate_to_phys (v_ondisk (VolList s ! vi)) z)"
    and "dev_read_ok (devices s (v_fd (VolList s ! vi)))
      (sint (hammer_xlate_to_phys (v_ondisk (VolList s ! vi)) z))"
proof -
  note G = wfsD [OF assms(1)]
  show v: "vi < length (VolList s)" using assms(2) get_volume_Some by (auto simp: place_def)
  note a = vol_okD(4) [OF G(1) v]
  note A = area_okD [OF a]
  show "0 \<le> sint (hammer_xlate_to_phys (v_ondisk (VolList s ! vi)) z)"
    unfolding xlate_to_phys_sint [OF a] using A(1) by simp
  have "sint (vol_buf_beg (v_ondisk (VolList s ! vi))) + int (unat z mod 2 ^ 52) + 16384 \<le>
      sint (vol_buf_end (v_ondisk (VolList s ! vi)))"
    using assms(2) A(1,2) by (auto simp: place_def vol_area_def vol_beg_def)
  then show "dev_read_ok (devices s (v_fd (VolList s ! vi)))
      (sint (hammer_xlate_to_phys (v_ondisk (VolList s ! vi)) z))"
    unfolding xlate_to_phys_sint [OF a] using G(2) v by (simp add: io_ok_def)
qed

text \<open>The buffer \<open>alloc_buffer\<close> creates.\<close>

definition fresh_buf :: "hammer_state \<Rightarrow> u64 \<Rightarrow> nat \<Rightarrow> int \<Rightarrow> buffer_info" where
  "fresh_buf s z vi isnew = \<lparr>cache_refs = 0, cache_modified = False, cache_delete = False,
     buf_zone2_offset = z, buf_raw_offset = hammer_xlate_to_phys (v_ondisk (VolList s ! vi)) z,
     buf_volume = vi,
     buf_ondisk = (if isnew \<le> 0 then (\<lambda>i. disk s vi (unat z mod 2 ^ 52 + i)) else (\<lambda>_. 0))\<rparr>"

lemma alloc_buffer_wp:
  assumes g: "wfs D s" and p: "place s z vi"
  shows "wp (alloc_buffer z isnew) (\<lambda>b t. b = next_buffer s \<and> t = link_buf s (fresh_buf s z vi isnew)) s"
proof -
  note P = place_io [OF g p]
  have v: "get_volume s (HAMMER_VOL_DECODE z) = Some vi" using p by (simp add: place_def)
  show ?thesis
    using P v disk_read [OF wfsD(1) [OF g] P(1), of z]
    by (cases "isnew \<le> 0") (simp_all add: alloc_buffer_def readhammerbuf_def hammer_cache_add_def
        wp_simps link_buf_def fresh_buf_def Let_def)
qed

lemma held:
  assumes "wfs D s" and "keeps R s t" and "buffers s b = Some x" and "0 < refs_of t b"
  obtains x' where "buffers t b = Some x'" "buf_zone2_offset x' = buf_zone2_offset x"
    "cache_modified x' \<longrightarrow> cache_modified x" "cache_refs x' = cache_refs x + R b"
proof -
  from assms(4) obtain x' where x': "buffers t b = Some x'"
    by (auto simp: refs_of_def split: option.splits)
  have "b < next_buffer s" by (rule buf_okD(1) [OF wfsD(4) [OF assms(1)] assms(3)])
  with x' assms(2,3) have "buf_zone2_offset x' = buf_zone2_offset x" "cache_modified x' \<longrightarrow> cache_modified x"
    unfolding keeps_def same_bufs_def by (metis option.inject)+
  moreover have "refs_of t b = refs_of s b + R b" using assms(2) by (simp add: keeps_def)
  then have "cache_refs x' = cache_refs x + R b" using x' assms(3) by (simp add: refs_of_def)
  ultimately show thesis using that x' by blast
qed

lemma link_fresh_keeps:
  assumes g: "wfs D s" and p: "place s z vi" and new: "\<And>b y. buffers s b = Some y \<Longrightarrow> buf_zone2_offset y \<noteq> z"
    and isnew: "isnew \<le> 0" and r: "0 \<le> r" and x: "x = (fresh_buf s z vi isnew)\<lparr>cache_refs := r\<rparr>"
  shows "wfs D (link_buf s x)" and "keeps (\<lambda>b'. if b' = next_buffer s then r else 0) s (link_buf s x)"
proof -
  note G = wfsD [OF g]
  have fields: "buf_zone2_offset x = z" "buf_volume x = vi" "buf_short x = unat z mod 2 ^ 52"
    "buf_raw_offset x = hammer_xlate_to_phys (v_ondisk (VolList s ! vi)) z" "cache_refs x = r"
    "\<not> cache_modified x" "buf_ondisk x = (\<lambda>i. disk s vi (unat z mod 2 ^ 52 + i))"
    using isnew by (simp_all add: x fresh_buf_def buf_short_def)
  have p': "place s (buf_zone2_offset x) vi" and new': "\<And>b y. buffers s b = Some y \<Longrightarrow>
      buf_zone2_offset y \<noteq> buf_zone2_offset x" using p new by (simp_all add: fields)
  have raw: "buf_raw_offset x = hammer_xlate_to_phys (v_ondisk (VolList s ! vi)) (buf_zone2_offset x)"
    and E: "D = D \<and> (\<forall>i<16384. buf_ondisk x i = disk s vi (buf_short x + i)) \<or>
       D = insert (next_buffer s) D \<and> 0 < cache_refs x"
    and r': "0 \<le> cache_refs x" by (simp_all add: fields r)
  note l = link_buf_ok [OF g p' fields(2) raw new' r' fields(6) E]
  show "wfs D (link_buf s x)" by (rule l(1))
  have "media (link_buf s x) vj a = media s vj a" for vj a
  proof (cases "vj = vi \<and> a div 16384 * 16384 = unat z mod 2 ^ 52")
    case True
    have none: "\<not> covers s vi a e" for e
    proof
      assume "covers s vi a e"
      then obtain y where y: "buffers s e = Some y" "buf_volume y = vi" "buf_short y = unat z mod 2 ^ 52"
        using True by (auto simp: covers_def split: option.splits)
      have "buf_zone2_offset y = z"
        using buf_okD [OF G(4) y(1)] y p get_volume_Some(2) [of s "HAMMER_VOL_DECODE z" vi]
        by (intro zone2_eqI) (simp_all add: place_def buf_short_def)
      with new [OF y(1)] show False ..
    qed
    have "unat z mod 2 ^ 52 + a mod 16384 = a" using True by (metis div_mult_mod_eq)
    then show ?thesis
      using True l(3) [where vj = vj and a = a] media_uncached [of s vi a, OF none] by (simp add: fields)
  qed (use l(3) [where vj = vj and a = a] in \<open>auto simp: fields\<close>)
  then show "keeps (\<lambda>b'. if b' = next_buffer s then r else 0) s (link_buf s x)"
    using l(2,4,5) by (simp add: keeps_def fields fun_eq_iff)
qed

lemma base_of_raw:
  assumes "hammer_is_zone_raw_buffer a"
  shows "hammer_is_zone_raw_buffer (a AND NOT HAMMER_BUFMASK64)"
    and "16384 dvd unat (a AND NOT HAMMER_BUFMASK64)" and "a \<noteq> HAMMER_OFF_BAD"
proof -
  have "unat (a AND NOT HAMMER_BUFMASK64) = unat a div 2 ^ 14 * 2 ^ 14" by (rule buf_base_nat)
  moreover have "unat a div 2 ^ 14 * 2 ^ 14 div 2 ^ 60 = unat a div 2 ^ 60"
    by (simp add: div_mult2_eq [of "unat a" "2 ^ 14" "2 ^ 46", simplified]
        div_mult2_eq [of "unat a div 2 ^ 14 * 2 ^ 14" "2 ^ 14" "2 ^ 46", simplified])
  ultimately show "hammer_is_zone_raw_buffer (a AND NOT HAMMER_BUFMASK64)"
    "16384 dvd unat (a AND NOT HAMMER_BUFMASK64)"
    using assms by (simp_all add: raw_buffer_nat)
  have "unat (- 1 :: u64) = 2 ^ 64 - 1" by (simp add: unsigned_minus_1_eq_mask mask_eq_exp_minus_1)
  then show "a \<noteq> HAMMER_OFF_BAD" using assms by (auto simp: raw_buffer_nat HAMMER_OFF_BAD_def)
qed

lemma good_upd_refs:
  assumes g: "good D s" and x: "buffers s b = Some x" and r: "0 \<le> r" "b \<in> D \<longrightarrow> 0 < r"
  shows "good D (s\<lparr>buffers := (buffers s)(b \<mapsto> x\<lparr>cache_refs := r\<rparr>)\<rparr>)"
    and "keeps (\<lambda>b'. if b' = b then r - cache_refs x else 0) s
      (s\<lparr>buffers := (buffers s)(b \<mapsto> x\<lparr>cache_refs := r\<rparr>)\<rparr>)"
  using wfs_upd_flags [OF goodD(1) [OF g] x, of "x\<lparr>cache_refs := r\<rparr>"] goodD(2) [OF g] r x
  by (auto simp: good_def cong: if_cong)

text \<open>The buffer of the place, found or read, with one more reference and nothing else changed.\<close>

definition acquire :: "u64 \<Rightarrow> int \<Rightarrow> (nat \<times> bool) hio" where
  "acquire z isnew =
     bindS (find_buffer z) (\<lambda>found.
     case found of
       None \<Rightarrow> bindS (alloc_buffer z isnew) (\<lambda>b. returnS (b, isnew = 0))
     | Some b \<Rightarrow>
         bindS (assertS (isnew \<noteq> - 1) ''isnew != -1'') (\<lambda>_.
         bindS (hammer_cache_used b) (\<lambda>_.
         returnS (b, False))))"

lemma take_ref_wp:
  assumes g: "good D s" and x: "buffers s b = Some x"
  shows "wp (bindS (hammer_cache_used b) (\<lambda>_. upd_buf b (\<lambda>x. x\<lparr>cache_refs := cache_refs x + 1\<rparr>)))
    (\<lambda>_ t. good D t \<and> keeps (\<lambda>b'. if b' = b then 1 else 0) s t \<and>
      buffers t b = Some (x\<lparr>cache_refs := cache_refs x + 1\<rparr>) \<and> 0 \<le> cache_refs x) s"
proof -
  note G = goodD(1) [OF g]
  have fin: "good D (t\<lparr>buffers := (buffers t)(b \<mapsto> x\<lparr>cache_refs := cache_refs x + 1\<rparr>)\<rparr>)"
    "keeps (\<lambda>b'. if b' = b then 1 else 0) s
      (t\<lparr>buffers := (buffers t)(b \<mapsto> x\<lparr>cache_refs := cache_refs x + 1\<rparr>)\<rparr>)"
    "0 \<le> cache_refs x"
    if t: "wfs D t" "keeps (\<lambda>_. 0) s t" "buffers t = buffers s" for t
  proof -
    have gt: "good D t" using t g by (simp add: good_def)
    have bt: "buffers t b = Some x" using t x by simp
    show r: "0 \<le> cache_refs x" by (rule buf_okD(8) [OF wfsD(4) [OF t(1)] bt])
    show "good D (t\<lparr>buffers := (buffers t)(b \<mapsto> x\<lparr>cache_refs := cache_refs x + 1\<rparr>)\<rparr>)"
      using good_upd_refs(1) [OF gt bt] r by simp
    have "keeps (\<lambda>b'. if b' = b then 1 else 0) t
      (t\<lparr>buffers := (buffers t)(b \<mapsto> x\<lparr>cache_refs := cache_refs x + 1\<rparr>)\<rparr>)"
      using good_upd_refs(2) [OF gt bt, of "cache_refs x + 1"] r by (simp cong: if_cong)
    from keeps_trans [OF t(2) this] show "keeps (\<lambda>b'. if b' = b then 1 else 0) s
      (t\<lparr>buffers := (buffers t)(b \<mapsto> x\<lparr>cache_refs := cache_refs x + 1\<rparr>)\<rparr>)" by simp
  qed
  have "b \<in> dom (buffers s)" using x by auto
  from wp_cache_used [OF G this] show ?thesis
    unfolding wp_bind by (rule wp_mono) (use fin x in \<open>auto simp: wp_simps\<close>)
qed

lemma acquire_read_wp:
  assumes g: "good D s" and p: "place s z vi"
    and isnew: "isnew = 0 \<or> isnew = - 1 \<and> (\<forall>b x. buffers s b = Some x \<longrightarrow> buf_zone2_offset x \<noteq> z)"
  shows "wp (bindS (acquire z isnew) (\<lambda>(b, dora).
      bindS (upd_buf b (\<lambda>x. x\<lparr>cache_refs := cache_refs x + 1\<rparr>)) (\<lambda>_. returnS (b, dora))))
    (\<lambda>(b, dora) t. good D t \<and> keeps (\<lambda>b'. if b' = b then 1 else 0) s t \<and>
       (\<exists>x. buffers t b = Some x \<and> buf_zone2_offset x = z \<and> 0 < cache_refs x) \<and>
       (isnew = - 1 \<longrightarrow> \<not> dora)) s" (is "wp ?m ?Q s")
proof -
  note G = goodD(1) [OF g]
  have v: "get_volume s (HAMMER_VOL_DECODE z) = Some vi" using p by (simp add: place_def)
  have old: "wp (bindS (hammer_cache_used b) (\<lambda>_. bindS (upd_buf b (\<lambda>x. x\<lparr>cache_refs := cache_refs x + 1\<rparr>))
      (\<lambda>_. returnS (b, False)))) ?Q s"
    if x: "buffers s b = Some x" "buf_zone2_offset x = z" for b x
  proof -
    have "wp (hammer_cache_used b) (\<lambda>_. wp (upd_buf b (\<lambda>x. x\<lparr>cache_refs := cache_refs x + 1\<rparr>)) (\<lambda>_. ?Q (b, False))) s"
      unfolding wp_bind [symmetric] by (rule wp_mono [OF take_ref_wp [OF g x(1)]]) (use x(2) in auto)
    then show ?thesis by (simp only: wp_bind wp_return)
  qed
  have new: "wp (bindS (alloc_buffer z isnew) (\<lambda>b. bindS (upd_buf b (\<lambda>x. x\<lparr>cache_refs := cache_refs x + 1\<rparr>))
      (\<lambda>_. returnS (b, isnew = 0)))) ?Q s"
    if n: "\<forall>b x. buffers s b = Some x \<longrightarrow> buf_zone2_offset x \<noteq> z"
  proof -
    let ?x = "(fresh_buf s z vi isnew)\<lparr>cache_refs := 1\<rparr>" and ?b = "next_buffer s"
    have i: "isnew \<le> 0" using isnew by auto
    have l: "wfs D (link_buf s ?x)" "keeps (\<lambda>b'. if b' = ?b then 1 else 0) s (link_buf s ?x)"
      using link_fresh_keeps [OF G p _ i, of 1 ?x] n by auto
    have eq: "(link_buf s (fresh_buf s z vi isnew))\<lparr>buffers := (buffers s)(?b \<mapsto> ?x)\<rparr> = link_buf s ?x"
      by (simp add: link_buf_def Let_def fresh_buf_def)
    have bb: "buffers (link_buf s y) = (buffers s)(?b \<mapsto> y)" for y by (simp add: link_buf_def Let_def)
    have gd: "good D (link_buf s ?x)"
      using l(1) goodD(2) [OF g] by (auto simp: good_def bb fresh_buf_def)
    have cr: "cache_refs (fresh_buf s z vi isnew) = 0" "buf_zone2_offset (fresh_buf s z vi isnew) = z"
      by (simp_all add: fresh_buf_def)
    show ?thesis
      unfolding wp_bind
      by (rule wp_mono [OF alloc_buffer_wp [OF G p]])
        (use l(2) gd in \<open>auto simp: wp_simps bb cr eq\<close>)
  qed
  show ?thesis
    unfolding acquire_def wp_bind
    by (rule wp_mono [OF find_buffer_wp [OF G v]])
      (use old new isnew in \<open>auto simp: wp_simps split: option.splits\<close>)
qed

end
