(* ===== verification/Buffer_Access.thy ===== *)
theory Buffer_Access
  imports Cache_Invariant
begin

text \<open>
  Acquisition of buffers: read ahead, \<open>get_buffer\<close> and \<open>get_buffer_data\<close> on raw offsets return the
  buffer of the place, adjust the reference counts and keep the media, whatever they evict or read
  on the way.
\<close>

section \<open>Reading a buffer\<close>

lemma place_keeps:
  assumes "place s z vi" and "wfs D s" and "wfs D' t" and "frame t = frame s"
  shows "place t z vi"
proof -
  have "get_volume s (HAMMER_VOL_DECODE z) = Some vi" using assms(1) by (simp add: place_def)
  from get_volume_frame [OF assms(4) wfsD(1) [OF assms(2)] wfsD(1) [OF assms(3)] this]
    frame_fields(6) [OF assms(4) get_volume_Some(1) [OF this]]
  show ?thesis using assms(1) frame_vols [OF assms(4)] frame_fields(6) [OF assms(4)] get_volume_Some(1)
    by (auto simp: place_def)
qed

text \<open>
  A raw offset inside a volume reads or finds the buffer of its place; the offset needs no
  translation, so the result does not depend on \<open>lookup\<close>.
\<close>

lemma get_buffer_nora_wp:
  assumes g: "good D s" and a: "hammer_is_zone_raw_buffer a"
    and p: "place s (a AND NOT HAMMER_BUFMASK64) vi"
    and isnew: "isnew = 0 \<or> isnew = - 1 \<and>
      (\<forall>b x. buffers s b = Some x \<longrightarrow> buf_zone2_offset x \<noteq> a AND NOT HAMMER_BUFMASK64)"
  shows "wp (get_buffer_nora lookup a isnew) (\<lambda>(r, dora) t. \<exists>b x. r = Some b \<and> good D t \<and>
      keeps (\<lambda>b'. if b' = b then 1 else 0) s t \<and> buffers t b = Some x \<and>
      buf_zone2_offset x = a AND NOT HAMMER_BUFMASK64 \<and> 0 < cache_refs x \<and>
      (isnew = - 1 \<longrightarrow> \<not> dora)) s" (is "wp _ ?Q s")
proof -
  let ?z = "a AND NOT HAMMER_BUFMASK64"
  have fin: "wp hammer_cache_flush (\<lambda>_ u. ?Q (Some b, dora) u) t"
    if t: "good D t" "keeps (\<lambda>b'. if b' = b then 1 else 0) s t" "buffers t b = Some x"
      "buf_zone2_offset x = ?z" "0 < cache_refs x" "isnew = - 1 \<longrightarrow> \<not> dora" for t b x dora
  proof (rule wp_mono [OF hammer_cache_flush_wp [OF t(1)]])
    fix u assume u: "good D u \<and> keeps (\<lambda>_. 0) t u \<and>
      (CacheUse t < CacheMax t \<or> low_water u \<or> all_referenced u)"
    have "0 < refs_of u b" using u t(3,5) by (simp add: keeps_def refs_of_def)
    from held [OF goodD(1) [OF t(1)] _ t(3) this] u obtain x' where
      "buffers u b = Some x'" "buf_zone2_offset x' = ?z" "cache_refs x' = cache_refs x"
      using t(4) by (metis add.right_neutral)
    moreover have "keeps (\<lambda>b'. if b' = b then 1 else 0) s u"
      using keeps_trans [OF t(2), of "\<lambda>_. 0" u] u by simp
    ultimately show "?Q (Some b, dora) u" using u t by auto
  qed
  have "wp (bindS (acquire ?z isnew) (\<lambda>(b, dora).
      bindS (upd_buf b (\<lambda>x. x\<lparr>cache_refs := cache_refs x + 1\<rparr>)) (\<lambda>_. returnS (b, dora))))
      (\<lambda>(b, dora) t. wp hammer_cache_flush (\<lambda>_ u. ?Q (Some b, dora) u) t) s"
    by (rule wp_mono [OF acquire_read_wp [OF g p isnew]])
      (unfold split_beta, elim conjE exE, rule fin [unfolded split_beta], assumption+)
  moreover have "\<not> isnew > 0" using isnew by auto
  ultimately show ?thesis
    using base_of_raw [OF a] a
    by (simp add: get_buffer_nora_def blockmap_xlate_to_zone2_def acquire_def wp_simps
        case_prod_beta cong: option.case_cong)
qed

lemma encode_raw_buffer:
  assumes "0 \<le> v" "v < 256" "unat off < 2 ^ 52"
  shows "unat (HAMMER_ENCODE_RAW_BUFFER v off) = 2 * 2 ^ 60 + nat v * 2 ^ 52 + unat off"
    and "hammer_is_zone_raw_buffer (HAMMER_ENCODE_RAW_BUFFER v off)"
    and "HAMMER_VOL_DECODE (HAMMER_ENCODE_RAW_BUFFER v off) = v"
    and "unat (HAMMER_ENCODE_RAW_BUFFER v off) mod 2 ^ 52 = unat off"
proof -
  have v: "nat v < 256" using assms by simp
  show e: "unat (HAMMER_ENCODE_RAW_BUFFER v off) = 2 * 2 ^ 60 + nat v * 2 ^ 52 + unat off"
    using encode_nat [of 2 v off] assms
    by (simp add: HAMMER_ENCODE_RAW_BUFFER_def HAMMER_ZONE_RAW_BUFFER_INDEX_def)
  note d = offset_digits [OF v assms(3), of 2]
  show "hammer_is_zone_raw_buffer (HAMMER_ENCODE_RAW_BUFFER v off)"
    unfolding raw_buffer_nat e by (rule d(1))
  show "HAMMER_VOL_DECODE (HAMMER_ENCODE_RAW_BUFFER v off) = v"
    unfolding vol_decode_nat e d(2) using assms by simp
  show "unat (HAMMER_ENCODE_RAW_BUFFER v off) mod 2 ^ 52 = unat off"
    unfolding e by (rule d(3))
qed

lemma aligned_base:
  assumes "16384 dvd unat z"
  shows "z AND NOT HAMMER_BUFMASK64 = z"
proof -
  have "unat z div 2 ^ 14 * 2 ^ 14 = unat z" using assms by simp
  then show ?thesis by (simp only: word_unat_eq_iff buf_base_nat)
qed

lemma unat_diff_sint:
  assumes "sint (b :: i64) \<le> sint a"
  shows "int (unat (a - b)) = sint a - sint b"
proof -
  have "a - b = of_int (sint a - sint b)" by (simp only: of_int_diff of_int_sint scast_id)
  then have "uint (a - b) = (sint a - sint b) mod 2 ^ 64"
    by (simp only: unsigned_of_int) (simp add: take_bit_eq_mod)
  moreover have "sint a - sint b < 2 ^ 64"
    using sint_lt [of a] sint_ge [of b] by simp
  ultimately show ?thesis using assms by simp
qed

lemma place_encode:
  assumes g: "wfs D s" and vi: "vi < length (VolList s)" and d: "16384 dvd sint raw"
    and lo: "sint (vol_buf_beg (v_ondisk (VolList s ! vi))) \<le> sint raw"
    and hi: "sint raw < sint (vol_buf_end (v_ondisk (VolList s ! vi)))"
  shows "place s (HAMMER_ENCODE_RAW_BUFFER (v_vol_no (VolList s ! vi))
    (raw - vol_buf_beg (v_ondisk (VolList s ! vi)))) vi"
proof -
  let ?v = "VolList s ! vi"
  let ?off = "raw - vol_buf_beg (v_ondisk ?v)"
  note V = vol_okD [OF wfsD(1) [OF g] vi]
  note A = area_okD [OF V(4)]
  have off: "int (unat ?off) = sint raw - sint (vol_buf_beg (v_ondisk ?v))"
    by (rule unat_diff_sint [OF lo])
  have dvd: "16384 dvd unat ?off"
    using d A(5) off by (metis dvd_diff int_dvd_int_iff of_nat_numeral)
  have "16384 dvd sint (vol_buf_end (v_ondisk ?v)) - sint raw" using d A(6) by simp
  with hi have room: "sint raw + 16384 \<le> sint (vol_buf_end (v_ondisk ?v))"
    using zdvd_imp_le [of 16384 "sint (vol_buf_end (v_ondisk ?v)) - sint raw"] by simp
  have arith: "n < 2 ^ 52 \<and> n + 16384 \<le> nat e - nat b" if "int n = r - b" "0 \<le> b" "b \<le> e"
    "e - b \<le> 2 ^ 52" "r + 16384 \<le> e" for n :: nat and b e r :: int using that by auto
  have "unat ?off < 2 ^ 52 \<and> unat ?off + 16384 \<le> vol_area s vi"
    unfolding vol_area_def vol_beg_def by (rule arith [OF off A(1,2,4) room])
  then have small: "unat ?off < 2 ^ 52" and area: "unat ?off + 16384 \<le> vol_area s vi" by simp_all
  note e = encode_raw_buffer [OF V(1,2) small]
  have "16384 dvd unat (HAMMER_ENCODE_RAW_BUFFER (v_vol_no ?v) ?off)"
    unfolding e(1) using dvd by (auto intro!: dvd_add dvd_mult simp: le_imp_power_dvd [of 14 52 2, simplified])
  then show ?thesis
    using e area get_volume_index [OF wfsD(1) [OF g] vi] by (simp add: place_def)
qed

lemma keeps_refs: "keeps R s t \<Longrightarrow> refs_of t b = refs_of s b + R b"
  by (simp add: keeps_def)

lemma sint_plus_buf:
  assumes "- (2 ^ 62) < sint (raw :: i64)" and "sint raw < 2 ^ 62"
  shows "sint (raw + word_of_int HAMMER_BUFSIZE) = sint raw + 16384"
  using assms by (simp add: HAMMER_BUFSIZE_def sint_word_ariths signed_take_bit_int_eq_self)

text \<open>Read ahead brings buffers in and keeps everything else.\<close>

lemma readahead_loop_wp:
  assumes "good D s" and "vi < length (VolList s)" and "16384 dvd sint raw" and "- (2 ^ 62) < sint raw"
  shows "wp (get_buffer_readahead_loop lookup vi ri re raw) (\<lambda>_ t. good D t \<and> keeps (\<lambda>_. 0) s t) s"
  using assms
proof (induction "nat (re - ri)" arbitrary: ri raw s)
  case 0
  then show ?case
    by (subst get_buffer_readahead_loop.simps) (simp add: wp_simps keeps_refl)
next
  case (Suc n)
  let ?od = "v_ondisk (VolList s ! vi)"
  note V = vol_okD [OF wfsD(1) [OF goodD(1) [OF Suc.prems(1)]] Suc.prems(2)]
  note A = area_okD [OF V(4)]
  have IH: "wp (get_buffer_readahead_loop lookup vi (ri + 1) re (raw + word_of_int HAMMER_BUFSIZE))
      (\<lambda>_ u. good D u \<and> keeps (\<lambda>_. 0) s u) t"
    if t: "good D t" "keeps (\<lambda>_. 0) s t" and hi: "sint raw < sint (vol_buf_end ?od)" for t
  proof -
    have k: "sint (raw + word_of_int HAMMER_BUFSIZE) = sint raw + 16384"
      by (rule sint_plus_buf [OF Suc.prems(4) order.strict_trans [OF hi A(3)]])
    have "vi < length (VolList t)"
      using Suc.prems(2) t(2) frame_vols(1) [of t s] by (simp add: keeps_def)
    moreover have "n = nat (re - (ri + 1))" using Suc.hyps(2) by simp
    moreover have "16384 dvd sint raw + 16384" "- (2 ^ 62) < sint raw + 16384"
      using Suc.prems(3,4) by simp_all
    ultimately have "wp (get_buffer_readahead_loop lookup vi (ri + 1) re (raw + word_of_int HAMMER_BUFSIZE))
      (\<lambda>_ u. good D u \<and> keeps (\<lambda>_. 0) t u) t" using t(1) by (intro Suc.hyps(1)) (simp_all only: k)
    then show ?thesis by (rule wp_mono) (use keeps_trans [OF t(2)] in fastforce)
  qed
  have ri: "ri < re" using Suc.hyps(2) by simp
  consider "sint (vol_buf_end ?od) \<le> sint raw"
    | "sint raw < sint (vol_buf_end ?od)" "sint raw < sint (vol_buf_beg ?od) \<or> ri = 0"
    | (fetch) "sint raw < sint (vol_buf_end ?od)" "sint (vol_buf_beg ?od) \<le> sint raw" "ri \<noteq> 0"
    by linarith
  then show ?case
  proof cases
    case 1
    then show ?thesis
      using ri Suc.prems by (subst get_buffer_readahead_loop.simps) (simp add: wp_simps keeps_refl)
  next
    case 2
    then show ?thesis
      using ri Suc.prems IH [OF Suc.prems(1) keeps_refl 2(1)]
      by (subst get_buffer_readahead_loop.simps) (simp add: wp_simps)
  next
    case fetch
    let ?z = "HAMMER_ENCODE_RAW_BUFFER (v_vol_no (VolList s ! vi)) (raw - vol_buf_beg ?od)"
    note g = goodD(1) [OF Suc.prems(1)]
    have p: "place s ?z vi" by (rule place_encode [OF g Suc.prems(2,3) fetch(2,1)])
    then have z: "hammer_is_zone_raw_buffer ?z" "?z AND NOT HAMMER_BUFMASK64 = ?z"
      and v: "get_volume s (HAMMER_VOL_DECODE ?z) = Some vi"
      using aligned_base by (simp_all add: place_def)
    have step: "wp (get_buffer_nora lookup ?z (- 1)) (\<lambda>x t. wp (rel_buffer (fst x))
        (\<lambda>_ u. good D u \<and> keeps (\<lambda>_. 0) s u) t) s"
      if new: "\<forall>b x. buffers s b = Some x \<longrightarrow> buf_zone2_offset x \<noteq> ?z"
    proof (rule wp_mono [OF get_buffer_nora_wp [OF Suc.prems(1) z(1), of vi "- 1"]])
      fix r t assume "(case r of (r, dora) \<Rightarrow> \<lambda>t. \<exists>b x. r = Some b \<and> good D t \<and>
        keeps (\<lambda>b'. if b' = b then 1 else 0) s t \<and> buffers t b = Some x \<and>
        buf_zone2_offset x = ?z AND NOT HAMMER_BUFMASK64 \<and> 0 < cache_refs x \<and>
        (- 1 = (- 1 :: int) \<longrightarrow> \<not> dora)) t"
      then obtain b x where r: "fst r = Some b" and t: "good D t" "keeps (\<lambda>b'. if b' = b then 1 else 0) s t"
        "buffers t b = Some x" "buf_zone2_offset x = ?z" "0 < cache_refs x" using z(2) by auto
      have nD: "b \<in> D \<longrightarrow> 1 < cache_refs x"
      proof
        assume "b \<in> D"
        then have "0 < refs_of s b" using wfsD(5) [OF g] by (auto simp: coherent_def refs_of_def)
        moreover have "refs_of t b = refs_of s b + 1" using keeps_refs [OF t(2), of b] by simp
        ultimately show "1 < cache_refs x" using t(3) by (simp add: refs_of_def)
      qed
      show "wp (rel_buffer (fst r)) (\<lambda>_ u. good D u \<and> keeps (\<lambda>_. 0) s u) t"
        unfolding r
      proof (rule wp_mono [OF rel_buffer_wp [OF t(1,3,5) nD]])
        fix u assume u: "good D u \<and> keeps (\<lambda>b'. if b' = b then - 1 else 0) t u \<and>
          buffers u = (buffers t)(b \<mapsto> x\<lparr>cache_refs := cache_refs x - 1\<rparr>)"
        have "(\<lambda>b'. (if b' = b then 1 else 0) + (if b' = b then - 1 else 0)) = (\<lambda>_. 0 :: int)" by auto
        with keeps_trans [OF t(2), of "\<lambda>b'. if b' = b then - 1 else 0" u] u
        show "good D u \<and> keeps (\<lambda>_. 0) s u" by simp
      qed
    qed (use p z new in simp_all)
    have "wp (find_buffer ?z) (\<lambda>found. wp (whenS (found = None)
        (bindS (get_buffer_nora lookup ?z (- 1)) (\<lambda>(buffer, _). rel_buffer buffer)))
        (\<lambda>_ u. good D u \<and> keeps (\<lambda>_. 0) s u)) s"
      by (rule wp_mono [OF find_buffer_wp [OF g v]])
        (use step Suc.prems(1) in \<open>auto simp: wp_simps keeps_refl split_beta split: option.splits\<close>)
    then have "wp (find_buffer ?z) (\<lambda>found. wp (whenS (found = None)
        (bindS (get_buffer_nora lookup ?z (- 1)) (\<lambda>(buffer, _). rel_buffer buffer)))
        (\<lambda>_. wp (get_buffer_readahead_loop lookup vi (ri + 1) re (raw + word_of_int HAMMER_BUFSIZE))
           (\<lambda>_ u. good D u \<and> keeps (\<lambda>_. 0) s u))) s"
      by (rule wp_mono, elim wp_mono) (use IH fetch(1) in blast)
    then show ?thesis
      using ri fetch Suc.prems(2)
      by (subst get_buffer_readahead_loop.simps) (simp add: wp_bind wp_get_vol wp_if Let_def)
  qed
qed

lemma sint_of_small: "- (2 ^ 63) \<le> k \<Longrightarrow> k < 2 ^ 63 \<Longrightarrow> sint (word_of_int k :: i64) = k"
  by (simp add: signed_of_int signed_take_bit_int_eq_self)

lemma get_buffer_wp:
  assumes g: "good D s" and a: "hammer_is_zone_raw_buffer a"
    and p: "place s (a AND NOT HAMMER_BUFMASK64) vi"
  shows "wp (get_buffer lookup a 0) (\<lambda>r t. \<exists>b x. r = Some b \<and> good D t \<and>
      keeps (\<lambda>b'. if b' = b then 1 else 0) s t \<and> buffers t b = Some x \<and>
      buf_zone2_offset x = a AND NOT HAMMER_BUFMASK64 \<and> 0 < cache_refs x) s"
proof -
  let ?z = "a AND NOT HAMMER_BUFMASK64"
  let ?P = "\<lambda>b t. good D t \<and> keeps (\<lambda>b'. if b' = b then 1 else 0) s t \<and>
    (\<exists>x. buffers t b = Some x \<and> buf_zone2_offset x = ?z \<and> 0 < cache_refs x)"
  have ra: "wp (get_buffer_readahead lookup b) (\<lambda>_ u. ?P b u) t" if t: "?P b t" for b t
  proof -
    from t obtain x where x: "good D t" "keeps (\<lambda>b'. if b' = b then 1 else 0) s t"
      "buffers t b = Some x" "buf_zone2_offset x = ?z" "0 < cache_refs x" by blast
    note G = wfsD [OF goodD(1) [OF x(1)]]
    note X = buf_okD [OF G(4) x(3)]
    note A = area_okD [OF vol_okD(4) [OF G(1) X(2)]]
    note R = raw_offset_sint [OF G(1,4) x(3)]
    let ?ri = "UseReadBehind t"
    have ri: "\<bar>?ri\<bar> < 2 ^ 17" using G(2) by (simp add: io_ok_def)
    have raw: "sint (buf_raw_offset x + word_of_int (?ri * HAMMER_BUFSIZE)) = sint (buf_raw_offset x) + ?ri * 16384"
    proof -
      have w: "sint (word_of_int (?ri * 16384) :: i64) = ?ri * 16384"
        by (rule sint_of_small) (use ri in auto)
      moreover have "- (2 ^ 63) \<le> sint (buf_raw_offset x) + ?ri * 16384"
        "sint (buf_raw_offset x) + ?ri * 16384 < 2 ^ 63" using ri R A(1,3) by simp_all
      ultimately show ?thesis
        unfolding HAMMER_BUFSIZE_def sint_word_ariths w by (intro signed_take_bit_int_eq_self) simp_all
    qed
    have "16384 dvd sint (buf_raw_offset x)"
      using short_aligned [OF G(4) x(3)] A(1,5)
      by (simp add: R(1) vol_beg_def int_dvd_int_iff [of 16384, symmetric, simplified])
    then have "16384 dvd sint (buf_raw_offset x) + ?ri * 16384" by simp
    moreover have "- (2 ^ 62) < sint (buf_raw_offset x) + ?ri * 16384" using ri R(1) by simp
    ultimately have "wp (get_buffer_readahead_loop lookup (buf_volume x) ?ri (UseReadAhead t)
        (buf_raw_offset x + word_of_int (?ri * HAMMER_BUFSIZE))) (\<lambda>_ u. good D u \<and> keeps (\<lambda>_. 0) t u) t"
      by (intro readahead_loop_wp [OF x(1) X(2)]) (simp_all only: raw)
    then have "wp (get_buffer_readahead_loop lookup (buf_volume x) ?ri (UseReadAhead t)
        (buf_raw_offset x + word_of_int (?ri * HAMMER_BUFSIZE))) (\<lambda>_ u. ?P b u) t"
    proof (rule wp_mono)
      fix u assume u: "good D u \<and> keeps (\<lambda>_. 0) t u"
      have "0 < refs_of u b" using keeps_refs [of _ t u b] u x(3,5) by (auto simp: refs_of_def)
      from held [OF goodD(1) [OF x(1)] _ x(3) this] u obtain x' where
        "buffers u b = Some x'" "buf_zone2_offset x' = ?z" "cache_refs x' = cache_refs x"
        using x(4) by (metis add.right_neutral)
      with x(5) keeps_trans [OF x(2), of "\<lambda>_. 0" u] u show "?P b u" by simp
    qed
    then show ?thesis using x(3) by (simp add: get_buffer_readahead_def wp_simps)
  qed
  show ?thesis
    unfolding get_buffer_def wp_bind
  proof (rule wp_mono [OF get_buffer_nora_wp [OF g a p]])
    fix r t assume "(case r of (r, dora) \<Rightarrow> \<lambda>t. \<exists>b x. r = Some b \<and> good D t \<and>
      keeps (\<lambda>b'. if b' = b then 1 else 0) s t \<and> buffers t b = Some x \<and>
      buf_zone2_offset x = a AND NOT HAMMER_BUFMASK64 \<and> 0 < cache_refs x \<and>
      (0 = (- 1 :: int) \<longrightarrow> \<not> dora)) t"
    then obtain b dora where r: "r = (Some b, dora)" and t: "?P b t" by (auto split: prod.splits)
    from t ra [OF t] show "wp (case r of (buffer, dora) \<Rightarrow> case buffer of None \<Rightarrow> returnS None
        | Some b \<Rightarrow> bindS (whenS dora (get_buffer_readahead lookup b)) (\<lambda>_. returnS (Some b)))
      (\<lambda>r t. \<exists>b x. r = Some b \<and> good D t \<and> keeps (\<lambda>b'. if b' = b then 1 else 0) s t \<and>
        buffers t b = Some x \<and> buf_zone2_offset x = ?z \<and> 0 < cache_refs x) t"
      unfolding r by (auto simp: wp_simps elim!: wp_mono)
  qed simp
qed

section \<open>Pointers to data\<close>

lemma xor_zero_iff: "x XOR y = 0 \<longleftrightarrow> x = (y :: 'a :: len word)"
proof
  assume z: "x XOR y = 0"
  have "x = (x XOR y) XOR y" by (simp add: xor.assoc)
  also have "\<dots> = y" by (simp only: z xor.left_neutral)
  finally show "x = y" .
qed simp

lemma same_block:
  assumes "hammer_is_zone_raw_buffer a" "hammer_is_zone_raw_buffer z" "16384 dvd unat z"
  shows "(HAMMER_OFF_LONG_ENCODE a XOR HAMMER_OFF_LONG_ENCODE z) AND NOT HAMMER_BUFMASK64 = 0 \<longleftrightarrow>
    a AND NOT HAMMER_BUFMASK64 = z"
proof -
  let ?m = "NOT (mask 14) :: u64"
  have z: "z AND ?m = z" using aligned_base [OF assms(3)] by (simp only: mask_simps)
  have zone: "w AND NOT (mask 60) = HAMMER_ZONE_RAW_BUFFER" if "hammer_is_zone_raw_buffer w" for w
    using that by (simp add: hammer_is_zone_raw_buffer_def HAMMER_ZONE_def mask_simps)
  have split: "w = (w AND mask 60) OR (w AND NOT (mask 60))" for w :: u64
    by (rule bit_word_eqI) (auto simp: bit_simps)
  have "(HAMMER_OFF_LONG_ENCODE a XOR HAMMER_OFF_LONG_ENCODE z) AND ?m = 0 \<longleftrightarrow>
      (a AND ?m) AND mask 60 = (z AND ?m) AND mask 60"
  proof -
    have "(HAMMER_OFF_LONG_ENCODE a XOR HAMMER_OFF_LONG_ENCODE z) AND ?m =
        ((a AND ?m) AND mask 60) XOR ((z AND ?m) AND mask 60)"
      unfolding HAMMER_OFF_LONG_ENCODE_def mask_simps by (rule bit_word_eqI) (auto simp: bit_simps)
    then show ?thesis by (simp only: xor_zero_iff)
  qed
  also have "\<dots> \<longleftrightarrow> a AND ?m = z AND ?m"
  proof
    assume e: "(a AND ?m) AND mask 60 = (z AND ?m) AND mask 60"
    have "(a AND ?m) AND NOT (mask 60) = (z AND ?m) AND NOT (mask 60)"
    proof -
      have "(w AND ?m) AND NOT (mask 60) = w AND NOT (mask 60)" for w :: u64
        by (rule bit_word_eqI) (auto simp: bit_simps)
      then show ?thesis using zone [OF assms(1)] zone [OF assms(2)] by simp
    qed
    with e show "a AND ?m = z AND ?m" using split [of "a AND ?m"] split [of "z AND ?m"] by simp
  qed simp
  finally show ?thesis unfolding mask_simps z .
qed

lemma raw_zone_class:
  assumes "hammer_is_zone_raw_buffer a"
  shows "\<not> hammer_is_zone_undo a" "hammer_is_zone_direct_xlated a"
  using assms by (auto simp: raw_buffer_nat undo_nat hammer_is_zone_direct_xlated_def zone_decode_nat
      hammer_is_index_direct_xlated_def HAMMER_ZONE_RAW_BUFFER_INDEX_def)

text \<open>A caller's buffer variable: none, or a buffer it holds a reference to.\<close>

definition holds :: "nat set \<Rightarrow> hammer_state \<Rightarrow> nat option \<Rightarrow> bool" where
  "holds D s bp \<longleftrightarrow> (\<forall>b. bp = Some b \<longrightarrow> (\<exists>x. buffers s b = Some x \<and> 0 < cache_refs x \<and>
     (b \<in> D \<longrightarrow> 1 < cache_refs x)))"

definition ref1 :: "nat option \<Rightarrow> nat \<Rightarrow> int" where
  "ref1 bp b = (if bp = Some b then 1 else 0)"

text \<open>
  \<open>get_buffer_data\<close> over any \<open>get_buffer\<close> that returns a reference to the buffer of \<open>z\<close>: the pointer
  addresses the place of the offset, the caller's reference moves to the buffer it returns, and the
  media stays as it was.
\<close>

lemma get_buffer_data_core:
  assumes g: "good D s" and z: "hammer_is_zone_raw_buffer z" and az: "unat a mod 16384 = unat z mod 16384"
    and cls: "bp \<noteq> None \<Longrightarrow> \<not> hammer_is_zone_undo a \<and> hammer_is_zone_direct_xlated a \<and>
      HAMMER_OFF_LONG_ENCODE a = HAMMER_OFF_LONG_ENCODE z"
    and h: "holds D s bp"
    and gb: "\<And>t. good D t \<Longrightarrow> keeps (\<lambda>b'. - ref1 bp b') s t \<Longrightarrow> wp (get_buffer lookup a 0)
      (\<lambda>r u. \<exists>b x. r = Some b \<and> good D u \<and> keeps (\<lambda>b'. if b' = b then 1 else 0) t u \<and>
        buffers u b = Some x \<and> buf_zone2_offset x = z AND NOT HAMMER_BUFMASK64 \<and> 0 < cache_refs x) t"
  shows "wp (get_buffer_data lookup a bp 0) (\<lambda>(r, bp') t. \<exists>b x. r = Some (b, unat a mod 16384) \<and>
      bp' = Some b \<and> good D t \<and> keeps (\<lambda>b'. ref1 bp' b' - ref1 bp b') s t \<and>
      buffers t b = Some x \<and> buf_zone2_offset x = z AND NOT HAMMER_BUFMASK64 \<and> 0 < cache_refs x) s"
    (is "wp _ ?Q s")
proof -
  let ?z = "z AND NOT HAMMER_BUFMASK64"
  have off: "unat (a AND HAMMER_BUFMASK64) = unat a mod 16384" by (simp add: bufmask_nat)
  have fetch: "wp (get_buffer lookup a 0) (\<lambda>r. ?Q (map_option (\<lambda>b. (b, unat a mod 16384)) r, r)) t"
    if t: "good D t" "keeps (\<lambda>b'. - ref1 bp b') s t" for t
    using gb [OF t]
  proof (rule wp_mono)
    fix r u assume "\<exists>b x. r = Some b \<and> good D u \<and> keeps (\<lambda>b'. if b' = b then 1 else 0) t u \<and>
      buffers u b = Some x \<and> buf_zone2_offset x = ?z \<and> 0 < cache_refs x"
    then obtain b x where r: "r = Some b" "good D u" "keeps (\<lambda>b'. if b' = b then 1 else 0) t u"
      "buffers u b = Some x" "buf_zone2_offset x = ?z" "0 < cache_refs x" by blast
    have "(\<lambda>b'. - ref1 bp b' + (if b' = b then 1 else 0)) = (\<lambda>b'. ref1 (Some b) b' - ref1 bp b')"
      by (auto simp: ref1_def)
    with keeps_trans [OF t(2) r(3)] r show "?Q (map_option (\<lambda>b. (b, unat a mod 16384)) r, r) u" by auto
  qed
  show ?thesis
  proof (cases bp)
    case None
    have "keeps (\<lambda>b'. - ref1 bp b') s s" using keeps_refl [of s] None by (simp add: ref1_def)
    from fetch [OF g this] show ?thesis
      using None by (simp add: get_buffer_data_def wp_simps off)
  next
    case (Some b)
    with h obtain x where x: "buffers s b = Some x" "0 < cache_refs x" "b \<in> D \<longrightarrow> 1 < cache_refs x"
      by (auto simp: holds_def)
    note X = buf_okD [OF wfsD(4) [OF goodD(1) [OF g]] x(1)]
    have c: "\<not> hammer_is_zone_undo a" "hammer_is_zone_direct_xlated a"
      "HAMMER_OFF_LONG_ENCODE a = HAMMER_OFF_LONG_ENCODE z" using cls Some by simp_all
    show ?thesis
    proof (cases "?z = buf_zone2_offset x")
      case True
      have "wp (hammer_cache_used b) (\<lambda>_. ?Q (Some (b, unat a mod 16384), Some b)) s"
        by (rule wp_mono [OF wp_cache_used [OF goodD(1) [OF g]]])
          (use g x True Some in \<open>auto simp: good_def ref1_def\<close>)
      then show ?thesis
        using Some x True c same_block [OF z X(3,4)]
        by (simp add: get_buffer_data_def wp_simps off)
    next
      case False
      have k: "(\<lambda>b'. if b' = b then - 1 else 0) = (\<lambda>b'. - ref1 bp b')" using Some by (auto simp: ref1_def)
      have "wp (rel_buffer (Some b)) (\<lambda>_. wp (get_buffer lookup a 0)
          (\<lambda>r. ?Q (map_option (\<lambda>b. (b, unat a mod 16384)) r, r))) s"
        by (rule wp_mono [OF rel_buffer_wp [OF g x]]) (use fetch k in auto)
      then show ?thesis
        using Some x False c same_block [OF z X(3,4)]
        by (simp add: get_buffer_data_def wp_simps off)
    qed
  qed
qed

text \<open>\<open>get_buffer_data\<close> on a raw offset.\<close>

lemma get_buffer_data_wp:
  assumes g: "good D s" and a: "hammer_is_zone_raw_buffer a"
    and p: "place s (a AND NOT HAMMER_BUFMASK64) vi" and h: "holds D s bp"
  shows "wp (get_buffer_data lookup a bp 0) (\<lambda>(r, bp') t. \<exists>b x. r = Some (b, unat a mod 16384) \<and>
      bp' = Some b \<and> good D t \<and> keeps (\<lambda>b'. ref1 bp' b' - ref1 bp b') s t \<and>
      buffers t b = Some x \<and> buf_zone2_offset x = a AND NOT HAMMER_BUFMASK64 \<and> 0 < cache_refs x) s"
proof (rule get_buffer_data_core [OF g a refl _ h])
  fix t assume t: "good D t" "keeps (\<lambda>b'. - ref1 bp b') s t"
  have "place t (a AND NOT HAMMER_BUFMASK64) vi"
    using place_keeps [OF p goodD(1) [OF g] goodD(1) [OF t(1)]] t(2) by (simp add: keeps_def)
  from get_buffer_wp [OF t(1) a this]
  show "wp (get_buffer lookup a 0) (\<lambda>r u. \<exists>b x. r = Some b \<and> good D u \<and>
      keeps (\<lambda>b'. if b' = b then 1 else 0) t u \<and> buffers u b = Some x \<and>
      buf_zone2_offset x = a AND NOT HAMMER_BUFMASK64 \<and> 0 < cache_refs x) t" .
qed (use raw_zone_class [OF a] in simp_all)

end
