(* ===== verification/Blockmap.thy ===== *)
theory Blockmap
  imports Buffer_Access
begin

text \<open>
  The allocator and the translation of \<open>sbin/hammer/blockmap.c\<close>.  The translation of a zone offset
  reads the freemap through \<open>get_buffer_data\<close>, which translates the offsets it is given with the
  translation again: \<open>blockmap_lookup\<close> takes the depth of that recursion, and \<open>Stack_exhausted\<close> is
  its value when the depth is used up.
\<close>

section \<open>Freemap entries behind a pointer\<close>

definition load_layer1 :: "ptr \<Rightarrow> hammer_blockmap_layer1 hio" where
  "load_layer1 p = bindS (load p 32) (\<lambda>bs. returnS (layer1_of_bytes bs))"

definition upd_layer1 :: "ptr \<Rightarrow> (hammer_blockmap_layer1 \<Rightarrow> hammer_blockmap_layer1) \<Rightarrow> unit hio" where
  "upd_layer1 p f = bindS (load_layer1 p) (\<lambda>l. store p (layer1_bytes (f l)))"

definition load_layer2 :: "ptr \<Rightarrow> hammer_blockmap_layer2 hio" where
  "load_layer2 p = bindS (load p 16) (\<lambda>bs. returnS (layer2_of_bytes bs))"

definition upd_layer2 :: "ptr \<Rightarrow> (hammer_blockmap_layer2 \<Rightarrow> hammer_blockmap_layer2) \<Rightarrow> unit hio" where
  "upd_layer2 p f = bindS (load_layer2 p) (\<lambda>l. store p (layer2_bytes (f l)))"

definition layer1_zero :: hammer_blockmap_layer1 where
  "layer1_zero = layer1_of_bytes (replicate 32 0)"

definition layer2_zero :: hammer_blockmap_layer2 where
  "layer2_zero = layer2_of_bytes (replicate 16 0)"

definition set_modified :: "nat option \<Rightarrow> unit hio" where
  "set_modified bp =
     bindS (nonnull bp ''buffer'') (\<lambda>b. upd_buf b (\<lambda>x. x\<lparr>cache_modified := True\<rparr>))"

definition vol_blockmap :: "volume_info \<Rightarrow> int \<Rightarrow> hammer_blockmap" where
  "vol_blockmap v zone = vol0_blockmap (v_ondisk v) ! nat zone"

definition upd_ondisk :: "nat \<Rightarrow> (hammer_volume_ondisk \<Rightarrow> hammer_volume_ondisk) \<Rightarrow> unit hio" where
  "upd_ondisk vi f = upd_vol vi (\<lambda>v. v\<lparr>v_ondisk := f (v_ondisk v)\<rparr>)"

definition upd_blockmap :: "nat \<Rightarrow> int \<Rightarrow> (hammer_blockmap \<Rightarrow> hammer_blockmap) \<Rightarrow> unit hio" where
  "upd_blockmap vi zone f = upd_ondisk vi (\<lambda>od.
     od\<lparr>vol0_blockmap := (vol0_blockmap od)[nat zone := f (vol0_blockmap od ! nat zone)]\<rparr>)"

section \<open>Bootstrap allocation\<close>

definition assert_volume_offset :: "nat \<Rightarrow> unit hio" where
  "assert_volume_offset vi =
     bindS (get_vol vi) (\<lambda>volume.
     bindS (assertS (hammer_is_zone_raw_buffer (v_free_off volume)) ''vol_free_off'') (\<lambda>_.
     bindS (assertS (hammer_is_zone_raw_buffer (v_free_end volume)) ''vol_free_end'') (\<lambda>_.
     whenS (v_free_off volume \<ge> v_free_end volume)
       (stopS (Exit_with 1 ''Ran out of room, filesystem too small'')))))"

definition bootstrap_bigblock :: "nat \<Rightarrow> u64 hio" where
  "bootstrap_bigblock vi =
     bindS (assert_volume_offset vi) (\<lambda>_.
     bindS (get_vol vi) (\<lambda>volume.
     bindS (upd_vol vi (\<lambda>v. v\<lparr>v_free_off := v_free_off v + HAMMER_BIGBLOCK_SIZE64\<rparr>)) (\<lambda>_.
     returnS (v_free_off volume))))"

section \<open>Translation\<close>

text \<open>
  The result is the translated offset, the error code, and the contents of \<open>save_layer1\<close> and
  \<open>save_layer2\<close>.
\<close>

type_synonym gbd = "u64 \<Rightarrow> nat option \<Rightarrow> int \<Rightarrow> (ptr option \<times> nat option) hio"

type_synonym lookup_result = "u64 \<times> int \<times> hammer_blockmap_layer1 \<times> hammer_blockmap_layer2"

definition lookup_done :: "nat option \<Rightarrow> nat option \<Rightarrow> lookup_result \<Rightarrow> lookup_result hio" where
  "lookup_done buffer1 buffer2 r =
     bindS (rel_buffer buffer1) (\<lambda>_.
     bindS (rel_buffer buffer2) (\<lambda>_.
     returnS r))"

text \<open>The dive through both layers, from the freemap of the header.\<close>

definition blockmap_dive :: "gbd \<Rightarrow> hammer_blockmap \<Rightarrow> int \<Rightarrow> u64 \<Rightarrow> lookup_result hio" where
  "blockmap_dive gbd freemap zone result_offset =
     bindS (gbd (bm_phys_offset freemap + HAMMER_BLOCKMAP_LAYER1_OFFSET result_offset) None 0)
       (\<lambda>(p1, buffer1).
     case p1 of
       None \<Rightarrow> lookup_done buffer1 None (result_offset, - 5, layer1_zero, layer2_zero)
     | Some p1 \<Rightarrow>
         bindS (load_layer1 p1) (\<lambda>layer1.
         if l1_phys_offset layer1 = HAMMER_BLOCKMAP_UNAVAIL
         then lookup_done buffer1 None (result_offset, - 6, layer1_zero, layer2_zero)
         else
           bindS (gbd (l1_phys_offset layer1 + HAMMER_BLOCKMAP_LAYER2_OFFSET result_offset) None 0)
             (\<lambda>(p2, buffer2).
           case p2 of
             None \<Rightarrow> lookup_done buffer1 buffer2 (result_offset, - 7, layer1, layer2_zero)
           | Some p2 \<Rightarrow>
               bindS (load_layer2 p2) (\<lambda>layer2.
               if uint (l2_zone layer2) \<noteq> zone
               then lookup_done buffer1 buffer2 (result_offset, - 8, layer1, layer2_zero)
               else lookup_done buffer1 buffer2 (result_offset, 0, layer1, layer2)))))"

definition blockmap_lookup_save :: "gbd \<Rightarrow> u64 \<Rightarrow> lookup_result hio" where
  "blockmap_lookup_save gbd zone_offset =
     (let zone = HAMMER_ZONE_DECODE zone_offset in
      if zone \<le> HAMMER_ZONE_RAW_VOLUME_INDEX
      then returnS (HAMMER_OFF_BAD, - 1, layer1_zero, layer2_zero)
      else if zone \<ge> HAMMER_MAX_ZONES
      then returnS (HAMMER_OFF_BAD, - 2, layer1_zero, layer2_zero)
      else
        bindS (getS get_root_volume) (\<lambda>root.
        bindS (nonnull root ''root_volume'') (\<lambda>vi.
        bindS (get_vol vi) (\<lambda>root_volume.
        let ondisk = v_ondisk root_volume;
            blockmap = vol_blockmap root_volume zone;
            freemap = vol_blockmap root_volume HAMMER_ZONE_FREEMAP_INDEX in
        if \<not> hammer_is_index_record zone \<and> zone = HAMMER_ZONE_UNDO_INDEX \<and>
           zone_offset \<ge> bm_alloc_offset blockmap
        then returnS (HAMMER_OFF_BAD, - 3, layer1_zero, layer2_zero)
        else
          bindS (if hammer_is_index_record zone then returnS (hammer_xlate_to_zone2 zone_offset)
                 else if zone = HAMMER_ZONE_UNDO_INDEX
                 then liftS (hammer_xlate_to_undo ondisk zone_offset)
                 else returnS zone_offset) (\<lambda>result_offset.
          if hammer_is_index_record zone \<and>
             HAMMER_ZONE_DECODE (bm_alloc_offset blockmap) \<noteq> zone
          then returnS (result_offset, - 4, layer1_zero, layer2_zero)
          else blockmap_dive gbd freemap zone result_offset)))))"

fun blockmap_lookup :: "nat \<Rightarrow> u64 \<Rightarrow> (u64 \<times> int) hio" where
  "blockmap_lookup 0 zone_offset = stopS Stack_exhausted"
| "blockmap_lookup (Suc n) zone_offset =
     bindS (blockmap_lookup_save (get_buffer_data (blockmap_lookup n)) zone_offset)
       (\<lambda>(result_offset, error, _, _). returnS (result_offset, error))"

text \<open>\<open>get_buffer_data\<close> as the rest of the program calls it.\<close>

definition buffer_data :: "nat \<Rightarrow> gbd" where
  "buffer_data depth = get_buffer_data (blockmap_lookup depth)"

section \<open>Allocation\<close>

definition alloc_undo_bigblock :: "nat \<Rightarrow> nat \<Rightarrow> u64 hio" where
  "alloc_undo_bigblock depth vi =
     bindS (get_vol vi) (\<lambda>volume.
     bindS (assertS (v_vol_no volume = HAMMER_ROOT_VOLNO) ''vol_no == HAMMER_ROOT_VOLNO'') (\<lambda>_.
     bindS (bootstrap_bigblock vi) (\<lambda>result_offset.
     bindS (getS HammerVersion) (\<lambda>version.
     let freemap = vol_blockmap volume HAMMER_ZONE_FREEMAP_INDEX in
     bindS (buffer_data depth
         (bm_phys_offset freemap + HAMMER_BLOCKMAP_LAYER1_OFFSET result_offset) None 0)
       (\<lambda>(p1, buffer1).
     bindS (nonnull p1 ''layer1'') (\<lambda>p1.
     bindS (load_layer1 p1) (\<lambda>layer1.
     bindS (assertS (l1_phys_offset layer1 \<noteq> HAMMER_BLOCKMAP_UNAVAIL) ''layer1->phys_offset'') (\<lambda>_.
     bindS (upd_layer1 p1 (\<lambda>l.
         hammer_crc_set_layer1 version (l\<lparr>l1_blocks_free := l1_blocks_free l - 1\<rparr>))) (\<lambda>_.
     bindS (set_modified buffer1) (\<lambda>_.
     bindS (load_layer1 p1) (\<lambda>layer1.
     bindS (buffer_data depth
         (l1_phys_offset layer1 + HAMMER_BLOCKMAP_LAYER2_OFFSET result_offset) None 0)
       (\<lambda>(p2, buffer2).
     bindS (nonnull p2 ''layer2'') (\<lambda>p2.
     bindS (load_layer2 p2) (\<lambda>layer2.
     bindS (assertS (l2_zone layer2 = 0) ''layer2->zone == 0'') (\<lambda>_.
     bindS (upd_layer2 p2 (\<lambda>l.
         hammer_crc_set_layer2 version (l\<lparr>l2_zone := word_of_int HAMMER_ZONE_UNDO_INDEX,
           l2_append_off := word_of_int HAMMER_BIGBLOCK_SIZE, l2_bytes_free := 0\<rparr>))) (\<lambda>_.
     bindS (set_modified buffer2) (\<lambda>_.
     bindS (upd_ondisk vi (\<lambda>od.
         od\<lparr>vol0_stat_freebigblocks := vol0_stat_freebigblocks od - 1\<rparr>)) (\<lambda>_.
     bindS (rel_buffer buffer1) (\<lambda>_.
     bindS (rel_buffer buffer2) (\<lambda>_.
     returnS result_offset))))))))))))))))))))"

definition HAMMER_DATA_DOALIGN :: "int \<Rightarrow> int" where
  "HAMMER_DATA_DOALIGN offset = (offset + 15) AND NOT 15"

text \<open>
  One turn of the loop at the label \<open>again\<close>: the skip over a buffer boundary, the dive, and either
  the allocation or the step to the next big-block.
\<close>

fun alloc_blockmap_again ::
    "nat \<Rightarrow> nat \<Rightarrow> nat \<Rightarrow> int \<Rightarrow> int \<Rightarrow> nat option \<Rightarrow> nat option \<Rightarrow>
       (u64 \<times> nat option \<times> nat option) hio" where
  "alloc_blockmap_again 0 depth vi zone bytes buffer1 buffer2 = stopS (Diverges ''alloc_blockmap'')"
| "alloc_blockmap_again (Suc n) depth vi zone bytes buffer1 buffer2 =
     bindS (get_vol vi) (\<lambda>volume.
     bindS (getS HammerVersion) (\<lambda>version.
     let freemap = vol_blockmap volume HAMMER_ZONE_FREEMAP_INDEX;
         next_offset = bm_next_offset (vol_blockmap volume zone) in
     bindS (assertS (next_offset \<noteq> HAMMER_ZONE_ENCODE (zone + 1) 0) ''next_offset'') (\<lambda>_.
     let tmp_offset = next_offset + word_of_int bytes - 1;
         next_offset = (if (next_offset XOR tmp_offset) AND NOT HAMMER_BUFMASK64 \<noteq> 0
                        then tmp_offset AND NOT HAMMER_BUFMASK64 else next_offset) in
     bindS (upd_blockmap vi zone (\<lambda>bm. bm\<lparr>bm_next_offset := next_offset\<rparr>)) (\<lambda>_.
     bindS (buffer_data depth
         (bm_phys_offset freemap + HAMMER_BLOCKMAP_LAYER1_OFFSET next_offset) buffer1 0)
       (\<lambda>(p1, buffer1).
     bindS (nonnull p1 ''layer1'') (\<lambda>p1.
     bindS (load_layer1 p1) (\<lambda>layer1.
     bindS (assertS (l1_phys_offset layer1 \<noteq> HAMMER_BLOCKMAP_UNAVAIL) ''layer1->phys_offset'') (\<lambda>_.
     bindS (assertS (\<not> (next_offset AND HAMMER_BIGBLOCK_MASK64 = 0 \<and> l1_blocks_free layer1 = 0))
         ''layer1->blocks_free'') (\<lambda>_.
     bindS (buffer_data depth
         (l1_phys_offset layer1 + HAMMER_BLOCKMAP_LAYER2_OFFSET next_offset) buffer2 0)
       (\<lambda>(p2, buffer2).
     bindS (nonnull p2 ''layer2'') (\<lambda>p2.
     bindS (load_layer2 p2) (\<lambda>layer2.
     if uint (l2_zone layer2) = HAMMER_ZONE_UNAVAIL_INDEX
     then stopS (Exit_with 1 ''alloc_blockmap: layer2 ran out of space!'')
     else
       bindS (whenS (l2_zone layer2 = 0)
           (bindS (upd_layer1 p1 (\<lambda>l.
               hammer_crc_set_layer1 version (l\<lparr>l1_blocks_free := l1_blocks_free l - 1\<rparr>))) (\<lambda>_.
            bindS (upd_layer2 p2 (\<lambda>l. l\<lparr>l2_zone := word_of_int zone\<rparr>)) (\<lambda>_.
            bindS (upd_ondisk vi (\<lambda>od.
               od\<lparr>vol0_stat_freebigblocks := vol0_stat_freebigblocks od - 1\<rparr>)) (\<lambda>_.
            bindS (load_layer2 p2) (\<lambda>layer2.
            bindS (assertS (sint (l2_bytes_free layer2) = HAMMER_BIGBLOCK_SIZE) ''bytes_free'') (\<lambda>_.
            assertS (l2_append_off layer2 = 0) ''append_off == 0''))))))) (\<lambda>_.
       bindS (load_layer2 p2) (\<lambda>layer2.
       if uint (l2_zone layer2) \<noteq> zone then
         bindS (upd_blockmap vi zone (\<lambda>bm.
             bm\<lparr>bm_next_offset := HAMMER_ZONE_LAYER2_NEXT_OFFSET next_offset\<rparr>)) (\<lambda>_.
         alloc_blockmap_again n depth vi zone bytes buffer1 buffer2)
       else
         bindS (assertS (unat (l2_append_off layer2) = unat (next_offset AND HAMMER_BIGBLOCK_MASK64))
             ''append_off == next_offset'') (\<lambda>_.
         bindS (upd_blockmap vi zone (\<lambda>bm.
             bm\<lparr>bm_next_offset := next_offset + word_of_int bytes\<rparr>)) (\<lambda>_.
         bindS (upd_layer2 p2 (\<lambda>l.
             hammer_crc_set_layer2 version (l\<lparr>
               l2_bytes_free := l2_bytes_free l - word_of_int bytes,
               l2_append_off :=
                 ucast ((next_offset + word_of_int bytes) AND HAMMER_BIGBLOCK_MASK64)\<rparr>))) (\<lambda>_.
         returnS (next_offset, buffer1, buffer2))))))))))))))))))"

text \<open>
  A turn advances the allocation iterator to the next big-block; the fuel is the number of
  big-blocks up to the end of the zone.
\<close>

definition alloc_blockmap ::
    "nat \<Rightarrow> int \<Rightarrow> int \<Rightarrow> nat option \<Rightarrow> (ptr option \<times> u64 \<times> nat option) hio" where
  "alloc_blockmap depth zone bytes bufferp =
     bindS (getS get_root_volume) (\<lambda>root.
     bindS (nonnull root ''root volume'') (\<lambda>vi.
     bindS (get_vol vi) (\<lambda>volume.
     let next_offset = bm_next_offset (vol_blockmap volume zone) in
     bindS (assertS (HAMMER_ZONE_DECODE next_offset = zone) ''zone'') (\<lambda>_.
     let bytes = HAMMER_DATA_DOALIGN bytes in
     bindS (assertS (bytes > 0 \<and> bytes \<le> HAMMER_BUFSIZE) ''bytes'') (\<lambda>_.
     bindS (assertS (hammer_is_index_record zone) ''hammer_is_index_record(zone)'') (\<lambda>_.
     bindS (alloc_blockmap_again
         (unat (HAMMER_ZONE_ENCODE (zone + 1) 0 - next_offset) div 2 ^ 23 + 2)
         depth vi zone bytes None None) (\<lambda>(result_offset, buffer1, buffer2).
     bindS (buffer_data depth result_offset bufferp 0) (\<lambda>(ptr, bufferp).
     bindS (set_modified bufferp) (\<lambda>_.
     bindS (set_modified buffer1) (\<lambda>_.
     bindS (set_modified buffer2) (\<lambda>_.
     bindS (rel_buffer buffer1) (\<lambda>_.
     bindS (rel_buffer buffer2) (\<lambda>_.
     returnS (ptr, result_offset, bufferp))))))))))))))"

end
