(* ===== verification/Blockmap_Lookup.thy ===== *)
theory Blockmap_Lookup
  imports Blockmap
begin

text \<open>
  The translation of a zone offset as a function of the media: with a usable freemap the dive through
  the cached layers returns the entries the media holds, with any translation passed down and at
  every depth above zero.
\<close>

section \<open>Big-blocks on the media\<close>

definition bigblock_in :: "hammer_state \<Rightarrow> u64 \<Rightarrow> nat \<Rightarrow> bool" where
  "bigblock_in s F vi \<longleftrightarrow> get_volume s (HAMMER_VOL_DECODE F) = Some vi \<and>
     hammer_is_zone_raw_buffer F \<and> 2 ^ 23 dvd unat F \<and> unat F mod 2 ^ 52 + 2 ^ 23 \<le> vol_area s vi"

definition media_bytes :: "hammer_state \<Rightarrow> nat \<Rightarrow> nat \<Rightarrow> nat \<Rightarrow> u8 list" where
  "media_bytes s vi off n = map (media s vi) [off..<off + n]"

lemma high_digits_add:
  fixes m k n :: nat
  assumes "2 ^ n dvd m" and "k < 2 ^ n" and "n \<le> j"
  shows "(m + k) div 2 ^ j = m div 2 ^ j" and "(m + k) mod 2 ^ j = m mod 2 ^ j + k"
proof -
  obtain q where q: "m = 2 ^ n * q" using assms(1) by blast
  have e: "(2 :: nat) ^ j = 2 ^ n * 2 ^ (j - n)" using assms(3) by (simp flip: power_add)
  have "(m + k) div 2 ^ n = q" using assms(2) by (simp add: q)
  then show d: "(m + k) div 2 ^ j = m div 2 ^ j" unfolding e div_mult2_eq by (simp add: q)
  have "(m + k) mod 2 ^ j = (m + k) - (m + k) div 2 ^ j * 2 ^ j" by (simp add: minus_div_mult_eq_mod)
  also have "\<dots> = m - m div 2 ^ j * 2 ^ j + k" unfolding d by (simp add: div_times_less_eq_dividend)
  finally show "(m + k) mod 2 ^ j = m mod 2 ^ j + k" by (simp add: minus_div_mult_eq_mod)
qed

lemma bigblock_addr:
  assumes "2 ^ 23 dvd unat F" and "unat k < 2 ^ 23"
  shows "unat (F + k) = unat F + unat k"
    and "hammer_is_zone_raw_buffer (F + k) = hammer_is_zone_raw_buffer F"
    and "HAMMER_VOL_DECODE (F + k) = HAMMER_VOL_DECODE F"
    and "unat (F + k) mod 2 ^ 52 = unat F mod 2 ^ 52 + unat k"
proof -
  have top: "unat F div 2 ^ 64 = 0" using unsigned_less [of F, where ?'a = nat] by simp
  have "(unat F + unat k) div 2 ^ 64 = 0"
    using high_digits_add(1) [OF assms, of 64] top by simp
  then have "unat F + unat k < 2 ^ 64" by (simp add: div_eq_0_iff)
  then show u: "unat (F + k) = unat F + unat k"
    using unat_add_lem [of F k] by simp
  show "hammer_is_zone_raw_buffer (F + k) = hammer_is_zone_raw_buffer F"
    unfolding raw_buffer_nat u using high_digits_add(1) [OF assms, of 60] by simp
  show "HAMMER_VOL_DECODE (F + k) = HAMMER_VOL_DECODE F"
    unfolding vol_decode_nat u using high_digits_add(1) [OF assms, of 52] by simp
  show "unat (F + k) mod 2 ^ 52 = unat F mod 2 ^ 52 + unat k"
    unfolding u using high_digits_add(2) [OF assms, of 52] by simp
qed

lemma base_digits:
  "HAMMER_VOL_DECODE (a AND NOT HAMMER_BUFMASK64) = HAMMER_VOL_DECODE a"
  "unat (a AND NOT HAMMER_BUFMASK64) mod 2 ^ 52 = unat a mod 2 ^ 52 div 16384 * 16384"
proof -
  let ?m = "unat a div 2 ^ 14 * 2 ^ 14" and ?k = "unat a mod 2 ^ 14"
  have k: "?k < 2 ^ 14" and dvd: "(2 :: nat) ^ 14 dvd ?m" by simp_all
  have sum: "unat a = ?m + ?k" by simp
  have "unat a div 2 ^ 52 = ?m div 2 ^ 52" "unat a mod 2 ^ 52 = ?m mod 2 ^ 52 + ?k"
    using high_digits_add [OF dvd k, of 52] by (simp_all only: sum [symmetric])
  note d = this
  show "HAMMER_VOL_DECODE (a AND NOT HAMMER_BUFMASK64) = HAMMER_VOL_DECODE a"
    unfolding vol_decode_nat buf_base_nat d(1) ..
  have "(2 :: nat) ^ 14 dvd 2 ^ 52" by (rule le_imp_power_dvd) simp
  with dvd have "2 ^ 14 dvd ?m mod 2 ^ 52" by (simp only: dvd_mod_iff)
  then obtain q where q: "?m mod 2 ^ 52 = 2 ^ 14 * q" by blast
  have "(2 ^ 14 * q + ?k) div 2 ^ 14 = q" using k by simp
  then show "unat (a AND NOT HAMMER_BUFMASK64) mod 2 ^ 52 = unat a mod 2 ^ 52 div 16384 * 16384"
    unfolding buf_base_nat d(2) q by (simp add: mult.commute)
qed

lemma place_bigblock:
  assumes "bigblock_in s F vi" and "unat k < 2 ^ 23"
  shows "hammer_is_zone_raw_buffer (F + k)" and "place s ((F + k) AND NOT HAMMER_BUFMASK64) vi"
    and "unat (F + k) mod 2 ^ 52 = unat F mod 2 ^ 52 + unat k"
    and "unat (F + k) mod 16384 = unat k mod 16384"
proof -
  have F: "get_volume s (HAMMER_VOL_DECODE F) = Some vi" "hammer_is_zone_raw_buffer F"
    "2 ^ 23 dvd unat F" "unat F mod 2 ^ 52 + 2 ^ 23 \<le> vol_area s vi"
    using assms(1) by (simp_all add: bigblock_in_def)
  note a = bigblock_addr [OF F(3) assms(2)]
  show r: "hammer_is_zone_raw_buffer (F + k)" using a(2) F(2) by simp
  show m: "unat (F + k) mod 2 ^ 52 = unat F mod 2 ^ 52 + unat k" by (rule a(4))
  obtain q where q: "unat F = 2 ^ 23 * q" using F(3) by blast
  show "unat (F + k) mod 16384 = unat k mod 16384"
  proof -
    have "unat F + unat k = unat k + 16384 * (512 * q)" by (simp add: q)
    then show ?thesis unfolding a(1) by (simp only: mod_mult_self2)
  qed
  have "unat F mod 2 ^ 52 + unat k < unat F mod 2 ^ 52 + 2 ^ 23" using assms(2) by simp
  then have "(unat F mod 2 ^ 52 + unat k) div 16384 * 16384 + 16384 \<le> unat F mod 2 ^ 52 + 2 ^ 23"
  proof -
    have "(2 :: nat) ^ 23 dvd 2 ^ 52" by (rule le_imp_power_dvd) simp
    with F(3) have "2 ^ 23 dvd unat F mod 2 ^ 52" by (simp only: dvd_mod_iff)
    then obtain p where p: "unat F mod 2 ^ 52 = 2 ^ 23 * p" by blast
    have k: "unat k div 16384 < 512" using assms(2) by simp
    have "2 ^ 23 * p + unat k = unat k + 16384 * (512 * p)" by simp
    then have "(2 ^ 23 * p + unat k) div 16384 = 512 * p + unat k div 16384"
      by (simp only: div_mult_self2 numeral_eq_iff zero_neq_numeral not_False_eq_True add.commute)
    with k show ?thesis unfolding p by simp
  qed
  then show "place s ((F + k) AND NOT HAMMER_BUFMASK64) vi"
    unfolding place_def base_digits m a(3) using F base_of_raw [OF r] by simp
qed

text \<open>The content of a buffer is the media of its place.\<close>

lemma buffer_media:
  assumes g: "wfs D s" and x: "buffers s b = Some x" "buf_zone2_offset x = a AND NOT HAMMER_BUFMASK64"
    and n: "unat a mod 16384 + n \<le> 16384"
  shows "read_bytes (buf_ondisk x) (unat a mod 16384) n =
    media_bytes s (buf_volume x) (unat a mod 2 ^ 52) n"
proof (rule nth_equalityI)
  note G = wfsD [OF g]
  have sh: "buf_short x = unat a mod 2 ^ 52 div 16384 * 16384"
    unfolding buf_short_def x(2) by (rule base_digits)
  have m: "unat a mod 2 ^ 52 mod 16384 = unat a mod 16384"
    using mod_mod_cancel [of 16384 "2 ^ 52" "unat a"] by (simp add: le_imp_power_dvd [of 14 52 2, simplified])
  fix i assume "i < length (read_bytes (buf_ondisk x) (unat a mod 16384) n)"
  then have i: "i < n" by simp
  let ?q = "unat a mod 2 ^ 52"
  have "?q mod 16384 + i < 16384" using n i m by simp
  moreover have "?q + i = ?q div 16384 * 16384 + (?q mod 16384 + i)" by simp
  ultimately have dm: "(?q + i) div 16384 = ?q div 16384" "(?q + i) mod 16384 = ?q mod 16384 + i"
    using nat_digit [of "?q mod 16384 + i" 16384 "?q div 16384"] by (simp_all only:)
  have "media s (buf_volume x) (?q + i) = buf_ondisk x ((?q + i) mod 16384)"
    by (rule media_cached [OF G(1,4,3) x(1) refl]) (simp only: sh dm)
  then show "read_bytes (buf_ondisk x) (unat a mod 16384) n ! i = media_bytes s (buf_volume x) ?q n ! i"
    using i dm m by (simp add: media_bytes_def)
qed (simp add: media_bytes_def)

lemma buf_volume_place:
  assumes "wfs D s" and "buffers s b = Some x" and "place s (buf_zone2_offset x) vi"
  shows "buf_volume x = vi"
  using buf_okD [OF wfsD(4) [OF assms(1)] assms(2)] assms(3) get_volume_Some
    get_volume_index [OF wfsD(1) [OF assms(1)]] by (metis option.inject place_def)

lemma media_bytes_keeps:
  assumes "keeps R s t" and "vi < length (VolList s)"
  shows "media_bytes t vi off n = media_bytes s vi off n"
  using assms by (simp add: keeps_def media_bytes_def)

text \<open>
  What the translation relies on: an access to a raw offset returns the pointer into a buffer of
  that place that the caller now references, and neither the media nor the other references change.
\<close>

locale buffer_reader =
  fixes gbd :: "u64 \<Rightarrow> nat option \<Rightarrow> int \<Rightarrow> (ptr option \<times> nat option) hio"
  assumes gbd_raw: "\<And>D s a vi bp. good D s \<Longrightarrow> hammer_is_zone_raw_buffer a \<Longrightarrow>
    place s (a AND NOT HAMMER_BUFMASK64) vi \<Longrightarrow> holds D s bp \<Longrightarrow>
    wp (gbd a bp 0) (\<lambda>(r, bp') t. \<exists>b x. r = Some (b, unat a mod 16384) \<and>
      bp' = Some b \<and> good D t \<and> keeps (\<lambda>b'. ref1 bp' b' - ref1 bp b') s t \<and>
      buffers t b = Some x \<and> buf_zone2_offset x = a AND NOT HAMMER_BUFMASK64 \<and> 0 < cache_refs x) s"
begin

text \<open>Reading an entry of a big-block.\<close>

lemma gbd_bigblock_wp:
  assumes g: "good D s" and F: "bigblock_in s F vi" and k: "unat k < 2 ^ 23" and h: "holds D s bp"
    and n: "unat k mod 16384 + n \<le> 16384"
  shows "wp (gbd (F + k) bp 0) (\<lambda>(r, bp') t. \<exists>b x. r = Some (b, unat k mod 16384) \<and>
      bp' = Some b \<and> good D t \<and> keeps (\<lambda>b'. ref1 bp' b' - ref1 bp b') s t \<and>
      buffers t b = Some x \<and> 0 < cache_refs x \<and> buf_volume x = vi \<and>
      buf_zone2_offset x = (F + k) AND NOT HAMMER_BUFMASK64 \<and>
      read_bytes (buf_ondisk x) (unat k mod 16384) n = media_bytes s vi (unat F mod 2 ^ 52 + unat k) n) s"
proof -
  note P = place_bigblock [OF F k]
  have vi: "vi < length (VolList s)" using F get_volume_Some(1) by (auto simp: bigblock_in_def)
  show ?thesis
  proof (rule wp_mono [OF gbd_raw [OF g P(1,2) h]])
    fix r t assume "(case r of (r, bp') \<Rightarrow> \<lambda>t. \<exists>b x. r = Some (b, unat (F + k) mod 16384) \<and> bp' = Some b \<and>
      good D t \<and> keeps (\<lambda>b'. ref1 bp' b' - ref1 bp b') s t \<and> buffers t b = Some x \<and>
      buf_zone2_offset x = (F + k) AND NOT HAMMER_BUFMASK64 \<and> 0 < cache_refs x) t"
    then obtain b x where r: "r = (Some (b, unat k mod 16384), Some b)" "good D t"
      "keeps (\<lambda>b'. ref1 (Some b) b' - ref1 bp b') s t" "buffers t b = Some x"
      "buf_zone2_offset x = (F + k) AND NOT HAMMER_BUFMASK64" "0 < cache_refs x"
      by (auto simp: P(4) split: prod.splits)
    have "place t (buf_zone2_offset x) vi"
      unfolding r(5) using place_keeps [OF P(2) goodD(1) [OF g] goodD(1) [OF r(2)]] r(3)
      by (simp add: keeps_def)
    then have v: "buf_volume x = vi" by (rule buf_volume_place [OF goodD(1) [OF r(2)] r(4)])
    have "read_bytes (buf_ondisk x) (unat k mod 16384) n = media_bytes s vi (unat F mod 2 ^ 52 + unat k) n"
      using buffer_media [OF goodD(1) [OF r(2)] r(4,5), of n] n
      unfolding P(3,4) v media_bytes_keeps [OF r(3) vi] by blast
    with r v show "(case r of (r, bp') \<Rightarrow> \<lambda>t. \<exists>b x. r = Some (b, unat k mod 16384) \<and>
      bp' = Some b \<and> good D t \<and> keeps (\<lambda>b'. ref1 bp' b' - ref1 bp b') s t \<and>
      buffers t b = Some x \<and> 0 < cache_refs x \<and> buf_volume x = vi \<and>
      buf_zone2_offset x = (F + k) AND NOT HAMMER_BUFMASK64 \<and>
      read_bytes (buf_ondisk x) (unat k mod 16384) n = media_bytes s vi (unat F mod 2 ^ 52 + unat k) n) t"
      by auto
  qed
qed

lemma gbd_bigblockI:
  assumes "good D s" "bigblock_in s F vi" "unat k < 2 ^ 23" "holds D s bp" "unat k mod 16384 + n \<le> 16384"
    and "\<And>b x t. \<lbrakk>good D t; keeps (\<lambda>b'. ref1 (Some b) b' - ref1 bp b') s t; buffers t b = Some x;
      0 < cache_refs x; buf_volume x = vi; buf_zone2_offset x = (F + k) AND NOT HAMMER_BUFMASK64;
      read_bytes (buf_ondisk x) (unat k mod 16384) n = media_bytes s vi (unat F mod 2 ^ 52 + unat k) n\<rbrakk> \<Longrightarrow>
      Q (Some (b, unat k mod 16384), Some b) t"
  shows "wp (gbd (F + k) bp 0) Q s"
  by (rule wp_mono [OF gbd_bigblock_wp [OF assms(1-5)]]) (auto split: prod.splits intro!: assms(6))

end

section \<open>The freemap as the media holds it\<close>

definition root_ondisk :: "hammer_state \<Rightarrow> hammer_volume_ondisk" where
  "root_ondisk s = v_ondisk (VolList s ! the (get_root_volume s))"

definition freemap_phys :: "hammer_state \<Rightarrow> u64" where
  "freemap_phys s = bm_phys_offset (vol0_blockmap (root_ondisk s) ! 4)"

text \<open>The volume of a zone-2 offset and its entries of the two layers.\<close>

definition vol_of :: "hammer_state \<Rightarrow> u64 \<Rightarrow> nat" where
  "vol_of s off = the (get_volume s (HAMMER_VOL_DECODE off))"

definition layer1_at :: "hammer_state \<Rightarrow> u64 \<Rightarrow> hammer_blockmap_layer1" where
  "layer1_at s off = (let F = freemap_phys s in
     layer1_of_bytes (media_bytes s (vol_of s F)
       (unat F mod 2 ^ 52 + unat (HAMMER_BLOCKMAP_LAYER1_OFFSET off)) 32))"

definition layer2_at :: "hammer_state \<Rightarrow> u64 \<Rightarrow> hammer_blockmap_layer2" where
  "layer2_at s off = (let F = l1_phys_offset (layer1_at s off) in
     layer2_of_bytes (media_bytes s (vol_of s F)
       (unat F mod 2 ^ 52 + unat (HAMMER_BLOCKMAP_LAYER2_OFFSET off)) 16))"

text \<open>
  A usable freemap: the layer 1 big-block and every layer 2 big-block it points to lie inside a
  volume.
\<close>

definition freemap_ok :: "hammer_state \<Rightarrow> bool" where
  "freemap_ok s \<longleftrightarrow> get_root_volume s \<noteq> None \<and> length (vol0_blockmap (root_ondisk s)) = 16 \<and>
     bigblock_in s (freemap_phys s) (vol_of s (freemap_phys s)) \<and>
     (\<forall>off. let F = l1_phys_offset (layer1_at s off) in
        F \<noteq> HAMMER_BLOCKMAP_UNAVAIL \<longrightarrow> bigblock_in s F (vol_of s F))"

lemma layer1_offset_nat:
  "unat (HAMMER_BLOCKMAP_LAYER1_OFFSET off) = unat off mod 2 ^ 60 div 2 ^ 42 * 32"
  "unat (HAMMER_BLOCKMAP_LAYER1_OFFSET off) < 2 ^ 23"
  "unat (HAMMER_BLOCKMAP_LAYER1_OFFSET off) mod 16384 + 32 \<le> 16384"
proof -
  let ?i = "unat off mod 2 ^ 60 div 2 ^ 42"
  have i: "?i < 2 ^ 18" by (rule less_mult_imp_div_less) simp
  have "HAMMER_BLOCKMAP_LAYER1_OFFSET off = of_nat (?i * 32)"
    unfolding HAMMER_BLOCKMAP_LAYER1_OFFSET_def layer1_index_nat by simp
  then show e: "unat (HAMMER_BLOCKMAP_LAYER1_OFFSET off) = ?i * 32"
    using i by (simp only: unat_of_nat) simp
  show "unat (HAMMER_BLOCKMAP_LAYER1_OFFSET off) < 2 ^ 23" unfolding e using i by simp
  have "?i * 32 mod (512 * 32) = ?i mod 512 * 32" by (rule mult_mod_left [symmetric])
  moreover have "?i mod 512 < 512" by simp
  ultimately show "unat (HAMMER_BLOCKMAP_LAYER1_OFFSET off) mod 16384 + 32 \<le> 16384"
    unfolding e by simp
qed

lemma layer2_offset_nat:
  "unat (HAMMER_BLOCKMAP_LAYER2_OFFSET off) = unat off mod 2 ^ 42 div 2 ^ 23 * 16"
  "unat (HAMMER_BLOCKMAP_LAYER2_OFFSET off) < 2 ^ 23"
  "unat (HAMMER_BLOCKMAP_LAYER2_OFFSET off) mod 16384 + 16 \<le> 16384"
proof -
  let ?i = "unat off mod 2 ^ 42 div 2 ^ 23"
  have i: "?i < 2 ^ 19" by (rule less_mult_imp_div_less) simp
  have "HAMMER_BLOCKMAP_LAYER2_OFFSET off = of_nat (?i * 16)"
    unfolding HAMMER_BLOCKMAP_LAYER2_OFFSET_def layer2_index_nat by simp
  then show e: "unat (HAMMER_BLOCKMAP_LAYER2_OFFSET off) = ?i * 16"
    using i by (simp only: unat_of_nat) simp
  show "unat (HAMMER_BLOCKMAP_LAYER2_OFFSET off) < 2 ^ 23" unfolding e using i by simp
  have "?i * 16 mod (1024 * 16) = ?i mod 1024 * 16" by (rule mult_mod_left [symmetric])
  moreover have "?i mod 1024 < 1024" by simp
  ultimately show "unat (HAMMER_BLOCKMAP_LAYER2_OFFSET off) mod 16384 + 16 \<le> 16384"
    unfolding e by simp
qed

lemma bigblock_in_keeps:
  assumes "bigblock_in s F vi" and "wfs D s" and "wfs D' t" and "frame t = frame s"
  shows "bigblock_in t F vi"
proof -
  have v: "get_volume s (HAMMER_VOL_DECODE F) = Some vi" using assms(1) by (simp add: bigblock_in_def)
  from get_volume_frame [OF assms(4) wfsD(1) [OF assms(2)] wfsD(1) [OF assms(3)] v]
    frame_fields(6) [OF assms(4) get_volume_Some(1) [OF v]]
  show ?thesis using assms(1) by (simp add: bigblock_in_def)
qed

text \<open>What the dive finds.\<close>

definition dive_spec :: "hammer_state \<Rightarrow> int \<Rightarrow> u64 \<Rightarrow> lookup_result" where
  "dive_spec s zone off = (let layer1 = layer1_at s off; layer2 = layer2_at s off in
     if l1_phys_offset layer1 = HAMMER_BLOCKMAP_UNAVAIL then (off, - 6, layer1_zero, layer2_zero)
     else if uint (l2_zone layer2) \<noteq> zone then (off, - 8, layer1, layer2_zero)
     else (off, 0, layer1, layer2))"

lemma rel_holds_wp:
  assumes "good D t" and "holds D t bp"
  shows "wp (rel_buffer bp) (\<lambda>_ u. good D u \<and> keeps (\<lambda>b'. - ref1 bp b') t u) t"
proof (cases bp)
  case None
  then show ?thesis using assms(1) keeps_refl by (simp add: rel_buffer_def wp_simps ref1_def)
next
  case (Some b)
  then obtain x where x: "buffers t b = Some x" "0 < cache_refs x" "b \<in> D \<longrightarrow> 1 < cache_refs x"
    using assms(2) by (auto simp: holds_def)
  have "(\<lambda>b'. if b' = b then - 1 else 0) = (\<lambda>b'. - ref1 bp b')" using Some by (auto simp: ref1_def)
  with rel_buffer_wp [OF assms(1) x] show ?thesis
    unfolding Some by (auto elim: wp_mono)
qed

lemma refs_nonneg: "wfs D s \<Longrightarrow> 0 \<le> refs_of s b"
  using buf_okD(8) [OF wfsD(4)] by (auto simp: refs_of_def split: option.splits)

lemma holds_refs:
  assumes "good D s" "good D t" and "keeps R s t" and "\<And>b. bp = Some b \<Longrightarrow> 1 \<le> R b"
  shows "holds D t bp"
  unfolding holds_def
proof (intro allI impI)
  fix b assume b: "bp = Some b"
  have r: "refs_of t b = refs_of s b + R b" by (rule keeps_refs [OF assms(3)])
  moreover have "0 \<le> refs_of s b" by (rule refs_nonneg [OF goodD(1) [OF assms(1)]])
  moreover have "b \<in> D \<longrightarrow> 0 < refs_of s b"
    using wfsD(5) [OF goodD(1) [OF assms(1)]] by (auto simp: coherent_def refs_of_def)
  ultimately show "\<exists>x. buffers t b = Some x \<and> 0 < cache_refs x \<and> (b \<in> D \<longrightarrow> 1 < cache_refs x)"
    using assms(4) [OF b] by (cases "buffers t b") (auto simp: refs_of_def)
qed

lemma lookup_done_wp:
  assumes s: "good D s" and t: "good D t" "keeps (\<lambda>b'. ref1 b1 b' + ref1 b2 b') s t"
  shows "wp (lookup_done b1 b2 r) (\<lambda>r' u. r' = r \<and> good D u \<and> keeps (\<lambda>_. 0) s u) t"
proof -
  have "holds D t b1" by (rule holds_refs [OF s t]) (simp add: ref1_def)
  have "wp (rel_buffer b2) (\<lambda>_ v. good D v \<and> keeps (\<lambda>_. 0) s v) u"
    if u: "good D u" "keeps (\<lambda>b'. - ref1 b1 b') t u" for u
  proof -
    have k: "keeps (\<lambda>b'. ref1 b2 b') s u" using keeps_trans [OF t(2) u(2)] by simp
    then have "holds D u b2" by (rule holds_refs [OF s u(1)]) (simp add: ref1_def)
    from rel_holds_wp [OF u(1) this] show ?thesis
      by (rule wp_mono) (use keeps_trans [OF k] in fastforce)
  qed
  with rel_holds_wp [OF t(1) \<open>holds D t b1\<close>] show ?thesis
    unfolding lookup_done_def by (auto simp: wp_simps elim!: wp_mono)
qed

lemma freemap_okD:
  assumes "freemap_ok s"
  shows "\<exists>vi. get_root_volume s = Some vi" "length (vol0_blockmap (root_ondisk s)) = 16"
    "bigblock_in s (freemap_phys s) (vol_of s (freemap_phys s))"
    "l1_phys_offset (layer1_at s off) \<noteq> HAMMER_BLOCKMAP_UNAVAIL \<Longrightarrow>
       bigblock_in s (l1_phys_offset (layer1_at s off)) (vol_of s (l1_phys_offset (layer1_at s off)))"
  using assms by (auto simp: freemap_ok_def Let_def)

text \<open>The dive returns what the media says, whatever the translation passed down.\<close>

context buffer_reader
begin

lemma blockmap_dive_wp:
  assumes g: "good D s" and f: "freemap_ok s" and F: "bm_phys_offset freemap = freemap_phys s"
  shows "wp (blockmap_dive gbd freemap zone off)
    (\<lambda>r t. r = dive_spec s zone off \<and> good D t \<and> keeps (\<lambda>_. 0) s t) s"
proof -
  let ?k1 = "HAMMER_BLOCKMAP_LAYER1_OFFSET off" and ?k2 = "HAMMER_BLOCKMAP_LAYER2_OFFSET off"
  let ?F1 = "freemap_phys s" and ?l1 = "layer1_at s off"
  let ?F2 = "l1_phys_offset ?l1"
  let ?Q = "\<lambda>r t. r = dive_spec s zone off \<and> good D t \<and> keeps (\<lambda>_. 0) s t"
  note L1 = layer1_offset_nat [of off] and L2 = layer2_offset_nat [of off]
  note f1 = freemap_okD(3) [OF f] and f2 = freemap_okD(4) [OF f, of off]
  have second: "wp (gbd (?F2 + ?k2) None 0) (\<lambda>(p2, buffer2).
      wp (case p2 of None \<Rightarrow> lookup_done (Some b1) buffer2 (off, - 7, ?l1, layer2_zero)
        | Some p2 \<Rightarrow> bindS (load_layer2 p2) (\<lambda>layer2. if uint (l2_zone layer2) \<noteq> zone
            then lookup_done (Some b1) buffer2 (off, - 8, ?l1, layer2_zero)
            else lookup_done (Some b1) buffer2 (off, 0, ?l1, layer2))) ?Q) t"
    if av: "?F2 \<noteq> HAMMER_BLOCKMAP_UNAVAIL" and t: "good D t" "keeps (ref1 (Some b1)) s t" for b1 t
  proof (rule gbd_bigblockI [OF t(1) _ L2(2) _ L2(3)])
    have fr: "frame t = frame s" using t(2) by (simp add: keeps_def)
    have vi2: "vol_of s ?F2 < length (VolList s)"
      using f2 [OF av] get_volume_Some(1) by (auto simp: bigblock_in_def)
    show "bigblock_in t ?F2 (vol_of s ?F2)"
      by (rule bigblock_in_keeps [OF f2 [OF av] goodD(1) [OF g] goodD(1) [OF t(1)] fr])
    show "holds D t None" by (simp add: holds_def)
    fix b2 x u
    assume u: "good D u" "keeps (\<lambda>b'. ref1 (Some b2) b' - ref1 None b') t u" "buffers u b2 = Some x"
      "read_bytes (buf_ondisk x) (unat ?k2 mod 16384) 16 =
        media_bytes t (vol_of s ?F2) (unat ?F2 mod 2 ^ 52 + unat ?k2) 16"
    have m: "layer2_of_bytes (read_bytes (buf_ondisk x) (unat ?k2 mod 16384) 16) = layer2_at s off"
      unfolding u(4) media_bytes_keeps [OF t(2) vi2] by (simp add: layer2_at_def Let_def)
    have k: "keeps (\<lambda>b'. ref1 (Some b1) b' + ref1 (Some b2) b') s u"
      using keeps_trans [OF t(2) u(2)] by (simp add: ref1_def)
    show "(case (Some (b2, unat ?k2 mod 16384), Some b2) of (p2, buffer2) \<Rightarrow>
      wp (case p2 of None \<Rightarrow> lookup_done (Some b1) buffer2 (off, - 7, ?l1, layer2_zero)
        | Some p2 \<Rightarrow> bindS (load_layer2 p2) (\<lambda>layer2. if uint (l2_zone layer2) \<noteq> zone
            then lookup_done (Some b1) buffer2 (off, - 8, ?l1, layer2_zero)
            else lookup_done (Some b1) buffer2 (off, 0, ?l1, layer2))) ?Q) u"
      using u(3) L2(3) av by (auto simp: load_layer2_def wp_simps m dive_spec_def Let_def
          intro!: wp_mono [OF lookup_done_wp [OF g u(1) k]])
  qed
  have "wp (gbd (?F1 + ?k1) None 0) (\<lambda>(p1, buffer1). wp (case p1 of
        None \<Rightarrow> lookup_done buffer1 None (off, - 5, layer1_zero, layer2_zero)
      | Some p1 \<Rightarrow> bindS (load_layer1 p1) (\<lambda>layer1. if l1_phys_offset layer1 = HAMMER_BLOCKMAP_UNAVAIL
          then lookup_done buffer1 None (off, - 6, layer1_zero, layer2_zero)
          else bindS (gbd (l1_phys_offset layer1 + ?k2) None 0) (\<lambda>(p2, buffer2).
            case p2 of None \<Rightarrow> lookup_done buffer1 buffer2 (off, - 7, layer1, layer2_zero)
            | Some p2 \<Rightarrow> bindS (load_layer2 p2) (\<lambda>layer2. if uint (l2_zone layer2) \<noteq> zone
                then lookup_done buffer1 buffer2 (off, - 8, layer1, layer2_zero)
                else lookup_done buffer1 buffer2 (off, 0, layer1, layer2))))) ?Q) s"
  proof (rule gbd_bigblockI [OF g f1 L1(2) _ L1(3)])
    show "holds D s None" by (simp add: holds_def)
    fix b1 x t
    assume t: "good D t" "keeps (\<lambda>b'. ref1 (Some b1) b' - ref1 None b') s t" "buffers t b1 = Some x"
      "read_bytes (buf_ondisk x) (unat ?k1 mod 16384) 32 =
        media_bytes s (vol_of s ?F1) (unat ?F1 mod 2 ^ 52 + unat ?k1) 32"
    have m: "layer1_of_bytes (read_bytes (buf_ondisk x) (unat ?k1 mod 16384) 32) = ?l1"
      unfolding t(4) by (simp add: layer1_at_def Let_def)
    have k: "keeps (\<lambda>b'. ref1 (Some b1) b' + ref1 None b') s t" "keeps (ref1 (Some b1)) s t"
      using t(2) by (simp_all add: ref1_def [of None])
    have na: "wp (lookup_done (Some b1) None (off, - 6, layer1_zero, layer2_zero)) ?Q t"
      if "?F2 = HAMMER_BLOCKMAP_UNAVAIL"
      using that by (auto simp: dive_spec_def Let_def intro!: wp_mono [OF lookup_done_wp [OF g t(1) k(1)]])
    note av = second [OF _ t(1) k(2), unfolded case_prod_unfold]
    have ld: "wp (load_layer1 (b1, unat ?k1 mod 16384)) (\<lambda>l u. l = ?l1 \<and> u = t) t"
      using t(3) L1(3) m by (simp add: load_layer1_def wp_simps)
    show "(case (Some (b1, unat ?k1 mod 16384), Some b1) of (p1, buffer1) \<Rightarrow> wp (case p1 of
        None \<Rightarrow> lookup_done buffer1 None (off, - 5, layer1_zero, layer2_zero)
      | Some p1 \<Rightarrow> bindS (load_layer1 p1) (\<lambda>layer1. if l1_phys_offset layer1 = HAMMER_BLOCKMAP_UNAVAIL
          then lookup_done buffer1 None (off, - 6, layer1_zero, layer2_zero)
          else bindS (gbd (l1_phys_offset layer1 + ?k2) None 0) (\<lambda>(p2, buffer2).
            case p2 of None \<Rightarrow> lookup_done buffer1 buffer2 (off, - 7, layer1, layer2_zero)
            | Some p2 \<Rightarrow> bindS (load_layer2 p2) (\<lambda>layer2. if uint (l2_zone layer2) \<noteq> zone
                then lookup_done buffer1 buffer2 (off, - 8, layer1, layer2_zero)
                else lookup_done buffer1 buffer2 (off, 0, layer1, layer2))))) ?Q) t"
      unfolding prod.case option.case wp_bind
      by (rule wp_mono [OF ld], cases "?F2 = HAMMER_BLOCKMAP_UNAVAIL")
        (simp only: if_True na simp_thms, simp only: if_False wp_bind case_prod_unfold, rule av)
  qed
  then show ?thesis unfolding blockmap_dive_def F wp_bind by (simp only: case_prod_unfold)
qed

end

section \<open>Translation as a function of the media\<close>

definition lookup_spec :: "hammer_state \<Rightarrow> u64 \<Rightarrow> lookup_result run" where
  "lookup_spec s zone_offset =
     (let zone = HAMMER_ZONE_DECODE zone_offset;
          bm = vol0_blockmap (root_ondisk s) ! nat zone in
      if zone \<le> 1 then Inr (HAMMER_OFF_BAD, - 1, layer1_zero, layer2_zero)
      else if zone = 3 then
        (if bm_alloc_offset bm \<le> zone_offset then Inr (HAMMER_OFF_BAD, - 3, layer1_zero, layer2_zero)
         else bind_run (hammer_xlate_to_undo (root_ondisk s) zone_offset) (\<lambda>off. Inr (dive_spec s zone off)))
      else if zone < 8 then Inr (dive_spec s zone zone_offset)
      else if HAMMER_ZONE_DECODE (bm_alloc_offset bm) \<noteq> zone
      then Inr (hammer_xlate_to_zone2 zone_offset, - 4, layer1_zero, layer2_zero)
      else Inr (dive_spec s zone (hammer_xlate_to_zone2 zone_offset)))"

lemma zone_decode_range: "0 \<le> HAMMER_ZONE_DECODE x" "HAMMER_ZONE_DECODE x < 16"
proof -
  have "unat x < 2 ^ 64" using unsigned_less [of x, where ?'a = nat] by simp
  then have "unat x div 2 ^ 60 < 16" by (intro less_mult_imp_div_less) simp
  then show "0 \<le> HAMMER_ZONE_DECODE x" "HAMMER_ZONE_DECODE x < 16" by (simp_all add: zone_decode_nat)
qed

lemma root_volD:
  assumes "get_root_volume s = Some vi"
  shows "vi < length (VolList s)" "v_ondisk (VolList s ! vi) = root_ondisk s"
  using assms get_volume_Some(1) by (auto simp: get_root_volume_def root_ondisk_def)

context buffer_reader
begin

lemma blockmap_lookup_save_wp:
  assumes g: "good D s" and f: "freemap_ok s" and r: "lookup_spec s z = Inr r"
  shows "wp (blockmap_lookup_save gbd z)
    (\<lambda>r' t. r' = r \<and> good D t \<and> keeps (\<lambda>_. 0) s t) s"
proof -
  obtain vi where vi: "get_root_volume s = Some vi" using freemap_okD(1) [OF f] by blast
  note V = root_volD [OF vi]
  let ?zone = "HAMMER_ZONE_DECODE z"
  let ?v = "VolList s ! vi"
  have fm: "bm_phys_offset (vol_blockmap ?v HAMMER_ZONE_FREEMAP_INDEX) = freemap_phys s"
    using V by (simp add: vol_blockmap_def freemap_phys_def HAMMER_ZONE_FREEMAP_INDEX_def)
  note dive = blockmap_dive_wp [OF g f fm, of ?zone]
  note simps = blockmap_lookup_save_def wp_simps vi V lookup_spec_def Let_def vol_blockmap_def
    HAMMER_ZONE_RAW_VOLUME_INDEX_def HAMMER_ZONE_UNDO_INDEX_def hammer_is_index_record_def
    HAMMER_ZONE_BTREE_INDEX_def HAMMER_MAX_ZONES_def
  have z16: "?zone < 16" by (rule zone_decode_range)
  consider "?zone \<le> 1" | "?zone = 3" | "1 < ?zone" "?zone \<noteq> 3" "?zone < 8" | "8 \<le> ?zone" by linarith
  then show ?thesis
  proof cases
    case 1
    then show ?thesis using r g keeps_refl by (simp add: simps)
  next
    case 2
    show ?thesis
    proof (cases "bm_alloc_offset (vol0_blockmap (root_ondisk s) ! nat ?zone) \<le> z")
      case True
      then show ?thesis using r 2 g keeps_refl by (simp add: simps)
    next
      case False
      with r 2 obtain off where "hammer_xlate_to_undo (root_ondisk s) z = Inr off" "r = dive_spec s ?zone off"
        by (auto simp: lookup_spec_def Let_def)
      with False 2 dive [of off] show ?thesis by (simp add: simps)
    qed
  next
    case 3
    with r z16 dive [of z] show ?thesis by (simp add: simps)
  next
    case 4
    with r z16 dive [of "hammer_xlate_to_zone2 z"] g keeps_refl [of s] show ?thesis by (auto simp: simps split: if_splits)
  qed
qed

end

interpretation cached: buffer_reader "get_buffer_data lookup" for lookup
  by unfold_locales (rule get_buffer_data_wp)

lemma blockmap_lookup_wp:
  assumes g: "good D s" and f: "freemap_ok s" and r: "lookup_spec s z = Inr (off, error, l1, l2)"
  shows "wp (blockmap_lookup (Suc n) z) (\<lambda>r' t. r' = (off, error) \<and> good D t \<and> keeps (\<lambda>_. 0) s t) s"
  unfolding blockmap_lookup.simps wp_bind
  by (rule wp_mono [OF cached.blockmap_lookup_save_wp [OF g f r]]) (simp add: wp_simps)

end
