(* ===== verification/Cache_Flush.thy ===== *)
theory Cache_Flush
  imports Blockmap_Lookup
begin

text \<open>
  Write back of all volumes: after \<open>flush_all_volumes\<close> the devices hold the media and the volume
  headers.
\<close>

section \<open>Flushing the buffers of a volume\<close>

definition formatted :: "hammer_state \<Rightarrow> nat \<Rightarrow> bool" where
  "formatted s vi \<longleftrightarrow> 16384 \<le> vol_beg s vi \<and>
     length (volume_bytes (v_ondisk (VolList s ! vi)) @ v_tail (VolList s ! vi)) = 16384"

definition header_bytes :: "hammer_state \<Rightarrow> nat \<Rightarrow> bytes" where
  "header_bytes s vi i = (volume_bytes (v_ondisk (VolList s ! vi)) @ v_tail (VolList s ! vi)) ! i"

definition on_device :: "hammer_state \<Rightarrow> nat \<Rightarrow> nat \<Rightarrow> u8" where
  "on_device s vi i = dev_bytes (devices s (v_fd (VolList s ! vi))) i"

definition clean :: "hammer_state \<Rightarrow> nat \<Rightarrow> bool" where
  "clean s b \<longleftrightarrow> (\<forall>x. buffers s b = Some x \<longrightarrow> \<not> cache_modified x)"

text \<open>
  Progress of a flush: modified flags and device content change, the header area of the volumes
  outside \<open>V\<close> does not.
\<close>

definition flushed :: "nat set \<Rightarrow> hammer_state \<Rightarrow> hammer_state \<Rightarrow> bool" where
  "flushed V s t \<longleftrightarrow> good {} t \<and> keeps (\<lambda>_. 0) s t \<and> VolList t = VolList s \<and>
     dom (buffers t) = dom (buffers s) \<and>
     (\<forall>vi<length (VolList s). vi \<notin> V \<longrightarrow> (\<forall>i<16384. on_device t vi i = on_device s vi i))"

lemma flushed_trans: "flushed V s t \<Longrightarrow> flushed W t u \<Longrightarrow> flushed (V \<union> W) s u"
  using keeps_trans [of "\<lambda>_. 0" s t "\<lambda>_. 0" u] by (simp add: flushed_def)

lemma clean_mono:
  assumes "flushed V s t" and "good {} s" and "clean s b"
  shows "clean t b"
  unfolding clean_def
proof (intro allI impI)
  fix x assume x: "buffers t b = Some x"
  then have "b \<in> dom (buffers s)" using assms(1) by (auto simp: flushed_def)
  then obtain y where y: "buffers s b = Some y" by blast
  have "b < next_buffer s" by (rule buf_okD(1) [OF wfsD(4) [OF goodD(1) [OF assms(2)]] y])
  then show "\<not> cache_modified x"
    using assms(1,3) x y unfolding flushed_def keeps_def same_bufs_def clean_def by (metis option.inject)
qed

lemma write_dev_other:
  assumes "vols_ok s" "vi < length (VolList s)" "vj < length (VolList s)"
  shows "on_device (write_dev s (v_fd (VolList s ! vi)) off data) vj i =
    (if vj = vi \<and> off \<le> i \<and> i < off + 16384 then data (i - off) else on_device s vj i)"
proof (cases "vj = vi")
  case False
  then have "v_fd (VolList s ! vj) \<noteq> v_fd (VolList s ! vi)"
    using assms unfolding vols_ok_def by (metis distinct_map inj_on_contraD nth_eq_iff_index_eq nth_mem)
  with False show ?thesis by (simp add: on_device_def write_dev_def)
qed (auto simp: on_device_def write_dev_def write_bytes_def)

lemma flush_buffer_header:
  assumes g: "good {} s" and x: "buffers s b = Some x" and f: "\<forall>vj<length (VolList s). formatted s vj"
  shows "wp (flush_buffer b) (\<lambda>_ t. VolList t = VolList s \<and>
    (\<forall>vi<length (VolList s). \<forall>i<16384. on_device t vi i = on_device s vi i)) s"
proof -
  note G = wfsD [OF goodD(1) [OF g]]
  note X = buf_okD [OF G(4) x]
  note R = raw_offset_sint [OF G(1,4) x]
  have w: "dev_write_ok (devices s (v_fd (VolList s ! buf_volume x))) (sint (buf_raw_offset x))"
    using G(2) X(2) R(2,3) unfolding io_ok_def by (metis nth_mem)
  have far: "16384 \<le> nat (sint (buf_raw_offset x))"
    using f X(2) R(1) by (fastforce simp: formatted_def)
  have dev: "on_device (t\<lparr>buffers := y\<rparr>) vi i = on_device t vi i" for t y vi i
    by (simp add: on_device_def)
  show ?thesis
    using X(2) x w R(1) far write_dev_other [OF G(1) X(2)]
    by (simp add: flush_buffer_def writehammerbuf_def wp_simps dev)
qed

lemma flush_buffer_flushed:
  assumes "good {} s" and "b \<in> dom (buffers s)" and f: "\<forall>vj<length (VolList s). formatted s vj"
  shows "wp (flush_buffer b) (\<lambda>_ t. flushed {} s t \<and> clean t b) s"
proof -
  from assms(2) obtain x where x: "buffers s b = Some x" by blast
  have "b \<in> {} \<longrightarrow> \<not> v_rdonly (VolList s ! buf_volume x)" by simp
  from wp_conj [OF flush_buffer_wp [OF goodD(1) [OF assms(1)] x this] flush_buffer_header [OF assms(1) x f]]
  show ?thesis
    by (rule wp_mono) (use x goodD(2) [OF assms(1)] in \<open>auto simp: flushed_def clean_def good_def\<close>)
qed

lemma formatted_flushed:
  assumes "flushed V s t" and "\<forall>vj<length (VolList s). formatted s vj"
  shows "\<forall>vj<length (VolList t). formatted t vj"
  using assms by (simp add: flushed_def formatted_def vol_beg_def)

lemma flush_list_wp:
  assumes "good {} s" and "set bs \<subseteq> dom (buffers s)" and "\<forall>vj<length (VolList s). formatted s vj"
  shows "wp (forS bs (\<lambda>b _. flush_buffer b) ()) (\<lambda>_ t. flushed {} s t \<and> (\<forall>b\<in>set bs. clean t b)) s"
  using assms
proof (induction bs arbitrary: s)
  case Nil
  then show ?case by (simp add: wp_simps flushed_def keeps_refl)
next
  case (Cons b bs)
  have "wp (forS bs (\<lambda>b _. flush_buffer b) ()) (\<lambda>_ u. flushed {} s u \<and> (\<forall>b'\<in>set (b # bs). clean u b')) t"
    if t: "flushed {} s t" "clean t b" for t
  proof -
    have g: "good {} t" and d: "set bs \<subseteq> dom (buffers t)" using t Cons.prems(2) by (auto simp: flushed_def)
    show ?thesis
      by (rule wp_mono [OF Cons.IH [OF g d formatted_flushed [OF t(1) Cons.prems(3)]]])
        (use flushed_trans [OF t(1), of "{}"] clean_mono [OF _ g t(2)] in auto)
  qed
  moreover have "b \<in> dom (buffers s)" using Cons.prems(2) by simp
  ultimately show ?case
    by (auto simp: wp_simps intro!: wp_mono [OF flush_buffer_flushed [OF Cons.prems(1) _ Cons.prems(3)]])
qed

lemma flush_lists_wp:
  assumes "good {} s" and "vi < length (VolList s)" and "\<And>i. i \<in> set is \<Longrightarrow> i < 64"
    and "\<forall>vj<length (VolList s). formatted s vj"
  shows "wp (forS is (\<lambda>i _. bindS (get_vol vi) (\<lambda>volume.
      forS (v_buffer_lists volume ! i) (\<lambda>b _. flush_buffer b) ())) ())
    (\<lambda>_ t. flushed {} s t \<and> (\<forall>i\<in>set is. \<forall>b\<in>set (v_buffer_lists (VolList s ! vi) ! i). clean t b)) s"
  using assms
proof (induction "is" arbitrary: s)
  case Nil
  then show ?case by (simp add: wp_simps flushed_def keeps_refl)
next
  case (Cons i "is")
  let ?l = "v_buffer_lists (VolList s ! vi) ! i"
  have sub: "set ?l \<subseteq> dom (buffers s)"
    using lists_okD(5) [OF wfsD(3) [OF goodD(1) [OF Cons.prems(1)]] Cons.prems(2), of i] Cons.prems(3) by auto
  have "wp (forS is (\<lambda>i _. bindS (get_vol vi) (\<lambda>volume.
      forS (v_buffer_lists volume ! i) (\<lambda>b _. flush_buffer b) ())) ())
    (\<lambda>_ u. flushed {} s u \<and> (\<forall>i\<in>set (i # is). \<forall>b\<in>set (v_buffer_lists (VolList s ! vi) ! i). clean u b)) t"
    if t: "flushed {} s t" "\<forall>b\<in>set ?l. clean t b" for t
  proof -
    have g: "good {} t" and v: "VolList t = VolList s" using t by (simp_all add: flushed_def)
    show ?thesis
      by (rule wp_mono [OF Cons.IH [OF g _ _ formatted_flushed [OF t(1) Cons.prems(4)]]])
        (use flushed_trans [OF t(1), of "{}"] clean_mono [OF _ g] t(2) v Cons.prems(2,3) in auto)
  qed
  then show ?case
    using Cons.prems(2)
    by (auto simp: wp_simps intro!: wp_mono [OF flush_list_wp [OF Cons.prems(1) sub Cons.prems(4)]])
qed

section \<open>The header\<close>

lemma write_header:
  assumes g: "good {} s" and vi: "vi < length (VolList s)" and f: "\<forall>vj<length (VolList s). formatted s vj"
    and t: "t = write_dev s (v_fd (VolList s ! vi)) 0 (header_bytes s vi)"
  shows "flushed {vi} s t" and "\<And>i. i < 16384 \<Longrightarrow> on_device t vi i = header_bytes s vi i"
proof -
  note G = wfsD [OF goodD(1) [OF g]]
  note w = write_dev_other [OF G(1) vi, of _ 0 "header_bytes s vi"]
  show "on_device t vi i = header_bytes s vi i" if "i < 16384" for i
    using w [OF vi, of i] that by (simp add: t)
  have dk: "disk t vj a = disk s vj a" if "vj < length (VolList s)" for vj a
    using w [OF that, of "vol_beg s vj + a"] f that
    by (auto simp: t disk_def on_device_def formatted_def)
  have fr: "frame t = frame s" by (simp add: t)
  have "coherent {} t"
    unfolding coherent_def
  proof (intro conjI allI impI ballI)
    fix b x assume "buffers t b = Some x"
    then have x: "buffers s b = Some x" by (simp add: t)
    show "\<not> v_rdonly (VolList t ! buf_volume x)" if "cache_modified x"
      using that x G(5) by (simp add: coherent_def t)
    show "buf_ondisk x i = disk t (buf_volume x) (buf_short x + i)" if "\<not> cache_modified x" "i < 16384" for i
      using that x G(5) dk [OF buf_okD(2) [OF G(4) x]] by (simp add: coherent_def)
  qed simp
  then have "good {} t"
    using G io_ok_frame [OF fr] goodD(2) [OF g] by (simp add: good_def wfs_def t)
  moreover have "media t vj a = media s vj a" if "vj < length (VolList s)" for vj a
    using dk [OF that, of a] by (simp add: media_def t split: option.splits)
  then have "keeps (\<lambda>_. 0) s t"
    using fr by (simp add: keeps_def refs_of_def same_bufs_def t fun_eq_iff)
  ultimately show "flushed {vi} s t" using w by (simp add: flushed_def t)
qed

lemma writehammervol_wp:
  assumes g: "good {} s" and vi: "vi < length (VolList s)" and f: "\<forall>vj<length (VolList s). formatted s vj"
  shows "wp (writehammervol vi) (\<lambda>n t. n = 0 \<and> flushed {vi} s t \<and>
    (\<not> v_rdonly (VolList s ! vi) \<longrightarrow> (\<forall>i<16384. on_device t vi i = header_bytes s vi i))) s"
proof -
  have w: "dev_write_ok (devices s (v_fd (VolList s ! vi))) 0"
    using wfsD(2) [OF goodD(1) [OF g]] vi unfolding io_ok_def by (metis nth_mem order_refl)
  have "(\<lambda>i. (volume_bytes (v_ondisk (VolList s ! vi)) @ v_tail (VolList s ! vi)) ! i) = header_bytes s vi"
    by (simp add: header_bytes_def fun_eq_iff)
  then show ?thesis
    using vi w write_header [OF g vi f refl] g
    by (auto simp: writehammervol_def wp_simps flushed_def keeps_refl)
qed

definition vol_clean :: "hammer_state \<Rightarrow> nat \<Rightarrow> bool" where
  "vol_clean s vi \<longleftrightarrow> (\<forall>i<64. \<forall>b\<in>set (v_buffer_lists (VolList s ! vi) ! i). clean s b)"

definition header_written :: "hammer_state \<Rightarrow> nat \<Rightarrow> bool" where
  "header_written s vi \<longleftrightarrow>
     (\<not> v_rdonly (VolList s ! vi) \<longrightarrow> (\<forall>i<16384. on_device s vi i = header_bytes s vi i))"

lemma flushed_vols: "flushed V s t \<Longrightarrow> VolList t = VolList s"
  by (simp add: flushed_def)

lemma vol_clean_mono:
  assumes "flushed V s t" and "good {} s" and "vol_clean s vi"
  shows "vol_clean t vi"
  using assms(3) clean_mono [OF assms(1,2)] flushed_vols [OF assms(1)] by (auto simp: vol_clean_def)

lemma header_written_mono:
  assumes "flushed V s t" and "vi < length (VolList s)" and "vi \<notin> V" and "header_written s vi"
  shows "header_written t vi"
  using assms flushed_vols [OF assms(1)] by (simp add: header_written_def header_bytes_def flushed_def)

lemma flush_volume_wp:
  assumes g: "good {} s" and vi: "vi < length (VolList s)" and f: "\<forall>vj<length (VolList s). formatted s vj"
  shows "wp (flush_volume vi) (\<lambda>_ t. flushed {vi} s t \<and> vol_clean t vi \<and> header_written t vi) s"
proof -
  have "wp (writehammervol vi) (\<lambda>n u. n \<noteq> - 1 \<and> flushed {vi} s u \<and> vol_clean u vi \<and> header_written u vi) t"
    if t: "flushed {} s t" "\<forall>i\<in>set [0..<64]. \<forall>b\<in>set (v_buffer_lists (VolList s ! vi) ! i). clean t b" for t
  proof -
    have g': "good {} t" and v: "VolList t = VolList s" using t(1) by (simp_all add: flushed_def)
    have c: "vol_clean t vi" using t(2) v by (simp add: vol_clean_def)
    show ?thesis
      by (rule wp_mono [OF writehammervol_wp [OF g' _ formatted_flushed [OF t(1) f]]])
        (use flushed_trans [OF t(1), of "{vi}"] vol_clean_mono [OF _ g' c] flushed_vols v vi in
          \<open>auto simp: header_written_def header_bytes_def\<close>)
  qed
  note W = this
  have "wp (writehammervol vi) (\<lambda>n. wp (whenS (n = - 1) (stopS (Exit_with 1 ''Write volume'')))
      (\<lambda>_ t. flushed {vi} s t \<and> vol_clean t vi \<and> header_written t vi)) t"
    if t: "flushed {} s t" "\<forall>i\<in>set [0..<64]. \<forall>b\<in>set (v_buffer_lists (VolList s ! vi) ! i). clean t b" for t
    by (rule wp_mono [OF W [OF t]]) (simp add: wp_simps)
  then show ?thesis
    unfolding flush_volume_def HAMMER_BUFLISTS_def wp_bind
    by (intro wp_mono [OF flush_lists_wp [OF g vi _ f]]) auto
qed

lemma flush_volumes_wp:
  assumes "good {} s" and "set vs \<subseteq> {..<length (VolList s)}" and "distinct vs"
    and "\<forall>vj<length (VolList s). formatted s vj"
  shows "wp (forS vs (\<lambda>vi _. flush_volume vi) ())
    (\<lambda>_ t. flushed (set vs) s t \<and> (\<forall>vi\<in>set vs. vol_clean t vi \<and> header_written t vi)) s"
  using assms
proof (induction vs arbitrary: s)
  case Nil
  then show ?case by (simp add: wp_simps flushed_def keeps_refl)
next
  case (Cons v vs)
  have "wp (forS vs (\<lambda>vi _. flush_volume vi) ())
      (\<lambda>_ u. flushed (set (v # vs)) s u \<and> (\<forall>vi\<in>set (v # vs). vol_clean u vi \<and> header_written u vi)) t"
    if t: "flushed {v} s t" "vol_clean t v" "header_written t v" for t
  proof -
    have g: "good {} t" using t(1) by (simp add: flushed_def)
    note v = flushed_vols [OF t(1)]
    show ?thesis
      by (rule wp_mono [OF Cons.IH [OF g _ _ formatted_flushed [OF t(1) Cons.prems(4)]]])
        (use flushed_trans [OF t(1), of "set vs"] vol_clean_mono [OF _ g t(2)] header_written_mono [OF _ _ _ t(3)]
          v Cons.prems(2,3) in auto)
  qed
  moreover have "v < length (VolList s)" using Cons.prems(2) by simp
  ultimately show ?case
    by (auto simp: wp_simps intro!: wp_mono [OF flush_volume_wp [OF Cons.prems(1) _ Cons.prems(4)]])
qed

lemma clean_media:
  assumes g: "good {} s" and vi: "vi < length (VolList s)" and c: "vol_clean s vi"
  shows "media s vi a = disk s vi a"
proof (cases "\<exists>b. covers s vi a b")
  case True
  note G = wfsD [OF goodD(1) [OF g]]
  from True obtain b x where x: "buffers s b = Some x" "buf_volume x = vi" "buf_short x = a div 16384 * 16384"
    by (auto simp: covers_def split: option.splits)
  have "buffer_hash (buf_zone2_offset x) < 64" by (simp add: buffer_hash_less)
  then have "clean s b" using c lists_okD(5) [OF G(3) vi] x(1,2) by (auto simp: vol_clean_def)
  then have "\<forall>i<16384. buf_ondisk x i = disk s vi (buf_short x + i)"
    using x(1,2) G(5) by (simp add: clean_def coherent_def)
  then show ?thesis using media_cached [OF G(1,4,3) x] x(3) by simp
next
  case False
  then show ?thesis by (intro media_uncached) simp
qed

lemma flush_all_volumes_wp:
  assumes g: "good {} s" and f: "\<forall>vj<length (VolList s). formatted s vj"
  shows "wp flush_all_volumes (\<lambda>_ t. good {} t \<and> keeps (\<lambda>_. 0) s t \<and> VolList t = VolList s \<and>
    (\<forall>vi<length (VolList s). (\<forall>a. disk t vi a = media s vi a) \<and> header_written t vi)) s"
proof -
  have "set [0..<length (VolList s)] \<subseteq> {..<length (VolList s)}" "distinct [0..<length (VolList s)]" by auto
  note W = flush_volumes_wp [OF g this f]
  have "disk t vi a = media s vi a"
    if "good {} t" "keeps (\<lambda>_. 0) s t" "VolList t = VolList s" "vol_clean t vi" "vi < length (VolList s)" for t vi a
    using clean_media [of t vi a] that by (simp add: keeps_def)
  then show ?thesis
    unfolding flush_all_volumes_def wp_simps
    by (intro wp_mono [OF W]) (auto simp: flushed_def Ball_def)
qed

end
