(* ===== verification/Media_Access.thy ===== *)
theory Media_Access
  imports Cache_Flush
begin

text \<open>
  Access to offsets of the translated zones: \<open>get_buffer_data\<close> with the translation of
  \<open>blockmap_lookup\<close> inside.
\<close>

section \<open>Translation before the access\<close>

lemma get_buffer_xlate:
  assumes a: "\<not> hammer_is_zone_raw_buffer a" and z: "hammer_is_zone_raw_buffer z"
    and l: "lookup a s = Inr ((z, 0), t)"
  shows "get_buffer lookup a isnew s = get_buffer lookup z isnew t"
proof -
  have "blockmap_xlate_to_zone2 lookup a s = Inr (z, t)" "blockmap_xlate_to_zone2 lookup z t = Inr (z, t)"
    using assms by (simp_all add: blockmap_xlate_to_zone2_def bindS_def returnS_def assertS_def)
  then show ?thesis by (simp add: get_buffer_def get_buffer_nora_def bindS_def)
qed

lemma get_buffer_xlate_wp:
  assumes a: "\<not> hammer_is_zone_raw_buffer a" and z: "hammer_is_zone_raw_buffer z"
    and l: "wp (lookup a) (\<lambda>r t. r = (z, 0) \<and> P t) s"
    and q: "\<And>t. P t \<Longrightarrow> wp (get_buffer lookup z isnew) Q t"
  shows "wp (get_buffer lookup a isnew) Q s"
proof -
  from l obtain t where t: "lookup a s = Inr ((z, 0), t)" "P t" by (auto simp: wp_def)
  show ?thesis
    using q [OF t(2)] get_buffer_xlate [of a z lookup s t isnew, OF a z t(1)] by (simp add: wp_def)
qed

lemma xlate_zone2_nat: "unat (hammer_xlate_to_zone2 a) = 2 * 2 ^ 60 + unat a mod 2 ^ 60"
  by (simp add: hammer_xlate_to_zone2_def HAMMER_ZONE_RAW_BUFFER_INDEX_def xlate_zoneX_nat)

lemma xlate_zone2_class:
  "hammer_is_zone_raw_buffer (hammer_xlate_to_zone2 a)"
  "HAMMER_OFF_LONG_ENCODE (hammer_xlate_to_zone2 a) = HAMMER_OFF_LONG_ENCODE a"
  "unat (hammer_xlate_to_zone2 a) mod 16384 = unat a mod 16384"
proof -
  have m: "(2 * 2 ^ 60 + unat a mod 2 ^ 60) mod 16384 = unat a mod 16384"
  proof -
    have "(2 * 2 ^ 60 + unat a mod 2 ^ 60) mod 16384 = unat a mod 2 ^ 60 mod 16384"
      using mod_mult_self3 [of "2 * 2 ^ 46" 16384 "unat a mod 2 ^ 60"] by simp
    also have "\<dots> = unat a mod 16384"
      by (rule mod_mod_cancel) (simp add: le_imp_power_dvd [of 14 60 2, simplified])
    finally show ?thesis .
  qed
  show "unat (hammer_xlate_to_zone2 a) mod 16384 = unat a mod 16384"
    unfolding xlate_zone2_nat by (rule m)
  show "hammer_is_zone_raw_buffer (hammer_xlate_to_zone2 a)"
    unfolding raw_buffer_nat xlate_zone2_nat by simp
  show "HAMMER_OFF_LONG_ENCODE (hammer_xlate_to_zone2 a) = HAMMER_OFF_LONG_ENCODE a"
    unfolding word_unat_eq_iff long_nat xlate_zone2_nat mod_mult_self3 mod_mod_trivial ..
qed

lemma index_record_class:
  assumes "hammer_is_index_record (HAMMER_ZONE_DECODE a)"
  shows "\<not> hammer_is_zone_undo a" "hammer_is_zone_direct_xlated a" "\<not> hammer_is_zone_raw_buffer a"
  using assms
  by (auto simp: hammer_is_index_record_def HAMMER_ZONE_BTREE_INDEX_def undo_nat raw_buffer_nat zone_decode_nat
      hammer_is_zone_direct_xlated_def hammer_is_index_direct_xlated_def)

section \<open>Access through the translation\<close>

lemma get_volume_keeps:
  assumes "keeps R s t" and "good D s" and "good D' t"
  shows "get_volume t n = get_volume s n"
proof -
  have f: "frame t = frame s" "frame s = frame t" using assms(1) by (simp_all add: keeps_def)
  note V = wfsD(1) [OF goodD(1) [OF assms(2)]] wfsD(1) [OF goodD(1) [OF assms(3)]]
  show ?thesis
    using get_volume_frame [OF f(1) V, of n] get_volume_frame [OF f(2) V(2,1), of n]
    by (cases "get_volume s n"; cases "get_volume t n") auto
qed

lemma freemap_keeps:
  assumes k: "keeps R s t" and g: "good D s" and g': "good D' t" and f: "freemap_ok s"
  shows "root_ondisk t = root_ondisk s" "freemap_phys t = freemap_phys s" "vol_of t = vol_of s"
    "layer1_at t = layer1_at s" "dive_spec t = dive_spec s" "lookup_spec t = lookup_spec s" "freemap_ok t"
proof -
  have fr: "frame t = frame s" using k by (simp add: keeps_def)
  note gv = get_volume_keeps [OF k g g']
  obtain vi where vi: "get_root_volume s = Some vi" using freemap_okD(1) [OF f] by blast
  then show ro: "root_ondisk t = root_ondisk s"
    using gv get_volume_Some(1) frame_fields [OF fr] by (auto simp: root_ondisk_def get_root_volume_def)
  then show fp: "freemap_phys t = freemap_phys s" by (simp add: freemap_phys_def)
  show vo: "vol_of t = vol_of s" using gv by (simp add: vol_of_def fun_eq_iff)
  have in_range: "vol_of s F < length (VolList s)" if "bigblock_in s F (vol_of s F)" for F
    using that get_volume_Some(1) by (auto simp: bigblock_in_def)
  show l1: "layer1_at t = layer1_at s"
    unfolding layer1_at_def fp vo by (simp add: Let_def media_bytes_keeps [OF k in_range [OF freemap_okD(3) [OF f]]])
  show d: "dive_spec t = dive_spec s"
  proof (intro ext)
    fix zone off
    show "dive_spec t zone off = dive_spec s zone off"
      unfolding dive_spec_def l1 layer2_at_def vo Let_def
      using media_bytes_keeps [OF k in_range [OF freemap_okD(4) [OF f, of off]]] by simp
  qed
  show "lookup_spec t = lookup_spec s"
    by (intro ext) (simp only: lookup_spec_def ro d)
  show "freemap_ok t"
    using f bigblock_in_keeps [OF _ goodD(1) [OF g] goodD(1) [OF g'] fr] gv
    by (simp add: freemap_ok_def ro fp vo l1 Let_def get_root_volume_def)
qed

lemma lookup_spec_record:
  assumes "hammer_is_index_record (HAMMER_ZONE_DECODE a)" and "lookup_spec s a = Inr (z, 0, l1, l2)"
  shows "z = hammer_xlate_to_zone2 a"
  using assms by (auto simp: lookup_spec_def dive_spec_def hammer_is_index_record_def
      HAMMER_ZONE_BTREE_INDEX_def Let_def split: if_splits)

lemma buffer_data_zone_wp:
  assumes g: "good D s" and f: "freemap_ok s" and a: "hammer_is_index_record (HAMMER_ZONE_DECODE a)"
    and l: "lookup_spec s a = Inr (z, 0, l1, l2)" and p: "place s (z AND NOT HAMMER_BUFMASK64) vi"
    and h: "holds D s bp"
  shows "wp (buffer_data (Suc n) a bp 0) (\<lambda>(r, bp') t. \<exists>b x. r = Some (b, unat a mod 16384) \<and>
      bp' = Some b \<and> good D t \<and> keeps (\<lambda>b'. ref1 bp' b' - ref1 bp b') s t \<and>
      buffers t b = Some x \<and> buf_zone2_offset x = z AND NOT HAMMER_BUFMASK64 \<and> 0 < cache_refs x) s"
proof -
  note z = lookup_spec_record [OF a l]
  note Z = xlate_zone2_class [of a, folded z] and A = index_record_class [OF a]
  show ?thesis
    unfolding buffer_data_def
  proof (rule get_buffer_data_core [OF g Z(1) Z(3) [symmetric] _ h])
    fix t assume t: "good D t" "keeps (\<lambda>b'. - ref1 bp b') s t"
    note T = freemap_keeps(6,7) [OF t(2) g t(1) f]
    show "wp (get_buffer (blockmap_lookup (Suc n)) a 0) (\<lambda>r u. \<exists>b x. r = Some b \<and> good D u \<and>
      keeps (\<lambda>b'. if b' = b then 1 else 0) t u \<and> buffers u b = Some x \<and>
      buf_zone2_offset x = z AND NOT HAMMER_BUFMASK64 \<and> 0 < cache_refs x) t"
    proof (rule get_buffer_xlate_wp [OF A(3) Z(1)])
      show "wp (blockmap_lookup (Suc n) a) (\<lambda>r u. r = (z, 0) \<and> good D u \<and> keeps (\<lambda>_. 0) t u) t"
        by (rule blockmap_lookup_wp [OF t(1) T(2)]) (simp add: T(1) l)
    next
      fix u assume u: "good D u \<and> keeps (\<lambda>_. 0) t u"
      have k: "keeps (\<lambda>b'. - ref1 bp b') s u" using keeps_trans [OF t(2), of "\<lambda>_. 0" u] u by simp
      have "place u (z AND NOT HAMMER_BUFMASK64) vi"
        using place_keeps [OF p goodD(1) [OF g] goodD(1) [OF conjunct1 [OF u]]] k by (simp add: keeps_def)
      from get_buffer_wp [OF _ Z(1) this, of D "blockmap_lookup (Suc n)"] u
      show "wp (get_buffer (blockmap_lookup (Suc n)) z 0) (\<lambda>r u. \<exists>b x. r = Some b \<and> good D u \<and>
        keeps (\<lambda>b'. if b' = b then 1 else 0) t u \<and> buffers u b = Some x \<and>
        buf_zone2_offset x = z AND NOT HAMMER_BUFMASK64 \<and> 0 < cache_refs x) u"
        using keeps_trans [of "\<lambda>_. 0" t u] by (auto elim!: wp_mono)
    qed
  qed (use A Z in simp_all)
qed

end
