(* ===== verification/Buffer_Properties.thy ===== *)
theory Buffer_Properties
  imports Media_Access
begin

text \<open>
  A concrete file system of one volume with four big-blocks, on which the theorems about the buffer
  cache and the blockmap are applied: big-block 0 holds the freemap layer 1, big-block 1 the layer 2,
  and every entry of a layer is the same.  The theory ends with the properties of these components.
\<close>

section \<open>An example volume\<close>

definition example_layer1 :: hammer_blockmap_layer1 where
  "example_layer1 = \<lparr>l1_blocks_free = 2, l1_phys_offset = 0x2000000000800000, l1_reserved01 = 0,
     l1_layer2_crc = 0, l1_layer1_crc = 0\<rparr>"

definition example_layer2 :: "u8 \<Rightarrow> hammer_blockmap_layer2" where
  "example_layer2 zone = \<lparr>l2_zone = zone, l2_reserved01 = 0, l2_reserved02 = 0, l2_append_off = 0,
     l2_bytes_free = 0x800000, l2_entry_crc = 0\<rparr>"

definition example_bytes :: "u8 \<Rightarrow> nat \<Rightarrow> u8" where
  "example_bytes zone i =
     (if i < 16384 then 0
      else if i < 16384 + 2 ^ 23 then layer1_bytes example_layer1 ! ((i - 16384) mod 32)
      else if i < 16384 + 2 ^ 24 then layer2_bytes (example_layer2 zone) ! ((i - 16384) mod 16)
      else 0)"

definition example_blockmap :: "hammer_blockmap list" where
  "example_blockmap = (let z = \<lparr>bm_phys_offset = 0, bm_first_offset = 0, bm_next_offset = 0,
       bm_alloc_offset = 0, bm_reserved01 = 0, bm_entry_crc = 0\<rparr> in
     (replicate 16 z)[4 := z\<lparr>bm_phys_offset := 0x2000000000000000\<rparr>,
       8 := z\<lparr>bm_next_offset := 0x8000000001000000, bm_alloc_offset := 0x8FFFFFFFFFFFFFFF\<rparr>])"

definition example_volume :: volume_info where
  "example_volume = \<lparr>v_name = ''vol'', v_type = ''REGFILE'', v_vol_no = 0, v_rdonly = False, v_fd = 3,
     v_size = 0, v_device_offset = 0, v_free_off = 0, v_free_end = 0,
     v_ondisk = volume_blank\<lparr>vol_buf_beg := 16384, vol_buf_end := 16384 + 4 * 0x800000,
       vol0_blockmap := example_blockmap\<rparr>,
     v_tail = replicate (16384 - 1928) 0,
     v_buffer_lists = replicate 64 []\<rparr>"

definition example_state :: "u8 \<Rightarrow> hammer_state" where
  "example_state zone = \<lparr>VolList = [example_volume], valid_hammer_volumes = 1,
     buffers = (\<lambda>_. None), next_buffer = 0, CacheList = [], CacheUse = 0, CacheMax = 16 * 1024 * 1024,
     UseReadBehind = - 4, UseReadAhead = 4, HammerVersion = 7, Hammer_FSType = replicate 16 0,
     Hammer_FSId = replicate 16 0,
     devices = (\<lambda>_. \<lparr>dev_bytes = example_bytes zone, dev_read_ok = (\<lambda>_. True), dev_write_ok = (\<lambda>_. True)\<rparr>)\<rparr>"

lemma example_good: "good {} (example_state zone)"
  by (simp add: good_def wfs_def vols_ok_def vol_ok_def area_ok_def io_ok_def lists_ok_def bufs_ok_def
      coherent_def example_state_def example_volume_def)

lemma example_root: "get_volume (example_state zone) 0 = Some 0" "get_root_volume (example_state zone) = Some 0"
  "root_ondisk (example_state zone) = v_ondisk example_volume"
  by (simp_all add: root_ondisk_def get_root_volume_def get_volume_def HAMMER_ROOT_VOLNO_def
      example_state_def example_volume_def)

lemma example_area: "vol_beg (example_state zone) 0 = 16384" "vol_area (example_state zone) 0 = 2 ^ 25"
  by (simp_all add: vol_area_def vol_beg_def example_state_def example_volume_def)

lemma example_media: "media (example_state zone) 0 a = example_bytes zone (16384 + a)"
  unfolding media_def disk_def example_area by (simp add: example_state_def)

lemma example_formatted: "\<forall>vj<length (VolList (example_state zone)). formatted (example_state zone) vj"
proof -
  have "volume_shape (v_ondisk example_volume)"
    by (simp add: volume_shape_def example_volume_def volume_blank_def example_blockmap_def Let_def)
  from length_volume_bytes [OF this] have "formatted (example_state zone) 0"
    unfolding formatted_def example_area by (simp add: example_state_def) (simp add: example_volume_def)
  then show ?thesis by (simp add: example_state_def)
qed

lemma entry_in_block:
  fixes k :: nat
  assumes "k dvd off" "k dvd n" "off < n" "i < k"
  shows "off + i < n" "(off + i) mod k = i"
proof -
  obtain p q where "off = k * p" "n = k * q" using assms(1,2) by (auto elim!: dvdE)
  moreover have "k * p + k \<le> k * q" if "k * p < k * q"
    using that mult_le_mono2 [of "Suc p" q k] by simp
  ultimately show "off + i < n" "(off + i) mod k = i" using assms(3,4) by auto
qed

lemma example_bigblock:
  "bigblock_in (example_state zone) 0x2000000000000000 0" "bigblock_in (example_state zone) 0x2000000000800000 0"
  by (simp_all add: bigblock_in_def example_root example_area HAMMER_VOL_DECODE_def raw_buffer_nat)

lemma example_vol_of: "vol_of (example_state zone) 0x2000000000000000 = 0" "vol_of (example_state zone) 0x2000000000800000 = 0"
  by (simp_all add: vol_of_def HAMMER_VOL_DECODE_def example_root)

lemma example_freemap_phys: "freemap_phys (example_state zone) = 0x2000000000000000"
  by (simp add: freemap_phys_def example_root example_volume_def example_blockmap_def Let_def)

lemma example_layer1_at: "layer1_at (example_state zone) off = example_layer1"
proof -
  let ?o = "unat (HAMMER_BLOCKMAP_LAYER1_OFFSET off)"
  have d: "32 dvd ?o" unfolding layer1_offset_nat(1) by simp
  have "media_bytes (example_state zone) 0 ?o 32 = layer1_bytes example_layer1"
  proof (rule nth_equalityI)
    fix i assume "i < length (media_bytes (example_state zone) 0 ?o 32)"
    then have i: "i < 32" by (simp add: media_bytes_def)
    note E = entry_in_block [OF d _ layer1_offset_nat(2) i, simplified]
    show "media_bytes (example_state zone) 0 ?o 32 ! i = layer1_bytes example_layer1 ! i"
      using i E by (simp add: media_bytes_def example_media example_bytes_def)
  qed (simp add: media_bytes_def)
  then show ?thesis
    by (simp add: layer1_at_def example_freemap_phys example_vol_of)
qed

lemma example_layer2_at: "layer2_at (example_state zone) off = example_layer2 zone"
proof -
  let ?o = "unat (HAMMER_BLOCKMAP_LAYER2_OFFSET off)"
  have d: "16 dvd ?o" unfolding layer2_offset_nat(1) by simp
  have "media_bytes (example_state zone) 0 (2 ^ 23 + ?o) 16 = layer2_bytes (example_layer2 zone)"
  proof (rule nth_equalityI)
    fix i assume "i < length (media_bytes (example_state zone) 0 (2 ^ 23 + ?o) 16)"
    then have i: "i < 16" by (simp add: media_bytes_def)
    note E = entry_in_block [OF d _ layer2_offset_nat(2) i, simplified]
    have "(8388608 + (?o + i)) mod 16 = i" using E(2) mod_mult_self3 [of 524288 16 "?o + i"] by simp
    then show "media_bytes (example_state zone) 0 (2 ^ 23 + ?o) 16 ! i = layer2_bytes (example_layer2 zone) ! i"
      using i E(1) by (simp add: media_bytes_def example_media example_bytes_def add.assoc)
  qed (simp add: media_bytes_def)
  then show ?thesis
    by (simp add: layer2_at_def example_layer1_at) (simp add: example_layer1_def example_vol_of)
qed

lemma example_freemap: "freemap_ok (example_state zone)"
  by (simp add: freemap_ok_def example_root example_layer1_at example_freemap_phys example_vol_of example_bigblock)
   (simp add: example_layer1_def example_vol_of example_bigblock example_volume_def example_blockmap_def Let_def)

lemma example_place: "place (example_state zone) (0x2000000001002400 AND NOT HAMMER_BUFMASK64) 0"
  by (simp add: place_def example_root example_area HAMMER_VOL_DECODE_def raw_buffer_nat HAMMER_BUFMASK64_def)

lemma example_lookup:
  "lookup_spec (example_state 8) 0x8000000001002400 = Inr (0x2000000001002400, 0, example_layer1, example_layer2 8)"
  by (simp add: lookup_spec_def dive_spec_def example_layer1_at example_layer2_at zone_decode_nat Let_def
      example_root example_volume_def)
    (simp add: example_blockmap_def example_layer1_def example_layer2_def HAMMER_BLOCKMAP_UNAVAIL_def
      hammer_xlate_to_zone2_def hammer_xlate_to_zoneX_def HAMMER_ZONE_ENCODE_def HAMMER_OFF_ZONE_MASK_def
      HAMMER_ZONE_RAW_BUFFER_INDEX_def Let_def)

text \<open>The example volume with one modified, unreferenced buffer in a full cache.\<close>

definition example_buffer :: buffer_info where
  "example_buffer = \<lparr>cache_refs = 0, cache_modified = True, cache_delete = False,
     buf_zone2_offset = 0x2000000001000000, buf_raw_offset = 16384 + 0x1000000, buf_volume = 0,
     buf_ondisk = (\<lambda>_. 7)\<rparr>"

definition example_cached :: hammer_state where
  "example_cached = (example_state 8)\<lparr>
     VolList := [example_volume\<lparr>v_buffer_lists :=
       (replicate 64 [])[buffer_hash 0x2000000001000000 := [0]]\<rparr>],
     buffers := [0 \<mapsto> example_buffer], next_buffer := 1, CacheList := [0], CacheUse := 16384,
     CacheMax := 16384\<rparr>"

lemma example_cached_bufs: "buffers example_cached b = Some x \<longleftrightarrow> b = 0 \<and> x = example_buffer"
  by (auto simp: example_cached_def)

lemma example_cached_vol:
  "length (VolList example_cached) = 1" "v_ondisk (VolList example_cached ! 0) = v_ondisk example_volume"
  "v_tail (VolList example_cached ! 0) = v_tail example_volume"
  "vol_beg example_cached 0 = 16384" "vol_area example_cached 0 = 2 ^ 25"
  by (simp_all add: vol_area_def vol_beg_def example_cached_def example_volume_def)

lemma example_cached_good: "good {} example_cached"
proof -
  let ?h = "buffer_hash 0x2000000001000000"
  have "wfs {} example_cached"
    unfolding wfs_def
  proof (intro conjI)
    show "vols_ok example_cached"
      by (simp add: vols_ok_def vol_ok_def area_ok_def example_cached_def example_volume_def)
    show "io_ok example_cached" by (simp add: io_ok_def example_cached_def example_state_def)
    have "hi < 64 \<Longrightarrow> (replicate 64 [])[?h := [0 :: nat]] ! hi = (if hi = ?h then [0] else [])" for hi
      using buffer_hash_less [of "0x2000000001000000"] by (simp add: nth_list_update)
    then show "lists_ok example_cached"
      by (auto simp: lists_ok_def example_cached_def example_buffer_def)
    have "buf_volume example_buffer = 0" by (simp add: example_buffer_def)
    then have "buf_ok example_cached 0 example_buffer"
      unfolding buf_ok_def example_cached_vol \<open>buf_volume example_buffer = 0\<close>
      by (simp add: example_cached_def example_volume_def example_buffer_def raw_buffer_nat HAMMER_VOL_DECODE_def
          hammer_xlate_to_phys_def buf_short_def HAMMER_OFF_SHORT_ENCODE_def HAMMER_OFF_SHORT_MASK_def)
    then show "bufs_ok example_cached" by (simp add: bufs_ok_def example_cached_bufs)
    show "coherent {} example_cached"
      by (simp add: coherent_def example_cached_def example_buffer_def example_volume_def)
  qed
  then show ?thesis by (simp add: good_def example_cached_def example_buffer_def)
qed

lemma example_cached_media: "media example_cached 0 0x1000000 = 7"
  by (simp add: media_def covers_def example_cached_def example_buffer_def buf_short_def)

lemma example_cached_formatted: "\<forall>vj<length (VolList example_cached). formatted example_cached vj"
proof -
  have "formatted (example_state 8) 0" using example_formatted [of 8] by (simp add: example_state_def)
  then have "formatted example_cached 0"
    unfolding formatted_def example_cached_vol by (simp add: example_state_def)
  then show ?thesis by (simp add: example_cached_vol)
qed

section \<open>Properties\<close>

text \<open>
  C2: \<open>get_buffer_data\<close> returns the data of a zone offset.  On a state that satisfies the cache
  invariant, for an offset of a record zone that the freemap of the media translates, the call
  returns, within the recursion of one translation, a pointer through which the caller reads the
  bytes of the translated place; the caller holds one more reference to that buffer and one less to
  the buffer it passed in; the invariant, every other reference and the whole media are unchanged,
  although the call may read ahead and evict and write back other buffers.
\<close>

theorem buffer_data_reads_media:
  assumes g: "good D s" and f: "freemap_ok s" and a: "hammer_is_index_record (HAMMER_ZONE_DECODE a)"
    and l: "lookup_spec s a = Inr (z, 0, l1, l2)" and p: "place s (z AND NOT HAMMER_BUFMASK64) vi"
    and h: "holds D s bp" and k: "unat z mod 16384 + k \<le> 16384"
  shows "\<exists>b x t. buffer_data (Suc n) a bp 0 s = Inr ((Some (b, unat z mod 16384), Some b), t) \<and>
    buffers t b = Some x \<and> 0 < cache_refs x \<and>
    read_bytes (buf_ondisk x) (unat z mod 16384) k = media_bytes s vi (unat z mod 2 ^ 52) k \<and>
    good D t \<and> keeps (\<lambda>b'. ref1 (Some b) b' - ref1 bp b') s t"
proof -
  from buffer_data_zone_wp [OF g f a l p h, of n]
  obtain r bp' t where r: "buffer_data (Suc n) a bp 0 s = Inr ((r, bp'), t)" and
    "\<exists>b x. r = Some (b, unat a mod 16384) \<and> bp' = Some b \<and> good D t \<and>
      keeps (\<lambda>b'. ref1 bp' b' - ref1 bp b') s t \<and> buffers t b = Some x \<and>
      buf_zone2_offset x = z AND NOT HAMMER_BUFMASK64 \<and> 0 < cache_refs x"
    unfolding wp_def by auto
  then obtain b x where b: "r = Some (b, unat a mod 16384)" "bp' = Some b" "good D t"
    "keeps (\<lambda>b'. ref1 bp' b' - ref1 bp b') s t" "buffers t b = Some x"
    "buf_zone2_offset x = z AND NOT HAMMER_BUFMASK64" "0 < cache_refs x" by blast
  have "place t (buf_zone2_offset x) vi"
    unfolding b(6) using place_keeps [OF p goodD(1) [OF g] goodD(1) [OF b(3)]] b(4) by (simp add: keeps_def)
  then have v: "buf_volume x = vi" by (rule buf_volume_place [OF goodD(1) [OF b(3)] b(5)])
  have vi: "vi < length (VolList s)" using p get_volume_Some(1) by (auto simp: place_def)
  have za: "unat a mod 16384 = unat z mod 16384"
    using lookup_spec_record [OF a l] xlate_zone2_class(3) [of a] by simp
  have "read_bytes (buf_ondisk x) (unat z mod 16384) k = media_bytes s vi (unat z mod 2 ^ 52) k"
    using buffer_media [OF goodD(1) [OF b(3)] b(5,6) k] unfolding v media_bytes_keeps [OF b(4) vi] .
  then show ?thesis using r b za by auto
qed

theorem buffer_data_reads_media_witness:
  "\<exists>b x t. buffer_data 1 0x8000000001002400 None 0 (example_state 8) = Inr ((Some (b, 9216), Some b), t) \<and>
    buffers t b = Some x \<and> 0 < cache_refs x \<and>
    read_bytes (buf_ondisk x) 9216 64 = media_bytes (example_state 8) 0 16786432 64 \<and> good {} t"
proof -
  have a: "hammer_is_index_record (HAMMER_ZONE_DECODE 0x8000000001002400)"
    by (simp add: hammer_is_index_record_def zone_decode_nat HAMMER_ZONE_BTREE_INDEX_def HAMMER_MAX_ZONES_def)
  have h: "holds {} (example_state 8) None" by (simp add: holds_def)
  have u: "unat (0x2000000001002400 :: u64) mod 16384 = 9216" "unat (0x2000000001002400 :: u64) mod 2 ^ 52 = 16786432"
    by simp_all
  from buffer_data_reads_media [OF example_good example_freemap a example_lookup example_place h, of 64 0, unfolded u]
  show ?thesis by auto
qed

text \<open>
  C4: \<open>hammer_cache_flush\<close> bounds the cache and loses nothing.  It always returns; when the cache was
  over its limit it is below half the limit afterwards, unless every buffer left is referenced; the
  invariant, all references and the media are as before, so a modified buffer was written back
  before it was freed.
\<close>

theorem cache_flush_bounds_cache:
  assumes "good D s"
  shows "\<exists>t. hammer_cache_flush s = Inr ((), t) \<and> good D t \<and> keeps (\<lambda>_. 0) s t \<and>
    (CacheMax s \<le> CacheUse s \<longrightarrow> CacheUse t < CacheMax t div 2 \<or>
       (\<forall>b x. buffers t b = Some x \<longrightarrow> 0 < cache_refs x))"
  using hammer_cache_flush_wp [OF assms] by (auto simp: wp_def low_water_def all_referenced_def)

theorem cache_flush_bounds_cache_witness:
  "\<exists>t. hammer_cache_flush example_cached = Inr ((), t) \<and> good {} t \<and> media t 0 0x1000000 = 7 \<and>
    (CacheUse t < CacheMax t div 2 \<or> (\<forall>b x. buffers t b = Some x \<longrightarrow> 0 < cache_refs x))"
proof -
  have "CacheMax example_cached \<le> CacheUse example_cached" by (simp add: example_cached_def)
  moreover from cache_flush_bounds_cache [OF example_cached_good] obtain t where
    "hammer_cache_flush example_cached = Inr ((), t)" "good {} t" "keeps (\<lambda>_. 0) example_cached t"
    "CacheMax example_cached \<le> CacheUse example_cached \<longrightarrow> CacheUse t < CacheMax t div 2 \<or>
       (\<forall>b x. buffers t b = Some x \<longrightarrow> 0 < cache_refs x)" by blast
  ultimately show ?thesis
    using example_cached_media by (auto simp: keeps_def example_cached_vol)
qed

text \<open>
  C3: \<open>flush_all_volumes\<close> makes the devices hold the file system.  It returns, and afterwards the
  buffer area of every volume's device is the media as it was before the call, modified buffers
  included, and the first 16 KB of every writable device are the volume header in memory.
\<close>

theorem flush_all_volumes_writes_media:
  assumes "good {} s" and "\<forall>vi<length (VolList s). formatted s vi"
  shows "\<exists>t. flush_all_volumes s = Inr ((), t) \<and> good {} t \<and> keeps (\<lambda>_. 0) s t \<and> VolList t = VolList s \<and>
    (\<forall>vi<length (VolList s).
       (\<forall>a. dev_bytes (devices t (v_fd (VolList s ! vi))) (vol_beg s vi + a) = media s vi a) \<and>
       (\<not> v_rdonly (VolList s ! vi) \<longrightarrow> (\<forall>i<16384. dev_bytes (devices t (v_fd (VolList s ! vi))) i =
          (volume_bytes (v_ondisk (VolList s ! vi)) @ v_tail (VolList s ! vi)) ! i)))"
proof -
  from flush_all_volumes_wp [OF assms] obtain t where t: "flush_all_volumes s = Inr ((), t)" "good {} t"
    "keeps (\<lambda>_. 0) s t" and v: "VolList t = VolList s"
    and d: "\<forall>vi<length (VolList s). (\<forall>a. disk t vi a = media s vi a) \<and> header_written t vi"
    unfolding wp_def by auto
  have "vol_beg t = vol_beg s" by (simp add: vol_beg_def fun_eq_iff v)
  with d show ?thesis
    by (intro exI [of _ t]) (simp add: t v disk_def header_written_def on_device_def header_bytes_def)
qed

theorem flush_all_volumes_writes_media_witness:
  "\<exists>t. flush_all_volumes example_cached = Inr ((), t) \<and>
    dev_bytes (devices t 3) (16384 + 0x1000000) = 7"
proof -
  from flush_all_volumes_writes_media [OF example_cached_good example_cached_formatted]
  obtain t where t: "flush_all_volumes example_cached = Inr ((), t)"
    and d: "\<forall>vi<length (VolList example_cached).
      (\<forall>a. dev_bytes (devices t (v_fd (VolList example_cached ! vi))) (vol_beg example_cached vi + a) =
        media example_cached vi a) \<and>
      (\<not> v_rdonly (VolList example_cached ! vi) \<longrightarrow> (\<forall>i<16384. dev_bytes (devices t (v_fd (VolList example_cached ! vi))) i =
        (volume_bytes (v_ondisk (VolList example_cached ! vi)) @ v_tail (VolList example_cached ! vi)) ! i))"
    by (elim exE conjE)
  have "v_fd (VolList example_cached ! 0) = 3" by (simp add: example_cached_def example_volume_def)
  moreover have "dev_bytes (devices t (v_fd (VolList example_cached ! 0))) (vol_beg example_cached 0 + 0x1000000) =
      media example_cached 0 0x1000000"
    using d by (simp only: example_cached_vol(1) less_one)
  ultimately show ?thesis
    using t example_cached_media by (simp only: example_cached_vol) blast
qed

text \<open>
  C1: \<open>blockmap_lookup\<close> implements the two-layer freemap.  On a state that satisfies the cache
  invariant and whose freemap is usable, the call returns exactly the offset and the error code that
  the specification reads off the media: the zone checks, the direct zones, the UNDO array and the
  dive through layer 1 and layer 2.  One level of recursion suffices, and neither the media nor any
  reference changes.
\<close>

theorem blockmap_lookup_refines:
  assumes "good D s" and "freemap_ok s" and "lookup_spec s z = Inr (off, error, l1, l2)"
  shows "\<exists>t. blockmap_lookup (Suc n) z s = Inr ((off, error), t) \<and> good D t \<and> keeps (\<lambda>_. 0) s t"
  using blockmap_lookup_wp [OF assms, of n] by (auto simp: wp_def)

theorem blockmap_lookup_refines_witness:
  "\<exists>t. blockmap_lookup 1 0x8000000001002400 (example_state 8) = Inr ((0x2000000001002400, 0), t) \<and> good {} t"
  using blockmap_lookup_refines [OF example_good example_freemap example_lookup, of 0] by auto

end
