(* ===== verification/Freemap_Format.thy ===== *)
theory Freemap_Format
  imports Media_Access
begin

text \<open>
  Formatting, from the end of \<open>sbin/hammer/ondisk.c\<close>: the blockmaps of the volume header, the freemap
  with its two layers, the count of free big-blocks, the UNDO area, and the allocation of nodes and
  records.  As in the translation, \<open>depth\<close> bounds the recursion of \<open>blockmap_lookup\<close>.
\<close>

section \<open>Blockmaps of the header\<close>

definition format_blockmap :: "nat \<Rightarrow> int \<Rightarrow> u64 \<Rightarrow> unit hio" where
  "format_blockmap vi zone offset =
     bindS (get_vol vi) (\<lambda>root_vol.
     bindS (assertS (v_vol_no root_vol = HAMMER_ROOT_VOLNO) ''vol_no == HAMMER_ROOT_VOLNO'') (\<lambda>_.
     bindS (assertS (hammer_is_index_record zone) ''hammer_is_index_record(zone)'') (\<lambda>_.
     bindS (getS HammerVersion) (\<lambda>version.
     let zone_base = HAMMER_ZONE_ENCODE zone offset in
     upd_blockmap vi zone (\<lambda>_. hammer_crc_set_blockmap version
       \<lparr>bm_phys_offset = 0, bm_first_offset = zone_base, bm_next_offset = zone_base,
        bm_alloc_offset = HAMMER_ENCODE zone 255 (- 1), bm_reserved01 = 0, bm_entry_crc = 0\<rparr>)))))"

section \<open>The freemap\<close>

definition format_layer1 :: "nat \<Rightarrow> u64 \<Rightarrow> nat \<Rightarrow> nat option \<Rightarrow> nat option hio" where
  "format_layer1 depth layer1_offset i buffer =
     bindS (getS HammerVersion) (\<lambda>version.
     bindS (buffer_data depth (layer1_offset + of_nat i) buffer (if i mod 16384 = 0 then 1 else 0)) (\<lambda>(p, buffer).
     bindS (nonnull p ''layer1'') (\<lambda>p.
     bindS (upd_layer1 p (\<lambda>_. hammer_crc_set_layer1 version
       (layer1_zero\<lparr>l1_phys_offset := HAMMER_BLOCKMAP_UNAVAIL, l1_blocks_free := 0\<rparr>))) (\<lambda>_.
     returnS buffer))))"

definition format_freemap :: "nat \<Rightarrow> nat \<Rightarrow> unit hio" where
  "format_freemap depth vi =
     bindS (get_vol vi) (\<lambda>root_vol.
     bindS (assertS (v_vol_no root_vol = HAMMER_ROOT_VOLNO) ''vol_no == HAMMER_ROOT_VOLNO'') (\<lambda>_.
     bindS (bootstrap_bigblock vi) (\<lambda>layer1_offset.
     bindS (forS (map (\<lambda>k. k * 32) [0..<nat HAMMER_BIGBLOCK_SIZE div 32]) (format_layer1 depth layer1_offset) None) (\<lambda>buffer.
     bindS (rel_buffer buffer) (\<lambda>_.
     bindS (getS HammerVersion) (\<lambda>version.
     upd_blockmap vi HAMMER_ZONE_FREEMAP_INDEX (\<lambda>_. hammer_crc_set_blockmap version
       \<lparr>bm_phys_offset = layer1_offset, bm_first_offset = 0, bm_next_offset = HAMMER_ENCODE_RAW_BUFFER 0 0,
        bm_alloc_offset = HAMMER_ENCODE_RAW_BUFFER 255 (- 1), bm_reserved01 = 0, bm_entry_crc = 0\<rparr>)))))))"

text \<open>
  The values of a loop variable that runs from \<open>p\<close> to \<open>e\<close> in steps of \<open>d\<close>: the loops below end at a
  multiple of their step, so the variable does not wrap.
\<close>

definition offsets :: "u64 \<Rightarrow> u64 \<Rightarrow> u64 \<Rightarrow> u64 list" where
  "offsets p e d = map (\<lambda>k. p + of_nat k * d) [0..<(unat e - unat p + unat d - 1) div unat d]"

definition init_layer1 :: "nat \<Rightarrow> nat \<Rightarrow> nat \<Rightarrow> u64 \<Rightarrow> nat option \<Rightarrow> nat option hio" where
  "init_layer1 depth root vi phys_offset buffer1 =
     bindS (getS HammerVersion) (\<lambda>version.
     bindS (get_vol root) (\<lambda>root_vol.
     let freemap = vol_blockmap root_vol HAMMER_ZONE_FREEMAP_INDEX in
     bindS (buffer_data depth (bm_phys_offset freemap + HAMMER_BLOCKMAP_LAYER1_OFFSET phys_offset) buffer1 0) (\<lambda>(p, buffer1).
     bindS (nonnull p ''layer1'') (\<lambda>p.
     bindS (load_layer1 p) (\<lambda>layer1.
     bindS (whenS (l1_phys_offset layer1 = HAMMER_BLOCKMAP_UNAVAIL)
         (bindS (bootstrap_bigblock vi) (\<lambda>off.
          bindS (upd_layer1 p (\<lambda>l. l\<lparr>l1_phys_offset := off, l1_blocks_free := 0\<rparr>)) (\<lambda>_.
          bindS (set_modified buffer1) (\<lambda>_.
          upd_layer1 p (hammer_crc_set_layer1 version)))))) (\<lambda>_.
     returnS buffer1))))))"

text \<open>The entry of one big-block, and whether it counts as free.\<close>

definition layer2_entry :: "volume_info \<Rightarrow> u64 \<Rightarrow> hammer_blockmap_layer2" where
  "layer2_entry volume off =
     (if off < v_free_off volume then
        layer2_zero\<lparr>l2_zone := word_of_int HAMMER_ZONE_FREEMAP_INDEX,
          l2_append_off := word_of_int HAMMER_BIGBLOCK_SIZE, l2_bytes_free := 0\<rparr>
      else if off < v_free_end volume then
        layer2_zero\<lparr>l2_zone := 0, l2_append_off := 0, l2_bytes_free := word_of_int HAMMER_BIGBLOCK_SIZE\<rparr>
      else
        layer2_zero\<lparr>l2_zone := word_of_int HAMMER_ZONE_UNAVAIL_INDEX,
          l2_append_off := word_of_int HAMMER_BIGBLOCK_SIZE, l2_bytes_free := 0\<rparr>)"

definition is_free_block :: "volume_info \<Rightarrow> u64 \<Rightarrow> bool" where
  "is_free_block volume off \<longleftrightarrow> \<not> off < v_free_off volume \<and> off < v_free_end volume"

definition init_layer2 :: "nat \<Rightarrow> nat \<Rightarrow> ptr \<Rightarrow> u64 \<Rightarrow> nat \<Rightarrow> nat option \<times> int \<Rightarrow> (nat option \<times> int) hio" where
  "init_layer2 depth vi p1 phys_offset k = (\<lambda>(buffer2, layer1_count).
     let block_offset = of_nat k * HAMMER_BIGBLOCK_SIZE64 in
     bindS (getS HammerVersion) (\<lambda>version.
     bindS (get_vol vi) (\<lambda>volume.
     bindS (load_layer1 p1) (\<lambda>layer1.
     bindS (buffer_data depth (l1_phys_offset layer1 + HAMMER_BLOCKMAP_LAYER2_OFFSET block_offset) buffer2 0) (\<lambda>(p2, buffer2).
     bindS (nonnull p2 ''layer2'') (\<lambda>p2.
     bindS (upd_layer2 p2 (\<lambda>_. hammer_crc_set_layer2 version (layer2_entry volume (phys_offset + block_offset)))) (\<lambda>_.
     bindS (set_modified buffer2) (\<lambda>_.
     returnS (buffer2,
       if is_free_block volume (phys_offset + block_offset) then layer1_count + 1 else layer1_count)))))))))"

definition init_layer2s :: "nat \<Rightarrow> nat \<Rightarrow> nat \<Rightarrow> u64 \<Rightarrow> nat option \<times> nat option \<times> int \<Rightarrow>
    (nat option \<times> nat option \<times> int) hio" where
  "init_layer2s depth root vi phys_offset = (\<lambda>(buffer1, buffer2, count).
     bindS (getS HammerVersion) (\<lambda>version.
     bindS (get_vol root) (\<lambda>root_vol.
     let freemap = vol_blockmap root_vol HAMMER_ZONE_FREEMAP_INDEX in
     bindS (buffer_data depth (bm_phys_offset freemap + HAMMER_BLOCKMAP_LAYER1_OFFSET phys_offset) buffer1 0) (\<lambda>(p, buffer1).
     bindS (nonnull p ''layer1'') (\<lambda>p.
     bindS (load_layer1 p) (\<lambda>layer1.
     bindS (assertS (l1_phys_offset layer1 \<noteq> HAMMER_BLOCKMAP_UNAVAIL) ''layer1->phys_offset'') (\<lambda>_.
     bindS (forS [0..<unat HAMMER_BLOCKMAP_LAYER2 div unat HAMMER_BIGBLOCK_SIZE64]
         (init_layer2 depth vi p phys_offset) (buffer2, 0)) (\<lambda>(buffer2, layer1_count).
     bindS (upd_layer1 p (\<lambda>l. hammer_crc_set_layer1 version
         (l\<lparr>l1_blocks_free := l1_blocks_free l + word_of_int layer1_count\<rparr>))) (\<lambda>_.
     bindS (set_modified buffer1) (\<lambda>_.
     returnS (buffer1, buffer2, count + layer1_count)))))))))))"

definition initialize_freemap :: "nat \<Rightarrow> nat \<Rightarrow> int hio" where
  "initialize_freemap depth vi =
     bindS (getS get_root_volume) (\<lambda>root.
     bindS (nonnull root ''root_vol'') (\<lambda>root.
     bindS (assert_volume_offset vi) (\<lambda>_.
     bindS (get_vol vi) (\<lambda>volume.
     let blocks = offsets (HAMMER_ENCODE_RAW_BUFFER (v_vol_no volume) 0)
           (HAMMER_BLOCKMAP_LAYER2_DOALIGN (v_free_end volume)) HAMMER_BLOCKMAP_LAYER2 in
     bindS (forS blocks (init_layer1 depth root vi) None) (\<lambda>buffer1.
     bindS (forS blocks (init_layer2s depth root vi) (buffer1, None, 0)) (\<lambda>(buffer1, buffer2, count).
     bindS (rel_buffer buffer1) (\<lambda>_.
     bindS (rel_buffer buffer2) (\<lambda>_.
     returnS count))))))))"

definition count_freemap :: "nat \<Rightarrow> int hio" where
  "count_freemap vi =
     bindS (get_vol vi) (\<lambda>volume.
     bindS (assert_volume_offset vi) (\<lambda>_.
     let beg = HAMMER_ENCODE_RAW_BUFFER (v_vol_no volume) 0;
         aligned_vol_free_end = HAMMER_BLOCKMAP_LAYER2_DOALIGN (v_free_end volume);
         vol_free_off = (if v_vol_no volume = HAMMER_ROOT_VOLNO then beg + HAMMER_BIGBLOCK_SIZE64 else beg);
         vol_free_off = foldl (\<lambda>off _. off + HAMMER_BIGBLOCK_SIZE64) vol_free_off
           (offsets beg aligned_vol_free_end HAMMER_BLOCKMAP_LAYER2) in
     returnS (foldl (\<lambda>count phys_offset.
         if phys_offset < vol_free_off then count
         else if phys_offset < v_free_end volume then count + 1 else count) 0
       (offsets beg aligned_vol_free_end HAMMER_BIGBLOCK_SIZE64))))"

end
