(* ===== verification/Media_Write.thy ===== *)
theory Media_Write
  imports Media_Access
begin

text \<open>
  Operations of \<open>sbin/hammer/ondisk.c\<close> that write: what they do to the media that the cache and the
  devices together present.  A pointer obtained by \<open>get_buffer_data\<close> is followed and stored through,
  and a buffer obtained as new is a block of zeroes.
\<close>

section \<open>What a writing operation does\<close>

text \<open>The places whose buffers are marked modified.\<close>

definition mods :: "hammer_state \<Rightarrow> u64 set" where
  "mods s = {buf_zone2_offset x | b x. buffers s b = Some x \<and> cache_modified x}"

text \<open>
  From \<open>s\<close> to \<open>t\<close> the media becomes \<open>M\<close>, at most the buffers of the places \<open>Z\<close> are marked in addition,
  the references change by \<open>R\<close>, and the buffers that stay are for the same places.
\<close>

definition writes :: "(nat \<Rightarrow> int) \<Rightarrow> u64 set \<Rightarrow> hammer_state \<Rightarrow> (nat \<Rightarrow> nat \<Rightarrow> u8) \<Rightarrow> hammer_state \<Rightarrow> bool" where
  "writes R Z s M t \<longleftrightarrow> frame t = frame s \<and> (\<forall>vi < length (VolList s). media t vi = M vi) \<and>
     (\<forall>b. refs_of t b = refs_of s b + R b) \<and> next_buffer s \<le> next_buffer t \<and> mods t \<subseteq> mods s \<union> Z \<and>
     (\<forall>b x'. buffers t b = Some x' \<longrightarrow> b < next_buffer s \<longrightarrow>
        (\<exists>x. buffers s b = Some x \<and> buf_zone2_offset x' = buf_zone2_offset x))"

lemma keeps_writes:
  assumes g: "wfs D s" and k: "keeps R s t"
  shows "writes R {} s (media s) t"
proof -
  have "mods t \<subseteq> mods s"
  proof
    fix z assume "z \<in> mods t"
    then obtain b x' where x': "buffers t b = Some x'" "cache_modified x'" "z = buf_zone2_offset x'" by (auto simp: mods_def)
    obtain x where x: "buffers s b = Some x" "cache_modified x"
      using k x' unfolding keeps_def same_bufs_def by blast
    have "b < next_buffer s" by (rule buf_okD(1) [OF wfsD(4) [OF g] x(1)])
    then have "buf_zone2_offset x' = buf_zone2_offset x"
      using k x x' unfolding keeps_def same_bufs_def by fastforce
    with x x'(3) show "z \<in> mods s" by (auto simp: mods_def)
  qed
  with k show ?thesis unfolding writes_def keeps_def same_bufs_def by (auto; metis)
qed

lemma writes_trans:
  assumes "writes R Z s M t" and "writes R' Z' t M' u"
  shows "writes (\<lambda>b. R b + R' b) (Z \<union> Z') s M' u"
proof -
  have "\<exists>x. buffers s b = Some x \<and> buf_zone2_offset x'' = buf_zone2_offset x"
    if u: "buffers u b = Some x''" "b < next_buffer s" for b x''
  proof -
    have "b < next_buffer t" using u(2) assms(1) by (simp add: writes_def)
    then obtain x' where "buffers t b = Some x'" "buf_zone2_offset x'' = buf_zone2_offset x'"
      using assms(2) u(1) unfolding writes_def by blast
    with assms(1) u(2) show ?thesis unfolding writes_def by fastforce
  qed
  moreover have "length (VolList t) = length (VolList s)"
    by (rule frame_vols(1)) (use assms(1) in \<open>simp add: writes_def\<close>)
  ultimately show ?thesis using assms by (auto simp: writes_def)
qed

lemma writes_held:
  assumes "wfs D s" and "writes R Z s M t" and "buffers s b = Some x" and "0 < refs_of t b"
  obtains x' where "buffers t b = Some x'" "buf_zone2_offset x' = buf_zone2_offset x" "cache_refs x' = cache_refs x + R b"
proof -
  from assms(4) obtain x' where x': "buffers t b = Some x'" by (auto simp: refs_of_def split: option.splits)
  have "b < next_buffer s" by (rule buf_okD(1) [OF wfsD(4) [OF assms(1)] assms(3)])
  with x' assms(2,3) have "buf_zone2_offset x' = buf_zone2_offset x" unfolding writes_def by (metis option.inject)
  moreover have "refs_of t b = refs_of s b + R b" using assms(2) by (simp add: writes_def)
  then have "cache_refs x' = cache_refs x + R b" using x' assms(3) by (simp add: refs_of_def)
  ultimately show thesis using that x' by blast
qed

text \<open>A block of bytes in the media.\<close>

definition put :: "(nat \<Rightarrow> nat \<Rightarrow> u8) \<Rightarrow> nat \<Rightarrow> nat \<Rightarrow> u8 list \<Rightarrow> nat \<Rightarrow> nat \<Rightarrow> u8" where
  "put M vi off bs vj a = (if vj = vi \<and> off \<le> a \<and> a < off + length bs then bs ! (a - off) else M vj a)"

section \<open>The content of a buffer\<close>

lemma upd_content:
  assumes g: "good D s" and x: "buffers s b = Some x" and r: "0 < cache_refs x"
    and y: "buf_zone2_offset y = buf_zone2_offset x" "buf_volume y = buf_volume x"
      "buf_raw_offset y = buf_raw_offset x" "cache_refs y = cache_refs x" "cache_delete y = cache_delete x"
    and m: "cache_modified y \<longrightarrow> \<not> v_rdonly (VolList s ! buf_volume x)" "cache_modified x \<longrightarrow> cache_modified y"
    and E: "E = (if cache_modified y then D - {b} else insert b D)"
  shows "good E (s\<lparr>buffers := (buffers s)(b \<mapsto> y)\<rparr>)"
    and "writes (\<lambda>_. 0) (if cache_modified y then {buf_zone2_offset x} else {}) s (\<lambda>vj a. if vj = buf_volume x \<and> a div 16384 * 16384 = buf_short x
      then buf_ondisk y (a mod 16384) else media s vj a) (s\<lparr>buffers := (buffers s)(b \<mapsto> y)\<rparr>)"
proof -
  note G = wfsD [OF goodD(1) [OF g]]
  let ?t = "s\<lparr>buffers := (buffers s)(b \<mapsto> y)\<rparr>"
  note p = upd_same_place [OF x y(1,2)]
  have "coherent E ?t"
    unfolding coherent_def
  proof (intro conjI allI impI)
    fix b' x' assume b': "buffers ?t b' = Some x'"
    show "\<not> v_rdonly (VolList ?t ! buf_volume x')" if "cache_modified x'"
      using b' that m y G(5) by (auto simp: coherent_def split: if_splits)
    show "buf_ondisk x' i = disk ?t (buf_volume x') (buf_short x' + i)"
      if "\<not> cache_modified x'" "b' \<notin> E" "i < 16384" for i
      using b' that E G(5) by (auto simp: coherent_def split: if_splits)
  next
    show "\<forall>b'\<in>E. \<exists>x'. buffers ?t b' = Some x' \<and> 0 < cache_refs x'"
      using G(5) E r y x by (auto simp: coherent_def split: if_splits)
  qed
  then show "good E ?t"
    using p(1,3) G r y x goodD(2) [OF g] io_ok_frame [of ?t s] by (auto simp: good_def wfs_def)
  have "mods ?t \<subseteq> mods s \<union> (if cache_modified y then {buf_zone2_offset x} else {})"
    using x y by (auto simp: mods_def split: if_splits)
  then show "writes (\<lambda>_. 0) (if cache_modified y then {buf_zone2_offset x} else {}) s (\<lambda>vj a. if vj = buf_volume x \<and> a div 16384 * 16384 = buf_short x
      then buf_ondisk y (a mod 16384) else media s vj a) ?t"
    using x y media_upd [OF G(1,4,3) x y(1,2)] by (auto simp: writes_def refs_of_def fun_eq_iff)
qed

section \<open>Access through a pointer\<close>

definition points :: "hammer_state \<Rightarrow> ptr \<Rightarrow> nat \<Rightarrow> nat \<Rightarrow> bool" where
  "points s p vi a \<longleftrightarrow> (\<exists>x. buffers s (fst p) = Some x \<and> 0 < cache_refs x \<and> buf_volume x = vi \<and>
     buf_short x + snd p = a)"

lemma block_index:
  assumes "16384 dvd (S :: nat)" and "o' < 16384"
  shows "(S + o') div 16384 * 16384 = S" and "(S + o') mod 16384 = o'"
  using assms by (auto elim!: dvdE)

lemma buf_short_dvd:
  assumes "bufs_ok s" and "buffers s b = Some x"
  shows "16384 dvd buf_short x"
proof -
  have "16384 dvd unat (buf_zone2_offset x)" by (rule buf_okD(4) [OF assms])
  moreover have "(16384 :: nat) dvd 2 ^ 52" by simp
  ultimately show ?thesis unfolding buf_short_def by (simp only: dvd_mod_iff)
qed

lemma pointed_media:
  assumes g: "wfs D s" and x: "buffers s b = Some x" and o': "o' < 16384"
  shows "media s (buf_volume x) (buf_short x + o') = buf_ondisk x o'"
proof -
  note G = wfsD [OF g]
  show ?thesis
    using media_cached [OF G(1,4,3) x refl, of "buf_short x + o'"] block_index [OF buf_short_dvd [OF G(4) x] o'] by simp
qed

lemma points_load:
  assumes g: "wfs D s" and p: "points s p vi a" and n: "snd p + n \<le> 16384"
  shows "wp (load p n) (\<lambda>bs t. bs = media_bytes s vi a n \<and> t = s) s"
proof -
  obtain x where x: "buffers s (fst p) = Some x" "buf_volume x = vi" "buf_short x + snd p = a"
    using p by (auto simp: points_def)
  have "read_bytes (buf_ondisk x) (snd p) n = media_bytes s vi a n"
  proof (rule nth_equalityI)
    fix i assume "i < length (read_bytes (buf_ondisk x) (snd p) n)"
    then have i: "i < n" "snd p + i < 16384" using n by simp_all
    have "media s vi (a + i) = buf_ondisk x (snd p + i)"
      unfolding x(3) [symmetric] using pointed_media [OF g x(1) i(2)] x(2) by (simp add: add.assoc)
    with i show "read_bytes (buf_ondisk x) (snd p) n ! i = media_bytes s vi a n ! i" by (simp add: media_bytes_def)
  qed (simp add: media_bytes_def)
  with x n show ?thesis by (simp add: wp_simps)
qed

lemma points_volume:
  assumes "wfs D s" and "points s p vi a"
  shows "vi < length (VolList s)"
  using assms buf_okD(2) [OF wfsD(4) [OF assms(1)]] by (auto simp: points_def)

lemma points_writes:
  assumes g: "wfs D s" and h: "wfs D' t" and w: "writes R Z s M t" and p: "points s p vi a" and r: "0 < refs_of t (fst p)"
  shows "points t p vi a"
proof -
  obtain x where x: "buffers s (fst p) = Some x" "buf_volume x = vi" "buf_short x + snd p = a"
    using p by (auto simp: points_def)
  from writes_held [OF g w x(1) r] obtain x' where x': "buffers t (fst p) = Some x'" "buf_zone2_offset x' = buf_zone2_offset x"
    "cache_refs x' = cache_refs x + R (fst p)" by blast
  have fr: "frame t = frame s" using w by (simp add: writes_def)
  have "v_vol_no (VolList t ! buf_volume x') = v_vol_no (VolList s ! buf_volume x)"
    using buf_okD(5) [OF wfsD(4) [OF g] x(1)] buf_okD(5) [OF wfsD(4) [OF h] x'(1)] x'(2) by simp
  moreover have "v_vol_no (VolList t ! buf_volume x) = v_vol_no (VolList s ! buf_volume x)"
    by (rule frame_fields(1) [OF fr buf_okD(2) [OF wfsD(4) [OF g] x(1)]])
  ultimately have "buf_volume x' = buf_volume x"
    using vol_index_unique [OF wfsD(1) [OF h] buf_okD(2) [OF wfsD(4) [OF h] x'(1)]] frame_vols(1) [OF fr]
      buf_okD(2) [OF wfsD(4) [OF g] x(1)] by simp
  with x x' r show ?thesis by (auto simp: points_def refs_of_def buf_short_def)
qed

lemma good_insert:
  assumes "good D s" and "buffers s b = Some x" and "0 < cache_refs x"
  shows "good (insert b D) s"
  using assms by (auto simp: good_def wfs_def coherent_def)

lemma points_store:
  assumes g: "good D s" and p: "points s p vi a" and n: "snd p + length bs \<le> 16384" and ro: "\<not> v_rdonly (VolList s ! vi)"
  shows "wp (store p bs) (\<lambda>_ t. good (insert (fst p) D) t \<and> writes (\<lambda>_. 0) {} s (put (media s) vi a bs) t \<and>
    (\<forall>x. buffers s (fst p) = Some x \<longrightarrow> cache_modified x \<longrightarrow> good D t \<and>
      (\<exists>x'. buffers t (fst p) = Some x' \<and> cache_modified x'))) s"
proof -
  obtain x where x: "buffers s (fst p) = Some x" "0 < cache_refs x" "buf_volume x = vi" "buf_short x + snd p = a"
    using p by (auto simp: points_def)
  let ?y = "x\<lparr>buf_ondisk := write_bytes (buf_ondisk x) (snd p) bs\<rparr>"
  let ?t = "s\<lparr>buffers := (buffers s)(fst p \<mapsto> ?y)\<rparr>"
  note u = upd_content [OF g x(1,2), of ?y]
  have gt: "good (if cache_modified x then D - {fst p} else insert (fst p) D) ?t"
    using u(1) x ro by (simp split: if_splits)
  have D: "good D ?t" if "cache_modified x"
  proof (cases "fst p \<in> D")
    case True
    then show ?thesis using good_insert [OF gt, of "fst p" ?y] that x by (simp add: insert_absorb)
  qed (use gt that in simp)
  have gi: "good (insert (fst p) D) ?t"
  proof (cases "cache_modified x")
    case True
    from good_insert [OF D [OF True], of "fst p" ?y] x show ?thesis by simp
  qed (use gt in simp)
  have d: "16384 dvd buf_short x" by (rule buf_short_dvd [OF wfsD(4) [OF goodD(1) [OF g]] x(1)])
  have eq: "(if vj = vi \<and> c div 16384 * 16384 = buf_short x then write_bytes (buf_ondisk x) (snd p) bs (c mod 16384) else media s vj c)
      = put (media s) vi a bs vj c" for vj c
  proof (cases "vj = vi \<and> c div 16384 * 16384 = buf_short x")
    case True
    then have c: "c = buf_short x + c mod 16384" by (metis div_mult_mod_eq)
    have "media s vi c = buf_ondisk x (c mod 16384)"
      using pointed_media [OF goodD(1) [OF g] x(1), of "c mod 16384"] x(3) c by simp
    moreover have "a \<le> c \<longleftrightarrow> snd p \<le> c mod 16384" "c < a + length bs \<longleftrightarrow> c mod 16384 < snd p + length bs"
      "c - a = c mod 16384 - snd p" using c x(4) by linarith+
    ultimately show ?thesis using True by (simp add: put_def write_bytes_def)
  next
    case False
    have "\<not> (vj = vi \<and> a \<le> c \<and> c < a + length bs)"
    proof
      assume r: "vj = vi \<and> a \<le> c \<and> c < a + length bs"
      then have "c = buf_short x + (c - buf_short x)" "c - buf_short x < 16384" using x(4) n by linarith+
      with block_index(1) [OF d, of "c - buf_short x"] False r show False by simp
    qed
    with False show ?thesis by (auto simp: put_def)
  qed
  have oy: "buf_ondisk ?y = write_bytes (buf_ondisk x) (snd p) bs" by simp
  have "writes (\<lambda>_. 0) {} s (put (media s) vi a bs) ?t"
  proof -
    have "writes (\<lambda>_. 0) (if cache_modified ?y then {buf_zone2_offset x} else {}) s (\<lambda>vj c. if vj = buf_volume x \<and> c div 16384 * 16384 = buf_short x
      then buf_ondisk ?y (c mod 16384) else media s vj c) ?t"
      by (rule u(2)) (use x ro in \<open>auto split: if_splits\<close>)
    moreover have "(\<lambda>vj c. if vj = buf_volume x \<and> c div 16384 * 16384 = buf_short x
        then buf_ondisk ?y (c mod 16384) else media s vj c) = put (media s) vi a bs"
      by (intro ext, unfold x(3)) (simp only: eq oy)
    ultimately have "writes (\<lambda>_. 0) (if cache_modified x then {buf_zone2_offset x} else {}) s (put (media s) vi a bs) ?t"
      by simp
    moreover have "(if cache_modified x then {buf_zone2_offset x} else {}) \<subseteq> mods s" using x(1) by (auto simp: mods_def)
    ultimately show ?thesis by (auto simp: writes_def)
  qed
  with gi D x n show ?thesis by (auto simp: wp_simps)
qed

lemma points_modified:
  assumes g: "good D s" and p: "points s p vi a" and ro: "\<not> v_rdonly (VolList s ! vi)"
  shows "wp (set_modified (Some (fst p))) (\<lambda>_ t. good (D - {fst p}) t \<and>
    (\<exists>z. writes (\<lambda>_. 0) {z} s (media s) t \<and> (\<forall>x. buffers s (fst p) = Some x \<longrightarrow> z = buf_zone2_offset x))) s"
proof -
  obtain x where x: "buffers s (fst p) = Some x" "0 < cache_refs x" "buf_volume x = vi"
    using p by (auto simp: points_def)
  let ?y = "x\<lparr>cache_modified := True\<rparr>"
  let ?t = "s\<lparr>buffers := (buffers s)(fst p \<mapsto> ?y)\<rparr>"
  note u = upd_content [OF g x(1,2), of ?y]
  have "good (D - {fst p}) ?t" using u(1) x ro by simp
  moreover have "writes (\<lambda>_. 0) {buf_zone2_offset x} s (media s) ?t"
  proof -
    have "writes (\<lambda>_. 0) {buf_zone2_offset x} s (\<lambda>vj c. if vj = buf_volume x \<and> c div 16384 * 16384 = buf_short x
      then buf_ondisk x (c mod 16384) else media s vj c) ?t"
      using u(2) x ro by (simp cong: if_cong)
    moreover have "(\<lambda>vj c. if vj = buf_volume x \<and> c div 16384 * 16384 = buf_short x
      then buf_ondisk x (c mod 16384) else media s vj c) = media s"
      using media_cached [OF wfsD(1,4,3) [OF goodD(1) [OF g]] x(1)] by (auto simp: fun_eq_iff)
    ultimately show ?thesis by simp
  qed
  ultimately show ?thesis using x by (auto simp: set_modified_def wp_simps)
qed

lemma points_bigblock:
  assumes g: "wfs D t" and F: "bigblock_in t F vi" and k: "unat k < 2 ^ 23"
    and x: "buffers t b = Some x" "buf_zone2_offset x = (F + k) AND NOT HAMMER_BUFMASK64" "0 < cache_refs x"
  shows "points t (b, unat k mod 16384) vi (unat F mod 2 ^ 52 + unat k)"
proof -
  note a = place_bigblock [OF F k]
  have v: "buf_volume x = vi" by (rule buf_volume_place [OF g x(1)]) (simp only: x(2) a(2))
  have "buf_short x = unat (F + k) mod 2 ^ 52 div 16384 * 16384" unfolding buf_short_def x(2) by (rule base_digits)
  moreover have "unat (F + k) mod 2 ^ 52 mod 16384 = unat k mod 16384"
    using mod_mod_cancel [of 16384 "2 ^ 52" "unat (F + k)"] a(4) by (simp add: le_imp_power_dvd [of 14 52 2, simplified])
  ultimately have "buf_short x + unat k mod 16384 = unat F mod 2 ^ 52 + unat k"
    unfolding a(3) [symmetric] by (metis div_mult_mod_eq)
  with x v show ?thesis by (auto simp: points_def)
qed

lemma gbd_points:
  assumes g: "good D s" and F: "bigblock_in s F vi" and k: "unat k < 2 ^ 23" and h: "holds D s bp"
  shows "wp (buffer_data depth (F + k) bp 0) (\<lambda>(r, bp') t. \<exists>b. r = Some (b, unat k mod 16384) \<and> bp' = Some b \<and>
    good D t \<and> keeps (\<lambda>b'. ref1 bp' b' - ref1 bp b') s t \<and>
    points t (b, unat k mod 16384) vi (unat F mod 2 ^ 52 + unat k)) s"
proof -
  note a = place_bigblock [OF F k]
  show ?thesis
    unfolding buffer_data_def
  proof (rule wp_mono [OF get_buffer_data_wp [OF g a(1,2) h]], clarify)
    fix b x t
    assume t: "good D t" "keeps (\<lambda>b'. ref1 (Some b) b' - ref1 bp b') s t" "buffers t b = Some x"
      "buf_zone2_offset x = (F + k) AND NOT HAMMER_BUFMASK64" "0 < cache_refs x"
    have "bigblock_in t F vi"
      by (rule bigblock_in_keeps [OF F goodD(1) [OF g] goodD(1) [OF t(1)]]) (use t(2) in \<open>simp add: keeps_def\<close>)
    from points_bigblock [OF goodD(1) [OF t(1)] this k t(3-5)] t a(4)
    show "\<exists>ba. Some (b, unat (F + k) mod 16384) = Some (ba, unat k mod 16384) \<and> Some b = Some ba \<and> good D t \<and>
        keeps (\<lambda>b'. ref1 (Some b) b' - ref1 bp b') s t \<and> points t (ba, unat k mod 16384) vi (unat F mod 2 ^ 52 + unat k)"
      by auto
  qed
qed

text \<open>An entry of the freemap behind a pointer.\<close>

lemma load_layer_points:
  assumes "wfs D s" and "points s p vi a"
  shows "snd p + 32 \<le> 16384 \<Longrightarrow> wp (load_layer1 p) (\<lambda>l t. l = layer1_of_bytes (media_bytes s vi a 32) \<and> t = s) s"
    and "snd p + 16 \<le> 16384 \<Longrightarrow> wp (load_layer2 p) (\<lambda>l t. l = layer2_of_bytes (media_bytes s vi a 16) \<and> t = s) s"
  unfolding load_layer1_def load_layer2_def wp_bind
  by (rule wp_mono [OF points_load [OF assms]]; simp add: wp_return)+

lemma upd_layer_points:
  assumes g: "good D s" and p: "points s p vi a" and ro: "\<not> v_rdonly (VolList s ! vi)"
  shows "snd p + 32 \<le> 16384 \<Longrightarrow> wp (upd_layer1 p f) (\<lambda>_ t. good (insert (fst p) D) t \<and>
      writes (\<lambda>_. 0) {} s (put (media s) vi a (layer1_bytes (f (layer1_of_bytes (media_bytes s vi a 32))))) t \<and>
      (\<forall>x. buffers s (fst p) = Some x \<longrightarrow> cache_modified x \<longrightarrow> good D t \<and>
        (\<exists>x'. buffers t (fst p) = Some x' \<and> cache_modified x'))) s"
    and "snd p + 16 \<le> 16384 \<Longrightarrow> wp (upd_layer2 p h) (\<lambda>_ t. good (insert (fst p) D) t \<and>
      writes (\<lambda>_. 0) {} s (put (media s) vi a (layer2_bytes (h (layer2_of_bytes (media_bytes s vi a 16))))) t \<and>
      (\<forall>x. buffers s (fst p) = Some x \<longrightarrow> cache_modified x \<longrightarrow> good D t \<and>
        (\<exists>x'. buffers t (fst p) = Some x' \<and> cache_modified x'))) s"
  unfolding upd_layer1_def upd_layer2_def wp_bind
  by (rule wp_mono [OF load_layer_points(1) [OF goodD(1) [OF g] p]], assumption,
      simp, rule points_store [OF g p _ ro], simp add: length_struct_bytes)
    (rule wp_mono [OF load_layer_points(2) [OF goodD(1) [OF g] p]], assumption,
      simp, rule points_store [OF g p _ ro], simp add: length_struct_bytes)

section \<open>A new buffer\<close>

definition blank :: "(nat \<Rightarrow> nat \<Rightarrow> u8) \<Rightarrow> nat \<Rightarrow> nat \<Rightarrow> nat \<Rightarrow> nat \<Rightarrow> u8" where
  "blank M vi S vj c = (if vj = vi \<and> c div 16384 * 16384 = S then 0 else M vj c)"

lemma writes_cong: "writes R Z s M t \<Longrightarrow> (\<And>vi a. vi < length (VolList s) \<Longrightarrow> M vi a = M' vi a) \<Longrightarrow> writes R Z s M' t"
  by (auto simp: writes_def fun_eq_iff)

lemma writes_keeps:
  assumes w: "writes R Z s M t" and g: "wfs D t" and k: "keeps R' t u"
  shows "writes (\<lambda>b. R b + R' b) Z s M u"
proof -
  have "writes (\<lambda>b. R b + R' b) (Z \<union> {}) s (media t) u" by (rule writes_trans [OF w keeps_writes [OF g k]])
  then show ?thesis using w by (auto intro: writes_cong simp: writes_def)
qed

text \<open>The buffer \<open>b\<close> is blanked and marked, after the cache is trimmed.\<close>

abbreviation blanking :: "nat \<Rightarrow> unit hio" where
  "blanking b \<equiv> bindS hammer_cache_flush (\<lambda>_. bindS (get_buf b) (\<lambda>buffer.
     bindS (assertS (\<not> cache_modified buffer) ''buffer->cache.modified == 0'') (\<lambda>_.
     upd_buf b (\<lambda>x. x\<lparr>buf_ondisk := (\<lambda>_. 0), cache_modified := True\<rparr>))))"

lemma blank_wp:
  assumes g: "good E t" and x: "buffers t b = Some x" "0 < cache_refs x" "\<not> cache_modified x"
    and z: "place t (buf_zone2_offset x) vi" and ro: "\<not> v_rdonly (VolList t ! vi)"
    and D: "E = D \<or> E = insert b D \<and> b \<notin> D"
  shows "wp (blanking b)
    (\<lambda>_ u. good D u \<and> writes (\<lambda>_. 0) {buf_zone2_offset x} t (blank (media t) vi (buf_short x)) u \<and>
      (\<exists>x'. buffers u b = Some x' \<and> buf_zone2_offset x' = buf_zone2_offset x \<and> 0 < cache_refs x' \<and> cache_modified x')) t"
proof (subst wp_bind, rule wp_mono [OF hammer_cache_flush_wp [OF g]])
  fix u assume "good E u \<and> keeps (\<lambda>_. 0) t u \<and> (CacheUse t < CacheMax t \<or> low_water u \<or> all_referenced u)"
  then have u: "good E u" "keeps (\<lambda>_. 0) t u" by simp_all
  have "0 < refs_of u b" using u(2) x by (simp add: keeps_def refs_of_def)
  from held [OF goodD(1) [OF g] u(2) x(1) this] obtain x' where x': "buffers u b = Some x'"
    "buf_zone2_offset x' = buf_zone2_offset x" "cache_modified x' \<longrightarrow> cache_modified x" "cache_refs x' = cache_refs x" by auto
  have fr: "frame u = frame t" using u(2) by (simp add: keeps_def)
  have "place u (buf_zone2_offset x') vi"
    unfolding x'(2) by (rule place_keeps [OF z goodD(1) [OF g] goodD(1) [OF u(1)] fr])
  then have v: "buf_volume x' = vi" by (rule buf_volume_place [OF goodD(1) [OF u(1)] x'(1)])
  have vi: "vi < length (VolList t)" using z get_volume_Some(1) by (auto simp: place_def)
  have ro': "\<not> v_rdonly (VolList u ! vi)" using ro frame_fields(4) [OF fr vi] by simp
  let ?y = "x'\<lparr>buf_ondisk := (\<lambda>_. 0), cache_modified := True\<rparr>"
  let ?w = "u\<lparr>buffers := (buffers u)(b \<mapsto> ?y)\<rparr>"
  have r': "0 < cache_refs x'" using x'(4) x(2) by simp
  note w = upd_content [OF u(1) x'(1) r', of ?y]
  have "good (E - {b}) ?w" using w(1) ro' v by simp
  then have gw: "good D ?w"
  proof (cases "b \<in> D")
    case True
    then have "insert b (E - {b}) = D" using D by auto
    then show ?thesis using good_insert [OF \<open>good (E - {b}) ?w\<close>, of b ?y] r' by simp
  qed (use D in auto)
  have "writes (\<lambda>_. 0) {buf_zone2_offset x'} u (\<lambda>vj c. if vj = buf_volume x' \<and> c div 16384 * 16384 = buf_short x'
      then 0 else media u vj c) ?w" using w(2) ro' v by (simp cong: if_cong)
  then have "writes (\<lambda>_. 0) ({} \<union> {buf_zone2_offset x}) t (\<lambda>vj c. if vj = vi \<and> c div 16384 * 16384 = buf_short x
      then 0 else media u vj c) ?w"
    using writes_trans [OF keeps_writes [OF goodD(1) [OF g] u(2)]] x'(2) v by (fastforce simp: buf_short_def)
  then have "writes (\<lambda>_. 0) ({} \<union> {buf_zone2_offset x}) t (blank (media t) vi (buf_short x)) ?w"
    by (rule writes_cong) (use u(2) in \<open>auto simp: blank_def keeps_def\<close>)
  then have "writes (\<lambda>_. 0) {buf_zone2_offset x} t (blank (media t) vi (buf_short x)) ?w" by simp
  with gw x' r' x(3) show "wp (bindS (get_buf b) (\<lambda>buffer. bindS (assertS (\<not> cache_modified buffer) ''buffer->cache.modified == 0'') (\<lambda>_.
      upd_buf b (\<lambda>x. x\<lparr>buf_ondisk := (\<lambda>_. 0), cache_modified := True\<rparr>))))
    (\<lambda>_ u. good D u \<and> writes (\<lambda>_. 0) {buf_zone2_offset x} t (blank (media t) vi (buf_short x)) u \<and>
      (\<exists>x'. buffers u b = Some x' \<and> buf_zone2_offset x' = buf_zone2_offset x \<and> 0 < cache_refs x' \<and> cache_modified x')) u"
    by (auto simp: wp_simps)
qed

text \<open>The result of a new buffer: the place \<open>z\<close> holds zeroes, in a referenced, marked buffer.\<close>

definition new_post :: "nat set \<Rightarrow> hammer_state \<Rightarrow> u64 \<Rightarrow> nat \<Rightarrow> nat option \<Rightarrow> hammer_state \<Rightarrow> bool" where
  "new_post D s z vi r t \<longleftrightarrow> (\<exists>b x. r = Some b \<and> good D t \<and>
     writes (\<lambda>b'. if b' = b then 1 else 0) {z} s (blank (media s) vi (unat z mod 2 ^ 52)) t \<and>
     buffers t b = Some x \<and> buf_zone2_offset x = z \<and> 0 < cache_refs x \<and> cache_modified x)"

lemma blanking_wp:
  assumes g: "good D s" and p: "place s z vi" and ro: "\<not> v_rdonly (VolList s ! vi)"
    and t: "good E t" "E = D \<or> E = insert b D \<and> b \<notin> D" "writes (\<lambda>b'. if b' = b then 1 else 0) {} s M t"
      "buffers t b = Some x" "0 < cache_refs x" "\<not> cache_modified x" "buf_zone2_offset x = z"
      "\<And>vj c. vj < length (VolList s) \<Longrightarrow> \<not> (vj = vi \<and> c div 16384 * 16384 = unat z mod 2 ^ 52) \<Longrightarrow> M vj c = media s vj c"
  shows "wp (blanking b) (\<lambda>_. new_post D s z vi (Some b)) t"
proof -
  have vi: "vi < length (VolList s)" using p get_volume_Some(1) by (auto simp: place_def)
  have fr: "frame t = frame s" using t(3) by (simp add: writes_def)
  have pl: "place t (buf_zone2_offset x) vi" unfolding t(7) by (rule place_keeps [OF p goodD(1) [OF g] goodD(1) [OF t(1)] fr])
  have ro': "\<not> v_rdonly (VolList t ! vi)" using ro frame_fields(4) [OF fr vi] by simp
  show ?thesis
  proof (rule wp_mono [OF blank_wp [OF t(1,4,5,6) pl ro' t(2)]])
    fix u
    assume u: "good D u \<and> writes (\<lambda>_. 0) {buf_zone2_offset x} t (blank (media t) vi (buf_short x)) u \<and>
      (\<exists>x'. buffers u b = Some x' \<and> buf_zone2_offset x' = buf_zone2_offset x \<and> 0 < cache_refs x' \<and> cache_modified x')"
    have "writes (\<lambda>b'. (if b' = b then 1 else 0) + 0) ({} \<union> {z}) s (blank (media t) vi (buf_short x)) u"
      by (rule writes_trans [OF t(3)]) (use u t(7) in simp)
    then have "writes (\<lambda>b'. if b' = b then 1 else 0) {z} s (blank (media t) vi (unat z mod 2 ^ 52)) u"
      using t(7) by (simp add: buf_short_def cong: if_cong)
    then have "writes (\<lambda>b'. if b' = b then 1 else 0) {z} s (blank (media s) vi (unat z mod 2 ^ 52)) u"
      by (rule writes_cong) (use t(3,8) in \<open>auto simp: blank_def writes_def\<close>)
    with u t(7) show "new_post D s z vi (Some b) u" by (auto simp: new_post_def)
  qed
qed

lemma blanking_old_wp:
  assumes g: "good D s" and p: "place s z vi" and ro: "\<not> v_rdonly (VolList s ! vi)"
    and m: "z \<notin> mods s" and x: "buffers s b = Some x" "buf_zone2_offset x = z"
  shows "wp (bindS (bindS (hammer_cache_used b) (\<lambda>_. upd_buf b (\<lambda>x. x\<lparr>cache_refs := cache_refs x + 1\<rparr>))) (\<lambda>_. blanking b))
    (\<lambda>_. new_post D s z vi (Some b)) s"
proof (subst wp_bind, rule wp_mono [OF take_ref_wp [OF g x(1)]])
  fix t
  let ?x = "x\<lparr>cache_refs := cache_refs x + 1\<rparr>"
  assume t: "good D t \<and> keeps (\<lambda>b'. if b' = b then 1 else 0) s t \<and> buffers t b = Some ?x \<and> 0 \<le> cache_refs x"
  then have k: "keeps (\<lambda>b'. if b' = b then 1 else 0) s t" by simp
  have "\<not> cache_modified x" using m x by (auto simp: mods_def)
  then show "wp (blanking b) (\<lambda>_. new_post D s z vi (Some b)) t"
    by (intro blanking_wp [OF g p ro _ disjI1 keeps_writes [OF goodD(1) [OF g] k], of D ?x]) (use t x(2) in auto)
qed

lemma blanking_fresh_wp:
  assumes g: "good D s" and p: "place s z vi" and ro: "\<not> v_rdonly (VolList s ! vi)"
    and n: "\<forall>b x. buffers s b = Some x \<longrightarrow> buf_zone2_offset x \<noteq> z"
  shows "wp (blanking (next_buffer s)) (\<lambda>_. new_post D s z vi (Some (next_buffer s)))
    (link_buf s ((fresh_buf s z vi 1)\<lparr>cache_refs := 1\<rparr>))"
proof -
  let ?b = "next_buffer s"
  define x where "x = (fresh_buf s z vi 1)\<lparr>cache_refs := 1\<rparr>"
  have f: "buf_zone2_offset x = z" "buf_volume x = vi" "cache_refs x = 1" "\<not> cache_modified x" "\<not> cache_delete x"
    "buf_raw_offset x = hammer_xlate_to_phys (v_ondisk (VolList s ! vi)) (buf_zone2_offset x)"
    by (simp_all add: x_def fresh_buf_def)
  have l: "wfs (insert ?b D) (link_buf s x)" "frame (link_buf s x) = frame s"
    "\<And>vj a. media (link_buf s x) vj a = (if vj = vi \<and> a div 16384 * 16384 = buf_short x
      then buf_ondisk x (a mod 16384) else media s vj a)"
    "\<And>b'. refs_of (link_buf s x) b' = refs_of s b' + (if b' = ?b then cache_refs x else 0)" "same_bufs s (link_buf s x)"
    using link_buf_ok [OF goodD(1) [OF g] _ f(2,6) _ _ f(4), of "insert ?b D"] p n f(1,3) by auto
  have bb: "buffers (link_buf s x) = (buffers s)(?b \<mapsto> x)" by (simp add: link_buf_def Let_def)
  have gl: "good (insert ?b D) (link_buf s x)"
    using l(1) goodD(2) [OF g] f(5) by (auto simp: good_def bb)
  have mm: "mods (link_buf s x) \<subseteq> mods s"
    using f(4) by (auto simp: mods_def bb split: if_splits)
  have w: "writes (\<lambda>b'. if b' = ?b then 1 else 0) {} s (media (link_buf s x)) (link_buf s x)"
    using l(2,4,5) f(3) mm unfolding writes_def same_bufs_def by fastforce
  have "?b \<notin> D \<or> insert ?b D = D" by auto
  then have e: "insert ?b D = D \<or> insert ?b D = insert ?b D \<and> ?b \<notin> D" by auto
  show ?thesis unfolding x_def [symmetric]
    by (rule blanking_wp [OF g p ro gl e w]) (use f bb l(3) in \<open>auto simp: buf_short_def\<close>)
qed

lemma acquire_new_wp:
  assumes g: "good D s" and p: "place s z vi" and ro: "\<not> v_rdonly (VolList s ! vi)"
    and m: "z \<notin> mods s"
  shows "wp (bindS (acquire z 1) (\<lambda>(b, dora). bindS (upd_buf b (\<lambda>x. x\<lparr>cache_refs := cache_refs x + 1\<rparr>))
      (\<lambda>_. bindS (blanking b) (\<lambda>_. returnS (b, dora))))) (\<lambda>(b, dora) t. new_post D s z vi (Some b) t \<and> \<not> dora) s"
proof -
  note G = goodD(1) [OF g]
  have v: "get_volume s (HAMMER_VOL_DECODE z) = Some vi" using p by (simp add: place_def)
  have eq: "(link_buf s (fresh_buf s z vi 1))\<lparr>buffers := (buffers (link_buf s (fresh_buf s z vi 1)))
      (next_buffer s \<mapsto> (fresh_buf s z vi 1)\<lparr>cache_refs := 1\<rparr>)\<rparr> = link_buf s ((fresh_buf s z vi 1)\<lparr>cache_refs := 1\<rparr>)"
    and bb: "buffers (link_buf s (fresh_buf s z vi 1)) (next_buffer s) = Some (fresh_buf s z vi 1)"
    and cr: "cache_refs (fresh_buf s z vi 1) = 0"
    by (simp_all add: link_buf_def Let_def fresh_buf_def)
  show "wp (bindS (acquire z 1) (\<lambda>(b, dora).
      bindS (upd_buf b (\<lambda>x. x\<lparr>cache_refs := cache_refs x + 1\<rparr>)) (\<lambda>_. bindS (blanking b) (\<lambda>_. returnS (b, dora)))))
      (\<lambda>(b, dora) t. new_post D s z vi (Some b) t \<and> \<not> dora) s"
    unfolding acquire_def
  proof (subst wp_bind, subst wp_bind, rule wp_mono [OF find_buffer_wp [OF G v]])
    fix r t
    assume st: "t = s \<and> (case r of None \<Rightarrow> \<forall>b x. buffers s b = Some x \<longrightarrow> buf_zone2_offset x \<noteq> z
      | Some b \<Rightarrow> \<exists>x. buffers s b = Some x \<and> buf_zone2_offset x = z)"
    show "wp (case r of None \<Rightarrow> bindS (alloc_buffer z 1) (\<lambda>b. returnS (b, (1::int) = 0))
        | Some b \<Rightarrow> bindS (assertS ((1::int) \<noteq> - 1) ''isnew != -1'') (\<lambda>_. bindS (hammer_cache_used b) (\<lambda>_. returnS (b, False))))
      (\<lambda>x. wp (case x of (b, dora) \<Rightarrow> bindS (upd_buf b (\<lambda>x. x\<lparr>cache_refs := cache_refs x + 1\<rparr>))
          (\<lambda>_. bindS (blanking b) (\<lambda>_. returnS (b, dora)))) (\<lambda>(b, dora) t. new_post D s z vi (Some b) t \<and> \<not> dora)) t"
    proof (cases r)
      case None
      then have "wp (bindS (blanking (next_buffer s)) (\<lambda>_. returnS (next_buffer s, False))) (\<lambda>(b, dora) t. new_post D s z vi (Some b) t \<and> \<not> dora)
        (link_buf s ((fresh_buf s z vi 1)\<lparr>cache_refs := 1\<rparr>))"
        using blanking_fresh_wp [OF g p ro] st by (simp add: wp_simps)
      then show ?thesis
        unfolding None option.case
        by (use st in \<open>simp only: wp_bind [of "alloc_buffer _ _"]\<close>, intro wp_mono [OF alloc_buffer_wp [OF G p]])
          (auto simp: wp_upd_buf wp_return wp_case_prod wp_bind [of "upd_buf _ _"] bb eq cr)
    next
      case (Some b)
      then obtain x where x: "buffers s b = Some x" "buf_zone2_offset x = z" using st by auto
      from blanking_old_wp [OF g p ro m x] show ?thesis unfolding Some by (simp add: wp_simps st)
    qed
  qed
qed

lemma get_buffer_new_wp:
  assumes g: "good D s" and a: "hammer_is_zone_raw_buffer a" and p: "place s (a AND NOT HAMMER_BUFMASK64) vi"
    and ro: "\<not> v_rdonly (VolList s ! vi)" and m: "a AND NOT HAMMER_BUFMASK64 \<notin> mods s"
  shows "wp (get_buffer lookup a 1) (new_post D s (a AND NOT HAMMER_BUFMASK64) vi) s"
  using acquire_new_wp [OF g p ro m] base_of_raw [OF a] a
  by (simp add: get_buffer_def get_buffer_nora_def blockmap_xlate_to_zone2_def acquire_def wp_simps
      case_prod_beta cong: option.case_cong)

end
