(* ===== verification/Media_Layout.thy ===== *)
theory Media_Layout
  imports Media_Write
begin

text \<open>
  Runs of equal-sized entries written one after another into the media, and the changes of a volume's
  description that leave the cache and the media alone.
\<close>

section \<open>Runs of entries in the media\<close>

definition run :: "(nat \<Rightarrow> nat \<Rightarrow> u8) \<Rightarrow> nat \<Rightarrow> nat \<Rightarrow> nat \<Rightarrow> (nat \<Rightarrow> u8 list) \<Rightarrow> nat \<Rightarrow> nat \<Rightarrow> nat \<Rightarrow> u8" where
  "run M vi base n E k vj a =
     (if vj = vi \<and> base \<le> a \<and> a < base + k * n then E ((a - base) div n) ! ((a - base) mod n) else M vj a)"

abbreviation cut :: "(nat \<Rightarrow> nat \<Rightarrow> u8) \<Rightarrow> nat \<Rightarrow> nat \<Rightarrow> nat \<Rightarrow> u8 list" where
  "cut M vi a n \<equiv> map (M vi) [a..<a + n]"

lemma run_0 [simp]: "run M vi base n E 0 = M"
  by (auto simp: run_def fun_eq_iff)

lemma run_index:
  fixes j :: nat
  assumes "i < n"
  shows "(base + j * n + i - base) div n = j" and "(base + j * n + i - base) mod n = i"
  using assms by (simp_all add: add.assoc)

lemma put_run:
  assumes "length (E k) = n" and "0 < n"
  shows "put (run M vi base n E k) vi (base + k * n) (E k) = run M vi base n E (Suc k)"
proof (intro ext)
  fix vj a
  consider "vj = vi \<and> base + k * n \<le> a \<and> a < base + k * n + n" | "vj = vi \<and> base \<le> a \<and> a < base + k * n"
    | "\<not> (vj = vi \<and> base \<le> a \<and> a < base + Suc k * n)"
    by fastforce
  then show "put (run M vi base n E k) vi (base + k * n) (E k) vj a = run M vi base n E (Suc k) vj a"
  proof cases
    case 1
    then obtain i where "a = base + k * n + i" "i < n" by (metis add_less_cancel_left le_Suc_ex)
    with 1 assms show ?thesis by (simp add: put_def run_def add.assoc)
  qed (auto simp: put_def run_def assms)
qed

lemma cut_run:
  assumes "j < k" and "length (E j) = n"
  shows "cut (run M vi base n E k) vi (base + j * n) n = E j"
proof (rule nth_equalityI)
  fix i assume "i < length (cut (run M vi base n E k) vi (base + j * n) n)"
  then have i: "i < n" by simp
  have "Suc j * n \<le> k * n" using assms(1) by (intro mult_le_mono1) simp
  then have "j * n + i < k * n" using i by simp
  with i show "cut (run M vi base n E k) vi (base + j * n) n ! i = E j ! i" by (simp add: run_def add.assoc)
qed (simp add: assms)

lemma cut_cong: "(\<And>i. i < n \<Longrightarrow> M vi (a + i) = M' vi (a + i)) \<Longrightarrow> cut M vi a n = cut M' vi a n"
  by (auto simp: list_eq_iff_nth_eq)

lemma cut_run_other:
  assumes "vj \<noteq> vi \<or> a + m \<le> base \<or> base + k * n \<le> a"
  shows "cut (run M vi base n E k) vj a m = cut M vj a m"
  by (rule cut_cong) (use assms in \<open>auto simp: run_def\<close>)

lemma cut_put:
  "cut (put M vi a bs) vi a (length bs) = bs"
  by (rule nth_equalityI) (simp_all add: put_def)

lemma cut_put_other:
  assumes "vj \<noteq> vi \<or> a + m \<le> off \<or> off + length bs \<le> a"
  shows "cut (put M vi off bs) vj a m = cut M vj a m"
  by (rule cut_cong) (use assms in \<open>auto simp: put_def\<close>)

text \<open>A new buffer at the start of a run, and a run of whole buffers.\<close>

definition zeroes :: "nat \<Rightarrow> u8 list" where
  "zeroes j = replicate (nat HAMMER_BUFSIZE) 0"

lemma nth_zeroes: "i < 16384 \<Longrightarrow> zeroes j ! i = 0"
  unfolding zeroes_def by (subst nth_replicate) (simp_all add: HAMMER_BUFSIZE_def)

lemma div_block:
  fixes a c p :: nat
  assumes "0 < c"
  shows "a div c * c = p * c \<longleftrightarrow> p * c \<le> a \<and> a < p * c + c"
proof
  assume "a div c * c = p * c"
  with assms show "p * c \<le> a \<and> a < p * c + c"
    by (metis add.commute dividend_less_times_div div_times_less_eq_dividend mult.commute)
next
  assume "p * c \<le> a \<and> a < p * c + c"
  then have "a div c = p" by (intro div_nat_eqI) (simp_all add: mult.commute)
  then show "a div c * c = p * c" by simp
qed

lemma blank_run:
  assumes "16384 dvd base" and k: "k * n = q * 16384"
  shows "blank (run (run M vi base 16384 zeroes q) vi base n E k) vi (base + k * n) =
    run (run M vi base 16384 zeroes (Suc q)) vi base n E k"
proof (intro ext)
  fix vj a
  obtain m where "base = 16384 * m" using assms(1) by blast
  then have d: "base + q * 16384 = (m + q) * 16384" by simp
  have "a div 16384 * 16384 = base + q * 16384 \<longleftrightarrow> base + q * 16384 \<le> a \<and> a < base + q * 16384 + 16384"
    unfolding d by (rule div_block) simp
  then show "blank (run (run M vi base 16384 zeroes q) vi base n E k) vi (base + k * n) vj a =
    run (run M vi base 16384 zeroes (Suc q)) vi base n E k vj a"
    unfolding blank_def run_def k by (auto simp: nth_zeroes)
qed

section \<open>Changes of the volume data\<close>

text \<open>
  The cache depends on the number, the device, the mode and the area of a volume, and on nothing else
  of its description: not on the next free big-block, nor on the blockmaps of the header.
\<close>

definition vol_like :: "volume_info \<Rightarrow> volume_info \<Rightarrow> bool" where
  "vol_like v w \<longleftrightarrow> v_vol_no v = v_vol_no w \<and> v_fd v = v_fd w \<and> v_rdonly v = v_rdonly w \<and>
     v_buffer_lists v = v_buffer_lists w \<and> vol_buf_beg (v_ondisk v) = vol_buf_beg (v_ondisk w) \<and>
     vol_buf_end (v_ondisk v) = vol_buf_end (v_ondisk w)"

definition revol :: "hammer_state \<Rightarrow> nat \<Rightarrow> (volume_info \<Rightarrow> volume_info) \<Rightarrow> hammer_state" where
  "revol s vi f = s\<lparr>VolList := (VolList s)[vi := f (VolList s ! vi)]\<rparr>"

lemma revol_fields [simp]:
  "buffers (revol s vi f) = buffers s" "next_buffer (revol s vi f) = next_buffer s" "HammerVersion (revol s vi f) = HammerVersion s"
  "length (VolList (revol s vi f)) = length (VolList s)" "refs_of (revol s vi f) = refs_of s" "mods (revol s vi f) = mods s"
  "devices (revol s vi f) = devices s" "CacheList (revol s vi f) = CacheList s" "CacheUse (revol s vi f) = CacheUse s"
  "CacheMax (revol s vi f) = CacheMax s" "UseReadBehind (revol s vi f) = UseReadBehind s"
  "valid_hammer_volumes (revol s vi f) = valid_hammer_volumes s" "UseReadAhead (revol s vi f) = UseReadAhead s"
  "Hammer_FSType (revol s vi f) = Hammer_FSType s" "Hammer_FSId (revol s vi f) = Hammer_FSId s"
  by (simp_all add: revol_def refs_of_def fun_eq_iff mods_def)

lemma revol_vol [simp]:
  assumes "vj < length (VolList s)"
  shows "VolList (revol s vi f) ! vj = (if vj = vi then f (VolList s ! vj) else VolList s ! vj)"
  using assms by (auto simp: revol_def nth_list_update)

lemma map_revol:
  assumes "\<And>v. g (f v) = g v"
  shows "map g (VolList (revol s vi f)) = map g (VolList s)"
  by (rule nth_equalityI) (auto simp: assms)

locale revolume =
  fixes f :: "volume_info \<Rightarrow> volume_info"
  assumes like: "vol_like (f v) v" and unlisted: "vol_frame (f v) = f (vol_frame v)"
begin

lemma same:
  "v_vol_no (f v) = v_vol_no v" "v_fd (f v) = v_fd v" "v_rdonly (f v) = v_rdonly v" "v_buffer_lists (f v) = v_buffer_lists v"
  "vol_buf_beg (v_ondisk (f v)) = vol_buf_beg (v_ondisk v)" "vol_buf_end (v_ondisk (f v)) = vol_buf_end (v_ondisk v)"
  using like [of v] by (simp_all add: vol_like_def)

lemma phys: "hammer_xlate_to_phys (v_ondisk (f v)) z = hammer_xlate_to_phys (v_ondisk v) z"
  by (simp add: hammer_xlate_to_phys_def same)

lemma area:
  "vj < length (VolList s) \<Longrightarrow> vol_beg (revol s vi f) vj = vol_beg s vj"
  "vj < length (VolList s) \<Longrightarrow> vol_area (revol s vi f) vj = vol_area s vj"
  "vj < length (VolList s) \<Longrightarrow> disk (revol s vi f) vj = disk s vj"
  by (auto simp: vol_beg_def vol_area_def disk_def same fun_eq_iff)

lemma media_revol: "vj < length (VolList s) \<Longrightarrow> media (revol s vi f) vj = media s vj"
proof -
  assume vj: "vj < length (VolList s)"
  have c: "covers (revol s vi f) = covers s" by (intro ext) (simp add: covers_def)
  show ?thesis by (intro ext) (simp only: media_def area(3) [OF vj] c revol_fields)
qed

lemma volume_revol: "get_volume (revol s vi f) n = get_volume s n"
proof -
  have "get_volume_from i vs n = get_volume_from i ws n" if "map v_vol_no vs = map v_vol_no ws" for i vs ws
    using that by (induction vs ws arbitrary: i rule: list_induct2') simp_all
  moreover have "map v_vol_no (VolList (revol s vi f)) = map v_vol_no (VolList s)" by (rule map_revol) (rule same)
  ultimately show ?thesis unfolding get_volume_def by blast
qed

lemma wfs_revol:
  assumes "wfs D s"
  shows "wfs D (revol s vi f)"
proof -
  note G = assms [unfolded wfs_def]
  have in_set: "\<exists>w \<in> set (VolList s). vol_like v w" if v: "v \<in> set (VolList (revol s vi f))" for v
  proof -
    obtain vj where vj: "vj < length (VolList s)" "v = VolList (revol s vi f) ! vj"
      using v unfolding in_set_conv_nth by auto
    then have "vol_like v (VolList s ! vj)" using like by (simp add: vol_like_def)
    with vj(1) show ?thesis using nth_mem by blast
  qed
  have ok: "vol_ok v" if w: "vol_like v w" "vol_ok w" for v w
    using w by (simp add: vol_like_def vol_ok_def area_ok_def)
  have "vols_ok (revol s vi f)"
    unfolding vols_ok_def
  proof (intro conjI ballI)
    show "distinct (map v_vol_no (VolList (revol s vi f)))"
      using G by (subst map_revol) (simp_all add: same vols_ok_def)
    show "distinct (map v_fd (VolList (revol s vi f)))"
      using G by (subst map_revol) (simp_all add: same vols_ok_def)
    fix v assume "v \<in> set (VolList (revol s vi f))"
    from in_set [OF this] obtain w where "w \<in> set (VolList s)" "vol_like v w" by blast
    with G ok show "vol_ok v" by (auto simp: vols_ok_def)
  qed
  moreover have "io_ok (revol s vi f)"
    unfolding io_ok_def revol_fields
  proof (intro conjI ballI allI impI)
    show "\<bar>UseReadBehind s\<bar> < 2 ^ 17" using G by (simp add: io_ok_def)
    fix v assume "v \<in> set (VolList (revol s vi f))"
    from in_set [OF this] obtain w where w: "w \<in> set (VolList s)" "vol_like v w" by blast
    show "dev_write_ok (devices s (v_fd v)) 0" using w G by (simp add: io_ok_def vol_like_def)
    fix off assume "sint (vol_buf_beg (v_ondisk v)) \<le> off" "off + 16384 \<le> sint (vol_buf_end (v_ondisk v))"
    with w G show "dev_read_ok (devices s (v_fd v)) off" "dev_write_ok (devices s (v_fd v)) off"
      by (simp_all add: io_ok_def vol_like_def)
  qed
  moreover have "lists_ok (revol s vi f)" using G by (auto simp: lists_ok_def same)
  moreover have "bufs_ok (revol s vi f)"
    using G unfolding bufs_ok_def buf_ok_def by (simp add: area same phys)
  moreover have "coherent D (revol s vi f)"
    using G unfolding coherent_def bufs_ok_def buf_ok_def by (auto simp: area same)
  ultimately show ?thesis by (simp add: wfs_def)
qed

lemma good_revol: "good D s \<Longrightarrow> good D (revol s vi f)"
  by (simp add: good_def wfs_revol)

lemma bigblock_revol: "bigblock_in (revol s vi f) F vj = bigblock_in s F vj"
proof (cases "vj < length (VolList s)")
  case True
  then show ?thesis by (simp add: bigblock_in_def volume_revol area)
next
  case False
  then show ?thesis using get_volume_Some(1) [of s "HAMMER_VOL_DECODE F" vj] by (auto simp: bigblock_in_def volume_revol)
qed

lemma writes_revol:
  assumes "writes R Z s M t"
  shows "writes R Z (revol s vi f) M (revol t vi f)"
proof -
  have fr: "frame t = frame s" and w: "\<And>vj. vj < length (VolList s) \<Longrightarrow> media t vj = M vj" using assms by (simp_all add: writes_def)
  have l: "length (VolList t) = length (VolList s)" by (rule frame_vols(1) [OF fr])
  have "map vol_frame (VolList (revol t vi f)) = map vol_frame (VolList (revol s vi f))"
  proof (rule nth_equalityI)
    fix vj assume "vj < length (map vol_frame (VolList (revol t vi f)))"
    then have vj: "vj < length (VolList s)" using l by simp
    have "vol_frame (VolList t ! vj) = vol_frame (VolList s ! vj)" by (rule frame_vols(2) [OF fr vj])
    then show "map vol_frame (VolList (revol t vi f)) ! vj = map vol_frame (VolList (revol s vi f)) ! vj"
      using vj l by (auto simp: unlisted)
  qed (simp add: l)
  then have "frame (revol t vi f) = frame (revol s vi f)" using fr by (simp add: frame_def)
  then show ?thesis using assms w l by (auto simp: writes_def media_revol)
qed

lemmas revol_facts = good_revol bigblock_revol volume_revol area(2)

end

lemma holds_revol: "holds D (revol s vi f) bp = holds D s bp"
  by (simp add: holds_def)

lemma points_revol: "points (revol s vi f) p vj a = points s p vj a"
  by (simp add: points_def)

text \<open>The operations that change a volume in this way: the next free big-block, and the blockmaps of the header.\<close>

interpretation free_off: revolume "\<lambda>v. v\<lparr>v_free_off := off\<rparr>"
  by unfold_locales (simp_all add: vol_like_def vol_frame_def)

interpretation blockmaps: revolume "\<lambda>v. v\<lparr>v_ondisk := (v_ondisk v)\<lparr>vol0_blockmap := g (vol0_blockmap (v_ondisk v))\<rparr>\<rparr>"
  by unfold_locales (simp_all add: vol_like_def vol_frame_def)

end
