(* ===== verification/Freemap_Layers.thy ===== *)
theory Freemap_Layers
  imports Freemap_Format Media_Layout
begin

text \<open>
  What the formatting of the freemap leaves on the media: an empty layer 1 in a big-block of the root
  volume, and then, for each volume, the big-blocks of layer 2 with one entry for every big-block of
  the volume.
\<close>

section \<open>A pointer to a new buffer, and to the buffer already held\<close>

lemma writes_refl: "wfs D s \<Longrightarrow> writes (\<lambda>_. 0) {} s (media s) s"
  by (rule keeps_writes [OF _ keeps_refl])

lemma writes_zero: "writes R Z s M t \<Longrightarrow> (\<And>b. R b = R' b) \<Longrightarrow> Z \<subseteq> Z' \<Longrightarrow> writes R' Z' s M t"
  by (auto simp: writes_def)

lemma ref1_None [simp]: "ref1 None = (\<lambda>_. 0)"
  by (simp add: ref1_def fun_eq_iff)

lemma gbd_new_wp:
  assumes g: "good D s" and F: "bigblock_in s F vi" and k: "unat k < 2 ^ 23" and h: "holds D s bp"
    and ro: "\<not> v_rdonly (VolList s ! vi)" and m: "(F + k) AND NOT HAMMER_BUFMASK64 \<notin> mods s"
  shows "wp (buffer_data depth (F + k) bp 1) (\<lambda>(r, bp') t. \<exists>b x. r = Some (b, unat k mod 16384) \<and> bp' = Some b \<and> good D t \<and>
    writes (\<lambda>b'. ref1 bp' b' - ref1 bp b') {(F + k) AND NOT HAMMER_BUFMASK64} s
      (blank (media s) vi ((unat F mod 2 ^ 52 + unat k) div 16384 * 16384)) t \<and>
    buffers t b = Some x \<and> buf_zone2_offset x = (F + k) AND NOT HAMMER_BUFMASK64 \<and> 0 < cache_refs x \<and> cache_modified x) s"
    (is "wp _ ?Q s")
proof -
  let ?a = "F + k" and ?z = "(F + k) AND NOT HAMMER_BUFMASK64"
  note A = place_bigblock [OF F k]
  have off: "unat (?a AND HAMMER_BUFMASK64) = unat k mod 16384" by (simp add: bufmask_nat A(4))
  have z: "unat ?z mod 2 ^ 52 = (unat F mod 2 ^ 52 + unat k) div 16384 * 16384" unfolding base_digits A(3) ..
  have fetch: "wp (get_buffer lookup ?a 1) (\<lambda>r. ?Q (map_option (\<lambda>b. (b, unat k mod 16384)) r, r)) t"
    if t: "good D t" "keeps (\<lambda>b'. - ref1 bp b') s t" for t lookup
  proof -
    have fr: "frame t = frame s" using t(2) by (simp add: keeps_def)
    have vi: "vi < length (VolList s)" using A(2) get_volume_Some(1) by (auto simp: place_def)
    have p: "place t ?z vi" by (rule place_keeps [OF A(2) goodD(1) [OF g] goodD(1) [OF t(1)] fr])
    have r: "\<not> v_rdonly (VolList t ! vi)" using ro frame_fields(4) [OF fr vi] by simp
    note w = keeps_writes [OF goodD(1) [OF g] t(2)]
    have "?z \<notin> mods t" using m w by (auto simp: writes_def)
    from get_buffer_new_wp [OF t(1) A(1) p r this, of lookup] show ?thesis
    proof (rule wp_mono)
      fix r u assume "new_post D t ?z vi r u"
      then obtain b x where b: "r = Some b" "good D u"
        "writes (\<lambda>b'. if b' = b then 1 else 0) {?z} t (blank (media t) vi (unat ?z mod 2 ^ 52)) u"
        "buffers u b = Some x" "buf_zone2_offset x = ?z" "0 < cache_refs x" "cache_modified x" by (auto simp: new_post_def)
      have "writes (\<lambda>b'. ref1 r b' - ref1 bp b') {?z} s (blank (media t) vi (unat ?z mod 2 ^ 52)) u"
        by (rule writes_zero [OF writes_trans [OF w b(3)]]) (use b(1) in \<open>auto simp: ref1_def\<close>)
      then have "writes (\<lambda>b'. ref1 r b' - ref1 bp b') {?z} s (blank (media s) vi (unat ?z mod 2 ^ 52)) u"
        by (rule writes_cong) (use t(2) in \<open>auto simp: blank_def keeps_def\<close>)
      with b z show "?Q (map_option (\<lambda>b. (b, unat k mod 16384)) r, r) u" by auto
    qed
  qed
  show ?thesis
  proof (cases bp)
    case None
    have "keeps (\<lambda>b'. - ref1 bp b') s s" using keeps_refl [of s] None by (simp add: ref1_def)
    from fetch [OF g this] show ?thesis using None by (simp add: buffer_data_def get_buffer_data_def wp_simps off)
  next
    case (Some b)
    with h obtain x where x: "buffers s b = Some x" by (auto simp: holds_def)
    have "wp (rel_buffer (Some b)) (\<lambda>_. wp (get_buffer (blockmap_lookup depth) ?a 1)
        (\<lambda>r. ?Q (map_option (\<lambda>b. (b, unat k mod 16384)) r, r))) s"
      using Some h fetch by (auto intro: wp_mono [OF rel_holds_wp [OF g]])
    then show ?thesis
      using Some x raw_zone_class [OF A(1)] by (simp add: buffer_data_def get_buffer_data_def wp_simps off)
  qed
qed

lemma gbd_same_wp:
  assumes g: "good D s" and F: "bigblock_in s F vi" and k: "unat k < 2 ^ 23"
    and x: "buffers s b = Some x" "buf_zone2_offset x = (F + k) AND NOT HAMMER_BUFMASK64"
  shows "wp (buffer_data depth (F + k) (Some b) 0) (\<lambda>(r, bp') t. r = Some (b, unat k mod 16384) \<and> bp' = Some b \<and>
    good D t \<and> keeps (\<lambda>_. 0) s t \<and> buffers t = buffers s) s" (is "wp _ ?Q s")
proof -
  let ?a = "F + k"
  note A = place_bigblock [OF F k]
  note X = buf_okD [OF wfsD(4) [OF goodD(1) [OF g]] x(1)]
  have off: "unat (?a AND HAMMER_BUFMASK64) = unat k mod 16384" by (simp add: bufmask_nat A(4))
  have "wp (hammer_cache_used b) (\<lambda>_. ?Q (Some (b, unat k mod 16384), Some b)) s"
    by (rule wp_mono [OF wp_cache_used [OF goodD(1) [OF g]]]) (use g x in \<open>auto simp: good_def\<close>)
  then show ?thesis
    using x raw_zone_class [OF A(1)] same_block [OF A(1) X(3,4)]
    by (simp add: buffer_data_def get_buffer_data_def wp_simps off)
qed

section \<open>An empty layer 1\<close>

definition layer1_unavail :: "u32 \<Rightarrow> hammer_blockmap_layer1" where
  "layer1_unavail version = hammer_crc_set_layer1 version
     (layer1_zero\<lparr>l1_phys_offset := HAMMER_BLOCKMAP_UNAVAIL, l1_blocks_free := 0\<rparr>)"

text \<open>The buffers of a big-block.\<close>

definition blk :: "u64 \<Rightarrow> nat \<Rightarrow> u64" where
  "blk F j = F + of_nat (j * 16384)"

lemma unat_small: "n < 2 ^ 23 \<Longrightarrow> unat (of_nat n :: u64) = n"
  by (simp only: unat_of_nat) simp

lemma blk_nat:
  assumes F: "2 ^ 23 dvd unat F" and j: "j < 512"
  shows "unat (blk F j) = unat F + j * 16384"
proof -
  have "j * 16384 < 2 ^ 23" using j by simp
  then show ?thesis unfolding blk_def using bigblock_addr(1) [OF F, of "of_nat (j * 16384)"] by (simp only: unat_small)
qed

lemma blk_base:
  assumes F: "2 ^ 23 dvd unat F" and k: "k < 2 ^ 23"
  shows "(F + of_nat k) AND NOT HAMMER_BUFMASK64 = blk F (k div 16384)"
proof (rule word_unat_eq_iff [THEN iffD2])
  have j: "k div 16384 < 512" using k by (intro less_mult_imp_div_less) simp
  obtain q where q: "unat F = 2 ^ 23 * q" using F by blast
  have "2 ^ 23 * q + k = k + (512 * q) * 16384" by simp
  then have d: "(2 ^ 23 * q + k) div 2 ^ 14 = k div 16384 + 512 * q"
    by (simp only: div_mult_self1 numeral_eq_iff zero_neq_numeral not_False_eq_True power_numeral) simp
  have "unat (F + of_nat k) = 2 ^ 23 * q + k"
    using bigblock_addr(1) [OF F, of "of_nat k"] k by (simp only: unat_small q)
  then show "unat ((F + of_nat k) AND NOT HAMMER_BUFMASK64) = unat (blk F (k div 16384))"
    unfolding buf_base_nat blk_nat [OF F j] by (simp only: d q) simp
qed

lemma blk_inject:
  assumes F: "2 ^ 23 dvd unat F" and "i < 512" "j < 512" "blk F i = blk F j"
  shows "i = j"
proof -
  have "unat F + i * 16384 = unat F + j * 16384"
    unfolding blk_nat [OF F assms(2), symmetric] blk_nat [OF F assms(3), symmetric] assms(4) ..
  then show ?thesis by simp
qed

definition formatting :: "hammer_state \<Rightarrow> u64 \<Rightarrow> nat \<Rightarrow> nat \<Rightarrow> nat option \<Rightarrow> hammer_state \<Rightarrow> bool" where
  "formatting s F vi k bp t \<longleftrightarrow> good {} t \<and>
     writes (ref1 bp) (blk F ` {..<(k + 511) div 512}) s
       (run (run (media s) vi (unat F mod 2 ^ 52) 16384 zeroes ((k + 511) div 512)) vi (unat F mod 2 ^ 52) 32
         (\<lambda>_. layer1_bytes (layer1_unavail (HammerVersion s))) k) t \<and>
     (k mod 512 \<noteq> 0 \<longrightarrow> (\<exists>b x. bp = Some b \<and> buffers t b = Some x \<and> buf_zone2_offset x = blk F (k div 512) \<and>
        0 < cache_refs x \<and> cache_modified x))"

lemma holds_writes:
  assumes "good D s" and "writes R Z s M t" and "\<And>b. bp = Some b \<Longrightarrow> 1 \<le> R b"
  shows "holds {} t bp"
  unfolding holds_def
proof (intro allI impI)
  fix b assume b: "bp = Some b"
  have "refs_of t b = refs_of s b + R b" using assms(2) by (simp add: writes_def)
  moreover have "0 \<le> refs_of s b" by (rule refs_nonneg [OF goodD(1) [OF assms(1)]])
  ultimately show "\<exists>x. buffers t b = Some x \<and> 0 < cache_refs x \<and> (b \<in> {} \<longrightarrow> 1 < cache_refs x)"
    using assms(3) [OF b] by (cases "buffers t b") (auto simp: refs_of_def)
qed

text \<open>Storing an entry through a pointer into a marked buffer.\<close>

lemma format_store_wp:
  assumes g: "good {} t" and x: "buffers t b = Some x" "0 < cache_refs x" "cache_modified x" "buf_zone2_offset x = z"
    and p: "points t (b, i) vi a" and i: "i + 32 \<le> 16384" and ro: "\<not> v_rdonly (VolList t ! vi)"
  shows "wp (upd_layer1 (b, i) (\<lambda>_. l)) (\<lambda>_ u. good {} u \<and> writes (\<lambda>_. 0) {} t (put (media t) vi a (layer1_bytes l)) u \<and>
    (\<exists>x'. buffers u b = Some x' \<and> buf_zone2_offset x' = z \<and> 0 < cache_refs x' \<and> cache_modified x')) t"
proof (rule wp_mono [OF upd_layer_points(1) [OF g p ro]])
  fix u
  assume u: "good (insert (fst (b, i)) {}) u \<and> writes (\<lambda>_. 0) {} t (put (media t) vi a (layer1_bytes l)) u \<and>
    (\<forall>x. buffers t (fst (b, i)) = Some x \<longrightarrow> cache_modified x \<longrightarrow> good {} u \<and> (\<exists>x'. buffers u (fst (b, i)) = Some x' \<and> cache_modified x'))"
  then have w: "writes (\<lambda>_. 0) {} t (put (media t) vi a (layer1_bytes l)) u" by blast
  have "0 < refs_of u b" using w x by (simp add: writes_def refs_of_def)
  from writes_held [OF goodD(1) [OF g] w x(1) this] u x show "good {} u \<and> writes (\<lambda>_. 0) {} t (put (media t) vi a (layer1_bytes l)) u \<and>
    (\<exists>x'. buffers u b = Some x' \<and> buf_zone2_offset x' = z \<and> 0 < cache_refs x' \<and> cache_modified x')"
    by (metis add.right_neutral fst_conv option.inject)
qed (use i in simp)

definition fetched :: "hammer_state \<Rightarrow> u64 \<Rightarrow> nat \<Rightarrow> nat \<Rightarrow> nat \<Rightarrow> hammer_state \<Rightarrow> bool" where
  "fetched s F vi k b t \<longleftrightarrow> good {} t \<and>
     writes (ref1 (Some b)) (blk F ` {..<(k + 512) div 512}) s
       (run (run (media s) vi (unat F mod 2 ^ 52) 16384 zeroes ((k + 512) div 512)) vi (unat F mod 2 ^ 52) 32
         (\<lambda>_. layer1_bytes (layer1_unavail (HammerVersion s))) k) t \<and>
     (\<exists>x. buffers t b = Some x \<and> buf_zone2_offset x = blk F (k div 512) \<and> 0 < cache_refs x \<and> cache_modified x)"

lemma short_bigblock: "2 ^ 23 dvd unat (F :: u64) \<Longrightarrow> 2 ^ 23 dvd unat F mod 2 ^ 52"
proof -
  assume "2 ^ 23 dvd unat F"
  moreover have "(2 :: nat) ^ 23 dvd 2 ^ 52" by (rule le_imp_power_dvd) simp
  ultimately show ?thesis by (simp only: dvd_mod_iff)
qed

lemma short_aligned_buf:
  assumes "2 ^ 23 dvd unat (F :: u64)"
  shows "16384 dvd unat F mod 2 ^ 52"
  using dvd_trans [OF le_imp_power_dvd [of 14 23 2] short_bigblock [OF assms]] by simp

lemma format_fetch_new:
  assumes g: "good {} s" and F: "bigblock_in s F vi" and ro: "\<not> v_rdonly (VolList s ! vi)"
    and m: "blk F ` {..<512} \<inter> mods s = {}" and k: "k < 2 ^ 18" "k mod 512 = 0" and t: "formatting s F vi k bp t"
  shows "wp (buffer_data depth (F + of_nat (k * 32)) bp 1)
    (\<lambda>(r, bp') u. \<exists>b. r = Some (b, k * 32 mod 16384) \<and> bp' = Some b \<and> fetched s F vi k b u) t"
proof -
  obtain q where q: "k = 512 * q" using k(2) by blast
  have q': "q < 512" using k(1) q by simp
  have c: "(k + 511) div 512 = q" "(k + 512) div 512 = Suc q" "k div 512 = q" "k * 32 = q * 16384" using q by simp_all
  have F23: "2 ^ 23 dvd unat F" using F by (simp add: bigblock_in_def)
  have k32: "k * 32 < 2 ^ 23" using k(1) by simp
  have u: "unat (of_nat (k * 32) :: u64) = k * 32" by (rule unat_small [OF k32])
  have k': "unat (of_nat (k * 32) :: u64) < 2 ^ 23" unfolding u by (rule k32)
  let ?E = "\<lambda>_. layer1_bytes (layer1_unavail (HammerVersion s))" and ?B = "unat F mod 2 ^ 52"
  have gt: "good {} t" and w: "writes (ref1 bp) (blk F ` {..<q}) s (run (run (media s) vi ?B 16384 zeroes q) vi ?B 32 ?E k) t"
    using t c by (simp_all add: formatting_def)
  have fr: "frame t = frame s" using w by (simp add: writes_def)
  have vi: "vi < length (VolList s)" using F get_volume_Some(1) by (auto simp: bigblock_in_def)
  have ro': "\<not> v_rdonly (VolList t ! vi)" using ro frame_fields(4) [OF fr vi] by simp
  have F': "bigblock_in t F vi" by (rule bigblock_in_keeps [OF F goodD(1) [OF g] goodD(1) [OF gt] fr])
  have z: "(F + of_nat (k * 32)) AND NOT HAMMER_BUFMASK64 = blk F q"
    using blk_base [OF F23 k32] by (simp only: c(4)) simp
  have "blk F q \<notin> mods s" using m q' by blast
  moreover have "blk F q \<notin> blk F ` {..<q}" 
  proof
    assume "blk F q \<in> blk F ` {..<q}"
    then obtain j where j: "j < q" "blk F q = blk F j" by blast
    with blk_inject [OF F23 q' _ j(2)] q' show False by simp
  qed
  ultimately have nm: "(F + of_nat (k * 32)) AND NOT HAMMER_BUFMASK64 \<notin> mods t" unfolding z using w by (auto simp: writes_def)
  have h: "holds {} t bp" by (rule holds_writes [OF g w]) (simp add: ref1_def)
  have al: "(?B + k * 32) div 16384 * 16384 = ?B + k * 32"
    using short_aligned_buf [OF F23] by (simp only: c(4)) simp
  show ?thesis
  proof (rule wp_mono [OF gbd_new_wp [OF gt F' k' h ro' nm]], unfold u z al, clarify)
    fix b x v
    assume v: "good {} v" "writes (\<lambda>b'. ref1 (Some b) b' - ref1 bp b') {blk F q} t (blank (media t) vi (?B + k * 32)) v"
      "buffers v b = Some x" "buf_zone2_offset x = blk F q" "0 < cache_refs x" "cache_modified x"
    have "writes (ref1 (Some b)) (blk F ` {..<Suc q}) s (blank (media t) vi (?B + k * 32)) v"
      by (rule writes_zero [OF writes_trans [OF w v(2)]]) (auto simp: lessThan_Suc)
    then have "writes (ref1 (Some b)) (blk F ` {..<Suc q}) s
        (run (run (media s) vi ?B 16384 zeroes (Suc q)) vi ?B 32 ?E k) v"
      by (rule writes_cong) (use w in \<open>unfold blank_run [OF short_aligned_buf [OF F23] c(4), symmetric], simp add: blank_def writes_def\<close>)
    with v c(2,3) have "fetched s F vi k b v" by (auto simp: fetched_def)
    then show "\<exists>b'. Some (b, k * 32 mod 16384) = Some (b', k * 32 mod 16384) \<and> Some b = Some b' \<and> fetched s F vi k b' v" by blast
  qed
qed

lemma round_up_512:
  assumes "(k :: nat) mod 512 \<noteq> 0"
  shows "(k + 511) div 512 = Suc (k div 512)" and "(k + 512) div 512 = Suc (k div 512)"
proof -
  obtain r where r: "k mod 512 = Suc r" using assms by (cases "k mod 512") auto
  then have "r < 512" using mod_less_divisor [of 512 k] by simp
  moreover have "k + 511 = r + 512 * Suc (k div 512)" using r div_mult_mod_eq [of k 512] by simp
  ultimately show "(k + 511) div 512 = Suc (k div 512)" by simp
  show "(k + 512) div 512 = Suc (k div 512)" by simp
qed

lemma format_fetch_same:
  assumes g: "good {} s" and F: "bigblock_in s F vi"
    and k: "k < 2 ^ 18" "k mod 512 \<noteq> 0" and t: "formatting s F vi k bp t"
  shows "wp (buffer_data depth (F + of_nat (k * 32)) bp 0)
    (\<lambda>(r, bp') u. \<exists>b. r = Some (b, k * 32 mod 16384) \<and> bp' = Some b \<and> fetched s F vi k b u) t"
proof -
  have "k * 32 div (512 * 32) = k div 512" by (rule div_mult_mult2) simp
  then have c: "(k + 511) div 512 = (k + 512) div 512" "k * 32 div 16384 = k div 512"
    using round_up_512 [OF k(2)] by simp_all
  have F23: "2 ^ 23 dvd unat F" using F by (simp add: bigblock_in_def)
  have k32: "k * 32 < 2 ^ 23" using k(1) by simp
  have u: "unat (of_nat (k * 32) :: u64) = k * 32" by (rule unat_small [OF k32])
  have k': "unat (of_nat (k * 32) :: u64) < 2 ^ 23" unfolding u by (rule k32)
  obtain b x where b: "bp = Some b" "buffers t b = Some x" "buf_zone2_offset x = blk F (k div 512)" "0 < cache_refs x" "cache_modified x"
    using t k(2) by (auto simp: formatting_def)
  let ?M = "run (run (media s) vi (unat F mod 2 ^ 52) 16384 zeroes ((k + 512) div 512)) vi (unat F mod 2 ^ 52) 32
    (\<lambda>_. layer1_bytes (layer1_unavail (HammerVersion s))) k"
  have gt: "good {} t" and w: "writes (ref1 bp) (blk F ` {..<(k + 512) div 512}) s ?M t"
    using t by (simp_all add: formatting_def c(1))
  have fr: "frame t = frame s" using w by (simp add: writes_def)
  have F': "bigblock_in t F vi" by (rule bigblock_in_keeps [OF F goodD(1) [OF g] goodD(1) [OF gt] fr])
  have z: "buf_zone2_offset x = (F + of_nat (k * 32)) AND NOT HAMMER_BUFMASK64"
    unfolding blk_base [OF F23 k32] c(2) by (rule b(3))
  show ?thesis
    unfolding b(1)
  proof (rule wp_mono [OF gbd_same_wp [OF gt F' k' b(2) z]], unfold u, clarify)
    fix v assume v: "good {} v" "keeps (\<lambda>_. 0) t v" "buffers v = buffers t"
    have "writes (ref1 (Some b)) (blk F ` {..<(k + 512) div 512}) s ?M v"
      by (rule writes_zero [OF writes_keeps [OF w goodD(1) [OF gt] v(2)]]) (simp_all add: b(1))
    with v b show "\<exists>b'. Some (b, k * 32 mod 16384) = Some (b', k * 32 mod 16384) \<and> Some b = Some b' \<and> fetched s F vi k b' v"
      by (simp add: fetched_def)
  qed
qed

lemma format_fetch_wp:
  assumes "good {} s" "bigblock_in s F vi" "\<not> v_rdonly (VolList s ! vi)" "blk F ` {..<512} \<inter> mods s = {}"
    and "k < 2 ^ 18" "formatting s F vi k bp t"
  shows "wp (buffer_data depth (F + of_nat (k * 32)) bp (if k * 32 mod 16384 = 0 then 1 else 0))
    (\<lambda>(r, bp') u. \<exists>b. r = Some (b, k * 32 mod 16384) \<and> bp' = Some b \<and> fetched s F vi k b u) t"
proof -
  have "k * 32 mod 16384 = k mod 512 * 32" using mult_mod_left [of k 512 32] by simp
  then show ?thesis
    using format_fetch_new [OF assms(1-5) _ assms(6)] format_fetch_same [OF assms(1,2,5) _ assms(6)] by (auto cong: if_cong)
qed


lemma format_layer1_step:
  assumes g: "good {} s" and F: "bigblock_in s F vi" and ro: "\<not> v_rdonly (VolList s ! vi)"
    and m: "blk F ` {..<512} \<inter> mods s = {}" and k: "k < 2 ^ 18" and t: "formatting s F vi k bp t"
  shows "wp (format_layer1 depth F (k * 32) bp) (formatting s F vi (Suc k)) t"
proof -
  let ?l = "layer1_unavail (HammerVersion s)" and ?B = "unat F mod 2 ^ 52"
  have F23: "2 ^ 23 dvd unat F" using F by (simp add: bigblock_in_def)
  have "frame t = frame s" using t by (simp add: formatting_def writes_def)
  then have ver: "HammerVersion t = HammerVersion s" by (simp add: frame_def)
  have vi: "vi < length (VolList s)" using F get_volume_Some(1) by (auto simp: bigblock_in_def)
  have k32: "k * 32 < 2 ^ 23" using k by simp
  have d: "k * 32 div (512 * 32) = k div 512" by (rule div_mult_mult2) simp
  have e: "k * 32 mod (512 * 32) = k mod 512 * 32" by (rule mult_mod_left [symmetric])
  moreover have "k mod 512 < 512" by simp
  ultimately have i: "k * 32 mod 16384 + 32 \<le> 16384" by simp
  have z: "blk F (k div 512) = (F + of_nat (k * 32)) AND NOT HAMMER_BUFMASK64"
    using blk_base [OF F23 k32] d by simp
  have step: "wp (upd_layer1 (b, k * 32 mod 16384) (\<lambda>_. ?l)) (\<lambda>_. formatting s F vi (Suc k) (Some b)) u"
    if u: "fetched s F vi k b u" for b u
  proof -
    obtain x where x: "buffers u b = Some x" "buf_zone2_offset x = blk F (k div 512)" "0 < cache_refs x" "cache_modified x"
      using u by (auto simp: fetched_def)
    have gu: "good {} u" and w: "writes (ref1 (Some b)) (blk F ` {..<(k + 512) div 512}) s
       (run (run (media s) vi ?B 16384 zeroes ((k + 512) div 512)) vi ?B 32 (\<lambda>_. layer1_bytes ?l) k) u"
      using u by (simp_all add: fetched_def)
    have fr: "frame u = frame s" using w by (simp add: writes_def)
    have F': "bigblock_in u F vi" by (rule bigblock_in_keeps [OF F goodD(1) [OF g] goodD(1) [OF gu] fr])
    have p: "points u (b, k * 32 mod 16384) vi (?B + k * 32)"
      using points_bigblock [OF goodD(1) [OF gu] F', of "of_nat (k * 32)"] x z k32 by (simp only: unat_small)
    have ro': "\<not> v_rdonly (VolList u ! vi)" using ro frame_fields(4) [OF fr vi] by simp
    show ?thesis
    proof (rule wp_mono [OF format_store_wp [OF gu x(1,3,4,2) p i ro']])
      fix v
      assume v: "good {} v \<and> writes (\<lambda>_. 0) {} u (put (media u) vi (?B + k * 32) (layer1_bytes ?l)) v \<and>
        (\<exists>x'. buffers v b = Some x' \<and> buf_zone2_offset x' = blk F (k div 512) \<and> 0 < cache_refs x' \<and> cache_modified x')"
      note pr = put_run [of "\<lambda>_. layer1_bytes ?l" k 32, OF length_struct_bytes(2) zero_less_numeral]
      from v have "writes (\<lambda>_. 0) {} u (put (media u) vi (?B + k * 32) (layer1_bytes ?l)) v" by blast
      from writes_trans [OF w this] have "writes (ref1 (Some b)) (blk F ` {..<(k + 512) div 512}) s
        (put (media u) vi (?B + k * 32) (layer1_bytes ?l)) v" by (rule writes_zero) simp_all
      then have "writes (ref1 (Some b)) (blk F ` {..<(k + 512) div 512}) s
        (run (run (media s) vi ?B 16384 zeroes ((k + 512) div 512)) vi ?B 32 (\<lambda>_. layer1_bytes ?l) (Suc k)) v"
        by (rule writes_cong) (use w in \<open>unfold pr [symmetric], simp add: put_def writes_def\<close>)
      moreover have "Suc k mod 512 \<noteq> 0 \<Longrightarrow> Suc k div 512 = k div 512" by (simp add: mod_Suc div_Suc split: if_splits)
      moreover have "(Suc k + 511) div 512 = (k + 512) div 512" by simp
      ultimately show "formatting s F vi (Suc k) (Some b) v" using v by (auto simp: formatting_def)
    qed
  qed
  show ?thesis
    unfolding format_layer1_def wp_bind wp_get ver
    by (rule wp_mono [OF format_fetch_wp [OF g F ro m k t]]) (auto simp: wp_simps layer1_unavail_def [symmetric] intro!: step)
qed

lemma run_cover: "k * n = j * m \<Longrightarrow> run (run M vi base m E' j) vi base n E k = run M vi base n E k"
  by (auto simp: run_def fun_eq_iff)

definition new_freemap :: "u32 \<Rightarrow> u64 \<Rightarrow> hammer_blockmap" where
  "new_freemap version F = hammer_crc_set_blockmap version
     \<lparr>bm_phys_offset = F, bm_first_offset = 0, bm_next_offset = HAMMER_ENCODE_RAW_BUFFER 0 0,
      bm_alloc_offset = HAMMER_ENCODE_RAW_BUFFER 255 (- 1), bm_reserved01 = 0, bm_entry_crc = 0\<rparr>"

definition with_freemap :: "hammer_state \<Rightarrow> nat \<Rightarrow> hammer_state" where
  "with_freemap s vi = (let F = v_free_off (VolList s ! vi) in
     revol (revol s vi (\<lambda>v. v\<lparr>v_free_off := F + HAMMER_BIGBLOCK_SIZE64\<rparr>)) vi
       (\<lambda>v. v\<lparr>v_ondisk := (v_ondisk v)\<lparr>vol0_blockmap := (vol0_blockmap (v_ondisk v))[4 := new_freemap (HammerVersion s) F]\<rparr>\<rparr>))"

lemma bootstrap_wp:
  assumes "vi < length (VolList s)" and "hammer_is_zone_raw_buffer (v_free_off (VolList s ! vi))"
    and "hammer_is_zone_raw_buffer (v_free_end (VolList s ! vi))" and "v_free_off (VolList s ! vi) < v_free_end (VolList s ! vi)"
  shows "wp (bootstrap_bigblock vi) (\<lambda>F t. F = v_free_off (VolList s ! vi) \<and>
    t = revol s vi (\<lambda>v. v\<lparr>v_free_off := v_free_off (VolList s ! vi) + HAMMER_BIGBLOCK_SIZE64\<rparr>)) s"
  using assms by (simp add: bootstrap_bigblock_def assert_volume_offset_def wp_simps revol_def)

lemma format_freemap_wp:
  assumes g: "good {} s" and root: "get_root_volume s = Some vi" and F: "F = v_free_off (VolList s ! vi)" "bigblock_in s F vi"
    and e: "hammer_is_zone_raw_buffer (v_free_end (VolList s ! vi))" "F < v_free_end (VolList s ! vi)"
    and ro: "\<not> v_rdonly (VolList s ! vi)" and m: "blk F ` {..<512} \<inter> mods s = {}"
  shows "wp (format_freemap depth vi) (\<lambda>_ t. good {} t \<and> writes (\<lambda>_. 0) (blk F ` {..<512}) (with_freemap s vi)
    (run (media s) vi (unat F mod 2 ^ 52) 32 (\<lambda>_. layer1_bytes (layer1_unavail (HammerVersion s))) (2 ^ 18)) t) s"
proof -
  have vi: "vi < length (VolList s)" and no: "v_vol_no (VolList s ! vi) = HAMMER_ROOT_VOLNO"
    using root get_volume_Some by (auto simp: get_root_volume_def)
  define s1 where "s1 = revol s vi (\<lambda>v. v\<lparr>v_free_off := F + HAMMER_BIGBLOCK_SIZE64\<rparr>)"
  have g1: "good {} s1" unfolding s1_def by (rule free_off.good_revol [OF g])
  have F1: "bigblock_in s1 F vi" unfolding s1_def free_off.bigblock_revol by (rule F(2))
  have ro1: "\<not> v_rdonly (VolList s1 ! vi)" using ro vi by (simp add: s1_def)
  have m1: "blk F ` {..<512} \<inter> mods s1 = {}" using m by (simp add: s1_def)
  have media1: "media s1 vj = media s vj" if "vj < length (VolList s)" for vj
    unfolding s1_def by (rule free_off.media_revol [OF that])
  have len: "length (VolList s1) = length (VolList s)" and ver: "HammerVersion s1 = HammerVersion s" by (simp_all add: s1_def)
  let ?E = "\<lambda>_. layer1_bytes (layer1_unavail (HammerVersion s))" and ?B = "unat F mod 2 ^ 52"
  have start: "formatting s1 F vi 0 None s1"
    using g1 writes_refl [OF goodD(1) [OF g1]] by (simp add: formatting_def ref1_None)
  have loop: "wp (forS (map (\<lambda>k. k * 32) [0..<2 ^ 18]) (format_layer1 depth F) None) (formatting s1 F vi (2 ^ 18)) s1"
    by (rule wp_for_upto [where I = "formatting s1 F vi", OF start]) (rule format_layer1_step [OF g1 F1 ro1 m1])
  define h where "h = (\<lambda>v :: volume_info. v\<lparr>v_ondisk := (v_ondisk v)\<lparr>vol0_blockmap := (vol0_blockmap (v_ondisk v))[4 := new_freemap (HammerVersion s) F]\<rparr>\<rparr>)"
  have fin: "wp (rel_buffer bp) (\<lambda>_ u. HammerVersion u = HammerVersion s \<and> vi < length (VolList u) \<and> good {} (revol u vi h) \<and>
      writes (\<lambda>_. 0) (blk F ` {..<512}) (with_freemap s vi) (run (media s) vi ?B 32 ?E (2 ^ 18)) (revol u vi h)) t"
    if t: "formatting s1 F vi (2 ^ 18) bp t" for bp t
  proof -
    have gt: "good {} t" using t by (simp add: formatting_def)
    have rc: "run (run (media s1) vi ?B 16384 zeroes 512) vi ?B 32 ?E (2 ^ 18) = run (media s1) vi ?B 32 ?E (2 ^ 18)"
      by (rule run_cover) simp
    have "(2 ^ 18 + 511) div 512 = (512 :: nat)" by simp
    then have w: "writes (ref1 bp) (blk F ` {..<512}) s1 (run (media s1) vi ?B 32 ?E (2 ^ 18)) t"
      using t unfolding formatting_def ver by (simp only: rc)
    have w: "writes (ref1 bp) (blk F ` {..<512}) s1 (run (media s) vi ?B 32 ?E (2 ^ 18)) t"
      by (rule writes_cong [OF w]) (simp add: run_def media1 len)
    have hb: "holds {} t bp" by (rule holds_writes [OF g1 w]) (simp add: ref1_def)
    show ?thesis
    proof (rule wp_mono [OF rel_holds_wp [OF gt hb]])
      fix u assume u: "good {} u \<and> keeps (\<lambda>b'. - ref1 bp b') t u"
      have w0: "writes (\<lambda>_. 0) (blk F ` {..<512}) s1 (run (media s) vi ?B 32 ?E (2 ^ 18)) u"
        by (rule writes_zero [OF writes_keeps [OF w goodD(1) [OF gt]]]) (use u in auto)
      have fr: "frame u = frame s1" using w0 by (simp add: writes_def)
      have "HammerVersion u = HammerVersion s" "length (VolList u) = length (VolList s)"
        using frame_vols(1) [OF fr] len fr ver by (simp_all add: frame_def)
      moreover have "good {} (revol u vi h)" unfolding h_def using u by (intro blockmaps.good_revol) simp
      moreover have "with_freemap s vi = revol s1 vi h" by (simp add: with_freemap_def s1_def h_def F(1) Let_def)
      ultimately show "HammerVersion u = HammerVersion s \<and> vi < length (VolList u) \<and> good {} (revol u vi h) \<and>
          writes (\<lambda>_. 0) (blk F ` {..<512}) (with_freemap s vi) (run (media s) vi ?B 32 ?E (2 ^ 18)) (revol u vi h)"
        using vi blockmaps.writes_revol [OF w0] by (simp add: h_def)
    qed
  qed
  have fraw: "hammer_is_zone_raw_buffer (v_free_off (VolList s ! vi))" using F by (simp add: bigblock_in_def)
  have boot: "wp (bootstrap_bigblock vi) (\<lambda>L u. L = F \<and> u = s1) s"
    by (rule wp_mono [OF bootstrap_wp [OF vi fraw e(1)]]) (use e(2) F(1) in \<open>simp_all add: s1_def\<close>)
  have store: "wp (upd_blockmap vi HAMMER_ZONE_FREEMAP_INDEX (\<lambda>_. new_freemap (HammerVersion s) F)) Q u \<longleftrightarrow>
      vi < length (VolList u) \<and> Q () (revol u vi h)" for Q u
    by (simp add: upd_blockmap_def upd_ondisk_def wp_simps revol_def h_def HAMMER_ZONE_FREEMAP_INDEX_def)
  have n: "nat HAMMER_BIGBLOCK_SIZE div 32 = 2 ^ 18" by (simp add: HAMMER_BIGBLOCK_SIZE_def)
  show ?thesis
    unfolding format_freemap_def wp_bind wp_get_vol wp_assert wp_get n
  proof (intro conjI vi no wp_mono [OF boot], clarify)
    show "wp (forS (map (\<lambda>k. k * 32) [0..<2 ^ 18]) (format_layer1 depth F) None) (\<lambda>buffer. wp (rel_buffer buffer)
      (\<lambda>_ u. wp (upd_blockmap vi HAMMER_ZONE_FREEMAP_INDEX (\<lambda>_. hammer_crc_set_blockmap (HammerVersion u)
         \<lparr>bm_phys_offset = F, bm_first_offset = 0, bm_next_offset = HAMMER_ENCODE_RAW_BUFFER 0 0,
          bm_alloc_offset = HAMMER_ENCODE_RAW_BUFFER 255 (- 1), bm_reserved01 = 0, bm_entry_crc = 0\<rparr>))
       (\<lambda>_ t. good {} t \<and> writes (\<lambda>_. 0) (blk F ` {..<512}) (with_freemap s vi) (run (media s) vi ?B 32 ?E (2 ^ 18)) t) u)) s1"
      by (rule wp_mono [OF loop], rule wp_mono [OF fin], assumption) (simp add: new_freemap_def [symmetric] store)
  qed
qed

section \<open>The freemap of a formatted file system\<close>

lemma with_freemap_fields:
  assumes "vi < length (VolList s)"
  shows "VolList (with_freemap s vi) ! vi = (VolList s ! vi)\<lparr>v_free_off := v_free_off (VolList s ! vi) + HAMMER_BIGBLOCK_SIZE64,
      v_ondisk := (v_ondisk (VolList s ! vi))\<lparr>vol0_blockmap := (vol0_blockmap (v_ondisk (VolList s ! vi)))
        [4 := new_freemap (HammerVersion s) (v_free_off (VolList s ! vi))]\<rparr>\<rparr>"
    and "get_volume (with_freemap s vi) n = get_volume s n"
    and "bigblock_in (with_freemap s vi) F vj = bigblock_in s F vj"
    and "good D s \<Longrightarrow> good D (with_freemap s vi)"
    and "HammerVersion (with_freemap s vi) = HammerVersion s"
    and "length (VolList (with_freemap s vi)) = length (VolList s)"
proof -
  let ?g = "\<lambda>maps :: hammer_blockmap list. maps[4 := new_freemap (HammerVersion s) (v_free_off (VolList s ! vi))]"
  note facts = blockmaps.volume_revol [of _ _ ?g] free_off.volume_revol blockmaps.bigblock_revol [of _ _ ?g] free_off.bigblock_revol
  show "VolList (with_freemap s vi) ! vi = (VolList s ! vi)\<lparr>v_free_off := v_free_off (VolList s ! vi) + HAMMER_BIGBLOCK_SIZE64,
      v_ondisk := (v_ondisk (VolList s ! vi))\<lparr>vol0_blockmap := (vol0_blockmap (v_ondisk (VolList s ! vi)))
        [4 := new_freemap (HammerVersion s) (v_free_off (VolList s ! vi))]\<rparr>\<rparr>"
    using assms by (simp add: with_freemap_def Let_def)
  show "get_volume (with_freemap s vi) n = get_volume s n" "bigblock_in (with_freemap s vi) F vj = bigblock_in s F vj"
    unfolding with_freemap_def Let_def by (simp_all only: facts)
  show "good D (with_freemap s vi)" if "good D s"
    unfolding with_freemap_def Let_def by (intro blockmaps.good_revol free_off.good_revol that)
qed (simp_all add: with_freemap_def Let_def)

lemma bm_phys_new_freemap [simp]: "bm_phys_offset (new_freemap version F) = F"
  by (simp add: new_freemap_def hammer_crc_set_blockmap_def)

lemma l1_phys_unavail [simp]: "l1_phys_offset (layer1_unavail version) = HAMMER_BLOCKMAP_UNAVAIL"
  by (simp add: layer1_unavail_def hammer_crc_set_layer1_def)

lemma media_bytes_writes:
  assumes "writes R Z s M t" and "vi < length (VolList s)"
  shows "media_bytes t vi a n = cut M vi a n"
  using assms by (simp add: media_bytes_def writes_def)

lemma vol_frame_free: "vol_frame v = vol_frame w \<Longrightarrow> v_free_off v = v_free_off w \<and> v_free_end v = v_free_end w"
  by (cases v; cases w) (simp add: vol_frame_def)

lemma formatted_view:
  assumes g: "good {} s" and root: "get_root_volume s = Some vi" and F: "F = v_free_off (VolList s ! vi)" "bigblock_in s F vi"
    and len: "length (vol0_blockmap (v_ondisk (VolList s ! vi))) = 16" and gt: "good {} t"
    and w: "writes R Z (with_freemap s vi) (run (media s) vi (unat F mod 2 ^ 52) 32 (\<lambda>_. layer1_bytes (layer1_unavail version)) (2 ^ 18)) t"
  shows "freemap_phys t = F" and "layer1_at t off = layer1_unavail version" and "freemap_ok t"
    and "v_free_off (VolList t ! vi) = F + HAMMER_BIGBLOCK_SIZE64" and "v_free_end (VolList t ! vi) = v_free_end (VolList s ! vi)"
proof -
  let ?s = "with_freemap s vi"
  have vi: "vi < length (VolList s)" using root get_volume_Some(1) by (auto simp: get_root_volume_def)
  note S = with_freemap_fields [OF vi]
  have fr: "frame t = frame ?s" using w by (simp add: writes_def)
  have gs: "good {} ?s" by (rule S(4) [OF g])
  have gv: "get_volume t n = Some vj" if "get_volume s n = Some vj" for n vj
    using get_volume_frame [OF fr wfsD(1) [OF goodD(1) [OF gs]] wfsD(1) [OF goodD(1) [OF gt]]] that S(2) by simp
  have rt: "get_root_volume t = Some vi" using gv root by (simp add: get_root_volume_def)
  have vs: "vi < length (VolList ?s)" using vi S(6) by simp
  have od: "v_ondisk (VolList t ! vi) = v_ondisk (VolList ?s ! vi)" by (rule frame_fields(3) [OF fr vs])
  show ph: "freemap_phys t = F"
    unfolding freemap_phys_def root_ondisk_def rt using od S(1) len F(1) by simp
  have vF: "get_volume s (HAMMER_VOL_DECODE F) = Some vi" using F(2) by (simp add: bigblock_in_def)
  have vo: "vol_of t F = vi" using gv [OF vF] by (simp add: vol_of_def)
  show l1: "layer1_at t off = layer1_unavail version" for off
  proof -
    obtain j where j: "unat (HAMMER_BLOCKMAP_LAYER1_OFFSET off) = j * 32" "j < 2 ^ 18"
      using layer1_offset_nat(1,2) [of off] by simp
    show ?thesis
      unfolding layer1_at_def Let_def ph vo media_bytes_writes [OF w vs] j(1)
      by (subst cut_run) (use j(2) in simp_all)
  qed
  have Ft: "bigblock_in t F vi"
    by (rule bigblock_in_keeps [OF _ goodD(1) [OF gs] goodD(1) [OF gt] fr]) (simp add: S(3) F(2))
  show "freemap_ok t"
    unfolding freemap_ok_def ph vo l1 Let_def using rt od S(1) len Ft by (simp add: root_ondisk_def)
  have "vol_frame (VolList t ! vi) = vol_frame (VolList ?s ! vi)" by (rule frame_vols(2) [OF fr vs])
  then have "v_free_off (VolList t ! vi) = v_free_off (VolList ?s ! vi) \<and> v_free_end (VolList t ! vi) = v_free_end (VolList ?s ! vi)"
    using vol_frame_free by blast
  then show "v_free_off (VolList t ! vi) = F + HAMMER_BIGBLOCK_SIZE64" "v_free_end (VolList t ! vi) = v_free_end (VolList s ! vi)"
    using S(1) F(1) by simp_all
qed

end
