(* ===== verification/Freemap_Init.thy ===== *)
theory Freemap_Init
  imports Freemap_Layers
begin

text \<open>
  \<open>initialize_freemap\<close>, first loop: every layer 1 entry of the volume is given a big-block of the volume
  for its part of layer 2.
\<close>

section \<open>Addresses of a volume\<close>

definition vat :: "int \<Rightarrow> nat \<Rightarrow> u64" where
  "vat n x = HAMMER_ENCODE_RAW_BUFFER n 0 + of_nat x"

lemma vat_add: "vat n x + of_nat y = vat n (x + y)"
  by (simp add: vat_def)

lemma vat_nat:
  assumes n: "0 \<le> n" "n < 256" and x: "x < 2 ^ 52"
  shows "unat (vat n x) = 2 * 2 ^ 60 + nat n * 2 ^ 52 + x"
proof -
  have b: "unat (HAMMER_ENCODE_RAW_BUFFER n 0) = 2 * 2 ^ 60 + nat n * 2 ^ 52" using encode_raw_buffer(1) [OF n, of 0] by simp
  have "nat n < 256" using n by simp
  then have "2 * 2 ^ 60 + nat n * 2 ^ 52 + x < (2 :: nat) ^ 64" using x by simp
  moreover have "unat (of_nat x :: u64) = x" using x by (simp only: unat_of_nat) simp
  ultimately show ?thesis unfolding vat_def using b unat_add_lem [of "HAMMER_ENCODE_RAW_BUFFER n 0" "of_nat x"] by simp
qed

lemma vat_digits:
  assumes n: "0 \<le> n" "n < 256" and x: "x < 2 ^ 52"
  shows "hammer_is_zone_raw_buffer (vat n x)" and "HAMMER_VOL_DECODE (vat n x) = n" and "unat (vat n x) mod 2 ^ 52 = x"
proof -
  have "nat n < 256" using n by simp
  note d = offset_digits [OF this x, of 2]
  show "hammer_is_zone_raw_buffer (vat n x)" unfolding raw_buffer_nat vat_nat [OF n x] by (rule d(1))
  show "HAMMER_VOL_DECODE (vat n x) = n" unfolding vol_decode_nat vat_nat [OF n x] d(2) using n by simp
  show "unat (vat n x) mod 2 ^ 52 = x" unfolding vat_nat [OF n x] by (rule d(3))
qed

lemma vat_less:
  assumes "0 \<le> n" "n < 256" and "x < 2 ^ 52" "y < 2 ^ 52"
  shows "vat n x < vat n y \<longleftrightarrow> x < y"
  unfolding word_less_nat_alt vat_nat [OF assms(1,2,3)] vat_nat [OF assms(1,2,4)] by simp

lemma layer1_offset_vat:
  assumes n: "0 \<le> n" "n < 256" and k: "k < 1024" and x: "x < 2 ^ 42"
  shows "unat (HAMMER_BLOCKMAP_LAYER1_OFFSET (vat n (k * 2 ^ 42 + x))) = (nat n * 1024 + k) * 32"
proof -
  have "k * 2 ^ 42 + x < 2 ^ 52" using k x by simp
  note v = vat_nat [OF n this]
  have "nat n < 256" using n by simp
  then have "nat n * 2 ^ 52 + (k * 2 ^ 42 + x) < 2 ^ 60" using k x by simp
  then have "(2 * 2 ^ 60 + nat n * 2 ^ 52 + (k * 2 ^ 42 + x)) mod 2 ^ 60 = nat n * 2 ^ 52 + (k * 2 ^ 42 + x)"
    by (simp only: add.assoc mod_mult_self3 mod_less)
  moreover have "nat n * 2 ^ 52 + (k * 2 ^ 42 + x) = (nat n * 1024 + k) * 2 ^ 42 + x" by (simp add: algebra_simps)
  moreover have "((nat n * 1024 + k) * 2 ^ 42 + x) div 2 ^ 42 = nat n * 1024 + k" by (rule nat_digit(1) [OF x])
  ultimately show ?thesis unfolding layer1_offset_nat v by (simp only:)
qed

lemma layer2_offset_vat:
  assumes n: "0 \<le> n" "n < 256" and k: "k < 1024" and i: "i < 2 ^ 19" and x: "x < 2 ^ 23"
  shows "unat (HAMMER_BLOCKMAP_LAYER2_OFFSET (vat n ((k * 2 ^ 19 + i) * 2 ^ 23 + x))) = i * 16"
proof -
  have "(k * 2 ^ 19 + i) * 2 ^ 23 + x < 2 ^ 52" using k i x by simp
  note v = vat_nat [OF n this]
  have "i * 2 ^ 23 + x < 2 ^ 42" using i x by simp
  then have "((2 * 2 ^ 18 + nat n * 2 ^ 10 + k) * 2 ^ 42 + (i * 2 ^ 23 + x)) mod 2 ^ 42 = i * 2 ^ 23 + x" by (rule nat_digit(2))
  moreover have "2 * 2 ^ 60 + nat n * 2 ^ 52 + ((k * 2 ^ 19 + i) * 2 ^ 23 + x) = (2 * 2 ^ 18 + nat n * 2 ^ 10 + k) * 2 ^ 42 + (i * 2 ^ 23 + x)"
    by (simp add: algebra_simps)
  moreover have "(i * 2 ^ 23 + x) div 2 ^ 23 = i" by (rule nat_digit(1) [OF x])
  ultimately show ?thesis unfolding layer2_offset_nat v by (simp only:)
qed

lemma bigblock_vat:
  assumes g: "wfs D s" and n: "get_volume s n = Some vi" and x: "2 ^ 23 dvd x" "x + 2 ^ 23 \<le> vol_area s vi" "x < 2 ^ 52"
  shows "bigblock_in s (vat n x) vi"
proof -
  note v = get_volume_Some [OF n]
  have "VolList s ! vi \<in> set (VolList s)" using v(1) by simp
  then have "vol_ok (VolList s ! vi)" using wfsD(1) [OF g] by (simp add: vols_ok_def)
  then have n': "0 \<le> n" "n < 256" using v(2) by (simp_all add: vol_ok_def)
  have "2 ^ 23 dvd unat (vat n x)"
  proof -
    have "(2 :: nat) ^ 23 dvd 2 ^ 60" "(2 :: nat) ^ 23 dvd 2 ^ 52" by (rule le_imp_power_dvd, simp)+
    then show ?thesis unfolding vat_nat [OF n' x(3)] using x(1) by (intro dvd_add dvd_mult)
  qed
  then show ?thesis using n x vat_digits [OF n' x(3)] by (simp add: bigblock_in_def)
qed

section \<open>Entries written and marked\<close>

lemma put_put:
  assumes "length cs = length bs"
  shows "put (put M vi a bs) vi a cs = put M vi a cs"
  using assms by (auto simp: put_def fun_eq_iff)

lemma put_run_comm:
  assumes "vi \<noteq> vj \<or> a + length bs \<le> base \<or> base + k * n \<le> a"
  shows "put (run M vj base n E k) vi a bs = run (put M vi a bs) vj base n E k"
  using assms by (auto simp: put_def run_def fun_eq_iff)

lemma points_ro:
  assumes "wfs D s" and "writes R Z s M t" and "points s p vi a" and "\<not> v_rdonly (VolList s ! vi)"
  shows "\<not> v_rdonly (VolList t ! vi)"
  using assms(2,4) frame_fields(4) [OF _ points_volume [OF assms(1,3)], of t] by (simp add: writes_def)

lemma points_kept:
  assumes g: "wfs D s" and h: "wfs D' t" and w: "writes (\<lambda>_. 0) Z s M t" and p: "points s p vi a"
  shows "points t p vi a"
proof (rule points_writes [OF g h w p])
  have "refs_of t (fst p) = refs_of s (fst p)" using w by (simp add: writes_def)
  then show "0 < refs_of t (fst p)" using p by (auto simp: points_def refs_of_def)
qed

text \<open>After a store through the pointer, the buffer behind it is marked.\<close>

lemma mark_wp:
  assumes s: "good {} s" "points s (b, i) vi a" "\<not> v_rdonly (VolList s ! vi)"
    and t: "good {b} t" "writes (\<lambda>_. 0) {} s M t"
  shows "wp (set_modified (Some b)) (\<lambda>_ u. good {} u \<and> writes (\<lambda>_. 0) UNIV s M u \<and>
    (\<exists>x. buffers u b = Some x \<and> cache_modified x)) t"
proof -
  have p: "points t (b, i) vi a" by (rule points_kept [OF goodD(1) [OF s(1)] goodD(1) [OF t(1)] t(2) s(2)])
  have ro: "\<not> v_rdonly (VolList t ! vi)" by (rule points_ro [OF goodD(1) [OF s(1)] t(2) s(2,3)])
  obtain x where x: "buffers t b = Some x" using p by (auto simp: points_def)
  have "wp (set_modified (Some b)) (\<lambda>_ u. \<exists>x. buffers u b = Some x \<and> cache_modified x) t"
    using x by (simp add: set_modified_def wp_simps)
  note m = wp_conj [OF points_modified [OF t(1) p ro, unfolded fst_conv] this]
  show ?thesis
  proof (rule wp_mono [OF m])
    fix u assume u: "(good ({b} - {b}) u \<and> (\<exists>z. writes (\<lambda>_. 0) {z} t (media t) u \<and> (\<forall>x. buffers t b = Some x \<longrightarrow> z = buf_zone2_offset x))) \<and>
      (\<exists>x. buffers u b = Some x \<and> cache_modified x)"
    then obtain z where "writes (\<lambda>_. 0) {z} t (media t) u" by blast
    from writes_trans [OF t(2) this] have "writes (\<lambda>_. 0) UNIV s (media t) u" by (rule writes_zero) simp_all
    then have "writes (\<lambda>_. 0) UNIV s M u" by (rule writes_cong) (use t(2) in \<open>simp add: writes_def\<close>)
    with u show "good {} u \<and> writes (\<lambda>_. 0) UNIV s M u \<and> (\<exists>x. buffers u b = Some x \<and> cache_modified x)" by simp
  qed
qed

lemma upd_layer_marked_wp:
  assumes g: "good {} s" and p: "points s (b, i) vi a" and ro: "\<not> v_rdonly (VolList s ! vi)"
  shows "i + 32 \<le> 16384 \<Longrightarrow> wp (upd_layer1 (b, i) f) (\<lambda>_. wp (set_modified (Some b)) (\<lambda>_ t. good {} t \<and>
      writes (\<lambda>_. 0) UNIV s (put (media s) vi a (layer1_bytes (f (layer1_of_bytes (media_bytes s vi a 32))))) t \<and>
      (\<exists>x. buffers t b = Some x \<and> cache_modified x))) s"
    and "i + 16 \<le> 16384 \<Longrightarrow> wp (upd_layer2 (b, i) h) (\<lambda>_. wp (set_modified (Some b)) (\<lambda>_ t. good {} t \<and>
      writes (\<lambda>_. 0) UNIV s (put (media s) vi a (layer2_bytes (h (layer2_of_bytes (media_bytes s vi a 16))))) t \<and>
      (\<exists>x. buffers t b = Some x \<and> cache_modified x))) s"
  by (rule wp_mono [OF upd_layer_points(1) [OF g p ro]]; auto intro!: mark_wp [OF g p ro])
    (rule wp_mono [OF upd_layer_points(2) [OF g p ro]]; auto intro!: mark_wp [OF g p ro])

section \<open>The state before the initialization of a volume\<close>

abbreviation vno :: "hammer_state \<Rightarrow> nat \<Rightarrow> int" where
  "vno s vi \<equiv> v_vol_no (VolList s ! vi)"

definition free_from :: "hammer_state \<Rightarrow> nat \<Rightarrow> nat" where
  "free_from s vi = unat (v_free_off (VolList s ! vi)) mod 2 ^ 52"

definition free_to :: "hammer_state \<Rightarrow> nat \<Rightarrow> nat" where
  "free_to s vi = unat (v_free_end (VolList s ! vi)) mod 2 ^ 52"

text \<open>The number of layer 2 big-blocks of a volume.\<close>

definition layer2_blocks :: "hammer_state \<Rightarrow> nat \<Rightarrow> nat" where
  "layer2_blocks s vi = (free_to s vi + 2 ^ 42 - 1) div 2 ^ 42"

text \<open>
  A volume that has not been loaded into the freemap: its free area lies inside the volume, behind the
  layer 1 big-block if that is on the same volume, and has room for the big-blocks of layer 2.
\<close>

definition init_ready :: "hammer_state \<Rightarrow> nat \<Rightarrow> bool" where
  "init_ready s vi \<longleftrightarrow> freemap_ok s \<and> get_volume s (vno s vi) = Some vi \<and>
     v_free_off (VolList s ! vi) = vat (vno s vi) (free_from s vi) \<and>
     v_free_end (VolList s ! vi) = vat (vno s vi) (free_to s vi) \<and>
     2 ^ 23 dvd free_from s vi \<and> free_from s vi + layer2_blocks s vi * 2 ^ 23 \<le> free_to s vi \<and>
     free_from s vi < free_to s vi \<and> free_to s vi \<le> vol_area s vi \<and>
     \<not> v_rdonly (VolList s ! vi) \<and> \<not> v_rdonly (VolList s ! vol_of s (freemap_phys s)) \<and>
     (vol_of s (freemap_phys s) = vi \<longrightarrow> unat (freemap_phys s) mod 2 ^ 52 + 2 ^ 23 \<le> free_from s vi) \<and>
     (\<forall>k < layer2_blocks s vi. l1_phys_offset (layer1_at s (vat (vno s vi) (k * 2 ^ 42))) = HAMMER_BLOCKMAP_UNAVAIL)"

lemma init_readyD:
  assumes "good {} s" and "init_ready s vi"
  shows "freemap_ok s" "get_volume s (vno s vi) = Some vi" "v_free_off (VolList s ! vi) = vat (vno s vi) (free_from s vi)"
    "v_free_end (VolList s ! vi) = vat (vno s vi) (free_to s vi)" "2 ^ 23 dvd free_from s vi"
    "free_from s vi + layer2_blocks s vi * 2 ^ 23 \<le> free_to s vi" "free_from s vi < free_to s vi" "free_to s vi \<le> vol_area s vi"
    "\<not> v_rdonly (VolList s ! vi)" "\<not> v_rdonly (VolList s ! vol_of s (freemap_phys s))"
    "vol_of s (freemap_phys s) = vi \<Longrightarrow> unat (freemap_phys s) mod 2 ^ 52 + 2 ^ 23 \<le> free_from s vi"
    "k < layer2_blocks s vi \<Longrightarrow> l1_phys_offset (layer1_at s (vat (vno s vi) (k * 2 ^ 42))) = HAMMER_BLOCKMAP_UNAVAIL"
    "vi < length (VolList s)" "0 \<le> vno s vi" "vno s vi < 256" "free_to s vi < 2 ^ 52" "layer2_blocks s vi \<le> 1024"
proof -
  note r = assms(2) [unfolded init_ready_def]
  show "freemap_ok s" "get_volume s (vno s vi) = Some vi" "v_free_off (VolList s ! vi) = vat (vno s vi) (free_from s vi)"
    "v_free_end (VolList s ! vi) = vat (vno s vi) (free_to s vi)" "2 ^ 23 dvd free_from s vi"
    "free_from s vi + layer2_blocks s vi * 2 ^ 23 \<le> free_to s vi" "free_from s vi < free_to s vi" "free_to s vi \<le> vol_area s vi"
    "\<not> v_rdonly (VolList s ! vi)" "\<not> v_rdonly (VolList s ! vol_of s (freemap_phys s))"
    "vol_of s (freemap_phys s) = vi \<Longrightarrow> unat (freemap_phys s) mod 2 ^ 52 + 2 ^ 23 \<le> free_from s vi"
    "k < layer2_blocks s vi \<Longrightarrow> l1_phys_offset (layer1_at s (vat (vno s vi) (k * 2 ^ 42))) = HAMMER_BLOCKMAP_UNAVAIL"
    using r by blast+
  show vi: "vi < length (VolList s)" using r get_volume_Some(1) by blast
  have "vol_ok (VolList s ! vi)" using wfsD(1) [OF goodD(1) [OF assms(1)]] vi by (simp add: vols_ok_def)
  then show "0 \<le> vno s vi" "vno s vi < 256" by (simp_all add: vol_ok_def)
  show lt: "free_to s vi < 2 ^ 52" unfolding free_to_def by (rule mod_less_divisor) simp
  have "free_to s vi + 2 ^ 42 - 1 < 1025 * 2 ^ 42" using lt by simp
  then have "(free_to s vi + 2 ^ 42 - 1) div 2 ^ 42 < 1025" by (rule less_mult_imp_div_less)
  then show "layer2_blocks s vi \<le> 1024" by (simp add: layer2_blocks_def)
qed

definition layer1_base :: "hammer_state \<Rightarrow> nat \<Rightarrow> nat" where
  "layer1_base s vi = unat (freemap_phys s) mod 2 ^ 52 + nat (vno s vi) * 1024 * 32"

text \<open>The layer 1 entry \<open>k\<close> of the volume once its layer 2 big-block is allocated.\<close>

definition entry1 :: "hammer_state \<Rightarrow> nat \<Rightarrow> nat \<Rightarrow> hammer_blockmap_layer1" where
  "entry1 s vi k = hammer_crc_set_layer1 (HammerVersion s)
     ((layer1_at s (vat (vno s vi) (k * 2 ^ 42)))\<lparr>l1_phys_offset := vat (vno s vi) (free_from s vi + k * 2 ^ 23), l1_blocks_free := 0\<rparr>)"

definition bumped :: "hammer_state \<Rightarrow> nat \<Rightarrow> nat \<Rightarrow> hammer_state" where
  "bumped s vi k = revol s vi (\<lambda>v. v\<lparr>v_free_off := vat (vno s vi) (free_from s vi + k * 2 ^ 23)\<rparr>)"

lemma bumped_fields:
  assumes "vi < length (VolList s)"
  shows "get_volume (bumped s vi k) n = get_volume s n" "bigblock_in (bumped s vi k) F vj = bigblock_in s F vj"
    "good D s \<Longrightarrow> good D (bumped s vi k)" "HammerVersion (bumped s vi k) = HammerVersion s"
    "length (VolList (bumped s vi k)) = length (VolList s)"
    "vj < length (VolList s) \<Longrightarrow> media (bumped s vi k) vj = media s vj"
    "vj < length (VolList s) \<Longrightarrow> v_ondisk (VolList (bumped s vi k) ! vj) = v_ondisk (VolList s ! vj)"
    "vj < length (VolList s) \<Longrightarrow> v_rdonly (VolList (bumped s vi k) ! vj) = v_rdonly (VolList s ! vj)"
    "VolList (bumped s vi k) ! vi = (VolList s ! vi)\<lparr>v_free_off := vat (vno s vi) (free_from s vi + k * 2 ^ 23)\<rparr>"
  using assms unfolding bumped_def
  by (simp_all add: free_off.volume_revol free_off.bigblock_revol free_off.good_revol free_off.media_revol)

text \<open>A state of the initialization, with \<open>k\<close> big-blocks taken: what holds of every state that writes reach.\<close>

lemma reached:
  assumes g: "good {} s" and r: "init_ready s vi" and gt: "good {} t" and w: "writes R Z (bumped s vi k) M t"
  shows "get_volume s n = Some vj \<Longrightarrow> get_volume t n = Some vj" "bigblock_in s F vj \<Longrightarrow> bigblock_in t F vj"
    "HammerVersion t = HammerVersion s" "vj < length (VolList s) \<Longrightarrow> v_ondisk (VolList t ! vj) = v_ondisk (VolList s ! vj)"
    "vj < length (VolList s) \<Longrightarrow> v_rdonly (VolList t ! vj) = v_rdonly (VolList s ! vj)"
    "v_free_off (VolList t ! vi) = vat (vno s vi) (free_from s vi + k * 2 ^ 23)"
    "v_free_end (VolList t ! vi) = vat (vno s vi) (free_to s vi)"
    "vj < length (VolList s) \<Longrightarrow> media_bytes t vj a m = cut M vj a m" "length (VolList t) = length (VolList s)"
proof -
  note D = init_readyD [OF g r]
  note B = bumped_fields [OF D(13), where k = k]
  have gb: "good {} (bumped s vi k)" by (rule B(3) [OF g])
  have fr: "frame t = frame (bumped s vi k)" using w by (simp add: writes_def)
  show "get_volume s n = Some vj \<Longrightarrow> get_volume t n = Some vj"
    using get_volume_frame [OF fr wfsD(1) [OF goodD(1) [OF gb]] wfsD(1) [OF goodD(1) [OF gt]]] B(1) by simp
  show "bigblock_in s F vj \<Longrightarrow> bigblock_in t F vj"
    using bigblock_in_keeps [OF _ goodD(1) [OF gb] goodD(1) [OF gt] fr] B(2) by simp
  show "HammerVersion t = HammerVersion s" using fr B(4) by (simp add: frame_def)
  show "length (VolList t) = length (VolList s)" using frame_vols(1) [OF fr] B(5) by simp
  show "v_ondisk (VolList t ! vj) = v_ondisk (VolList s ! vj)" "v_rdonly (VolList t ! vj) = v_rdonly (VolList s ! vj)"
    "media_bytes t vj a m = cut M vj a m"
    if "vj < length (VolList s)"
    using frame_fields(3,4) [OF fr] B(5,7,8) media_bytes_writes [OF w] that by simp_all
  have "v_free_off (VolList t ! vi) = v_free_off (VolList (bumped s vi k) ! vi) \<and>
      v_free_end (VolList t ! vi) = v_free_end (VolList (bumped s vi k) ! vi)"
    using vol_frame_free [OF frame_vols(2) [OF fr]] B(5) D(13) by simp
  then show "v_free_off (VolList t ! vi) = vat (vno s vi) (free_from s vi + k * 2 ^ 23)"
    "v_free_end (VolList t ! vi) = vat (vno s vi) (free_to s vi)" using B(9) D(4) by simp_all
qed

lemma upd_mark_upd_wp:
  assumes g: "good {} s" and p: "points s (b, i) vi a" and ro: "\<not> v_rdonly (VolList s ! vi)" and i: "i + 32 \<le> 16384"
  shows "wp (upd_layer1 (b, i) f) (\<lambda>_. wp (set_modified (Some b)) (\<lambda>_. wp (upd_layer1 (b, i) h) (\<lambda>_ t. good {} t \<and>
      writes (\<lambda>_. 0) UNIV s (put (media s) vi a (layer1_bytes (h (f (layer1_of_bytes (media_bytes s vi a 32)))))) t))) s"
proof (rule wp_mono [OF upd_layer_marked_wp(1) [OF g p ro i]], erule wp_mono)
  let ?l = "f (layer1_of_bytes (media_bytes s vi a 32))"
  fix t assume t: "good {} t \<and> writes (\<lambda>_. 0) UNIV s (put (media s) vi a (layer1_bytes ?l)) t \<and> (\<exists>x. buffers t b = Some x \<and> cache_modified x)"
  then have w: "writes (\<lambda>_. 0) UNIV s (put (media s) vi a (layer1_bytes ?l)) t" by blast
  note G = goodD(1) [OF g] and T = goodD(1) [OF conjunct1 [OF t]]
  note pt = points_kept [OF G T w p] and rt = points_ro [OF G w p ro]
  have l: "layer1_of_bytes (media_bytes t vi a 32) = ?l"
    using cut_put [of "media s" vi a "layer1_bytes ?l"] by (simp add: media_bytes_writes [OF w points_volume [OF G p]])
  show "wp (upd_layer1 (b, i) h) (\<lambda>_ u. good {} u \<and> writes (\<lambda>_. 0) UNIV s (put (media s) vi a (layer1_bytes (h ?l))) u) t"
  proof (rule wp_mono [OF upd_layer_points(1) [OF conjunct1 [OF t] pt rt]])
    show "snd (b, i) + 32 \<le> 16384" using i by simp
    fix u assume u: "good (insert (fst (b, i)) {}) u \<and>
        writes (\<lambda>_. 0) {} t (put (media t) vi a (layer1_bytes (h (layer1_of_bytes (media_bytes t vi a 32))))) u \<and>
        (\<forall>x. buffers t (fst (b, i)) = Some x \<longrightarrow> cache_modified x \<longrightarrow> good {} u \<and> (\<exists>x'. buffers u (fst (b, i)) = Some x' \<and> cache_modified x'))"
    then have "writes (\<lambda>_. 0) {} t (put (media t) vi a (layer1_bytes (h ?l))) u" unfolding l by blast
    from writes_trans [OF w this] have "writes (\<lambda>_. 0) UNIV s (put (media t) vi a (layer1_bytes (h ?l))) u"
      by (rule writes_zero) simp_all
    then have "writes (\<lambda>_. 0) UNIV s (put (put (media s) vi a (layer1_bytes ?l)) vi a (layer1_bytes (h ?l))) u"
      by (rule writes_cong) (use w in \<open>simp add: put_def writes_def\<close>)
    then show "good {} u \<and> writes (\<lambda>_. 0) UNIV s (put (media s) vi a (layer1_bytes (h ?l))) u"
      using t u by (simp add: put_put) blast
  qed
qed

section \<open>The first loop: big-blocks for layer 2\<close>

abbreviation fm_vol :: "hammer_state \<Rightarrow> nat" where
  "fm_vol s \<equiv> vol_of s (freemap_phys s)"

definition preallocated :: "hammer_state \<Rightarrow> nat \<Rightarrow> nat \<Rightarrow> nat option \<Rightarrow> hammer_state \<Rightarrow> bool" where
  "preallocated s vi k bp t \<longleftrightarrow> good {} t \<and> writes (ref1 bp) UNIV (bumped s vi k)
     (run (media s) (fm_vol s) (layer1_base s vi) 32 (\<lambda>j. layer1_bytes (entry1 s vi j)) k) t"

lemma bumped_Suc:
  assumes "vi < length (VolList s)"
  shows "revol (bumped s vi k) vi (\<lambda>v. v\<lparr>v_free_off := vat (vno s vi) (free_from s vi + k * 2 ^ 23) + HAMMER_BIGBLOCK_SIZE64\<rparr>) =
    bumped s vi (Suc k)"
proof -
  have b: "HAMMER_BIGBLOCK_SIZE64 = of_nat (2 ^ 23)" by (simp add: HAMMER_BIGBLOCK_SIZE64_def)
  have "vat (vno s vi) (free_from s vi + k * 2 ^ 23) + HAMMER_BIGBLOCK_SIZE64 = vat (vno s vi) (free_from s vi + Suc k * 2 ^ 23)"
    unfolding b vat_add by (simp add: algebra_simps)
  then show ?thesis using assms by (simp add: bumped_def revol_def)
qed

lemma layer1_place:
  assumes g: "good {} s" and r: "init_ready s vi" and k: "k < layer2_blocks s vi" and x: "x < 2 ^ 42"
  shows "unat (freemap_phys s) mod 2 ^ 52 + unat (HAMMER_BLOCKMAP_LAYER1_OFFSET (vat (vno s vi) (k * 2 ^ 42 + x))) = layer1_base s vi + k * 32"
proof -
  note D = init_readyD [OF g r]
  have "k < 1024" using k D(17) by simp
  from layer1_offset_vat [OF D(14,15) this x] show ?thesis by (simp add: layer1_base_def)
qed

lemma fetch_layer1_wp:
  assumes g: "good {} s" and r: "init_ready s vi" and k: "k < layer2_blocks s vi"
    and t: "good {} t" "writes R Z (bumped s vi m) M t" and h: "holds {} t bp"
  shows "wp (buffer_data depth (freemap_phys s + HAMMER_BLOCKMAP_LAYER1_OFFSET (vat (vno s vi) (k * 2 ^ 42))) bp 0)
    (\<lambda>(p, bp') u. \<exists>b i. p = Some (b, i) \<and> bp' = Some b \<and> i + 32 \<le> 16384 \<and> good {} u \<and>
      keeps (\<lambda>b'. ref1 bp' b' - ref1 bp b') t u \<and> points u (b, i) (fm_vol s) (layer1_base s vi + k * 32)) t"
proof -
  note D = init_readyD [OF g r]
  have F: "bigblock_in t (freemap_phys s) (fm_vol s)" by (rule reached(2) [OF g r t freemap_okD(3) [OF D(1)]])
  let ?o = "HAMMER_BLOCKMAP_LAYER1_OFFSET (vat (vno s vi) (k * 2 ^ 42))"
  note o = layer1_offset_nat(2,3) [of "vat (vno s vi) (k * 2 ^ 42)"]
  have a: "unat (freemap_phys s) mod 2 ^ 52 + unat ?o = layer1_base s vi + k * 32"
    using layer1_place [OF g r k, of 0] by simp
  show ?thesis
    by (rule wp_mono [OF gbd_points [OF t(1) F o(1) h, unfolded a]]) (use o(2) in auto)
qed

lemma root_freemap:
  assumes g: "good {} s" and r: "init_ready s vi" and root: "get_root_volume s = Some rt"
    and t: "good {} t" "writes R Z (bumped s vi m) M t"
  shows "rt < length (VolList t)" and "bm_phys_offset (vol_blockmap (VolList t ! rt) HAMMER_ZONE_FREEMAP_INDEX) = freemap_phys s"
proof -
  have rt: "rt < length (VolList s)" using root get_volume_Some(1) by (auto simp: get_root_volume_def)
  note R = reached [OF g r t]
  show "rt < length (VolList t)" using rt R(9) by simp
  show "bm_phys_offset (vol_blockmap (VolList t ! rt) HAMMER_ZONE_FREEMAP_INDEX) = freemap_phys s"
    unfolding vol_blockmap_def R(4) [OF rt] by (simp add: freemap_phys_def root_ondisk_def root HAMMER_ZONE_FREEMAP_INDEX_def)
qed

lemma layer1_at_base:
  assumes g: "good {} s" and r: "init_ready s vi" and k: "k < layer2_blocks s vi"
  shows "layer1_at s (vat (vno s vi) (k * 2 ^ 42)) = layer1_of_bytes (cut (media s) (fm_vol s) (layer1_base s vi + k * 32) 32)"
  using layer1_place [OF g r k, of 0] by (simp add: layer1_at_def Let_def media_bytes_def)

lemma prealloc_entry_wp:
  assumes g: "good {} s" and r: "init_ready s vi" and k: "k < layer2_blocks s vi" and i: "i + 32 \<le> 16384"
    and u: "preallocated s vi k (Some b) u" and p: "points u (b, i) (fm_vol s) (layer1_base s vi + k * 32)"
  shows "wp (bootstrap_bigblock vi) (\<lambda>off. wp (upd_layer1 (b, i) (\<lambda>l. l\<lparr>l1_phys_offset := off, l1_blocks_free := 0\<rparr>)) (\<lambda>_.
    wp (set_modified (Some b)) (\<lambda>_. wp (upd_layer1 (b, i) (hammer_crc_set_layer1 (HammerVersion s)))
      (\<lambda>_. preallocated s vi (Suc k) (Some b))))) u"
proof -
  note D = init_readyD [OF g r]
  let ?a = "layer1_base s vi + k * 32" and ?E = "\<lambda>j. layer1_bytes (entry1 s vi j)"
  let ?M = "run (media s) (fm_vol s) (layer1_base s vi) 32 ?E"
  have gu: "good {} u" and w: "writes (ref1 (Some b)) UNIV (bumped s vi k) (?M k) u" using u by (simp_all add: preallocated_def)
  note R = reached [OF g r gu w]
  have vF: "fm_vol s < length (VolList s)"
    using freemap_okD(3) [OF D(1)] get_volume_Some(1) by (auto simp: bigblock_in_def)
  have lt: "free_from s vi + k * 2 ^ 23 < free_to s vi"
  proof -
    have "Suc k * 2 ^ 23 \<le> layer2_blocks s vi * 2 ^ 23" using k by (intro mult_le_mono1) simp
    then show ?thesis using D(6) by simp
  qed
  then have lt52: "free_from s vi + k * 2 ^ 23 < 2 ^ 52" using D(16) by simp
  have vu: "vi < length (VolList u)" using D(13) R(9) by simp
  define f where "f = vat (vno s vi) (free_from s vi + k * 2 ^ 23)"
  have "wp (bootstrap_bigblock vi) (\<lambda>off t. off = f \<and> t = revol u vi (\<lambda>v. v\<lparr>v_free_off := f + HAMMER_BIGBLOCK_SIZE64\<rparr>)) u"
    by (rule wp_mono [OF bootstrap_wp [OF vu]])
      (use R(6,7) vat_digits(1) [OF D(14,15) lt52] vat_digits(1) [OF D(14,15,16)] vat_less [OF D(14,15) lt52 D(16)] lt
       in \<open>simp_all add: f_def\<close>)
  then show ?thesis
  proof (rule wp_mono, clarify)
    let ?u = "revol u vi (\<lambda>v. v\<lparr>v_free_off := f + HAMMER_BIGBLOCK_SIZE64\<rparr>)"
    have g2: "good {} ?u" by (rule free_off.good_revol [OF gu])
    have w2: "writes (ref1 (Some b)) UNIV (bumped s vi (Suc k)) (?M k) ?u"
      using free_off.writes_revol [OF w, of vi "f + HAMMER_BIGBLOCK_SIZE64"] unfolding f_def bumped_Suc [OF D(13)] .
    have p2: "points ?u (b, i) (fm_vol s) ?a" using p by (simp add: points_revol)
    have ro: "\<not> v_rdonly (VolList ?u ! fm_vol s)" using reached(5) [OF g r g2 w2 vF] D(10) by simp
    have old: "layer1_of_bytes (media_bytes ?u (fm_vol s) ?a 32) = layer1_at s (vat (vno s vi) (k * 2 ^ 42))"
      unfolding reached(8) [OF g r g2 w2 vF] layer1_at_base [OF g r k] by (subst cut_run_other) simp_all
    have new: "hammer_crc_set_layer1 (HammerVersion s) (layer1_at s (vat (vno s vi) (k * 2 ^ 42))
        \<lparr>l1_phys_offset := f, l1_blocks_free := 0\<rparr>) = entry1 s vi k" by (simp add: entry1_def f_def)
    show "wp (upd_layer1 (b, i) (\<lambda>l. l\<lparr>l1_phys_offset := f, l1_blocks_free := 0\<rparr>)) (\<lambda>_.
      wp (set_modified (Some b)) (\<lambda>_. wp (upd_layer1 (b, i) (hammer_crc_set_layer1 (HammerVersion s)))
      (\<lambda>_. preallocated s vi (Suc k) (Some b)))) ?u"
    proof (rule wp_mono [OF upd_mark_upd_wp [OF g2 p2 ro i, where f = "\<lambda>l. l\<lparr>l1_phys_offset := f, l1_blocks_free := 0\<rparr>"
          and h = "hammer_crc_set_layer1 (HammerVersion s)", unfolded old new]], erule wp_mono, erule wp_mono)
      fix t assume t: "good {} t \<and> writes (\<lambda>_. 0) UNIV ?u (put (media ?u) (fm_vol s) ?a (layer1_bytes (entry1 s vi k))) t"
      then have "writes (ref1 (Some b)) UNIV (bumped s vi (Suc k)) (put (media ?u) (fm_vol s) ?a (layer1_bytes (entry1 s vi k))) t"
        using writes_trans [OF w2] by (force intro: writes_zero)
      then have "writes (ref1 (Some b)) UNIV (bumped s vi (Suc k)) (put (?M k) (fm_vol s) ?a (layer1_bytes (entry1 s vi k))) t"
        by (rule writes_cong) (use w2 in \<open>simp add: put_def writes_def\<close>)
      then show "preallocated s vi (Suc k) (Some b) t"
        unfolding preallocated_def using t put_run [of ?E k 32] by simp
    qed
  qed
qed

lemma init_layer1_step:
  assumes g: "good {} s" and r: "init_ready s vi" and root: "get_root_volume s = Some rt" and k: "k < layer2_blocks s vi"
    and t: "preallocated s vi k bp t"
  shows "wp (init_layer1 depth rt vi (vat (vno s vi) (k * 2 ^ 42)) bp) (preallocated s vi (Suc k)) t"
proof -
  note D = init_readyD [OF g r]
  let ?M = "run (media s) (fm_vol s) (layer1_base s vi) 32 (\<lambda>j. layer1_bytes (entry1 s vi j)) k"
  have gt: "good {} t" and w: "writes (ref1 bp) UNIV (bumped s vi k) ?M t" using t by (simp_all add: preallocated_def)
  have gb: "good {} (bumped s vi k)" by (rule bumped_fields(3) [OF D(13) g])
  have h: "holds {} t bp" by (rule holds_writes [OF gb w]) (simp add: ref1_def)
  have vF: "fm_vol s < length (VolList s)"
    using freemap_okD(3) [OF D(1)] get_volume_Some(1) by (auto simp: bigblock_in_def)
  have go: "wp (load_layer1 (b, i)) (\<lambda>l. wp (whenS (l1_phys_offset l = HAMMER_BLOCKMAP_UNAVAIL)
      (bindS (bootstrap_bigblock vi) (\<lambda>off. bindS (upd_layer1 (b, i) (\<lambda>l. l\<lparr>l1_phys_offset := off, l1_blocks_free := 0\<rparr>)) (\<lambda>_.
       bindS (set_modified (Some b)) (\<lambda>_. upd_layer1 (b, i) (hammer_crc_set_layer1 (HammerVersion s)))))))
      (\<lambda>_. preallocated s vi (Suc k) (Some b))) u"
    if i: "i + 32 \<le> 16384" and u: "good {} u" "keeps (\<lambda>b'. ref1 (Some b) b' - ref1 bp b') t u"
      and p: "points u (b, i) (fm_vol s) (layer1_base s vi + k * 32)" for b i u
  proof -
    have wu: "writes (ref1 (Some b)) UNIV (bumped s vi k) ?M u"
      by (rule writes_zero [OF writes_keeps [OF w goodD(1) [OF gt] u(2)]]) simp_all
    have old: "layer1_of_bytes (media_bytes u (fm_vol s) (layer1_base s vi + k * 32) 32) = layer1_at s (vat (vno s vi) (k * 2 ^ 42))"
      unfolding reached(8) [OF g r u(1) wu vF] layer1_at_base [OF g r k] by (subst cut_run_other) simp_all
    have "preallocated s vi k (Some b) u" using u(1) wu by (simp add: preallocated_def)
    from prealloc_entry_wp [OF g r k i this p] show ?thesis
      by (intro wp_mono [OF load_layer_points(1) [OF goodD(1) [OF u(1)] p]]) (use i D(12) [OF k] old in \<open>auto simp: wp_bind wp_when\<close>)
  qed
  show ?thesis
    unfolding init_layer1_def Let_def wp_bind [of "getS _"] wp_bind [of "get_vol _"] wp_get wp_get_vol wp_bind [of "buffer_data _ _ _ _"]
      root_freemap(2) [OF g r root gt w] reached(3) [OF g r gt w]
  proof (intro conjI root_freemap(1) [OF g r root gt w] wp_mono [OF fetch_layer1_wp [OF g r k gt w h]], clarify)
    fix b i u
    assume "i + 32 \<le> 16384" "good {} u" "keeps (\<lambda>b'. ref1 (Some b) b' - ref1 bp b') t u"
      "points u (b, i) (fm_vol s) (layer1_base s vi + k * 32)"
    from go [OF this] show "wp (bindS (nonnull (Some (b, i)) ''layer1'') (\<lambda>p.
        bindS (load_layer1 p) (\<lambda>layer1. bindS (whenS (l1_phys_offset layer1 = HAMMER_BLOCKMAP_UNAVAIL)
         (bindS (bootstrap_bigblock vi) (\<lambda>off. bindS (upd_layer1 p (\<lambda>l. l\<lparr>l1_phys_offset := off, l1_blocks_free := 0\<rparr>)) (\<lambda>_.
          bindS (set_modified (Some b)) (\<lambda>_. upd_layer1 p (hammer_crc_set_layer1 (HammerVersion s))))))) (\<lambda>_. returnS (Some b)))))
        (preallocated s vi (Suc k)) u"
      by (simp add: wp_bind wp_nonnull wp_return)
  qed
qed

end
