(* ===== verification/Freemap_Fill.thy ===== *)
theory Freemap_Fill
  imports Freemap_Init
begin

text \<open>
  \<open>initialize_freemap\<close>, second loop: one layer 2 entry for every big-block of the volume, and the
  number of free big-blocks in each layer 1 entry.
\<close>

section \<open>What the second loop writes\<close>

abbreviation loaded_vol :: "hammer_state \<Rightarrow> nat \<Rightarrow> volume_info" where
  "loaded_vol s vi \<equiv> VolList (bumped s vi (layer2_blocks s vi)) ! vi"

definition entry2 :: "hammer_state \<Rightarrow> nat \<Rightarrow> nat \<Rightarrow> hammer_blockmap_layer2" where
  "entry2 s vi i = hammer_crc_set_layer2 (HammerVersion s) (layer2_entry (loaded_vol s vi) (vat (vno s vi) (i * 2 ^ 23)))"

definition free_blocks :: "hammer_state \<Rightarrow> nat \<Rightarrow> nat \<Rightarrow> nat \<Rightarrow> nat" where
  "free_blocks s vi a m = length (filter (\<lambda>i. is_free_block (loaded_vol s vi) (vat (vno s vi) (i * 2 ^ 23))) [a..<a + m])"

lemma free_blocks_0 [simp]: "free_blocks s vi a 0 = 0"
  by (simp add: free_blocks_def)

lemma free_blocks_Suc:
  "free_blocks s vi a (Suc m) = free_blocks s vi a m +
    (if is_free_block (loaded_vol s vi) (vat (vno s vi) ((a + m) * 2 ^ 23)) then 1 else 0)"
  by (simp add: free_blocks_def)

lemma free_blocks_add: "free_blocks s vi a (m + m') = free_blocks s vi a m + free_blocks s vi (a + m) m'"
  by (induction m') (simp_all add: free_blocks_Suc add.assoc)

definition entry1' :: "hammer_state \<Rightarrow> nat \<Rightarrow> nat \<Rightarrow> hammer_blockmap_layer1" where
  "entry1' s vi k = hammer_crc_set_layer1 (HammerVersion s)
     ((entry1 s vi k)\<lparr>l1_blocks_free := of_nat (free_blocks s vi (k * 2 ^ 19) (2 ^ 19))\<rparr>)"

definition filled :: "hammer_state \<Rightarrow> nat \<Rightarrow> nat \<Rightarrow> nat \<Rightarrow> nat \<Rightarrow> nat \<Rightarrow> u8" where
  "filled s vi k i = run (run (run (media s) (fm_vol s) (layer1_base s vi) 32 (\<lambda>j. layer1_bytes (entry1 s vi j)) (layer2_blocks s vi))
     vi (free_from s vi) 16 (\<lambda>j. layer2_bytes (entry2 s vi j)) i)
     (fm_vol s) (layer1_base s vi) 32 (\<lambda>j. layer1_bytes (entry1' s vi j)) k"

definition filling :: "hammer_state \<Rightarrow> nat \<Rightarrow> nat \<Rightarrow> nat \<Rightarrow> (nat \<Rightarrow> int) \<Rightarrow> hammer_state \<Rightarrow> bool" where
  "filling s vi k i R t \<longleftrightarrow> good {} t \<and> writes R UNIV (bumped s vi (layer2_blocks s vi)) (filled s vi k i) t"

text \<open>Layer 1 and the layer 2 of the volume do not overlap.\<close>

lemma layers_apart:
  assumes g: "good {} s" and r: "init_ready s vi"
  shows "fm_vol s \<noteq> vi \<or> layer1_base s vi + layer2_blocks s vi * 32 \<le> free_from s vi"
proof -
  note D = init_readyD [OF g r]
  have "nat (vno s vi) * 1024 * 32 + layer2_blocks s vi * 32 \<le> 2 ^ 23" using D(15,17) by simp
  then have "layer1_base s vi + layer2_blocks s vi * 32 \<le> unat (freemap_phys s) mod 2 ^ 52 + 2 ^ 23" by (simp add: layer1_base_def)
  then show ?thesis using D(11) by fastforce
qed

lemma filled_layer1:
  assumes g: "good {} s" and r: "init_ready s vi" and k: "k < layer2_blocks s vi"
  shows "cut (filled s vi k i) (fm_vol s) (layer1_base s vi + k * 32) 32 = layer1_bytes (entry1 s vi k)"
proof -
  have le: "layer1_base s vi + k * 32 + 32 \<le> layer1_base s vi + layer2_blocks s vi * 32"
    using mult_le_mono1 [of "Suc k" "layer2_blocks s vi" 32] k by simp
  show ?thesis
    unfolding filled_def using layers_apart [OF g r] le
    by (subst cut_run_other, simp, subst cut_run_other, fastforce, subst cut_run [OF k]) simp_all
qed

lemma filled_put2:
  assumes g: "good {} s" and r: "init_ready s vi" and k: "k < layer2_blocks s vi" 
  shows "put (filled s vi k i) vi (free_from s vi + i * 16) (layer2_bytes (entry2 s vi i)) = filled s vi k (Suc i)"
proof -
  have le: "layer1_base s vi + k * 32 \<le> layer1_base s vi + layer2_blocks s vi * 32" using k by simp
  show ?thesis
    unfolding filled_def using layers_apart [OF g r] le
    by (subst put_run_comm, fastforce, subst put_run) simp_all
qed

lemma filled_put1:
  "put (filled s vi k i) (fm_vol s) (layer1_base s vi + k * 32) (layer1_bytes (entry1' s vi k)) = filled s vi (Suc k) i"
  unfolding filled_def by (subst put_run) simp_all

section \<open>The second loop\<close>

lemma fill_refs:
  assumes g: "good {} s" and r: "init_ready s vi" and t: "filling s vi k i R t" and b: "1 \<le> R b"
  shows "0 < refs_of t b"
proof -
  note D = init_readyD [OF g r]
  have gb: "good {} (bumped s vi (layer2_blocks s vi))" by (rule bumped_fields(3) [OF D(13) g])
  have "refs_of t b = refs_of (bumped s vi (layer2_blocks s vi)) b + R b" using t by (simp add: filling_def writes_def)
  then show ?thesis using refs_nonneg [OF goodD(1) [OF gb], of b] b by simp
qed

lemma fill_holds:
  assumes g: "good {} s" and r: "init_ready s vi" and t: "filling s vi k i R t" and b: "\<And>b. bp = Some b \<Longrightarrow> 1 \<le> R b"
  shows "holds {} t bp"
  unfolding holds_def
proof (intro allI impI)
  fix b assume "bp = Some b"
  from fill_refs [OF g r t b [OF this]] show "\<exists>x. buffers t b = Some x \<and> 0 < cache_refs x \<and> (b \<in> {} \<longrightarrow> 1 < cache_refs x)"
    by (cases "buffers t b") (simp_all add: refs_of_def)
qed

lemma fill_keeps:
  assumes "filling s vi k i R t" and "good {} u" and "keeps R' t u"
  shows "filling s vi k i (\<lambda>b. R b + R' b) u"
proof -
  have t: "good {} t" "writes R UNIV (bumped s vi (layer2_blocks s vi)) (filled s vi k i) t" using assms(1) by (simp_all add: filling_def)
  from writes_keeps [OF t(2) goodD(1) [OF t(1)] assms(3)] assms(2) show ?thesis by (simp add: filling_def)
qed

lemma fill_writes:
  assumes t: "filling s vi k i R t" and u: "good {} u" "writes (\<lambda>_. 0) UNIV t (put (media t) vj a bs) u"
    and p: "put (filled s vi k i) vj a bs = filled s vi k' i'"
  shows "filling s vi k' i' R u"
proof -
  have w: "writes R UNIV (bumped s vi (layer2_blocks s vi)) (filled s vi k i) t" using t by (simp add: filling_def)
  from writes_trans [OF w u(2)] have "writes R UNIV (bumped s vi (layer2_blocks s vi)) (put (media t) vj a bs) u"
    by (rule writes_zero) simp_all
  then have "writes R UNIV (bumped s vi (layer2_blocks s vi)) (put (filled s vi k i) vj a bs) u"
    by (rule writes_cong) (use w in \<open>simp add: put_def writes_def\<close>)
  then show ?thesis using u(1) unfolding p by (simp add: filling_def)
qed

lemma layer2_entry_same:
  assumes "v_free_off v = v_free_off w" and "v_free_end v = v_free_end w"
  shows "layer2_entry v = layer2_entry w" "is_free_block v = is_free_block w"
  using assms by (simp_all add: layer2_entry_def is_free_block_def fun_eq_iff)

lemma bigblock_of_layer2:
  assumes g: "good {} s" and r: "init_ready s vi" and k: "k < layer2_blocks s vi"
  shows "bigblock_in s (vat (vno s vi) (free_from s vi + k * 2 ^ 23)) vi"
    and "unat (vat (vno s vi) (free_from s vi + k * 2 ^ 23)) mod 2 ^ 52 = free_from s vi + k * 2 ^ 23"
proof -
  note D = init_readyD [OF g r]
  have le: "free_from s vi + k * 2 ^ 23 + 2 ^ 23 \<le> free_to s vi"
    using mult_le_mono1 [of "Suc k" "layer2_blocks s vi" "2 ^ 23"] k D(6) by simp
  have dvd: "2 ^ 23 dvd free_from s vi + k * 2 ^ 23" by (rule dvd_add [OF D(5) dvd_triv_right])
  show "bigblock_in s (vat (vno s vi) (free_from s vi + k * 2 ^ 23)) vi"
    by (rule bigblock_vat [OF goodD(1) [OF g] D(2) dvd]) (use le D(8,16) in simp_all)
  show "unat (vat (vno s vi) (free_from s vi + k * 2 ^ 23)) mod 2 ^ 52 = free_from s vi + k * 2 ^ 23"
    by (rule vat_digits(3) [OF D(14,15)]) (use le D(16) in simp)
qed

definition inner :: "hammer_state \<Rightarrow> nat \<Rightarrow> nat \<Rightarrow> nat \<times> nat \<Rightarrow> nat \<Rightarrow> nat option \<times> int \<Rightarrow> hammer_state \<Rightarrow> bool" where
  "inner s vi k p i x t \<longleftrightarrow> filling s vi k (k * 2 ^ 19 + i) (\<lambda>b. ref1 (Some (fst p)) b + ref1 (fst x) b) t \<and>
     snd x = int (free_blocks s vi (k * 2 ^ 19) i) \<and> points t p (fm_vol s) (layer1_base s vi + k * 32)"

lemma load_entry1:
  assumes g: "good {} s" and r: "init_ready s vi" and k: "k < layer2_blocks s vi"
    and t: "filling s vi k i R t" and p: "points t p (fm_vol s) (layer1_base s vi + k * 32)" "snd p + 32 \<le> 16384"
  shows "wp (load_layer1 p) (\<lambda>l u. l = entry1 s vi k \<and> u = t) t"
proof -
  have gt: "good {} t" and w: "writes R UNIV (bumped s vi (layer2_blocks s vi)) (filled s vi k i) t" using t by (simp_all add: filling_def)
  have vF: "fm_vol s < length (VolList s)"
    using freemap_okD(3) [OF init_readyD(1) [OF g r]] get_volume_Some(1) by (auto simp: bigblock_in_def)
  show ?thesis
    by (rule wp_mono [OF load_layer_points(1) [OF goodD(1) [OF gt] p]])
      (simp add: reached(8) [OF g r gt w vF] filled_layer1 [OF g r k])
qed

lemma fetch_layer2_wp:
  assumes g: "good {} s" and r: "init_ready s vi" and k: "k < layer2_blocks s vi" and i: "i < 2 ^ 19"
    and t: "filling s vi k m R t" and h: "holds {} t bp"
  shows "wp (buffer_data depth (vat (vno s vi) (free_from s vi + k * 2 ^ 23) + HAMMER_BLOCKMAP_LAYER2_OFFSET (of_nat i * HAMMER_BIGBLOCK_SIZE64)) bp 0)
    (\<lambda>(q, bp') u. \<exists>b j. q = Some (b, j) \<and> bp' = Some b \<and> j + 16 \<le> 16384 \<and> good {} u \<and>
      keeps (\<lambda>b'. ref1 bp' b' - ref1 bp b') t u \<and> points u (b, j) vi (free_from s vi + (k * 2 ^ 19 + i) * 16)) t"
proof -
  have gt: "good {} t" and w: "writes R UNIV (bumped s vi (layer2_blocks s vi)) (filled s vi k m) t" using t by (simp_all add: filling_def)
  let ?F = "vat (vno s vi) (free_from s vi + k * 2 ^ 23)" and ?o = "HAMMER_BLOCKMAP_LAYER2_OFFSET (of_nat i * HAMMER_BIGBLOCK_SIZE64)"
  note F = bigblock_of_layer2 [OF g r k]
  have F': "bigblock_in t ?F vi" by (rule reached(2) [OF g r gt w F(1)])
  note o = layer2_offset_nat(2,3) [of "of_nat i * HAMMER_BIGBLOCK_SIZE64"]
  have "(of_nat i * HAMMER_BIGBLOCK_SIZE64 :: u64) = of_nat (i * 2 ^ 23)" by (simp add: HAMMER_BIGBLOCK_SIZE64_def)
  moreover have "i * 2 ^ 23 < 2 ^ 64" using i by simp
  then have "unat (of_nat (i * 2 ^ 23) :: u64) = i * 2 ^ 23" by (simp only: unat_of_nat) simp
  ultimately have "unat (of_nat i * HAMMER_BIGBLOCK_SIZE64 :: u64) = i * 2 ^ 23" by (simp only:)
  moreover have "i * 2 ^ 23 mod 2 ^ 42 = i * 2 ^ 23" using i by (intro mod_less) simp
  ultimately have ou: "unat ?o = i * 16" unfolding layer2_offset_nat by simp
  have a: "unat ?F mod 2 ^ 52 + unat ?o = free_from s vi + (k * 2 ^ 19 + i) * 16" unfolding F(2) ou by simp
  show ?thesis
    by (rule wp_mono [OF gbd_points [OF gt F' o(1) h, unfolded a]]) (use o(2) in auto)
qed

lemma loaded_vol_fields:
  assumes g: "good {} s" and r: "init_ready s vi" and t: "filling s vi k i R t"
  shows "vi < length (VolList t)" "layer2_entry (VolList t ! vi) = layer2_entry (loaded_vol s vi)"
    "is_free_block (VolList t ! vi) = is_free_block (loaded_vol s vi)"
proof -
  note D = init_readyD [OF g r]
  have gt: "good {} t" and w: "writes R UNIV (bumped s vi (layer2_blocks s vi)) (filled s vi k i) t" using t by (simp_all add: filling_def)
  note R = reached [OF g r gt w]
  show "vi < length (VolList t)" using D(13) R(9) by simp
  have "v_free_off (VolList t ! vi) = v_free_off (loaded_vol s vi)" "v_free_end (VolList t ! vi) = v_free_end (loaded_vol s vi)"
    unfolding R(6,7) bumped_fields(9) [OF D(13)] using D(4) by simp_all
  then show "layer2_entry (VolList t ! vi) = layer2_entry (loaded_vol s vi)" "is_free_block (VolList t ! vi) = is_free_block (loaded_vol s vi)"
    by (rule layer2_entry_same)+
qed

lemma init_layer2_step:
  assumes g: "good {} s" and r: "init_ready s vi" and k: "k < layer2_blocks s vi" and i: "i < 2 ^ 19"
    and p: "snd p + 32 \<le> 16384" and t: "inner s vi k p i x t"
  shows "wp (init_layer2 depth vi p (vat (vno s vi) (k * 2 ^ 42)) i x) (inner s vi k p (Suc i)) t"
proof -
  note D = init_readyD [OF g r]
  obtain bp c where x: "x = (bp, c)" by (cases x)
  let ?R = "\<lambda>bp b. ref1 (Some (fst p)) b + ref1 bp b"
  have ft: "filling s vi k (k * 2 ^ 19 + i) (?R bp) t" and c: "c = int (free_blocks s vi (k * 2 ^ 19) i)"
    and pt: "points t p (fm_vol s) (layer1_base s vi + k * 32)" using t by (simp_all add: inner_def x)
  have gt: "good {} t" and w: "writes (?R bp) UNIV (bumped s vi (layer2_blocks s vi)) (filled s vi k (k * 2 ^ 19 + i)) t"
    using ft by (simp_all add: filling_def)
  note V = loaded_vol_fields [OF g r ft]
  have ver: "HammerVersion t = HammerVersion s" by (rule reached(3) [OF g r gt w])
  have h: "holds {} t bp" by (rule fill_holds [OF g r ft]) (auto simp: ref1_def)
  have ph: "l1_phys_offset (entry1 s vi k) = vat (vno s vi) (free_from s vi + k * 2 ^ 23)"
    by (simp add: entry1_def hammer_crc_set_layer1_def)
  have bb: "of_nat i * HAMMER_BIGBLOCK_SIZE64 = (of_nat (i * 2 ^ 23) :: u64)" by (simp add: HAMMER_BIGBLOCK_SIZE64_def)
  have ad: "vat (vno s vi) (k * 2 ^ 42) + of_nat i * HAMMER_BIGBLOCK_SIZE64 = vat (vno s vi) ((k * 2 ^ 19 + i) * 2 ^ 23)"
    unfolding bb vat_add by (simp add: algebra_simps)
  let ?e = "hammer_crc_set_layer2 (HammerVersion s) (layer2_entry (VolList t ! vi) (vat (vno s vi) ((k * 2 ^ 19 + i) * 2 ^ 23)))"
  have e: "?e = entry2 s vi (k * 2 ^ 19 + i)" by (simp add: entry2_def V(2))
  have c': "(if is_free_block (VolList t ! vi) (vat (vno s vi) ((k * 2 ^ 19 + i) * 2 ^ 23)) then c + 1 else c) =
      int (free_blocks s vi (k * 2 ^ 19) (Suc i))" by (simp add: free_blocks_Suc c V(3))
  have go: "wp (upd_layer2 (b, j) (\<lambda>_. ?e)) (\<lambda>_. wp (set_modified (Some b)) (\<lambda>_. inner s vi k p (Suc i)
      (Some b, if is_free_block (VolList t ! vi) (vat (vno s vi) ((k * 2 ^ 19 + i) * 2 ^ 23)) then c + 1 else c))) u"
    if j: "j + 16 \<le> 16384" and u: "good {} u" "keeps (\<lambda>b'. ref1 (Some b) b' - ref1 bp b') t u"
      and q: "points u (b, j) vi (free_from s vi + (k * 2 ^ 19 + i) * 16)" for b j u
  proof -
    have fu: "filling s vi k (k * 2 ^ 19 + i) (?R (Some b)) u"
      using fill_keeps [OF ft u] by (simp add: filling_def)
    have wu: "writes (?R (Some b)) UNIV (bumped s vi (layer2_blocks s vi)) (filled s vi k (k * 2 ^ 19 + i)) u"
      using fu by (simp add: filling_def)
    have ro: "\<not> v_rdonly (VolList u ! vi)" using reached(5) [OF g r u(1) wu D(13)] D(9) by simp
    show ?thesis
    proof (rule wp_mono [OF upd_layer_marked_wp(2) [OF u(1) q ro j]], erule wp_mono)
      fix v
      assume v: "good {} v \<and> writes (\<lambda>_. 0) UNIV u (put (media u) vi (free_from s vi + (k * 2 ^ 19 + i) * 16) (layer2_bytes ?e)) v \<and>
        (\<exists>x. buffers v b = Some x \<and> cache_modified x)"
      then have wv: "writes (\<lambda>_. 0) UNIV u (put (media u) vi (free_from s vi + (k * 2 ^ 19 + i) * 16) (layer2_bytes (entry2 s vi (k * 2 ^ 19 + i)))) v"
        by (simp only: e)
      have fv: "filling s vi k (k * 2 ^ 19 + Suc i) (?R (Some b)) v"
        by (rule fill_writes [OF fu conjunct1 [OF v] wv]) (simp only: filled_put2 [OF g r k] add_Suc_right)
      have "points u p (fm_vol s) (layer1_base s vi + k * 32)"
        by (rule points_writes [OF goodD(1) [OF gt] goodD(1) [OF u(1)] keeps_writes [OF goodD(1) [OF gt] u(2)] pt])
          (rule fill_refs [OF g r fu], simp add: ref1_def)
      from points_writes [OF goodD(1) [OF u(1)] goodD(1) [OF conjunct1 [OF v]] wv this]
      have "points v p (fm_vol s) (layer1_base s vi + k * 32)"
        using fill_refs [OF g r fv, of "fst p"] by (simp add: ref1_def)
      with fv show "inner s vi k p (Suc i)
          (Some b, if is_free_block (VolList t ! vi) (vat (vno s vi) ((k * 2 ^ 19 + i) * 2 ^ 23)) then c + 1 else c) v"
        unfolding c' by (simp add: inner_def)
    qed
  qed
  note fetch = fetch_layer2_wp [OF g r k i ft h, of depth]
  show ?thesis
    unfolding init_layer2_def x prod.case Let_def wp_bind [of "getS _"] wp_bind [of "get_vol _"] wp_get wp_get_vol wp_bind [of "load_layer1 _"] ad ver
  proof (intro conjI V(1) wp_mono [OF load_entry1 [OF g r k ft pt p]], clarify)
    show "wp (bindS (buffer_data depth (l1_phys_offset (entry1 s vi k) + HAMMER_BLOCKMAP_LAYER2_OFFSET (of_nat i * HAMMER_BIGBLOCK_SIZE64)) bp 0)
        (\<lambda>(p2, buffer2). bindS (nonnull p2 ''layer2'') (\<lambda>p2. bindS (upd_layer2 p2 (\<lambda>_. ?e)) (\<lambda>_. bindS (set_modified buffer2) (\<lambda>_.
         returnS (buffer2, if is_free_block (VolList t ! vi) (vat (vno s vi) ((k * 2 ^ 19 + i) * 2 ^ 23)) then c + 1 else c))))))
      (inner s vi k p (Suc i)) t"
      unfolding wp_bind [of "buffer_data _ _ _ _"] ph
    proof (rule wp_mono [OF fetch], clarify)
      fix b j u
      assume "j + 16 \<le> 16384" "good {} u" "keeps (\<lambda>b'. ref1 (Some b) b' - ref1 bp b') t u"
        "points u (b, j) vi (free_from s vi + (k * 2 ^ 19 + i) * 16)"
      from go [OF this] show "wp (bindS (nonnull (Some (b, j)) ''layer2'') (\<lambda>p2. bindS (upd_layer2 p2 (\<lambda>_. ?e)) (\<lambda>_.
         bindS (set_modified (Some b)) (\<lambda>_. returnS (Some b,
           if is_free_block (VolList t ! vi) (vat (vno s vi) ((k * 2 ^ 19 + i) * 2 ^ 23)) then c + 1 else c)))))
        (inner s vi k p (Suc i)) u"
        by (simp only: wp_bind wp_nonnull wp_return) blast
    qed
  qed
qed

definition outer :: "hammer_state \<Rightarrow> nat \<Rightarrow> nat \<Rightarrow> nat option \<times> nat option \<times> int \<Rightarrow> hammer_state \<Rightarrow> bool" where
  "outer s vi k = (\<lambda>(bp1, bp2, count) t. filling s vi k (k * 2 ^ 19) (\<lambda>b. ref1 bp1 b + ref1 bp2 b) t \<and>
     count = int (free_blocks s vi 0 (k * 2 ^ 19)))"

lemma entry1_add:
  "hammer_crc_set_layer1 (HammerVersion s) (entry1 s vi k\<lparr>l1_blocks_free := l1_blocks_free (entry1 s vi k) +
     word_of_int (int (free_blocks s vi (k * 2 ^ 19) (2 ^ 19)))\<rparr>) = entry1' s vi k"
  by (simp add: entry1'_def entry1_def hammer_crc_set_layer1_def)

lemma vat_available:
  assumes "0 \<le> n" "n < 256" and "x < 2 ^ 52"
  shows "vat n x \<noteq> HAMMER_BLOCKMAP_UNAVAIL"
proof
  assume "vat n x = HAMMER_BLOCKMAP_UNAVAIL"
  with vat_digits(1) [OF assms] show False
    by (simp add: hammer_is_zone_raw_buffer_def HAMMER_BLOCKMAP_UNAVAIL_def HAMMER_ZONE_RAW_BUFFER_def HAMMER_ZONE_def HAMMER_OFF_ZONE_MASK_def)
qed

lemma inner_done_wp:
  assumes g: "good {} s" and r: "init_ready s vi" and k: "k < layer2_blocks s vi" and i: "i + 32 \<le> 16384"
    and c: "c = int (free_blocks s vi 0 (k * 2 ^ 19))" and t: "inner s vi k (b, i) (2 ^ 19) (bp2, c') t"
  shows "wp (upd_layer1 (b, i) (\<lambda>l. hammer_crc_set_layer1 (HammerVersion s) (l\<lparr>l1_blocks_free := l1_blocks_free l + word_of_int c'\<rparr>)))
    (\<lambda>_. wp (set_modified (Some b)) (\<lambda>_. outer s vi (Suc k) (Some b, bp2, c + c'))) t"
proof -
  note D = init_readyD [OF g r]
  let ?R = "\<lambda>b'. ref1 (Some b) b' + ref1 bp2 b'"
  have ft: "filling s vi k (k * 2 ^ 19 + 2 ^ 19) ?R t" and c': "c' = int (free_blocks s vi (k * 2 ^ 19) (2 ^ 19))"
    and p: "points t (b, i) (fm_vol s) (layer1_base s vi + k * 32)" using t by (simp_all add: inner_def)
  have gt: "good {} t" and w: "writes ?R UNIV (bumped s vi (layer2_blocks s vi)) (filled s vi k (k * 2 ^ 19 + 2 ^ 19)) t"
    using ft by (simp_all add: filling_def)
  have vF: "fm_vol s < length (VolList s)"
    using freemap_okD(3) [OF D(1)] get_volume_Some(1) by (auto simp: bigblock_in_def)
  have ro: "\<not> v_rdonly (VolList t ! fm_vol s)" using reached(5) [OF g r gt w vF] D(10) by simp
  have old: "layer1_of_bytes (media_bytes t (fm_vol s) (layer1_base s vi + k * 32) 32) = entry1 s vi k"
    unfolding reached(8) [OF g r gt w vF] filled_layer1 [OF g r k] by simp
  have k19: "k * 2 ^ 19 + 2 ^ 19 = Suc k * 2 ^ 19" by simp
  have cc: "c + c' = int (free_blocks s vi 0 (Suc k * 2 ^ 19))"
    using free_blocks_add [of s vi 0 "k * 2 ^ 19" "2 ^ 19"] unfolding c c' k19 by simp
  show ?thesis
  proof (rule wp_mono [OF upd_layer_marked_wp(1) [OF gt p ro i, unfolded old]], unfold c' entry1_add, erule wp_mono)
    fix u
    assume u: "good {} u \<and> writes (\<lambda>_. 0) UNIV t (put (media t) (fm_vol s) (layer1_base s vi + k * 32) (layer1_bytes (entry1' s vi k))) u \<and>
      (\<exists>x. buffers u b = Some x \<and> cache_modified x)"
    have "filling s vi (Suc k) (k * 2 ^ 19 + 2 ^ 19) ?R u"
      by (rule fill_writes [OF ft conjunct1 [OF u] conjunct1 [OF conjunct2 [OF u]]]) (rule filled_put1)
    then show "outer s vi (Suc k) (Some b, bp2, c + int (free_blocks s vi (k * 2 ^ 19) (2 ^ 19))) u"
      using cc unfolding k19 c' by (simp add: outer_def)
  qed
qed

lemma inner_loop_wp:
  assumes g: "good {} s" and r: "init_ready s vi" and k: "k < layer2_blocks s vi" and p: "snd p + 32 \<le> 16384"
    and t: "inner s vi k p 0 x t"
  shows "wp (forS [0..<unat HAMMER_BLOCKMAP_LAYER2 div unat HAMMER_BIGBLOCK_SIZE64] (init_layer2 depth vi p (vat (vno s vi) (k * 2 ^ 42))) x)
    (inner s vi k p (2 ^ 19)) t"
proof -
  have n: "unat HAMMER_BLOCKMAP_LAYER2 div unat HAMMER_BIGBLOCK_SIZE64 = 2 ^ 19"
    by (simp add: HAMMER_BLOCKMAP_LAYER2_def HAMMER_BIGBLOCK_SIZE64_def HAMMER_BLOCKMAP_RADIX2_def HAMMER_BIGBLOCK_SIZE_def)
  show ?thesis
    unfolding n using wp_for_upto [where f = "\<lambda>k. k" and I = "inner s vi k p", OF t init_layer2_step [OF g r k _ p]]
    by (simp only: list.map_ident)
qed

lemma init_layer2s_step:
  assumes g: "good {} s" and r: "init_ready s vi" and root: "get_root_volume s = Some rt" and k: "k < layer2_blocks s vi"
    and t: "outer s vi k x t"
  shows "wp (init_layer2s depth rt vi (vat (vno s vi) (k * 2 ^ 42)) x) (outer s vi (Suc k)) t"
proof -
  note D = init_readyD [OF g r]
  obtain bp1 bp2 c where x: "x = (bp1, bp2, c)" by (cases x)
  have ft: "filling s vi k (k * 2 ^ 19) (\<lambda>b. ref1 bp1 b + ref1 bp2 b) t" and c: "c = int (free_blocks s vi 0 (k * 2 ^ 19))"
    using t by (simp_all add: outer_def x)
  have gt: "good {} t" and w: "writes (\<lambda>b. ref1 bp1 b + ref1 bp2 b) UNIV (bumped s vi (layer2_blocks s vi)) (filled s vi k (k * 2 ^ 19)) t"
    using ft by (simp_all add: filling_def)
  have h: "holds {} t bp1" by (rule fill_holds [OF g r ft]) (auto simp: ref1_def)
  have lt: "free_from s vi + k * 2 ^ 23 < 2 ^ 52"
    using mult_le_mono1 [of "Suc k" "layer2_blocks s vi" "2 ^ 23"] k D(6,16) by simp
  have ph: "l1_phys_offset (entry1 s vi k) \<noteq> HAMMER_BLOCKMAP_UNAVAIL"
    using vat_available [OF D(14,15) lt] by (simp add: entry1_def hammer_crc_set_layer1_def)
  have go: "wp (load_layer1 (b, i)) (\<lambda>layer1. wp (assertS (l1_phys_offset layer1 \<noteq> HAMMER_BLOCKMAP_UNAVAIL) ''layer1->phys_offset'') (\<lambda>_.
      wp (forS [0..<unat HAMMER_BLOCKMAP_LAYER2 div unat HAMMER_BIGBLOCK_SIZE64] (init_layer2 depth vi (b, i) (vat (vno s vi) (k * 2 ^ 42))) (bp2, 0))
      (\<lambda>(bp2, c'). wp (upd_layer1 (b, i) (\<lambda>l. hammer_crc_set_layer1 (HammerVersion s) (l\<lparr>l1_blocks_free := l1_blocks_free l + word_of_int c'\<rparr>)))
        (\<lambda>_. wp (set_modified (Some b)) (\<lambda>_. outer s vi (Suc k) (Some b, bp2, c + c')))))) u"
    if i: "i + 32 \<le> 16384" and u: "good {} u" "keeps (\<lambda>b'. ref1 (Some b) b' - ref1 bp1 b') t u"
      and p: "points u (b, i) (fm_vol s) (layer1_base s vi + k * 32)" for b i u
  proof -
    have fu: "filling s vi k (k * 2 ^ 19) (\<lambda>b'. ref1 (Some b) b' + ref1 bp2 b') u"
      using fill_keeps [OF ft u] by (simp add: filling_def add.commute)
    then have "inner s vi k (b, i) 0 (bp2, 0) u" using p by (simp add: inner_def)
    from inner_loop_wp [OF g r k _ this, of depth] i
    have "wp (forS [0..<unat HAMMER_BLOCKMAP_LAYER2 div unat HAMMER_BIGBLOCK_SIZE64] (init_layer2 depth vi (b, i) (vat (vno s vi) (k * 2 ^ 42))) (bp2, 0))
      (\<lambda>(bp2, c'). wp (upd_layer1 (b, i) (\<lambda>l. hammer_crc_set_layer1 (HammerVersion s) (l\<lparr>l1_blocks_free := l1_blocks_free l + word_of_int c'\<rparr>)))
        (\<lambda>_. wp (set_modified (Some b)) (\<lambda>_. outer s vi (Suc k) (Some b, bp2, c + c')))) u"
      by (auto elim!: wp_mono intro: inner_done_wp [OF g r k i c])
    with ph i show ?thesis
      by (intro wp_mono [OF load_entry1 [OF g r k fu p]]) (auto simp: wp_assert)
  qed
  show ?thesis
    unfolding init_layer2s_def x prod.case Let_def wp_bind [of "getS _"] wp_bind [of "get_vol _"] wp_get wp_get_vol wp_bind [of "buffer_data _ _ _ _"]
      root_freemap(2) [OF g r root gt w] reached(3) [OF g r gt w]
  proof (intro conjI root_freemap(1) [OF g r root gt w] wp_mono [OF fetch_layer1_wp [OF g r k gt w h]], clarify)
    fix b i u
    assume "i + 32 \<le> 16384" "good {} u" "keeps (\<lambda>b'. ref1 (Some b) b' - ref1 bp1 b') t u"
      "points u (b, i) (fm_vol s) (layer1_base s vi + k * 32)"
    from go [OF this] show "wp (bindS (nonnull (Some (b, i)) ''layer1'') (\<lambda>p. bindS (load_layer1 p) (\<lambda>layer1.
        bindS (assertS (l1_phys_offset layer1 \<noteq> HAMMER_BLOCKMAP_UNAVAIL) ''layer1->phys_offset'') (\<lambda>_.
        bindS (forS [0..<unat HAMMER_BLOCKMAP_LAYER2 div unat HAMMER_BIGBLOCK_SIZE64] (init_layer2 depth vi p (vat (vno s vi) (k * 2 ^ 42))) (bp2, 0))
         (\<lambda>(buffer2, layer1_count). bindS (upd_layer1 p (\<lambda>l. hammer_crc_set_layer1 (HammerVersion s)
            (l\<lparr>l1_blocks_free := l1_blocks_free l + word_of_int layer1_count\<rparr>))) (\<lambda>_. bindS (set_modified (Some b)) (\<lambda>_.
            returnS (Some b, buffer2, c + layer1_count)))))))) (outer s vi (Suc k)) u"
      by (simp only: wp_bind wp_nonnull wp_return case_prod_unfold) auto
  qed
qed

section \<open>The whole initialization\<close>

lemma layer2_doalign_nat:
  assumes "unat off < 2 ^ 63"
  shows "unat (HAMMER_BLOCKMAP_LAYER2_DOALIGN off) = (unat off + 2 ^ 42 - 1) div 2 ^ 42 * 2 ^ 42"
proof -
  have m: "unat HAMMER_BLOCKMAP_LAYER2_MASK = 2 ^ 42 - 1" 
    by (simp add: HAMMER_BLOCKMAP_LAYER2_MASK_def HAMMER_BLOCKMAP_LAYER2_def HAMMER_BIGBLOCK_SIZE64_def
        HAMMER_BLOCKMAP_RADIX2_def HAMMER_BIGBLOCK_SIZE_def)
  have "unat (off + HAMMER_BLOCKMAP_LAYER2_MASK) = unat off + 2 ^ 42 - 1"
    using unat_add_lem [of off HAMMER_BLOCKMAP_LAYER2_MASK] assms unfolding m by simp
  then show ?thesis
    unfolding HAMMER_BLOCKMAP_LAYER2_DOALIGN_def mask_simps unat_and_not_mask by (simp add: minus_mod_eq_div_mult)
qed

lemma doalign_vat:
  assumes n: "0 \<le> n" "n < 256" and e: "0 < e" "e < 2 ^ 52"
  shows "unat (HAMMER_BLOCKMAP_LAYER2_DOALIGN (vat n e)) = 2 * 2 ^ 60 + nat n * 2 ^ 52 + (e + 2 ^ 42 - 1) div 2 ^ 42 * 2 ^ 42"
proof -
  let ?B = "2 * 2 ^ 60 + nat n * 2 ^ 52" and ?q = "2 ^ 19 + nat n * 1024" and ?m = "(e + 2 ^ 42 - 1) div 2 ^ 42"
  have u: "unat (vat n e) = ?B + e" by (rule vat_nat [OF n e(2)])
  have "nat n < 256" using n by simp
  then have lt: "unat (vat n e) < 2 ^ 63" unfolding u using e by simp
  have "?B + e + 2 ^ 42 - 1 = ?q * 2 ^ 42 + (e + 2 ^ 42 - 1)" using e by simp
  moreover have "(?q * 2 ^ 42 + (e + 2 ^ 42 - 1)) div 2 ^ 42 = ?q + ?m" by (rule div_mult_self3) simp
  ultimately have "unat (HAMMER_BLOCKMAP_LAYER2_DOALIGN (vat n e)) = (?q + ?m) * 2 ^ 42"
    unfolding layer2_doalign_nat [OF lt] u by (simp only:)
  then show ?thesis by simp
qed

lemma offsets_vat:
  assumes n: "0 \<le> n" "n < 256" and a: "unat a = 2 * 2 ^ 60 + nat n * 2 ^ 52 + m * d" and d: "0 < d" "unat D = d"
  shows "offsets (HAMMER_ENCODE_RAW_BUFFER n 0) a D = map (\<lambda>k. vat n (k * d)) [0..<m]"
proof -
  have b: "unat (HAMMER_ENCODE_RAW_BUFFER n 0) = 2 * 2 ^ 60 + nat n * 2 ^ 52" using encode_raw_buffer(1) [OF n, of 0] by simp
  have "m * d + d - 1 = m * d + (d - 1)" using d(1) by simp
  moreover have "(m * d + (d - 1)) div d = m" by (rule nat_digit(1)) (use d(1) in simp)
  ultimately have l: "(unat a - unat (HAMMER_ENCODE_RAW_BUFFER n 0) + unat D - 1) div unat D = m"
    unfolding a b d(2) by (simp only: diff_add_inverse)
  have "HAMMER_ENCODE_RAW_BUFFER n 0 + of_nat k * D = vat n (k * d)" for k
  proof -
    have "D = of_nat d" unfolding d(2) [symmetric] by simp
    then show ?thesis by (simp add: vat_def)
  qed
  then show ?thesis unfolding offsets_def l by simp
qed

lemma unat_layer2: "unat HAMMER_BLOCKMAP_LAYER2 = 2 ^ 42" "unat HAMMER_BIGBLOCK_SIZE64 = 2 ^ 23"
  by (simp_all add: HAMMER_BLOCKMAP_LAYER2_def HAMMER_BIGBLOCK_SIZE64_def HAMMER_BLOCKMAP_RADIX2_def HAMMER_BIGBLOCK_SIZE_def)

lemma layer2_offsets:
  assumes g: "good {} s" and r: "init_ready s vi"
  shows "offsets (HAMMER_ENCODE_RAW_BUFFER (vno s vi) 0) (HAMMER_BLOCKMAP_LAYER2_DOALIGN (v_free_end (VolList s ! vi))) HAMMER_BLOCKMAP_LAYER2 =
    map (\<lambda>k. vat (vno s vi) (k * 2 ^ 42)) [0..<layer2_blocks s vi]"
proof -
  note D = init_readyD [OF g r]
  have pos: "0 < free_to s vi" using D(7) by simp
  show ?thesis
    unfolding D(4) layer2_blocks_def
    by (rule offsets_vat [OF D(14,15) doalign_vat [OF D(14,15) pos D(16)] _ unat_layer2(1)]) simp
qed

lemma initialize_freemap_wp:
  assumes g: "good {} s" and r: "init_ready s vi"
  shows "wp (initialize_freemap depth vi) (\<lambda>count t. count = int (free_blocks s vi 0 (layer2_blocks s vi * 2 ^ 19)) \<and>
    filling s vi (layer2_blocks s vi) (layer2_blocks s vi * 2 ^ 19) (\<lambda>_. 0) t) s"
proof -
  note D = init_readyD [OF g r]
  let ?n = "layer2_blocks s vi" and ?f = "\<lambda>k. vat (vno s vi) (k * 2 ^ 42)"
  obtain rt where root: "get_root_volume s = Some rt" using freemap_okD(1) [OF D(1)] by blast
  have "v_free_off (VolList s ! vi) = vat (vno s vi) (free_from s vi + 0 * 2 ^ 23)" using D(3) by simp
  then have b0: "bumped s vi 0 = s" using D(13) unfolding bumped_def revol_def by (simp add: list_update_same_conv)
  have start: "preallocated s vi 0 None s" unfolding preallocated_def b0 using g writes_zero [OF writes_refl [OF goodD(1) [OF g]]] by simp
  have loop1: "wp (forS (map ?f [0..<?n]) (init_layer1 depth rt vi) None) (preallocated s vi ?n) s"
    by (rule wp_for_upto [where I = "preallocated s vi", OF start]) (rule init_layer1_step [OF g r root])
  have loop2: "wp (forS (map ?f [0..<?n]) (init_layer2s depth rt vi) (bp, None, 0)) (outer s vi ?n) t"
    if t: "preallocated s vi ?n bp t" for bp t
  proof (rule wp_for_upto [where I = "outer s vi"])
    show "outer s vi 0 (bp, None, 0) t" using t by (simp add: outer_def filling_def preallocated_def filled_def)
  qed (rule init_layer2s_step [OF g r root])
  have lt52: "free_from s vi < 2 ^ 52" using D(7,16) by simp
  have av: "wp (assert_volume_offset vi) (\<lambda>_ t. t = s) s"
    using D(3,4,7,13) vat_digits(1) [OF D(14,15) lt52] vat_digits(1) [OF D(14,15,16)] vat_less [OF D(14,15) lt52 D(16)]
    by (simp add: assert_volume_offset_def wp_simps)
  have fin: "wp (rel_buffer bp1) (\<lambda>_. wp (rel_buffer bp2) (\<lambda>_. filling s vi ?n (?n * 2 ^ 19) (\<lambda>_. 0))) t"
    if t: "filling s vi ?n (?n * 2 ^ 19) (\<lambda>b. ref1 bp1 b + ref1 bp2 b) t" for bp1 bp2 t
  proof -
    have "good {} t" using t by (simp add: filling_def)
    moreover have "holds {} t bp1" by (rule fill_holds [OF g r t]) (auto simp: ref1_def)
    ultimately have "wp (rel_buffer bp1) (\<lambda>_ u. good {} u \<and> keeps (\<lambda>b'. - ref1 bp1 b') t u) t" by (rule rel_holds_wp)
    then show ?thesis
    proof (rule wp_mono)
      fix u assume u: "good {} u \<and> keeps (\<lambda>b'. - ref1 bp1 b') t u"
      then have fu: "filling s vi ?n (?n * 2 ^ 19) (ref1 bp2) u" using fill_keeps [OF t] by fastforce
      have "holds {} u bp2" by (rule fill_holds [OF g r fu]) (auto simp: ref1_def)
      with u show "wp (rel_buffer bp2) (\<lambda>_. filling s vi ?n (?n * 2 ^ 19) (\<lambda>_. 0)) u"
        by (intro wp_mono [OF rel_holds_wp]) (use fill_keeps [OF fu] in \<open>fastforce+\<close>)
    qed
  qed
  show ?thesis
    unfolding initialize_freemap_def wp_bind [of "getS _"] wp_get wp_bind [of "nonnull _ _"] wp_nonnull
      wp_bind [of "assert_volume_offset _"] root
  proof (intro exI [of _ rt] conjI refl wp_mono [OF av], clarify)
    show "wp (bindS (get_vol vi) (\<lambda>volume. let blocks = offsets (HAMMER_ENCODE_RAW_BUFFER (v_vol_no volume) 0)
          (HAMMER_BLOCKMAP_LAYER2_DOALIGN (v_free_end volume)) HAMMER_BLOCKMAP_LAYER2 in
        bindS (forS blocks (init_layer1 depth rt vi) None) (\<lambda>buffer1.
        bindS (forS blocks (init_layer2s depth rt vi) (buffer1, None, 0)) (\<lambda>(buffer1, buffer2, count).
        bindS (rel_buffer buffer1) (\<lambda>_. bindS (rel_buffer buffer2) (\<lambda>_. returnS count))))))
      (\<lambda>count t. count = int (free_blocks s vi 0 (?n * 2 ^ 19)) \<and> filling s vi ?n (?n * 2 ^ 19) (\<lambda>_. 0) t) s"
      unfolding wp_bind [of "get_vol _"] wp_get_vol Let_def layer2_offsets [OF g r] wp_bind [of "forS _ _ _"]
    proof (intro conjI D(13) wp_mono [OF loop1], rule wp_mono [OF loop2], assumption, clarify)
      fix bp1 bp2 c t assume "outer s vi ?n (bp1, bp2, c) t"
      then have t: "filling s vi ?n (?n * 2 ^ 19) (\<lambda>b. ref1 bp1 b + ref1 bp2 b) t" "c = int (free_blocks s vi 0 (?n * 2 ^ 19))"
        by (simp_all only: outer_def prod.case)
      show "wp (bindS (rel_buffer bp1) (\<lambda>_. bindS (rel_buffer bp2) (\<lambda>_. returnS c)))
        (\<lambda>count t. count = int (free_blocks s vi 0 (?n * 2 ^ 19)) \<and> filling s vi ?n (?n * 2 ^ 19) (\<lambda>_. 0) t) t"
        unfolding wp_bind wp_return by (rule wp_mono [OF fin [OF t(1)]], erule wp_mono) (use t(2) in simp)
    qed
  qed
qed

end
