(* ===== verification/Freemap_Properties.thy ===== *)
theory Freemap_Properties
  imports Freemap_Fill
begin

text \<open>
  The freemap that \<open>format_freemap\<close> and \<open>initialize_freemap\<close> leave, read back through the layers, the
  number of free big-blocks that \<open>count_freemap\<close> predicts, and the properties of the three.
\<close>

section \<open>The loaded freemap\<close>

lemma fm_vol_range: "good {} s \<Longrightarrow> init_ready s vi \<Longrightarrow> fm_vol s < length (VolList s)"
  using freemap_okD(3) [OF init_readyD(1)] get_volume_Some(1) by (fastforce simp: bigblock_in_def)

lemma loaded_view:
  assumes g: "good {} s" and r: "init_ready s vi" and t: "filling s vi k i R t"
  shows "freemap_phys t = freemap_phys s" and "vol_of t (freemap_phys s) = fm_vol s"
    and "get_root_volume t = get_root_volume s" and "root_ondisk t = root_ondisk s"
    and "layer1_at t off = layer1_of_bytes (cut (filled s vi k i) (fm_vol s)
      (unat (freemap_phys s) mod 2 ^ 52 + unat (HAMMER_BLOCKMAP_LAYER1_OFFSET off)) 32)"
proof -
  note D = init_readyD [OF g r]
  have gt: "good {} t" and w: "writes R UNIV (bumped s vi (layer2_blocks s vi)) (filled s vi k i) t" using t by (simp_all add: filling_def)
  note R = reached [OF g r gt w]
  obtain rt where root: "get_root_volume s = Some rt" using freemap_okD(1) [OF D(1)] by blast
  have rt: "rt < length (VolList s)" using root get_volume_Some(1) by (auto simp: get_root_volume_def)
  have root': "get_root_volume t = Some rt" using R(1) root by (simp add: get_root_volume_def)
  then show "get_root_volume t = get_root_volume s" using root by simp
  show od: "root_ondisk t = root_ondisk s" using root root' R(4) [OF rt] by (simp add: root_ondisk_def)
  show ph: "freemap_phys t = freemap_phys s" by (simp add: freemap_phys_def od)
  have "get_volume s (HAMMER_VOL_DECODE (freemap_phys s)) = Some (fm_vol s)"
    using freemap_okD(3) [OF D(1)] by (simp add: bigblock_in_def)
  from R(1) [OF this] show vo: "vol_of t (freemap_phys s) = fm_vol s" by (simp add: vol_of_def)
  show "layer1_at t off = layer1_of_bytes (cut (filled s vi k i) (fm_vol s)
      (unat (freemap_phys s) mod 2 ^ 52 + unat (HAMMER_BLOCKMAP_LAYER1_OFFSET off)) 32)"
    unfolding layer1_at_def Let_def ph vo R(8) [OF fm_vol_range [OF g r]] ..
qed

abbreviation loaded :: "hammer_state \<Rightarrow> nat \<Rightarrow> hammer_state \<Rightarrow> bool" where
  "loaded s vi \<equiv> filling s vi (layer2_blocks s vi) (layer2_blocks s vi * 2 ^ 19) (\<lambda>_. 0)"

lemma loaded_layer1:
  assumes g: "good {} s" and r: "init_ready s vi" and t: "loaded s vi t"
    and k: "k < layer2_blocks s vi" and x: "x < 2 ^ 42"
  shows "layer1_at t (vat (vno s vi) (k * 2 ^ 42 + x)) = entry1' s vi k"
  unfolding loaded_view(5) [OF g r t] layer1_place [OF g r k x] filled_def
  by (subst cut_run [OF k]) simp_all

lemma loaded_layer2:
  assumes g: "good {} s" and r: "init_ready s vi" and t: "loaded s vi t"
    and k: "k < layer2_blocks s vi" and i: "i < 2 ^ 19" and x: "x < 2 ^ 23"
  shows "layer2_at t (vat (vno s vi) ((k * 2 ^ 19 + i) * 2 ^ 23 + x)) = entry2 s vi (k * 2 ^ 19 + i)"
proof -
  note D = init_readyD [OF g r]
  let ?n = "layer2_blocks s vi"
  have gt: "good {} t" and w: "writes (\<lambda>_. 0) UNIV (bumped s vi ?n) (filled s vi ?n (?n * 2 ^ 19)) t" using t by (simp_all add: filling_def)
  note R = reached [OF g r gt w] and F = bigblock_of_layer2 [OF g r k]
  let ?F = "vat (vno s vi) (free_from s vi + k * 2 ^ 23)"
  have "i * 2 ^ 23 + x < 2 ^ 42" using i x by simp
  from loaded_layer1 [OF g r t k this]
  have l1: "layer1_at t (vat (vno s vi) ((k * 2 ^ 19 + i) * 2 ^ 23 + x)) = entry1' s vi k" by (simp add: algebra_simps)
  have ph: "l1_phys_offset (entry1' s vi k) = ?F" by (simp add: entry1'_def entry1_def hammer_crc_set_layer1_def)
  have "get_volume s (HAMMER_VOL_DECODE ?F) = Some vi" using F(1) by (simp add: bigblock_in_def)
  from R(1) [OF this] have vo: "vol_of t ?F = vi" by (simp add: vol_of_def)
  have k': "k < 1024" using k D(17) by simp
  have a: "unat ?F mod 2 ^ 52 + unat (HAMMER_BLOCKMAP_LAYER2_OFFSET (vat (vno s vi) ((k * 2 ^ 19 + i) * 2 ^ 23 + x))) =
      free_from s vi + (k * 2 ^ 19 + i) * 16"
    unfolding F(2) layer2_offset_vat [OF D(14,15) k' i x] by simp
  have lt: "k * 2 ^ 19 + i < ?n * 2 ^ 19" using mult_le_mono1 [of "Suc k" ?n "2 ^ 19"] k i by simp
  have "cut (filled s vi ?n (?n * 2 ^ 19)) vi (free_from s vi + (k * 2 ^ 19 + i) * 16) 16 = layer2_bytes (entry2 s vi (k * 2 ^ 19 + i))"
    unfolding filled_def using layers_apart [OF g r]
    by (subst cut_run_other, fastforce, subst cut_run [OF lt]) simp_all
  then show ?thesis unfolding layer2_at_def Let_def l1 ph vo a R(8) [OF D(13)] by simp
qed

lemma loaded_layer1_other:
  assumes g: "good {} s" and r: "init_ready s vi" and t: "loaded s vi t"
    and j: "unat (HAMMER_BLOCKMAP_LAYER1_OFFSET off) = j * 32"
    and out: "j < nat (vno s vi) * 1024 \<or> nat (vno s vi) * 1024 + layer2_blocks s vi \<le> j"
  shows "layer1_at t off = layer1_at s off"
proof -
  note D = init_readyD [OF g r]
  let ?n = "layer2_blocks s vi" and ?p = "unat (freemap_phys s) mod 2 ^ 52"
  have "j * 32 < 2 ^ 23" using layer1_offset_nat(2) [of off] j by simp
  then have "?p + j * 32 + 32 \<le> ?p + 2 ^ 23" by simp
  then have apart: "fm_vol s \<noteq> vi \<or> ?p + j * 32 + 32 \<le> free_from s vi" using D(11) by fastforce
  have o: "?p + j * 32 + 32 \<le> layer1_base s vi \<or> layer1_base s vi + ?n * 32 \<le> ?p + j * 32"
    using out by (auto simp: layer1_base_def)
  have "cut (filled s vi ?n (?n * 2 ^ 19)) (fm_vol s) (?p + j * 32) 32 = cut (media s) (fm_vol s) (?p + j * 32) 32"
    unfolding filled_def using apart o
    by (subst cut_run_other, fastforce, subst cut_run_other, fastforce, subst cut_run_other) fastforce+
  then show ?thesis 
    unfolding loaded_view(5) [OF g r t] j layer1_at_def [of s] Let_def media_bytes_def by (simp only:)
qed

lemma loaded_ok:
  assumes g: "good {} s" and r: "init_ready s vi" and t: "loaded s vi t"
  shows "freemap_ok t"
proof -
  note D = init_readyD [OF g r]
  let ?n = "layer2_blocks s vi"
  have gt: "good {} t" and w: "writes (\<lambda>_. 0) UNIV (bumped s vi ?n) (filled s vi ?n (?n * 2 ^ 19)) t" using t by (simp_all add: filling_def)
  note R = reached [OF g r gt w] and V = loaded_view [OF g r t]
  have bb: "bigblock_in t F (vol_of t F)" if "bigblock_in s F vj" for F vj
  proof -
    have "get_volume t (HAMMER_VOL_DECODE F) = Some vj" using R(1) that by (simp add: bigblock_in_def)
    then show ?thesis using R(2) [OF that] by (simp add: vol_of_def)
  qed
  have "bigblock_in t (l1_phys_offset (layer1_at t off)) (vol_of t (l1_phys_offset (layer1_at t off)))"
    if av: "l1_phys_offset (layer1_at t off) \<noteq> HAMMER_BLOCKMAP_UNAVAIL" for off
  proof -
    obtain j where j: "unat (HAMMER_BLOCKMAP_LAYER1_OFFSET off) = j * 32" using layer1_offset_nat(1) by blast
    show ?thesis
    proof (cases "j < nat (vno s vi) * 1024 \<or> nat (vno s vi) * 1024 + ?n \<le> j")
      case True
      from loaded_layer1_other [OF g r t j this] av freemap_okD(4) [OF D(1)] bb show ?thesis by metis
    next
      case False
      define k where "k = j - nat (vno s vi) * 1024"
      have k: "k < ?n" "j = nat (vno s vi) * 1024 + k" using False by (auto simp: k_def)
      have "layer1_at t off = entry1' s vi k"
        using loaded_layer1 [OF g r t k(1), of 0] layer1_place [OF g r k(1), of 0]
        unfolding V(5) by (simp add: j k(2) layer1_base_def algebra_simps)
      then have "l1_phys_offset (layer1_at t off) = vat (vno s vi) (free_from s vi + k * 2 ^ 23)"
        by (simp add: entry1'_def entry1_def hammer_crc_set_layer1_def)
      with bb [OF bigblock_of_layer2(1) [OF g r k(1)]] show ?thesis by simp
    qed
  qed
  then show ?thesis
    using D(1) bb [OF freemap_okD(3) [OF D(1)]] unfolding freemap_ok_def V(1,3,4) Let_def by simp
qed

section \<open>The free big-blocks\<close>

text \<open>The big-blocks that stay free: behind those taken for layer 2, and starting before the end.\<close>

definition free_range :: "hammer_state \<Rightarrow> nat \<Rightarrow> nat set" where
  "free_range s vi = {free_from s vi div 2 ^ 23 + layer2_blocks s vi..<(free_to s vi + 2 ^ 23 - 1) div 2 ^ 23}"

lemma less_ceiling:
  fixes c :: nat
  assumes "0 < c"
  shows "i * c < e \<longleftrightarrow> i < (e + c - 1) div c"
proof -
  have "i < (e + c - 1) div c \<longleftrightarrow> Suc i * c \<le> e + c - 1"
    unfolding less_eq_Suc_le using assms by (rule less_eq_div_iff_mult_less_eq)
  then show ?thesis using assms by auto
qed

lemma is_free_range:
  assumes g: "good {} s" and r: "init_ready s vi" and i: "i < layer2_blocks s vi * 2 ^ 19"
  shows "vat (vno s vi) (i * 2 ^ 23) < v_free_off (loaded_vol s vi) \<longleftrightarrow> i < free_from s vi div 2 ^ 23 + layer2_blocks s vi"
    and "vat (vno s vi) (i * 2 ^ 23) < v_free_end (loaded_vol s vi) \<longleftrightarrow> i < (free_to s vi + 2 ^ 23 - 1) div 2 ^ 23"
    and "is_free_block (loaded_vol s vi) (vat (vno s vi) (i * 2 ^ 23)) \<longleftrightarrow> i \<in> free_range s vi"
proof -
  note D = init_readyD [OF g r]
  let ?n = "layer2_blocks s vi"
  have i52: "i * 2 ^ 23 < 2 ^ 52" using i D(17) by simp
  have off52: "free_from s vi + ?n * 2 ^ 23 < 2 ^ 52" using D(6,16) by simp
  have fo: "v_free_off (loaded_vol s vi) = vat (vno s vi) (free_from s vi + ?n * 2 ^ 23)"
    and fe: "v_free_end (loaded_vol s vi) = vat (vno s vi) (free_to s vi)"
    unfolding bumped_fields(9) [OF D(13)] using D(4) by simp_all
  obtain q where q: "free_from s vi = 2 ^ 23 * q" using D(5) by blast
  have "i * 2 ^ 23 < free_from s vi + ?n * 2 ^ 23 \<longleftrightarrow> i * 2 ^ 23 < (q + ?n) * 2 ^ 23" unfolding q by (simp add: algebra_simps)
  also have "\<dots> \<longleftrightarrow> i < q + ?n" by (rule mult_less_cancel2 [THEN trans]) simp
  finally show lo: "vat (vno s vi) (i * 2 ^ 23) < v_free_off (loaded_vol s vi) \<longleftrightarrow> i < free_from s vi div 2 ^ 23 + ?n"
    unfolding fo vat_less [OF D(14,15) i52 off52] by (simp add: q)
  have "i * 2 ^ 23 < free_to s vi \<longleftrightarrow> i < (free_to s vi + 2 ^ 23 - 1) div 2 ^ 23"
    by (rule less_ceiling) simp
  then show hi: "vat (vno s vi) (i * 2 ^ 23) < v_free_end (loaded_vol s vi) \<longleftrightarrow> i < (free_to s vi + 2 ^ 23 - 1) div 2 ^ 23"
    unfolding fe vat_less [OF D(14,15) i52 D(16)] .
  show "is_free_block (loaded_vol s vi) (vat (vno s vi) (i * 2 ^ 23)) \<longleftrightarrow> i \<in> free_range s vi"
    unfolding is_free_block_def lo hi by (auto simp: free_range_def)
qed

lemma free_range_bound: "(free_to s vi + 2 ^ 23 - 1) div 2 ^ 23 \<le> layer2_blocks s vi * 2 ^ 19"
proof -
  let ?n = "layer2_blocks s vi"
  have "\<not> ?n * 2 ^ 42 < free_to s vi"
    using less_ceiling [of "2 ^ 42" ?n "free_to s vi"] by (simp add: layer2_blocks_def)
  then have "\<not> (?n * 2 ^ 19) * 2 ^ 23 < free_to s vi" by simp
  then have "\<not> ?n * 2 ^ 19 < (free_to s vi + 2 ^ 23 - 1) div 2 ^ 23" by (subst less_ceiling [symmetric]) simp_all
  then show ?thesis by simp
qed

lemma free_blocks_card:
  assumes g: "good {} s" and r: "init_ready s vi" and m: "a + m \<le> layer2_blocks s vi * 2 ^ 19"
  shows "free_blocks s vi a m = card (free_range s vi \<inter> {a..<a + m})"
proof -
  have "filter (\<lambda>i. is_free_block (loaded_vol s vi) (vat (vno s vi) (i * 2 ^ 23))) [a..<a + m] = filter (\<lambda>i. i \<in> free_range s vi) [a..<a + m]"
    by (rule filter_cong) (use is_free_range(3) [OF g r] m in auto)
  moreover have "length (filter (\<lambda>i. i \<in> free_range s vi) [a..<a + m]) = card (set (filter (\<lambda>i. i \<in> free_range s vi) [a..<a + m]))"
    by (rule distinct_card [symmetric]) simp
  moreover have "set (filter (\<lambda>i. i \<in> free_range s vi) [a..<a + m]) = free_range s vi \<inter> {a..<a + m}" by auto
  ultimately show ?thesis by (simp only: free_blocks_def)
qed

lemma free_blocks_total:
  assumes g: "good {} s" and r: "init_ready s vi"
  shows "free_blocks s vi 0 (layer2_blocks s vi * 2 ^ 19) = card (free_range s vi)"
proof -
  have "free_range s vi \<inter> {0..<0 + layer2_blocks s vi * 2 ^ 19} = free_range s vi"
    using free_range_bound by (auto simp: free_range_def)
  then show ?thesis using free_blocks_card [OF g r, of 0 "layer2_blocks s vi * 2 ^ 19"] by simp
qed

section \<open>The prediction\<close>

lemma foldl_count: "foldl (\<lambda>count x. if P x then count else if Q x then count + 1 else count) (c :: int) xs =
    c + int (length (filter (\<lambda>x. \<not> P x \<and> Q x) xs))"
  by (induction xs arbitrary: c) simp_all

lemma foldl_bump: "foldl (\<lambda>off _. off + d) (o' :: u64) xs = o' + of_nat (length xs) * d"
  by (induction xs arbitrary: o') (simp_all add: algebra_simps)

definition predicted :: "hammer_state \<Rightarrow> nat \<Rightarrow> nat" where
  "predicted s vi = (free_to s vi + 2 ^ 23 - 1) div 2 ^ 23 - ((if vno s vi = HAMMER_ROOT_VOLNO then 1 else 0) + layer2_blocks s vi)"

lemma length_filter_range:
  assumes "hi \<le> m"
  shows "length (filter (\<lambda>k. k \<in> {lo..<hi}) [0..<m]) = hi - lo"
proof -
  have "length (filter (\<lambda>k. k \<in> {lo..<hi}) [0..<m]) = card (set (filter (\<lambda>k. k \<in> {lo..<hi}) [0..<m]))"
    by (rule distinct_card [symmetric]) simp
  also have "set (filter (\<lambda>k. k \<in> {lo..<hi}) [0..<m]) = {lo..<hi}" using assms by auto
  finally show ?thesis by simp
qed

lemma count_freemap_eq:
  assumes vi: "vi < length (VolList s)" and n: "0 \<le> vno s vi" "vno s vi < 256"
    and o: "hammer_is_zone_raw_buffer (v_free_off (VolList s ! vi))" "v_free_off (VolList s ! vi) < v_free_end (VolList s ! vi)"
    and e: "v_free_end (VolList s ! vi) = vat (vno s vi) (free_to s vi)" "0 < free_to s vi"
    and room: "(1 + layer2_blocks s vi) * 2 ^ 23 \<le> free_to s vi"
  shows "count_freemap vi s = Inr (int (predicted s vi), s)"
proof -
  let ?n = "layer2_blocks s vi" and ?v = "vno s vi"
  have e52: "free_to s vi < 2 ^ 52" unfolding free_to_def by (rule mod_less_divisor) simp
  note al = doalign_vat [OF n e(2) e52, folded layer2_blocks_def]
  have o1: "offsets (HAMMER_ENCODE_RAW_BUFFER ?v 0) (HAMMER_BLOCKMAP_LAYER2_DOALIGN (v_free_end (VolList s ! vi))) HAMMER_BLOCKMAP_LAYER2 =
      map (\<lambda>k. vat ?v (k * 2 ^ 42)) [0..<?n]"
    unfolding e(1) by (rule offsets_vat [OF n al _ unat_layer2(1)]) simp
  have o2: "offsets (HAMMER_ENCODE_RAW_BUFFER ?v 0) (HAMMER_BLOCKMAP_LAYER2_DOALIGN (v_free_end (VolList s ! vi))) HAMMER_BIGBLOCK_SIZE64 =
      map (\<lambda>k. vat ?v (k * 2 ^ 23)) [0..<?n * 2 ^ 19]"
    unfolding e(1) by (rule offsets_vat [OF n _ _ unat_layer2(2)]) (use al in simp_all)
  define z where "z = (if ?v = HAMMER_ROOT_VOLNO then 1 else 0 :: nat)"
  have bb: "HAMMER_BIGBLOCK_SIZE64 = of_nat (2 ^ 23)" by (simp add: HAMMER_BIGBLOCK_SIZE64_def)
  have fo: "(if ?v = HAMMER_ROOT_VOLNO then HAMMER_ENCODE_RAW_BUFFER ?v 0 + HAMMER_BIGBLOCK_SIZE64 else HAMMER_ENCODE_RAW_BUFFER ?v 0) +
      of_nat ?n * HAMMER_BIGBLOCK_SIZE64 = vat ?v ((z + ?n) * 2 ^ 23)"
    unfolding z_def bb by (simp add: vat_def algebra_simps)
  have z52: "(z + ?n) * 2 ^ 23 < 2 ^ 52"
  proof -
    have "(z + ?n) * 2 ^ 23 \<le> (1 + ?n) * 2 ^ 23" by (rule mult_le_mono1) (simp add: z_def)
    then show ?thesis using room e52 by simp
  qed
  let ?hi = "(free_to s vi + 2 ^ 23 - 1) div 2 ^ 23"
  have n1024: "?n \<le> 1024"
  proof -
    have "(free_to s vi + 2 ^ 42 - 1) div 2 ^ 42 < 1025" by (rule less_mult_imp_div_less) (use e52 in simp)
    then show ?thesis by (simp add: layer2_blocks_def)
  qed
  have filt: "filter (\<lambda>k. \<not> vat ?v (k * 2 ^ 23) < vat ?v ((z + ?n) * 2 ^ 23) \<and> vat ?v (k * 2 ^ 23) < vat ?v (free_to s vi)) [0..<?n * 2 ^ 19] =
      filter (\<lambda>k. k \<in> {z + ?n..<?hi}) [0..<?n * 2 ^ 19]"
  proof (rule filter_cong [OF refl])
    fix k assume "k \<in> set [0..<?n * 2 ^ 19]"
    then have k: "k * 2 ^ 23 < 2 ^ 52" using n1024 by simp
    have "k * 2 ^ 23 < free_to s vi \<longleftrightarrow> k < ?hi" by (rule less_ceiling) simp
    moreover have "k * 2 ^ 23 < (z + ?n) * 2 ^ 23 \<longleftrightarrow> k < z + ?n" by (rule mult_less_cancel2 [THEN trans]) simp
    ultimately show "(\<not> vat ?v (k * 2 ^ 23) < vat ?v ((z + ?n) * 2 ^ 23) \<and> vat ?v (k * 2 ^ 23) < vat ?v (free_to s vi)) = (k \<in> {z + ?n..<?hi})"
      unfolding vat_less [OF n k z52] vat_less [OF n k e52] by auto
  qed
  have len: "length (filter (\<lambda>k. \<not> vat ?v (k * 2 ^ 23) < vat ?v ((z + ?n) * 2 ^ 23) \<and> vat ?v (k * 2 ^ 23) < vat ?v (free_to s vi))
      [0..<?n * 2 ^ 19]) = predicted s vi"
    unfolding filt length_filter_range [OF free_range_bound] by (simp add: predicted_def z_def)
  have raw: "hammer_is_zone_raw_buffer (v_free_end (VolList s ! vi))" unfolding e(1) by (rule vat_digits(1) [OF n e52])
  have "wp (count_freemap vi) (\<lambda>c t. c = int (predicted s vi) \<and> t = s) s"
    unfolding count_freemap_def wp_bind wp_get_vol assert_volume_offset_def wp_assert wp_when wp_stop Let_def o1 o2 foldl_bump length_map length_upt
      diff_zero fo foldl_count wp_return filter_map comp_def
    using vi o raw len by (simp add: e(1))
  then show ?thesis by (auto simp: wp_def split: sum.splits)
qed

section \<open>A new root volume\<close>

text \<open>
  The root volume as \<open>newfs_hammer\<close> has it before the freemap is written: all of its area is free, it has
  room for layer 1 and layer 2, and nothing in the cache is modified.
\<close>

definition new_root :: "hammer_state \<Rightarrow> nat \<Rightarrow> bool" where
  "new_root s vi \<longleftrightarrow> get_root_volume s = Some vi \<and> length (vol0_blockmap (v_ondisk (VolList s ! vi))) = 16 \<and>
     v_free_off (VolList s ! vi) = vat 0 0 \<and> v_free_end (VolList s ! vi) = vat 0 (free_to s vi) \<and>
     (1 + layer2_blocks s vi) * 2 ^ 23 \<le> free_to s vi \<and> free_to s vi \<le> vol_area s vi \<and>
     \<not> v_rdonly (VolList s ! vi) \<and> mods s = {}"

lemma new_rootD:
  assumes g: "good {} s" and r: "new_root s vi"
  shows "get_root_volume s = Some vi" "length (vol0_blockmap (v_ondisk (VolList s ! vi))) = 16"
    "v_free_off (VolList s ! vi) = vat 0 0" "v_free_end (VolList s ! vi) = vat 0 (free_to s vi)"
    "(1 + layer2_blocks s vi) * 2 ^ 23 \<le> free_to s vi" "free_to s vi \<le> vol_area s vi" "\<not> v_rdonly (VolList s ! vi)" "mods s = {}"
    "vi < length (VolList s)" "vno s vi = 0" "get_volume s 0 = Some vi" "free_to s vi < 2 ^ 52" "bigblock_in s (vat 0 0) vi"
    "vat 0 0 < vat 0 (free_to s vi)"
proof -
  show N: "get_root_volume s = Some vi" "length (vol0_blockmap (v_ondisk (VolList s ! vi))) = 16"
    "v_free_off (VolList s ! vi) = vat 0 0" "v_free_end (VolList s ! vi) = vat 0 (free_to s vi)"
    "(1 + layer2_blocks s vi) * 2 ^ 23 \<le> free_to s vi" "free_to s vi \<le> vol_area s vi" "\<not> v_rdonly (VolList s ! vi)" "mods s = {}"
    using r by (simp_all add: new_root_def)
  show v: "get_volume s 0 = Some vi" using N(1) by (simp add: get_root_volume_def HAMMER_ROOT_VOLNO_def)
  show "vi < length (VolList s)" "vno s vi = 0" using get_volume_Some [OF v] by simp_all
  show e: "free_to s vi < 2 ^ 52" unfolding free_to_def by (rule mod_less_divisor) simp
  have "0 + 2 ^ 23 \<le> vol_area s vi" using N(5,6) by simp
  then show "bigblock_in s (vat 0 0) vi" by (intro bigblock_vat [OF goodD(1) [OF g] v]) simp_all
  have "0 < free_to s vi" using N(5) by simp
  then show "vat 0 0 < vat 0 (free_to s vi)" using vat_less [of 0 0 "free_to s vi"] e by simp
qed

lemma format_new_root_wp:
  assumes g: "good {} s" and r: "new_root s vi"
  shows "wp (format_freemap depth vi) (\<lambda>_ t. good {} t \<and> freemap_ok t \<and> (\<forall>off. layer1_at t off = layer1_unavail (HammerVersion s)) \<and>
    (\<forall>vj < length (VolList s). \<forall>a. \<not> (vj = vi \<and> a < 2 ^ 23) \<longrightarrow> media t vj a = media s vj a) \<and>
    init_ready t vi \<and> free_from t vi = 2 ^ 23 \<and> free_to t vi = free_to s vi \<and> HammerVersion t = HammerVersion s \<and> vno t vi = 0) s"
proof -
  note N = new_rootD [OF g r]
  have u0: "unat (vat 0 0) mod 2 ^ 52 = 0" by (rule vat_digits(3)) simp_all
  have raw: "hammer_is_zone_raw_buffer (v_free_end (VolList s ! vi))" unfolding N(4) by (rule vat_digits(1)) (use N(12) in simp_all)
  have lt: "v_free_off (VolList s ! vi) < v_free_end (VolList s ! vi)" unfolding N(3,4) by (rule N(14))
  let ?M = "run (media s) vi 0 32 (\<lambda>_. layer1_bytes (layer1_unavail (HammerVersion s))) (2 ^ 18)"
  show ?thesis
  proof (rule wp_mono [OF format_freemap_wp [OF g N(1) N(3) [symmetric] N(13) raw _ N(7), unfolded u0 N(3)]])
    show "vat 0 0 < v_free_end (VolList s ! vi)" unfolding N(4) by (rule N(14))
    show "blk (vat 0 0) ` {..<512} \<inter> mods s = {}" by (simp add: N(8))
    fix t assume "good {} t \<and> writes (\<lambda>_. 0) (blk (vat 0 0) ` {..<512}) (with_freemap s vi) ?M t"
    then have gt: "good {} t" and w: "writes (\<lambda>_. 0) (blk (vat 0 0) ` {..<512}) (with_freemap s vi) ?M t" by simp_all
    note S = with_freemap_fields [OF N(9)]
    note V = formatted_view [OF g N(1) N(3) [symmetric] N(13,2) gt, unfolded u0, OF w]
    have fr: "frame t = frame (with_freemap s vi)" using w by (simp add: writes_def)
    have vs: "vi < length (VolList (with_freemap s vi))" using N(9) S(6) by simp
    have F: "vno t vi = 0" "vol_area t vi = vol_area s vi" "\<not> v_rdonly (VolList t ! vi)" "HammerVersion t = HammerVersion s"
      using frame_fields [OF fr vs] S(1) N(7,10) fr S(5) by (simp_all add: vol_area_def vol_beg_def frame_def)
    have ft: "free_to t vi = free_to s vi" using V(5) by (simp add: free_to_def)
    have ff: "v_free_off (VolList t ! vi) = vat 0 (2 ^ 23)" using V(4) vat_add [of 0 0 "2 ^ 23"] by (simp add: HAMMER_BIGBLOCK_SIZE64_def)
    then have ff': "free_from t vi = 2 ^ 23" using vat_digits(3) [of 0 "2 ^ 23"] by (simp add: free_from_def)
    have gv: "get_volume t 0 = Some vi"
      using get_volume_frame [OF fr wfsD(1) [OF goodD(1) [OF S(4) [OF g]]] wfsD(1) [OF goodD(1) [OF gt]]] S(2) N(11) by simp
    have vo: "vol_of t (vat 0 0) = vi" unfolding vol_of_def using gv vat_digits(2) [of 0 0] by simp
    have med: "media t vj a = media s vj a" if "vj < length (VolList s)" "\<not> (vj = vi \<and> a < 2 ^ 23)" for vj a
      using w that S(6) by (auto simp: writes_def run_def)
    have lb: "layer2_blocks t vi = layer2_blocks s vi" by (simp add: layer2_blocks_def ft)
    have "0 < free_to s vi" using N(5) by simp
    then have "0 < layer2_blocks s vi" using less_ceiling [of "2 ^ 42" 0 "free_to s vi"] by (simp add: layer2_blocks_def)
    then have "2 ^ 23 < free_to s vi" using N(5) by simp
    then have "init_ready t vi"
      unfolding init_ready_def lb F(1) ff' ft V(1) vo u0
      using V(2,3,5) N(4,5,6) F(2,3) gv ff by simp
    then show "good {} t \<and> freemap_ok t \<and> (\<forall>off. layer1_at t off = layer1_unavail (HammerVersion s)) \<and>
      (\<forall>vj < length (VolList s). \<forall>a. \<not> (vj = vi \<and> a < 2 ^ 23) \<longrightarrow> media t vj a = media s vj a) \<and>
      init_ready t vi \<and> free_from t vi = 2 ^ 23 \<and> free_to t vi = free_to s vi \<and> HammerVersion t = HammerVersion s \<and> vno t vi = 0"
      using gt V(2,3) med ff' ft F(1,4) by simp
  qed
qed

section \<open>An example: a blank volume of five big-blocks\<close>

definition blank_volume :: volume_info where
  "blank_volume = \<lparr>v_name = ''vol'', v_type = ''REGFILE'', v_vol_no = 0, v_rdonly = False, v_fd = 3,
     v_size = 0, v_device_offset = 0, v_free_off = 0x2000000000000000, v_free_end = 0x2000000002800000,
     v_ondisk = volume_blank\<lparr>vol_buf_beg := 16384, vol_buf_end := 16384 + 5 * 0x800000,
       vol0_blockmap := replicate 16 \<lparr>bm_phys_offset = 0, bm_first_offset = 0, bm_next_offset = 0,
         bm_alloc_offset = 0, bm_reserved01 = 0, bm_entry_crc = 0\<rparr>\<rparr>,
     v_tail = replicate (16384 - 1928) 0, v_buffer_lists = replicate 64 []\<rparr>"

definition blank_state :: hammer_state where
  "blank_state = \<lparr>VolList = [blank_volume], valid_hammer_volumes = 1,
     buffers = (\<lambda>_. None), next_buffer = 0, CacheList = [], CacheUse = 0, CacheMax = 16 * 1024 * 1024,
     UseReadBehind = - 4, UseReadAhead = 4, HammerVersion = 7, Hammer_FSType = replicate 16 0,
     Hammer_FSId = replicate 16 0,
     devices = (\<lambda>_. \<lparr>dev_bytes = (\<lambda>_. 0), dev_read_ok = (\<lambda>_. True), dev_write_ok = (\<lambda>_. True)\<rparr>)\<rparr>"

lemma blank_good: "good {} blank_state"
  by (simp add: good_def wfs_def vols_ok_def vol_ok_def area_ok_def io_ok_def lists_ok_def bufs_ok_def
      coherent_def blank_state_def blank_volume_def)

lemma blank_sizes: "free_to blank_state 0 = 5 * 2 ^ 23" "layer2_blocks blank_state 0 = 1"
proof -
  show e: "free_to blank_state 0 = 5 * 2 ^ 23" by (simp add: free_to_def blank_state_def blank_volume_def)
  show "layer2_blocks blank_state 0 = 1" unfolding layer2_blocks_def e by simp
qed

lemma vat_0: "vat 0 0 = 0x2000000000000000" "vat 0 (5 * 2 ^ 23) = 0x2000000002800000"
  by (simp_all add: vat_def HAMMER_ENCODE_RAW_BUFFER_def HAMMER_ENCODE_def HAMMER_VOL_ENCODE_def HAMMER_OFF_SHORT_ENCODE_def
      HAMMER_ZONE_RAW_BUFFER_INDEX_def)

lemma blank_new_root: "new_root blank_state 0"
  unfolding new_root_def blank_sizes vat_0
  by (simp add: blank_state_def blank_volume_def get_root_volume_def get_volume_def HAMMER_ROOT_VOLNO_def
      vol_area_def vol_beg_def mods_def)

section \<open>Properties\<close>

text \<open>
  C11: \<open>format_freemap\<close> on a new root volume returns.  Every one of the 262144 layer 1 entries then says
  that its range is unavailable, with a correct checksum; the freemap of the volume header points to
  them; nothing outside the first big-block of the volume has changed on any volume; and the volume
  is ready for \<open>initialize_freemap\<close>.
\<close>

theorem format_freemap_empties:
  assumes "good {} s" and "new_root s vi"
  shows "\<exists>t. format_freemap depth vi s = Inr ((), t) \<and> good {} t \<and> freemap_ok t \<and> init_ready t vi \<and>
    (\<forall>off. l1_phys_offset (layer1_at t off) = HAMMER_BLOCKMAP_UNAVAIL \<and> l1_blocks_free (layer1_at t off) = 0 \<and>
       hammer_crc_test_layer1 (HammerVersion s) (layer1_at t off)) \<and>
    (\<forall>vj < length (VolList s). \<forall>a. \<not> (vj = vi \<and> a < 2 ^ 23) \<longrightarrow> media t vj a = media s vj a)"
proof -
  have "hammer_crc_test_layer1 (HammerVersion s) (layer1_unavail (HammerVersion s))"
    "l1_blocks_free (layer1_unavail (HammerVersion s)) = 0"
    by (simp_all add: layer1_unavail_def layer1_crc.test_set) (simp add: hammer_crc_set_layer1_def)
  with wp_returns [OF format_new_root_wp [OF assms, of depth]] show ?thesis by auto
qed

theorem format_freemap_empties_witness:
  "\<exists>t. format_freemap 2 0 blank_state = Inr ((), t) \<and> good {} t \<and> freemap_ok t \<and> init_ready t 0 \<and>
    (\<forall>off. l1_phys_offset (layer1_at t off) = HAMMER_BLOCKMAP_UNAVAIL \<and> l1_blocks_free (layer1_at t off) = 0 \<and>
       hammer_crc_test_layer1 (HammerVersion blank_state) (layer1_at t off)) \<and>
    (\<forall>vj < length (VolList blank_state). \<forall>a. \<not> (vj = 0 \<and> a < 2 ^ 23) \<longrightarrow> media t vj a = media blank_state vj a)"
  by (rule format_freemap_empties [OF blank_good blank_new_root])

text \<open>
  C10: \<open>initialize_freemap\<close> on a volume that is not loaded yet returns, and leaves a usable freemap:
  each layer 1 entry of the volume points to its layer 2 big-block, the first free ones of the volume,
  and holds the number of free big-blocks of its range; each layer 2 entry says whether its big-block
  is part of the freemap, free, or behind the end of the volume; all checksums are right; and the
  result is the number of free big-blocks.
\<close>

theorem initialize_freemap_loads:
  assumes "good {} s" and "init_ready s vi"
  shows "\<exists>count t. initialize_freemap depth vi s = Inr (count, t) \<and> good {} t \<and> freemap_ok t \<and>
    count = int (card (free_range s vi)) \<and>
    (\<forall>k < layer2_blocks s vi. \<forall>x < 2 ^ 42. let layer1 = layer1_at t (vat (vno s vi) (k * 2 ^ 42 + x)) in
       hammer_crc_test_layer1 (HammerVersion s) layer1 \<and> l1_phys_offset layer1 = vat (vno s vi) (free_from s vi + k * 2 ^ 23) \<and>
       l1_blocks_free layer1 = of_nat (card (free_range s vi \<inter> {k * 2 ^ 19..<k * 2 ^ 19 + 2 ^ 19}))) \<and>
    (\<forall>k < layer2_blocks s vi. \<forall>i < 2 ^ 19. \<forall>x < 2 ^ 23. let b = k * 2 ^ 19 + i; layer2 = layer2_at t (vat (vno s vi) (b * 2 ^ 23 + x)) in
       hammer_crc_test_layer2 (HammerVersion s) layer2 \<and>
       uint (l2_zone layer2) = (if b < free_from s vi div 2 ^ 23 + layer2_blocks s vi then HAMMER_ZONE_FREEMAP_INDEX
         else if b \<in> free_range s vi then 0 else HAMMER_ZONE_UNAVAIL_INDEX) \<and>
       uint (l2_bytes_free layer2) = (if b \<in> free_range s vi then HAMMER_BIGBLOCK_SIZE else 0))"
proof -
  from wp_returns [OF initialize_freemap_wp [OF assms, of depth]] obtain count t
    where t: "initialize_freemap depth vi s = Inr (count, t)"
      "count = int (free_blocks s vi 0 (layer2_blocks s vi * 2 ^ 19))" "loaded s vi t" by blast
  let ?n = "layer2_blocks s vi"
  have l1: "let layer1 = layer1_at t (vat (vno s vi) (k * 2 ^ 42 + x)) in
       hammer_crc_test_layer1 (HammerVersion s) layer1 \<and> l1_phys_offset layer1 = vat (vno s vi) (free_from s vi + k * 2 ^ 23) \<and>
       l1_blocks_free layer1 = of_nat (card (free_range s vi \<inter> {k * 2 ^ 19..<k * 2 ^ 19 + 2 ^ 19}))"
    if k: "k < ?n" and x: "x < 2 ^ 42" for k x
  proof -
    have m: "k * 2 ^ 19 + 2 ^ 19 \<le> ?n * 2 ^ 19" using mult_le_mono1 [of "Suc k" ?n "2 ^ 19"] k by simp
    show ?thesis
      unfolding Let_def loaded_layer1 [OF assms t(3) k x] free_blocks_card [OF assms m, symmetric]
      by (simp add: entry1'_def layer1_crc.test_set) (simp add: entry1_def hammer_crc_set_layer1_def)
  qed
  have l2: "let b = k * 2 ^ 19 + i; layer2 = layer2_at t (vat (vno s vi) (b * 2 ^ 23 + x)) in
       hammer_crc_test_layer2 (HammerVersion s) layer2 \<and>
       uint (l2_zone layer2) = (if b < free_from s vi div 2 ^ 23 + ?n then HAMMER_ZONE_FREEMAP_INDEX
         else if b \<in> free_range s vi then 0 else HAMMER_ZONE_UNAVAIL_INDEX) \<and>
       uint (l2_bytes_free layer2) = (if b \<in> free_range s vi then HAMMER_BIGBLOCK_SIZE else 0)"
    if k: "k < ?n" and i: "i < 2 ^ 19" and x: "x < 2 ^ 23" for k i x
  proof -
    have m: "k * 2 ^ 19 + i < ?n * 2 ^ 19" using mult_le_mono1 [of "Suc k" ?n "2 ^ 19"] k i by simp
    define b where "b = k * 2 ^ 19 + i"
    note F = is_free_range(1,2) [OF assms m, folded b_def]
    have "b \<in> free_range s vi \<longleftrightarrow> \<not> b < free_from s vi div 2 ^ 23 + ?n \<and> b < (free_to s vi + 2 ^ 23 - 1) div 2 ^ 23"
      by (auto simp: free_range_def)
    then show ?thesis
      unfolding Let_def b_def [symmetric] loaded_layer2 [OF assms t(3) k i x, folded b_def] entry2_def layer2_entry_def F
      by (simp add: layer2_crc.test_set) (simp add: hammer_crc_set_layer2_def HAMMER_BIGBLOCK_SIZE_def
          HAMMER_ZONE_FREEMAP_INDEX_def HAMMER_ZONE_UNAVAIL_INDEX_def)
  qed
  have "good {} t" using t(3) by (simp add: filling_def)
  moreover have "count = int (card (free_range s vi))" unfolding t(2) free_blocks_total [OF assms] ..
  ultimately show ?thesis using t(1) loaded_ok [OF assms t(3)] l1 l2 by blast
qed

theorem initialize_freemap_loads_witness:
  "\<exists>t count u. format_freemap 2 0 blank_state = Inr ((), t) \<and> initialize_freemap 2 0 t = Inr (count, u) \<and>
    freemap_ok u \<and> count = 3 \<and> layer2_blocks t 0 = 1 \<and> uint (l2_zone (layer2_at u (vat 0 (4 * 2 ^ 23 + 5)))) = 0"
proof -
  from wp_returns [OF format_new_root_wp [OF blank_good blank_new_root, of 2]] obtain t
    where t: "format_freemap 2 0 blank_state = Inr ((), t)" "good {} t" "init_ready t 0" "free_from t 0 = 2 ^ 23"
      "free_to t 0 = free_to blank_state 0" "vno t 0 = 0" by auto
  have n: "layer2_blocks t 0 = 1" using blank_sizes(2) t(5) by (simp add: layer2_blocks_def)
  have r: "free_range t 0 = {2..<5}" unfolding free_range_def n t(4,5) blank_sizes by simp (simp add: numeral_2_eq_2)
  show ?thesis
    using initialize_freemap_loads [OF t(2,3), of 2]
  proof (elim exE conjE)
    fix count u
    assume u: "initialize_freemap 2 0 t = Inr (count, u)" "freemap_ok u" "count = int (card (free_range t 0))"
      and l2: "\<forall>k < layer2_blocks t 0. \<forall>i < 2 ^ 19. \<forall>x < 2 ^ 23. let b = k * 2 ^ 19 + i; layer2 = layer2_at u (vat (vno t 0) (b * 2 ^ 23 + x)) in
         hammer_crc_test_layer2 (HammerVersion t) layer2 \<and>
         uint (l2_zone layer2) = (if b < free_from t 0 div 2 ^ 23 + layer2_blocks t 0 then HAMMER_ZONE_FREEMAP_INDEX
           else if b \<in> free_range t 0 then 0 else HAMMER_ZONE_UNAVAIL_INDEX) \<and>
         uint (l2_bytes_free layer2) = (if b \<in> free_range t 0 then HAMMER_BIGBLOCK_SIZE else 0)"
    have "uint (l2_zone (layer2_at u (vat 0 (4 * 2 ^ 23 + 5)))) = 0"
      using l2 [rule_format, of 0 4 5] by (simp add: r n t(4,6) Let_def)
    with t(1) u n r show ?thesis by (intro exI [of _ t] exI [of _ count] exI [of _ u]) simp
  qed
qed

text \<open>
  C12: \<open>count_freemap\<close>, with which \<open>newfs_hammer\<close> computes its sizes before anything is written, predicts
  exactly the number of free big-blocks that formatting and loading the freemap then leaves.
\<close>

theorem count_freemap_predicts:
  assumes "good {} s" and "new_root s vi"
  shows "\<exists>count t. count_freemap vi s = Inr (count, s) \<and>
    bindS (format_freemap depth vi) (\<lambda>_. initialize_freemap depth vi) s = Inr (count, t) \<and> good {} t \<and> freemap_ok t"
proof -
  note N = new_rootD [OF assms]
  from wp_returns [OF format_new_root_wp [OF assms, of depth]] obtain t
    where t: "format_freemap depth vi s = Inr ((), t)" "good {} t" "init_ready t vi" "free_from t vi = 2 ^ 23"
      "free_to t vi = free_to s vi" by auto
  from wp_returns [OF initialize_freemap_wp [OF t(2,3), of depth]] obtain count u
    where u: "initialize_freemap depth vi t = Inr (count, u)"
      "count = int (free_blocks t vi 0 (layer2_blocks t vi * 2 ^ 19))" "loaded t vi u" by blast
  have lb: "layer2_blocks t vi = layer2_blocks s vi" by (simp add: layer2_blocks_def t(5))
  have "card (free_range t vi) = predicted s vi"
    by (simp add: free_range_def predicted_def t(4,5) lb N(10) HAMMER_ROOT_VOLNO_def)
  then have c: "count = int (predicted s vi)" using u(2) free_blocks_total [OF t(2,3)] by simp
  have "0 < free_to s vi" using N(5) by simp
  then have "count_freemap vi s = Inr (int (predicted s vi), s)"
    using count_freemap_eq [OF N(9)] N vat_digits(1) [of 0 0] by simp
  moreover have "bindS (format_freemap depth vi) (\<lambda>_. initialize_freemap depth vi) s = Inr (count, u)"
    by (simp add: bindS_def t(1) u(1))
  moreover have "good {} u" using u(3) by (simp add: filling_def)
  ultimately show ?thesis using c loaded_ok [OF t(2,3) u(3)] by blast
qed

theorem count_freemap_predicts_witness:
  "\<exists>count t. count_freemap 0 blank_state = Inr (count, blank_state) \<and>
    bindS (format_freemap 2 0) (\<lambda>_. initialize_freemap 2 0) blank_state = Inr (count, t) \<and> good {} t \<and> freemap_ok t"
  by (rule count_freemap_predicts [OF blank_good blank_new_root])

end
