(* ===== verification/Stream_Hash.thy ===== *)
theory Stream_Hash
  imports Prelude
begin

text \<open>
  What the incremental hash routines share: the division of a message into blocks, and the contract
  of an init/update/final interface, under which feeding a message in any pieces gives the hash of
  the whole message.
\<close>

section \<open>Messages in blocks\<close>

text \<open>Absorb as many whole blocks as there are; the state and the rest of the message.\<close>

function absorb :: "nat \<Rightarrow> ('s \<Rightarrow> u8 list \<Rightarrow> 's) \<Rightarrow> 's \<Rightarrow> u8 list \<Rightarrow> 's \<times> u8 list" where
  "absorb n f s m =
     (if 0 < n \<and> n \<le> length m then absorb n f (f s (take n m)) (drop n m) else (s, m))"
  by pat_completeness auto

termination
  by (relation "measure (\<lambda>(n, _, _, m). length m)") auto

declare absorb.simps [simp del]

lemma absorb_short [simp]: "length m < n \<Longrightarrow> absorb n f s m = (s, m)"
  by (subst absorb.simps) simp

lemma absorb_block:
  "length b = n \<Longrightarrow> 0 < n \<Longrightarrow> absorb n f s (b @ m) = absorb n f (f s b) m"
  by (subst absorb.simps) simp

lemma absorb_append:
  "absorb n f s (m @ d) = (let (s', r) = absorb n f s m in absorb n f s' (r @ d))"
proof (induction n f s m rule: absorb.induct)
  case (1 n f s m)
  show ?case
  proof (cases "0 < n \<and> n \<le> length m")
    case True
    have "absorb n f s (m @ d) = absorb n f (f s (take n m)) (drop n m @ d)"
      by (subst absorb.simps) (use True in simp)
    also have "\<dots> = (let (s', r) = absorb n f s m in absorb n f s' (r @ d))"
      using "1.IH" [OF True] by (subst (2) absorb.simps) (use True in simp)
    finally show ?thesis .
  next
    case False
    then have "absorb n f s m = (s, m)" by (subst absorb.simps) auto
    then show ?thesis by simp
  qed
qed

lemma absorb_rest: "0 < n \<Longrightarrow> length (snd (absorb n f s m)) = length m mod n"
proof (induction n f s m rule: absorb.induct)
  case (1 n f s m)
  show ?case
  proof (cases "n \<le> length m")
    case True
    then show ?thesis using 1 by (subst absorb.simps) (simp add: le_mod_geq)
  next
    case False
    then show ?thesis by simp
  qed
qed

lemma absorb_fill:
  assumes "absorb n f H m = (s, r)" "length r + length d = n" "0 < n"
  shows "absorb n f H (m @ d) = (f s (r @ d), [])"
  unfolding absorb_append [of n f H m d] assms(1) using assms(2,3) absorb_block [of "r @ d" n f s "[]"] by simp

lemma absorb_more:
  assumes "absorb n f H m = (s, r)" "length r + length d < n"
  shows "absorb n f H (m @ d) = (s, r @ d)"
  unfolding absorb_append [of n f H m d] assms(1) using assms(2) by simp

lemma absorb_invariant:
  assumes "P s" and "\<And>s b. P s \<Longrightarrow> P (f s b)"
  shows "P (fst (absorb n f s m))"
  using assms
proof (induction n f s m rule: absorb.induct)
  case (1 n f s m)
  then show ?case by (subst absorb.simps) simp
qed

section \<open>The contract of an incremental hash\<close>

text \<open>
  \<open>rep c m\<close> says that the context \<open>c\<close> stands for the message \<open>m\<close> fed so far, and \<open>ok m\<close> that the message
  is one the digest is promised for.
\<close>

locale stream_hash =
  fixes init :: 'c and update :: "'c \<Rightarrow> u8 list \<Rightarrow> 'c" and digest :: "'c \<Rightarrow> 'd"
    and rep :: "'c \<Rightarrow> u8 list \<Rightarrow> bool" and spec :: "u8 list \<Rightarrow> 'd" and ok :: "u8 list \<Rightarrow> bool"
  assumes rep_init: "rep init []"
    and rep_update: "\<And>c m d. rep c m \<Longrightarrow> rep (update c d) (m @ d)"
    and rep_digest: "\<And>c m. rep c m \<Longrightarrow> ok m \<Longrightarrow> digest c = spec m"
begin

lemma rep_chunks: "rep c m \<Longrightarrow> rep (foldl update c ds) (m @ concat ds)"
proof (induction ds arbitrary: c m)
  case (Cons d ds)
  from Cons.IH [OF rep_update [OF Cons.prems, of d]] show ?case by simp
qed simp

lemma digest_chunks: "ok (concat ds) \<Longrightarrow> digest (foldl update init ds) = spec (concat ds)"
  using rep_digest [OF rep_chunks [OF rep_init, of ds]] by simp

end

end
