(* ===== verification/Sha2.thy ===== *)
theory Sha2
  imports Stream_Hash
begin

text \<open>
  The SHA-256, SHA-384 and SHA-512 routines of \<open>sys/crypto/sha2/sha2.c\<close> on a little endian machine.
  The block buffer of a context also holds the message schedule of the compression; a call that
  passes the buffer itself as the block reads word \<open>j\<close> of it just before it writes word \<open>j\<close>, so the
  block is passed by value here.
\<close>

section \<open>Byte order and logical functions\<close>

definition REVERSE32 :: "u32 \<Rightarrow> u32" where
  "REVERSE32 w =
     (let tmp = drop_bit 16 w OR push_bit 16 w in
      drop_bit 8 (tmp AND 0xff00ff00) OR push_bit 8 (tmp AND 0x00ff00ff))"

definition REVERSE64 :: "u64 \<Rightarrow> u64" where
  "REVERSE64 w =
     (let tmp = drop_bit 32 w OR push_bit 32 w;
          tmp = drop_bit 8 (tmp AND 0xff00ff00ff00ff00) OR push_bit 8 (tmp AND 0x00ff00ff00ff00ff) in
      drop_bit 16 (tmp AND 0xffff0000ffff0000) OR push_bit 16 (tmp AND 0x0000ffff0000ffff))"

definition ADDINC128 :: "u64 \<times> u64 \<Rightarrow> u64 \<Rightarrow> u64 \<times> u64" where
  "ADDINC128 w n = (let w0 = fst w + n in (w0, if w0 < n then snd w + 1 else snd w))"

definition S32 :: "nat \<Rightarrow> u32 \<Rightarrow> u32" where
  "S32 b x = drop_bit b x OR push_bit (32 - b) x"

definition S64 :: "nat \<Rightarrow> u64 \<Rightarrow> u64" where
  "S64 b x = drop_bit b x OR push_bit (64 - b) x"

definition Ch :: "'a::len word \<Rightarrow> 'a word \<Rightarrow> 'a word \<Rightarrow> 'a word" where
  "Ch x y z = (x AND y) XOR (NOT x AND z)"

definition Maj :: "'a::len word \<Rightarrow> 'a word \<Rightarrow> 'a word \<Rightarrow> 'a word" where
  "Maj x y z = (x AND y) XOR (x AND z) XOR (y AND z)"

definition Sigma0_256 :: "u32 \<Rightarrow> u32" where
  "Sigma0_256 x = S32 2 x XOR S32 13 x XOR S32 22 x"

definition Sigma1_256 :: "u32 \<Rightarrow> u32" where
  "Sigma1_256 x = S32 6 x XOR S32 11 x XOR S32 25 x"

definition sigma0_256 :: "u32 \<Rightarrow> u32" where
  "sigma0_256 x = S32 7 x XOR S32 18 x XOR drop_bit 3 x"

definition sigma1_256 :: "u32 \<Rightarrow> u32" where
  "sigma1_256 x = S32 17 x XOR S32 19 x XOR drop_bit 10 x"

definition Sigma0_512 :: "u64 \<Rightarrow> u64" where
  "Sigma0_512 x = S64 28 x XOR S64 34 x XOR S64 39 x"

definition Sigma1_512 :: "u64 \<Rightarrow> u64" where
  "Sigma1_512 x = S64 14 x XOR S64 18 x XOR S64 41 x"

definition sigma0_512 :: "u64 \<Rightarrow> u64" where
  "sigma0_512 x = S64 1 x XOR S64 8 x XOR drop_bit 7 x"

definition sigma1_512 :: "u64 \<Rightarrow> u64" where
  "sigma1_512 x = S64 19 x XOR S64 61 x XOR drop_bit 6 x"

section \<open>Constants\<close>

definition SHA256_BLOCK_LENGTH :: nat where
  "SHA256_BLOCK_LENGTH = 64"

definition SHA256_SHORT_BLOCK_LENGTH :: nat where
  "SHA256_SHORT_BLOCK_LENGTH = SHA256_BLOCK_LENGTH - 8"

definition SHA512_BLOCK_LENGTH :: nat where
  "SHA512_BLOCK_LENGTH = 128"

definition SHA512_SHORT_BLOCK_LENGTH :: nat where
  "SHA512_SHORT_BLOCK_LENGTH = SHA512_BLOCK_LENGTH - 16"

definition K256 :: "u32 list" where
  "K256 = concat
    [[0x428a2f98, 0x71374491, 0xb5c0fbcf, 0xe9b5dba5],
     [0x3956c25b, 0x59f111f1, 0x923f82a4, 0xab1c5ed5],
     [0xd807aa98, 0x12835b01, 0x243185be, 0x550c7dc3],
     [0x72be5d74, 0x80deb1fe, 0x9bdc06a7, 0xc19bf174],
     [0xe49b69c1, 0xefbe4786, 0x0fc19dc6, 0x240ca1cc],
     [0x2de92c6f, 0x4a7484aa, 0x5cb0a9dc, 0x76f988da],
     [0x983e5152, 0xa831c66d, 0xb00327c8, 0xbf597fc7],
     [0xc6e00bf3, 0xd5a79147, 0x06ca6351, 0x14292967],
     [0x27b70a85, 0x2e1b2138, 0x4d2c6dfc, 0x53380d13],
     [0x650a7354, 0x766a0abb, 0x81c2c92e, 0x92722c85],
     [0xa2bfe8a1, 0xa81a664b, 0xc24b8b70, 0xc76c51a3],
     [0xd192e819, 0xd6990624, 0xf40e3585, 0x106aa070],
     [0x19a4c116, 0x1e376c08, 0x2748774c, 0x34b0bcb5],
     [0x391c0cb3, 0x4ed8aa4a, 0x5b9cca4f, 0x682e6ff3],
     [0x748f82ee, 0x78a5636f, 0x84c87814, 0x8cc70208],
     [0x90befffa, 0xa4506ceb, 0xbef9a3f7, 0xc67178f2]]"

definition sha256_initial_hash_value :: "u32 list" where
  "sha256_initial_hash_value = [0x6a09e667, 0xbb67ae85, 0x3c6ef372, 0xa54ff53a,
     0x510e527f, 0x9b05688c, 0x1f83d9ab, 0x5be0cd19]"

definition K512 :: "u64 list" where
  "K512 = concat
    [[0x428a2f98d728ae22, 0x7137449123ef65cd],
     [0xb5c0fbcfec4d3b2f, 0xe9b5dba58189dbbc],
     [0x3956c25bf348b538, 0x59f111f1b605d019],
     [0x923f82a4af194f9b, 0xab1c5ed5da6d8118],
     [0xd807aa98a3030242, 0x12835b0145706fbe],
     [0x243185be4ee4b28c, 0x550c7dc3d5ffb4e2],
     [0x72be5d74f27b896f, 0x80deb1fe3b1696b1],
     [0x9bdc06a725c71235, 0xc19bf174cf692694],
     [0xe49b69c19ef14ad2, 0xefbe4786384f25e3],
     [0x0fc19dc68b8cd5b5, 0x240ca1cc77ac9c65],
     [0x2de92c6f592b0275, 0x4a7484aa6ea6e483],
     [0x5cb0a9dcbd41fbd4, 0x76f988da831153b5],
     [0x983e5152ee66dfab, 0xa831c66d2db43210],
     [0xb00327c898fb213f, 0xbf597fc7beef0ee4],
     [0xc6e00bf33da88fc2, 0xd5a79147930aa725],
     [0x06ca6351e003826f, 0x142929670a0e6e70],
     [0x27b70a8546d22ffc, 0x2e1b21385c26c926],
     [0x4d2c6dfc5ac42aed, 0x53380d139d95b3df],
     [0x650a73548baf63de, 0x766a0abb3c77b2a8],
     [0x81c2c92e47edaee6, 0x92722c851482353b],
     [0xa2bfe8a14cf10364, 0xa81a664bbc423001],
     [0xc24b8b70d0f89791, 0xc76c51a30654be30],
     [0xd192e819d6ef5218, 0xd69906245565a910],
     [0xf40e35855771202a, 0x106aa07032bbd1b8],
     [0x19a4c116b8d2d0c8, 0x1e376c085141ab53],
     [0x2748774cdf8eeb99, 0x34b0bcb5e19b48a8],
     [0x391c0cb3c5c95a63, 0x4ed8aa4ae3418acb],
     [0x5b9cca4f7763e373, 0x682e6ff3d6b2b8a3],
     [0x748f82ee5defb2fc, 0x78a5636f43172f60],
     [0x84c87814a1f0ab72, 0x8cc702081a6439ec],
     [0x90befffa23631e28, 0xa4506cebde82bde9],
     [0xbef9a3f7b2c67915, 0xc67178f2e372532b],
     [0xca273eceea26619c, 0xd186b8c721c0c207],
     [0xeada7dd6cde0eb1e, 0xf57d4f7fee6ed178],
     [0x06f067aa72176fba, 0x0a637dc5a2c898a6],
     [0x113f9804bef90dae, 0x1b710b35131c471b],
     [0x28db77f523047d84, 0x32caab7b40c72493],
     [0x3c9ebe0a15c9bebc, 0x431d67c49c100d4c],
     [0x4cc5d4becb3e42b6, 0x597f299cfc657e2a],
     [0x5fcb6fab3ad6faec, 0x6c44198c4a475817]]"

definition sha384_initial_hash_value :: "u64 list" where
  "sha384_initial_hash_value = [0xcbbb9d5dc1059ed8, 0x629a292a367cd507,
     0x9159015a3070dd17, 0x152fecd8f70e5939,
     0x67332667ffc00b31, 0x8eb44a8768581511,
     0xdb0c2e0d64f98fa7, 0x47b5481dbefa4fa4]"

definition sha512_initial_hash_value :: "u64 list" where
  "sha512_initial_hash_value = [0x6a09e667f3bcc908, 0xbb67ae8584caa73b,
     0x3c6ef372fe94f82b, 0xa54ff53a5f1d36f1,
     0x510e527fade682d1, 0x9b05688c2b3e6c1f,
     0x1f83d9abfb41bd6b, 0x5be0cd19137e2179]"

definition sha2_hex_digits :: string where
  "sha2_hex_digits = ''0123456789abcdef''"

section \<open>Contexts and registers\<close>

record SHA256_CTX =
  state256 :: "u32 list"
  bitcount256 :: u64
  buffer256 :: "u8 list"

record SHA512_CTX =
  state512 :: "u64 list"
  bitcount512 :: "u64 \<times> u64"
  buffer512 :: "u8 list"

type_synonym 'w regs = "'w \<times> 'w \<times> 'w \<times> 'w \<times> 'w \<times> 'w \<times> 'w \<times> 'w"

definition regs_of :: "'w list \<Rightarrow> 'w regs" where
  "regs_of st = (st ! 0, st ! 1, st ! 2, st ! 3, st ! 4, st ! 5, st ! 6, st ! 7)"

fun list_of_regs :: "'w regs \<Rightarrow> 'w list" where
  "list_of_regs (a, b, c, d, e, f, g, h) = [a, b, c, d, e, f, g, h]"

definition words32 :: "u8 list \<Rightarrow> u32 list" where
  "words32 bs = map (\<lambda>i. le_word (take 4 (drop (4 * i) bs))) [0..<16]"

definition words64 :: "u8 list \<Rightarrow> u64 list" where
  "words64 bs = map (\<lambda>i. le_word (take 8 (drop (8 * i) bs))) [0..<16]"

section \<open>SHA-256\<close>

definition SHA256_Init :: SHA256_CTX where
  "SHA256_Init = \<lparr>state256 = sha256_initial_hash_value, bitcount256 = 0, buffer256 = replicate 64 0\<rparr>"

text \<open>One application of the compression function to the registers, given \<open>K[j]\<close> and \<open>W[j]\<close>.\<close>

fun sha256_step :: "u32 \<Rightarrow> u32 \<Rightarrow> u32 regs \<Rightarrow> u32 regs" where
  "sha256_step k w (a, b, c, d, e, f, g, h) =
     (let T1 = h + Sigma1_256 e + Ch e f g + k + w;
          T2 = Sigma0_256 a + Maj a b c in
      (T1 + T2, a, b, c, d + T1, e, f, g))"

text \<open>Rounds 0 to 15, which load the block, and rounds 16 to 63, which expand it in place.\<close>

definition sha256_load_round :: "u32 list \<Rightarrow> nat \<Rightarrow> u32 regs \<times> u32 list \<Rightarrow> u32 regs \<times> u32 list" where
  "sha256_load_round data j = (\<lambda>(r, W).
     let W = W[j := REVERSE32 (data ! j)] in (sha256_step (K256 ! j) (W ! j) r, W))"

definition sha256_expand_round :: "nat \<Rightarrow> u32 regs \<times> u32 list \<Rightarrow> u32 regs \<times> u32 list" where
  "sha256_expand_round j = (\<lambda>(r, W).
     let s0 = sigma0_256 (W ! ((j + 1) mod 16));
         s1 = sigma1_256 (W ! ((j + 14) mod 16));
         W = W[j mod 16 := W ! (j mod 16) + (s1 + W ! ((j + 9) mod 16) + s0)] in
     (sha256_step (K256 ! j) (W ! (j mod 16)) r, W))"

definition SHA256_Transform :: "SHA256_CTX \<Rightarrow> u8 list \<Rightarrow> SHA256_CTX" where
  "SHA256_Transform context data =
     (let (r, W) = fold (sha256_load_round (words32 data)) [0..<16]
            (regs_of (state256 context), words32 (buffer256 context));
          (r, W) = fold sha256_expand_round [16..<64] (r, W) in
      context\<lparr>state256 := map2 (+) (state256 context) (list_of_regs r),
        buffer256 := concat (map (le_bytes 4) W)\<rparr>)"

text \<open>The loop over complete blocks and the left-overs after it.\<close>

function sha256_update_blocks :: "SHA256_CTX \<Rightarrow> u8 list \<Rightarrow> SHA256_CTX" where
  "sha256_update_blocks context data =
     (if length data \<ge> SHA256_BLOCK_LENGTH then
        let context = SHA256_Transform context (take SHA256_BLOCK_LENGTH data) in
        sha256_update_blocks
          (context\<lparr>bitcount256 := bitcount256 context + push_bit 3 (of_nat SHA256_BLOCK_LENGTH)\<rparr>)
          (drop SHA256_BLOCK_LENGTH data)
      else if length data > 0 then
        context\<lparr>buffer256 := overwrite (buffer256 context) 0 data,
          bitcount256 := bitcount256 context + push_bit 3 (of_nat (length data))\<rparr>
      else context)"
  by pat_completeness auto

termination
  by (relation "measure (length \<circ> snd)") (auto simp: SHA256_BLOCK_LENGTH_def)

declare sha256_update_blocks.simps [simp del]

definition SHA256_Update :: "SHA256_CTX \<Rightarrow> u8 list \<Rightarrow> SHA256_CTX" where
  "SHA256_Update context data =
     (if length data = 0 then context
      else
        let usedspace = unat (drop_bit 3 (bitcount256 context)) mod SHA256_BLOCK_LENGTH in
        if usedspace > 0 then
          let freespace = SHA256_BLOCK_LENGTH - usedspace in
          if length data \<ge> freespace then
            let context = context\<lparr>
                  buffer256 := overwrite (buffer256 context) usedspace (take freespace data),
                  bitcount256 := bitcount256 context + push_bit 3 (of_nat freespace)\<rparr> in
            sha256_update_blocks (SHA256_Transform context (buffer256 context)) (drop freespace data)
          else
            context\<lparr>buffer256 := overwrite (buffer256 context) usedspace data,
              bitcount256 := bitcount256 context + push_bit 3 (of_nat (length data))\<rparr>
        else sha256_update_blocks context data)"

text \<open>The padding: the context whose buffer is the last block but for the bit count.\<close>

definition sha256_pad_buffer :: "SHA256_CTX \<Rightarrow> nat \<Rightarrow> SHA256_CTX" where
  "sha256_pad_buffer context usedspace =
     (if usedspace > 0 then
        let context = context\<lparr>buffer256 := (buffer256 context)[usedspace := 0x80]\<rparr>;
            usedspace = usedspace + 1 in
        if usedspace \<le> SHA256_SHORT_BLOCK_LENGTH then
          context\<lparr>buffer256 := overwrite (buffer256 context) usedspace
            (replicate (SHA256_SHORT_BLOCK_LENGTH - usedspace) 0)\<rparr>
        else
          let context = (if usedspace < SHA256_BLOCK_LENGTH
                then context\<lparr>buffer256 := overwrite (buffer256 context) usedspace
                  (replicate (SHA256_BLOCK_LENGTH - usedspace) 0)\<rparr>
                else context);
              context = SHA256_Transform context (buffer256 context) in
          context\<lparr>buffer256 := overwrite (buffer256 context) 0 (replicate SHA256_SHORT_BLOCK_LENGTH 0)\<rparr>
      else
        let context = context\<lparr>
              buffer256 := overwrite (buffer256 context) 0 (replicate SHA256_SHORT_BLOCK_LENGTH 0)\<rparr> in
        context\<lparr>buffer256 := (buffer256 context)[0 := 0x80]\<rparr>)"

definition SHA256_ZERO :: SHA256_CTX where
  "SHA256_ZERO = \<lparr>state256 = replicate 8 0, bitcount256 = 0, buffer256 = replicate 64 0\<rparr>"

text \<open>The digest if one is asked for, and the context, which is wiped in any case.\<close>

definition SHA256_Final :: "bool \<Rightarrow> SHA256_CTX \<Rightarrow> u8 list option \<times> SHA256_CTX" where
  "SHA256_Final want_digest context =
     (if want_digest then
        let usedspace = unat (drop_bit 3 (bitcount256 context)) mod SHA256_BLOCK_LENGTH;
            context = context\<lparr>bitcount256 := REVERSE64 (bitcount256 context)\<rparr>;
            context = sha256_pad_buffer context usedspace;
            context = context\<lparr>buffer256 := overwrite (buffer256 context) SHA256_SHORT_BLOCK_LENGTH
              (le_bytes 8 (bitcount256 context))\<rparr>;
            context = SHA256_Transform context (buffer256 context) in
        (Some (concat (map (\<lambda>j. le_bytes 4 (REVERSE32 (state256 context ! j))) [0..<8])), SHA256_ZERO)
      else (None, SHA256_ZERO))"

text \<open>
  The caller's buffer and the position of the pointer in it: \<open>*buffer++ = c\<close>.  A write behind the end of
  the buffer ends the run.
\<close>

definition put_char :: "char \<Rightarrow> string \<times> nat \<Rightarrow> (string \<times> nat) run" where
  "put_char c b =
     (case b of (buffer, p) \<Rightarrow>
        if p < length buffer then Inr (buffer[p := c], p + 1) else Inl (Out_of_bounds ''buffer''))"

fun sha2_hex :: "u8 list \<Rightarrow> string \<times> nat \<Rightarrow> (string \<times> nat) run" where
  "sha2_hex [] b = Inr b"
| "sha2_hex (d # digest) b =
     bind_run (put_char (sha2_hex_digits ! unat (drop_bit 4 (d AND 0xf0))) b) (\<lambda>b.
     bind_run (put_char (sha2_hex_digits ! unat (d AND 0x0f)) b) (\<lambda>b.
     sha2_hex digest b))"

text \<open>The buffer with the string, and the position of the pointer that is returned.\<close>

definition sha2_string :: "u8 list \<Rightarrow> string \<Rightarrow> (string \<times> nat) run" where
  "sha2_string digest buffer =
     bind_run (sha2_hex digest (buffer, 0)) (\<lambda>(buffer, p).
     bind_run (put_char (CHR 0x00) (buffer, p)) (\<lambda>(buffer, _).
     Inr (buffer, p)))"

definition SHA256_End :: "string option \<Rightarrow> SHA256_CTX \<Rightarrow> ((string \<times> nat) option \<times> SHA256_CTX) run" where
  "SHA256_End buffer context =
     (case buffer of
        Some buffer \<Rightarrow>
          let (digest, context) = SHA256_Final True context in
          bind_run (sha2_string (the digest) buffer) (\<lambda>b. Inr (Some b, context))
      | None \<Rightarrow> Inr (None, SHA256_ZERO))"

definition SHA256_Data :: "u8 list \<Rightarrow> string option \<Rightarrow> (string \<times> nat) option run" where
  "SHA256_Data data digest =
     bind_run (SHA256_End digest (SHA256_Update SHA256_Init data)) (\<lambda>(b, _). Inr b)"

section \<open>SHA-512 and SHA-384\<close>

definition SHA512_Init :: SHA512_CTX where
  "SHA512_Init = \<lparr>state512 = sha512_initial_hash_value, bitcount512 = (0, 0), buffer512 = replicate 128 0\<rparr>"

text \<open>One application of the compression function to the registers, given \<open>K[j]\<close> and \<open>W[j]\<close>.\<close>

fun sha512_step :: "u64 \<Rightarrow> u64 \<Rightarrow> u64 regs \<Rightarrow> u64 regs" where
  "sha512_step k w (a, b, c, d, e, f, g, h) =
     (let T1 = h + Sigma1_512 e + Ch e f g + k + w;
          T2 = Sigma0_512 a + Maj a b c in
      (T1 + T2, a, b, c, d + T1, e, f, g))"

text \<open>Rounds 0 to 15, which load the block, and rounds 16 to 79, which expand it in place.\<close>

definition sha512_load_round :: "u64 list \<Rightarrow> nat \<Rightarrow> u64 regs \<times> u64 list \<Rightarrow> u64 regs \<times> u64 list" where
  "sha512_load_round data j = (\<lambda>(r, W).
     let W = W[j := REVERSE64 (data ! j)] in (sha512_step (K512 ! j) (W ! j) r, W))"

definition sha512_expand_round :: "nat \<Rightarrow> u64 regs \<times> u64 list \<Rightarrow> u64 regs \<times> u64 list" where
  "sha512_expand_round j = (\<lambda>(r, W).
     let s0 = sigma0_512 (W ! ((j + 1) mod 16));
         s1 = sigma1_512 (W ! ((j + 14) mod 16));
         W = W[j mod 16 := W ! (j mod 16) + (s1 + W ! ((j + 9) mod 16) + s0)] in
     (sha512_step (K512 ! j) (W ! (j mod 16)) r, W))"

definition SHA512_Transform :: "SHA512_CTX \<Rightarrow> u8 list \<Rightarrow> SHA512_CTX" where
  "SHA512_Transform context data =
     (let (r, W) = fold (sha512_load_round (words64 data)) [0..<16]
            (regs_of (state512 context), words64 (buffer512 context));
          (r, W) = fold sha512_expand_round [16..<80] (r, W) in
      context\<lparr>state512 := map2 (+) (state512 context) (list_of_regs r),
        buffer512 := concat (map (le_bytes 8) W)\<rparr>)"

text \<open>The loop over complete blocks and the left-overs after it.\<close>

function sha512_update_blocks :: "SHA512_CTX \<Rightarrow> u8 list \<Rightarrow> SHA512_CTX" where
  "sha512_update_blocks context data =
     (if length data \<ge> SHA512_BLOCK_LENGTH then
        let context = SHA512_Transform context (take SHA512_BLOCK_LENGTH data) in
        sha512_update_blocks
          (context\<lparr>bitcount512 := ADDINC128 (bitcount512 context) (push_bit 3 (of_nat SHA512_BLOCK_LENGTH))\<rparr>)
          (drop SHA512_BLOCK_LENGTH data)
      else if length data > 0 then
        context\<lparr>buffer512 := overwrite (buffer512 context) 0 data,
          bitcount512 := ADDINC128 (bitcount512 context) (push_bit 3 (of_nat (length data)))\<rparr>
      else context)"
  by pat_completeness auto

termination
  by (relation "measure (length \<circ> snd)") (auto simp: SHA512_BLOCK_LENGTH_def)

declare sha512_update_blocks.simps [simp del]

definition SHA512_Update :: "SHA512_CTX \<Rightarrow> u8 list \<Rightarrow> SHA512_CTX" where
  "SHA512_Update context data =
     (if length data = 0 then context
      else
        let usedspace = unat (drop_bit 3 (fst (bitcount512 context))) mod SHA512_BLOCK_LENGTH in
        if usedspace > 0 then
          let freespace = SHA512_BLOCK_LENGTH - usedspace in
          if length data \<ge> freespace then
            let context = context\<lparr>
                  buffer512 := overwrite (buffer512 context) usedspace (take freespace data),
                  bitcount512 := ADDINC128 (bitcount512 context) (push_bit 3 (of_nat freespace))\<rparr> in
            sha512_update_blocks (SHA512_Transform context (buffer512 context)) (drop freespace data)
          else
            context\<lparr>buffer512 := overwrite (buffer512 context) usedspace data,
              bitcount512 := ADDINC128 (bitcount512 context) (push_bit 3 (of_nat (length data)))\<rparr>
        else sha512_update_blocks context data)"

text \<open>The padding: the context whose buffer is the last block but for the bit count.\<close>

definition sha512_pad_buffer :: "SHA512_CTX \<Rightarrow> nat \<Rightarrow> SHA512_CTX" where
  "sha512_pad_buffer context usedspace =
     (if usedspace > 0 then
        let context = context\<lparr>buffer512 := (buffer512 context)[usedspace := 0x80]\<rparr>;
            usedspace = usedspace + 1 in
        if usedspace \<le> SHA512_SHORT_BLOCK_LENGTH then
          context\<lparr>buffer512 := overwrite (buffer512 context) usedspace
            (replicate (SHA512_SHORT_BLOCK_LENGTH - usedspace) 0)\<rparr>
        else
          let context = (if usedspace < SHA512_BLOCK_LENGTH
                then context\<lparr>buffer512 := overwrite (buffer512 context) usedspace
                  (replicate (SHA512_BLOCK_LENGTH - usedspace) 0)\<rparr>
                else context);
              context = SHA512_Transform context (buffer512 context) in
          context\<lparr>buffer512 := overwrite (buffer512 context) 0 (replicate (SHA512_BLOCK_LENGTH - 2) 0)\<rparr>
      else
        let context = context\<lparr>
              buffer512 := overwrite (buffer512 context) 0 (replicate SHA512_SHORT_BLOCK_LENGTH 0)\<rparr> in
        context\<lparr>buffer512 := (buffer512 context)[0 := 0x80]\<rparr>)"

definition SHA512_Last :: "SHA512_CTX \<Rightarrow> SHA512_CTX" where
  "SHA512_Last context =
     (let usedspace = unat (drop_bit 3 (fst (bitcount512 context))) mod SHA512_BLOCK_LENGTH;
          context = context\<lparr>bitcount512 :=
            (REVERSE64 (fst (bitcount512 context)), REVERSE64 (snd (bitcount512 context)))\<rparr>;
          context = sha512_pad_buffer context usedspace;
          context = context\<lparr>buffer512 := overwrite (buffer512 context) SHA512_SHORT_BLOCK_LENGTH
            (le_bytes 8 (snd (bitcount512 context)))\<rparr>;
          context = context\<lparr>buffer512 := overwrite (buffer512 context) (SHA512_SHORT_BLOCK_LENGTH + 8)
            (le_bytes 8 (fst (bitcount512 context)))\<rparr> in
      SHA512_Transform context (buffer512 context))"

definition SHA512_ZERO :: SHA512_CTX where
  "SHA512_ZERO = \<lparr>state512 = replicate 8 0, bitcount512 = (0, 0), buffer512 = replicate 128 0\<rparr>"

definition SHA512_Final :: "bool \<Rightarrow> SHA512_CTX \<Rightarrow> u8 list option \<times> SHA512_CTX" where
  "SHA512_Final want_digest context =
     (if want_digest
      then (Some (concat (map (\<lambda>j. le_bytes 8 (REVERSE64 (state512 (SHA512_Last context) ! j))) [0..<8])), SHA512_ZERO)
      else (None, SHA512_ZERO))"

definition SHA512_End :: "string option \<Rightarrow> SHA512_CTX \<Rightarrow> ((string \<times> nat) option \<times> SHA512_CTX) run" where
  "SHA512_End buffer context =
     (case buffer of
        Some buffer \<Rightarrow>
          let (digest, context) = SHA512_Final True context in
          bind_run (sha2_string (the digest) buffer) (\<lambda>b. Inr (Some b, context))
      | None \<Rightarrow> Inr (None, SHA512_ZERO))"

definition SHA512_Data :: "u8 list \<Rightarrow> string option \<Rightarrow> (string \<times> nat) option run" where
  "SHA512_Data data digest =
     bind_run (SHA512_End digest (SHA512_Update SHA512_Init data)) (\<lambda>(b, _). Inr b)"

definition SHA384_Init :: SHA512_CTX where
  "SHA384_Init = \<lparr>state512 = sha384_initial_hash_value, bitcount512 = (0, 0), buffer512 = replicate 128 0\<rparr>"

definition SHA384_Update :: "SHA512_CTX \<Rightarrow> u8 list \<Rightarrow> SHA512_CTX" where
  "SHA384_Update context data = SHA512_Update context data"

definition SHA384_Final :: "bool \<Rightarrow> SHA512_CTX \<Rightarrow> u8 list option \<times> SHA512_CTX" where
  "SHA384_Final want_digest context =
     (if want_digest
      then (Some (concat (map (\<lambda>j. le_bytes 8 (REVERSE64 (state512 (SHA512_Last context) ! j))) [0..<6])), SHA512_ZERO)
      else (None, SHA512_ZERO))"

definition SHA384_End :: "string option \<Rightarrow> SHA512_CTX \<Rightarrow> ((string \<times> nat) option \<times> SHA512_CTX) run" where
  "SHA384_End buffer context =
     (case buffer of
        Some buffer \<Rightarrow>
          let (digest, context) = SHA384_Final True context in
          bind_run (sha2_string (the digest) buffer) (\<lambda>b. Inr (Some b, context))
      | None \<Rightarrow> Inr (None, SHA512_ZERO))"

definition SHA384_Data :: "u8 list \<Rightarrow> string option \<Rightarrow> (string \<times> nat) option run" where
  "SHA384_Data data digest =
     bind_run (SHA384_End digest (SHA384_Update SHA384_Init data)) (\<lambda>(b, _). Inr b)"

section \<open>The unrolled transforms\<close>

text \<open>
  The variant compiled with \<open>SHA2_UNROLL_TRANSFORM\<close>: eight calls of a round macro per turn, in which
  the registers change their roles instead of moving.
\<close>

definition unrolled_rounds ::
    "(nat \<Rightarrow> 'w regs \<times> 'w list \<Rightarrow> 'w regs \<times> 'w list) \<Rightarrow> nat \<Rightarrow> 'w regs \<times> 'w list \<Rightarrow> 'w regs \<times> 'w list" where
  "unrolled_rounds ROUND j = (\<lambda>((a, b, c, d, e, f, g, h), W).
     let ((a, b, c, d, e, f, g, h), W) = ROUND j ((a, b, c, d, e, f, g, h), W);
         ((h, a, b, c, d, e, f, g), W) = ROUND (j + 1) ((h, a, b, c, d, e, f, g), W);
         ((g, h, a, b, c, d, e, f), W) = ROUND (j + 2) ((g, h, a, b, c, d, e, f), W);
         ((f, g, h, a, b, c, d, e), W) = ROUND (j + 3) ((f, g, h, a, b, c, d, e), W);
         ((e, f, g, h, a, b, c, d), W) = ROUND (j + 4) ((e, f, g, h, a, b, c, d), W);
         ((d, e, f, g, h, a, b, c), W) = ROUND (j + 5) ((d, e, f, g, h, a, b, c), W);
         ((c, d, e, f, g, h, a, b), W) = ROUND (j + 6) ((c, d, e, f, g, h, a, b), W);
         ((b, c, d, e, f, g, h, a), W) = ROUND (j + 7) ((b, c, d, e, f, g, h, a), W) in
     ((a, b, c, d, e, f, g, h), W))"

fun sha256_macro :: "u32 \<Rightarrow> u32 \<Rightarrow> u32 regs \<Rightarrow> u32 regs" where
  "sha256_macro k w (a, b, c, d, e, f, g, h) =
     (let T1 = h + Sigma1_256 e + Ch e f g + k + w in
      (a, b, c, d + T1, e, f, g, T1 + Sigma0_256 a + Maj a b c))"

definition ROUND256_0_TO_15 :: "u32 list \<Rightarrow> nat \<Rightarrow> u32 regs \<times> u32 list \<Rightarrow> u32 regs \<times> u32 list" where
  "ROUND256_0_TO_15 data j = (\<lambda>(r, W).
     let W = W[j := REVERSE32 (data ! j)] in (sha256_macro (K256 ! j) (W ! j) r, W))"

definition ROUND256 :: "nat \<Rightarrow> u32 regs \<times> u32 list \<Rightarrow> u32 regs \<times> u32 list" where
  "ROUND256 j = (\<lambda>(r, W).
     let s0 = sigma0_256 (W ! ((j + 1) mod 16));
         s1 = sigma1_256 (W ! ((j + 14) mod 16));
         W = W[j mod 16 := W ! (j mod 16) + (s1 + W ! ((j + 9) mod 16) + s0)] in
     (sha256_macro (K256 ! j) (W ! (j mod 16)) r, W))"

definition SHA256_Transform_unrolled :: "SHA256_CTX \<Rightarrow> u8 list \<Rightarrow> SHA256_CTX" where
  "SHA256_Transform_unrolled context data =
     (let (r, W) = fold (unrolled_rounds (ROUND256_0_TO_15 (words32 data))) [0, 8]
            (regs_of (state256 context), words32 (buffer256 context));
          (r, W) = fold (unrolled_rounds ROUND256) [16, 24, 32, 40, 48, 56] (r, W) in
      context\<lparr>state256 := map2 (+) (state256 context) (list_of_regs r),
        buffer256 := concat (map (le_bytes 4) W)\<rparr>)"

fun sha512_macro :: "u64 \<Rightarrow> u64 \<Rightarrow> u64 regs \<Rightarrow> u64 regs" where
  "sha512_macro k w (a, b, c, d, e, f, g, h) =
     (let T1 = h + Sigma1_512 e + Ch e f g + k + w in
      (a, b, c, d + T1, e, f, g, T1 + Sigma0_512 a + Maj a b c))"

definition ROUND512_0_TO_15 :: "u64 list \<Rightarrow> nat \<Rightarrow> u64 regs \<times> u64 list \<Rightarrow> u64 regs \<times> u64 list" where
  "ROUND512_0_TO_15 data j = (\<lambda>(r, W).
     let W = W[j := REVERSE64 (data ! j)] in (sha512_macro (K512 ! j) (W ! j) r, W))"

definition ROUND512 :: "nat \<Rightarrow> u64 regs \<times> u64 list \<Rightarrow> u64 regs \<times> u64 list" where
  "ROUND512 j = (\<lambda>(r, W).
     let s0 = sigma0_512 (W ! ((j + 1) mod 16));
         s1 = sigma1_512 (W ! ((j + 14) mod 16));
         W = W[j mod 16 := W ! (j mod 16) + (s1 + W ! ((j + 9) mod 16) + s0)] in
     (sha512_macro (K512 ! j) (W ! (j mod 16)) r, W))"

definition SHA512_Transform_unrolled :: "SHA512_CTX \<Rightarrow> u8 list \<Rightarrow> SHA512_CTX" where
  "SHA512_Transform_unrolled context data =
     (let (r, W) = fold (unrolled_rounds (ROUND512_0_TO_15 (words64 data))) [0, 8]
            (regs_of (state512 context), words64 (buffer512 context));
          (r, W) = fold (unrolled_rounds ROUND512) [16, 24, 32, 40, 48, 56, 64, 72] (r, W) in
      context\<lparr>state512 := map2 (+) (state512 context) (list_of_regs r),
        buffer512 := concat (map (le_bytes 8) W)\<rparr>)"

section \<open>Byte order lemmas\<close>

definition be_word :: "u8 list \<Rightarrow> 'a::len word" where
  "be_word bs = le_word (rev bs)"

definition be_bytes :: "nat \<Rightarrow> 'a::len word \<Rightarrow> u8 list" where
  "be_bytes n w = rev (le_bytes n w)"

lemma length_be_bytes [simp]: "length (be_bytes n w) = n"
  by (simp add: be_bytes_def)

lemma upt_bits:
  "[0..<32] = [0, 1, 2, 3, 4, 5, 6, 7, 8, 9, 10, 11, 12, 13, 14, 15, 16, 17, 18, 19, 20, 21, 22, 23, 24, 25,
     26, 27, 28, 29, 30, 31]"
  "[0..<64] = [0, 1, 2, 3, 4, 5, 6, 7, 8, 9, 10, 11, 12, 13, 14, 15, 16, 17, 18, 19, 20, 21, 22, 23, 24, 25,
     26, 27, 28, 29, 30, 31, 32, 33, 34, 35, 36, 37, 38, 39, 40, 41, 42, 43, 44, 45, 46, 47, 48, 49,
     50, 51, 52, 53, 54, 55, 56, 57, 58, 59, 60, 61, 62, 63]"
  by code_simp+

lemma no_bit_32: "32 \<le> n \<Longrightarrow> \<not> bit (w :: u32) n"
  using bit_imp_le_length [of w n] by auto

lemma no_bit_64: "64 \<le> n \<Longrightarrow> \<not> bit (w :: u64) n"
  using bit_imp_le_length [of w n] by auto

lemma bit_REVERSE32: "n < 32 \<Longrightarrow> bit (REVERSE32 w) n = bit w (8 * (3 - n div 8) + n mod 8)"
proof -
  have "\<forall>n\<in>set [0..<32]. bit (REVERSE32 w) n = bit w (8 * (3 - n div 8) + n mod 8)"
    unfolding REVERSE32_def Let_def upt_bits
    by (simp add: no_bit_32 bit_or_iff bit_and_iff bit_drop_bit_eq bit_push_bit_iff)
      (simp add: numeral_2_eq_2)
  then show "n < 32 \<Longrightarrow> ?thesis" by simp
qed

lemma bit_REVERSE64: "n < 64 \<Longrightarrow> bit (REVERSE64 w) n = bit w (8 * (7 - n div 8) + n mod 8)"
proof -
  have "\<forall>n\<in>set [0..<64]. bit (REVERSE64 w) n = bit w (8 * (7 - n div 8) + n mod 8)"
    unfolding REVERSE64_def Let_def upt_bits
    by (simp add: no_bit_64 bit_or_iff bit_and_iff bit_drop_bit_eq bit_push_bit_iff)
      (simp add: numeral_2_eq_2)
  then show "n < 64 \<Longrightarrow> ?thesis" by simp
qed

lemma REVERSE32_le_word: "length bs = 4 \<Longrightarrow> REVERSE32 (le_word bs) = be_word bs"
proof (rule bit_word_eqI)
  fix n assume bs: "length bs = 4" and n: "n < LENGTH(32)"
  have "(8 * (3 - n div 8) + n mod 8) div 8 = 3 - n div 8" "(8 * (3 - n div 8) + n mod 8) mod 8 = n mod 8"
    by simp_all
  moreover have "n div 8 < 4" using n by simp
  moreover have "8 * (3 - n div 8) + n mod 8 < 32" by (cases "n div 8 = 0") auto
  ultimately show "bit (REVERSE32 (le_word bs)) n = bit (be_word bs :: u32) n"
    using bs n by (simp add: bit_REVERSE32 be_word_def bit_le_word rev_nth)
qed

lemma REVERSE64_le_word: "length bs = 8 \<Longrightarrow> REVERSE64 (le_word bs) = be_word bs"
proof (rule bit_word_eqI)
  fix n assume bs: "length bs = 8" and n: "n < LENGTH(64)"
  have "(8 * (7 - n div 8) + n mod 8) div 8 = 7 - n div 8" "(8 * (7 - n div 8) + n mod 8) mod 8 = n mod 8"
    by simp_all
  moreover have "n div 8 < 8" using n by simp
  moreover have "8 * (7 - n div 8) + n mod 8 < 64" by (cases "n div 8 = 0") auto
  ultimately show "bit (REVERSE64 (le_word bs)) n = bit (be_word bs :: u64) n"
    using bs n by (simp add: bit_REVERSE64 be_word_def bit_le_word rev_nth)
qed

lemma le_bytes_REVERSE32: "le_bytes 4 (REVERSE32 w) = be_bytes 4 w"
proof -
  have "REVERSE32 w = le_word (rev (le_bytes 4 w))"
    using REVERSE32_le_word [of "le_bytes 4 w"] by (simp add: le_word_le_bytes be_word_def)
  then show ?thesis by (simp add: le_bytes_le_word be_bytes_def)
qed

lemma le_bytes_REVERSE64: "le_bytes 8 (REVERSE64 w) = be_bytes 8 w"
proof -
  have "REVERSE64 w = le_word (rev (le_bytes 8 w))"
    using REVERSE64_le_word [of "le_bytes 8 w"] by (simp add: le_word_le_bytes be_word_def)
  then show ?thesis by (simp add: le_bytes_le_word be_bytes_def)
qed

end
