(* ===== verification/Sha256.thy ===== *)
theory Sha256
  imports Sha2
begin

text \<open>
  SHA-256 as FIPS 180 defines it, and that the incremental routines compute it.
\<close>

section \<open>The specification of SHA-256\<close>

text \<open>The message schedule, the compression function and the padding of FIPS 180.\<close>

function sha256_schedule :: "(nat \<Rightarrow> u32) \<Rightarrow> nat \<Rightarrow> u32" where
  "sha256_schedule M t =
     (if t < 16 then M t
      else sigma1_256 (sha256_schedule M (t - 2)) + sha256_schedule M (t - 7) +
        sigma0_256 (sha256_schedule M (t - 15)) + sha256_schedule M (t - 16))"
  by pat_completeness auto

termination
  by (relation "measure snd") auto

declare sha256_schedule.simps [simp del]

definition sha256_compress :: "u32 list \<Rightarrow> u8 list \<Rightarrow> u32 list" where
  "sha256_compress H block =
     map2 (+) H (list_of_regs (fold
       (\<lambda>t. sha256_step (K256 ! t) (sha256_schedule (\<lambda>i. be_word (take 4 (drop (4 * i) block))) t))
       [0..<64] (regs_of H)))"

definition sha256_pad :: "u8 list \<Rightarrow> u8 list" where
  "sha256_pad m = m @ [0x80] @ replicate ((119 - length m mod 64) mod 64) 0 @
     be_bytes 8 (of_nat (8 * length m) :: u64)"

definition sha256 :: "u8 list \<Rightarrow> u8 list" where
  "sha256 m = concat (map (be_bytes 4)
     (fst (absorb 64 sha256_compress sha256_initial_hash_value (sha256_pad m))))"

section \<open>SHA-256 implements its specification\<close>

lemma sha256_load_rounds:
  assumes "j \<le> 16" and "length W = 16"
  shows "\<exists>W'. fold (sha256_load_round data) [0..<j] (r, W) =
      (fold (\<lambda>t. sha256_step (K256 ! t) (REVERSE32 (data ! t))) [0..<j] r, W') \<and>
    length W' = 16 \<and> (\<forall>i<j. W' ! i = REVERSE32 (data ! i))"
  using assms(1)
proof (induction j)
  case (Suc j)
  then obtain W' where W': "fold (sha256_load_round data) [0..<j] (r, W) =
      (fold (\<lambda>t. sha256_step (K256 ! t) (REVERSE32 (data ! t))) [0..<j] r, W')"
    "length W' = 16" "\<forall>i<j. W' ! i = REVERSE32 (data ! i)" by auto
  have "fold (sha256_load_round data) [0..<Suc j] (r, W) = sha256_load_round data j
      (fold (\<lambda>t. sha256_step (K256 ! t) (REVERSE32 (data ! t))) [0..<j] r, W')"
    using W'(1) by simp
  then show ?case
    unfolding sha256_load_round_def Let_def
    using Suc.prems W'(2,3) by (auto simp: nth_list_update less_Suc_eq)
qed (simp add: assms)

lemma mod16_distinct:
  assumes "j - 16 \<le> s" "s < j" "16 \<le> j" "s \<noteq> j - 16"
  shows "s mod 16 \<noteq> j mod (16 :: nat)"
proof
  assume "s mod 16 = j mod 16"
  then have "16 dvd j - s" by (metis assms(2) less_imp_le mod_eq_dvd_iff_nat)
  moreover have "0 < j - s" "j - s < 16" using assms by auto
  ultimately show False by (auto dest: dvd_imp_le)
qed

lemma sha256_expand_rounds:
  assumes W: "length W = 16" "\<forall>t<16. W ! t = sha256_schedule M t" and "k \<le> 48"
  shows "\<exists>W'. fold sha256_expand_round [16..<16 + k] (r, W) =
      (fold (\<lambda>t. sha256_step (K256 ! t) (sha256_schedule M t)) [16..<16 + k] r, W') \<and>
    length W' = 16 \<and> (\<forall>t. k \<le> t \<longrightarrow> t < 16 + k \<longrightarrow> W' ! (t mod 16) = sha256_schedule M t)"
  using assms(3)
proof (induction k)
  case (Suc k)
  then obtain W' where f: "fold sha256_expand_round [16..<16 + k] (r, W) =
      (fold (\<lambda>t. sha256_step (K256 ! t) (sha256_schedule M t)) [16..<16 + k] r, W')"
    and W': "length W' = 16" "\<And>t. k \<le> t \<Longrightarrow> t < 16 + k \<Longrightarrow> W' ! (t mod 16) = sha256_schedule M t" by auto
  let ?j = "16 + k"
  have m: "(?j + 1) mod 16 = (k + 1) mod 16" "(?j + 14) mod 16 = (k + 14) mod 16"
    "(?j + 9) mod 16 = (k + 9) mod 16" "?j mod 16 = k mod 16"
    by (simp_all only: add.assoc mod_add_self1)
  have new: "W' ! (?j mod 16) + (sigma1_256 (W' ! ((?j + 14) mod 16)) + W' ! ((?j + 9) mod 16) +
      sigma0_256 (W' ! ((?j + 1) mod 16))) = sha256_schedule M ?j"
    unfolding m by (subst sha256_schedule.simps) (simp add: W'(2) add.commute add.left_commute)
  have "\<forall>t. Suc k \<le> t \<longrightarrow> t < 16 + Suc k \<longrightarrow>
      W'[?j mod 16 := sha256_schedule M ?j] ! (t mod 16) = sha256_schedule M t"
  proof (intro allI impI)
    fix t assume t: "Suc k \<le> t" "t < 16 + Suc k"
    show "W'[?j mod 16 := sha256_schedule M ?j] ! (t mod 16) = sha256_schedule M t"
    proof (cases "t = ?j")
      case False
      then have "t mod 16 \<noteq> ?j mod 16" using t by (intro mod16_distinct) auto
      then show ?thesis using t False W' by (simp add: nth_list_update)
    qed (simp add: W')
  qed
  moreover have "sha256_expand_round ?j (x, W') = (sha256_step (K256 ! ?j) (sha256_schedule M ?j) x,
      W'[?j mod 16 := sha256_schedule M ?j])" for x
    unfolding sha256_expand_round_def Let_def prod.case new using W'(1) by simp
  moreover have up: "[16..<16 + Suc k] = [16..<16 + k] @ [16 + k]"
    unfolding add_Suc_right by (rule upt_Suc_append) simp
  ultimately show ?case unfolding up fold_append o_apply f using W'(1) by simp
qed (use W in auto)

lemma words32_nth: "i < 16 \<Longrightarrow> words32 bs ! i = le_word (take 4 (drop (4 * i) bs))"
  by (simp add: words32_def)

lemma SHA256_Transform:
  assumes "length data = 64"
  shows "state256 (SHA256_Transform c data) = sha256_compress (state256 c) data"
    and "bitcount256 (SHA256_Transform c data) = bitcount256 c"
    and "length (buffer256 (SHA256_Transform c data)) = 64"
proof -
  let ?M = "\<lambda>i. be_word (take 4 (drop (4 * i) data)) :: u32"
  have M: "REVERSE32 (words32 data ! i) = ?M i" if "i < 16" for i
    using that assms by (simp add: words32_nth REVERSE32_le_word)
  obtain W1 where W1: "fold (sha256_load_round (words32 data)) [0..<16] (regs_of (state256 c), words32 (buffer256 c)) =
      (fold (\<lambda>t. sha256_step (K256 ! t) (REVERSE32 (words32 data ! t))) [0..<16] (regs_of (state256 c)), W1)"
    "length W1 = 16" "\<forall>i<16. W1 ! i = REVERSE32 (words32 data ! i)"
    using sha256_load_rounds [of 16 "words32 (buffer256 c)" "words32 data" "regs_of (state256 c)"]
    by (auto simp: words32_def)
  have s: "\<forall>t<16. W1 ! t = sha256_schedule ?M t"
    using W1(3) M by (subst sha256_schedule.simps) simp
  let ?r = "fold (\<lambda>t. sha256_step (K256 ! t) (REVERSE32 (words32 data ! t))) [0..<16] (regs_of (state256 c))"
  from sha256_expand_rounds [OF W1(2) s, of 48 ?r] obtain W2 where
    W2: "fold sha256_expand_round [16..<64] (?r, W1) =
      (fold (\<lambda>t. sha256_step (K256 ! t) (sha256_schedule ?M t)) [16..<64] ?r, W2)" "length W2 = 16" by auto
  have l: "fold (\<lambda>t. sha256_step (K256 ! t) (REVERSE32 (words32 data ! t))) [0..<16] r =
      fold (\<lambda>t. sha256_step (K256 ! t) (sha256_schedule ?M t)) [0..<16] r" for r
    by (rule fold_cong) (auto simp: M sha256_schedule.simps [of ?M])
  have "[0..<64] = [0..<16] @ [16..<64]" using upt_add_eq_append [of 0 16 48] by simp
  then have f: "fold (\<lambda>t. sha256_step (K256 ! t) (sha256_schedule ?M t)) [0..<64] (regs_of (state256 c)) =
      fold (\<lambda>t. sha256_step (K256 ! t) (sha256_schedule ?M t)) [16..<64] ?r"
    by (simp only: fold_append o_apply l)
  have T: "SHA256_Transform c data = c\<lparr>state256 := sha256_compress (state256 c) data,
      buffer256 := concat (map (le_bytes 4) W2)\<rparr>"
    unfolding SHA256_Transform_def W1(1) Let_def prod.case W2(1) sha256_compress_def f ..
  show "state256 (SHA256_Transform c data) = sha256_compress (state256 c) data"
    "bitcount256 (SHA256_Transform c data) = bitcount256 c"
    "length (buffer256 (SHA256_Transform c data)) = 64"
    unfolding T by (simp_all add: length_concat comp_def sum_list_triv W2(2))
qed

definition rep256 :: "SHA256_CTX \<Rightarrow> u8 list \<Rightarrow> bool" where
  "rep256 c m \<longleftrightarrow> length (buffer256 c) = 64 \<and> bitcount256 c = of_nat (8 * length m) \<and>
     absorb 64 sha256_compress sha256_initial_hash_value m = (state256 c, take (length m mod 64) (buffer256 c))"

lemma usedspace64: "unat (drop_bit 3 (of_nat (8 * n) :: u64)) mod 64 = n mod 64"
proof -
  have "unat (drop_bit 3 (of_nat (8 * n) :: u64)) = 8 * n mod 2 ^ 64 div 8"
    unfolding drop_bit_unat unat_of_nat by simp
  also have "\<dots> = n mod 2 ^ 61" using mult_mod_right [of 8 n "2 ^ 61"] by simp
  finally show ?thesis by (simp add: mod_mod_cancel)
qed

lemma push_bit_3: "push_bit 3 (of_nat n :: 'a::len word) = of_nat (8 * n)"
  by (simp add: push_bit_eq_mult)

lemma sha256_update_blocks:
  assumes "rep256 c m" and "length m mod 64 = 0"
  shows "rep256 (sha256_update_blocks c d) (m @ d)"
  using assms
proof (induction c d arbitrary: m rule: sha256_update_blocks.induct)
  case (1 c d)
  have a: "absorb 64 sha256_compress sha256_initial_hash_value m = (state256 c, [])"
    using 1(2,3) by (simp add: rep256_def)
  show ?case
  proof (cases "64 \<le> length d")
    case True
    let ?b = "take 64 d" and ?c = "SHA256_Transform c (take 64 d)"
    note T = SHA256_Transform [of ?b c]
    have "rep256 (?c\<lparr>bitcount256 := bitcount256 ?c + push_bit 3 (of_nat 64)\<rparr>) (m @ ?b)"
      using True 1(2,3) T absorb_fill [OF a, of ?b]
      by (simp add: rep256_def push_bit_3 mod_add_eq [symmetric])
    from "1.IH" [unfolded SHA256_BLOCK_LENGTH_def, OF True refl this] True 1(3) show ?thesis
      by (subst sha256_update_blocks.simps) (simp add: SHA256_BLOCK_LENGTH_def Let_def mod_add_eq [symmetric])
  next
    case False
    have m: "(length m + length d) mod 64 = length d" using False 1(3) by (simp add: mod_add_eq [symmetric])
    show ?thesis
      using False 1(2) m absorb_more [OF a, of d]
      by (subst sha256_update_blocks.simps)
        (auto simp: SHA256_BLOCK_LENGTH_def rep256_def push_bit_3 overwrite_def)
  qed
qed

lemma SHA256_Update_rep:
  assumes r: "rep256 c m"
  shows "rep256 (SHA256_Update c d) (m @ d)"
proof -
  define u where "u = length m mod 64"
  have u: "u < 64" by (simp add: u_def)
  have um: "(length m + k) mod 64 = (u + k) mod 64" for k unfolding u_def by (rule mod_add_left_eq [symmetric])
  have used: "unat (drop_bit 3 (bitcount256 c)) mod 64 = u"
    using r usedspace64 [of "length m"] by (simp add: rep256_def u_def)
  have a: "absorb 64 sha256_compress sha256_initial_hash_value m = (state256 c, take u (buffer256 c))"
    and b: "length (buffer256 c) = 64" "bitcount256 c = of_nat (8 * length m)"
    using r by (simp_all add: rep256_def u_def)
  note U = SHA256_Update_def SHA256_BLOCK_LENGTH_def used Let_def
  consider "d = []" | "u = 0" "d \<noteq> []" | "0 < u" "64 - u \<le> length d" "d \<noteq> []" | "0 < u" "length d < 64 - u" "d \<noteq> []"
    by linarith
  then show ?thesis
  proof cases
    case 1
    then show ?thesis using r by (simp add: SHA256_Update_def)
  next
    case 2
    then show ?thesis using sha256_update_blocks [OF r, of d] unfolding U by (simp flip: u_def)
  next
    case 3
    let ?f = "64 - u"
    let ?b = "overwrite (buffer256 c) u (take ?f d)"
    let ?c = "c\<lparr>buffer256 := ?b, bitcount256 := bitcount256 c + push_bit 3 (of_nat ?f)\<rparr>"
    have len: "length (take ?f d) = ?f" using 3 by simp
    have full: "?b = take u (buffer256 c) @ take ?f d" using overwrite_full [of u "take ?f d" "buffer256 c"] len b u by simp
    have mod: "length (m @ take ?f d) mod 64 = 0" using um [of ?f] u len by simp
    have "length ?b = 64" using b u len by simp
    note T = SHA256_Transform [OF this, of ?c]
    have "absorb 64 sha256_compress sha256_initial_hash_value (m @ take ?f d) = (sha256_compress (state256 c) ?b, [])"
      unfolding full by (rule absorb_fill [OF a]) (use len b u in auto)
    then have "rep256 (SHA256_Transform ?c ?b) (m @ take ?f d)"
      unfolding rep256_def mod T using b len by (simp add: push_bit_3)
    from sha256_update_blocks [OF this mod, of "drop ?f d"] 3 show ?thesis
      unfolding U by simp
  next
    case 4
    have "length (m @ d) mod 64 = u + length d" using 4(2) um [of "length d"] by simp
    moreover have "absorb 64 sha256_compress sha256_initial_hash_value (m @ d) = (state256 c, take u (buffer256 c) @ d)"
      by (rule absorb_more [OF a]) (use 4 b u in auto)
    ultimately show ?thesis
      unfolding rep256_def U using 4 b take_overwrite [of u "buffer256 c" d]
      by (simp add: push_bit_3)
  qed
qed

lemma length_list_of_regs [simp]: "length (list_of_regs r) = 8"
  by (cases r rule: list_of_regs.cases) simp

lemma map_state: "n \<le> length xs \<Longrightarrow> map (\<lambda>j. f (xs ! j)) [0..<n] = map f (take n xs)"
  by (rule nth_equalityI) simp_all

lemma sha256_hash_length: "length (fst (absorb 64 sha256_compress sha256_initial_hash_value m)) = 8"
  by (rule absorb_invariant) (simp_all add: sha256_compress_def sha256_initial_hash_value_def)

lemma SHA256_Final_rep:
  assumes r: "rep256 c m"
  shows "SHA256_Final True c = (Some (sha256 m), SHA256_ZERO)"
proof -
  define u where "u = length m mod 64"
  have u: "u < 64" by (simp add: u_def)
  have used: "unat (drop_bit 3 (bitcount256 c)) mod SHA256_BLOCK_LENGTH = u"
    using r usedspace64 [of "length m"] by (simp add: rep256_def u_def SHA256_BLOCK_LENGTH_def)
  have a: "absorb 64 sha256_compress sha256_initial_hash_value m = (state256 c, take u (buffer256 c))"
    and b: "length (buffer256 c) = 64" and bc: "bitcount256 c = of_nat (8 * length m)"
    using r by (simp_all add: rep256_def u_def)
  let ?n = "be_bytes 8 (bitcount256 c)" and ?r = "take u (buffer256 c)"
  let ?c = "c\<lparr>bitcount256 := REVERSE64 (bitcount256 c)\<rparr>"
  define e where "e = sha256_pad_buffer ?c u"
  define l where "l = overwrite (buffer256 e) 56 ?n"
  have E: "length (buffer256 e) = 64 \<and> bitcount256 e = REVERSE64 (bitcount256 c) \<and>
      absorb 64 sha256_compress sha256_initial_hash_value (sha256_pad m) = (sha256_compress (state256 e) l, [])"
  proof -
    consider "u = 0" | "0 < u" "u < 56" | "56 \<le> u" by linarith
    then show ?thesis
    proof cases
      case 1
      have e: "e = ?c\<lparr>buffer256 := 0x80 # replicate 55 0 @ drop 56 (buffer256 c)\<rparr>"
        using b by (simp add: e_def sha256_pad_buffer_def 1 overwrite_def SHA256_SHORT_BLOCK_LENGTH_def
            SHA256_BLOCK_LENGTH_def numeral_eq_Suc)
      have "l = 0x80 # replicate 55 0 @ ?n" using b by (simp add: l_def e overwrite_def)
      moreover have "sha256_pad m = m @ 0x80 # replicate 55 0 @ ?n" by (simp add: sha256_pad_def 1 bc flip: u_def)
      ultimately show ?thesis
        using e b absorb_fill [OF a, of l] 1 by simp
    next
      case 2
      have s: "56 - u = Suc (55 - u)" using 2 by simp
      then have e: "e = ?c\<lparr>buffer256 := ?r @ 0x80 # replicate (55 - u) 0 @ drop 56 (buffer256 c)\<rparr>"
        using b 2 by (simp add: e_def sha256_pad_buffer_def Let_def overwrite_def SHA256_SHORT_BLOCK_LENGTH_def
            SHA256_BLOCK_LENGTH_def list_update_append upd_conv_take_nth_drop)
      have "l = ?r @ 0x80 # replicate (55 - u) 0 @ ?n" using b 2 by (simp add: l_def e overwrite_def s)
      moreover have "(119 - u) mod 64 = 55 - u" using 2 by (simp add: mod_if)
      then have "sha256_pad m = m @ 0x80 # replicate (55 - u) 0 @ ?n" by (simp add: sha256_pad_def bc flip: u_def)
      ultimately show ?thesis
        using e b absorb_fill [OF a, of "0x80 # replicate (55 - u) 0 @ ?n"] 2 by simp
    next
      case 3
      let ?b = "?r @ 0x80 # replicate (63 - u) 0"
      define t where "t = SHA256_Transform (?c\<lparr>buffer256 := ?b\<rparr>) ?b"
      have lb: "length ?b = 64" using b u by simp
      note T = SHA256_Transform [OF lb, of "?c\<lparr>buffer256 := ?b\<rparr>", folded t_def]
      have "(buffer256 c)[u := 0x80] = ?r @ 0x80 # drop (Suc u) (buffer256 c)"
        using b u by (simp add: upd_conv_take_nth_drop)
      then have "e = t\<lparr>buffer256 := overwrite (buffer256 t) 0 (replicate 56 0)\<rparr>"
        using b u 3 unfolding e_def sha256_pad_buffer_def Let_def SHA256_SHORT_BLOCK_LENGTH_def SHA256_BLOCK_LENGTH_def
        by (cases "u = 63") (simp_all add: overwrite_def t_def)
      note e = this
      have "l = replicate 56 0 @ ?n" using T(3) by (simp add: l_def e overwrite_def)
      moreover have z: "(119 - u) mod 64 = (63 - u) + 56" using 3 u by (simp add: mod_if)
      have "sha256_pad m = m @ (0x80 # replicate (63 - u) 0) @ replicate 56 0 @ ?n"
        unfolding sha256_pad_def u_def [symmetric] z replicate_add bc by simp
      ultimately show ?thesis
        using e T b absorb_fill [OF absorb_fill [OF a, of "0x80 # replicate (63 - u) 0"], of "replicate 56 0 @ ?n"] u lb
        by simp
    qed
  qed
  have l: "length l = 64" using E by (simp add: l_def)
  have F: "overwrite (buffer256 e) SHA256_SHORT_BLOCK_LENGTH (le_bytes 8 (bitcount256 e)) = l"
    using E by (simp add: l_def le_bytes_REVERSE64 SHA256_SHORT_BLOCK_LENGTH_def SHA256_BLOCK_LENGTH_def)
  show ?thesis
    unfolding SHA256_Final_def used Let_def e_def [symmetric] F
    using E SHA256_Transform(1) [OF l] sha256_hash_length [of "sha256_pad m"] map_state [of 8 "sha256_compress (state256 e) l" "be_bytes 4"]
    by (simp add: sha256_def le_bytes_REVERSE32 comp_def)
qed

end
