(* ===== verification/Sha512.thy ===== *)
theory Sha512
  imports Sha256
begin

text \<open>
  SHA-512 and SHA-384 as FIPS 180 defines them, and that the incremental routines compute them, with
  the message length counted in two words.
\<close>

section \<open>The specification of SHA-512\<close>

text \<open>The message schedule, the compression function and the padding of FIPS 180.\<close>

function sha512_schedule :: "(nat \<Rightarrow> u64) \<Rightarrow> nat \<Rightarrow> u64" where
  "sha512_schedule M t =
     (if t < 16 then M t
      else sigma1_512 (sha512_schedule M (t - 2)) + sha512_schedule M (t - 7) +
        sigma0_512 (sha512_schedule M (t - 15)) + sha512_schedule M (t - 16))"
  by pat_completeness auto

termination
  by (relation "measure snd") auto

declare sha512_schedule.simps [simp del]

definition sha512_compress :: "u64 list \<Rightarrow> u8 list \<Rightarrow> u64 list" where
  "sha512_compress H block =
     map2 (+) H (list_of_regs (fold
       (\<lambda>t. sha512_step (K512 ! t) (sha512_schedule (\<lambda>i. be_word (take 8 (drop (8 * i) block))) t))
       [0..<80] (regs_of H)))"

text \<open>The bit count as two words, the low one first.\<close>

definition count128 :: "nat \<Rightarrow> u64 \<times> u64" where
  "count128 n = (of_nat n, of_nat (n div 2 ^ 64))"

definition sha512_pad :: "u8 list \<Rightarrow> u8 list" where
  "sha512_pad m = m @ [0x80] @ replicate ((239 - length m mod 128) mod 128) 0 @
     be_bytes 8 (snd (count128 (8 * length m))) @ be_bytes 8 (fst (count128 (8 * length m)))"

definition sha512_hash :: "u64 list \<Rightarrow> u8 list \<Rightarrow> u64 list" where
  "sha512_hash H m = fst (absorb 128 sha512_compress H (sha512_pad m))"

definition sha512 :: "u8 list \<Rightarrow> u8 list" where
  "sha512 m = concat (map (be_bytes 8) (sha512_hash sha512_initial_hash_value m))"

definition sha384 :: "u8 list \<Rightarrow> u8 list" where
  "sha384 m = concat (map (be_bytes 8) (take 6 (sha512_hash sha384_initial_hash_value m)))"

section \<open>SHA-512 implements its specification\<close>

lemma sha512_load_rounds:
  assumes "j \<le> 16" and "length W = 16"
  shows "\<exists>W'. fold (sha512_load_round data) [0..<j] (r, W) =
      (fold (\<lambda>t. sha512_step (K512 ! t) (REVERSE64 (data ! t))) [0..<j] r, W') \<and>
    length W' = 16 \<and> (\<forall>i<j. W' ! i = REVERSE64 (data ! i))"
  using assms(1)
proof (induction j)
  case (Suc j)
  then obtain W' where W': "fold (sha512_load_round data) [0..<j] (r, W) =
      (fold (\<lambda>t. sha512_step (K512 ! t) (REVERSE64 (data ! t))) [0..<j] r, W')"
    "length W' = 16" "\<forall>i<j. W' ! i = REVERSE64 (data ! i)" by auto
  have "fold (sha512_load_round data) [0..<Suc j] (r, W) = sha512_load_round data j
      (fold (\<lambda>t. sha512_step (K512 ! t) (REVERSE64 (data ! t))) [0..<j] r, W')"
    using W'(1) by simp
  then show ?case
    unfolding sha512_load_round_def Let_def
    using Suc.prems W'(2,3) by (auto simp: nth_list_update less_Suc_eq)
qed (simp add: assms)

lemma sha512_expand_rounds:
  assumes W: "length W = 16" "\<forall>t<16. W ! t = sha512_schedule M t" and "k \<le> 64"
  shows "\<exists>W'. fold sha512_expand_round [16..<16 + k] (r, W) =
      (fold (\<lambda>t. sha512_step (K512 ! t) (sha512_schedule M t)) [16..<16 + k] r, W') \<and>
    length W' = 16 \<and> (\<forall>t. k \<le> t \<longrightarrow> t < 16 + k \<longrightarrow> W' ! (t mod 16) = sha512_schedule M t)"
  using assms(3)
proof (induction k)
  case (Suc k)
  then obtain W' where f: "fold sha512_expand_round [16..<16 + k] (r, W) =
      (fold (\<lambda>t. sha512_step (K512 ! t) (sha512_schedule M t)) [16..<16 + k] r, W')"
    and W': "length W' = 16" "\<And>t. k \<le> t \<Longrightarrow> t < 16 + k \<Longrightarrow> W' ! (t mod 16) = sha512_schedule M t" by auto
  let ?j = "16 + k"
  have m: "(?j + 1) mod 16 = (k + 1) mod 16" "(?j + 14) mod 16 = (k + 14) mod 16"
    "(?j + 9) mod 16 = (k + 9) mod 16" "?j mod 16 = k mod 16"
    by (simp_all only: add.assoc mod_add_self1)
  have new: "W' ! (?j mod 16) + (sigma1_512 (W' ! ((?j + 14) mod 16)) + W' ! ((?j + 9) mod 16) +
      sigma0_512 (W' ! ((?j + 1) mod 16))) = sha512_schedule M ?j"
    unfolding m by (subst sha512_schedule.simps) (simp add: W'(2) add.commute add.left_commute)
  have "\<forall>t. Suc k \<le> t \<longrightarrow> t < 16 + Suc k \<longrightarrow>
      W'[?j mod 16 := sha512_schedule M ?j] ! (t mod 16) = sha512_schedule M t"
  proof (intro allI impI)
    fix t assume t: "Suc k \<le> t" "t < 16 + Suc k"
    show "W'[?j mod 16 := sha512_schedule M ?j] ! (t mod 16) = sha512_schedule M t"
    proof (cases "t = ?j")
      case False
      then have "t mod 16 \<noteq> ?j mod 16" using t by (intro mod16_distinct) auto
      then show ?thesis using t False W' by (simp add: nth_list_update)
    qed (simp add: W')
  qed
  moreover have "sha512_expand_round ?j (x, W') = (sha512_step (K512 ! ?j) (sha512_schedule M ?j) x,
      W'[?j mod 16 := sha512_schedule M ?j])" for x
    unfolding sha512_expand_round_def Let_def prod.case new using W'(1) by simp
  moreover have up: "[16..<16 + Suc k] = [16..<16 + k] @ [16 + k]"
    unfolding add_Suc_right by (rule upt_Suc_append) simp
  ultimately show ?case unfolding up fold_append o_apply f using W'(1) by simp
qed (use W in auto)

lemma words64_nth: "i < 16 \<Longrightarrow> words64 bs ! i = le_word (take 8 (drop (8 * i) bs))"
  by (simp add: words64_def)

lemma SHA512_Transform:
  assumes "length data = 128"
  shows "state512 (SHA512_Transform c data) = sha512_compress (state512 c) data"
    and "bitcount512 (SHA512_Transform c data) = bitcount512 c"
    and "length (buffer512 (SHA512_Transform c data)) = 128"
proof -
  let ?M = "\<lambda>i. be_word (take 8 (drop (8 * i) data)) :: u64"
  have M: "REVERSE64 (words64 data ! i) = ?M i" if "i < 16" for i
    using that assms by (simp add: words64_nth REVERSE64_le_word)
  obtain W1 where W1: "fold (sha512_load_round (words64 data)) [0..<16] (regs_of (state512 c), words64 (buffer512 c)) =
      (fold (\<lambda>t. sha512_step (K512 ! t) (REVERSE64 (words64 data ! t))) [0..<16] (regs_of (state512 c)), W1)"
    "length W1 = 16" "\<forall>i<16. W1 ! i = REVERSE64 (words64 data ! i)"
    using sha512_load_rounds [of 16 "words64 (buffer512 c)" "words64 data" "regs_of (state512 c)"]
    by (auto simp: words64_def)
  have s: "\<forall>t<16. W1 ! t = sha512_schedule ?M t"
    using W1(3) M by (subst sha512_schedule.simps) simp
  let ?r = "fold (\<lambda>t. sha512_step (K512 ! t) (REVERSE64 (words64 data ! t))) [0..<16] (regs_of (state512 c))"
  from sha512_expand_rounds [OF W1(2) s, of 64 ?r] obtain W2 where
    W2: "fold sha512_expand_round [16..<80] (?r, W1) =
      (fold (\<lambda>t. sha512_step (K512 ! t) (sha512_schedule ?M t)) [16..<80] ?r, W2)" "length W2 = 16" by auto
  have l: "fold (\<lambda>t. sha512_step (K512 ! t) (REVERSE64 (words64 data ! t))) [0..<16] r =
      fold (\<lambda>t. sha512_step (K512 ! t) (sha512_schedule ?M t)) [0..<16] r" for r
    by (rule fold_cong) (auto simp: M sha512_schedule.simps [of ?M])
  have "[0..<80] = [0..<16] @ [16..<80]" using upt_add_eq_append [of 0 16 64] by simp
  then have f: "fold (\<lambda>t. sha512_step (K512 ! t) (sha512_schedule ?M t)) [0..<80] (regs_of (state512 c)) =
      fold (\<lambda>t. sha512_step (K512 ! t) (sha512_schedule ?M t)) [16..<80] ?r"
    by (simp only: fold_append o_apply l)
  have T: "SHA512_Transform c data = c\<lparr>state512 := sha512_compress (state512 c) data,
      buffer512 := concat (map (le_bytes 8) W2)\<rparr>"
    unfolding SHA512_Transform_def W1(1) Let_def prod.case W2(1) sha512_compress_def f ..
  show "state512 (SHA512_Transform c data) = sha512_compress (state512 c) data"
    "bitcount512 (SHA512_Transform c data) = bitcount512 c"
    "length (buffer512 (SHA512_Transform c data)) = 128"
    unfolding T by (simp_all add: length_concat comp_def sum_list_triv W2(2))
qed

definition rep512 :: "u64 list \<Rightarrow> SHA512_CTX \<Rightarrow> u8 list \<Rightarrow> bool" where
  "rep512 H c m \<longleftrightarrow> length (buffer512 c) = 128 \<and> bitcount512 c = count128 (8 * length m) \<and>
     absorb 128 sha512_compress H m = (state512 c, take (length m mod 128) (buffer512 c))"

lemma usedspace128: "unat (drop_bit 3 (fst (count128 (8 * n)))) mod 128 = n mod 128"
proof -
  have "unat (drop_bit 3 (of_nat (8 * n) :: u64)) = 8 * n mod 2 ^ 64 div 8"
    unfolding drop_bit_unat unat_of_nat by simp
  also have "\<dots> = n mod 2 ^ 61" using mult_mod_right [of 8 n "2 ^ 61"] by simp
  finally show ?thesis by (simp add: count128_def mod_mod_cancel)
qed

text \<open>The carry of the two-word counter.\<close>

lemma nat_carry:
  fixes B k n :: nat
  assumes "k < B"
  shows "(n + k) mod B < k \<longleftrightarrow> B \<le> n mod B + k"
    and "(n + k) div B = n div B + (if B \<le> n mod B + k then 1 else 0)"
proof -
  define l where "l = n mod B"
  have l: "l < B" using assms by (simp add: l_def)
  have n: "n + k = n div B * B + (l + k)" by (simp add: l_def)
  have x: "(l + k) mod B = (if B \<le> l + k then l + k - B else l + k)" "(l + k) div B = (if B \<le> l + k then 1 else 0)"
    using l assms by (simp_all add: le_mod_geq le_div_geq)
  have "(n + k) mod B = (l + k) mod B" unfolding n by simp
  then show "(n + k) mod B < k \<longleftrightarrow> B \<le> n mod B + k" unfolding x l_def [symmetric] using l by auto
  have "0 < B" using l by simp
  then have "(n + k) div B = n div B + (l + k) div B" unfolding n by simp
  then show "(n + k) div B = n div B + (if B \<le> n mod B + k then 1 else 0)" unfolding x l_def [symmetric] .
qed

lemma ADDINC128_count:
  assumes "8 * k < 2 ^ 64"
  shows "ADDINC128 (count128 n) (push_bit 3 (of_nat k)) = count128 (n + 8 * k)"
proof -
  have "unat (of_nat (8 * k) :: u64) = 8 * k" unfolding unat_of_nat using assms by simp
  then have "((of_nat (n + 8 * k) :: u64) < of_nat (8 * k)) \<longleftrightarrow> (n + 8 * k) mod 2 ^ 64 < 8 * k"
    unfolding word_less_nat_alt by (simp add: unat_of_nat del: of_nat_add of_nat_mult)
  then show ?thesis
    unfolding ADDINC128_def count128_def push_bit_3 fst_conv snd_conv Let_def of_nat_add [symmetric]
      nat_carry [OF assms] by simp
qed

lemma sha512_update_blocks:
  assumes "rep512 H c m" and "length m mod 128 = 0"
  shows "rep512 H (sha512_update_blocks c d) (m @ d)"
  using assms
proof (induction c d arbitrary: m rule: sha512_update_blocks.induct)
  case (1 c d)
  have a: "absorb 128 sha512_compress H m = (state512 c, [])"
    using 1(2,3) by (simp add: rep512_def)
  show ?case
  proof (cases "128 \<le> length d")
    case True
    let ?b = "take 128 d" and ?c = "SHA512_Transform c (take 128 d)"
    note T = SHA512_Transform [of ?b c]
    have "rep512 H (?c\<lparr>bitcount512 := ADDINC128 (bitcount512 ?c) (push_bit 3 (of_nat 128))\<rparr>) (m @ ?b)"
      using True 1(2,3) T absorb_fill [OF a, of ?b] ADDINC128_count [of 128 "8 * length m"]
      by (simp add: rep512_def mod_add_eq [symmetric])
    from "1.IH" [unfolded SHA512_BLOCK_LENGTH_def, OF True refl this] True 1(3) show ?thesis
      by (subst sha512_update_blocks.simps) (simp add: SHA512_BLOCK_LENGTH_def Let_def mod_add_eq [symmetric])
  next
    case False
    have m: "(length m + length d) mod 128 = length d" using False 1(3) by (simp add: mod_add_eq [symmetric])
    show ?thesis
      using False 1(2) m absorb_more [OF a, of d]
      by (subst sha512_update_blocks.simps)
        (auto simp: SHA512_BLOCK_LENGTH_def rep512_def ADDINC128_count overwrite_def)
  qed
qed

lemma SHA512_Update_rep:
  assumes r: "rep512 H c m"
  shows "rep512 H (SHA512_Update c d) (m @ d)"
proof -
  define u where "u = length m mod 128"
  have u: "u < 128" by (simp add: u_def)
  have um: "(length m + k) mod 128 = (u + k) mod 128" for k unfolding u_def by (rule mod_add_left_eq [symmetric])
  have used: "unat (drop_bit 3 (fst (bitcount512 c))) mod 128 = u"
    using r usedspace128 [of "length m"] by (simp add: rep512_def u_def)
  have a: "absorb 128 sha512_compress H m = (state512 c, take u (buffer512 c))"
    and b: "length (buffer512 c) = 128" "bitcount512 c = count128 (8 * length m)"
    using r by (simp_all add: rep512_def u_def)
  note U = SHA512_Update_def SHA512_BLOCK_LENGTH_def used Let_def
  consider "d = []" | "u = 0" "d \<noteq> []" | "0 < u" "128 - u \<le> length d" "d \<noteq> []" | "0 < u" "length d < 128 - u" "d \<noteq> []"
    by linarith
  then show ?thesis
  proof cases
    case 1
    then show ?thesis using r by (simp add: SHA512_Update_def)
  next
    case 2
    then show ?thesis using sha512_update_blocks [OF r, of d] unfolding U by (simp flip: u_def)
  next
    case 3
    let ?f = "128 - u"
    let ?b = "overwrite (buffer512 c) u (take ?f d)"
    let ?c = "c\<lparr>buffer512 := ?b, bitcount512 := ADDINC128 (bitcount512 c) (push_bit 3 (of_nat ?f))\<rparr>"
    have len: "length (take ?f d) = ?f" using 3 by simp
    have full: "?b = take u (buffer512 c) @ take ?f d" using overwrite_full [of u "take ?f d" "buffer512 c"] len b u by simp
    have mod: "length (m @ take ?f d) mod 128 = 0" using um [of ?f] u len by simp
    have "length ?b = 128" using b u len by simp
    note T = SHA512_Transform [OF this, of ?c]
    have "absorb 128 sha512_compress H (m @ take ?f d) = (sha512_compress (state512 c) ?b, [])"
      unfolding full by (rule absorb_fill [OF a]) (use len b u in auto)
    then have "rep512 H (SHA512_Transform ?c ?b) (m @ take ?f d)"
      unfolding rep512_def mod T using b len by (simp add: ADDINC128_count)
    from sha512_update_blocks [OF this mod, of "drop ?f d"] 3 show ?thesis
      unfolding U by simp
  next
    case 4
    have "length (m @ d) mod 128 = u + length d" using 4(2) um [of "length d"] by simp
    moreover have "absorb 128 sha512_compress H (m @ d) = (state512 c, take u (buffer512 c) @ d)"
      by (rule absorb_more [OF a]) (use 4 b u in auto)
    ultimately show ?thesis
      unfolding rep512_def U using 4 b take_overwrite [of u "buffer512 c" d]
      by (simp add: ADDINC128_count)
  qed
qed

lemma sha512_hash_length: "length H = 8 \<Longrightarrow> length (sha512_hash H m) = 8"
  unfolding sha512_hash_def by (rule absorb_invariant) (simp_all add: sha512_compress_def)

lemma SHA512_Last_rep:
  assumes r: "rep512 H c m"
  shows "state512 (SHA512_Last c) = sha512_hash H m"
proof -
  define u where "u = length m mod 128"
  have u: "u < 128" by (simp add: u_def)
  have used: "unat (drop_bit 3 (fst (bitcount512 c))) mod SHA512_BLOCK_LENGTH = u"
    using r usedspace128 [of "length m"] by (simp add: rep512_def u_def SHA512_BLOCK_LENGTH_def)
  have a: "absorb 128 sha512_compress H m = (state512 c, take u (buffer512 c))"
    and b: "length (buffer512 c) = 128" and bc: "bitcount512 c = count128 (8 * length m)"
    using r by (simp_all add: rep512_def u_def)
  let ?n = "be_bytes 8 (snd (bitcount512 c)) @ be_bytes 8 (fst (bitcount512 c))" and ?r = "take u (buffer512 c)"
  let ?c = "c\<lparr>bitcount512 := (REVERSE64 (fst (bitcount512 c)), REVERSE64 (snd (bitcount512 c)))\<rparr>"
  define e where "e = sha512_pad_buffer ?c u"
  define l where "l = overwrite (buffer512 e) 112 ?n"
  have E: "length (buffer512 e) = 128 \<and> bitcount512 e = (REVERSE64 (fst (bitcount512 c)), REVERSE64 (snd (bitcount512 c))) \<and>
      absorb 128 sha512_compress H (sha512_pad m) = (sha512_compress (state512 e) l, [])"
  proof -
    consider "u = 0" | "0 < u" "u < 112" | "112 \<le> u" by linarith
    then show ?thesis
    proof cases
      case 1
      have e: "e = ?c\<lparr>buffer512 := 0x80 # replicate 111 0 @ drop 112 (buffer512 c)\<rparr>"
        using b by (simp add: e_def sha512_pad_buffer_def 1 overwrite_def SHA512_SHORT_BLOCK_LENGTH_def
            SHA512_BLOCK_LENGTH_def numeral_eq_Suc)
      have "l = 0x80 # replicate 111 0 @ ?n" using b by (simp add: l_def e overwrite_def)
      moreover have "sha512_pad m = m @ 0x80 # replicate 111 0 @ ?n" by (simp add: sha512_pad_def 1 bc flip: u_def)
      ultimately show ?thesis
        using e b absorb_fill [OF a, of l] 1 by simp
    next
      case 2
      have s: "112 - u = Suc (111 - u)" using 2 by simp
      then have e: "e = ?c\<lparr>buffer512 := ?r @ 0x80 # replicate (111 - u) 0 @ drop 112 (buffer512 c)\<rparr>"
        using b 2 by (simp add: e_def sha512_pad_buffer_def Let_def overwrite_def SHA512_SHORT_BLOCK_LENGTH_def
            SHA512_BLOCK_LENGTH_def list_update_append upd_conv_take_nth_drop)
      have "l = ?r @ 0x80 # replicate (111 - u) 0 @ ?n" using b 2 by (simp add: l_def e overwrite_def s)
      moreover have "(239 - u) mod 128 = 111 - u" using 2 by (simp add: mod_if)
      then have "sha512_pad m = m @ 0x80 # replicate (111 - u) 0 @ ?n" by (simp add: sha512_pad_def bc flip: u_def)
      ultimately show ?thesis
        using e b absorb_fill [OF a, of "0x80 # replicate (111 - u) 0 @ ?n"] 2 by simp
    next
      case 3
      let ?b = "?r @ 0x80 # replicate (127 - u) 0"
      define t where "t = SHA512_Transform (?c\<lparr>buffer512 := ?b\<rparr>) ?b"
      have lb: "length ?b = 128" using b u by simp
      note T = SHA512_Transform [OF lb, of "?c\<lparr>buffer512 := ?b\<rparr>", folded t_def]
      have "(buffer512 c)[u := 0x80] = ?r @ 0x80 # drop (Suc u) (buffer512 c)"
        using b u by (simp add: upd_conv_take_nth_drop)
      then have "e = t\<lparr>buffer512 := overwrite (buffer512 t) 0 (replicate 126 0)\<rparr>"
        using b u 3 unfolding e_def sha512_pad_buffer_def Let_def SHA512_SHORT_BLOCK_LENGTH_def SHA512_BLOCK_LENGTH_def
        by (cases "u = 127") (simp_all add: overwrite_def t_def)
      note e = this
      have "l = replicate 112 0 @ ?n" using T(3) by (simp add: l_def e overwrite_def)
      moreover have z: "(239 - u) mod 128 = (127 - u) + 112" using 3 u by (simp add: mod_if)
      have "sha512_pad m = m @ (0x80 # replicate (127 - u) 0) @ replicate 112 0 @ ?n"
        unfolding sha512_pad_def u_def [symmetric] z replicate_add bc by simp
      ultimately show ?thesis
        using e T b absorb_fill [OF absorb_fill [OF a, of "0x80 # replicate (127 - u) 0"], of "replicate 112 0 @ ?n"] u lb
        by simp
    qed
  qed
  have l: "length l = 128" using E by (simp add: l_def)
  have F: "overwrite (overwrite (buffer512 e) SHA512_SHORT_BLOCK_LENGTH (le_bytes 8 (snd (bitcount512 e))))
      (SHA512_SHORT_BLOCK_LENGTH + 8) (le_bytes 8 (fst (bitcount512 e))) = l"
    using E by (simp add: l_def le_bytes_REVERSE64 overwrite_def SHA512_SHORT_BLOCK_LENGTH_def SHA512_BLOCK_LENGTH_def)
  show ?thesis
    unfolding SHA512_Last_def used Let_def e_def [symmetric]
    using E F SHA512_Transform(1) [OF l] by (simp add: sha512_hash_def)
qed

lemma SHA512_digest_rep:
  "rep512 sha512_initial_hash_value c m \<Longrightarrow> SHA512_Final True c = (Some (sha512 m), SHA512_ZERO)"
  "rep512 sha384_initial_hash_value c m \<Longrightarrow> SHA384_Final True c = (Some (sha384 m), SHA512_ZERO)"
  using map_state [of 8 "sha512_hash sha512_initial_hash_value m" "be_bytes 8"]
    map_state [of 6 "sha512_hash sha384_initial_hash_value m" "be_bytes 8"]
    sha512_hash_length [of sha512_initial_hash_value m] sha512_hash_length [of sha384_initial_hash_value m]
  by (simp_all add: SHA512_Final_def SHA384_Final_def SHA512_Last_rep sha512_def sha384_def le_bytes_REVERSE64
      sha512_initial_hash_value_def sha384_initial_hash_value_def)

end
