(* ===== verification/Sha2_Properties.thy ===== *)
theory Sha2_Properties
  imports Sha512
begin

text \<open>
  The unrolled transforms, the incremental interface as a stream hash, and the properties of the SHA-2
  routines.
\<close>

section \<open>The unrolled transforms are the rolled ones\<close>

fun rotate_regs :: "'w regs \<Rightarrow> 'w regs" where
  "rotate_regs (a, b, c, d, e, f, g, h) = (h, a, b, c, d, e, f, g)"

definition rolled :: "(nat \<Rightarrow> 'w regs \<times> 'w list \<Rightarrow> 'w regs \<times> 'w list) \<Rightarrow> nat \<Rightarrow> 'w regs \<times> 'w list \<Rightarrow> 'w regs \<times> 'w list" where
  "rolled ROUND j x = (let (r, W) = ROUND j x in (rotate_regs r, W))"

lemma regs_cases:
  fixes x :: "'w regs \<times> 'w list"
  obtains a b c d e f g h W where "x = ((a, b, c, d, e, f, g, h), W)"
proof -
  obtain r W where x: "x = (r, W)" by (cases x)
  show ?thesis by (cases r rule: list_of_regs.cases) (rule that, simp add: x)
qed

text \<open>Eight calls with permuted arguments are eight rounds that move the registers.\<close>

lemma unrolled_rounds: "unrolled_rounds ROUND j x = fold (rolled ROUND) [j..<j + 8] x"
proof -
  obtain a0 b0 c0 d0 e0 f0 g0 h0 W0 where x: "x = ((a0, b0, c0, d0, e0, f0, g0, h0), W0)" by (rule regs_cases)
  obtain a1 b1 c1 d1 e1 f1 g1 h1 W1 where r0: "ROUND (j + 0) ((a0, b0, c0, d0, e0, f0, g0, h0), W0) = ((a1, b1, c1, d1, e1, f1, g1, h1), W1)"
    by (rule regs_cases)
  obtain a2 b2 c2 d2 e2 f2 g2 h2 W2 where r1: "ROUND (j + 1) ((h1, a1, b1, c1, d1, e1, f1, g1), W1) = ((h2, a2, b2, c2, d2, e2, f2, g2), W2)"
    by (rule regs_cases)
  obtain a3 b3 c3 d3 e3 f3 g3 h3 W3 where r2: "ROUND (j + 2) ((g2, h2, a2, b2, c2, d2, e2, f2), W2) = ((g3, h3, a3, b3, c3, d3, e3, f3), W3)"
    by (rule regs_cases)
  obtain a4 b4 c4 d4 e4 f4 g4 h4 W4 where r3: "ROUND (j + 3) ((f3, g3, h3, a3, b3, c3, d3, e3), W3) = ((f4, g4, h4, a4, b4, c4, d4, e4), W4)"
    by (rule regs_cases)
  obtain a5 b5 c5 d5 e5 f5 g5 h5 W5 where r4: "ROUND (j + 4) ((e4, f4, g4, h4, a4, b4, c4, d4), W4) = ((e5, f5, g5, h5, a5, b5, c5, d5), W5)"
    by (rule regs_cases)
  obtain a6 b6 c6 d6 e6 f6 g6 h6 W6 where r5: "ROUND (j + 5) ((d5, e5, f5, g5, h5, a5, b5, c5), W5) = ((d6, e6, f6, g6, h6, a6, b6, c6), W6)"
    by (rule regs_cases)
  obtain a7 b7 c7 d7 e7 f7 g7 h7 W7 where r6: "ROUND (j + 6) ((c6, d6, e6, f6, g6, h6, a6, b6), W6) = ((c7, d7, e7, f7, g7, h7, a7, b7), W7)"
    by (rule regs_cases)
  obtain a8 b8 c8 d8 e8 f8 g8 h8 W8 where r7: "ROUND (j + 7) ((b7, c7, d7, e7, f7, g7, h7, a7), W7) = ((b8, c8, d8, e8, f8, g8, h8, a8), W8)"
    by (rule regs_cases)
  have u: "[j..<j + 8] = [j, j + 1, j + 2, j + 3, j + 4, j + 5, j + 6, j + 7]"
    by (simp add: upt_rec numeral_eq_Suc)
  show ?thesis
    unfolding u x unrolled_rounds_def rolled_def
    using r0 r1 r2 r3 r4 r5 r6 r7 by simp
qed

lemma sha256_rolled:
  "rolled (ROUND256_0_TO_15 data) = sha256_load_round data" "rolled ROUND256 = sha256_expand_round"
  by (auto simp: fun_eq_iff rolled_def ROUND256_0_TO_15_def sha256_load_round_def ROUND256_def
      sha256_expand_round_def Let_def add.assoc)

lemma SHA256_Transform_unrolled: "SHA256_Transform_unrolled context data = SHA256_Transform context data"
proof -
  have "[0..<16] = [0..<0 + 8] @ [8..<8 + 8]"
    "[16..<64] = [16..<16 + 8] @ [24..<24 + 8] @ [32..<32 + 8] @ [40..<40 + 8] @ [48..<48 + 8] @ [56..<56 + 8]"
    by code_simp+
  then show ?thesis
    unfolding SHA256_Transform_unrolled_def SHA256_Transform_def
    by (simp add: unrolled_rounds sha256_rolled)
qed

lemma sha512_rolled:
  "rolled (ROUND512_0_TO_15 data) = sha512_load_round data" "rolled ROUND512 = sha512_expand_round"
  by (auto simp: fun_eq_iff rolled_def ROUND512_0_TO_15_def sha512_load_round_def ROUND512_def
      sha512_expand_round_def Let_def add.assoc)

lemma SHA512_Transform_unrolled: "SHA512_Transform_unrolled context data = SHA512_Transform context data"
proof -
  have "[0..<16] = [0..<0 + 8] @ [8..<8 + 8]"
    "[16..<80] = [16..<16 + 8] @ [24..<24 + 8] @ [32..<32 + 8] @ [40..<40 + 8] @ [48..<48 + 8] @ [56..<56 + 8] @
      [64..<64 + 8] @ [72..<72 + 8]"
    by code_simp+
  then show ?thesis
    unfolding SHA512_Transform_unrolled_def SHA512_Transform_def
    by (simp add: unrolled_rounds sha512_rolled)
qed

section \<open>The contract of the incremental interface\<close>

lemma rep_init:
  "rep256 SHA256_Init []" "rep512 sha512_initial_hash_value SHA512_Init []"
  "rep512 sha384_initial_hash_value SHA384_Init []"
  by (simp_all add: rep256_def rep512_def SHA256_Init_def SHA512_Init_def SHA384_Init_def count128_def)

interpretation sha256_stream: stream_hash SHA256_Init SHA256_Update "SHA256_Final True" rep256
    "\<lambda>m. (Some (sha256 m), SHA256_ZERO)" "\<lambda>_. True"
  by unfold_locales (simp_all add: rep_init SHA256_Update_rep SHA256_Final_rep)

interpretation sha512_stream: stream_hash SHA512_Init SHA512_Update "SHA512_Final True" "rep512 sha512_initial_hash_value"
    "\<lambda>m. (Some (sha512 m), SHA512_ZERO)" "\<lambda>_. True"
  by unfold_locales (simp_all add: rep_init SHA512_Update_rep SHA512_digest_rep)

interpretation sha384_stream: stream_hash SHA384_Init SHA384_Update "SHA384_Final True" "rep512 sha384_initial_hash_value"
    "\<lambda>m. (Some (sha384 m), SHA512_ZERO)" "\<lambda>_. True"
  by unfold_locales (simp_all add: rep_init SHA384_Update_def SHA512_Update_rep SHA512_digest_rep)

section \<open>The string form\<close>

text \<open>Hexadecimal digits by their character codes, and the number a string and a digest stand for.\<close>

definition hex_digit :: "char \<Rightarrow> bool" where
  "hex_digit c \<longleftrightarrow> (of_char c :: nat) \<in> {48..57} \<union> {97..102}"

definition hex_value :: "char \<Rightarrow> nat" where
  "hex_value c = (if (of_char c :: nat) \<le> 57 then of_char c - 48 else of_char c - 87)"

definition hex_number :: "string \<Rightarrow> nat" where
  "hex_number s = foldl (\<lambda>n c. 16 * n + hex_value c) 0 s"

definition digest_number :: "u8 list \<Rightarrow> nat" where
  "digest_number digest = foldl (\<lambda>n d. 256 * n + unat d) 0 digest"

text \<open>
  The digest is in the buffer as a string of \<open>n\<close> digits with its terminator, and the pointer is at the
  terminator; a buffer without room for that is overrun.
\<close>

definition prints_digest :: "nat \<Rightarrow> u8 list \<Rightarrow> string \<Rightarrow> (string \<times> nat) option run \<Rightarrow> bool" where
  "prints_digest n digest buffer r \<longleftrightarrow>
     (if length buffer \<le> n then r = Inl (Out_of_bounds ''buffer'')
      else \<exists>s. length s = n \<and> (\<forall>c \<in> set s. hex_digit c) \<and> hex_number s = digest_number digest \<and>
        r = Inr (Some (s @ CHR 0x00 # drop (n + 1) buffer, n)))"

definition hex_pair :: "u8 \<Rightarrow> string" where
  "hex_pair d = [sha2_hex_digits ! unat (drop_bit 4 (d AND 0xf0)), sha2_hex_digits ! unat (d AND 0x0f)]"

lemma hex_digits:
  assumes "n < 16"
  shows "hex_digit (sha2_hex_digits ! n) \<and> hex_value (sha2_hex_digits ! n) = n"
proof -
  have "\<forall>n \<in> set [0..<16]. hex_digit (sha2_hex_digits ! n) \<and> hex_value (sha2_hex_digits ! n) = n"
    by (simp add: upt_rec numeral_eq_Suc hex_digit_def hex_value_def sha2_hex_digits_def)
  with assms show ?thesis by simp
qed

lemma octet_bound: "unat (d :: u8) < 256"
proof -
  have "unat d < 2 ^ LENGTH(8)" by (rule unsigned_less)
  then show ?thesis by simp
qed

lemma hex_nibbles:
  fixes d :: u8
  shows "unat (drop_bit 4 (d AND 0xf0)) = unat d div 16" and "unat (d AND 0x0f) = unat d mod 16"
  using and_mask_unat [of d 4] and_mask_unat [of "drop_bit 4 d" 4] octet_bound [of d]
  by (simp_all add: mask_eq_exp_minus_1 drop_bit_unat)

lemma hex_pair:
  "length (hex_pair d) = 2" "\<forall>c \<in> set (hex_pair d). hex_digit c"
  "foldl (\<lambda>n c. 16 * n + hex_value c) n (hex_pair d) = 256 * n + unat d"
proof -
  have d: "unat d div 16 < 16" "unat d mod 16 < 16" using octet_bound [of d] by simp_all
  show "length (hex_pair d) = 2" "\<forall>c \<in> set (hex_pair d). hex_digit c"
    using d by (simp_all add: hex_pair_def hex_nibbles hex_digits)
  show "foldl (\<lambda>n c. 16 * n + hex_value c) n (hex_pair d) = 256 * n + unat d"
    unfolding hex_pair_def hex_nibbles using d by (simp add: hex_digits)
qed

lemma hex_string:
  "length (concat (map hex_pair digest)) = 2 * length digest" "\<forall>c \<in> set (concat (map hex_pair digest)). hex_digit c"
  "foldl (\<lambda>n c. 16 * n + hex_value c) n (concat (map hex_pair digest)) = foldl (\<lambda>n d. 256 * n + unat d) n digest"
  by (induction digest arbitrary: n) (use hex_pair in auto)

lemma sha2_hex_writes:
  "sha2_hex digest (pre @ post, length pre) =
     (if length post < 2 * length digest then Inl (Out_of_bounds ''buffer'')
      else Inr (pre @ concat (map hex_pair digest) @ drop (2 * length digest) post, length pre + 2 * length digest))"
proof (induction digest arbitrary: pre post)
  case (Cons d digest)
  show ?case
  proof (cases "\<exists>x y zs. post = x # y # zs")
    case True
    then obtain x y zs where p: "post = x # y # zs" by auto
    from Cons.IH [of "pre @ hex_pair d" zs] show ?thesis
      by (simp add: p put_char_def hex_pair_def [of d] list_update_append nth_append)
  next
    case False
    then have "length post < 2" by (cases post rule: remdups_adj.cases) auto
    then show ?thesis by (cases post) (simp_all add: put_char_def list_update_append)
  qed
qed simp

lemma sha2_string_prints:
  assumes "n = 2 * length digest"
  shows "prints_digest n digest buffer (bind_run (sha2_string digest buffer) (\<lambda>b. Inr (Some b)))"
proof (cases "length buffer \<le> n")
  case True
  then show ?thesis
    using assms sha2_hex_writes [of digest "[]" buffer]
    by (auto simp: prints_digest_def sha2_string_def put_char_def hex_string)
next
  case False
  then obtain x where "drop n buffer = x # drop (n + 1) buffer" by (metis Cons_nth_drop_Suc Suc_eq_plus1 not_le)
  with False assms show ?thesis
    using sha2_hex_writes [of digest "[]" buffer] hex_string [where digest = digest]
    by (auto simp: prints_digest_def sha2_string_def put_char_def list_update_append hex_number_def digest_number_def
        simp del: drop_eq_Nil)
qed

lemma sha_lengths: "length (sha256 m) = 32" "length (sha384 m) = 48" "length (sha512 m) = 64"
  using sha256_hash_length [of "sha256_pad m"] sha512_hash_length [of sha384_initial_hash_value m]
    sha512_hash_length [of sha512_initial_hash_value m]
  by (simp_all add: sha256_def sha384_def sha512_def length_concat comp_def sum_list_triv
      sha512_initial_hash_value_def sha384_initial_hash_value_def)

section \<open>Properties\<close>

text \<open>
  C16: the incremental SHA-2 routines compute the hash of FIPS 180.  However a message is cut into
  pieces, feeding them one after the other and finishing gives the standard's digest of the whole
  message, for messages of every length, and leaves the context wiped.
\<close>

theorem sha2_any_pieces:
  "SHA256_Final True (foldl SHA256_Update SHA256_Init ds) = (Some (sha256 (concat ds)), SHA256_ZERO) \<and>
   SHA384_Final True (foldl SHA384_Update SHA384_Init ds) = (Some (sha384 (concat ds)), SHA512_ZERO) \<and>
   SHA512_Final True (foldl SHA512_Update SHA512_Init ds) = (Some (sha512 (concat ds)), SHA512_ZERO)"
  by (simp add: sha256_stream.digest_chunks sha384_stream.digest_chunks sha512_stream.digest_chunks)

text \<open>
  C25: compiling with \<open>SHA2_UNROLL_TRANSFORM\<close> does not change the transforms: the unrolled rounds,
  which rename the registers, leave the context the rolled rounds leave, on every context and block.
\<close>

theorem unrolled_transform_same:
  "SHA256_Transform_unrolled c256 block256 = SHA256_Transform c256 block256 \<and>
   SHA512_Transform_unrolled c512 block512 = SHA512_Transform c512 block512"
  by (simp add: SHA256_Transform_unrolled SHA512_Transform_unrolled)

text \<open>
  C40: the string form.  \<open>SHA256_Data\<close>, \<open>SHA384_Data\<close> and \<open>SHA512_Data\<close> write 64, 96 and 128 hexadecimal
  digits, the value of which is the digest of FIPS 180 read as a number, and a terminator to the caller's
  buffer, leave the rest of it alone, and overrun a buffer without room for that.  The pointer they return
  is not the start of the string: it has been advanced to the terminator.  Without a buffer they do nothing.
\<close>

theorem sha2_data_string:
  "prints_digest 64 (sha256 m) buffer (SHA256_Data m (Some buffer)) \<and> SHA256_Data m None = Inr None \<and>
   prints_digest 96 (sha384 m) buffer (SHA384_Data m (Some buffer)) \<and> SHA384_Data m None = Inr None \<and>
   prints_digest 128 (sha512 m) buffer (SHA512_Data m (Some buffer)) \<and> SHA512_Data m None = Inr None"
proof -
  have r: "bind_run (bind_run b (\<lambda>b. Inr (Some b, c))) (\<lambda>(b, _). Inr b) = bind_run b (\<lambda>b. Inr (Some b))"
    for b :: "(string \<times> nat) run" and c
    by (cases b) simp_all
  show ?thesis
    using sha256_stream.digest_chunks [of "[m]"] sha384_stream.digest_chunks [of "[m]"] sha512_stream.digest_chunks [of "[m]"]
      sha2_string_prints [of 64 "sha256 m" buffer] sha2_string_prints [of 96 "sha384 m" buffer]
      sha2_string_prints [of 128 "sha512 m" buffer]
    by (simp add: SHA256_Data_def SHA256_End_def SHA384_Data_def SHA384_End_def SHA512_Data_def SHA512_End_def
        sha_lengths r)
qed

end
