(* ===== verification/Xxhash.thy ===== *)
theory Xxhash
  imports Sha2
begin

text \<open>
  The xxHash routines of \<open>sys/vfs/hammer2/xxhash/xxhash.c\<close> on a little endian machine: the one-shot
  functions, the streaming interface and the canonical representation.  The theory ends with the
  properties: the streaming interface agrees with the one-shot function however the input is cut.
\<close>

section \<open>Reads, rotations and constants\<close>

definition XXH_read32 :: "u8 list \<Rightarrow> u32" where
  "XXH_read32 memPtr = le_word (take 4 memPtr)"

definition XXH_read64 :: "u8 list \<Rightarrow> u64" where
  "XXH_read64 memPtr = le_word (take 8 memPtr)"

definition XXH_rotl32 :: "u32 \<Rightarrow> nat \<Rightarrow> u32" where
  "XXH_rotl32 x r = push_bit r x OR drop_bit (32 - r) x"

definition XXH_rotl64 :: "u64 \<Rightarrow> nat \<Rightarrow> u64" where
  "XXH_rotl64 x r = push_bit r x OR drop_bit (64 - r) x"

definition XXH_swap32 :: "u32 \<Rightarrow> u32" where
  "XXH_swap32 x =
     (push_bit 24 x AND 0xff000000) OR (push_bit 8 x AND 0x00ff0000) OR
     (drop_bit 8 x AND 0x0000ff00) OR (drop_bit 24 x AND 0x000000ff)"

definition XXH_swap64 :: "u64 \<Rightarrow> u64" where
  "XXH_swap64 x =
     (push_bit 56 x AND 0xff00000000000000) OR (push_bit 40 x AND 0x00ff000000000000) OR
     (push_bit 24 x AND 0x0000ff0000000000) OR (push_bit 8 x AND 0x000000ff00000000) OR
     (drop_bit 8 x AND 0x00000000ff000000) OR (drop_bit 24 x AND 0x0000000000ff0000) OR
     (drop_bit 40 x AND 0x000000000000ff00) OR (drop_bit 56 x AND 0x00000000000000ff)"

datatype XXH_endianess = XXH_bigEndian | XXH_littleEndian

definition XXH_readLE32 :: "XXH_endianess \<Rightarrow> u8 list \<Rightarrow> u32" where
  "XXH_readLE32 endian ptr =
     (if endian = XXH_littleEndian then XXH_read32 ptr else XXH_swap32 (XXH_read32 ptr))"

definition XXH_readLE64 :: "XXH_endianess \<Rightarrow> u8 list \<Rightarrow> u64" where
  "XXH_readLE64 endian ptr =
     (if endian = XXH_littleEndian then XXH_read64 ptr else XXH_swap64 (XXH_read64 ptr))"

definition XXH_readBE32 :: "u8 list \<Rightarrow> u32" where
  "XXH_readBE32 ptr = XXH_swap32 (XXH_read32 ptr)"

definition XXH_readBE64 :: "u8 list \<Rightarrow> u64" where
  "XXH_readBE64 ptr = XXH_swap64 (XXH_read64 ptr)"

definition PRIME32_1 :: u32 where "PRIME32_1 = 2654435761"
definition PRIME32_2 :: u32 where "PRIME32_2 = 2246822519"
definition PRIME32_3 :: u32 where "PRIME32_3 = 3266489917"
definition PRIME32_4 :: u32 where "PRIME32_4 = 668265263"
definition PRIME32_5 :: u32 where "PRIME32_5 = 374761393"

definition PRIME64_1 :: u64 where "PRIME64_1 = 11400714785074694791"
definition PRIME64_2 :: u64 where "PRIME64_2 = 14029467366897019727"
definition PRIME64_3 :: u64 where "PRIME64_3 = 1609587929392839161"
definition PRIME64_4 :: u64 where "PRIME64_4 = 9650029242287828579"
definition PRIME64_5 :: u64 where "PRIME64_5 = 2870177450012600261"

section \<open>64-bit one-shot hash\<close>

definition XXH64_round :: "u64 \<Rightarrow> u64 \<Rightarrow> u64" where
  "XXH64_round acc input = XXH_rotl64 (acc + input * PRIME64_2) 31 * PRIME64_1"

definition XXH64_mergeRound :: "u64 \<Rightarrow> u64 \<Rightarrow> u64" where
  "XXH64_mergeRound acc val = (acc XOR XXH64_round 0 val) * PRIME64_1 + PRIME64_4"

type_synonym 'w lanes = "'w \<times> 'w \<times> 'w \<times> 'w"

text \<open>Four rounds over the next 32 bytes.\<close>

definition xxh64_stripe :: "XXH_endianess \<Rightarrow> u64 lanes \<Rightarrow> u8 list \<Rightarrow> u64 lanes" where
  "xxh64_stripe endian = (\<lambda>(v1, v2, v3, v4) p.
     (XXH64_round v1 (XXH_readLE64 endian p), XXH64_round v2 (XXH_readLE64 endian (drop 8 p)),
      XXH64_round v3 (XXH_readLE64 endian (drop 16 p)), XXH64_round v4 (XXH_readLE64 endian (drop 24 p))))"

text \<open>The \<open>do\<close> loop, entered with at least one stripe left.\<close>

function xxh64_loop :: "XXH_endianess \<Rightarrow> u64 lanes \<Rightarrow> u8 list \<Rightarrow> u64 lanes \<times> u8 list" where
  "xxh64_loop endian v p =
     (let v = xxh64_stripe endian v p; p = drop 32 p in
      if 32 \<le> length p then xxh64_loop endian v p else (v, p))"
  by pat_completeness auto

termination
  by (relation "measure (\<lambda>(_, _, p). length p)") auto

declare xxh64_loop.simps [simp del]

definition xxh64_init :: "u64 \<Rightarrow> u64 lanes" where
  "xxh64_init seed = (seed + PRIME64_1 + PRIME64_2, seed + PRIME64_2, seed + 0, seed - PRIME64_1)"

definition xxh64_converge :: "u64 lanes \<Rightarrow> u64" where
  "xxh64_converge = (\<lambda>(v1, v2, v3, v4).
     let h64 = XXH_rotl64 v1 1 + XXH_rotl64 v2 7 + XXH_rotl64 v3 12 + XXH_rotl64 v4 18;
         h64 = XXH64_mergeRound h64 v1;
         h64 = XXH64_mergeRound h64 v2;
         h64 = XXH64_mergeRound h64 v3 in
     XXH64_mergeRound h64 v4)"

function xxh64_tail8 :: "XXH_endianess \<Rightarrow> u64 \<Rightarrow> u8 list \<Rightarrow> u64 \<times> u8 list" where
  "xxh64_tail8 endian h64 p =
     (if 8 \<le> length p then
        let k1 = XXH64_round 0 (XXH_readLE64 endian p) in
        xxh64_tail8 endian (XXH_rotl64 (h64 XOR k1) 27 * PRIME64_1 + PRIME64_4) (drop 8 p)
      else (h64, p))"
  by pat_completeness auto

termination
  by (relation "measure (\<lambda>(_, _, p). length p)") auto

declare xxh64_tail8.simps [simp del]

definition xxh64_tail4 :: "XXH_endianess \<Rightarrow> u64 \<times> u8 list \<Rightarrow> u64 \<times> u8 list" where
  "xxh64_tail4 endian = (\<lambda>(h64, p).
     if 4 \<le> length p
     then (XXH_rotl64 (h64 XOR ucast (XXH_readLE32 endian p) * PRIME64_1) 23 * PRIME64_2 + PRIME64_3, drop 4 p)
     else (h64, p))"

definition xxh64_tail1 :: "u64 \<times> u8 list \<Rightarrow> u64" where
  "xxh64_tail1 = (\<lambda>(h64, p).
     fold (\<lambda>b h64. XXH_rotl64 (h64 XOR ucast b * PRIME64_5) 11 * PRIME64_1) p h64)"

definition xxh64_avalanche :: "u64 \<Rightarrow> u64" where
  "xxh64_avalanche h64 =
     (let h64 = h64 XOR drop_bit 33 h64;
          h64 = h64 * PRIME64_2;
          h64 = h64 XOR drop_bit 29 h64;
          h64 = h64 * PRIME64_3 in
      h64 XOR drop_bit 32 h64)"

definition xxh64_finish :: "XXH_endianess \<Rightarrow> u64 \<Rightarrow> u8 list \<Rightarrow> u64" where
  "xxh64_finish endian h64 p =
     xxh64_avalanche (xxh64_tail1 (xxh64_tail4 endian (xxh64_tail8 endian h64 p)))"

definition XXH64_endian_align :: "u8 list \<Rightarrow> u64 \<Rightarrow> XXH_endianess \<Rightarrow> u64" where
  "XXH64_endian_align input seed endian =
     (let (h64, p) =
        (if length input \<ge> 32 then
           let (v, p) = xxh64_loop endian (xxh64_init seed) input in (xxh64_converge v, p)
         else (seed + PRIME64_5, input)) in
      xxh64_finish endian (h64 + of_nat (length input)) p)"

definition XXH64 :: "u8 list \<Rightarrow> u64 \<Rightarrow> u64" where
  "XXH64 input seed = XXH64_endian_align input seed XXH_littleEndian"

section \<open>64-bit streaming hash\<close>

record XXH64_state =
  total_len64 :: u64
  seed64 :: u64
  v64 :: "u64 lanes"
  mem64 :: "u8 list"
  memsize64 :: u32

definition XXH64_reset :: "u64 \<Rightarrow> XXH64_state" where
  "XXH64_reset seed = \<lparr>total_len64 = 0, seed64 = seed, v64 = xxh64_init seed,
     mem64 = replicate 32 0, memsize64 = 0\<rparr>"

text \<open>The buffered bytes are completed to a stripe, then the input is absorbed, then the rest is saved.\<close>

definition xxh64_update_fill :: "XXH_endianess \<Rightarrow> XXH64_state \<Rightarrow> u8 list \<Rightarrow> XXH64_state \<times> u8 list" where
  "xxh64_update_fill endian state input =
     (let memsize = unat (memsize64 state) in
      if memsize \<noteq> 0 then
        let mem = overwrite (mem64 state) memsize (take (32 - memsize) input) in
        (state\<lparr>mem64 := mem, v64 := xxh64_stripe endian (v64 state) mem, memsize64 := 0\<rparr>,
         drop (32 - memsize) input)
      else (state, input))"

definition xxh64_update_bulk :: "XXH_endianess \<Rightarrow> XXH64_state \<times> u8 list \<Rightarrow> XXH64_state" where
  "xxh64_update_bulk endian = (\<lambda>(state, p).
     let (state, p) =
           (if 32 \<le> length p then
              let (v, p) = xxh64_loop endian (v64 state) p in (state\<lparr>v64 := v\<rparr>, p)
            else (state, p)) in
     if 0 < length p
     then state\<lparr>mem64 := overwrite (mem64 state) 0 p, memsize64 := of_nat (length p)\<rparr>
     else state)"

definition XXH64_update_endian :: "XXH_endianess \<Rightarrow> XXH64_state \<Rightarrow> u8 list \<Rightarrow> XXH64_state" where
  "XXH64_update_endian endian state input =
     (let state = state\<lparr>total_len64 := total_len64 state + of_nat (length input)\<rparr> in
      if unat (memsize64 state) + length input < 32 then
        state\<lparr>mem64 := overwrite (mem64 state) (unat (memsize64 state)) input,
          memsize64 := memsize64 state + of_nat (length input)\<rparr>
      else xxh64_update_bulk endian (xxh64_update_fill endian state input))"

definition XXH64_update :: "XXH64_state \<Rightarrow> u8 list \<Rightarrow> XXH64_state" where
  "XXH64_update state_in input = XXH64_update_endian XXH_littleEndian state_in input"

definition XXH64_digest_endian :: "XXH_endianess \<Rightarrow> XXH64_state \<Rightarrow> u64" where
  "XXH64_digest_endian endian state =
     (let p = take (unat (memsize64 state)) (mem64 state);
          h64 = (if total_len64 state \<ge> 32 then xxh64_converge (v64 state)
                 else seed64 state + PRIME64_5) in
      xxh64_finish endian (h64 + total_len64 state) p)"

definition XXH64_digest :: "XXH64_state \<Rightarrow> u64" where
  "XXH64_digest state_in = XXH64_digest_endian XXH_littleEndian state_in"

definition XXH64_canonicalFromHash :: "u64 \<Rightarrow> u8 list" where
  "XXH64_canonicalFromHash hash = le_bytes 8 (XXH_swap64 hash)"

definition XXH64_hashFromCanonical :: "u8 list \<Rightarrow> u64" where
  "XXH64_hashFromCanonical src = XXH_readBE64 src"

section \<open>32-bit one-shot hash\<close>

definition XXH32_round :: "u32 \<Rightarrow> u32 \<Rightarrow> u32" where
  "XXH32_round seed input = XXH_rotl32 (seed + input * PRIME32_2) 13 * PRIME32_1"

text \<open>Four rounds over the next 16 bytes.\<close>

definition xxh32_stripe :: "XXH_endianess \<Rightarrow> u32 lanes \<Rightarrow> u8 list \<Rightarrow> u32 lanes" where
  "xxh32_stripe endian = (\<lambda>(v1, v2, v3, v4) p.
     (XXH32_round v1 (XXH_readLE32 endian p), XXH32_round v2 (XXH_readLE32 endian (drop 4 p)),
      XXH32_round v3 (XXH_readLE32 endian (drop 8 p)), XXH32_round v4 (XXH_readLE32 endian (drop 12 p))))"

text \<open>The \<open>do\<close> loop, entered with at least one stripe left.\<close>

function xxh32_loop :: "XXH_endianess \<Rightarrow> u32 lanes \<Rightarrow> u8 list \<Rightarrow> u32 lanes \<times> u8 list" where
  "xxh32_loop endian v p =
     (let v = xxh32_stripe endian v p; p = drop 16 p in
      if 16 \<le> length p then xxh32_loop endian v p else (v, p))"
  by pat_completeness auto

termination
  by (relation "measure (\<lambda>(_, _, p). length p)") auto

declare xxh32_loop.simps [simp del]

definition xxh32_init :: "u32 \<Rightarrow> u32 lanes" where
  "xxh32_init seed = (seed + PRIME32_1 + PRIME32_2, seed + PRIME32_2, seed + 0, seed - PRIME32_1)"

definition xxh32_converge :: "u32 lanes \<Rightarrow> u32" where
  "xxh32_converge = (\<lambda>(v1, v2, v3, v4).
     XXH_rotl32 v1 1 + XXH_rotl32 v2 7 + XXH_rotl32 v3 12 + XXH_rotl32 v4 18)"

function xxh32_tail4 :: "XXH_endianess \<Rightarrow> u32 \<Rightarrow> u8 list \<Rightarrow> u32 \<times> u8 list" where
  "xxh32_tail4 endian h32 p =
     (if 4 \<le> length p
      then xxh32_tail4 endian (XXH_rotl32 (h32 + XXH_readLE32 endian p * PRIME32_3) 17 * PRIME32_4) (drop 4 p)
      else (h32, p))"
  by pat_completeness auto

termination
  by (relation "measure (\<lambda>(_, _, p). length p)") auto

declare xxh32_tail4.simps [simp del]

definition xxh32_tail1 :: "u32 \<times> u8 list \<Rightarrow> u32" where
  "xxh32_tail1 = (\<lambda>(h32, p).
     fold (\<lambda>b h32. XXH_rotl32 (h32 + ucast b * PRIME32_5) 11 * PRIME32_1) p h32)"

definition xxh32_avalanche :: "u32 \<Rightarrow> u32" where
  "xxh32_avalanche h32 =
     (let h32 = h32 XOR drop_bit 15 h32;
          h32 = h32 * PRIME32_2;
          h32 = h32 XOR drop_bit 13 h32;
          h32 = h32 * PRIME32_3 in
      h32 XOR drop_bit 16 h32)"

definition xxh32_finish :: "XXH_endianess \<Rightarrow> u32 \<Rightarrow> u8 list \<Rightarrow> u32" where
  "xxh32_finish endian h32 p = xxh32_avalanche (xxh32_tail1 (xxh32_tail4 endian h32 p))"

definition XXH32_endian_align :: "u8 list \<Rightarrow> u32 \<Rightarrow> XXH_endianess \<Rightarrow> u32" where
  "XXH32_endian_align input seed endian =
     (let (h32, p) =
        (if length input \<ge> 16 then
           let (v, p) = xxh32_loop endian (xxh32_init seed) input in (xxh32_converge v, p)
         else (seed + PRIME32_5, input)) in
      xxh32_finish endian (h32 + of_nat (length input)) p)"

definition XXH32 :: "u8 list \<Rightarrow> u32 \<Rightarrow> u32" where
  "XXH32 input seed = XXH32_endian_align input seed XXH_littleEndian"

section \<open>32-bit streaming hash\<close>

record XXH32_state =
  total_len32 :: u64
  seed32 :: u32
  v32 :: "u32 lanes"
  mem32 :: "u8 list"
  memsize32 :: u32

definition XXH32_reset :: "u32 \<Rightarrow> XXH32_state" where
  "XXH32_reset seed = \<lparr>total_len32 = 0, seed32 = seed, v32 = xxh32_init seed,
     mem32 = replicate 16 0, memsize32 = 0\<rparr>"

text \<open>The buffered bytes are completed to a stripe, then the input is absorbed, then the rest is saved.\<close>

definition xxh32_update_fill :: "XXH_endianess \<Rightarrow> XXH32_state \<Rightarrow> u8 list \<Rightarrow> XXH32_state \<times> u8 list" where
  "xxh32_update_fill endian state input =
     (let memsize = unat (memsize32 state) in
      if memsize \<noteq> 0 then
        let mem = overwrite (mem32 state) memsize (take (16 - memsize) input) in
        (state\<lparr>mem32 := mem, v32 := xxh32_stripe endian (v32 state) mem, memsize32 := 0\<rparr>,
         drop (16 - memsize) input)
      else (state, input))"

definition xxh32_update_bulk :: "XXH_endianess \<Rightarrow> XXH32_state \<times> u8 list \<Rightarrow> XXH32_state" where
  "xxh32_update_bulk endian = (\<lambda>(state, p).
     let (state, p) =
           (if 16 \<le> length p then
              let (v, p) = xxh32_loop endian (v32 state) p in (state\<lparr>v32 := v\<rparr>, p)
            else (state, p)) in
     if 0 < length p
     then state\<lparr>mem32 := overwrite (mem32 state) 0 p, memsize32 := of_nat (length p)\<rparr>
     else state)"

definition XXH32_update_endian :: "XXH_endianess \<Rightarrow> XXH32_state \<Rightarrow> u8 list \<Rightarrow> XXH32_state" where
  "XXH32_update_endian endian state input =
     (let state = state\<lparr>total_len32 := total_len32 state + of_nat (length input)\<rparr> in
      if unat (memsize32 state) + length input < 16 then
        state\<lparr>mem32 := overwrite (mem32 state) (unat (memsize32 state)) input,
          memsize32 := memsize32 state + of_nat (length input)\<rparr>
      else xxh32_update_bulk endian (xxh32_update_fill endian state input))"

definition XXH32_update :: "XXH32_state \<Rightarrow> u8 list \<Rightarrow> XXH32_state" where
  "XXH32_update state_in input = XXH32_update_endian XXH_littleEndian state_in input"

definition XXH32_digest_endian :: "XXH_endianess \<Rightarrow> XXH32_state \<Rightarrow> u32" where
  "XXH32_digest_endian endian state =
     (let p = take (unat (memsize32 state)) (mem32 state);
          h32 = (if total_len32 state \<ge> 16 then xxh32_converge (v32 state)
                 else seed32 state + PRIME32_5) in
      xxh32_finish endian (h32 + ucast (total_len32 state)) p)"

definition XXH32_digest :: "XXH32_state \<Rightarrow> u32" where
  "XXH32_digest state_in = XXH32_digest_endian XXH_littleEndian state_in"

definition XXH32_canonicalFromHash :: "u32 \<Rightarrow> u8 list" where
  "XXH32_canonicalFromHash hash = le_bytes 4 (XXH_swap32 hash)"

definition XXH32_hashFromCanonical :: "u8 list \<Rightarrow> u32" where
  "XXH32_hashFromCanonical src = XXH_readBE32 src"

section \<open>64-bit streaming agrees with one-shot\<close>

lemma xxh64_loop_absorb:
  "32 \<le> length p \<Longrightarrow> xxh64_loop endian v p = absorb 32 (xxh64_stripe endian) v p"
proof (induction endian v p rule: xxh64_loop.induct)
  case (1 endian v p)
  have s: "xxh64_stripe endian v p = xxh64_stripe endian v (take 32 p)"
    by (simp add: xxh64_stripe_def XXH_readLE64_def XXH_read64_def drop_take min_def split_beta)
  have "absorb 32 (xxh64_stripe endian) v p =
      absorb 32 (xxh64_stripe endian) (xxh64_stripe endian v (take 32 p)) (drop 32 p)"
    using 1(2) by (subst absorb.simps) simp
  then show ?case
    using 1 by (subst xxh64_loop.simps) (simp add: Let_def s)
qed

definition rep_xxh64 :: "u64 \<Rightarrow> XXH64_state \<Rightarrow> u8 list \<Rightarrow> bool" where
  "rep_xxh64 seed c m \<longleftrightarrow> seed64 c = seed \<and> total_len64 c = of_nat (length m) \<and> length (mem64 c) = 32 \<and>
     unat (memsize64 c) = length m mod 32 \<and>
     absorb 32 (xxh64_stripe XXH_littleEndian) (xxh64_init seed) m = (v64 c, take (length m mod 32) (mem64 c))"

lemma unat_small32: "n < 2 ^ 32 \<Longrightarrow> unat (of_nat n :: u32) = n"
  by (simp add: unat_of_nat)

lemma xxh64_update_bulk:
  assumes a: "absorb 32 (xxh64_stripe XXH_littleEndian) (v64 c) p = (v', r)" and "memsize64 c = 0"
  shows "xxh64_update_bulk XXH_littleEndian (c, p) =
      c\<lparr>v64 := v', mem64 := overwrite (mem64 c) 0 r, memsize64 := of_nat (length r)\<rparr>"
proof -
  have "(if 32 \<le> length p then let (v, p) = xxh64_loop XXH_littleEndian (v64 c) p in (c\<lparr>v64 := v\<rparr>, p) else (c, p)) =
      (c\<lparr>v64 := v'\<rparr>, r)"
    using assms by (auto simp: xxh64_loop_absorb)
  moreover have "c\<lparr>v64 := v', mem64 := overwrite (mem64 c) 0 [], memsize64 := 0\<rparr> = c\<lparr>v64 := v'\<rparr>"
    using assms(2) by (simp add: overwrite_def)
  ultimately show ?thesis by (auto simp: xxh64_update_bulk_def)
qed

lemma XXH64_update_rep:
  assumes r: "rep_xxh64 seed c m"
  shows "rep_xxh64 seed (XXH64_update c d) (m @ d)"
proof -
  define u where "u = length m mod 32"
  have u: "u < 32" by (simp add: u_def)
  have um: "(length m + k) mod 32 = (u + k) mod 32" for k unfolding u_def by (rule mod_add_left_eq [symmetric])
  let ?f = "xxh64_stripe XXH_littleEndian"
  have a: "absorb 32 ?f (xxh64_init seed) m = (v64 c, take u (mem64 c))"
    and b: "seed64 c = seed" "total_len64 c = of_nat (length m)" "length (mem64 c) = 32" "unat (memsize64 c) = u"
    using r by (simp_all add: rep_xxh64_def u_def)
  let ?c = "c\<lparr>total_len64 := total_len64 c + of_nat (length d)\<rparr>"
  show ?thesis
  proof (cases "u + length d < 32")
    case True
    have "length (m @ d) mod 32 = u + length d" using True um [of "length d"] by simp
    moreover have "unat (memsize64 c + of_nat (length d)) = u + length d"
      using True b(4) by (simp add: unat_word_ariths unat_of_nat)
    moreover have "absorb 32 ?f (xxh64_init seed) (m @ d) = (v64 c, take u (mem64 c) @ d)"
      by (rule absorb_more [OF a]) (use b u True in auto)
    ultimately show ?thesis
      using True b take_overwrite [of u "mem64 c" d]
      by (simp add: rep_xxh64_def XXH64_update_def XXH64_update_endian_def Let_def)
  next
    case False
    define s where "s = (if u \<noteq> 0 then ?f (v64 c) (take u (mem64 c) @ take (32 - u) d) else v64 c)"
    define p where "p = (if u \<noteq> 0 then drop (32 - u) d else d)"
    define mem where "mem = (if u \<noteq> 0 then take u (mem64 c) @ take (32 - u) d else mem64 c)"
    obtain v' r where ab: "absorb 32 ?f s p = (v', r)" by (cases "absorb 32 ?f s p")
    have lm: "length mem = 32" using b(3) u False by (simp add: mem_def)
    have "absorb 32 ?f (xxh64_init seed) (m @ d) = absorb 32 ?f s p"
    proof (cases "u = 0")
      case True
      then show ?thesis using a unfolding absorb_append [of 32 ?f "xxh64_init seed" m d] a by (simp add: s_def p_def)
    next
      case False
      have "absorb 32 ?f (xxh64_init seed) (m @ take (32 - u) d) = (s, [])"
        unfolding s_def using absorb_fill [OF a, of "take (32 - u) d"] b(3) u False \<open>\<not> u + length d < 32\<close> by simp
      then have "absorb 32 ?f (xxh64_init seed) ((m @ take (32 - u) d) @ drop (32 - u) d) = absorb 32 ?f s p"
        unfolding absorb_append [of 32 ?f "xxh64_init seed" "m @ take (32 - u) d"] using False by (simp add: p_def)
      then show ?thesis by simp
    qed
    then have A: "absorb 32 ?f (xxh64_init seed) (m @ d) = (v', r)" using ab by simp
    have lr: "length r = length (m @ d) mod 32" using absorb_rest [of 32 ?f "xxh64_init seed" "m @ d"] A by simp
    let ?e = "?c\<lparr>mem64 := mem, v64 := s, memsize64 := 0\<rparr>"
    have "XXH64_update c d = ?e\<lparr>v64 := v', mem64 := overwrite (mem64 ?e) 0 r, memsize64 := of_nat (length r)\<rparr>"
    proof -
      have full: "u \<noteq> 0 \<Longrightarrow> overwrite (mem64 c) u (take (32 - u) d) = take u (mem64 c) @ take (32 - u) d"
        using overwrite_full [of u "take (32 - u) d" "mem64 c"] b(3) u False by simp
      have "xxh64_update_fill XXH_littleEndian ?c d = (?e, p)"
        using full b(4) by (auto simp: xxh64_update_fill_def s_def p_def mem_def Let_def unat_eq_0)
      then show ?thesis
        using False b(4) xxh64_update_bulk [of ?e p v' r] ab
        by (simp add: XXH64_update_def XXH64_update_endian_def Let_def)
    qed
    then show ?thesis
      using A lr lm b by (simp add: rep_xxh64_def unat_small32 overwrite_def)
  qed
qed

lemma XXH64_digest_rep:
  assumes r: "rep_xxh64 seed c m" and m: "length m < 2 ^ 64"
  shows "XXH64_digest c = XXH64 m seed"
proof -
  let ?f = "xxh64_stripe XXH_littleEndian"
  have a: "absorb 32 ?f (xxh64_init seed) m = (v64 c, take (length m mod 32) (mem64 c))"
    and b: "seed64 c = seed" "total_len64 c = of_nat (length m)" "unat (memsize64 c) = length m mod 32"
    using r by (simp_all add: rep_xxh64_def)
  have l: "(32 \<le> (of_nat (length m) :: u64)) \<longleftrightarrow> 32 \<le> length m"
    unfolding word_le_nat_alt using m by (simp add: unat_of_nat)
  show ?thesis
  proof (cases "32 \<le> length m")
    case True
    then show ?thesis
      using a b l by (simp add: XXH64_digest_def XXH64_digest_endian_def XXH64_def XXH64_endian_align_def
          xxh64_loop_absorb)
  next
    case False
    then have "take (length m mod 32) (mem64 c) = m" using a by simp
    then show ?thesis
      using False b l by (simp add: XXH64_digest_def XXH64_digest_endian_def XXH64_def XXH64_endian_align_def)
  qed
qed

section \<open>32-bit streaming agrees with one-shot\<close>

lemma xxh32_loop_absorb:
  "16 \<le> length p \<Longrightarrow> xxh32_loop endian v p = absorb 16 (xxh32_stripe endian) v p"
proof (induction endian v p rule: xxh32_loop.induct)
  case (1 endian v p)
  have s: "xxh32_stripe endian v p = xxh32_stripe endian v (take 16 p)"
    by (simp add: xxh32_stripe_def XXH_readLE32_def XXH_read32_def drop_take min_def split_beta)
  have "absorb 16 (xxh32_stripe endian) v p =
      absorb 16 (xxh32_stripe endian) (xxh32_stripe endian v (take 16 p)) (drop 16 p)"
    using 1(2) by (subst absorb.simps) simp
  then show ?case
    using 1 by (subst xxh32_loop.simps) (simp add: Let_def s)
qed

definition rep_xxh32 :: "u32 \<Rightarrow> XXH32_state \<Rightarrow> u8 list \<Rightarrow> bool" where
  "rep_xxh32 seed c m \<longleftrightarrow> seed32 c = seed \<and> total_len32 c = of_nat (length m) \<and> length (mem32 c) = 16 \<and>
     unat (memsize32 c) = length m mod 16 \<and>
     absorb 16 (xxh32_stripe XXH_littleEndian) (xxh32_init seed) m = (v32 c, take (length m mod 16) (mem32 c))"

lemma xxh32_update_bulk:
  assumes a: "absorb 16 (xxh32_stripe XXH_littleEndian) (v32 c) p = (v', r)" and "memsize32 c = 0"
  shows "xxh32_update_bulk XXH_littleEndian (c, p) =
      c\<lparr>v32 := v', mem32 := overwrite (mem32 c) 0 r, memsize32 := of_nat (length r)\<rparr>"
proof -
  have "(if 16 \<le> length p then let (v, p) = xxh32_loop XXH_littleEndian (v32 c) p in (c\<lparr>v32 := v\<rparr>, p) else (c, p)) =
      (c\<lparr>v32 := v'\<rparr>, r)"
    using assms by (auto simp: xxh32_loop_absorb)
  moreover have "c\<lparr>v32 := v', mem32 := overwrite (mem32 c) 0 [], memsize32 := 0\<rparr> = c\<lparr>v32 := v'\<rparr>"
    using assms(2) by (simp add: overwrite_def)
  ultimately show ?thesis by (auto simp: xxh32_update_bulk_def)
qed

lemma XXH32_update_rep:
  assumes r: "rep_xxh32 seed c m"
  shows "rep_xxh32 seed (XXH32_update c d) (m @ d)"
proof -
  define u where "u = length m mod 16"
  have u: "u < 16" by (simp add: u_def)
  have um: "(length m + k) mod 16 = (u + k) mod 16" for k unfolding u_def by (rule mod_add_left_eq [symmetric])
  let ?f = "xxh32_stripe XXH_littleEndian"
  have a: "absorb 16 ?f (xxh32_init seed) m = (v32 c, take u (mem32 c))"
    and b: "seed32 c = seed" "total_len32 c = of_nat (length m)" "length (mem32 c) = 16" "unat (memsize32 c) = u"
    using r by (simp_all add: rep_xxh32_def u_def)
  let ?c = "c\<lparr>total_len32 := total_len32 c + of_nat (length d)\<rparr>"
  show ?thesis
  proof (cases "u + length d < 16")
    case True
    have "length (m @ d) mod 16 = u + length d" using True um [of "length d"] by simp
    moreover have "unat (memsize32 c + of_nat (length d)) = u + length d"
      using True b(4) by (simp add: unat_word_ariths unat_of_nat)
    moreover have "absorb 16 ?f (xxh32_init seed) (m @ d) = (v32 c, take u (mem32 c) @ d)"
      by (rule absorb_more [OF a]) (use b u True in auto)
    ultimately show ?thesis
      using True b take_overwrite [of u "mem32 c" d]
      by (simp add: rep_xxh32_def XXH32_update_def XXH32_update_endian_def Let_def)
  next
    case False
    define s where "s = (if u \<noteq> 0 then ?f (v32 c) (take u (mem32 c) @ take (16 - u) d) else v32 c)"
    define p where "p = (if u \<noteq> 0 then drop (16 - u) d else d)"
    define mem where "mem = (if u \<noteq> 0 then take u (mem32 c) @ take (16 - u) d else mem32 c)"
    obtain v' r where ab: "absorb 16 ?f s p = (v', r)" by (cases "absorb 16 ?f s p")
    have lm: "length mem = 16" using b(3) u False by (simp add: mem_def)
    have "absorb 16 ?f (xxh32_init seed) (m @ d) = absorb 16 ?f s p"
    proof (cases "u = 0")
      case True
      then show ?thesis using a unfolding absorb_append [of 16 ?f "xxh32_init seed" m d] a by (simp add: s_def p_def)
    next
      case False
      have "absorb 16 ?f (xxh32_init seed) (m @ take (16 - u) d) = (s, [])"
        unfolding s_def using absorb_fill [OF a, of "take (16 - u) d"] b(3) u False \<open>\<not> u + length d < 16\<close> by simp
      then have "absorb 16 ?f (xxh32_init seed) ((m @ take (16 - u) d) @ drop (16 - u) d) = absorb 16 ?f s p"
        unfolding absorb_append [of 16 ?f "xxh32_init seed" "m @ take (16 - u) d"] using False by (simp add: p_def)
      then show ?thesis by simp
    qed
    then have A: "absorb 16 ?f (xxh32_init seed) (m @ d) = (v', r)" using ab by simp
    have lr: "length r = length (m @ d) mod 16" using absorb_rest [of 16 ?f "xxh32_init seed" "m @ d"] A by simp
    let ?e = "?c\<lparr>mem32 := mem, v32 := s, memsize32 := 0\<rparr>"
    have "XXH32_update c d = ?e\<lparr>v32 := v', mem32 := overwrite (mem32 ?e) 0 r, memsize32 := of_nat (length r)\<rparr>"
    proof -
      have full: "u \<noteq> 0 \<Longrightarrow> overwrite (mem32 c) u (take (16 - u) d) = take u (mem32 c) @ take (16 - u) d"
        using overwrite_full [of u "take (16 - u) d" "mem32 c"] b(3) u False by simp
      have "xxh32_update_fill XXH_littleEndian ?c d = (?e, p)"
        using full b(4) by (auto simp: xxh32_update_fill_def s_def p_def mem_def Let_def unat_eq_0)
      then show ?thesis
        using False b(4) xxh32_update_bulk [of ?e p v' r] ab
        by (simp add: XXH32_update_def XXH32_update_endian_def Let_def)
    qed
    then show ?thesis
      using A lr lm b by (simp add: rep_xxh32_def unat_small32 overwrite_def)
  qed
qed

lemma ucast_of_nat_32: "(ucast (of_nat n :: u64) :: u32) = of_nat n"
  by (simp add: unsigned_of_nat word_of_nat_eq_iff)

lemma XXH32_digest_rep:
  assumes r: "rep_xxh32 seed c m" and m: "length m < 2 ^ 64"
  shows "XXH32_digest c = XXH32 m seed"
proof -
  let ?f = "xxh32_stripe XXH_littleEndian"
  have a: "absorb 16 ?f (xxh32_init seed) m = (v32 c, take (length m mod 16) (mem32 c))"
    and b: "seed32 c = seed" "total_len32 c = of_nat (length m)" "unat (memsize32 c) = length m mod 16"
    using r by (simp_all add: rep_xxh32_def)
  have l: "(16 \<le> (of_nat (length m) :: u64)) \<longleftrightarrow> 16 \<le> length m"
    unfolding word_le_nat_alt using m by (simp add: unat_of_nat)
  show ?thesis
  proof (cases "16 \<le> length m")
    case True
    then show ?thesis
      using a b l by (simp add: XXH32_digest_def XXH32_digest_endian_def XXH32_def XXH32_endian_align_def ucast_of_nat_32
          xxh32_loop_absorb)
  next
    case False
    then have "take (length m mod 16) (mem32 c) = m" using a by simp
    then show ?thesis
      using False b l by (simp add: XXH32_digest_def XXH32_digest_endian_def XXH32_def XXH32_endian_align_def ucast_of_nat_32)
  qed
qed

section \<open>Byte swaps\<close>

lemma XXH_swap_REVERSE: "XXH_swap32 x = REVERSE32 x" "XXH_swap64 y = REVERSE64 y"
proof -
  have "\<forall>n\<in>set [0..<32]. bit (XXH_swap32 x) n = bit x (8 * (3 - n div 8) + n mod 8)"
    unfolding XXH_swap32_def upt_bits
    by (simp add: no_bit_32 bit_or_iff bit_and_iff bit_drop_bit_eq bit_push_bit_iff) (simp add: numeral_2_eq_2)?
  then show "XXH_swap32 x = REVERSE32 x" by (intro bit_word_eqI) (simp add: bit_REVERSE32)
  have "\<forall>n\<in>set [0..<64]. bit (XXH_swap64 y) n = bit y (8 * (7 - n div 8) + n mod 8)"
    unfolding XXH_swap64_def upt_bits
    by (simp add: no_bit_64 bit_or_iff bit_and_iff bit_drop_bit_eq bit_push_bit_iff) (simp add: numeral_2_eq_2)?
  then show "XXH_swap64 y = REVERSE64 y" by (intro bit_word_eqI) (simp add: bit_REVERSE64)
qed

section \<open>The contract of the streaming interface\<close>

interpretation xxh64_stream: stream_hash "XXH64_reset seed" XXH64_update XXH64_digest "rep_xxh64 seed"
    "\<lambda>m. XXH64 m seed" "\<lambda>m. length m < 2 ^ 64" for seed
  by unfold_locales (simp_all add: XXH64_update_rep XXH64_digest_rep, simp add: rep_xxh64_def XXH64_reset_def)

interpretation xxh32_stream: stream_hash "XXH32_reset seed" XXH32_update XXH32_digest "rep_xxh32 seed"
    "\<lambda>m. XXH32 m seed" "\<lambda>m. length m < 2 ^ 64" for seed
  by unfold_locales (simp_all add: XXH32_update_rep XXH32_digest_rep, simp add: rep_xxh32_def XXH32_reset_def)

section \<open>Properties\<close>

text \<open>
  C17: the streaming interface of xxHash agrees with the one-shot functions.  Resetting a state,
  feeding an input of less than \<open>2 ^ 64\<close> bytes in any pieces and taking the digest gives the hash that
  \<open>XXH64\<close>, respectively \<open>XXH32\<close>, computes of the whole input with the same seed.
\<close>

theorem xxhash_any_pieces:
  assumes "length (concat ds) < 2 ^ 64"
  shows "XXH64_digest (foldl XXH64_update (XXH64_reset s64) ds) = XXH64 (concat ds) s64 \<and>
    XXH32_digest (foldl XXH32_update (XXH32_reset s32) ds) = XXH32 (concat ds) s32"
  using xxh64_stream.digest_chunks [OF assms] xxh32_stream.digest_chunks [OF assms] by blast

theorem xxhash_any_pieces_witness:
  "XXH64_digest (foldl XXH64_update (XXH64_reset 7) [[1, 2, 3], replicate 40 9, []]) =
     XXH64 ([1, 2, 3] @ replicate 40 9) 7"
  using xxhash_any_pieces [of "[[1, 2, 3], replicate 40 9, []]" 7] by simp

text \<open>
  C31: the canonical representation is big endian and loses nothing: reading the canonical bytes of a
  hash gives the hash, and the bytes are those of the hash with the most significant one first.
\<close>

theorem xxhash_canonical_roundtrip:
  "XXH64_hashFromCanonical (XXH64_canonicalFromHash h) = h \<and> XXH64_canonicalFromHash h = be_bytes 8 h \<and>
   XXH32_hashFromCanonical (XXH32_canonicalFromHash k) = k \<and> XXH32_canonicalFromHash k = be_bytes 4 k"
proof -
  have "REVERSE64 (le_word (be_bytes 8 h)) = h" "REVERSE32 (le_word (be_bytes 4 k)) = k"
    by (simp_all add: REVERSE64_le_word REVERSE32_le_word be_word_def be_bytes_def le_word_le_bytes)
  then show ?thesis
    by (simp add: XXH64_hashFromCanonical_def XXH64_canonicalFromHash_def XXH32_hashFromCanonical_def
        XXH32_canonicalFromHash_def XXH_readBE64_def XXH_readBE32_def XXH_read64_def XXH_read32_def
        XXH_swap_REVERSE le_bytes_REVERSE64 le_bytes_REVERSE32)
qed

end
