(* ===== verification/Dmsg_Format.thy ===== *)
theory Dmsg_Format
  imports Io_Monad
begin

text \<open>
  The cluster messages of \<open>lib/libdmsg\<close>: the flags of the command word, the message header of
  \<open>sys/sys/dmsg.h\<close> with its byte layout, and the swap of a header received from a machine of the
  other byte order.
\<close>

named_theorems flag_simps \<open>tests and updates of single flags, read as bits\<close>


section \<open>Flags of the command word and of a transaction state\<close>

definition DMSGF_CREATE :: u32 where "DMSGF_CREATE = 0x80000000"
definition DMSGF_DELETE :: u32 where "DMSGF_DELETE = 0x40000000"
definition DMSGF_REPLY :: u32 where "DMSGF_REPLY = 0x20000000"
definition DMSGF_ABORT :: u32 where "DMSGF_ABORT = 0x10000000"
definition DMSGF_REVTRANS :: u32 where "DMSGF_REVTRANS = 0x08000000"
definition DMSGF_REVCIRC :: u32 where "DMSGF_REVCIRC = 0x04000000"
definition DMSGF_PROTOS :: u32 where "DMSGF_PROTOS = 0x00F00000"
definition DMSGF_CMDS :: u32 where "DMSGF_CMDS = 0x000FFF00"
definition DMSGF_SIZE :: u32 where "DMSGF_SIZE = 0x000000FF"

definition DMSGF_CMDSWMASK :: u32 where
  "DMSGF_CMDSWMASK = DMSGF_CMDS OR DMSGF_SIZE OR DMSGF_PROTOS OR DMSGF_REPLY"

definition DMSGF_BASECMDMASK :: u32 where
  "DMSGF_BASECMDMASK = DMSGF_CMDS OR DMSGF_SIZE OR DMSGF_PROTOS"

definition DMSG_STATE_SUBINSERTED :: u32 where "DMSG_STATE_SUBINSERTED = 0x0001"
definition DMSG_STATE_DYNAMIC :: u32 where "DMSG_STATE_DYNAMIC = 0x0002"
definition DMSG_STATE_ABORTING :: u32 where "DMSG_STATE_ABORTING = 0x0008"
definition DMSG_STATE_OPPOSITE :: u32 where "DMSG_STATE_OPPOSITE = 0x0010"
definition DMSG_STATE_DYING :: u32 where "DMSG_STATE_DYING = 0x0040"
definition DMSG_STATE_RBINSERTED :: u32 where "DMSG_STATE_RBINSERTED = 0x0080"
definition DMSG_STATE_NEW :: u32 where "DMSG_STATE_NEW = 0x0400"
definition DMSG_STATE_ROOT :: u32 where "DMSG_STATE_ROOT = 0x8000"

text \<open>\<open>w & f\<close> as a C condition.\<close>

definition has :: "u32 \<Rightarrow> u32 \<Rightarrow> bool" where
  "has w f \<longleftrightarrow> w AND f \<noteq> 0"

lemmas dmsg_flag_defs =
  DMSGF_CREATE_def DMSGF_DELETE_def DMSGF_REPLY_def DMSGF_ABORT_def DMSGF_REVTRANS_def
  DMSGF_REVCIRC_def DMSG_STATE_SUBINSERTED_def DMSG_STATE_DYNAMIC_def DMSG_STATE_ABORTING_def
  DMSG_STATE_OPPOSITE_def DMSG_STATE_DYING_def DMSG_STATE_RBINSERTED_def DMSG_STATE_NEW_def
  DMSG_STATE_ROOT_def

lemma dmsg_flag_bits:
  "DMSGF_CREATE = push_bit 31 1" "DMSGF_DELETE = push_bit 30 1" "DMSGF_REPLY = push_bit 29 1"
  "DMSGF_ABORT = push_bit 28 1" "DMSGF_REVTRANS = push_bit 27 1" "DMSGF_REVCIRC = push_bit 26 1"
  "DMSG_STATE_SUBINSERTED = push_bit 0 1" "DMSG_STATE_DYNAMIC = push_bit 1 1"
  "DMSG_STATE_ABORTING = push_bit 3 1" "DMSG_STATE_OPPOSITE = push_bit 4 1"
  "DMSG_STATE_DYING = push_bit 6 1" "DMSG_STATE_RBINSERTED = push_bit 7 1"
  "DMSG_STATE_NEW = push_bit 10 1" "DMSG_STATE_ROOT = push_bit 15 1"
  by (simp_all add: dmsg_flag_defs)

text \<open>A test of one flag is a test of its bit, and a flag has no other bit.\<close>

lemma bit_single: "bit (push_bit k 1 :: u32) n \<longleftrightarrow> n = k \<and> k < 32"
  by (auto simp: bit_simps)

lemma has_bit: "n < 32 \<Longrightarrow> has w (push_bit n 1) \<longleftrightarrow> bit w n"
proof -
  assume n: "n < 32"
  have "w AND push_bit n 1 = (if bit w n then push_bit n 1 else 0)"
    by (rule bit_word_eqI) (auto simp: bit_simps)
  moreover have "(push_bit n 1 :: u32) \<noteq> 0"
    using bit_single [of n n] n by auto
  ultimately show ?thesis by (simp add: has_def)
qed

lemma has_or [flag_simps]: "has w (f OR g) \<longleftrightarrow> has w f \<or> has w g"
  by (simp add: has_def bit.conj_disj_distrib or_eq_0_iff)

lemma has_flags [flag_simps]:
  "has w DMSGF_CREATE \<longleftrightarrow> bit w 31"
  "has w DMSGF_DELETE \<longleftrightarrow> bit w 30"
  "has w DMSGF_REPLY \<longleftrightarrow> bit w 29"
  "has w DMSGF_ABORT \<longleftrightarrow> bit w 28"
  "has w DMSGF_REVTRANS \<longleftrightarrow> bit w 27"
  "has w DMSGF_REVCIRC \<longleftrightarrow> bit w 26"
  "has w DMSG_STATE_SUBINSERTED \<longleftrightarrow> bit w 0"
  "has w DMSG_STATE_DYNAMIC \<longleftrightarrow> bit w 1"
  "has w DMSG_STATE_ABORTING \<longleftrightarrow> bit w 3"
  "has w DMSG_STATE_OPPOSITE \<longleftrightarrow> bit w 4"
  "has w DMSG_STATE_DYING \<longleftrightarrow> bit w 6"
  "has w DMSG_STATE_RBINSERTED \<longleftrightarrow> bit w 7"
  "has w DMSG_STATE_NEW \<longleftrightarrow> bit w 10"
  "has w DMSG_STATE_ROOT \<longleftrightarrow> bit w 15"
  unfolding dmsg_flag_bits by (rule has_bit, simp)+

lemma bit_flags [flag_simps]:
  "bit DMSGF_CREATE n \<longleftrightarrow> n = 31"
  "bit DMSGF_DELETE n \<longleftrightarrow> n = 30"
  "bit DMSGF_REPLY n \<longleftrightarrow> n = 29"
  "bit DMSGF_ABORT n \<longleftrightarrow> n = 28"
  "bit DMSGF_REVTRANS n \<longleftrightarrow> n = 27"
  "bit DMSGF_REVCIRC n \<longleftrightarrow> n = 26"
  "bit DMSG_STATE_SUBINSERTED n \<longleftrightarrow> n = 0"
  "bit DMSG_STATE_DYNAMIC n \<longleftrightarrow> n = 1"
  "bit DMSG_STATE_ABORTING n \<longleftrightarrow> n = 3"
  "bit DMSG_STATE_OPPOSITE n \<longleftrightarrow> n = 4"
  "bit DMSG_STATE_DYING n \<longleftrightarrow> n = 6"
  "bit DMSG_STATE_RBINSERTED n \<longleftrightarrow> n = 7"
  "bit DMSG_STATE_NEW n \<longleftrightarrow> n = 10"
  "bit DMSG_STATE_ROOT n \<longleftrightarrow> n = 15"
  by (simp_all only: dmsg_flag_bits bit_single) auto

lemmas flag_ops [flag_simps] = bit_or_iff bit_and_iff bit_not_iff

lemma create_command:
  "cm AND (DMSGF_CREATE OR DMSGF_REPLY) = DMSGF_CREATE \<longleftrightarrow> has cm DMSGF_CREATE \<and> \<not> has cm DMSGF_REPLY"
proof
  assume a: "cm AND (DMSGF_CREATE OR DMSGF_REPLY) = DMSGF_CREATE"
  have "bit (cm AND (DMSGF_CREATE OR DMSGF_REPLY)) 31" "\<not> bit (cm AND (DMSGF_CREATE OR DMSGF_REPLY)) 29"
    unfolding a by (simp_all add: flag_simps)
  then show "has cm DMSGF_CREATE \<and> \<not> has cm DMSGF_REPLY" by (simp add: flag_simps)
next
  assume "has cm DMSGF_CREATE \<and> \<not> has cm DMSGF_REPLY"
  then show "cm AND (DMSGF_CREATE OR DMSGF_REPLY) = DMSGF_CREATE"
    by (intro bit_word_eqI) (auto simp: flag_simps)
qed


section \<open>Messages\<close>

text \<open>
  The header of \<open>sys/sys/dmsg.h\<close>.  An extended header and the auxiliary data follow it.
\<close>

record dmsg_hdr =
  magic :: u16
  reserved02 :: u16
  salt :: u32
  msgid :: u64
  circuit :: u64
  link_verifier :: u64
  cmd :: u32
  aux_crc :: u32
  aux_bytes :: u32
  error :: u32
  aux_descr :: u64
  reserved38 :: u32
  hdr_crc :: u32

definition DMSG_HDR_MAGIC :: u16 where "DMSG_HDR_MAGIC = 0x4832"
definition DMSG_HDR_MAGIC_REV :: u16 where "DMSG_HDR_MAGIC_REV = 0x3248"
definition DMSG_HDR_MAX :: nat where "DMSG_HDR_MAX = 2048"
definition DMSG_AUX_MAX :: nat where "DMSG_AUX_MAX = 1024 * 1024"
definition DMSG_BUF_SIZE :: nat where "DMSG_BUF_SIZE = DMSG_HDR_MAX * 4"
definition DMSG_ALIGN :: nat where "DMSG_ALIGN = 64"

definition DMSG_DOALIGN :: "nat \<Rightarrow> nat" where
  "DMSG_DOALIGN bytes = (bytes + (DMSG_ALIGN - 1)) div DMSG_ALIGN * DMSG_ALIGN"

text \<open>\<open>DMSG_LNK(0xFFF, dmsg_hdr)\<close>: protocol, command, and the header size in units of \<open>DMSG_ALIGN\<close>.\<close>

definition DMSG_LNK_ERROR :: u32 where
  "DMSG_LNK_ERROR = 0 OR push_bit 8 0xFFF OR of_nat ((64 + (DMSG_ALIGN - 1)) div DMSG_ALIGN)"

definition DMSG_ERR_LOSTLINK :: u32 where "DMSG_ERR_LOSTLINK = 0x21"

definition zero_hdr :: dmsg_hdr where
  "zero_hdr = \<lparr>magic = 0, reserved02 = 0, salt = 0, msgid = 0, circuit = 0, link_verifier = 0,
     cmd = 0, aux_crc = 0, aux_bytes = 0, error = 0, aux_descr = 0, reserved38 = 0, hdr_crc = 0\<rparr>"

text \<open>
  A message: its transaction state, the header with the \<open>hdr_size\<close> \<open>- 64\<close> bytes after it, and the
  auxiliary data, which is absent when the pointer is null.
\<close>

type_synonym ptr = u64

record dmsg_msg =
  m_state :: ptr
  hdr_size :: nat
  aux_size :: nat
  aux_data :: "u8 list option"
  tcmd :: u32
  head :: dmsg_hdr
  ext :: "u8 list"

definition m_cmd :: "dmsg_msg \<Rightarrow> u32" where
  "m_cmd msg = cmd (head msg)"

definition set_cmd :: "(u32 \<Rightarrow> u32) \<Rightarrow> dmsg_msg \<Rightarrow> dmsg_msg" where
  "set_cmd f msg = msg\<lparr>head := (head msg)\<lparr>cmd := f (cmd (head msg))\<rparr>\<rparr>"

lemma set_cmd_simps [simp]:
  "m_cmd (set_cmd f msg) = f (m_cmd msg)"
  "m_state (set_cmd f msg) = m_state msg"
  by (simp_all add: set_cmd_def m_cmd_def)

end
