(* ===== verification/Dmsg_State.thy ===== *)
theory Dmsg_State
  imports Dmsg_Format
begin

text \<open>
  The transactions of \<open>lib/libdmsg/msg.c\<close>: states linked into a tree, reference counted, indexed
  per connection by message id, opened by \<open>CREATE\<close>, closed by a \<open>DELETE\<close> in each direction, and
  aborted when the link fails.  A pointer is an address, the heap maps the addresses of the live
  states, and the connections are numbered.  Every operation is the C function of the same name;
  a dereference of an address that is not in the heap ends the run.
\<close>

section \<open>Data\<close>

datatype state_func = Dmsg_state_relay | Master_auth_conn_rx | Other_func nat

record dmsg_state =
  scan :: "ptr option"
  subq :: "ptr list"
  iocom :: nat
  parent :: "ptr option"
  relay :: "ptr option"
  icmd :: u32
  txcmd :: u32
  rxcmd :: u32
  st_msgid :: u64
  flags :: u32
  refs :: nat
  func :: "state_func option"
  any :: u64

text \<open>
  The kind of mutex \<open>pthread_mutex_init(&iocom->mtx, NULL)\<close> makes is the platform's.  POSIX: locking
  a mutex the thread already holds waits for ever (normal), fails with an error that \<open>msg.c\<close> never
  looks at (error checking), or counts (recursive).  \<open>mtx\<close> counts how often the thread holds it.
\<close>

datatype mutex_kind = Mutex_Normal | Mutex_Errorcheck | Mutex_Recursive

text \<open>
  The functions \<open>service.c\<close> installs in a connection: \<open>signal_callback\<close>, which runs when
  \<open>DMSG_IOCOMF_SWORK\<close> (\<open>swork\<close>) is set, and \<open>rcvmsg_callback\<close>.
\<close>

datatype signal_func = Master_auth_signal | Master_link_signal
datatype rcvmsg_func = Master_auth_rxmsg | Master_link_rxmsg

record dmsg_iocom =
  state0 :: ptr
  staterd_tree :: "u64 \<Rightarrow> ptr option"
  statewr_tree :: "u64 \<Rightarrow> ptr option"
  txmsgq :: "dmsg_msg list"
  wakeups :: nat
  mtx_kind :: mutex_kind
  mtx :: nat
  swork :: bool
  signal_callback :: "signal_func option"
  rcvmsg_func :: rcvmsg_func

record dmsg_world =
  heap :: "ptr \<Rightarrow> dmsg_state option"
  coms :: "nat \<Rightarrow> dmsg_iocom"
  dmsg_state_count :: int

type_synonym 'a dio = "(dmsg_world, 'a) io"

text \<open>
  What the functions are given from outside: the address \<open>malloc\<close> returns for a new state, the
  contents of freshly allocated bytes, and the function pointer \<open>iocom->rcvmsg_callback\<close>.
\<close>

record dmsg_env =
  malloc_state :: "(ptr \<Rightarrow> dmsg_state option) \<Rightarrow> ptr"
  garbage :: "nat \<Rightarrow> u8"
  rcvmsg_callback :: "dmsg_msg \<Rightarrow> dmsg_msg dio"

definition deref :: "ptr \<Rightarrow> dmsg_state dio" where
  "deref p w = (case heap w p of None \<Rightarrow> Inl (Use_after_free ''dmsg_state'') | Some st \<Rightarrow> Inr (st, w))"

definition put :: "ptr \<Rightarrow> dmsg_state \<Rightarrow> unit dio" where
  "put p st = modifyS (\<lambda>w. w\<lparr>heap := (heap w)(p := Some st)\<rparr>)"

definition upd :: "ptr \<Rightarrow> (dmsg_state \<Rightarrow> dmsg_state) \<Rightarrow> unit dio" where
  "upd p f = bindS (deref p) (\<lambda>st. put p (f st))"

definition upd_com :: "nat \<Rightarrow> (dmsg_iocom \<Rightarrow> dmsg_iocom) \<Rightarrow> unit dio" where
  "upd_com i f = modifyS (\<lambda>w. w\<lparr>coms := (coms w)(i := f (coms w i))\<rparr>)"

definition nonnull :: "'p option \<Rightarrow> string \<Rightarrow> 'p dio" where
  "nonnull p what = (case p of None \<Rightarrow> stopS (Null_deref what) | Some q \<Rightarrow> returnS q)"


section \<open>The mutex and the reference counts\<close>

definition pthread_mutex_lock :: "nat \<Rightarrow> unit dio" where
  "pthread_mutex_lock i =
     bindS (getS (\<lambda>w. coms w i)) (\<lambda>c.
     if mtx c = 0 then upd_com i (\<lambda>c. c\<lparr>mtx := 1\<rparr>)
     else (case mtx_kind c of
         Mutex_Normal \<Rightarrow> stopS (Deadlock ''iocom->mtx'')
       | Mutex_Errorcheck \<Rightarrow> returnS ()
       | Mutex_Recursive \<Rightarrow> upd_com i (\<lambda>c. c\<lparr>mtx := mtx c + 1\<rparr>)))"

definition pthread_mutex_unlock :: "nat \<Rightarrow> unit dio" where
  "pthread_mutex_unlock i = upd_com i (\<lambda>c. c\<lparr>mtx := mtx c - 1\<rparr>)"

definition dmsg_state_hold :: "ptr \<Rightarrow> unit dio" where
  "dmsg_state_hold p = upd p (\<lambda>st. st\<lparr>refs := refs st + 1\<rparr>)"

definition dmsg_state_free :: "ptr \<Rightarrow> unit dio" where
  "dmsg_state_free p =
     bindS (modifyS (\<lambda>w. w\<lparr>dmsg_state_count := dmsg_state_count w - 1\<rparr>)) (\<lambda>_.
     bindS (deref p) (\<lambda>st.
     bindS (assertS (\<not> has (flags st)
       (DMSG_STATE_ROOT OR DMSG_STATE_SUBINSERTED OR DMSG_STATE_RBINSERTED)) ''state_free: flags'') (\<lambda>_.
     bindS (assertS (subq st = []) ''state_free: subq'') (\<lambda>_.
     bindS (assertS (refs st = 0) ''state_free: refs'') (\<lambda>_.
     bindS (assertS (any st = 0) ''state_free: any'') (\<lambda>_.
     modifyS (\<lambda>w. w\<lparr>heap := (heap w)(p := None)\<rparr>)))))))"

definition dmsg_state_drop :: "ptr \<Rightarrow> unit dio" where
  "dmsg_state_drop p =
     bindS (deref p) (\<lambda>st.
     bindS (assertS (refs st > 0) ''state_drop: refs'') (\<lambda>_.
     bindS (put p (st\<lparr>refs := refs st - 1\<rparr>)) (\<lambda>_.
     whenS (refs st = 1) (dmsg_state_free p))))"

definition dmsg_msg_free_locked :: "dmsg_msg \<Rightarrow> unit dio" where
  "dmsg_msg_free_locked msg = dmsg_state_drop (m_state msg)"

definition dmsg_msg_free :: "dmsg_msg \<Rightarrow> unit dio" where
  "dmsg_msg_free msg =
     bindS (deref (m_state msg)) (\<lambda>st.
     bindS (pthread_mutex_lock (iocom st)) (\<lambda>_.
     bindS (dmsg_msg_free_locked msg) (\<lambda>_.
     pthread_mutex_unlock (iocom st))))"

text \<open>
  \<open>RB_INSERT\<close> leaves the tree alone when the key is there, which \<open>msg.c\<close> does not look at;
  \<open>RB_REMOVE\<close> and \<open>TAILQ_REMOVE\<close> of an element that is not linked corrupt memory.
\<close>

definition RB_INSERT :: "u64 \<Rightarrow> ptr \<Rightarrow> (u64 \<Rightarrow> ptr option) \<Rightarrow> (u64 \<Rightarrow> ptr option)" where
  "RB_INSERT k p t = (if t k = None then t(k := Some p) else t)"

definition RB_REMOVE_rd :: "nat \<Rightarrow> ptr \<Rightarrow> dmsg_state \<Rightarrow> unit dio" where
  "RB_REMOVE_rd i p st =
     bindS (getS (\<lambda>w. staterd_tree (coms w i))) (\<lambda>t.
     if t (st_msgid st) = Some p
     then upd_com i (\<lambda>c. c\<lparr>staterd_tree := (staterd_tree c)(st_msgid st := None)\<rparr>)
     else stopS (Use_after_free ''RB_REMOVE''))"

definition RB_REMOVE_wr :: "nat \<Rightarrow> ptr \<Rightarrow> dmsg_state \<Rightarrow> unit dio" where
  "RB_REMOVE_wr i p st =
     bindS (getS (\<lambda>w. statewr_tree (coms w i))) (\<lambda>t.
     if t (st_msgid st) = Some p
     then upd_com i (\<lambda>c. c\<lparr>statewr_tree := (statewr_tree c)(st_msgid st := None)\<rparr>)
     else stopS (Use_after_free ''RB_REMOVE''))"

definition subq_remove :: "ptr \<Rightarrow> ptr \<Rightarrow> unit dio" where
  "subq_remove q p =
     bindS (deref q) (\<lambda>pst.
     if p \<in> set (subq pst) then put q (pst\<lparr>subq := remove1 p (subq pst)\<rparr>)
     else stopS (Use_after_free ''TAILQ_REMOVE''))"

definition dmsg_subq_delete :: "ptr \<Rightarrow> unit dio" where
  "dmsg_subq_delete p =
     bindS (deref p) (\<lambda>st.
     if has (flags st) DMSG_STATE_SUBINSERTED then
       (case parent st of
          None \<Rightarrow> stopS (Assert_failed ''subq_delete: pstate'')
        | Some q \<Rightarrow>
            bindS (deref q) (\<lambda>pst.
            bindS (whenS (scan pst = Some p) (upd q (\<lambda>st. st\<lparr>scan := None\<rparr>))) (\<lambda>_.
            bindS (subq_remove q p) (\<lambda>_.
            bindS (upd p (\<lambda>st. st\<lparr>flags := flags st AND NOT DMSG_STATE_SUBINSERTED\<rparr>)) (\<lambda>_.
            bindS (upd p (\<lambda>st. st\<lparr>parent := None\<rparr>)) (\<lambda>_.
            bindS (deref q) (\<lambda>pst.
            bindS (whenS (subq pst = []) (dmsg_state_drop q)) (\<lambda>_.
            dmsg_state_drop p))))))))
     else assertS (parent st = None) ''subq_delete: parent'')"


section \<open>Messages over a transaction\<close>

definition new_state :: dmsg_state where
  "new_state = \<lparr>scan = None, subq = [], iocom = 0, parent = None, relay = None, icmd = 0, txcmd = 0,
     rxcmd = 0, st_msgid = 0, flags = 0, refs = 0, func = None, any = 0\<rparr>"

text \<open>\<open>malloc\<close> and \<open>bzero\<close> of a state.\<close>

definition alloc_state :: "dmsg_env \<Rightarrow> ptr dio" where
  "alloc_state env =
     bindS (getS (\<lambda>w. malloc_state env (heap w))) (\<lambda>p.
     bindS (put p new_state) (\<lambda>_.
     bindS (modifyS (\<lambda>w. w\<lparr>dmsg_state_count := dmsg_state_count w + 1\<rparr>)) (\<lambda>_.
     returnS p)))"

definition subq_insert_tail :: "ptr \<Rightarrow> ptr \<Rightarrow> unit dio" where
  "subq_insert_tail q p = upd q (\<lambda>st. st\<lparr>subq := subq st @ [p]\<rparr>)"

text \<open>
  \<open>dmsg_msg_alloc_locked\<close>: the new transaction of a \<open>CREATE\<close> without \<open>REPLY\<close>, else a message over the
  transaction given.  The result is the state of the message and its parent.
\<close>

definition msg_alloc_state ::
    "dmsg_env \<Rightarrow> ptr \<Rightarrow> u32 \<Rightarrow> state_func option \<Rightarrow> u64 \<Rightarrow> (ptr \<times> ptr) dio" where
  "msg_alloc_state env p cm fn data =
     bindS (deref p) (\<lambda>st0.
     if cm AND (DMSGF_CREATE OR DMSGF_REPLY) = DMSGF_CREATE then
       let pstate = p in
       bindS (alloc_state env) (\<lambda>state.
       bindS (deref pstate) (\<lambda>pst.
       bindS (upd state (\<lambda>st. st\<lparr>parent := Some pstate, iocom := iocom st0,
         flags := DMSG_STATE_DYNAMIC OR (DMSG_STATE_SUBINSERTED OR DMSG_STATE_RBINSERTED)
           OR (flags pst AND DMSG_STATE_DYING),
         st_msgid := state,
         txcmd := cm AND NOT (DMSGF_CREATE OR DMSGF_DELETE),
         rxcmd := DMSGF_REPLY,
         icmd := cm AND NOT (DMSGF_CREATE OR DMSGF_DELETE) AND DMSGF_BASECMDMASK,
         func := fn, any := data\<rparr>)) (\<lambda>_.
       bindS (whenS (subq pst = []) (dmsg_state_hold pstate)) (\<lambda>_.
       bindS (upd_com (iocom st0)
         (\<lambda>c. c\<lparr>statewr_tree := RB_INSERT state state (statewr_tree c)\<rparr>)) (\<lambda>_.
       bindS (subq_insert_tail pstate state) (\<lambda>_.
       bindS (dmsg_state_hold state) (\<lambda>_.
       bindS (dmsg_state_hold state) (\<lambda>_.
       bindS (dmsg_state_hold state) (\<lambda>_.
       returnS (state, pstate))))))))))
     else
       bindS (nonnull (parent st0) ''pstate'') (\<lambda>pstate.
       bindS (dmsg_state_hold p) (\<lambda>_.
       returnS (p, pstate))))"

text \<open>The flags of a remotely started transaction and circuit, and the rest of the header.\<close>

definition msg_flags :: "dmsg_state \<Rightarrow> dmsg_state \<Rightarrow> u32 \<Rightarrow> u32" where
  "msg_flags st pst cm =
     (let cm = (if has (flags st) DMSG_STATE_OPPOSITE then cm OR DMSGF_REVTRANS else cm) in
      if has (flags pst) DMSG_STATE_OPPOSITE then cm OR DMSGF_REVCIRC else cm)"

definition msg_aux :: "dmsg_env \<Rightarrow> nat \<Rightarrow> u8 list option" where
  "msg_aux env asize =
     (if asize = 0 then None
      else Some (map (garbage env) [0..<asize] @ replicate (DMSG_DOALIGN asize - asize) 0))"

definition msg_fill :: "dmsg_env \<Rightarrow> nat \<Rightarrow> u32 \<Rightarrow> ptr \<Rightarrow> ptr \<Rightarrow> dmsg_msg dio" where
  "msg_fill env asize cm state pstate =
     (let hbytes = unat (cm AND DMSGF_SIZE) * DMSG_ALIGN in
      bindS (assertS (64 \<le> hbytes) ''msg_alloc: hbytes'') (\<lambda>_.
      bindS (deref state) (\<lambda>st.
      bindS (deref pstate) (\<lambda>pst.
      returnS \<lparr>m_state = state, hdr_size = hbytes, aux_size = asize, aux_data = msg_aux env asize, tcmd = 0,
        head = zero_hdr\<lparr>magic := DMSG_HDR_MAGIC, cmd := msg_flags st pst cm, msgid := st_msgid st,
          circuit := st_msgid pst\<rparr>,
        ext = replicate (hbytes - 64) 0\<rparr>))))"

definition dmsg_msg_alloc_locked ::
    "dmsg_env \<Rightarrow> ptr \<Rightarrow> nat \<Rightarrow> u32 \<Rightarrow> state_func option \<Rightarrow> u64 \<Rightarrow> dmsg_msg dio" where
  "dmsg_msg_alloc_locked env p asize cm fn data =
     bindS (msg_alloc_state env p cm fn data) (\<lambda>(state, pstate). msg_fill env asize cm state pstate)"

definition dmsg_msg_alloc ::
    "dmsg_env \<Rightarrow> ptr \<Rightarrow> nat \<Rightarrow> u32 \<Rightarrow> state_func option \<Rightarrow> u64 \<Rightarrow> dmsg_msg dio" where
  "dmsg_msg_alloc env p asize cm fn data =
     bindS (deref p) (\<lambda>st.
     bindS (pthread_mutex_lock (iocom st)) (\<lambda>_.
     bindS (dmsg_msg_alloc_locked env p asize cm fn data) (\<lambda>msg.
     bindS (pthread_mutex_unlock (iocom st)) (\<lambda>_.
     returnS msg))))"


section \<open>Reception\<close>

definition DMSG_IOQ_ERROR_EALREADY :: nat where "DMSG_IOQ_ERROR_EALREADY = 16"
definition DMSG_IOQ_ERROR_TRANS :: nat where "DMSG_IOQ_ERROR_TRANS = 17"

text \<open>
  \<open>dmsg_state_msgrx\<close> in the order of the source: the circuit (\<open>None\<close> when it is not found), the state
  of the message id, and the switch over \<open>CREATE\<close>, \<open>DELETE\<close> and \<open>REPLY\<close>.
\<close>

definition msgrx_pstate :: "dmsg_iocom \<Rightarrow> dmsg_msg \<Rightarrow> ptr option" where
  "msgrx_pstate c msg =
     (if circuit (head msg) \<noteq> 0 then
        (if has (m_cmd msg) DMSGF_REVCIRC then statewr_tree c (circuit (head msg))
         else staterd_tree c (circuit (head msg)))
      else Some (state0 c))"

definition msgrx_lookup :: "dmsg_iocom \<Rightarrow> dmsg_msg \<Rightarrow> ptr option" where
  "msgrx_lookup c msg =
     (if has (m_cmd msg) DMSGF_REVTRANS then statewr_tree c (msgid (head msg))
      else staterd_tree c (msgid (head msg)))"

definition msgrx_create :: "dmsg_env \<Rightarrow> nat \<Rightarrow> dmsg_msg \<Rightarrow> ptr \<Rightarrow> ptr dio" where
  "msgrx_create env i msg pstate =
     bindS (alloc_state env) (\<lambda>state.
     bindS (dmsg_state_hold pstate) (\<lambda>_.
     bindS (upd state (\<lambda>st. st\<lparr>parent := Some pstate, iocom := i,
       flags := (DMSG_STATE_DYNAMIC OR DMSG_STATE_OPPOSITE) AND NOT DMSG_STATE_NEW,
       st_msgid := msgid (head msg),
       txcmd := DMSGF_REPLY,
       rxcmd := m_cmd msg AND NOT DMSGF_DELETE,
       icmd := m_cmd msg AND NOT DMSGF_DELETE AND DMSGF_BASECMDMASK\<rparr>)) (\<lambda>_.
     bindS (upd_com i
       (\<lambda>c. c\<lparr>staterd_tree := RB_INSERT (msgid (head msg)) state (staterd_tree c)\<rparr>)) (\<lambda>_.
     bindS (deref pstate) (\<lambda>pst.
     bindS (whenS (subq pst = []) (dmsg_state_hold pstate)) (\<lambda>_.
     bindS (subq_insert_tail pstate state) (\<lambda>_.
     bindS (upd state (\<lambda>st. st\<lparr>flags := flags st OR
       (DMSG_STATE_SUBINSERTED OR DMSG_STATE_RBINSERTED)\<rparr>)) (\<lambda>_.
     bindS (dmsg_state_hold state) (\<lambda>_.
     bindS (dmsg_state_hold state) (\<lambda>_.
     bindS (dmsg_state_hold state) (\<lambda>_.
     bindS (deref pstate) (\<lambda>pst.
     bindS (whenS (relay pst \<noteq> None) (upd state (\<lambda>st. st\<lparr>func := Some Dmsg_state_relay\<rparr>))) (\<lambda>_.
     returnS state)))))))))))))"

text \<open>A \<open>DELETE\<close> or a mid-stream \<open>ABORT\<close> of a transaction that is not there, or is another one.\<close>

definition msgrx_missing :: "ptr \<Rightarrow> ptr option \<Rightarrow> bool dio" where
  "msgrx_missing state pstate =
     (if pstate = Some state then returnS True
      else bindS (deref state) (\<lambda>st. returnS (\<not> has (rxcmd st) DMSGF_CREATE)))"

definition msgrx_switch ::
    "dmsg_env \<Rightarrow> nat \<Rightarrow> dmsg_msg \<Rightarrow> ptr \<Rightarrow> ptr option \<Rightarrow> (nat \<times> ptr \<times> dmsg_msg) dio" where
  "msgrx_switch env i msg state pstate =
     (let C = has (m_cmd msg) DMSGF_CREATE; D = has (m_cmd msg) DMSGF_DELETE;
          R = has (m_cmd msg) DMSGF_REPLY; A = has (m_cmd msg) DMSGF_ABORT in
      if C \<and> \<not> R then
        bindS (assertS (pstate = Some state) ''duplicate transaction'') (\<lambda>_.
        bindS (msgrx_create env i msg state) (\<lambda>state.
        returnS (0, state, msg\<lparr>m_state := state\<rparr>)))
      else if D \<and> \<not> C then
        bindS (msgrx_missing state pstate) (\<lambda>missing.
        if missing then
          bindS (assertS A (if R then ''no-state(r,d)'' else ''missing-state'')) (\<lambda>_.
          returnS (DMSG_IOQ_ERROR_EALREADY, state, msg))
        else returnS (0, state, msg))
      else if C \<and> R then
        bindS (assertS (pstate \<noteq> Some state) ''no-state(r)'') (\<lambda>_.
        bindS (deref state) (\<lambda>st.
        bindS (assertS (\<not> has (rxcmd st XOR m_cmd msg) DMSGF_REPLY) ''msgrx: direction'') (\<lambda>_.
        bindS (upd state (\<lambda>st. st\<lparr>rxcmd := m_cmd msg AND NOT DMSGF_DELETE\<rparr>)) (\<lambda>_.
        returnS (0, state, msg)))))
      else if A then
        bindS (msgrx_missing state pstate) (\<lambda>missing.
        returnS (if missing then DMSG_IOQ_ERROR_EALREADY else 0, state, msg))
      else returnS (0, state, msg))"

definition msgrx_tcmd :: "dmsg_msg \<Rightarrow> dmsg_state \<Rightarrow> dmsg_state \<Rightarrow> u32" where
  "msgrx_tcmd msg mst st =
     (if has (m_cmd msg) (DMSGF_CREATE OR DMSGF_DELETE) then
        (if \<not> has (flags mst) DMSG_STATE_ROOT then
           (icmd st AND DMSGF_BASECMDMASK) OR
           (m_cmd msg AND (DMSGF_CREATE OR DMSGF_DELETE OR DMSGF_REPLY))
         else 0)
      else m_cmd msg AND DMSGF_CMDSWMASK)"

definition msgrx_delete :: "nat \<Rightarrow> dmsg_msg \<Rightarrow> ptr \<Rightarrow> unit dio" where
  "msgrx_delete i msg state =
     bindS (deref state) (\<lambda>st.
     if has (flags st) DMSG_STATE_ROOT then returnS ()
     else if has (m_cmd msg) DMSGF_DELETE then
       bindS (assertS (\<not> has (rxcmd st) DMSGF_DELETE) ''msgrx: rxcmd'') (\<lambda>_.
       bindS (upd state (\<lambda>st. st\<lparr>rxcmd := rxcmd st OR DMSGF_DELETE\<rparr>)) (\<lambda>_.
       whenS (has (txcmd st) DMSGF_DELETE)
         (bindS (assertS (has (flags st) DMSG_STATE_RBINSERTED) ''msgrx: RBINSERTED'') (\<lambda>_.
          bindS (if has (rxcmd st) DMSGF_REPLY then
                   bindS (assertS (has (m_cmd msg) DMSGF_REPLY) ''msgrx: reply'') (\<lambda>_.
                   RB_REMOVE_wr i state st)
                 else
                   bindS (assertS (\<not> has (m_cmd msg) DMSGF_REPLY) ''msgrx: command'') (\<lambda>_.
                   RB_REMOVE_rd i state st)) (\<lambda>_.
          bindS (upd state (\<lambda>st. st\<lparr>flags := flags st AND NOT DMSG_STATE_RBINSERTED\<rparr>)) (\<lambda>_.
          dmsg_state_drop state))))))
     else returnS ())"

definition msgrx_finish :: "nat \<Rightarrow> nat \<Rightarrow> ptr \<Rightarrow> dmsg_msg \<Rightarrow> (nat \<times> dmsg_msg) dio" where
  "msgrx_finish i err state msg =
     bindS (deref (m_state msg)) (\<lambda>mst.
     bindS (deref state) (\<lambda>st.
     let msg = msg\<lparr>tcmd := msgrx_tcmd msg mst st\<rparr> in
     bindS (assertS (iocom mst = i) ''msgrx: iocom'') (\<lambda>_.
     bindS (assertS (m_state msg = state) ''msgrx: msg->state == state'') (\<lambda>_.
     bindS (msgrx_delete i msg state) (\<lambda>_.
     bindS (pthread_mutex_unlock i) (\<lambda>_.
     returnS (err, msg)))))))"

definition msgrx_found ::
    "dmsg_env \<Rightarrow> nat \<Rightarrow> dmsg_msg \<Rightarrow> ptr \<Rightarrow> ptr option \<Rightarrow> (nat \<times> dmsg_msg) dio" where
  "msgrx_found env i msg state pstate =
     bindS (msgrx_switch env i msg state pstate) (\<lambda>(err, state, msg). msgrx_finish i err state msg)"

definition msgrx_dispatch :: "dmsg_env \<Rightarrow> nat \<Rightarrow> dmsg_msg \<Rightarrow> (nat \<times> dmsg_msg) dio" where
  "msgrx_dispatch env i msg =
     bindS (getS (\<lambda>w. coms w i)) (\<lambda>c.
     case msgrx_pstate c msg of
       None \<Rightarrow> bindS (pthread_mutex_unlock i) (\<lambda>_. returnS (DMSG_IOQ_ERROR_EALREADY, msg))
     | Some pstate \<Rightarrow>
         (case msgrx_lookup c msg of
            None \<Rightarrow> msgrx_found env i msg pstate (Some pstate)
          | Some state \<Rightarrow>
              bindS (dmsg_state_drop (m_state msg)) (\<lambda>_.
              bindS (dmsg_state_hold state) (\<lambda>_.
              bindS (deref state) (\<lambda>st.
              bindS (assertS (Some pstate = parent st) ''msgrx: pstate == state->parent'') (\<lambda>_.
              msgrx_found env i (msg\<lparr>m_state := state\<rparr>) state (Some pstate)))))))"

definition dmsg_state_msgrx :: "dmsg_env \<Rightarrow> dmsg_msg \<Rightarrow> bool \<Rightarrow> (nat \<times> dmsg_msg) dio" where
  "dmsg_state_msgrx env msg mstate =
     bindS (deref (m_state msg)) (\<lambda>mst.
     bindS (pthread_mutex_lock (iocom mst)) (\<lambda>_.
     if mstate then msgrx_found env (iocom mst) msg (m_state msg) (parent mst)
     else msgrx_dispatch env (iocom mst) msg))"

definition drop_relay :: "ptr \<Rightarrow> unit dio" where
  "drop_relay p =
     bindS (deref p) (\<lambda>st.
     case relay st of
       None \<Rightarrow> returnS ()
     | Some r \<Rightarrow> bindS (dmsg_state_drop r) (\<lambda>_. upd p (\<lambda>st. st\<lparr>relay := None\<rparr>)))"

definition dmsg_state_cleanuprx :: "nat \<Rightarrow> dmsg_msg \<Rightarrow> unit dio" where
  "dmsg_state_cleanuprx i msg =
     bindS (deref (m_state msg)) (\<lambda>st.
     bindS (assertS (iocom st = i) ''cleanuprx: iocom'') (\<lambda>_.
     if has (flags st) DMSG_STATE_ROOT then dmsg_msg_free msg
     else if has (flags st) DMSG_STATE_SUBINSERTED \<and> has (rxcmd st) DMSGF_DELETE
           \<and> has (txcmd st) DMSGF_DELETE then
       bindS (dmsg_subq_delete (m_state msg)) (\<lambda>_.
       bindS (drop_relay (m_state msg)) (\<lambda>_.
       dmsg_msg_free msg))
     else dmsg_msg_free msg))"


section \<open>Failure of a link\<close>

text \<open>
  The recursions over the tree of transactions run on fuel; the simulated failure calls back into
  the user of the library, which may do anything.
\<close>

fun dmsg_state_dying :: "nat \<Rightarrow> ptr \<Rightarrow> unit dio" where
  "dmsg_state_dying 0 p = stopS (Diverges ''state_dying'')"
| "dmsg_state_dying (Suc n) p =
     bindS (deref p) (\<lambda>st.
     whenS (\<not> has (flags st) DMSG_STATE_DYING)
       (bindS (put p (st\<lparr>flags := flags st OR DMSG_STATE_DYING\<rparr>)) (\<lambda>_.
        forS (subq st) (\<lambda>c _. dmsg_state_dying n c) ())))"

definition dmsg_state_abort :: "nat \<Rightarrow> dmsg_env \<Rightarrow> ptr \<Rightarrow> unit dio" where
  "dmsg_state_abort n env p =
     bindS (deref p) (\<lambda>st.
     if has (flags st) DMSG_STATE_ABORTING then returnS ()
     else
       bindS (put p (st\<lparr>flags := flags st OR DMSG_STATE_ABORTING\<rparr>)) (\<lambda>_.
       bindS (dmsg_state_dying n p) (\<lambda>_.
       bindS (deref p) (\<lambda>st.
       if has (flags st) DMSG_STATE_NEW then returnS ()
       else whenS (\<not> has (rxcmd st) DMSGF_DELETE)
         (bindS (dmsg_msg_alloc_locked env p 0 DMSG_LNK_ERROR None 0) (\<lambda>msg.
          let msg = (if \<not> has (rxcmd st) DMSGF_CREATE then set_cmd (\<lambda>c. c OR DMSGF_CREATE) msg else msg);
              msg = set_cmd (\<lambda>c. c OR (DMSGF_DELETE OR (rxcmd st AND DMSGF_REPLY))) msg;
              msg = set_cmd (\<lambda>c. c XOR (DMSGF_REVTRANS OR DMSGF_REVCIRC)) msg;
              msg = msg\<lparr>head := (head msg)\<lparr>error := DMSG_ERR_LOSTLINK\<rparr>\<rparr>;
              msg = set_cmd (\<lambda>c. c OR DMSGF_ABORT) msg in
          bindS (dmsg_state_msgrx env msg True) (\<lambda>(err, msg).
          bindS (pthread_mutex_unlock (iocom st)) (\<lambda>_.
          bindS (rcvmsg_callback env msg) (\<lambda>msg.
          bindS (pthread_mutex_lock (iocom st)) (\<lambda>_.
          dmsg_state_cleanuprx (iocom st) msg))))))))))"

definition subq_next :: "ptr \<Rightarrow> ptr list \<Rightarrow> ptr option dio" where
  "subq_next c ps =
     (case dropWhile (\<lambda>x. x \<noteq> c) ps of
        [] \<Rightarrow> stopS (Use_after_free ''TAILQ_NEXT'')
      | _ # [] \<Rightarrow> returnS None
      | _ # d # _ \<Rightarrow> returnS (Some d))"

definition subq_first :: "ptr list \<Rightarrow> ptr option" where
  "subq_first ps = (case ps of [] \<Rightarrow> None | c # _ \<Rightarrow> Some c)"

fun dmsg_simulate_failure :: "nat \<Rightarrow> dmsg_env \<Rightarrow> ptr \<Rightarrow> bool \<Rightarrow> unit dio"
  and simulate_substates :: "nat \<Rightarrow> dmsg_env \<Rightarrow> ptr \<Rightarrow> ptr option \<Rightarrow> unit dio" where
  "dmsg_simulate_failure 0 env p meto = stopS (Diverges ''simulate_failure'')"
| "dmsg_simulate_failure (Suc n) env p meto =
     bindS (dmsg_state_hold p) (\<lambda>_.
     bindS (whenS meto (dmsg_state_abort n env p)) (\<lambda>_.
     bindS (deref p) (\<lambda>st.
     bindS (simulate_substates n env p (subq_first (subq st))) (\<lambda>_.
     dmsg_state_drop p))))"
| "simulate_substates 0 env p sub = stopS (Diverges ''simulate_failure'')"
| "simulate_substates (Suc n) env p sub =
     (case sub of
        None \<Rightarrow> returnS ()
      | Some c \<Rightarrow>
          bindS (deref c) (\<lambda>cst.
          if has (flags cst) DMSG_STATE_ABORTING then
            bindS (deref p) (\<lambda>st. bindS (subq_next c (subq st)) (simulate_substates n env p))
          else
            bindS (upd p (\<lambda>st. st\<lparr>scan := Some c\<rparr>)) (\<lambda>_.
            bindS (dmsg_simulate_failure n env c True) (\<lambda>_.
            bindS (deref p) (\<lambda>st.
            if scan st \<noteq> Some c then simulate_substates n env p (subq_first (subq st))
            else bindS (subq_next c (subq st)) (simulate_substates n env p))))))"


section \<open>Transmission\<close>

definition cleanuptx_delete :: "nat \<Rightarrow> dmsg_msg \<Rightarrow> unit dio" where
  "cleanuptx_delete i msg =
     (let p = m_state msg in
      bindS (deref p) (\<lambda>st.
      if \<not> has (txcmd st) DMSGF_DELETE \<and> has (rxcmd st) DMSGF_DELETE then
        bindS (upd p (\<lambda>st. st\<lparr>txcmd := txcmd st OR DMSGF_DELETE\<rparr>)) (\<lambda>_.
        bindS (assertS (has (flags st) DMSG_STATE_RBINSERTED) ''cleanuptx: RBINSERTED'') (\<lambda>_.
        bindS (if has (txcmd st) DMSGF_REPLY then
                 bindS (assertS (has (m_cmd msg) DMSGF_REPLY) ''cleanuptx: reply'') (\<lambda>_.
                 RB_REMOVE_rd i p st)
               else
                 bindS (assertS (\<not> has (m_cmd msg) DMSGF_REPLY) ''cleanuptx: command'') (\<lambda>_.
                 RB_REMOVE_wr i p st)) (\<lambda>_.
        bindS (upd p (\<lambda>st. st\<lparr>flags := flags st AND NOT DMSG_STATE_RBINSERTED\<rparr>)) (\<lambda>_.
        bindS (dmsg_subq_delete p) (\<lambda>_.
        bindS (drop_relay p) (\<lambda>_.
        dmsg_state_drop p))))))
      else whenS (\<not> has (txcmd st) DMSGF_DELETE) (upd p (\<lambda>st. st\<lparr>txcmd := txcmd st OR DMSGF_DELETE\<rparr>))))"

definition deferred_abort :: "nat \<Rightarrow> dmsg_env \<Rightarrow> ptr \<Rightarrow> unit dio" where
  "deferred_abort n env p =
     bindS (deref p) (\<lambda>st.
     whenS (has (flags st) (DMSG_STATE_ABORTING OR DMSG_STATE_DYING) \<and> \<not> has (rxcmd st) DMSGF_DELETE)
       (bindS (upd p (\<lambda>st. st\<lparr>flags := flags st AND NOT DMSG_STATE_ABORTING\<rparr>)) (\<lambda>_.
        dmsg_simulate_failure n env p True)))"

definition dmsg_state_cleanuptx :: "nat \<Rightarrow> dmsg_env \<Rightarrow> nat \<Rightarrow> dmsg_msg \<Rightarrow> unit dio" where
  "dmsg_state_cleanuptx n env i msg =
     bindS (deref (m_state msg)) (\<lambda>st.
     bindS (assertS (i = iocom st) ''cleanuptx: iocom'') (\<lambda>_.
     bindS (dmsg_state_hold (m_state msg)) (\<lambda>_.
     bindS (whenS (\<not> has (flags st) DMSG_STATE_ROOT \<and> has (m_cmd msg) DMSGF_DELETE)
       (cleanuptx_delete i msg)) (\<lambda>_.
     bindS (deferred_abort n env (m_state msg)) (\<lambda>_.
     dmsg_state_drop (m_state msg))))))"

text \<open>The part of \<open>dmsg_msg_write\<close> that brings state and message together, with the mutex held.\<close>

definition write_prepare :: "dmsg_msg \<Rightarrow> dmsg_msg dio" where
  "write_prepare msg =
     (let p = m_state msg in
      bindS (deref p) (\<lambda>st.
      if \<not> has (flags st) DMSG_STATE_ROOT then
        bindS (whenS (m_cmd msg AND (DMSGF_CREATE OR DMSGF_REPLY) = DMSGF_CREATE)
          (put p (st\<lparr>txcmd := m_cmd msg AND NOT DMSGF_DELETE,
             icmd := m_cmd msg AND NOT DMSGF_DELETE AND DMSGF_BASECMDMASK,
             flags := flags st AND NOT DMSG_STATE_NEW\<rparr>))) (\<lambda>_.
        bindS (whenS (has (m_cmd msg) DMSGF_CREATE)
          (upd p (\<lambda>st. st\<lparr>txcmd := m_cmd msg AND NOT DMSGF_DELETE\<rparr>))) (\<lambda>_.
        returnS (msg\<lparr>head := (head msg)\<lparr>msgid := st_msgid st\<rparr>\<rparr>)))
      else returnS msg))"

definition dmsg_msg_write :: "nat \<Rightarrow> dmsg_env \<Rightarrow> dmsg_msg \<Rightarrow> unit dio" where
  "dmsg_msg_write n env msg =
     (let p = m_state msg in
      bindS (deref p) (\<lambda>st.
      let i = iocom st in
      bindS (pthread_mutex_lock i) (\<lambda>_.
      bindS (write_prepare msg) (\<lambda>msg.
      bindS (deref p) (\<lambda>st.
      if has (txcmd st) DMSGF_DELETE then dmsg_msg_free msg
      else if has (flags st) DMSG_STATE_DYING then
        bindS (dmsg_state_hold p) (\<lambda>_.
        bindS (dmsg_state_cleanuptx n env i msg) (\<lambda>_.
        bindS (deref p) (\<lambda>st.
        bindS (whenS (\<not> has (flags st) DMSG_STATE_ABORTING) (dmsg_simulate_failure n env p True)) (\<lambda>_.
        bindS (dmsg_state_drop p) (\<lambda>_.
        bindS (dmsg_msg_free msg) (\<lambda>_.
        pthread_mutex_unlock i))))))
      else
        bindS (dmsg_state_cleanuptx n env i msg) (\<lambda>_.
        bindS (upd_com i (\<lambda>c. c\<lparr>txmsgq := txmsgq c @ [msg], wakeups := wakeups c + 1\<rparr>)) (\<lambda>_.
        pthread_mutex_unlock i)))))))"

text \<open>\<open>dmsg_msg_reply\<close> (\<open>final\<close>) and \<open>dmsg_msg_result\<close> differ in the \<open>DELETE\<close> only.\<close>

definition send_error :: "nat \<Rightarrow> dmsg_env \<Rightarrow> ptr \<Rightarrow> u32 \<Rightarrow> u32 \<Rightarrow> unit dio" where
  "send_error n env p cm err =
     bindS (dmsg_msg_alloc env p 0 cm None 0) (\<lambda>nmsg.
     bindS (deref p) (\<lambda>st.
     let nmsg = (if \<not> has (flags st) DMSG_STATE_ROOT \<and> \<not> has (txcmd st) DMSGF_CREATE
                 then set_cmd (\<lambda>c. c OR DMSGF_CREATE) nmsg else nmsg) in
     dmsg_msg_write n env (nmsg\<lparr>head := (head nmsg)\<lparr>error := err\<rparr>\<rparr>)))"

definition dmsg_msg_answer :: "bool \<Rightarrow> nat \<Rightarrow> dmsg_env \<Rightarrow> dmsg_msg \<Rightarrow> u32 \<Rightarrow> unit dio" where
  "dmsg_msg_answer final n env msg err =
     (let p = m_state msg in
      bindS (deref p) (\<lambda>st.
      if \<not> has (flags st) DMSG_STATE_ROOT then
        (if has (txcmd st) DMSGF_DELETE then returnS ()
         else send_error n env p
           (DMSG_LNK_ERROR OR (if has (txcmd st) DMSGF_REPLY then DMSGF_REPLY else 0)
             OR (if final then DMSGF_DELETE else 0)) err)
      else send_error n env p
        (DMSG_LNK_ERROR OR (if has (m_cmd msg) DMSGF_REPLY then 0 else DMSGF_REPLY)) err))"

definition dmsg_msg_reply :: "nat \<Rightarrow> dmsg_env \<Rightarrow> dmsg_msg \<Rightarrow> u32 \<Rightarrow> unit dio" where
  "dmsg_msg_reply = dmsg_msg_answer True"

definition dmsg_msg_result :: "nat \<Rightarrow> dmsg_env \<Rightarrow> dmsg_msg \<Rightarrow> u32 \<Rightarrow> unit dio" where
  "dmsg_msg_result = dmsg_msg_answer False"

definition dmsg_state_answer :: "bool \<Rightarrow> nat \<Rightarrow> dmsg_env \<Rightarrow> ptr \<Rightarrow> u32 \<Rightarrow> unit dio" where
  "dmsg_state_answer final n env p err =
     bindS (deref p) (\<lambda>st.
     if has (txcmd st) DMSGF_DELETE then returnS ()
     else send_error n env p
       (DMSG_LNK_ERROR OR (if final then DMSGF_DELETE else 0)
         OR (if has (txcmd st) DMSGF_REPLY then DMSGF_REPLY else 0)) err)"

definition dmsg_state_reply :: "nat \<Rightarrow> dmsg_env \<Rightarrow> ptr \<Rightarrow> u32 \<Rightarrow> unit dio" where
  "dmsg_state_reply = dmsg_state_answer True"

definition dmsg_state_result :: "nat \<Rightarrow> dmsg_env \<Rightarrow> ptr \<Rightarrow> u32 \<Rightarrow> unit dio" where
  "dmsg_state_result = dmsg_state_answer False"

text \<open>Routing of a message to the paired transaction, which belongs to another connection.\<close>

definition dmsg_state_relay :: "nat \<Rightarrow> dmsg_env \<Rightarrow> dmsg_msg \<Rightarrow> dmsg_msg dio" where
  "dmsg_state_relay n env lmsg =
     (let l = m_state lmsg in
      bindS (if m_cmd lmsg AND (DMSGF_CREATE OR DMSGF_REPLY) = DMSGF_CREATE then
          bindS (deref l) (\<lambda>lst.
          bindS (nonnull (parent lst) ''lpstate'') (\<lambda>lp.
          bindS (deref lp) (\<lambda>lpst.
          bindS (assertS (relay lst = None) ''relay: lstate->relay'') (\<lambda>_.
          case relay lpst of
            None \<Rightarrow> stopS (Assert_failed ''relay: rpstate'')
          | Some rp \<Rightarrow>
              bindS (dmsg_msg_alloc env rp 0 (m_cmd lmsg) (Some Dmsg_state_relay) 0) (\<lambda>rmsg.
              bindS (upd (m_state rmsg) (\<lambda>st. st\<lparr>relay := Some l\<rparr>)) (\<lambda>_.
              bindS (upd l (\<lambda>st. st\<lparr>relay := Some (m_state rmsg)\<rparr>)) (\<lambda>_.
              bindS (dmsg_state_hold l) (\<lambda>_.
              bindS (dmsg_state_hold (m_state rmsg)) (\<lambda>_.
              returnS rmsg)))))))))
        else
          bindS (deref l) (\<lambda>lst.
          case relay lst of
            None \<Rightarrow> stopS (Assert_failed ''relay: rstate'')
          | Some r \<Rightarrow>
              bindS (deref r) (\<lambda>rst.
              bindS (assertS (\<not> has (txcmd rst) DMSGF_DELETE) ''relay: txcmd'') (\<lambda>_.
              dmsg_msg_alloc env r 0 (m_cmd lmsg) (Some Dmsg_state_relay) 0)))) (\<lambda>rmsg.
      let rmsg = rmsg\<lparr>ext := take (hdr_size lmsg - 64) (ext lmsg) @ drop (hdr_size lmsg - 64) (ext rmsg),
            head := (head rmsg)\<lparr>error := error (head lmsg), reserved02 := reserved02 (head lmsg),
              link_verifier := link_verifier (head lmsg)\<rparr>,
            aux_size := aux_size lmsg, aux_data := aux_data lmsg\<rparr> in
      bindS (dmsg_msg_write n env rmsg) (\<lambda>_.
      returnS (lmsg\<lparr>aux_data := None\<rparr>))))"


section \<open>The loop of a connection\<close>

text \<open>
  The state a connection starts with, and what \<open>dmsg_iocom_core\<close> does with a message once
  \<open>dmsg_ioq_read\<close> has read it: the transaction state is looked up, an aborted transaction that is
  already gone is dropped, else the callback runs and the message is retired with the mutex held.
\<close>

definition init_state0 :: "nat \<Rightarrow> ptr \<Rightarrow> dmsg_state" where
  "init_state0 i p = new_state\<lparr>refs := 1, iocom := i, parent := Some p, flags := DMSG_STATE_ROOT\<rparr>"

definition dmsg_iocom_init ::
    "mutex_kind \<Rightarrow> signal_func option \<Rightarrow> rcvmsg_func \<Rightarrow> nat \<Rightarrow> ptr \<Rightarrow> unit dio" where
  "dmsg_iocom_init kind sig rx i p =
     bindS (upd_com i (\<lambda>_. \<lparr>state0 = p, staterd_tree = Map.empty, statewr_tree = Map.empty,
       txmsgq = [], wakeups = 0, mtx_kind = kind, mtx = 0, swork = (sig \<noteq> None),
       signal_callback = sig, rcvmsg_func = rx\<rparr>)) (\<lambda>_.
     put p (init_state0 i p))"

definition run_callback :: "dmsg_env \<Rightarrow> dmsg_msg \<Rightarrow> unit dio" where
  "run_callback env msg =
     bindS (deref (m_state msg)) (\<lambda>st.
     bindS (rcvmsg_callback env msg) (\<lambda>msg.
     bindS (pthread_mutex_lock (iocom st)) (\<lambda>_.
     bindS (dmsg_state_cleanuprx (iocom st) msg) (\<lambda>_.
     pthread_mutex_unlock (iocom st)))))"

definition receive :: "dmsg_env \<Rightarrow> dmsg_msg \<Rightarrow> unit dio" where
  "receive env msg =
     bindS (dmsg_state_msgrx env msg False) (\<lambda>(err, msg).
     if err = DMSG_IOQ_ERROR_EALREADY then dmsg_msg_free msg else run_callback env msg)"

text \<open>
  \<open>dmsg_ioq_read\<close> allocates the message over \<open>state0\<close> with a command that has the size of the header
  only, then copies the header and the data that arrived into it.
\<close>

definition deliver :: "dmsg_env \<Rightarrow> nat \<Rightarrow> nat \<Rightarrow> dmsg_hdr \<Rightarrow> u8 list \<Rightarrow> u8 list option \<Rightarrow> unit dio" where
  "deliver env i asize hdr ex ax =
     bindS (getS (\<lambda>w. state0 (coms w i))) (\<lambda>s0.
     bindS (dmsg_msg_alloc env s0 asize (cmd hdr AND DMSGF_SIZE) None 0) (\<lambda>msg.
     receive env (msg\<lparr>head := hdr, ext := ex, aux_data := ax\<rparr>)))"

text \<open>A new transaction under \<open>q\<close>, and the end of a transmission in \<open>dmsg_iocom_flush2\<close>.\<close>

definition open_trans :: "nat \<Rightarrow> dmsg_env \<Rightarrow> ptr \<Rightarrow> u32 \<Rightarrow> state_func option \<Rightarrow> unit dio" where
  "open_trans n env q cm fn = bindS (dmsg_msg_alloc env q 0 cm fn 0) (dmsg_msg_write n env)"

definition transmitted :: "nat \<Rightarrow> unit dio" where
  "transmitted i =
     bindS (getS (\<lambda>w. txmsgq (coms w i))) (\<lambda>q.
     case q of
       [] \<Rightarrow> returnS ()
     | msg # ms \<Rightarrow>
         bindS (upd_com i (\<lambda>c. c\<lparr>txmsgq := ms\<rparr>)) (\<lambda>_.
         dmsg_msg_free msg))"

end
