(* ===== verification/Dmsg_Invariant.thy ===== *)
theory Dmsg_Invariant
  imports Dmsg_State
begin

text \<open>
  The invariant of the transactions.  \<open>shape\<close> says how the live states, the per connection trees and
  the transmit queues are linked; it does not look at reference counts.  \<open>counted\<close> says that every
  state has at least as many references as there are links to it, \<open>held\<close> being the states of the
  messages that are in nobody's queue; the owner of a state's \<open>any\<close> counts as a link.  A connection
  whose link is failing (a state that is dying or being aborted) and relays, which only the SPAN
  protocol sets up, are outside the invariant.  Freeing needs a count of zero, so no link ever dangles.
\<close>

abbreviation is_sub :: "dmsg_state \<Rightarrow> bool" where "is_sub st \<equiv> has (flags st) DMSG_STATE_SUBINSERTED"
abbreviation is_rb :: "dmsg_state \<Rightarrow> bool" where "is_rb st \<equiv> has (flags st) DMSG_STATE_RBINSERTED"
abbreviation is_root :: "dmsg_state \<Rightarrow> bool" where "is_root st \<equiv> has (flags st) DMSG_STATE_ROOT"
abbreviation is_opp :: "dmsg_state \<Rightarrow> bool" where "is_opp st \<equiv> has (flags st) DMSG_STATE_OPPOSITE"
abbreviation rx_closed :: "dmsg_state \<Rightarrow> bool" where "rx_closed st \<equiv> has (rxcmd st) DMSGF_DELETE"
abbreviation tx_closed :: "dmsg_state \<Rightarrow> bool" where "tx_closed st \<equiv> has (txcmd st) DMSGF_DELETE"

abbreviation calm :: "dmsg_state \<Rightarrow> bool" where
  "calm st \<equiv> \<not> has (flags st) (DMSG_STATE_ABORTING OR DMSG_STATE_DYING)"

type_synonym hmap = "ptr \<Rightarrow> dmsg_state option"
type_synonym cmap = "nat \<Rightarrow> dmsg_iocom"

definition state_tree :: "dmsg_state \<Rightarrow> dmsg_iocom \<Rightarrow> u64 \<Rightarrow> ptr option" where
  "state_tree st c = (if is_opp st then staterd_tree c else statewr_tree c)"

definition on_subq :: "hmap \<Rightarrow> ptr \<Rightarrow> ptr \<Rightarrow> bool" where
  "on_subq h q p \<longleftrightarrow> (\<exists>pst. h q = Some pst \<and> p \<in> set (subq pst))"

definition child_at :: "hmap \<Rightarrow> ptr \<Rightarrow> nat \<Rightarrow> ptr \<Rightarrow> bool" where
  "child_at h p i x \<longleftrightarrow> (\<exists>st. h x = Some st \<and> parent st = Some p \<and> is_sub st \<and> iocom st = i)"

definition root_at :: "hmap \<Rightarrow> ptr \<Rightarrow> nat \<Rightarrow> bool" where
  "root_at h r i \<longleftrightarrow> (\<exists>st. h r = Some st \<and> is_root st \<and> iocom st = i)"

text \<open>The directions a transaction has been closed in, and the flags that say who started it.\<close>

definition dir_ok :: "dmsg_state \<Rightarrow> bool" where
  "dir_ok st \<longleftrightarrow> (is_rb st \<longleftrightarrow> \<not> (rx_closed st \<and> tx_closed st)) \<and>
     (has (txcmd st) DMSGF_REPLY \<longleftrightarrow> is_opp st) \<and> (has (rxcmd st) DMSGF_REPLY \<longleftrightarrow> \<not> is_opp st)"

text \<open>A transaction: its place in the tree, its index entry, the direction of its commands.\<close>

definition trans_ok :: "hmap \<Rightarrow> cmap \<Rightarrow> ptr \<Rightarrow> dmsg_state \<Rightarrow> bool" where
  "trans_ok h c p st \<longleftrightarrow>
     (if is_root st then p = state0 (c (iocom st)) \<and> parent st = Some p \<and> func st = None \<and> \<not> is_sub st \<and> \<not> is_rb st
      else (case parent st of None \<Rightarrow> \<not> is_sub st | Some q \<Rightarrow> is_sub st \<and> q \<noteq> p \<and> on_subq h q p) \<and>
         (is_rb st \<longrightarrow> is_sub st \<and> state_tree st (c (iocom st)) (st_msgid st) = Some p) \<and>
         (\<not> is_opp st \<longrightarrow> st_msgid st = p) \<and> dir_ok st)"

text \<open>What a live state refers to is live, a substate names its parent, and no transaction is relayed.\<close>

definition refers_ok :: "hmap \<Rightarrow> cmap \<Rightarrow> ptr \<Rightarrow> dmsg_state \<Rightarrow> bool" where
  "refers_ok h c p st \<longleftrightarrow> calm st \<and> distinct (subq st) \<and>
     (\<forall>x\<in>set (subq st). child_at h p (iocom st) x) \<and>
     relay st = None \<and> func st \<noteq> Some Dmsg_state_relay \<and>
     root_at h (state0 (c (iocom st))) (iocom st)"

definition shape :: "hmap \<Rightarrow> cmap \<Rightarrow> bool" where
  "shape h c \<longleftrightarrow> finite (dom h) \<and> (\<forall>p st. h p = Some st \<longrightarrow> trans_ok h c p st \<and> refers_ok h c p st) \<and>
     (\<forall>i. \<forall>m\<in>set (txmsgq (c i)). \<exists>st. h (m_state m) = Some st \<and> iocom st = i) \<and>
     (\<forall>i k p. staterd_tree (c i) k = Some p \<longrightarrow>
        (\<exists>st. h p = Some st \<and> is_rb st \<and> is_opp st \<and> iocom st = i \<and> st_msgid st = k)) \<and>
     (\<forall>i k p. statewr_tree (c i) k = Some p \<longrightarrow>
        (\<exists>st. h p = Some st \<and> is_rb st \<and> \<not> is_opp st \<and> iocom st = i \<and> st_msgid st = k))"

definition bare :: "hmap \<Rightarrow> hmap" where
  "bare h = (\<lambda>p. map_option (refs_update (\<lambda>_. 0)) (h p))"

definition barec :: "cmap \<Rightarrow> cmap" where
  "barec c = (\<lambda>i. (c i)\<lparr>mtx := 0, wakeups := 0, swork := False, signal_callback := None,
     rcvmsg_func := Master_auth_rxmsg\<rparr>)"

definition links :: "cmap \<Rightarrow> ptr list \<Rightarrow> ptr \<Rightarrow> dmsg_state \<Rightarrow> nat" where
  "links c held p st =
     (if is_root st then 1 else 0) + (if is_sub st then 1 else 0) + (if is_rb st then 1 else 0) +
     (if subq st = [] then 0 else 1) + count_list (map m_state (txmsgq (c (iocom st)))) p +
     (if any st = 0 then 0 else 1) + count_list held p"

definition counted :: "hmap \<Rightarrow> cmap \<Rightarrow> ptr list \<Rightarrow> bool" where
  "counted h c held \<longleftrightarrow> (\<forall>p st. h p = Some st \<longrightarrow> links c held p st \<le> refs st) \<and>
     (\<forall>p\<in>set held. h p \<noteq> None)"

text \<open>
  \<open>dl\<close> says that there may be connections whose mutex waits for its own holder.  A connection that is
  to be signalled has a function for it.
\<close>

definition dmsg_inv :: "bool \<Rightarrow> dmsg_world \<Rightarrow> ptr list \<Rightarrow> bool" where
  "dmsg_inv dl w held \<longleftrightarrow> shape (bare (heap w)) (barec (coms w)) \<and>
     counted (heap w) (barec (coms w)) held \<and> (dl \<or> (\<forall>i. mtx_kind (coms w i) \<noteq> Mutex_Normal)) \<and>
     (\<forall>i. swork (coms w i) \<longrightarrow> signal_callback (coms w i) \<noteq> None)"

lemma shapeD:
  assumes "shape h c"
  shows "finite (dom h)"
    and "h p = Some st \<Longrightarrow> trans_ok h c p st" and "h p = Some st \<Longrightarrow> refers_ok h c p st"
    and "m \<in> set (txmsgq (c i)) \<Longrightarrow> \<exists>st. h (m_state m) = Some st \<and> iocom st = i"
    and "staterd_tree (c i) k = Some p \<Longrightarrow>
      \<exists>st. h p = Some st \<and> is_rb st \<and> is_opp st \<and> iocom st = i \<and> st_msgid st = k"
    and "statewr_tree (c i) k = Some p \<Longrightarrow>
      \<exists>st. h p = Some st \<and> is_rb st \<and> \<not> is_opp st \<and> iocom st = i \<and> st_msgid st = k"
  using assms unfolding shape_def by blast+

section \<open>Changes of reference counts and of the mutex\<close>

lemma bare_apply: "bare h p = Some b \<longleftrightarrow> (\<exists>st. h p = Some st \<and> b = st\<lparr>refs := 0\<rparr>)"
  by (auto simp: bare_def)

lemma bare_None [simp]: "bare h p = None \<longleftrightarrow> h p = None"
  by (simp add: bare_def)

lemma bare_upd [simp]:
  "bare (h(p := Some st)) = (bare h)(p := Some (st\<lparr>refs := 0\<rparr>))"
  "bare (h(p := None)) = (bare h)(p := None)"
  by (simp_all add: bare_def fun_eq_iff)

lemma bare_same: "h p = Some st \<Longrightarrow> (bare h)(p := Some (st\<lparr>refs := 0\<rparr>)) = bare h"
  by (simp add: fun_eq_iff bare_def)

lemma barec_mtx [simp]:
  "barec (c(i := (c i)\<lparr>mtx := n\<rparr>)) = barec c" "barec (c(i := (c i)\<lparr>swork := b\<rparr>)) = barec c"
  "barec (c(i := (c i)\<lparr>signal_callback := f\<rparr>)) = barec c" "barec (c(i := (c i)\<lparr>rcvmsg_func := g\<rparr>)) = barec c"
  by (simp_all add: barec_def fun_eq_iff)

lemma links_refs [simp]: "links c held p (st\<lparr>refs := n\<rparr>) = links c held p st"
  by (simp add: links_def)

lemma inv_refs:
  assumes "dmsg_inv dl w held" and "heap w p = Some st"
    and "links (barec (coms w)) held' p st \<le> n"
    and "\<And>q. q \<noteq> p \<Longrightarrow> count_list held' q \<le> count_list held q"
    and "\<And>q. q \<in> set held' \<Longrightarrow> q = p \<or> q \<in> set held"
  shows "dmsg_inv dl (w\<lparr>heap := (heap w)(p := Some (st\<lparr>refs := n\<rparr>))\<rparr>) held'"
proof -
  have live: "heap w q \<noteq> None" if "q \<in> set held'" for q
    using assms(1,2) assms(5) [OF that] by (auto simp: dmsg_inv_def counted_def)
  have "links (barec (coms w)) held' q st' \<le> refs st'"
    if "heap w q = Some st'" and "q \<noteq> p" for q st'
  proof -
    have "links (barec (coms w)) held q st' \<le> refs st'"
      using assms(1) that(1) by (simp add: dmsg_inv_def counted_def)
    with assms(4) [OF that(2)] show ?thesis by (simp add: links_def)
  qed
  with assms(1-3) live show ?thesis
    by (auto simp: dmsg_inv_def counted_def bare_same)
qed

lemma hold_world: "heap w p = Some st \<Longrightarrow>
    dmsg_state_hold p w = Inr ((), w\<lparr>heap := (heap w)(p := Some (st\<lparr>refs := refs st + 1\<rparr>))\<rparr>)"
  by (simp add: dmsg_state_hold_def upd_def deref_def put_def bindS_def modifyS_def)

lemma hold_inv:
  assumes "dmsg_inv dl w held" and "heap w p = Some st"
  shows "dmsg_inv dl (w\<lparr>heap := (heap w)(p := Some (st\<lparr>refs := refs st + 1\<rparr>))\<rparr>) (p # held)"
proof (rule inv_refs [OF assms])
  have "links (barec (coms w)) held p st \<le> refs st"
    using assms by (simp add: dmsg_inv_def counted_def)
  then show "links (barec (coms w)) (p # held) p st \<le> refs st + 1"
    by (simp add: links_def)
qed auto


section \<open>Dropping a reference\<close>

text \<open>
  \<open>dwp dl m Q w\<close>: from \<open>w\<close> the operation returns with \<open>Q\<close>, or waits for a mutex that it holds itself,
  which \<open>dl\<close> must allow.  No other end is possible.
\<close>

definition dwp :: "bool \<Rightarrow> 'a dio \<Rightarrow> ('a \<Rightarrow> dmsg_world \<Rightarrow> bool) \<Rightarrow> dmsg_world \<Rightarrow> bool" where
  "dwp dl m Q = wlp {e. dl \<and> e = Deadlock ''iocom->mtx''} m Q"

named_theorems dwp_simps \<open>preconditions of the operations on the transactions\<close>

lemma dwp_basic [dwp_simps]:
  "dwp dl (returnS x) Q = (\<lambda>w. Q x w)" "dwp dl (getS f) R = (\<lambda>w. R (f w) w)"
  "dwp dl (modifyS g) T = (\<lambda>w. T () (g w))" "dwp dl (stopS e) U = (\<lambda>w. dl \<and> e = Deadlock ''iocom->mtx'')"
  "dwp dl (assertS b what) T = (\<lambda>w. b \<and> T () w)"
  by (auto simp: fun_eq_iff dwp_def wlp_simps)

lemma dwp_bind [dwp_simps]: "dwp dl (bindS m f) Q = (\<lambda>w. dwp dl m (\<lambda>x. dwp dl (f x) Q) w)"
  by (simp add: fun_eq_iff dwp_def wlp_bind)

lemma dwp_branches [dwp_simps]:
  "dwp dl (if b then m else m') Q = (\<lambda>w. if b then dwp dl m Q w else dwp dl m' Q w)"
  "dwp dl (whenS b u) R = (\<lambda>w. if b then dwp dl u R w else R () w)"
  "dwp dl (case x of None \<Rightarrow> m | Some y \<Rightarrow> f y) Q = (\<lambda>w. case x of None \<Rightarrow> dwp dl m Q w | Some y \<Rightarrow> dwp dl (f y) Q w)"
  "dwp dl (case p of (x, y) \<Rightarrow> g x y) Q = (\<lambda>w. case p of (x, y) \<Rightarrow> dwp dl (g x y) Q w)"
  "dwp dl (Let z k) Q = (\<lambda>w. dwp dl (k z) Q w)"
  by (simp_all add: fun_eq_iff dwp_def wlp_branches split: option.split)

lemma dwp_mem [dwp_simps]:
  "dwp dl (deref p) Q = (\<lambda>w. \<exists>st. heap w p = Some st \<and> Q st w)"
  "dwp dl (put p st) R = (\<lambda>w. R () (w\<lparr>heap := (heap w)(p := Some st)\<rparr>))"
  "dwp dl (upd_com i f) R = (\<lambda>w. R () (w\<lparr>coms := (coms w)(i := f (coms w i))\<rparr>))"
  by (auto simp: fun_eq_iff dwp_def wlp_def deref_def put_def upd_com_def modifyS_def split: option.splits)

lemma dwp_upd [dwp_simps]:
  "dwp dl (upd p f) Q = (\<lambda>w. \<exists>st. heap w p = Some st \<and> Q () (w\<lparr>heap := (heap w)(p := Some (f st))\<rparr>))"
  by (simp add: upd_def dwp_simps)

lemma dwp_Inr: "m w = Inr (x, w') \<Longrightarrow> dwp dl m Q w = Q x w'"
  by (simp add: dwp_def wlp_def)

lemma dwp_mono: "dwp dl m Q w \<Longrightarrow> (\<And>x w'. Q x w' \<Longrightarrow> R x w') \<Longrightarrow> dwp dl m R w"
  unfolding dwp_def by (rule wlp_mono)

definition drop_world :: "ptr \<Rightarrow> dmsg_world \<Rightarrow> dmsg_world" where
  "drop_world p w =
     (case heap w p of
        None \<Rightarrow> w
      | Some st \<Rightarrow>
          if refs st = 1 then
            w\<lparr>heap := (heap w)(p := None), dmsg_state_count := dmsg_state_count w - 1\<rparr>
          else w\<lparr>heap := (heap w)(p := Some (st\<lparr>refs := refs st - 1\<rparr>))\<rparr>)"

lemma shape_free:
  assumes "shape h c" and "h p = Some st" and "\<not> is_root st" and "\<not> is_sub st" and "\<not> is_rb st"
    and "subq st = []"
    and "count_list (map m_state (txmsgq (c (iocom st)))) p = 0"
  shows "shape (h(p := None)) c"
proof -
  have fin: "finite (dom h)" using assms(1) by (simp add: shape_def)
  have t: "trans_ok (h(p := None)) c x xst \<and> refers_ok (h(p := None)) c x xst"
    if x: "h x = Some xst" "x \<noteq> p" for x xst
  proof -
    have ok: "trans_ok h c x xst" "refers_ok h c x xst" using shapeD [OF assms(1)] x(1) by blast+
    have "parent xst \<noteq> Some p"
      using ok(1) assms(2,6) x(2) by (auto simp: trans_ok_def on_subq_def split: if_splits)
    moreover have "p \<notin> set (subq xst)" using ok(2) assms(2,4) by (auto simp: refers_ok_def child_at_def)
    moreover have "state0 (c (iocom xst)) \<noteq> p" using ok(2) assms(2,3) by (auto simp: refers_ok_def root_at_def)
    ultimately show ?thesis
      using ok by (auto simp: trans_ok_def refers_ok_def on_subq_def child_at_def root_at_def
          split: option.splits if_splits)
  qed
  have q: "m_state m \<noteq> p" if "m \<in> set (txmsgq (c i))" for m i
  proof
    assume m: "m_state m = p"
    with shapeD(4) [OF assms(1) that] assms(2) have "iocom st = i" by auto
    with that m assms(7) show False by (force simp: count_list_0_iff)
  qed
  show ?thesis
    unfolding shape_def
  proof (intro conjI allI impI ballI)
    show "finite (dom (h(p := None)))" using fin by (simp add: dom_fun_upd)
    show "trans_ok (h(p := None)) c x xst" and "refers_ok (h(p := None)) c x xst"
      if "(h(p := None)) x = Some xst" for x xst
      using t that by (auto split: if_splits)
    show "\<exists>st. (h(p := None)) (m_state m) = Some st \<and> iocom st = i" if "m \<in> set (txmsgq (c i))" for i m
      using q [OF that] shapeD(4) [OF assms(1) that] by auto
    show "\<exists>st. (h(p := None)) x = Some st \<and> is_rb st \<and> is_opp st \<and> iocom st = i \<and> st_msgid st = k"
      if "staterd_tree (c i) k = Some x" for i k x
      using shapeD(5) [OF assms(1) that] assms(2,5) by auto
    show "\<exists>st. (h(p := None)) x = Some st \<and> is_rb st \<and> \<not> is_opp st \<and> iocom st = i \<and> st_msgid st = k"
      if "statewr_tree (c i) k = Some x" for i k x
      using shapeD(6) [OF assms(1) that] assms(2,5) by auto
  qed
qed

text \<open>What \<open>dmsg_state_drop\<close> looks at before it gives up a reference, and frees on the last one.\<close>

definition droppable :: "dmsg_state \<Rightarrow> bool" where
  "droppable st \<longleftrightarrow> refs st > 0 \<and>
     (refs st = 1 \<longrightarrow> \<not> is_root st \<and> \<not> is_sub st \<and> \<not> is_rb st \<and> subq st = [] \<and> any st = 0)"

lemma drop_run:
  "heap w p = Some st \<Longrightarrow> droppable st \<Longrightarrow> dmsg_state_drop p w = Inr ((), drop_world p w)"
  by (auto simp: dmsg_state_drop_def dmsg_state_free_def drop_world_def bindS_def deref_def droppable_def
      assertS_def put_def modifyS_def whenS_def returnS_def has_or)

lemma held_zero:
  assumes "dmsg_inv dl w (p # held)" and "heap w p = Some st" and "refs st = 1"
  shows "\<not> is_root st" "\<not> is_sub st" "\<not> is_rb st" "subq st = []" "any st = 0"
    "count_list (map m_state (txmsgq (barec (coms w) (iocom st)))) p = 0" "count_list held p = 0"
proof -
  have "links (barec (coms w)) (p # held) p st \<le> refs st"
    using assms(1,2) by (simp add: dmsg_inv_def counted_def)
  with assms(3) show "\<not> is_root st" "\<not> is_sub st" "\<not> is_rb st" "subq st = []" "any st = 0"
    "count_list (map m_state (txmsgq (barec (coms w) (iocom st)))) p = 0" "count_list held p = 0"
    by (auto simp: links_def split: if_splits)
qed

lemma held_droppable:
  assumes "dmsg_inv dl w (p # held)" and "heap w p = Some st"
  shows "droppable st"
proof -
  have "links (barec (coms w)) (p # held) p st \<le> refs st"
    using assms by (auto simp: dmsg_inv_def counted_def)
  then have "0 < refs st" by (simp add: links_def)
  then show ?thesis using held_zero [OF assms] by (simp add: droppable_def)
qed

lemma drop_ok:
  assumes inv: "dmsg_inv dl w (p # held)"
  shows "dmsg_state_drop p w = Inr ((), drop_world p w)" and "dmsg_inv dl (drop_world p w) held"
proof -
  let ?h = "heap w" and ?c = "barec (coms w)"
  obtain st where st: "?h p = Some st" using inv by (auto simp: dmsg_inv_def counted_def)
  show "dmsg_state_drop p w = Inr ((), drop_world p w)"
    by (rule drop_run [OF st held_droppable [OF inv st]])
  have sh: "shape (bare ?h) ?c" using inv by (simp add: dmsg_inv_def)
  have b: "bare ?h p = Some (st\<lparr>refs := 0\<rparr>)" using st by (simp add: bare_def)
  show "dmsg_inv dl (drop_world p w) held"
  proof (cases "refs st = 1")
    case False
    have "links ?c (p # held) p st \<le> refs st"
      using inv st by (simp add: dmsg_inv_def counted_def)
    then have "dmsg_inv dl (w\<lparr>heap := ?h(p := Some (st\<lparr>refs := refs st - 1\<rparr>))\<rparr>) held"
      by (intro inv_refs [OF inv st]) (auto simp: links_def)
    with False show ?thesis by (simp add: drop_world_def st)
  next
    case True
    note zero = held_zero [OF inv st True]
    have "shape ((bare ?h)(p := None)) ?c"
      by (rule shape_free [OF sh b]) (use zero in simp_all)
    moreover have "links ?c held q qst \<le> refs qst"
      if "?h q = Some qst" "q \<noteq> p" for q qst
    proof -
      have "links ?c (p # held) q qst \<le> refs qst"
        using inv that by (simp add: dmsg_inv_def counted_def)
      with that(2) show ?thesis by (simp add: links_def)
    qed
    moreover have "p \<notin> set held" using zero(7) by (simp add: count_list_0_iff)
    ultimately show ?thesis
      using inv True by (auto simp: drop_world_def st dmsg_inv_def counted_def)
  qed
qed

section \<open>Changes of one state\<close>

text \<open>An update that keeps a state where it is linked.\<close>

definition same_links :: "dmsg_state \<Rightarrow> dmsg_state \<Rightarrow> bool" where
  "same_links st st' \<longleftrightarrow> parent st' = parent st \<and> subq st' = subq st \<and> iocom st' = iocom st \<and>
     st_msgid st' = st_msgid st \<and> any st' = any st \<and> calm st' = calm st \<and> (relay st' = relay st \<or> relay st' = None) \<and> func st' = func st \<and>
     is_sub st' = is_sub st \<and> is_rb st' = is_rb st \<and> is_root st' = is_root st \<and> is_opp st' = is_opp st"

lemma same_links_refl [simp]: "same_links st st"
  by (simp add: same_links_def)

lemma shape_upd:
  assumes "shape h c" and "h p = Some st" and sl: "same_links st st'" and "\<not> is_root st \<Longrightarrow> dir_ok st'"
  shows "shape (h(p := Some st')) c"
proof -
  let ?h = "h(p := Some st')"
  note S = shapeD [OF assms(1)]
  have look: "on_subq ?h q x = on_subq h q x" "child_at ?h q i x = child_at h q i x"
    "root_at ?h q i = root_at h q i" for q x i
    using sl assms(2) by (auto simp: on_subq_def child_at_def root_at_def same_links_def)
  have old: "\<exists>ost. h x = Some ost \<and> same_links ost xst \<and> (is_root ost \<or> dir_ok xst)"
    if "?h x = Some xst" for x xst
    using that assms(2,4) sl S(2) [of x xst] by (cases "x = p") (auto simp: trans_ok_def split: if_splits)
  have t: "trans_ok ?h c x xst" "refers_ok ?h c x xst" if x: "?h x = Some xst" for x xst
  proof -
    from old [OF x] obtain ost where o: "h x = Some ost" "same_links ost xst" "is_root ost \<or> dir_ok xst"
      by blast
    then have tr: "state_tree xst = state_tree ost" by (simp add: fun_eq_iff state_tree_def same_links_def)
    show "trans_ok ?h c x xst"
      using S(2) [OF o(1)] o(2,3) unfolding trans_ok_def look tr same_links_def
      by (simp split: if_splits option.splits)
    show "refers_ok ?h c x xst"
      using S(3) [OF o(1)] o(2) assms(2) unfolding refers_ok_def look same_links_def by auto
  qed
  have new: "\<exists>xst'. ?h x = Some xst' \<and> same_links xst xst'" if "h x = Some xst" for x xst
    using that assms(2) sl by (cases "x = p") auto
  show ?thesis
    unfolding shape_def
  proof (intro conjI allI impI ballI)
    show "finite (dom ?h)" using S(1) by simp
    show "trans_ok ?h c x xst" and "refers_ok ?h c x xst" if "?h x = Some xst" for x xst
      using t [OF that] by auto
    show "\<exists>st. ?h (m_state m) = Some st \<and> iocom st = i" if "m \<in> set (txmsgq (c i))" for i m
      using S(4) [OF that] new unfolding same_links_def by metis
    show "\<exists>st. ?h x = Some st \<and> is_rb st \<and> is_opp st \<and> iocom st = i \<and> st_msgid st = k"
      if "staterd_tree (c i) k = Some x" for i k x
      using S(5) [OF that] new unfolding same_links_def by metis
    show "\<exists>st. ?h x = Some st \<and> is_rb st \<and> \<not> is_opp st \<and> iocom st = i \<and> st_msgid st = k"
      if "statewr_tree (c i) k = Some x" for i k x
      using S(6) [OF that] new unfolding same_links_def by metis
  qed
qed

lemma inv_upd:
  assumes inv: "dmsg_inv dl w held" and st: "heap w p = Some st" and sl: "same_links st st'"
    and "refs st' = refs st" and "\<not> is_root st \<Longrightarrow> dir_ok st'"
  shows "dmsg_inv dl (w\<lparr>heap := (heap w)(p := Some st')\<rparr>) held"
proof -
  let ?h = "heap w" and ?c = "barec (coms w)"
  have sh: "shape (bare ?h) ?c" using inv by (simp add: dmsg_inv_def)
  have b: "bare ?h p = Some (st\<lparr>refs := 0\<rparr>)" using st by (simp add: bare_def)
  have sh': "shape ((bare ?h)(p := Some (st'\<lparr>refs := 0\<rparr>))) ?c"
    by (rule shape_upd [OF sh b]) (use sl assms(5) in \<open>auto simp: same_links_def dir_ok_def\<close>)
  have eq: "links ?c held p st' = links ?c held p st"
    using sl by (simp add: links_def same_links_def)
  have "links ?c held x xst \<le> refs xst" if "?h x = Some xst" for x xst
    using inv that by (simp add: dmsg_inv_def counted_def)
  then have "links ?c held x xst \<le> refs xst"
    if "(?h(p := Some st')) x = Some xst" for x xst
    using that st assms(4) eq by (cases "x = p") (force intro: order_trans)+
  with sh' show ?thesis
    using inv by (auto simp: dmsg_inv_def counted_def)
qed


section \<open>Closing, unlinking and creating a transaction\<close>

text \<open>Taking a state out of its tree; both directions are closed then, and its reference is free.\<close>

definition forget :: "dmsg_state \<Rightarrow> dmsg_iocom \<Rightarrow> dmsg_iocom" where
  "forget st c = (if is_opp st then c\<lparr>staterd_tree := (staterd_tree c)(st_msgid st := None)\<rparr>
     else c\<lparr>statewr_tree := (statewr_tree c)(st_msgid st := None)\<rparr>)"

lemma forget_simps [simp]:
  "state0 (forget st c) = state0 c" "txmsgq (forget st c) = txmsgq c"
  "mtx_kind (forget st c) = mtx_kind c" "swork (forget st c) = swork c"
  "signal_callback (forget st c) = signal_callback c" "forget (st\<lparr>refs := n\<rparr>) c = forget st c"
  by (simp_all add: forget_def)

definition closes :: "dmsg_state \<Rightarrow> dmsg_state \<Rightarrow> bool" where
  "closes st st' \<longleftrightarrow> same_links (st\<lparr>flags := flags st AND NOT DMSG_STATE_RBINSERTED\<rparr>) st' \<and> dir_ok st'"

lemma closes_same:
  assumes "closes st st'"
  shows "parent st' = parent st" "subq st' = subq st" "iocom st' = iocom st" "st_msgid st' = st_msgid st"
    "any st' = any st" "calm st' = calm st" "relay st' = relay st \<or> relay st' = None" "func st' = func st"
    "is_sub st' = is_sub st" "\<not> is_rb st'" "is_root st' = is_root st" "is_opp st' = is_opp st" "dir_ok st'"
  using assms by (auto simp: closes_def same_links_def flag_simps)

lemma shape_close:
  assumes "shape h c" and "h p = Some st" and cl: "closes st st'" and "is_rb st" and "\<not> is_root st"
  shows "shape (h(p := Some st')) (c(iocom st := forget st (c (iocom st))))"
proof -
  let ?h = "h(p := Some st')" and ?c = "c(iocom st := forget st (c (iocom st)))"
  note S = shapeD [OF assms(1)] and C = closes_same [OF cl]
  have look: "on_subq ?h q x = on_subq h q x" "child_at ?h q i x = child_at h q i x"
    "root_at ?h q i = root_at h q i" for q x i
    using C assms(2) by (auto simp: on_subq_def child_at_def root_at_def)
  have c: "state0 (?c i) = state0 (c i)" "txmsgq (?c i) = txmsgq (c i)" for i by simp_all
  have tree: "state_tree xst (?c (iocom xst)) (st_msgid xst) = Some x"
    if x: "h x = Some xst" "is_rb xst" "\<not> is_root xst" "x \<noteq> p" for x xst
    using S(2) [OF x(1)] S(2) [OF assms(2)] assms(4,5) x(2-4)
    by (auto simp: trans_ok_def state_tree_def forget_def split: if_splits)
  have t: "trans_ok ?h ?c x xst" "refers_ok ?h ?c x xst" if x: "?h x = Some xst" for x xst
  proof -
    show "trans_ok ?h ?c x xst"
    proof (cases "x = p")
      case True
      then show ?thesis
        using x S(2) [OF assms(2)] C assms(5) unfolding trans_ok_def look c
        by (simp split: if_splits option.splits)
    next
      case False
      then show ?thesis
        using x S(2) [of x xst] tree unfolding trans_ok_def look c by (auto split: if_splits)
    qed
    show "refers_ok ?h ?c x xst"
    proof (cases "x = p")
      case True
      then have "xst = st'" using x by simp
      with True show ?thesis
        using S(3) [OF assms(2)] C(2,3,6,7,8) unfolding refers_ok_def look c by auto
    next
      case False
      then show ?thesis using x S(3) [of x xst] unfolding refers_ok_def look c by auto
    qed
  qed
  have new: "\<exists>xst'. ?h x = Some xst' \<and> iocom xst' = iocom xst" if "h x = Some xst" for x xst
    using that assms(2) C(3) by auto
  show ?thesis
    unfolding shape_def
  proof (intro conjI allI impI ballI)
    show "finite (dom ?h)" using S(1) by simp
    show "trans_ok ?h ?c x xst" and "refers_ok ?h ?c x xst" if "?h x = Some xst" for x xst
      using t [OF that] by auto
    show "\<exists>st. ?h (m_state m) = Some st \<and> iocom st = i" if "m \<in> set (txmsgq (?c i))" for i m
      using S(4) [of m i] that new unfolding c by metis
    show "\<exists>st. ?h x = Some st \<and> is_rb st \<and> is_opp st \<and> iocom st = i \<and> st_msgid st = k"
      if "staterd_tree (?c i) k = Some x" for i k x
    proof -
      from that have r: "staterd_tree (c i) k = Some x" by (auto simp: forget_def split: if_splits)
      from that S(5) [OF r] assms(2) have "x \<noteq> p" by (auto simp: forget_def split: if_splits)
      with S(5) [OF r] show ?thesis by simp
    qed
    show "\<exists>st. ?h x = Some st \<and> is_rb st \<and> \<not> is_opp st \<and> iocom st = i \<and> st_msgid st = k"
      if "statewr_tree (?c i) k = Some x" for i k x
    proof -
      from that have r: "statewr_tree (c i) k = Some x" by (auto simp: forget_def split: if_splits)
      from that S(6) [OF r] assms(2) have "x \<noteq> p" by (auto simp: forget_def split: if_splits)
      with S(6) [OF r] show ?thesis by simp
    qed
  qed
qed

lemma barec_forget [simp]: "barec (c(i := forget st (c i))) = (barec c)(i := forget st (barec c i))"
  by (simp add: barec_def fun_eq_iff forget_def)

lemma inv_close:
  assumes inv: "dmsg_inv dl w held" and st: "heap w p = Some st" and cl: "closes st st'"
    and rb: "is_rb st" "\<not> is_root st" and "refs st' = refs st"
  shows "dmsg_inv dl (w\<lparr>heap := (heap w)(p := Some st'),
    coms := (coms w)(iocom st := forget st (coms w (iocom st)))\<rparr>) (p # held)"
proof -
  let ?h = "heap w" and ?c = "barec (coms w)"
  let ?c' = "?c(iocom st := forget st (?c (iocom st)))"
  have sh: "shape (bare ?h) ?c" using inv by (simp add: dmsg_inv_def)
  have b: "bare ?h p = Some (st\<lparr>refs := 0\<rparr>)" using st by (simp add: bare_def)
  have cl0: "closes (st\<lparr>refs := 0\<rparr>) (st'\<lparr>refs := 0\<rparr>)"
    using cl unfolding closes_def same_links_def dir_ok_def by auto
  have sh': "shape ((bare ?h)(p := Some (st'\<lparr>refs := 0\<rparr>))) ?c'"
    using shape_close [OF sh b cl0] rb by simp
  have le: "links ?c' held x xst = links ?c held x xst" for x xst
    by (simp add: links_def)
  have eq: "links ?c held p st = links ?c held p st' + 1"
    using rb closes_same [OF cl] by (simp add: links_def)
  have old: "links ?c held x xst \<le> refs xst" if "?h x = Some xst" for x xst
    using inv that by (simp add: dmsg_inv_def counted_def)
  have "links ?c' (p # held) x xst \<le> refs xst"
    if x: "(?h(p := Some st')) x = Some xst" for x xst
  proof (cases "x = p")
    case True
    with x le [of p st'] eq old [OF st] assms(6) show ?thesis by (simp add: links_def)
  next
    case False
    with x le [of x xst] old [of x xst] show ?thesis by (simp add: links_def)
  qed
  with sh' show ?thesis
    using inv by (auto simp: dmsg_inv_def counted_def)
qed

text \<open>Taking a state off the queue of its parent, which \<open>dmsg_subq_delete\<close> does before it drops.\<close>

lemma shape_unlink:
  assumes "shape h c" and p: "h p = Some st" and q: "h q = Some pst" and "parent st = Some q"
    and "\<not> is_root st" and "\<not> is_rb st"
    and st': "st' = st\<lparr>flags := flags st AND NOT DMSG_STATE_SUBINSERTED, parent := None\<rparr>"
    and pst': "same_links (pst\<lparr>subq := remove1 p (subq pst)\<rparr>) pst'"
    and dir: "\<not> is_root pst \<Longrightarrow> dir_ok pst'" and rel: "relay pst' = relay pst"
  shows "shape (h(q := Some pst', p := Some st')) c"
proof -
  let ?h = "h(q := Some pst', p := Some st')"
  note S = shapeD [OF assms(1)]
  have qp: "q \<noteq> p" using S(2) [OF p] assms(4,5) by (simp add: trans_ok_def)
  have P: "parent pst' = parent pst" "subq pst' = remove1 p (subq pst)" "iocom pst' = iocom pst"
    "st_msgid pst' = st_msgid pst" "any pst' = any pst" "is_sub pst' = is_sub pst" "calm pst' = calm pst" "func pst' = func pst"
    "is_rb pst' = is_rb pst" "is_root pst' = is_root pst" "is_opp pst' = is_opp pst"
    using pst' by (simp_all add: same_links_def)
  have dist: "distinct (subq pst)" using S(3) [OF q] by (simp add: refers_ok_def)
  have R: "\<not> is_sub st'" "is_root st' = is_root st" "is_rb st' = is_rb st" "is_opp st' = is_opp st"
    "dir_ok st' = dir_ok st" "relay st' = relay st" "subq st' = subq st" "iocom st' = iocom st"
    "any st' = any st" "parent st' = None" "st_msgid st' = st_msgid st" "calm st' = calm st" "func st' = func st"
    by (simp_all add: st' flag_simps dir_ok_def)
  have only: "x \<noteq> p" if "y \<noteq> q" "h y = Some yst" "x \<in> set (subq yst)" for x y yst
    using S(3) [OF that(2)] that p assms(4) by (auto simp: refers_ok_def child_at_def)
  have sub: "on_subq ?h y x" if "on_subq h y x" "x \<noteq> p" for y x
    using that P(2) p q qp R(7) dist by (auto simp: on_subq_def)
  have child: "child_at ?h y i x" if "child_at h y i x" "x \<noteq> p" for y i x
    using that P q by (auto simp: child_at_def)
  have root: "root_at ?h y i = root_at h y i" for y i
    using P p q qp assms(5) R(2) by (auto simp: root_at_def)
  have t: "trans_ok ?h c x xst" "refers_ok ?h c x xst" if x: "?h x = Some xst" for x xst
  proof -
    consider (p) "x = p" "xst = st'" | (q) "x = q" "xst = pst'" | (o) "x \<noteq> p" "x \<noteq> q" "h x = Some xst"
      using x by (auto split: if_splits)
    then show "trans_ok ?h c x xst"
    proof cases
      case p: p
      then show ?thesis using S(2) [OF assms(2)] assms(5,6) R by (auto simp: trans_ok_def)
    next
      case q: q
      have "state_tree pst' = state_tree pst" by (simp add: fun_eq_iff state_tree_def P)
      then show ?thesis
        using q S(2) [OF assms(3)] dir sub [of _ q] qp unfolding trans_ok_def
        by (auto simp: P split: if_splits option.splits)
    next
      case o: o
      then show ?thesis
        using S(2) [of x xst] sub [of _ x] unfolding trans_ok_def by (auto split: if_splits option.splits)
    qed
    from \<open>?h x = Some xst\<close>
    consider (p) "x = p" "xst = st'" | (q) "x = q" "xst = pst'" | (o) "x \<noteq> p" "x \<noteq> q" "h x = Some xst"
      by (auto split: if_splits)
    then show "refers_ok ?h c x xst"
    proof cases
      case p: p
      have "child_at ?h p (iocom st) y" if "y \<in> set (subq st)" for y
      proof (rule child)
        show "child_at h p (iocom st) y" using S(3) [OF assms(2)] that by (simp add: refers_ok_def)
        show "y \<noteq> p" by (rule only [OF qp [symmetric] assms(2) that])
      qed
      then show ?thesis
        using p S(3) [OF assms(2)] unfolding refers_ok_def root by (auto simp: R)
    next
      case q: q
      have "child_at ?h q (iocom pst) y" if "y \<in> set (subq pst)" "y \<noteq> p" for y
        using child [of q "iocom pst" y] S(3) [OF assms(3)] that by (simp add: refers_ok_def)
      then show ?thesis
        using q S(3) [OF assms(3)] dist rel unfolding refers_ok_def root by (auto simp: P)
    next
      case o: o
      have "child_at ?h x (iocom xst) y" if "y \<in> set (subq xst)" for y
      proof (rule child)
        show "child_at h x (iocom xst) y" using S(3) [OF o(3)] that by (simp add: refers_ok_def)
        show "y \<noteq> p" by (rule only [OF o(2,3) that])
      qed
      then show ?thesis using S(3) [OF o(3)] unfolding refers_ok_def root by auto
    qed
  qed
  have new: "\<exists>xst'. ?h x = Some xst' \<and> iocom xst' = iocom xst \<and> is_rb xst' = is_rb xst \<and>
      is_opp xst' = is_opp xst \<and> st_msgid xst' = st_msgid xst" if "h x = Some xst" for x xst
    using that p q P(3,4,9,11) R(3,4,8,11) by (cases "x = p"; cases "x = q") simp_all
  show ?thesis
    unfolding shape_def
  proof (intro conjI allI impI ballI)
    show "finite (dom ?h)" using S(1) by simp
    show "trans_ok ?h c x xst" and "refers_ok ?h c x xst" if "?h x = Some xst" for x xst
      using t [OF that] by auto
    show "\<exists>st. ?h (m_state m) = Some st \<and> iocom st = i" if "m \<in> set (txmsgq (c i))" for i m
      using S(4) [OF that] new by metis
    show "\<exists>st. ?h x = Some st \<and> is_rb st \<and> is_opp st \<and> iocom st = i \<and> st_msgid st = k"
      if "staterd_tree (c i) k = Some x" for i k x
      using S(5) [OF that] new by metis
    show "\<exists>st. ?h x = Some st \<and> is_rb st \<and> \<not> is_opp st \<and> iocom st = i \<and> st_msgid st = k"
      if "statewr_tree (c i) k = Some x" for i k x
      using S(6) [OF that] new by metis
  qed
qed

lemma inv_unlink:
  assumes inv: "dmsg_inv dl w held" and p: "heap w p = Some st" and q: "heap w q = Some pst"
    and par: "parent st = Some q" and fl: "\<not> is_root st" "\<not> is_rb st"
    and st': "st' = st\<lparr>flags := flags st AND NOT DMSG_STATE_SUBINSERTED, parent := None\<rparr>"
    and pst': "pst' = pst\<lparr>scan := sc, subq := remove1 p (subq pst)\<rparr>"
  shows "dmsg_inv dl (w\<lparr>heap := (heap w)(q := Some pst', p := Some st')\<rparr>)
    (p # (if subq pst' = [] then q # held else held))"
proof -
  let ?h = "heap w" and ?c = "barec (coms w)"
  let ?b = "(bare ?h)(q := Some (pst'\<lparr>refs := 0\<rparr>), p := Some (st'\<lparr>refs := 0\<rparr>))"
  have sh: "shape (bare ?h) ?c" using inv by (simp add: dmsg_inv_def)
  have b: "bare ?h p = Some (st\<lparr>refs := 0\<rparr>)" "bare ?h q = Some (pst\<lparr>refs := 0\<rparr>)"
    using p q by (simp_all add: bare_def)
  have T: "trans_ok (bare ?h) ?c p (st\<lparr>refs := 0\<rparr>)" "trans_ok (bare ?h) ?c q (pst\<lparr>refs := 0\<rparr>)"
    using shapeD(2) [OF sh] b by auto
  have qp: "q \<noteq> p" and sub: "is_sub st" and on: "p \<in> set (subq pst)"
    using T(1) par fl b(2) by (auto simp: trans_ok_def on_subq_def)
  have sh': "shape ?b ?c"
  proof (rule shape_unlink [OF sh b])
    show "same_links (pst\<lparr>refs := 0\<rparr>\<lparr>subq := remove1 p (subq (pst\<lparr>refs := 0\<rparr>))\<rparr>) (pst'\<lparr>refs := 0\<rparr>)"
      by (simp add: pst' same_links_def)
    show "dir_ok (pst'\<lparr>refs := 0\<rparr>)" if "\<not> is_root (pst\<lparr>refs := 0\<rparr>)"
      using T(2) that by (simp add: trans_ok_def dir_ok_def pst')
  qed (use par fl in \<open>simp_all add: st' pst'\<close>)
  have old: "links ?c held x xst \<le> refs xst" if "?h x = Some xst" for x xst
    using inv that by (simp add: dmsg_inv_def counted_def)
  let ?held = "p # (if subq pst' = [] then q # held else held)"
  have cnt: "count_list ?held p = count_list held p + 1"
    "count_list ?held q = count_list held q + (if subq pst' = [] then 1 else 0)"
    "x \<noteq> p \<Longrightarrow> x \<noteq> q \<Longrightarrow> count_list ?held x = count_list held x" for x
    using qp by auto
  have R: "\<not> is_sub st'" "\<not> is_root st'" "\<not> is_rb st'" "subq st' = subq st" "iocom st' = iocom st"
    "refs st' = refs st" "any st' = any st"
    using fl by (simp_all add: st' flag_simps)
  have P: "links ?c ?held p st' \<le> refs st'"
    using old [OF p] sub fl unfolding links_def R cnt by (simp add: R)
  have pq: "flags pst' = flags pst" "iocom pst' = iocom pst" "refs pst' = refs pst" "any pst' = any pst"
    by (simp_all add: pst')
  have "(if subq pst' = [] then 0 else 1) + (if subq pst' = [] then 1 else 0) =
      (if subq pst = [] then 0 else (1::nat))"
    using on by (auto simp: pst')
  then have Q: "links ?c ?held q pst' \<le> refs pst'"
    using old [OF q] unfolding links_def pq cnt by linarith
  have O: "links ?c ?held x xst \<le> refs xst" if "x \<noteq> p" "x \<noteq> q" "?h x = Some xst" for x xst
    using old [OF that(3)] unfolding links_def cnt(3) [OF that(1,2)] by linarith
  have "links ?c ?held x xst \<le> refs xst"
    if x: "(?h(q := Some pst', p := Some st')) x = Some xst" for x xst
  proof -
    consider "x = p" "xst = st'" | "x = q" "xst = pst'" | "x \<noteq> p" "x \<noteq> q" "?h x = Some xst"
      using x by (auto split: if_splits)
    then show ?thesis by cases (use P Q O in \<open>simp_all only:\<close>)
  qed
  with sh' inv q show ?thesis
    by (auto simp: dmsg_inv_def counted_def)
qed

text \<open>
  \<open>dmsg_subq_delete\<close> keeps the invariant: it gives back the reference of the queue entry, and the
  one the queue holds on the parent when it was the last entry.
\<close>

lemma inv_live: "dmsg_inv dl w held \<Longrightarrow> p \<in> set held \<Longrightarrow> \<exists>st. heap w p = Some st"
  by (auto simp: dmsg_inv_def counted_def)

lemma inv_trans:
  assumes "dmsg_inv dl w held" and "heap w p = Some st"
  shows "trans_ok (bare (heap w)) (barec (coms w)) p (st\<lparr>refs := 0\<rparr>)"
    and "refers_ok (bare (heap w)) (barec (coms w)) p (st\<lparr>refs := 0\<rparr>)"
  using assms shapeD(2,3) [of "bare (heap w)" "barec (coms w)" p "st\<lparr>refs := 0\<rparr>"]
  by (auto simp: dmsg_inv_def bare_def)

lemma wp_drop:
  assumes "dmsg_inv dl w (p # held)" and "dmsg_inv dl (drop_world p w) held \<Longrightarrow> Q () (drop_world p w)"
  shows "dwp dl (dmsg_state_drop p) Q w"
  using assms drop_ok [OF assms(1)] by (simp add: dwp_Inr)

lemma wp_hold:
  assumes "dmsg_inv dl w held" and "heap w p = Some st"
    and "dmsg_inv dl (w\<lparr>heap := (heap w)(p := Some (st\<lparr>refs := refs st + 1\<rparr>))\<rparr>) (p # held) \<Longrightarrow>
      Q () (w\<lparr>heap := (heap w)(p := Some (st\<lparr>refs := refs st + 1\<rparr>))\<rparr>)"
  shows "dwp dl (dmsg_state_hold p) Q w"
  using assms hold_inv [OF assms(1,2)] hold_world [OF assms(2)] by (simp add: dwp_Inr)

lemma drop_world_other [simp]: "q \<noteq> p \<Longrightarrow> heap (drop_world p w) q = heap w q"
  by (simp add: drop_world_def split: option.splits)

lemma drop_world_coms [simp]: "coms (drop_world p w) = coms w"
  by (simp add: drop_world_def split: option.splits)

lemma drop_world_kept:
  assumes "dmsg_inv dl w (p # held)" and "p \<in> set held" and "heap w p = Some st"
  shows "heap (drop_world p w) p = Some (st\<lparr>refs := refs st - 1\<rparr>)"
proof -
  have "links (barec (coms w)) (p # held) p st \<le> refs st"
    using assms by (simp add: dmsg_inv_def counted_def)
  moreover have "count_list held p \<noteq> 0" using assms(2) by (simp add: count_list_0_iff)
  ultimately have "refs st \<noteq> 1" by (simp add: links_def)
  with assms(3) show ?thesis by (simp add: drop_world_def)
qed

lemma inv_swap: "dmsg_inv dl w (p # q # held) \<longleftrightarrow> dmsg_inv dl w (q # p # held)"
proof -
  have "count_list (p # q # held) x = count_list (q # p # held) x" for x by simp
  then have "links c (p # q # held) x st = links c (q # p # held) x st" for c x st
    unfolding links_def by presburger
  then show ?thesis by (auto simp: dmsg_inv_def counted_def)
qed

definition unlinked :: "dmsg_state \<Rightarrow> dmsg_state" where
  "unlinked st = st\<lparr>flags := flags st AND NOT DMSG_STATE_SUBINSERTED, parent := None\<rparr>"

definition unlink_world :: "ptr \<Rightarrow> ptr \<Rightarrow> dmsg_world \<Rightarrow> dmsg_world" where
  "unlink_world p q w =
     (case (heap w p, heap w q) of
        (Some st, Some pst) \<Rightarrow> w\<lparr>heap := (heap w)(q := Some (pst\<lparr>scan := (if scan pst = Some p then None
          else scan pst), subq := remove1 p (subq pst)\<rparr>), p := Some (unlinked st))\<rparr>
      | _ \<Rightarrow> w)"

lemma subq_delete_wp:
  assumes inv: "dmsg_inv dl w held" and p: "heap w p = Some st" and held: "p \<in> set held"
    and fl: "\<not> is_root st" "\<not> is_rb st"
    and Q: "\<And>w' n. dmsg_inv dl w' held \<Longrightarrow> coms w' = coms w \<Longrightarrow>
      heap w' p = Some (unlinked st\<lparr>refs := n\<rparr>) \<Longrightarrow> Q () w'"
  shows "dwp dl (dmsg_subq_delete p) Q w"
proof -
  note T = inv_trans [OF inv p]
  show ?thesis
  proof (cases "parent st")
    case None
    then have ns: "\<not> is_sub st" using T(1) fl by (simp add: trans_ok_def)
    then have "flags st AND NOT DMSG_STATE_SUBINSERTED = flags st"
      by (intro bit_word_eqI) (auto simp: flag_simps intro: Nat.gr0I)
    then have "unlinked st\<lparr>refs := refs st\<rparr> = st" using None by (simp add: unlinked_def)
    then show ?thesis
      using Q [OF inv refl, of "refs st"] p ns None by (simp add: dmsg_subq_delete_def dwp_simps)
  next
    case (Some q)
    then have sub: "is_sub st" and qp: "q \<noteq> p" and on: "on_subq (bare (heap w)) q p"
      using T(1) fl by (simp_all add: trans_ok_def)
    from on obtain pst where q: "heap w q = Some pst" and mem: "p \<in> set (subq pst)"
      by (auto simp: on_subq_def bare_apply)
    let ?w = "unlink_world p q w"
    let ?pst = "pst\<lparr>scan := (if scan pst = Some p then None else scan pst), subq := remove1 p (subq pst)\<rparr>"
    have w: "?w = w\<lparr>heap := (heap w)(q := Some ?pst, p := Some (unlinked st))\<rparr>"
      by (simp add: unlink_world_def p q)
    have inv1: "dmsg_inv dl ?w (p # (if subq ?pst = [] then q # held else held))"
      unfolding w by (rule inv_unlink [OF inv p q Some fl unlinked_def refl])
    have drop_p: "dwp dl (dmsg_state_drop p) Q w1"
      if i: "dmsg_inv dl w1 (p # held)" and h: "heap w1 p = Some (unlinked st)" and c: "coms w1 = coms w" for w1
    proof (rule wp_drop [OF i])
      assume "dmsg_inv dl (drop_world p w1) held"
      then show "Q () (drop_world p w1)"
        by (rule Q) (simp_all add: c drop_world_kept [OF i held h])
    qed
    have tail: "dwp dl (whenS (subq ?pst = []) (dmsg_state_drop q)) (\<lambda>_. dwp dl (dmsg_state_drop p) Q) ?w"
    proof (cases "subq ?pst = []")
      case False
      with inv1 show ?thesis by (simp only: whenS_def if_False dwp_simps) (rule drop_p, simp_all add: w)
    next
      case True
      then have i: "dmsg_inv dl ?w (q # p # held)" using inv1 by (simp add: inv_swap [of _ _ q p])
      have "dwp dl (dmsg_state_drop q) (\<lambda>_. dwp dl (dmsg_state_drop p) Q) ?w"
        by (rule wp_drop [OF i], rule drop_p) (use qp in \<open>simp_all add: w\<close>)
      with True show ?thesis by (simp add: whenS_def)
    qed
    have "heap ?w q = Some ?pst" using qp by (simp add: w)
    with tail have "dwp dl (bindS (deref q) (\<lambda>pst. bindS (whenS (subq pst = []) (dmsg_state_drop q))
        (\<lambda>_. dmsg_state_drop p))) Q ?w"
      by (simp add: dwp_bind dwp_mem)
    then show ?thesis
      using p q sub Some mem qp
      by (cases "scan pst = Some p"; cases "remove1 p (subq pst) = []")
        (simp_all add: dmsg_subq_delete_def subq_remove_def dwp_bind dwp_mem dwp_upd dwp_branches w unlinked_def fun_upd_twist)
  qed
qed

text \<open>A new transaction at the end of its parent's queue, entered into the tree of its direction.\<close>

definition enter :: "dmsg_state \<Rightarrow> ptr \<Rightarrow> dmsg_iocom \<Rightarrow> dmsg_iocom" where
  "enter st p c = (if is_opp st then c\<lparr>staterd_tree := (staterd_tree c)(st_msgid st := Some p)\<rparr>
     else c\<lparr>statewr_tree := (statewr_tree c)(st_msgid st := Some p)\<rparr>)"

lemma enter_simps [simp]:
  "state0 (enter st p c) = state0 c" "txmsgq (enter st p c) = txmsgq c"
  "mtx_kind (enter st p c) = mtx_kind c" "swork (enter st p c) = swork c"
  "signal_callback (enter st p c) = signal_callback c" "enter (st\<lparr>refs := n\<rparr>) p c = enter st p c"
  by (simp_all add: enter_def)

lemma barec_enter [simp]: "barec (c(i := enter st p (c i))) = (barec c)(i := enter st p (barec c i))"
  by (simp add: barec_def fun_eq_iff enter_def)

definition newborn :: "ptr \<Rightarrow> ptr \<Rightarrow> dmsg_state \<Rightarrow> dmsg_state \<Rightarrow> bool" where
  "newborn p q pst st \<longleftrightarrow> (\<not> is_opp st \<longrightarrow> st_msgid st = p) \<and> parent st = Some q \<and> subq st = [] \<and> relay st = None \<and>
     func st \<noteq> Some Dmsg_state_relay \<and> any st = 0 \<and> calm st \<and>
     iocom st = iocom pst \<and> is_sub st \<and> is_rb st \<and> \<not> is_root st \<and> dir_ok st"

lemma shape_create:
  assumes "shape h c" and q: "h q = Some pst" and p: "h p = None" and nb: "newborn p q pst st'"
    and pst': "pst' = pst\<lparr>subq := subq pst @ [p]\<rparr>"
    and tree: "state_tree st' (c (iocom pst)) (st_msgid st') = None"
  shows "shape (h(q := Some pst', p := Some st')) (c(iocom pst := enter st' p (c (iocom pst))))"
proof -
  let ?h = "h(q := Some pst', p := Some st')" and ?c = "c(iocom pst := enter st' p (c (iocom pst)))"
  note S = shapeD [OF assms(1)]
  note N = nb [unfolded newborn_def]
  have qp: "q \<noteq> p" using p q by auto
  have c: "state0 (?c i) = state0 (c i)" "txmsgq (?c i) = txmsgq (c i)" for i by simp_all
  have sub: "on_subq ?h y x" if "on_subq h y x" for y x
    using that p q by (auto simp: on_subq_def pst')
  have child: "child_at ?h y i x" if "child_at h y i x" for y i x
    using that p q by (auto simp: child_at_def pst')
  have root: "root_at ?h y i" if "root_at h y i" for y i
    using that p q by (auto simp: root_at_def pst')
  have st_tree: "state_tree xst (?c (iocom xst)) (st_msgid xst) = Some x"
    if "state_tree xst (c (iocom xst)) (st_msgid xst) = Some x" for x xst
    using that tree by (auto simp: state_tree_def enter_def split: if_splits)
  have pt: "state_tree pst' = state_tree pst" by (simp add: pst' state_tree_def fun_eq_iff)
  have P: "trans_ok ?h ?c p st'" "refers_ok ?h ?c p st'"
  proof -
    have "on_subq ?h q p" using qp by (simp add: on_subq_def pst')
    moreover have "state_tree st' (?c (iocom st')) (st_msgid st') = Some p"
      using N by (simp add: state_tree_def enter_def)
    ultimately show "trans_ok ?h ?c p st'" using N qp by (simp add: trans_ok_def)
    have "root_at ?h (state0 (c (iocom pst))) (iocom pst)"
      using S(3) [OF q] by (intro root) (simp add: refers_ok_def)
    then show "refers_ok ?h ?c p st'" unfolding refers_ok_def c using N by simp
  qed
  have old: "trans_ok ?h ?c x xst" if x: "h x = Some xst" for x xst
    using S(2) [OF x] sub st_tree [of xst x] unfolding trans_ok_def c by (auto split: if_splits option.splits)
  have oldr: "\<forall>y\<in>set (subq xst). child_at ?h x (iocom xst) y" "root_at ?h (state0 (c (iocom xst))) (iocom xst)"
    "calm xst \<and> distinct (subq xst) \<and> relay xst = None \<and> func xst \<noteq> Some Dmsg_state_relay"
    if x: "h x = Some xst" for x xst
    using S(3) [OF x] child root by (auto simp: refers_ok_def)
  have R: "refers_ok ?h ?c x xst" if "h x = Some xst" for x xst
    using oldr [OF that] unfolding refers_ok_def c by blast
  have Q: "trans_ok ?h ?c q pst'"
  proof -
    have PP: "flags pst' = flags pst" "parent pst' = parent pst" "iocom pst' = iocom pst"
      "st_msgid pst' = st_msgid pst" "rxcmd pst' = rxcmd pst" "txcmd pst' = txcmd pst"
      "func pst' = func pst"
      by (simp_all add: pst')
    show ?thesis using old [OF q] unfolding trans_ok_def dir_ok_def pt PP .
  qed
  have fresh: "p \<notin> set (subq pst)" using S(3) [OF q] p by (auto simp: refers_ok_def child_at_def)
  have "child_at ?h q (iocom pst) p" using N by (simp add: child_at_def)
  then have Qr: "refers_ok ?h ?c q pst'"
    using oldr [OF q] fresh unfolding refers_ok_def c by (simp add: pst')
  show ?thesis
    unfolding shape_def
  proof (intro conjI allI impI ballI)
    show "finite (dom ?h)" using S(1) by simp
    show "trans_ok ?h ?c x xst" if x: "?h x = Some xst" for x xst
    proof -
      consider "x = p" "xst = st'" | "x = q" "xst = pst'" | "x \<noteq> p" "x \<noteq> q" "h x = Some xst"
        using x by (auto split: if_splits)
      then show ?thesis by cases (use P(1) Q old [of x xst] in \<open>simp_all only:\<close>)
    qed
    show "refers_ok ?h ?c x xst" if x: "?h x = Some xst" for x xst
    proof -
      consider "x = p" "xst = st'" | "x = q" "xst = pst'" | "x \<noteq> p" "x \<noteq> q" "h x = Some xst"
        using x by (auto split: if_splits)
      then show ?thesis
        by cases (use P(2) Qr R [of x xst] in \<open>simp_all only:\<close>)
    qed
    show "\<exists>st. ?h (m_state m) = Some st \<and> iocom st = i" if "m \<in> set (txmsgq (?c i))" for i m
      using S(4) [of m i] that p q unfolding c by (auto simp: pst')
    show "\<exists>st. ?h x = Some st \<and> is_rb st \<and> is_opp st \<and> iocom st = i \<and> st_msgid st = k"
      if "staterd_tree (?c i) k = Some x" for i k x
    proof (cases "x = p")
      case True
      have "staterd_tree (c i) k \<noteq> Some p" using S(5) [of i k p] p by auto
      with that True N show ?thesis by (auto simp: enter_def split: if_splits)
    next
      case False
      with that have "staterd_tree (c i) k = Some x" by (auto simp: enter_def split: if_splits)
      from S(5) [OF this] False q show ?thesis by (auto simp: pst')
    qed
    show "\<exists>st. ?h x = Some st \<and> is_rb st \<and> \<not> is_opp st \<and> iocom st = i \<and> st_msgid st = k"
      if "statewr_tree (?c i) k = Some x" for i k x
    proof (cases "x = p")
      case True
      have "statewr_tree (c i) k \<noteq> Some p" using S(6) [of i k p] p by auto
      with that True N show ?thesis by (auto simp: enter_def split: if_splits)
    next
      case False
      with that have "statewr_tree (c i) k = Some x" by (auto simp: enter_def split: if_splits)
      from S(6) [OF this] False q show ?thesis by (auto simp: pst')
    qed
  qed
qed

lemma dir_ok_refs [simp]: "dir_ok (st\<lparr>refs := n\<rparr>) = dir_ok st"
  by (simp add: dir_ok_def)

lemma inv_create:
  assumes inv: "dmsg_inv dl w held" and q: "heap w q = Some pst" and p: "heap w p = None"
    and nb: "newborn p q pst st" and r: "refs st = 3"
    and n: "refs pst + (if subq pst = [] then 1 else 0) \<le> n"
    and tree: "state_tree st (coms w (iocom pst)) (st_msgid st) = None"
  shows "dmsg_inv dl (w\<lparr>heap := (heap w)(q := Some (pst\<lparr>subq := subq pst @ [p], refs := n\<rparr>), p := Some st),
    coms := (coms w)(iocom pst := enter st p (coms w (iocom pst)))\<rparr>) (p # held)"
proof -
  let ?h = "heap w" and ?c = "barec (coms w)" and ?pst = "pst\<lparr>subq := subq pst @ [p], refs := n\<rparr>"
  let ?c' = "?c(iocom pst := enter st p (?c (iocom pst)))"
  let ?b = "(bare ?h)(q := Some (?pst\<lparr>refs := 0\<rparr>), p := Some (st\<lparr>refs := 0\<rparr>))"
  have sh: "shape (bare ?h) ?c" using inv by (simp add: dmsg_inv_def)
  note S = shapeD [OF sh]
  have b: "bare ?h p = None" "bare ?h q = Some (pst\<lparr>refs := 0\<rparr>)" using p q by (simp_all add: bare_def)
  have qp: "q \<noteq> p" using p q by auto
  have nb0: "newborn p q (pst\<lparr>refs := 0\<rparr>) (st\<lparr>refs := 0\<rparr>)"
    using nb by (simp add: newborn_def)
  have t0: "state_tree (st\<lparr>refs := 0\<rparr>) (?c (iocom (pst\<lparr>refs := 0\<rparr>))) (st_msgid (st\<lparr>refs := 0\<rparr>)) = None"
    using tree by (simp add: state_tree_def barec_def split: if_splits)
  have sh': "shape ?b ?c'"
  proof -
    have "?pst\<lparr>refs := 0\<rparr> = (pst\<lparr>refs := 0\<rparr>)\<lparr>subq := subq (pst\<lparr>refs := 0\<rparr>) @ [p]\<rparr>" by simp
    from shape_create [OF sh b(2,1) nb0 this t0] show ?thesis by simp
  qed
  have nomsg: "count_list (map m_state (txmsgq (?c i))) p = 0" for i
  proof -
    have "m_state m \<noteq> p" if "m \<in> set (txmsgq (?c i))" for m using S(4) [OF that] p by (auto simp: bare_def)
    then show ?thesis by (auto simp: count_list_0_iff)
  qed
  have nheld: "count_list held p = 0"
    using inv p by (auto simp: dmsg_inv_def counted_def count_list_0_iff)
  have old: "links ?c held x xst \<le> refs xst" if "?h x = Some xst" for x xst
    using inv that by (simp add: dmsg_inv_def counted_def)
  have tq: "txmsgq (?c' i) = txmsgq (?c i)" for i by simp
  have P: "links ?c' (p # held) p st \<le> refs st"
    using nb nomsg nheld unfolding links_def tq by (simp add: r newborn_def)
  have Q: "links ?c' (p # held) q ?pst \<le> refs ?pst"
    using old [OF q] n qp unfolding links_def tq by (simp split: if_splits)
  have O: "links ?c' (p # held) x xst \<le> refs xst" if "x \<noteq> p" "?h x = Some xst" for x xst
    using old [OF that(2)] that(1) unfolding links_def tq by simp
  have "links ?c' (p # held) x xst \<le> refs xst"
    if x: "(?h(q := Some ?pst, p := Some st)) x = Some xst" for x xst
  proof -
    consider "x = p" "xst = st" | "x = q" "xst = ?pst" | "x \<noteq> p" "x \<noteq> q" "?h x = Some xst"
      using x by (auto split: if_splits)
    then show ?thesis by cases (use P Q O in \<open>simp_all only: not_False_eq_True\<close>)
  qed
  with sh' inv show ?thesis
    by (auto simp: dmsg_inv_def counted_def)
qed

end
