(* ===== verification/Dmsg_Operations.thy ===== *)
theory Dmsg_Operations
  imports Dmsg_Invariant
begin

text \<open>
  Every operation on a transaction keeps the invariant: no freed state is read, no counter goes below
  zero, and the run returns unless the mutex is one that is waited for by its holder.  \<open>dmsg_state_msgrx\<close>
  may also stop at one of its assertions, on a message that does not conform (\<open>rx_ok\<close>).
\<close>

section \<open>The mutex and freeing a message\<close>

definition set_mtx :: "nat \<Rightarrow> nat \<Rightarrow> dmsg_world \<Rightarrow> dmsg_world" where
  "set_mtx i n w = w\<lparr>coms := (coms w)(i := (coms w i)\<lparr>mtx := n\<rparr>)\<rparr>"

lemma set_mtx_simps [simp]:
  "heap (set_mtx i n w) = heap w"
  "state0 (coms (set_mtx i n w) j) = state0 (coms w j)"
  "staterd_tree (coms (set_mtx i n w) j) = staterd_tree (coms w j)"
  "statewr_tree (coms (set_mtx i n w) j) = statewr_tree (coms w j)"
  "txmsgq (coms (set_mtx i n w) j) = txmsgq (coms w j)"
  "mtx_kind (coms (set_mtx i n w) j) = mtx_kind (coms w j)"
  "swork (coms (set_mtx i n w) j) = swork (coms w j)"
  "signal_callback (coms (set_mtx i n w) j) = signal_callback (coms w j)"
  by (simp_all add: set_mtx_def)

lemma inv_set_mtx [simp]: "dmsg_inv dl (set_mtx i n w) held = dmsg_inv dl w held"
proof -
  have "barec (coms (set_mtx i n w)) = barec (coms w)" by (simp add: set_mtx_def)
  then show ?thesis by (simp add: dmsg_inv_def)
qed

lemma lock_wp:
  assumes "dmsg_inv dl w held" and "\<And>n. Q () (set_mtx i n w)"
  shows "dwp dl (pthread_mutex_lock i) Q w"
proof -
  have "set_mtx i (mtx (coms w i)) w = w" by (simp add: set_mtx_def)
  then have "Q () w" using assms(2) [of "mtx (coms w i)"] by simp
  moreover have "dl \<or> mtx_kind (coms w i) \<noteq> Mutex_Normal" using assms(1) by (auto simp: dmsg_inv_def)
  ultimately show ?thesis
    using assms(2) [unfolded set_mtx_def]
    by (cases "mtx_kind (coms w i)") (auto simp: pthread_mutex_lock_def dwp_simps)
qed

lemma unlock_wp: "(\<And>n. Q () (set_mtx i n w)) \<Longrightarrow> dwp dl (pthread_mutex_unlock i) Q w"
  by (simp add: pthread_mutex_unlock_def dwp_simps set_mtx_def)

text \<open>A state that stays alive stays with its connection.\<close>

definition same_com :: "dmsg_world \<Rightarrow> dmsg_world \<Rightarrow> ptr \<Rightarrow> bool" where
  "same_com w w' p \<longleftrightarrow> (\<exists>st st'. heap w p = Some st \<and> heap w' p = Some st' \<and> iocom st' = iocom st)"

lemma msg_free_wp:
  assumes inv: "dmsg_inv dl w (m_state msg # held)"
    and Q: "\<And>w'. dmsg_inv dl w' held \<Longrightarrow> (\<And>q. q \<noteq> m_state msg \<Longrightarrow> heap w' q = heap w q) \<Longrightarrow>
      (m_state msg \<in> set held \<Longrightarrow> same_com w w' (m_state msg)) \<Longrightarrow> Q () w'"
  shows "dwp dl (dmsg_msg_free msg) Q w"
proof -
  obtain st where st: "heap w (m_state msg) = Some st" using inv_live [OF inv] by auto
  have "dwp dl (pthread_mutex_lock (iocom st)) (\<lambda>_. dwp dl (dmsg_state_drop (m_state msg))
      (\<lambda>_. dwp dl (pthread_mutex_unlock (iocom st)) Q)) w"
  proof (rule lock_wp [OF inv])
    fix n
    let ?u = "set_mtx (iocom st) n w"
    have i: "dmsg_inv dl ?u (m_state msg # held)" using inv by simp
    have "same_com w (drop_world (m_state msg) ?u) (m_state msg)" if "m_state msg \<in> set held"
      using drop_world_kept [OF i that, of st] st by (simp add: same_com_def)
    then show "dwp dl (dmsg_state_drop (m_state msg)) (\<lambda>_. dwp dl (pthread_mutex_unlock (iocom st)) Q) ?u"
      by (intro wp_drop [OF i] unlock_wp Q) (auto simp: same_com_def)
  qed
  then show ?thesis by (simp add: dmsg_msg_free_def dmsg_msg_free_locked_def dwp_simps st)
qed

lemma drop_relay_wp:
  assumes inv: "dmsg_inv dl w held" and p: "heap w p = Some st"
    and Q: "\<And>w'. dmsg_inv dl w' held \<Longrightarrow> heap w' p = Some st \<Longrightarrow> coms w' = coms w \<Longrightarrow> Q () w'"
  shows "dwp dl (drop_relay p) Q w"
proof -
  have "relay st = None" using inv_trans(2) [OF inv p] by (simp add: refers_ok_def)
  then show ?thesis using Q [OF inv p refl] p by (simp add: drop_relay_def dwp_simps)
qed

section \<open>Retiring a received message\<close>

lemma cleanuprx_wp:
  assumes inv: "dmsg_inv dl w (m_state msg # held)" and st: "heap w (m_state msg) = Some st"
    and i: "iocom st = i" and Q: "\<And>w'. dmsg_inv dl w' held \<Longrightarrow> Q () w'"
  shows "dwp dl (dmsg_state_cleanuprx i msg) Q w"
proof -
  have free: "dwp dl (dmsg_msg_free msg) Q w'" if "dmsg_inv dl w' (m_state msg # held)" for w'
    by (rule msg_free_wp [OF that]) (rule Q)
  have close: "dwp dl (dmsg_subq_delete (m_state msg)) (\<lambda>_. dwp dl (drop_relay (m_state msg))
      (\<lambda>_. dwp dl (dmsg_msg_free msg) Q)) w"
    if "\<not> is_root st" and "rx_closed st" and "tx_closed st"
  proof (rule subq_delete_wp [OF inv st])
    show "\<not> is_rb st" using inv_trans(1) [OF inv st] that by (simp add: trans_ok_def dir_ok_def)
    fix w' n
    assume i: "dmsg_inv dl w' (m_state msg # held)"
      and p: "heap w' (m_state msg) = Some (unlinked st\<lparr>refs := n\<rparr>)"
    show "dwp dl (drop_relay (m_state msg)) (\<lambda>_. dwp dl (dmsg_msg_free msg) Q) w'"
      by (rule drop_relay_wp [OF i p]) (rule free)
  qed (use that in simp_all)
  show ?thesis
    using free [OF inv] close i
    by (simp add: dmsg_state_cleanuprx_def dwp_bind dwp_mem dwp_basic dwp_branches st)
qed

section \<open>Reception\<close>

lemma world_order: "w\<lparr>coms := c, heap := h\<rparr> = w\<lparr>heap := h, coms := c\<rparr>"
  by simp

text \<open>
  The post-processing of a \<open>DELETE\<close> marks the receive side and, if the other side is closed too,
  forgets the state.
\<close>

lemma msgrx_delete_wp:
  assumes inv: "dmsg_inv dl w held" and p: "heap w p = Some st" and held: "p \<in> set held"
    and i: "iocom st = i"
    and D: "has (m_cmd msg) DMSGF_DELETE \<Longrightarrow> \<not> is_root st \<Longrightarrow>
      \<not> rx_closed st \<and> (tx_closed st \<longrightarrow> (has (m_cmd msg) DMSGF_REPLY \<longleftrightarrow> has (rxcmd st) DMSGF_REPLY))"
    and Q: "\<And>w' st'. dmsg_inv dl w' held \<Longrightarrow> heap w' p = Some st' \<Longrightarrow> iocom st' = i \<Longrightarrow>
      parent st' = parent st \<Longrightarrow> Q () w'"
  shows "dwp dl (msgrx_delete i msg p) Q w"
proof -
  note T = inv_trans(1) [OF inv p]
  let ?rx = "st\<lparr>rxcmd := rxcmd st OR DMSGF_DELETE\<rparr>"
  consider (stay) "is_root st \<or> \<not> has (m_cmd msg) DMSGF_DELETE"
    | (half) "\<not> is_root st" "has (m_cmd msg) DMSGF_DELETE" "\<not> tx_closed st"
    | (full) "\<not> is_root st" "has (m_cmd msg) DMSGF_DELETE" "tx_closed st" by blast
  then show ?thesis
  proof cases
    case stay
    then show ?thesis using Q [OF inv p i refl] by (auto simp: msgrx_delete_def dwp_simps p)
  next
    case half
    then have rb: "is_rb st" and dir: "dir_ok st" using T by (simp_all add: trans_ok_def dir_ok_def)
    have "dmsg_inv dl (w\<lparr>heap := (heap w)(p := Some ?rx)\<rparr>) held"
      by (rule inv_upd [OF inv p]) (use half dir in \<open>simp_all add: same_links_def dir_ok_def flag_simps\<close>)
    then show ?thesis
      using half D Q [of _ ?rx] i p by (simp add: msgrx_delete_def dwp_simps)
  next
    case full
    then have dir: "dir_ok st" and nrx: "\<not> rx_closed st" using T D by (simp_all add: trans_ok_def)
    then have rb: "is_rb st" by (simp add: dir_ok_def)
    then have tree: "state_tree st (coms w i) (st_msgid st) = Some p"
      using T full(1) i by (auto simp: trans_ok_def state_tree_def barec_def split: if_splits)
    let ?st = "?rx\<lparr>flags := flags st AND NOT DMSG_STATE_RBINSERTED\<rparr>"
    let ?w = "w\<lparr>heap := (heap w)(p := Some ?st), coms := (coms w)(i := forget st (coms w i))\<rparr>"
    have cl: "closes st ?st"
      using dir full(3) by (simp add: closes_def same_links_def dir_ok_def flag_simps)
    have inv1: "dmsg_inv dl ?w (p # held)" using inv_close [OF inv p cl rb full(1)] i by simp
    have "dwp dl (dmsg_state_drop p) Q ?w"
    proof (rule wp_drop [OF inv1])
      assume d: "dmsg_inv dl (drop_world p ?w) held"
      show "Q () (drop_world p ?w)"
        by (rule Q [OF d drop_world_kept [OF inv1 held, of ?st]]) (use i in simp_all)
    qed
    moreover have "forget st (coms w i) = (if has (rxcmd st) DMSGF_REPLY
        then (coms w i)\<lparr>statewr_tree := (statewr_tree (coms w i))(st_msgid st := None)\<rparr>
        else (coms w i)\<lparr>staterd_tree := (staterd_tree (coms w i))(st_msgid st := None)\<rparr>)"
      using dir by (simp add: forget_def dir_ok_def)
    ultimately show ?thesis
      using full D rb nrx i p tree dir
      by (cases "is_opp st") (simp_all add: msgrx_delete_def dwp_simps RB_REMOVE_wr_def RB_REMOVE_rd_def
          state_tree_def dir_ok_def world_order)
  qed
qed

lemma inv_count [simp]: "dmsg_inv dl (w\<lparr>dmsg_state_count := n\<rparr>) held = dmsg_inv dl w held"
  by (simp add: dmsg_inv_def)

text \<open>A new transaction of the other side: the state \<open>dmsg_state_msgrx\<close> makes for it.\<close>

definition remote_state :: "nat \<Rightarrow> dmsg_msg \<Rightarrow> ptr \<Rightarrow> dmsg_state \<Rightarrow> dmsg_state" where
  "remote_state i msg q pst =
     new_state\<lparr>parent := Some q, iocom := i,
       flags := ((DMSG_STATE_DYNAMIC OR DMSG_STATE_OPPOSITE) AND NOT DMSG_STATE_NEW) OR
         (DMSG_STATE_SUBINSERTED OR DMSG_STATE_RBINSERTED),
       st_msgid := msgid (head msg), txcmd := DMSGF_REPLY, rxcmd := m_cmd msg AND NOT DMSGF_DELETE,
       icmd := m_cmd msg AND NOT DMSGF_DELETE AND DMSGF_BASECMDMASK, refs := 3,
       func := (if relay pst \<noteq> None then Some Dmsg_state_relay else None)\<rparr>"

definition create_world :: "nat \<Rightarrow> ptr \<Rightarrow> ptr \<Rightarrow> dmsg_state \<Rightarrow> nat \<Rightarrow> dmsg_world \<Rightarrow> dmsg_world" where
  "create_world i p q st n w =
     w\<lparr>heap := (heap w)(q := Some ((the (heap w q))\<lparr>subq := subq (the (heap w q)) @ [p], refs := n\<rparr>),
         p := Some st),
       coms := (coms w)(i := enter st p (coms w i)), dmsg_state_count := dmsg_state_count w + 1\<rparr>"

lemma create_world_inv:
  assumes "dmsg_inv dl w held" and "heap w q = Some pst" and "heap w p = None" and "iocom pst = i"
    and "newborn p q pst st" and "refs st = 3" and "refs pst + (if subq pst = [] then 1 else 0) \<le> n"
    and "state_tree st (coms w i) (st_msgid st) = None"
  shows "dmsg_inv dl (create_world i p q st n w) (p # held)"
  unfolding create_world_def inv_count
  using inv_create [OF assms(1-3,5-7)] assms(2,4,8) by simp

lemma state_order: "st\<lparr>refs := n, subq := s\<rparr> = st\<lparr>subq := s, refs := n\<rparr>"
  by simp

lemma msgrx_create_run:
  assumes q: "heap w q = Some pst" and p: "malloc_state env (heap w) = p" "heap w p = None"
    and tree: "staterd_tree (coms w i) (msgid (head msg)) = None"
  shows "msgrx_create env i msg q w =
    Inr (p, create_world i p q (remote_state i msg q pst)
      (refs pst + 1 + (if subq pst = [] then 1 else 0)) w)"
proof -
  have qp: "p \<noteq> q" "q \<noteq> p" using p q by auto
  have "is_opp (remote_state i msg q pst)" by (simp add: remote_state_def flag_simps)
  then show ?thesis
    using q p qp tree
    by (cases "subq pst = []"; cases "relay pst = None")
      (simp_all add: msgrx_create_def alloc_state_def bindS_def getS_def put_def upd_def deref_def modifyS_def
        upd_com_def dmsg_state_hold_def whenS_def returnS_def subq_insert_tail_def RB_INSERT_def
        create_world_def remote_state_def enter_def new_state_def fun_upd_twist [OF qp(1)] state_order
        numeral_3_eq_3)
qed

text \<open>
  What \<open>dmsg_state_msgrx\<close> hands to the callback: the message over a state of the connection that is linked
  to its parent, with the auxiliary data that was received.
\<close>

definition handed :: "nat \<Rightarrow> dmsg_msg \<Rightarrow> dmsg_msg \<Rightarrow> dmsg_world \<Rightarrow> bool" where
  "handed i msg msg' w \<longleftrightarrow> (\<exists>st. heap w (m_state msg') = Some st \<and> iocom st = i \<and> parent st \<noteq> None) \<and>
     aux_size msg' = aux_size msg \<and> aux_data msg' = aux_data msg"

text \<open>
  The messages a conforming peer sends: over a known circuit, a \<open>CREATE\<close> for an unused id or any other
  message over an open transaction in the direction the transaction has, not after its \<open>DELETE\<close>.
  A message without a transaction is not sent over a circuit.
\<close>

definition rx_ok :: "nat \<Rightarrow> dmsg_msg \<Rightarrow> dmsg_world \<Rightarrow> bool" where
  "rx_ok i msg w =
     (let C = has (m_cmd msg) DMSGF_CREATE; D = has (m_cmd msg) DMSGF_DELETE;
          R = has (m_cmd msg) DMSGF_REPLY; A = has (m_cmd msg) DMSGF_ABORT in
      case msgrx_pstate (coms w i) msg of
        None \<Rightarrow> True
      | Some q \<Rightarrow>
          (case msgrx_lookup (coms w i) msg of
             None \<Rightarrow>
               if C then \<not> R \<and> staterd_tree (coms w i) (msgid (head msg)) = None
               else circuit (head msg) = 0 \<and> (D \<longrightarrow> A)
           | Some p \<Rightarrow>
               (case heap w p of
                  None \<Rightarrow> False
                | Some st \<Rightarrow> parent st = Some q \<and> (R \<longleftrightarrow> has (rxcmd st) DMSGF_REPLY) \<and> (C \<longrightarrow> R) \<and>
                    (D \<longrightarrow> \<not> rx_closed st \<and> (C \<or> A \<or> has (rxcmd st) DMSGF_CREATE)))))"

lemma msgrx_finish_wp:
  assumes inv: "dmsg_inv dl w (m_state msg # held)" and p: "heap w (m_state msg) = Some st" and i: "iocom st = i"
    and par: "parent st \<noteq> None"
    and D: "has (m_cmd msg) DMSGF_DELETE \<Longrightarrow> \<not> is_root st \<Longrightarrow>
      \<not> rx_closed st \<and> (tx_closed st \<longrightarrow> (has (m_cmd msg) DMSGF_REPLY \<longleftrightarrow> has (rxcmd st) DMSGF_REPLY))"
    and Q: "\<And>w' msg'. dmsg_inv dl w' (m_state msg # held) \<Longrightarrow> m_state msg' = m_state msg \<Longrightarrow>
      handed i msg msg' w' \<Longrightarrow> Q (err, msg') w'"
  shows "dwp dl (msgrx_finish i err (m_state msg) msg) Q w"
proof -
  let ?msg = "msg\<lparr>tcmd := msgrx_tcmd msg st st\<rparr>"
  have "dwp dl (msgrx_delete i ?msg (m_state msg)) (\<lambda>_. dwp dl (pthread_mutex_unlock i) (\<lambda>_. Q (err, ?msg))) w"
    by (rule msgrx_delete_wp [OF inv p _ i])
      (use D par in \<open>auto simp: m_cmd_def handed_def intro!: unlock_wp Q\<close>)
  then show ?thesis using p i by (simp add: msgrx_finish_def dwp_simps)
qed

text \<open>The switch on a transaction that exists.\<close>

lemma msgrx_reply_inv:
  assumes inv: "dmsg_inv dl w (m_state msg # held)" and p: "heap w (m_state msg) = Some st"
    and nr: "\<not> is_root st" and rb: "is_rb st"
    and R: "has (m_cmd msg) DMSGF_REPLY \<longleftrightarrow> has (rxcmd st) DMSGF_REPLY"
  shows "dmsg_inv dl (w\<lparr>heap := (heap w)(m_state msg := Some (st\<lparr>rxcmd := m_cmd msg AND NOT DMSGF_DELETE\<rparr>))\<rparr>)
    (m_state msg # held)"
proof -
  have dir: "dir_ok st" using inv_trans(1) [OF inv p] nr by (auto simp: trans_ok_def dir_ok_def)
  show ?thesis
    by (rule inv_upd [OF inv p]) (use rb R dir in \<open>simp_all add: same_links_def dir_ok_def flag_simps\<close>)
qed

lemma msgrx_existing_wp:
  assumes inv: "dmsg_inv dl w (m_state msg # held)" and p: "heap w (m_state msg) = Some st" and i: "iocom st = i"
    and nr: "\<not> is_root st" and rb: "is_rb st" and ps: "ps \<noteq> Some (m_state msg)" and par: "parent st \<noteq> None"
    and R: "has (m_cmd msg) DMSGF_REPLY \<longleftrightarrow> has (rxcmd st) DMSGF_REPLY"
    and CR: "has (m_cmd msg) DMSGF_CREATE \<longrightarrow> has (m_cmd msg) DMSGF_REPLY"
    and D: "has (m_cmd msg) DMSGF_DELETE \<longrightarrow> \<not> rx_closed st \<and> (has (m_cmd msg) DMSGF_CREATE \<or>
      has (m_cmd msg) DMSGF_ABORT \<or> has (rxcmd st) DMSGF_CREATE)"
    and Q: "\<And>err w' msg'. dmsg_inv dl w' (m_state msg # held) \<Longrightarrow> m_state msg' = m_state msg \<Longrightarrow>
      handed i msg msg' w' \<Longrightarrow> Q (err, msg') w'"
  shows "dwp dl (msgrx_found env i msg (m_state msg) ps) Q w"
proof -
  let ?st = "st\<lparr>rxcmd := m_cmd msg AND NOT DMSGF_DELETE\<rparr>"
  let ?w = "w\<lparr>heap := (heap w)(m_state msg := Some ?st)\<rparr>"
  have F: "dwp dl (msgrx_finish i err (m_state msg) msg) Q w" for err
    by (rule msgrx_finish_wp [OF inv p i par]) (use D R in \<open>auto intro: Q\<close>)
  have G: "dwp dl (msgrx_finish i 0 (m_state msg) msg) Q ?w"
    by (rule msgrx_finish_wp [OF msgrx_reply_inv [OF inv p nr rb R], where st = ?st])
      (use i R par in \<open>auto simp: flag_simps intro: Q\<close>)
  have x: "has (rxcmd st XOR m_cmd msg) DMSGF_REPLY \<longleftrightarrow> False"
    using R by (simp add: flag_simps bit_xor_iff)
  consider "has (m_cmd msg) DMSGF_CREATE" | "\<not> has (m_cmd msg) DMSGF_CREATE" "has (m_cmd msg) DMSGF_DELETE"
    | "\<not> has (m_cmd msg) DMSGF_CREATE" "\<not> has (m_cmd msg) DMSGF_DELETE" by blast
  then show ?thesis
    by cases (use F G p ps R CR D rb x in \<open>auto simp: msgrx_found_def msgrx_switch_def msgrx_missing_def
      dwp_simps\<close>)
qed

lemma inv_forget_held: "dmsg_inv dl w (x # held) \<Longrightarrow> dmsg_inv dl w held"
proof -
  assume inv: "dmsg_inv dl w (x # held)"
  have "links c held p st \<le> links c (x # held) p st" for c p st by (simp add: links_def)
  with inv show ?thesis unfolding dmsg_inv_def counted_def by (meson list.set_intros(2) order_trans)
qed

text \<open>What the trees and the root pointer of a connection lead to.\<close>

lemma tree_state:
  assumes "dmsg_inv dl w held" and "staterd_tree (coms w i) k = Some p \<or> statewr_tree (coms w i) k = Some p"
  obtains st where "heap w p = Some st" "is_rb st" "\<not> is_root st" "iocom st = i" "parent st \<noteq> None"
proof -
  have sh: "shape (bare (heap w)) (barec (coms w))" using assms(1) by (simp add: dmsg_inv_def)
  have "\<exists>st. bare (heap w) p = Some st \<and> is_rb st \<and> iocom st = i"
    using assms(2) shapeD(5,6) [OF sh, of i k p] by (auto simp: barec_def)
  then obtain st where st: "heap w p = Some st" "is_rb st" "iocom st = i" by (auto simp: bare_apply)
  moreover have "\<not> is_root st" "parent st \<noteq> None"
    using inv_trans(1) [OF assms(1) st(1)] st(2) by (auto simp: trans_ok_def split: if_splits option.splits)
  ultimately show thesis using that by blast
qed

lemma dispatch_existing:
  assumes inv: "dmsg_inv dl w (m_state msg # held)" and root: "heap w (m_state msg) = Some rst" "is_root rst"
    and circ: "msgrx_pstate (coms w i) msg = Some q" and found: "msgrx_lookup (coms w i) msg = Some p"
    and ok: "rx_ok i msg w"
    and Q: "\<And>err w' msg'. dmsg_inv dl w' (m_state msg' # held) \<Longrightarrow> handed i msg msg' w' \<Longrightarrow> Q (err, msg') w'"
  shows "dwp dl (msgrx_dispatch env i msg) Q w"
proof -
  obtain st where p: "heap w p = Some st" "is_rb st" "\<not> is_root st" "iocom st = i" "parent st \<noteq> None"
    using tree_state [OF inv, of i "msgid (head msg)" p] found by (auto simp: msgrx_lookup_def split: if_splits)
  have np: "p \<noteq> m_state msg" using p(1,3) root by auto
  have c: "parent st = Some q" "has (m_cmd msg) DMSGF_REPLY \<longleftrightarrow> has (rxcmd st) DMSGF_REPLY"
    "has (m_cmd msg) DMSGF_CREATE \<longrightarrow> has (m_cmd msg) DMSGF_REPLY"
    "has (m_cmd msg) DMSGF_DELETE \<longrightarrow> \<not> rx_closed st \<and> (has (m_cmd msg) DMSGF_CREATE \<or>
      has (m_cmd msg) DMSGF_ABORT \<or> has (rxcmd st) DMSGF_CREATE)"
    using ok circ found p(1) unfolding rx_ok_def Let_def by auto
  let ?w = "drop_world (m_state msg) w" and ?m = "msg\<lparr>m_state := p\<rparr>"
  have h: "heap ?w p = Some st" using np p(1) by simp
  let ?v = "?w\<lparr>heap := (heap ?w)(p := Some (st\<lparr>refs := refs st + 1\<rparr>))\<rparr>"
  have ext: "dwp dl (msgrx_found env i ?m p (Some q)) Q ?v" if v: "dmsg_inv dl ?v (p # held)"
  proof -
    have "Some q \<noteq> Some p" using c(1) inv_trans(1) [OF inv p(1)] p(3) by (auto simp: trans_ok_def)
    then have "dwp dl (msgrx_found env i ?m (m_state ?m) (Some q)) Q ?v"
      by (intro msgrx_existing_wp [where st = "st\<lparr>refs := refs st + 1\<rparr>" and held = held])
        (use v c p in \<open>auto simp: m_cmd_def handed_def intro!: Q\<close>)
    then show ?thesis by simp
  qed
  have "dwp dl (dmsg_state_hold p) (\<lambda>_ x. \<exists>st. heap x p = Some st \<and> Some q = parent st \<and>
      dwp dl (msgrx_found env i ?m p (Some q)) Q x) ?w" if "dmsg_inv dl ?w held"
    by (rule wp_hold [OF that h]) (use ext c(1) in simp)
  then have "dwp dl (dmsg_state_drop (m_state msg)) (\<lambda>_. dwp dl (dmsg_state_hold p) (\<lambda>_ x. \<exists>st. heap x p = Some st \<and>
      Some q = parent st \<and> dwp dl (msgrx_found env i ?m p (Some q)) Q x)) w"
    by (rule wp_drop [OF inv])
  then show ?thesis using circ found by (simp add: msgrx_dispatch_def dwp_simps)
qed

lemma dispatch_create:
  assumes inv: "dmsg_inv dl w (m_state msg # held)" and q: "heap w q = Some pst" "iocom pst = i"
    and circ: "msgrx_pstate (coms w i) msg = Some q" and found: "msgrx_lookup (coms w i) msg = None"
    and C: "has (m_cmd msg) DMSGF_CREATE" and ok: "rx_ok i msg w" and fresh: "heap w (malloc_state env (heap w)) = None"
    and Q: "\<And>err w' msg'. dmsg_inv dl w' (m_state msg' # held) \<Longrightarrow> handed i msg msg' w' \<Longrightarrow> Q (err, msg') w'"
  shows "dwp dl (msgrx_dispatch env i msg) Q w"
proof -
  let ?p = "malloc_state env (heap w)"
  have c: "\<not> has (m_cmd msg) DMSGF_REPLY" "staterd_tree (coms w i) (msgid (head msg)) = None" "heap w ?p = None"
    using C ok circ found fresh by (simp_all add: rx_ok_def Let_def)
  let ?st = "remote_state i msg q pst" and ?n = "refs pst + 1 + (if subq pst = [] then 1 else 0)"
  let ?w = "create_world i ?p q ?st ?n w"
  have run: "msgrx_create env i msg q w = Inr (?p, ?w)"
    by (rule msgrx_create_run) (use q c in simp_all)
  have opp: "is_opp ?st" by (simp add: remote_state_def flag_simps)
  have "dmsg_inv dl ?w (?p # m_state msg # held)"
  proof (rule create_world_inv [OF inv q(1) c(3) q(2)])
    show "newborn ?p q pst ?st"
      using c(1) q(2) inv_trans(2) [OF inv q(1)]
      by (simp add: newborn_def remote_state_def new_state_def dir_ok_def flag_simps refers_ok_def)
    show "state_tree ?st (coms w i) (st_msgid ?st) = None"
      using c(2) opp by (simp add: state_tree_def) (simp add: remote_state_def)
  qed (simp_all add: remote_state_def)
  then have v: "dmsg_inv dl ?w (?p # held)"
    by (metis inv_swap inv_forget_held)
  have "dwp dl (msgrx_finish i 0 (m_state (msg\<lparr>m_state := ?p\<rparr>)) (msg\<lparr>m_state := ?p\<rparr>)) Q ?w"
    by (rule msgrx_finish_wp [where held = held and st = ?st])
      (use v c(1) in \<open>auto simp: create_world_def remote_state_def m_cmd_def flag_simps handed_def intro!: Q\<close>)
  then show ?thesis
    using circ found C c(1) run
    by (simp add: msgrx_dispatch_def msgrx_found_def msgrx_switch_def dwp_simps) (simp add: dwp_Inr)
qed

lemma dispatch_oneoff:
  assumes inv: "dmsg_inv dl w (m_state msg # held)"
    and root: "heap w (m_state msg) = Some rst" "is_root rst" "iocom rst = i"
    and s0: "m_state msg = state0 (coms w i)"
    and circ: "msgrx_pstate (coms w i) msg = Some q" and found: "msgrx_lookup (coms w i) msg = None"
    and C: "\<not> has (m_cmd msg) DMSGF_CREATE" and ok: "rx_ok i msg w"
    and Q: "\<And>err w' msg'. dmsg_inv dl w' (m_state msg' # held) \<Longrightarrow> handed i msg msg' w' \<Longrightarrow> Q (err, msg') w'"
  shows "dwp dl (msgrx_dispatch env i msg) Q w"
proof -
  have z: "circuit (head msg) = 0" and DA: "has (m_cmd msg) DMSGF_DELETE \<longrightarrow> has (m_cmd msg) DMSGF_ABORT"
    using C ok circ found by (simp_all add: rx_ok_def Let_def)
  then have qs: "q = m_state msg" using circ s0 by (simp add: msgrx_pstate_def)
  have "dwp dl (msgrx_finish i err (m_state msg) msg) Q w" for err
    by (rule msgrx_finish_wp [where held = held and st = rst])
      (use inv root inv_trans(1) [OF inv root(1)] in \<open>auto simp: trans_ok_def intro: Q\<close>)
  then show ?thesis
    using circ found C DA
    by (simp add: qs msgrx_dispatch_def msgrx_found_def msgrx_switch_def msgrx_missing_def dwp_simps)
qed

lemma pstate_live:
  assumes "dmsg_inv dl w held" and "heap w (state0 (coms w i)) = Some rst" and "iocom rst = i"
    and "msgrx_pstate (coms w i) msg = Some q"
  shows "\<exists>pst. heap w q = Some pst \<and> iocom pst = i"
proof (cases "circuit (head msg) = 0")
  case True
  then show ?thesis using assms(2-4) by (auto simp: msgrx_pstate_def)
next
  case False
  then have "staterd_tree (coms w i) (circuit (head msg)) = Some q \<or>
      statewr_tree (coms w i) (circuit (head msg)) = Some q"
    using assms(4) by (auto simp: msgrx_pstate_def split: if_splits)
  then show ?thesis using tree_state [OF assms(1)] by metis
qed

lemma dispatch_wp:
  assumes inv: "dmsg_inv dl w (m_state msg # held)" and s0: "m_state msg = state0 (coms w i)"
    and root: "heap w (m_state msg) = Some rst" "is_root rst" "iocom rst = i" and ok: "rx_ok i msg w"
    and fresh: "heap w (malloc_state env (heap w)) = None"
    and Q: "\<And>err w' msg'. dmsg_inv dl w' (m_state msg' # held) \<Longrightarrow> handed i msg msg' w' \<Longrightarrow> Q (err, msg') w'"
  shows "dwp dl (msgrx_dispatch env i msg) Q w"
proof (cases "msgrx_pstate (coms w i) msg")
  case None
  then show ?thesis
    using inv root inv_trans(1) [OF inv root(1)]
    by (auto simp: msgrx_dispatch_def dwp_simps handed_def trans_ok_def intro!: unlock_wp Q)
next
  case (Some q)
  show ?thesis
  proof (cases "msgrx_lookup (coms w i) msg")
    case None
    show ?thesis
    proof (cases "has (m_cmd msg) DMSGF_CREATE")
      case True
      from pstate_live [OF inv _ root(3) Some] root(1) s0
      obtain pst where "heap w q = Some pst" "iocom pst = i" by auto
      then show ?thesis by (rule dispatch_create [OF inv _ _ Some None True ok fresh]) (rule Q)
    next
      case False
      then show ?thesis by (rule dispatch_oneoff [OF inv root s0 Some None _ ok]) (rule Q)
    qed
  next
    case found: (Some p)
    show ?thesis by (rule dispatch_existing [OF inv root(1,2) Some found ok]) (rule Q)
  qed
qed

lemma rx_ok_refs: "heap w p = Some st \<Longrightarrow>
    rx_ok i msg (w\<lparr>heap := (heap w)(p := Some (st\<lparr>refs := n\<rparr>))\<rparr>) = rx_ok i msg w"
  unfolding rx_ok_def Let_def by (auto split: option.splits)

lemma rx_ok_mtx [simp]: "rx_ok i msg (set_mtx j n w) = rx_ok i msg w"
proof -
  have "msgrx_pstate (coms (set_mtx j n w) i) msg = msgrx_pstate (coms w i) msg"
    "msgrx_lookup (coms (set_mtx j n w) i) msg = msgrx_lookup (coms w i) msg"
    by (simp_all add: msgrx_pstate_def msgrx_lookup_def)
  then show ?thesis unfolding rx_ok_def by (simp only: set_mtx_simps)
qed

lemma msgrx_wp:
  assumes inv: "dmsg_inv dl w (m_state msg # held)" and s0: "m_state msg = state0 (coms w i)"
    and root: "heap w (m_state msg) = Some rst" "is_root rst" "iocom rst = i" and ok: "rx_ok i msg w"
    and fresh: "heap w (malloc_state env (heap w)) = None"
    and Q: "\<And>err w' msg'. dmsg_inv dl w' (m_state msg' # held) \<Longrightarrow> handed i msg msg' w' \<Longrightarrow> Q (err, msg') w'"
  shows "dwp dl (dmsg_state_msgrx env msg False) Q w"
proof -
  have "dwp dl (pthread_mutex_lock i) (\<lambda>_. dwp dl (msgrx_dispatch env i msg) Q) w"
    by (rule lock_wp [OF inv], rule dispatch_wp [where held = held and rst = rst])
      (use inv s0 root ok fresh in \<open>auto intro: Q\<close>)
  then show ?thesis
    using root by (simp add: dmsg_state_msgrx_def dwp_bind dwp_mem dwp_branches)
qed

section \<open>Messages that do not conform\<close>

text \<open>
  Whatever the peer sends, \<open>dmsg_state_msgrx\<close> keeps the invariant or ends in one of its own assertions,
  as long as a message that opens a transaction is not marked as belonging to one of this side.
\<close>

definition rx_asserts :: "string set" where
  "rx_asserts = {''duplicate transaction'', ''missing-state'', ''no-state(r)'', ''no-state(r,d)'',
     ''msgrx: pstate == state->parent'', ''msgrx: msg->state == state'', ''msgrx: direction'', ''msgrx: rxcmd'',
     ''msgrx: reply'', ''msgrx: command''}"

definition opens_own :: "dmsg_hdr \<Rightarrow> bool" where
  "opens_own hdr \<longleftrightarrow> (has (cmd hdr) DMSGF_CREATE \<and> \<not> has (cmd hdr) DMSGF_REPLY \<longrightarrow> \<not> has (cmd hdr) DMSGF_REVTRANS)"

text \<open>How a run may end; \<open>ok\<close> says that the message conforms.\<close>

definition rx_ends :: "bool \<Rightarrow> bool \<Rightarrow> stop set" where
  "rx_ends dl ok = {e. dl \<and> e = Deadlock ''iocom->mtx''} \<union> (if ok then {} else Assert_failed ` rx_asserts)"

lemma dwp_ends: "dwp dl m Q w \<Longrightarrow> wlp (rx_ends dl ok) m Q w"
  by (auto simp: dwp_def wlp_def rx_ends_def split: sum.splits)

lemma ends_assert [simp]: "Assert_failed what \<in> rx_ends dl ok \<longleftrightarrow> \<not> ok \<and> what \<in> rx_asserts"
  by (auto simp: rx_ends_def)

lemma wlp_mem [wlp_simps]:
  "heap w p = Some st \<Longrightarrow> wlp E (deref p) Q w = Q st w"
  "heap w p = Some st \<Longrightarrow> wlp E (upd p f) R w = R () (w\<lparr>heap := (heap w)(p := Some (f st))\<rparr>)"
  by (simp_all add: wlp_def upd_def deref_def put_def modifyS_def bindS_def)

lemma finish_any:
  assumes inv: "dmsg_inv dl w (m_state msg # held)" and p: "heap w (m_state msg) = Some st" and i: "iocom st = i"
    and par: "parent st \<noteq> None"
    and Q: "\<And>w' msg'. dmsg_inv dl w' (m_state msg # held) \<Longrightarrow> m_state msg' = m_state msg \<Longrightarrow>
      handed i msg msg' w' \<Longrightarrow> Q (err, msg') w'"
  shows "wlp (rx_ends dl False) (msgrx_finish i err (m_state msg) msg) Q w"
proof (cases "has (m_cmd msg) DMSGF_DELETE \<and> \<not> is_root st \<and>
    (rx_closed st \<or> tx_closed st \<and> has (m_cmd msg) DMSGF_REPLY \<noteq> has (rxcmd st) DMSGF_REPLY)")
  case False
  then show ?thesis by (intro dwp_ends msgrx_finish_wp [OF inv p i par]) (auto intro: Q)
next
  case True
  then have "is_rb st" if "\<not> rx_closed st"
    using inv_trans(1) [OF inv p] that by (simp add: trans_ok_def dir_ok_def)
  with True p i show ?thesis
    by (auto simp: msgrx_finish_def msgrx_delete_def wlp_simps m_cmd_def rx_asserts_def)
qed

lemma existing_any:
  assumes inv: "dmsg_inv dl w (m_state msg # held)" and p: "heap w (m_state msg) = Some st" and i: "iocom st = i"
    and nr: "\<not> is_root st" and rb: "is_rb st" and ps: "ps \<noteq> Some (m_state msg)" and par: "parent st \<noteq> None"
    and Q: "\<And>err w' msg'. dmsg_inv dl w' (m_state msg # held) \<Longrightarrow> m_state msg' = m_state msg \<Longrightarrow>
      handed i msg msg' w' \<Longrightarrow> Q (err, msg') w'"
  shows "wlp (rx_ends dl False) (msgrx_found env i msg (m_state msg) ps) Q w"
proof -
  let ?st = "st\<lparr>rxcmd := m_cmd msg AND NOT DMSGF_DELETE\<rparr>"
  let ?w = "w\<lparr>heap := (heap w)(m_state msg := Some ?st)\<rparr>"
  have F: "wlp (rx_ends dl False) (msgrx_finish i err (m_state msg) msg) Q w" for err
    by (rule finish_any [OF inv p i par]) (rule Q)
  have G: "wlp (rx_ends dl False) (msgrx_finish i 0 (m_state msg) msg) Q ?w"
    if "has (m_cmd msg) DMSGF_REPLY \<longleftrightarrow> has (rxcmd st) DMSGF_REPLY"
    by (rule finish_any [OF msgrx_reply_inv [OF inv p nr rb that], where st = ?st]) (use i par in \<open>auto intro: Q\<close>)
  have x: "has (rxcmd st XOR m_cmd msg) DMSGF_REPLY \<longleftrightarrow>
      \<not> (has (m_cmd msg) DMSGF_REPLY \<longleftrightarrow> has (rxcmd st) DMSGF_REPLY)"
    by (auto simp: flag_simps bit_xor_iff)
  show ?thesis
    using F G p ps by (auto simp: msgrx_found_def msgrx_switch_def msgrx_missing_def wlp_simps x rx_asserts_def)
qed

lemma dispatch_existing_any:
  assumes inv: "dmsg_inv dl w (m_state msg # held)" and root: "heap w (m_state msg) = Some rst" "is_root rst"
    and circ: "msgrx_pstate (coms w i) msg = Some q" and found: "msgrx_lookup (coms w i) msg = Some p"
    and Q: "\<And>err w' msg'. dmsg_inv dl w' (m_state msg' # held) \<Longrightarrow> handed i msg msg' w' \<Longrightarrow> Q (err, msg') w'"
  shows "wlp (rx_ends dl False) (msgrx_dispatch env i msg) Q w"
proof -
  obtain st where p: "heap w p = Some st" "is_rb st" "\<not> is_root st" "iocom st = i" "parent st \<noteq> None"
    using tree_state [OF inv, of i "msgid (head msg)" p] found by (auto simp: msgrx_lookup_def split: if_splits)
  have np: "p \<noteq> m_state msg" using p(1,3) root by auto
  let ?w = "drop_world (m_state msg) w" and ?m = "msg\<lparr>m_state := p\<rparr>"
  let ?v = "?w\<lparr>heap := (heap ?w)(p := Some (st\<lparr>refs := refs st + 1\<rparr>))\<rparr>"
  note D = drop_ok [OF inv]
  have h: "heap ?w p = Some st" using np p(1) by simp
  have v: "dmsg_inv dl ?v (p # held)" by (rule hold_inv [OF D(2) h])
  have ext: "wlp (rx_ends dl False) (msgrx_found env i ?m p (Some q)) Q ?v" if c: "parent st = Some q"
  proof -
    have "Some q \<noteq> Some p" using c inv_trans(1) [OF inv p(1)] p(3) by (auto simp: trans_ok_def)
    then have "wlp (rx_ends dl False) (msgrx_found env i ?m (m_state ?m) (Some q)) Q ?v"
      by (intro existing_any [where st = "st\<lparr>refs := refs st + 1\<rparr>" and held = held])
        (use v c p in \<open>auto simp: m_cmd_def handed_def intro!: Q\<close>)
    then show ?thesis by simp
  qed
  have "wlp E (dmsg_state_drop (m_state msg)) R w = R () ?w" for E R using D(1) by (simp add: wlp_def)
  moreover have "wlp E (dmsg_state_hold p) R ?w = R () ?v" for E R using hold_world [OF h] by (simp add: wlp_def)
  ultimately show ?thesis
    using circ found ext by (auto simp: msgrx_dispatch_def wlp_simps rx_asserts_def)
qed

lemma dispatch_any:
  assumes inv: "dmsg_inv dl w (m_state msg # held)" and s0: "m_state msg = state0 (coms w i)"
    and root: "heap w (m_state msg) = Some rst" "is_root rst" "iocom rst = i"
    and no: "\<not> rx_ok i msg w" and own: "opens_own (head msg)"
    and Q: "\<And>err w' msg'. dmsg_inv dl w' (m_state msg' # held) \<Longrightarrow> handed i msg msg' w' \<Longrightarrow> Q (err, msg') w'"
  shows "wlp (rx_ends dl False) (msgrx_dispatch env i msg) Q w"
proof -
  obtain q where q: "msgrx_pstate (coms w i) msg = Some q" using no by (auto simp: rx_ok_def Let_def split: option.splits)
  show ?thesis
  proof (cases "msgrx_lookup (coms w i) msg")
    case (Some p)
    show ?thesis by (rule dispatch_existing_any [OF inv root(1,2) q Some]) (rule Q)
  next
    case None
    show ?thesis
    proof (cases "has (m_cmd msg) DMSGF_CREATE")
      case True
      have "staterd_tree (coms w i) (msgid (head msg)) = None" if "\<not> has (m_cmd msg) DMSGF_REPLY"
        using own None True that by (simp add: opens_own_def m_cmd_def msgrx_lookup_def split: if_splits)
      then have "has (m_cmd msg) DMSGF_REPLY"
        using no q None True by (cases "has (m_cmd msg) DMSGF_REPLY") (simp_all add: rx_ok_def Let_def)
      then show ?thesis
        using q None True by (simp add: msgrx_dispatch_def msgrx_found_def msgrx_switch_def wlp_simps rx_asserts_def)
    next
      case False
      from pstate_live [OF inv _ root(3) q] root(1) s0 obtain qst where qst: "heap w q = Some qst" by auto
      have "q \<noteq> m_state msg" if c: "circuit (head msg) \<noteq> 0"
      proof -
        have "staterd_tree (coms w i) (circuit (head msg)) = Some q \<or> statewr_tree (coms w i) (circuit (head msg)) = Some q"
          using q c by (auto simp: msgrx_pstate_def split: if_splits)
        from tree_state [OF inv this] root show ?thesis by force
      qed
      moreover have "circuit (head msg) \<noteq> 0 \<or> has (m_cmd msg) DMSGF_DELETE \<and> \<not> has (m_cmd msg) DMSGF_ABORT"
        using no q None False by (auto simp: rx_ok_def Let_def)
      ultimately show ?thesis
        using q None False root qst
        by (auto simp: msgrx_dispatch_def msgrx_found_def msgrx_switch_def msgrx_missing_def msgrx_finish_def
            wlp_simps rx_asserts_def)
    qed
  qed
qed

lemma msgrx_end:
  assumes inv: "dmsg_inv dl w (m_state msg # held)" and s0: "m_state msg = state0 (coms w i)"
    and root: "heap w (m_state msg) = Some rst" "is_root rst" "iocom rst = i" and own: "opens_own (head msg)"
    and fresh: "heap w (malloc_state env (heap w)) = None"
    and Q: "\<And>err w' msg'. dmsg_inv dl w' (m_state msg' # held) \<Longrightarrow> handed i msg msg' w' \<Longrightarrow> Q (err, msg') w'"
  shows "wlp (rx_ends dl (rx_ok i msg w)) (dmsg_state_msgrx env msg False) Q w"
proof (cases "rx_ok i msg w")
  case True
  show ?thesis by (rule dwp_ends, rule msgrx_wp [OF inv s0 root True fresh]) (rule Q)
next
  case False
  have "dwp dl (pthread_mutex_lock i) (\<lambda>_. wlp (rx_ends dl False) (msgrx_dispatch env i msg) Q) w"
    by (rule lock_wp [OF inv], rule dispatch_any [where held = held and rst = rst])
      (use inv s0 root own False in \<open>auto intro: Q\<close>)
  then have "wlp (rx_ends dl False) (pthread_mutex_lock i) (\<lambda>_. wlp (rx_ends dl False) (msgrx_dispatch env i msg) Q) w"
    by (rule dwp_ends)
  then show ?thesis using root False by (simp add: dmsg_state_msgrx_def wlp_simps)
qed

section \<open>Transmission\<close>

lemma cleanuptx_delete_wp:
  assumes inv: "dmsg_inv dl w held" and p: "heap w (m_state msg) = Some st" and held: "m_state msg \<in> set held"
    and nr: "\<not> is_root st" and i: "iocom st = i" and R: "has (m_cmd msg) DMSGF_REPLY \<longleftrightarrow> is_opp st"
    and Q: "\<And>w' st'. dmsg_inv dl w' held \<Longrightarrow> heap w' (m_state msg) = Some st' \<Longrightarrow> iocom st' = i \<Longrightarrow> Q () w'"
  shows "dwp dl (cleanuptx_delete i msg) Q w"
proof -
  let ?p = "m_state msg" and ?tx = "st\<lparr>txcmd := txcmd st OR DMSGF_DELETE\<rparr>"
  note T = inv_trans(1) [OF inv p]
  have dir: "dir_ok st" using T nr by (simp add: trans_ok_def)
  consider (stay) "tx_closed st" | (half) "\<not> tx_closed st" "\<not> rx_closed st"
    | (full) "\<not> tx_closed st" "rx_closed st" by blast
  then show ?thesis
  proof cases
    case stay
    then show ?thesis using Q [OF inv p i] p by (simp add: cleanuptx_delete_def dwp_simps)
  next
    case half
    have "dmsg_inv dl (w\<lparr>heap := (heap w)(?p := Some ?tx)\<rparr>) held"
      by (rule inv_upd [OF inv p]) (use half dir in \<open>simp_all add: same_links_def dir_ok_def flag_simps\<close>)
    then show ?thesis using half Q [of _ ?tx] i p by (simp add: cleanuptx_delete_def dwp_simps)
  next
    case full
    then have rb: "is_rb st" using dir by (simp add: dir_ok_def)
    then have tree: "state_tree st (coms w i) (st_msgid st) = Some ?p"
      using T nr i by (auto simp: trans_ok_def state_tree_def barec_def split: if_splits)
    let ?st = "?tx\<lparr>flags := flags st AND NOT DMSG_STATE_RBINSERTED\<rparr>"
    let ?w = "w\<lparr>heap := (heap w)(?p := Some ?st), coms := (coms w)(i := forget st (coms w i))\<rparr>"
    have cl: "closes st ?st"
      using dir full by (simp add: closes_def same_links_def dir_ok_def flag_simps)
    have inv1: "dmsg_inv dl ?w (?p # held)" using inv_close [OF inv p cl rb nr] i by simp
    have "dwp dl (dmsg_subq_delete ?p) (\<lambda>_. dwp dl (drop_relay ?p) (\<lambda>_. dwp dl (dmsg_state_drop ?p) Q)) ?w"
    proof (rule subq_delete_wp [OF inv1, where st = ?st])
      fix v n
      assume v: "dmsg_inv dl v (?p # held)" "heap v ?p = Some (unlinked ?st\<lparr>refs := n\<rparr>)"
      show "dwp dl (drop_relay ?p) (\<lambda>_. dwp dl (dmsg_state_drop ?p) Q) v"
      proof (rule drop_relay_wp [OF v])
        fix u
        assume u: "dmsg_inv dl u (?p # held)" "heap u ?p = Some (unlinked ?st\<lparr>refs := n\<rparr>)"
        show "dwp dl (dmsg_state_drop ?p) Q u"
        proof (rule wp_drop [OF u(1)])
          assume d: "dmsg_inv dl (drop_world ?p u) held"
          show "Q () (drop_world ?p u)"
            by (rule Q [OF d drop_world_kept [OF u(1) held u(2)]]) (use i in \<open>simp add: unlinked_def\<close>)
        qed
      qed
    qed (use nr in \<open>simp_all add: flag_simps\<close>)
    moreover have "forget st (coms w i) = (if has (txcmd st) DMSGF_REPLY
        then (coms w i)\<lparr>staterd_tree := (staterd_tree (coms w i))(st_msgid st := None)\<rparr>
        else (coms w i)\<lparr>statewr_tree := (statewr_tree (coms w i))(st_msgid st := None)\<rparr>)"
      using dir by (simp add: forget_def dir_ok_def)
    ultimately show ?thesis
      using full rb i p tree dir R
      by (cases "is_opp st") (simp_all add: cleanuptx_delete_def dwp_simps RB_REMOVE_wr_def RB_REMOVE_rd_def
          state_tree_def dir_ok_def world_order)
  qed
qed

lemma cleanuptx_wp:
  assumes inv: "dmsg_inv dl w held" and p: "heap w (m_state msg) = Some st" and held: "m_state msg \<in> set held"
    and i: "iocom st = i"
    and R: "has (m_cmd msg) DMSGF_DELETE \<Longrightarrow> \<not> is_root st \<Longrightarrow> has (m_cmd msg) DMSGF_REPLY \<longleftrightarrow> is_opp st"
    and Q: "\<And>w' st'. dmsg_inv dl w' held \<Longrightarrow> heap w' (m_state msg) = Some st' \<Longrightarrow> iocom st' = i \<Longrightarrow> Q () w'"
  shows "dwp dl (dmsg_state_cleanuptx n env i msg) Q w"
proof -
  let ?p = "m_state msg" and ?st = "st\<lparr>refs := refs st + 1\<rparr>"
  have tail: "dwp dl (deferred_abort n env ?p) (\<lambda>_. dwp dl (dmsg_state_drop ?p) Q) u"
    if u: "dmsg_inv dl u (?p # held)" "heap u ?p = Some ust" "iocom ust = i" for u ust
  proof -
    have "calm ust" using inv_trans(2) [OF u(1,2)] by (simp add: refers_ok_def)
    moreover have "dwp dl (dmsg_state_drop ?p) Q u"
    proof (rule wp_drop [OF u(1)])
      assume d: "dmsg_inv dl (drop_world ?p u) held"
      show "Q () (drop_world ?p u)"
        by (rule Q [OF d drop_world_kept [OF u(1) held u(2)]]) (use u(3) in simp)
    qed
    ultimately show ?thesis using u(2) by (simp add: deferred_abort_def dwp_bind dwp_mem dwp_branches)
  qed
  have "dwp dl (dmsg_state_hold ?p) (\<lambda>_. dwp dl (whenS (\<not> is_root st \<and> has (m_cmd msg) DMSGF_DELETE)
      (cleanuptx_delete i msg)) (\<lambda>_. dwp dl (deferred_abort n env ?p) (\<lambda>_. dwp dl (dmsg_state_drop ?p) Q))) w"
  proof (rule wp_hold [OF inv p])
    let ?w = "w\<lparr>heap := (heap w)(?p := Some ?st)\<rparr>"
    assume v: "dmsg_inv dl ?w (?p # held)"
    have "dwp dl (cleanuptx_delete i msg) (\<lambda>_. dwp dl (deferred_abort n env ?p) (\<lambda>_. dwp dl (dmsg_state_drop ?p) Q)) ?w"
      if "\<not> is_root st" "has (m_cmd msg) DMSGF_DELETE"
      by (rule cleanuptx_delete_wp [OF v, where st = ?st]) (use that R i tail in auto)
    then show "dwp dl (whenS (\<not> is_root st \<and> has (m_cmd msg) DMSGF_DELETE) (cleanuptx_delete i msg))
        (\<lambda>_. dwp dl (deferred_abort n env ?p) (\<lambda>_. dwp dl (dmsg_state_drop ?p) Q)) ?w"
      using tail [OF v] i by (simp add: dwp_branches)
  qed
  then show ?thesis
    using p i by (simp add: dmsg_state_cleanuptx_def dwp_bind dwp_mem dwp_basic)
qed

text \<open>A message that is queued hands its reference to the queue.\<close>

lemma barec_enqueue:
  "barec (c(i := (c i)\<lparr>txmsgq := q, wakeups := n\<rparr>)) = (barec c)(i := (barec c i)\<lparr>txmsgq := q\<rparr>)"
  by (simp add: barec_def fun_eq_iff)

lemma shape_enqueue:
  assumes "shape h c" and "h (m_state msg) = Some st" and "iocom st = i"
  shows "shape h (c(i := (c i)\<lparr>txmsgq := txmsgq (c i) @ [msg]\<rparr>))"
proof -
  let ?c = "c(i := (c i)\<lparr>txmsgq := txmsgq (c i) @ [msg]\<rparr>)"
  note S = shapeD [OF assms(1)]
  have c: "state0 (?c j) = state0 (c j)" "staterd_tree (?c j) = staterd_tree (c j)"
    "statewr_tree (?c j) = statewr_tree (c j)" for j by simp_all
  have t: "state_tree st (?c j) = state_tree st (c j)" for st j by (simp add: state_tree_def)
  have same: "trans_ok h ?c x xst = trans_ok h c x xst" "refers_ok h ?c x xst = refers_ok h c x xst" for x xst
    unfolding trans_ok_def refers_ok_def c t by (rule refl)+
  have "\<exists>st. h (m_state m) = Some st \<and> iocom st = j" if "m \<in> set (txmsgq (?c j))" for m j
    using that S(4) [of m j] assms(2,3) by (auto split: if_splits)
  then show ?thesis unfolding shape_def c same using S by blast
qed

lemma inv_enqueue:
  assumes inv: "dmsg_inv dl w (m_state msg # held)" and p: "heap w (m_state msg) = Some st" and i: "iocom st = i"
  shows "dmsg_inv dl (w\<lparr>coms := (coms w)(i := (coms w i)\<lparr>txmsgq := txmsgq (coms w i) @ [msg],
    wakeups := n\<rparr>)\<rparr>) held"
proof -
  let ?h = "heap w" and ?c = "barec (coms w)"
  let ?c' = "?c(i := (?c i)\<lparr>txmsgq := txmsgq (?c i) @ [msg]\<rparr>)"
  have sh: "shape (bare ?h) ?c" using inv by (simp add: dmsg_inv_def)
  have b: "bare ?h (m_state msg) = Some (st\<lparr>refs := 0\<rparr>)" using p by (simp add: bare_def)
  have sh': "shape (bare ?h) ?c'" by (rule shape_enqueue [OF sh b]) (simp add: i)
  have "links ?c' held x xst \<le> refs xst" if x: "?h x = Some xst" for x xst
  proof -
    have "links ?c (m_state msg # held) x xst \<le> refs xst"
      using inv x by (simp add: dmsg_inv_def counted_def)
    moreover have "links ?c' held x xst \<le> links ?c (m_state msg # held) x xst"
      using x p i by (auto simp: links_def)
    ultimately show ?thesis by (rule order_trans [rotated])
  qed
  with sh' inv show ?thesis
    by (auto simp: dmsg_inv_def counted_def barec_enqueue barec_def [of "coms w"])
qed

text \<open>
  What a sender has to respect: a \<open>CREATE\<close> only over a transaction that is still indexed, and \<open>CREATE\<close>
  and \<open>DELETE\<close> messages with the direction of the transaction.
\<close>

definition tx_ok :: "dmsg_msg \<Rightarrow> dmsg_state \<Rightarrow> bool" where
  "tx_ok msg st \<longleftrightarrow> is_root st \<or>
     ((has (m_cmd msg) DMSGF_CREATE \<longrightarrow> is_rb st) \<and>
      (has (m_cmd msg) (DMSGF_CREATE OR DMSGF_DELETE) \<longrightarrow> (has (m_cmd msg) DMSGF_REPLY \<longleftrightarrow> is_opp st)))"

lemma write_prepare_wp:
  assumes inv: "dmsg_inv dl w held" and p: "heap w (m_state msg) = Some st" and ok: "tx_ok msg st"
    and Q: "\<And>w' st' msg'. dmsg_inv dl w' held \<Longrightarrow> heap w' (m_state msg) = Some st' \<Longrightarrow> iocom st' = iocom st \<Longrightarrow>
      is_root st' = is_root st \<Longrightarrow> is_opp st' = is_opp st \<Longrightarrow> m_state msg' = m_state msg \<Longrightarrow>
      m_cmd msg' = m_cmd msg \<Longrightarrow> Q msg' w'"
  shows "dwp dl (write_prepare msg) Q w"
proof (cases "is_root st \<or> \<not> has (m_cmd msg) DMSGF_CREATE")
  case True
  with Q [OF inv p] p show ?thesis
    by (auto simp: write_prepare_def dwp_simps Let_def m_cmd_def create_command)
next
  case False
  let ?tx = "m_cmd msg AND NOT DMSGF_DELETE"
  have dir: "dir_ok st" using inv_trans(1) [OF inv p] False by (simp add: trans_ok_def)
  have rb: "is_rb st" and R: "has (m_cmd msg) DMSGF_REPLY \<longleftrightarrow> is_opp st"
    using ok False by (simp_all add: tx_ok_def has_or)
  have ok': "Q (msg\<lparr>head := (head msg)\<lparr>msgid := st_msgid st\<rparr>\<rparr>)
      (w\<lparr>heap := (heap w)(m_state msg := Some (st\<lparr>icmd := ic, flags := fl, txcmd := ?tx\<rparr>))\<rparr>)"
    if fl: "fl = flags st AND NOT DMSG_STATE_NEW \<or> fl = flags st" for ic fl
  proof (rule Q [where st' = "st\<lparr>icmd := ic, flags := fl, txcmd := ?tx\<rparr>"])
    show "dmsg_inv dl (w\<lparr>heap := (heap w)(m_state msg := Some (st\<lparr>icmd := ic, flags := fl, txcmd := ?tx\<rparr>))\<rparr>) held"
      by (rule inv_upd [OF inv p])
        (use fl rb R dir in \<open>auto simp: same_links_def dir_ok_def flag_simps\<close>)
  qed (use fl in \<open>auto simp: flag_simps m_cmd_def\<close>)
  show ?thesis
    using False p ok' [of "flags st AND NOT DMSG_STATE_NEW" "m_cmd msg AND NOT DMSGF_DELETE AND DMSGF_BASECMDMASK"]
      ok' [of "flags st" "icmd st"]
    by (auto simp: write_prepare_def dwp_simps Let_def)
qed

lemma msg_write_wp:
  assumes inv: "dmsg_inv dl w (m_state msg # held)" and p: "heap w (m_state msg) = Some st" and ok: "tx_ok msg st"
    and Q: "\<And>w'. dmsg_inv dl w' held \<Longrightarrow> (m_state msg \<in> set held \<Longrightarrow> same_com w w' (m_state msg)) \<Longrightarrow> Q () w'"
  shows "dwp dl (dmsg_msg_write n env msg) Q w"
proof -
  let ?p = "m_state msg" and ?i = "iocom st"
  let ?rest = "\<lambda>msg. bindS (deref ?p) (\<lambda>st.
      if has (txcmd st) DMSGF_DELETE then dmsg_msg_free msg
      else if has (flags st) DMSG_STATE_DYING then
        bindS (dmsg_state_hold ?p) (\<lambda>_.
        bindS (dmsg_state_cleanuptx n env ?i msg) (\<lambda>_.
        bindS (deref ?p) (\<lambda>st.
        bindS (whenS (\<not> has (flags st) DMSG_STATE_ABORTING) (dmsg_simulate_failure n env ?p True)) (\<lambda>_.
        bindS (dmsg_state_drop ?p) (\<lambda>_.
        bindS (dmsg_msg_free msg) (\<lambda>_.
        pthread_mutex_unlock ?i))))))
      else
        bindS (dmsg_state_cleanuptx n env ?i msg) (\<lambda>_.
        bindS (upd_com ?i (\<lambda>c. c\<lparr>txmsgq := txmsgq c @ [msg], wakeups := wakeups c + 1\<rparr>)) (\<lambda>_.
        pthread_mutex_unlock ?i)))"
  have rest: "dwp dl (?rest m) Q u"
    if u: "dmsg_inv dl u (?p # held)" "heap u ?p = Some ust" "iocom ust = ?i" "is_root ust = is_root st"
      "is_opp ust = is_opp st" and m: "m_state m = ?p" "m_cmd m = m_cmd msg" for u ust m
  proof -
    have calm: "calm ust" using inv_trans(2) [OF u(1,2)] by (simp add: refers_ok_def)
    have free: "dwp dl (dmsg_msg_free m) Q u"
      by (rule msg_free_wp [where held = held]) (use u m p Q in \<open>auto simp: same_com_def\<close>)
    have "dwp dl (dmsg_state_cleanuptx n env ?i m) (\<lambda>_. dwp dl (bindS (upd_com ?i (\<lambda>c. c\<lparr>txmsgq := txmsgq c @ [m],
        wakeups := wakeups c + 1\<rparr>)) (\<lambda>_. pthread_mutex_unlock ?i)) Q) u"
    proof (rule cleanuptx_wp [where st = ust and held = "?p # held"])
      fix v vst
      assume v: "dmsg_inv dl v (?p # held)" "heap v (m_state m) = Some vst" "iocom vst = ?i"
      have "dmsg_inv dl (v\<lparr>coms := (coms v)(?i := (coms v ?i)\<lparr>txmsgq := txmsgq (coms v ?i) @ [m],
          wakeups := wakeups (coms v ?i) + 1\<rparr>)\<rparr>) held"
        by (rule inv_enqueue [where st = vst]) (use v m in simp_all)
      then show "dwp dl (bindS (upd_com ?i (\<lambda>c. c\<lparr>txmsgq := txmsgq c @ [m], wakeups := wakeups c + 1\<rparr>))
          (\<lambda>_. pthread_mutex_unlock ?i)) Q v"
        using v m p by (auto simp: dwp_simps same_com_def intro!: unlock_wp Q)
    qed (use u m ok in \<open>auto simp: tx_ok_def has_or\<close>)
    with free u(2) calm show ?thesis by (simp add: dwp_bind dwp_mem dwp_branches has_or)
  qed
  have "dwp dl (pthread_mutex_lock ?i) (\<lambda>_. dwp dl (write_prepare msg) (\<lambda>m. dwp dl (?rest m) Q)) w"
  proof (rule lock_wp [OF inv])
    fix k
    show "dwp dl (write_prepare msg) (\<lambda>m. dwp dl (?rest m) Q) (set_mtx ?i k w)"
      by (rule write_prepare_wp [where held = "?p # held" and st = st]) (use inv p ok rest in auto)
  qed
  then show ?thesis
    using p by (simp add: dmsg_msg_write_def Let_def dwp_bind dwp_mem)
qed

section \<open>Allocation of a message\<close>

text \<open>Over an open transaction, or over the connection itself.\<close>

lemma parent_live:
  assumes inv: "dmsg_inv dl w held" and p: "heap w p = Some st" and q: "parent st = Some q"
  shows "\<exists>pst. heap w q = Some pst"
  using inv_trans(1) [OF inv p] p q
  by (auto simp: trans_ok_def on_subq_def bare_apply split: if_splits)

lemma has_msg_flags [simp]:
  "has (msg_flags st pst cm) DMSGF_CREATE = has cm DMSGF_CREATE"
  "has (msg_flags st pst cm) DMSGF_DELETE = has cm DMSGF_DELETE"
  "has (msg_flags st pst cm) DMSGF_REPLY = has cm DMSGF_REPLY"
  "has (msg_flags st pst cm) DMSGF_ABORT = has cm DMSGF_ABORT"
  by (simp_all add: msg_flags_def flag_simps Let_def)

lemma msg_fill_wp:
  assumes "heap w p = Some st" and "heap w q = Some pst" and "unat (cm AND DMSGF_SIZE) \<ge> 1"
    and "\<And>msg. m_state msg = p \<Longrightarrow> m_cmd msg = msg_flags st pst cm \<Longrightarrow> aux_size msg = asize \<Longrightarrow> Q msg w"
  shows "dwp dl (msg_fill env asize cm p q) Q w"
  using assms by (simp add: msg_fill_def dwp_simps m_cmd_def DMSG_ALIGN_def)

lemma msg_alloc_wp:
  assumes inv: "dmsg_inv dl w held" and p: "heap w p = Some st" and q: "parent st = Some q"
    and cm: "cm AND (DMSGF_CREATE OR DMSGF_REPLY) \<noteq> DMSGF_CREATE" "unat (cm AND DMSGF_SIZE) \<ge> 1"
    and Q: "\<And>w' msg pst. dmsg_inv dl w' (p # held) \<Longrightarrow> heap w' p = Some (st\<lparr>refs := refs st + 1\<rparr>) \<Longrightarrow>
      m_state msg = p \<Longrightarrow> m_cmd msg = msg_flags st pst cm \<Longrightarrow> aux_size msg = asize \<Longrightarrow>
      (\<exists>n. w' = set_mtx (iocom st) n (w\<lparr>heap := (heap w)(p := Some (st\<lparr>refs := refs st + 1\<rparr>))\<rparr>)) \<Longrightarrow> Q msg w'"
  shows "dwp dl (dmsg_msg_alloc env p asize cm fn data) Q w"
proof -
  obtain pst where pst: "heap w q = Some pst" using parent_live [OF inv p q] by blast
  let ?st = "st\<lparr>refs := refs st + 1\<rparr>" and ?i = "iocom st"
  have locked: "dwp dl (dmsg_msg_alloc_locked env p asize cm fn data) (\<lambda>msg. dwp dl (pthread_mutex_unlock ?i) (\<lambda>_. Q msg))
      (set_mtx ?i k w)" for k
  proof -
    have "dwp dl (dmsg_state_hold p) (\<lambda>_. dwp dl (msg_fill env asize cm p q) (\<lambda>msg.
        dwp dl (pthread_mutex_unlock ?i) (\<lambda>_. Q msg))) (set_mtx ?i k w)"
    proof (rule wp_hold [where held = held and st = st])
      let ?v = "(set_mtx ?i k w)\<lparr>heap := (heap (set_mtx ?i k w))(p := Some ?st)\<rparr>"
      assume v: "dmsg_inv dl ?v (p # held)"
      obtain pst' where pst': "heap ?v q = Some pst'" using pst by (cases "q = p") auto
      have "Q msg (set_mtx ?i n ?v)" if "m_state msg = p" "m_cmd msg = msg_flags ?st pst' cm" "aux_size msg = asize" for n msg
      proof (rule Q [where pst = pst'])
        show "\<exists>n'. set_mtx ?i n ?v = set_mtx ?i n' (w\<lparr>heap := (heap w)(p := Some ?st)\<rparr>)"
          by (rule exI [of _ n]) (simp add: set_mtx_def)
      qed (use v that in \<open>simp_all add: msg_flags_def\<close>)
      then show "dwp dl (msg_fill env asize cm p q) (\<lambda>msg. dwp dl (pthread_mutex_unlock ?i) (\<lambda>_. Q msg)) ?v"
        by (intro msg_fill_wp [OF _ pst' cm(2), of _ ?st] unlock_wp) simp_all
    qed (use inv p in simp_all)
    then show ?thesis
      using p q cm(1)
      by (simp add: dmsg_msg_alloc_locked_def msg_alloc_state_def dwp_bind dwp_mem dwp_branches nonnull_def
          dwp_basic dwp_branches)
  qed
  have "dwp dl (pthread_mutex_lock ?i) (\<lambda>_. dwp dl (dmsg_msg_alloc_locked env p asize cm fn data)
      (\<lambda>msg. dwp dl (pthread_mutex_unlock ?i) (\<lambda>_. Q msg))) w"
    by (rule lock_wp [OF inv]) (rule locked)
  then show ?thesis
    using p by (simp add: dmsg_msg_alloc_def dwp_bind dwp_mem dwp_basic)
qed

section \<open>Replies\<close>

text \<open>
  A reply over a transaction whose transmit side is open, or over the connection, keeps the invariant
  and the reference the caller holds.
\<close>

lemma send_error_wp:
  assumes inv: "dmsg_inv dl w held" and p: "heap w p = Some st"
    and op: "is_root st \<or> \<not> tx_closed st"
    and cm: "\<not> has cm DMSGF_CREATE" "unat (cm AND DMSGF_SIZE) \<ge> 1"
    and R: "\<not> is_root st \<Longrightarrow> has cm DMSGF_REPLY \<longleftrightarrow> is_opp st"
    and Q: "\<And>w'. dmsg_inv dl w' held \<Longrightarrow> (p \<in> set held \<Longrightarrow> same_com w w' p) \<Longrightarrow> Q () w'"
  shows "dwp dl (send_error n env p cm err) Q w"
proof -
  note T = inv_trans(1) [OF inv p]
  have rb: "is_rb st" if "\<not> is_root st" using T op that by (auto simp: trans_ok_def dir_ok_def)
  then obtain q where q: "parent st = Some q" using T by (auto simp: trans_ok_def split: if_splits option.splits)
  have ne: "cm AND (DMSGF_CREATE OR DMSGF_REPLY) \<noteq> DMSGF_CREATE" using cm(1) by (simp add: create_command)
  let ?st = "st\<lparr>refs := refs st + 1\<rparr>"
  have "dwp dl (dmsg_msg_alloc env p 0 cm None 0) (\<lambda>nmsg. dwp dl (bindS (deref p) (\<lambda>st.
     let nmsg = (if \<not> has (flags st) DMSG_STATE_ROOT \<and> \<not> has (txcmd st) DMSGF_CREATE
                 then set_cmd (\<lambda>c. c OR DMSGF_CREATE) nmsg else nmsg) in
     dmsg_msg_write n env (nmsg\<lparr>head := (head nmsg)\<lparr>error := err\<rparr>\<rparr>))) Q) w"
  proof (rule msg_alloc_wp [OF inv p q ne cm(2)])
    fix v msg pst
    assume v: "dmsg_inv dl v (p # held)" "heap v p = Some ?st"
      and m: "m_state msg = p" "m_cmd msg = msg_flags st pst cm"
    have "dwp dl (dmsg_msg_write n env m) Q v"
      if "m_state m = p" "has (m_cmd m) DMSGF_DELETE = has cm DMSGF_DELETE"
        "has (m_cmd m) DMSGF_REPLY = has cm DMSGF_REPLY" for m
      by (rule msg_write_wp [where held = held and st = ?st])
        (use v that R rb p Q in \<open>auto simp: tx_ok_def has_or same_com_def\<close>)
    then show "dwp dl (bindS (deref p) (\<lambda>st.
     let nmsg = (if \<not> has (flags st) DMSG_STATE_ROOT \<and> \<not> has (txcmd st) DMSGF_CREATE
                 then set_cmd (\<lambda>c. c OR DMSGF_CREATE) msg else msg) in
     dmsg_msg_write n env (nmsg\<lparr>head := (head nmsg)\<lparr>error := err\<rparr>\<rparr>))) Q v"
      using v m by (auto simp: dwp_bind dwp_mem dwp_branches m_cmd_def set_cmd_def flag_simps
          has_msg_flags [unfolded flag_simps])
  qed
  then show ?thesis by (simp add: send_error_def dwp_bind)
qed

section \<open>A new transaction of this side\<close>

definition local_state :: "nat \<Rightarrow> ptr \<Rightarrow> ptr \<Rightarrow> dmsg_state \<Rightarrow> u32 \<Rightarrow> state_func option \<Rightarrow> dmsg_state" where
  "local_state i p q pst cm fn =
     new_state\<lparr>parent := Some q, iocom := i,
       flags := DMSG_STATE_DYNAMIC OR (DMSG_STATE_SUBINSERTED OR DMSG_STATE_RBINSERTED)
         OR (flags pst AND DMSG_STATE_DYING),
       st_msgid := p, txcmd := cm AND NOT (DMSGF_CREATE OR DMSGF_DELETE), rxcmd := DMSGF_REPLY,
       icmd := cm AND NOT (DMSGF_CREATE OR DMSGF_DELETE) AND DMSGF_BASECMDMASK, func := fn, refs := 3\<rparr>"

lemma local_create_run:
  assumes q: "heap w q = Some pst" and p: "malloc_state env (heap w) = p" "heap w p = None"
    and tree: "statewr_tree (coms w (iocom pst)) p = None" and cm: "cm AND (DMSGF_CREATE OR DMSGF_REPLY) = DMSGF_CREATE"
  shows "msg_alloc_state env q cm fn 0 w =
    Inr ((p, q), create_world (iocom pst) p q (local_state (iocom pst) p q pst cm fn)
      (refs pst + (if subq pst = [] then 1 else 0)) w)"
proof -
  have qp: "p \<noteq> q" "q \<noteq> p" using p q by auto
  have "\<not> is_opp (local_state (iocom pst) p q pst cm fn)" by (simp add: local_state_def flag_simps)
  then show ?thesis
    using q p qp tree cm
    by (cases "subq pst = []")
      (simp_all add: msg_alloc_state_def alloc_state_def bindS_def getS_def put_def upd_def deref_def modifyS_def
        upd_com_def dmsg_state_hold_def whenS_def returnS_def subq_insert_tail_def RB_INSERT_def
        create_world_def local_state_def enter_def new_state_def fun_upd_twist [OF qp(1)] state_order
        numeral_3_eq_3)
qed

text \<open>The address of a new state is not a message id in use: ids of this side are addresses of live states.\<close>

lemma fresh_id:
  assumes "dmsg_inv dl w held" and "heap w p = None"
  shows "statewr_tree (coms w i) p = None"
proof (rule ccontr)
  assume "statewr_tree (coms w i) p \<noteq> None"
  then obtain x where x: "statewr_tree (coms w i) p = Some x" by blast
  have sh: "shape (bare (heap w)) (barec (coms w))" using assms(1) by (simp add: dmsg_inv_def)
  from shapeD(6) [OF sh, of i p x] x obtain st where
    st: "bare (heap w) x = Some st" "is_rb st" "\<not> is_opp st" "st_msgid st = p" by (auto simp: barec_def)
  then have "\<not> is_root st" using shapeD(2) [OF sh st(1)] by (auto simp: trans_ok_def)
  then have "x = p" using shapeD(2) [OF sh st(1)] st(3,4) by (simp add: trans_ok_def)
  with st(1) assms(2) show False by (simp add: bare_def)
qed

lemma local_create_wp:
  assumes inv: "dmsg_inv dl w held" and q: "heap w q = Some pst"
    and fresh: "heap w (malloc_state env (heap w)) = None"
    and cm: "cm AND (DMSGF_CREATE OR DMSGF_REPLY) = DMSGF_CREATE" "unat (cm AND DMSGF_SIZE) \<ge> 1"
    and fn: "fn \<noteq> Some Dmsg_state_relay"
    and Q: "\<And>w' msg st. dmsg_inv dl w' (m_state msg # held) \<Longrightarrow> heap w' (m_state msg) = Some st \<Longrightarrow>
      is_rb st \<Longrightarrow> \<not> is_opp st \<Longrightarrow> \<not> is_root st \<Longrightarrow> parent st = Some q \<Longrightarrow>
      (\<exists>pst. m_cmd msg = msg_flags st pst cm) \<Longrightarrow> Q msg w'"
  shows "dwp dl (dmsg_msg_alloc env q asize cm fn 0) Q w"
proof -
  let ?i = "iocom pst" and ?p = "malloc_state env (heap w)"
  let ?st = "local_state ?i ?p q pst cm fn" and ?n = "refs pst + (if subq pst = [] then 1 else 0)"
  have fl: "\<not> is_opp ?st" "is_rb ?st" "is_sub ?st" "\<not> is_root ?st"
    by (simp_all add: local_state_def flag_simps)
  have nr: "\<not> has cm DMSGF_REPLY" using cm(1) by (simp add: create_command)
  have locked: "dwp dl (dmsg_msg_alloc_locked env q asize cm fn 0) (\<lambda>msg. dwp dl (pthread_mutex_unlock ?i) (\<lambda>_. Q msg))
      (set_mtx ?i k w)" for k
  proof -
    let ?u = "set_mtx ?i k w"
    let ?w = "create_world ?i ?p q ?st ?n ?u"
    have run: "msg_alloc_state env q cm fn 0 ?u = Inr ((?p, q), ?w)"
      by (rule local_create_run) (use q fresh cm fresh_id [OF inv fresh] in simp_all)
    have v: "dmsg_inv dl ?w (?p # held)"
    proof (rule create_world_inv)
      have "calm pst" using inv_trans(2) [OF inv q] by (simp add: refers_ok_def)
      then show "newborn ?p q pst ?st"
        using nr fn by (simp add: newborn_def local_state_def new_state_def dir_ok_def flag_simps)
      show "state_tree ?st (coms ?u ?i) (st_msgid ?st) = None"
        using fl fresh_id [OF inv fresh] by (simp add: state_tree_def) (simp add: local_state_def)
    qed (use inv q fresh in \<open>simp_all add: local_state_def\<close>)
    have hp: "heap ?w ?p = Some ?st" by (simp add: create_world_def)
    have qp: "q \<noteq> ?p" using q fresh by auto
    obtain pst' where hq: "heap ?w q = Some pst'" using qp by (simp add: create_world_def)
    have "dwp dl (msg_fill env asize cm ?p q) (\<lambda>msg. dwp dl (pthread_mutex_unlock ?i) (\<lambda>_. Q msg)) ?w"
      by (rule msg_fill_wp [OF hp hq cm(2)], rule unlock_wp, rule Q [where st = ?st])
        (use v hp fl in \<open>auto simp: local_state_def\<close>)
    with run show ?thesis
      by (simp add: dmsg_msg_alloc_locked_def dwp_bind dwp_branches) (simp add: dwp_Inr)
  qed
  have "dwp dl (pthread_mutex_lock ?i) (\<lambda>_. dwp dl (dmsg_msg_alloc_locked env q asize cm fn 0)
      (\<lambda>msg. dwp dl (pthread_mutex_unlock ?i) (\<lambda>_. Q msg))) w"
    by (rule lock_wp [OF inv]) (rule locked)
  then show ?thesis
    using q by (simp add: dmsg_msg_alloc_def dwp_bind dwp_mem dwp_basic)
qed

section \<open>Messages that leave the queue, and new connections\<close>

lemma barec_set:
  "barec (c(i := (c i)\<lparr>txmsgq := q\<rparr>)) = (barec c)(i := (barec c i)\<lparr>txmsgq := q\<rparr>)"
  by (simp add: barec_def fun_eq_iff)

lemma shape_dequeue:
  assumes "shape h c" and "txmsgq (c i) = msg # ms"
  shows "shape h (c(i := (c i)\<lparr>txmsgq := ms\<rparr>))"
proof -
  let ?c = "c(i := (c i)\<lparr>txmsgq := ms\<rparr>)"
  note S = shapeD [OF assms(1)]
  have c: "state0 (?c j) = state0 (c j)" "staterd_tree (?c j) = staterd_tree (c j)"
    "statewr_tree (?c j) = statewr_tree (c j)" for j by simp_all
  have t: "state_tree st (?c j) = state_tree st (c j)" for st j by (simp add: state_tree_def)
  have same: "trans_ok h ?c x xst = trans_ok h c x xst" "refers_ok h ?c x xst = refers_ok h c x xst" for x xst
    unfolding trans_ok_def refers_ok_def c t by (rule refl)+
  have "\<exists>st. h (m_state m) = Some st \<and> iocom st = j" if "m \<in> set (txmsgq (?c j))" for m j
    using that S(4) [of m j] assms(2) by (auto split: if_splits)
  then show ?thesis unfolding shape_def c same using S by blast
qed

lemma inv_dequeue:
  assumes inv: "dmsg_inv dl w held" and q: "txmsgq (coms w i) = msg # ms"
  shows "dmsg_inv dl (w\<lparr>coms := (coms w)(i := (coms w i)\<lparr>txmsgq := ms\<rparr>)\<rparr>) (m_state msg # held)"
proof -
  let ?h = "heap w" and ?c = "barec (coms w)"
  let ?c' = "?c(i := (?c i)\<lparr>txmsgq := ms\<rparr>)"
  have sh: "shape (bare ?h) ?c" using inv by (simp add: dmsg_inv_def)
  have q': "txmsgq (?c i) = msg # ms" using q by (simp add: barec_def)
  obtain st where st: "bare ?h (m_state msg) = Some st" "iocom st = i"
    using shapeD(4) [OF sh, of msg i] q' by auto
  have "links ?c' (m_state msg # held) x xst \<le> refs xst" if x: "?h x = Some xst" for x xst
  proof -
    have "links ?c held x xst \<le> refs xst" using inv x by (simp add: dmsg_inv_def counted_def)
    moreover have "links ?c' (m_state msg # held) x xst \<le> links ?c held x xst"
      using x st q' by (auto simp: links_def bare_apply)
    ultimately show ?thesis by (rule order_trans [rotated])
  qed
  moreover have "?h (m_state msg) \<noteq> None" using st(1) by (auto simp: bare_apply)
  ultimately show ?thesis
    using shape_dequeue [OF sh q'] inv by (auto simp: dmsg_inv_def counted_def barec_set)
qed

lemma transmitted_wp:
  assumes inv: "dmsg_inv dl w held"
  shows "dwp dl (transmitted i) (\<lambda>_ w'. dmsg_inv dl w' held) w"
proof (cases "txmsgq (coms w i)")
  case Nil
  with inv show ?thesis by (simp add: transmitted_def dwp_simps)
next
  case (Cons msg ms)
  let ?w = "w\<lparr>coms := (coms w)(i := (coms w i)\<lparr>txmsgq := ms\<rparr>)\<rparr>"
  have "dmsg_inv dl ?w (m_state msg # held)" by (rule inv_dequeue [OF inv Cons])
  then have "dwp dl (dmsg_msg_free msg) (\<lambda>_ w'. dmsg_inv dl w' held) ?w"
    by (auto intro: msg_free_wp)
  with Cons show ?thesis by (simp add: transmitted_def dwp_bind dwp_basic dwp_mem)
qed

text \<open>A connection starts over a number no live state belongs to, and an address that is free.\<close>

abbreviation new_iocom :: "mutex_kind \<Rightarrow> ptr \<Rightarrow> dmsg_iocom" where
  "new_iocom kind p \<equiv> \<lparr>state0 = p, staterd_tree = Map.empty, statewr_tree = Map.empty, txmsgq = [],
     wakeups = 0, mtx_kind = kind, mtx = 0, swork = True, signal_callback = Some Master_auth_signal,
     rcvmsg_func = Master_auth_rxmsg\<rparr>"

lemma shape_connect:
  assumes S: "shape h c" and hp: "h p = None" and hi: "\<And>x st. h x = Some st \<Longrightarrow> iocom st \<noteq> i"
    and st: "is_root st" "\<not> is_sub st" "\<not> is_rb st" "parent st = Some p" "iocom st = i" "subq st = []"
      "relay st = None" "func st = None" "calm st"
    and ci: "state0 ci = p" "staterd_tree ci = Map.empty" "statewr_tree ci = Map.empty" "txmsgq ci = []"
  shows "shape (h(p := Some st)) (c(i := ci))"
proof -
  let ?h = h and ?c = c
  let ?h' = "h(p := Some st)" and ?c' = "c(i := ci)"
  have old: "trans_ok ?h' ?c' x xst \<and> refers_ok ?h' ?c' x xst" if x: "?h x = Some xst" for x xst
  proof -
    have xp: "x \<noteq> p" using x hp by auto
    have "on_subq ?h' q x" if "on_subq ?h q x" for q using that hp by (auto simp: on_subq_def)
    moreover have "child_at ?h' x j y" if "child_at ?h x j y" for j y using that hp by (auto simp: child_at_def)
    moreover have "root_at ?h' r j" if "root_at ?h r j" for r j using that hp by (auto simp: root_at_def)
    ultimately show ?thesis
      using shapeD(2,3) [OF S x] hi [OF x] hp
      by (auto simp: trans_ok_def refers_ok_def state_tree_def split: option.splits)
  qed
  have new: "trans_ok ?h' ?c' p st \<and> refers_ok ?h' ?c' p st"
    using st ci by (simp add: trans_ok_def refers_ok_def root_at_def)
  show ?thesis
    unfolding shape_def
  proof (intro conjI allI impI ballI)
    show "finite (dom ?h')" using S by (simp add: shape_def)
    show "trans_ok ?h' ?c' x xst" and "refers_ok ?h' ?c' x xst" if "?h' x = Some xst" for x xst
      using old [of x xst] new that by (cases "x = p"; auto)+
    show "\<exists>st. ?h' (m_state m) = Some st \<and> iocom st = j" if "m \<in> set (txmsgq (?c' j))" for j m
      using that shapeD(4) [OF S, of m j] hp ci by (auto split: if_splits)
    show "\<exists>st. ?h' x = Some st \<and> is_rb st \<and> is_opp st \<and> iocom st = j \<and> st_msgid st = n"
      if "staterd_tree (?c' j) n = Some x" for j n x
      using that shapeD(5) [OF S, of j n x] hp ci by (auto split: if_splits)
    show "\<exists>st. ?h' x = Some st \<and> is_rb st \<and> \<not> is_opp st \<and> iocom st = j \<and> st_msgid st = n"
      if "statewr_tree (?c' j) n = Some x" for j n x
      using that shapeD(6) [OF S, of j n x] hp ci by (auto split: if_splits)
  qed
qed

lemma inv_connect:
  assumes inv: "dmsg_inv dl w held" and p: "heap w p = None" and i: "\<And>x st. heap w x = Some st \<Longrightarrow> iocom st \<noteq> i"
    and k: "dl \<or> kind \<noteq> Mutex_Normal"
  shows "dwp dl (dmsg_iocom_init kind sig rx i p) (\<lambda>_ w'. dmsg_inv dl w' held \<and> root_at (heap w') (state0 (coms w' i)) i) w"
proof -
  let ?h = "bare (heap w)" and ?c = "barec (coms w)" and ?st = "init_state0 i p"
  let ?ci = "\<lparr>state0 = p, staterd_tree = Map.empty, statewr_tree = Map.empty, txmsgq = [], wakeups = 0,
    mtx_kind = kind, mtx = 0, swork = (sig \<noteq> None), signal_callback = sig, rcvmsg_func = rx\<rparr>"
  let ?h' = "?h(p := Some (?st\<lparr>refs := 0\<rparr>))" and ?c' = "?c(i := barec (\<lambda>_. ?ci) i)"
  have S: "shape ?h ?c" using inv by (simp add: dmsg_inv_def)
  have hp: "?h p = None" using p by simp
  have hi: "iocom st \<noteq> i" if x: "?h x = Some st" for x st
    using x i [of x] by (fastforce simp: bare_apply)
  have st: "is_root ?st" "\<not> is_sub ?st" "\<not> is_rb ?st" "parent ?st = Some p" "iocom ?st = i" "subq ?st = []"
    "relay ?st = None" "func ?st = None" "calm ?st" "refs ?st = 1" "any ?st = 0"
    by (simp_all add: init_state0_def new_state_def flag_simps)
  have shape: "shape ?h' ?c'" by (rule shape_connect [OF S hp hi]) (use st in \<open>simp_all add: barec_def\<close>)
  have ph: "p \<notin> set held" using inv p by (auto simp: dmsg_inv_def counted_def)
  have cnt: "links ?c' held x xst \<le> refs xst" if "((heap w)(p := Some ?st)) x = Some xst" for x xst
  proof (cases "x = p")
    case True
    have "links ?c' held p ?st \<le> refs ?st"
      unfolding links_def using st ph by (simp add: count_list_0_iff barec_def)
    then show ?thesis using that True by auto
  next
    case False
    then have x: "heap w x = Some xst" using that by simp
    have "links ?c held x xst \<le> refs xst" using inv x by (simp add: dmsg_inv_def counted_def)
    then show ?thesis using i [OF x] by (simp add: links_def)
  qed
  let ?w = "w\<lparr>coms := (coms w)(i := ?ci), heap := (heap w)(p := Some ?st)\<rparr>"
  have b: "barec (coms ?w) = ?c'" by (simp add: barec_def fun_eq_iff)
  have live: "heap ?w q \<noteq> None" if "q \<in> set held" for q
    using inv that by (simp add: dmsg_inv_def counted_def)
  have "counted (heap ?w) (barec (coms ?w)) held"
    unfolding counted_def b using cnt live by auto
  then have "dmsg_inv dl ?w held"
    using shape b inv k by (auto simp: dmsg_inv_def)
  then show ?thesis
    using st by (simp add: dmsg_iocom_init_def dwp_bind dwp_mem root_at_def)
qed

end
