(* ===== verification/Dmsg_Service.thy ===== *)
theory Dmsg_Service
  imports Dmsg_State
begin

text \<open>
  The master service of \<open>lib/libdmsg/service.c\<close>: the callbacks it installs in a connection and the
  dispatch of received messages to the function of a transaction, to the link protocol, to the debug
  protocol and to the user of the service; and \<open>shell_msghandler\<close> of \<open>sbin/hammer2/cmd_debug.c\<close>, the
  user that is the debug shell.  The functions of the SPAN protocol are parameters.
\<close>

text \<open>
  \<open>dmsg_lnk_conn\<close>, \<open>dmsg_lnk_span\<close> and \<open>dmsg_msg_lnk_signal\<close> of \<open>msg_lnk.c\<close>, the other functions that a
  transaction may name as its \<open>func\<close>, and \<open>usrmsg_callback\<close> with its argument \<open>unmanaged\<close>.  A handler
  returns the message, whose auxiliary data it may have changed.
\<close>

record dmsg_handlers =
  dmsg_lnk_conn :: "dmsg_msg \<Rightarrow> dmsg_msg dio"
  dmsg_lnk_span :: "dmsg_msg \<Rightarrow> dmsg_msg dio"
  dmsg_msg_lnk_signal :: "nat \<Rightarrow> unit dio"
  other_func :: "nat \<Rightarrow> dmsg_msg \<Rightarrow> dmsg_msg dio"
  usrmsg_callback :: "dmsg_msg \<Rightarrow> bool \<Rightarrow> dmsg_msg dio"

text \<open>
  Commands: the protocol, the number, and the size of the structure in units of \<open>DMSG_ALIGN\<close>, rounded
  up: \<open>dmsg_hdr\<close> and \<open>dmsg_dbg_shell\<close> have 64 bytes, \<open>dmsg_lnk_conn\<close> 328 and \<open>dmsg_lnk_span\<close> 432.
\<close>

abbreviation DMSG_PROTO_LNK :: u32 where "DMSG_PROTO_LNK \<equiv> 0"
abbreviation DMSG_PROTO_DBG :: u32 where "DMSG_PROTO_DBG \<equiv> 0x00100000"
abbreviation DMSG_LNK_PING :: u32 where "DMSG_LNK_PING \<equiv> 0x00000101"
abbreviation DMSG_LNK_CONN :: u32 where "DMSG_LNK_CONN \<equiv> 0x00001106"
abbreviation DMSG_LNK_SPAN :: u32 where "DMSG_LNK_SPAN \<equiv> 0x00001207"
abbreviation DMSG_DBG_SHELL :: u32 where "DMSG_DBG_SHELL \<equiv> 0x00100101"
abbreviation DMSG_ERR_NOSUPP :: u32 where "DMSG_ERR_NOSUPP \<equiv> 0x20"
abbreviation DMSG_PEER_ROUTER :: u8 where "DMSG_PEER_ROUTER \<equiv> 1"


section \<open>Callbacks of the master service\<close>

definition master_auth_rxmsg :: "dmsg_msg \<Rightarrow> dmsg_msg dio" where
  "master_auth_rxmsg msg = returnS msg"

definition master_auth_conn_rx :: "nat \<Rightarrow> dmsg_env \<Rightarrow> dmsg_msg \<Rightarrow> dmsg_msg dio" where
  "master_auth_conn_rx n env msg =
     bindS (whenS (has (m_cmd msg) DMSGF_DELETE) (dmsg_msg_reply n env msg 0)) (\<lambda>_.
     returnS msg)"

definition dmsg_iocom_restate :: "nat \<Rightarrow> signal_func option \<Rightarrow> rcvmsg_func \<Rightarrow> unit dio" where
  "dmsg_iocom_restate i sig rx =
     bindS (pthread_mutex_lock i) (\<lambda>_.
     bindS (upd_com i (\<lambda>c. c\<lparr>signal_callback := sig\<rparr>)) (\<lambda>_.
     bindS (upd_com i (\<lambda>c. c\<lparr>rcvmsg_func := rx\<rparr>)) (\<lambda>_.
     bindS (upd_com i (\<lambda>c. c\<lparr>swork := (sig \<noteq> None)\<rparr>)) (\<lambda>_.
     pthread_mutex_unlock i))))"

text \<open>
  \<open>peer_mask\<close> is the eight bytes at offset 112 of \<open>struct dmsg_lnk_conn\<close> and \<open>peer_type\<close> the byte after
  them; the extended header starts at offset 64.
\<close>

definition master_auth_signal :: "nat \<Rightarrow> dmsg_env \<Rightarrow> nat \<Rightarrow> unit dio" where
  "master_auth_signal n env i =
     bindS (getS (\<lambda>w. state0 (coms w i))) (\<lambda>s0.
     bindS (dmsg_msg_alloc env s0 0 (DMSG_LNK_CONN OR DMSGF_CREATE) (Some Master_auth_conn_rx) 0) (\<lambda>msg.
     let msg = msg\<lparr>ext := take 48 (ext msg) @ replicate 8 0xFF @ [DMSG_PEER_ROUTER] @ drop 57 (ext msg)\<rparr> in
     bindS (dmsg_msg_write n env msg) (\<lambda>_.
     dmsg_iocom_restate i (Some Master_link_signal) Master_link_rxmsg)))"

text \<open>The turn of \<open>dmsg_iocom_core\<close> that runs the signal function.\<close>

definition core_signal :: "nat \<Rightarrow> dmsg_env \<Rightarrow> dmsg_handlers \<Rightarrow> nat \<Rightarrow> unit dio" where
  "core_signal n env h i =
     bindS (getS (\<lambda>w. coms w i)) (\<lambda>c.
     whenS (swork c)
       (bindS (upd_com i (\<lambda>c. c\<lparr>swork := False\<rparr>)) (\<lambda>_.
        case signal_callback c of
          None \<Rightarrow> stopS (Null_deref ''signal_callback'')
        | Some Master_auth_signal \<Rightarrow> master_auth_signal n env i
        | Some Master_link_signal \<Rightarrow> dmsg_msg_lnk_signal h i)))"


section \<open>Dispatch of received messages\<close>

definition dmsg_lnk_ping :: "nat \<Rightarrow> dmsg_env \<Rightarrow> dmsg_handlers \<Rightarrow> dmsg_msg \<Rightarrow> dmsg_msg dio" where
  "dmsg_lnk_ping n env h msg =
     (if has (m_cmd msg) DMSGF_REPLY then usrmsg_callback h msg True
      else
        bindS (dmsg_msg_alloc env (m_state msg) 0 (DMSG_LNK_PING OR DMSGF_REPLY) None 0) (\<lambda>rep.
        bindS (dmsg_msg_write n env rep) (\<lambda>_.
        returnS msg)))"

definition dmsg_msg_lnk :: "nat \<Rightarrow> dmsg_env \<Rightarrow> dmsg_handlers \<Rightarrow> dmsg_msg \<Rightarrow> dmsg_msg dio" where
  "dmsg_msg_lnk n env h msg =
     (let c = tcmd msg AND DMSGF_BASECMDMASK in
      if c = DMSG_LNK_CONN then dmsg_lnk_conn h msg
      else if c = DMSG_LNK_SPAN then dmsg_lnk_span h msg
      else if c = DMSG_LNK_PING then dmsg_lnk_ping n env h msg
      else usrmsg_callback h msg True)"

text \<open>\<open>msg->aux_data[msg->aux_size - 1] = 0\<close>; an index outside the data ends the run.\<close>

definition aux_terminate :: "dmsg_msg \<Rightarrow> dmsg_msg dio" where
  "aux_terminate msg =
     (case aux_data msg of
        None \<Rightarrow> stopS (Null_deref ''aux_data'')
      | Some ds \<Rightarrow>
          if 0 < aux_size msg \<and> aux_size msg \<le> length ds
          then returnS (msg\<lparr>aux_data := Some (ds[aux_size msg - 1 := 0])\<rparr>)
          else stopS (Out_of_bounds ''aux_data''))"

text \<open>What a reply of the shell prints is not part of the state.\<close>

definition dmsg_msg_dbg :: "dmsg_handlers \<Rightarrow> dmsg_msg \<Rightarrow> dmsg_msg dio" where
  "dmsg_msg_dbg h msg =
     (let c = tcmd msg AND DMSGF_CMDSWMASK in
      if c = DMSG_DBG_SHELL then
        bindS (if aux_data msg \<noteq> None then aux_terminate msg else returnS msg) (\<lambda>msg.
        usrmsg_callback h msg False)
      else if c = DMSG_DBG_SHELL OR DMSGF_REPLY then
        (if aux_data msg \<noteq> None then aux_terminate msg else returnS msg)
      else usrmsg_callback h msg True)"

definition state_func_call :: "nat \<Rightarrow> dmsg_env \<Rightarrow> dmsg_handlers \<Rightarrow> state_func \<Rightarrow> dmsg_msg \<Rightarrow> dmsg_msg dio" where
  "state_func_call n env h f msg =
     (case f of
        Dmsg_state_relay \<Rightarrow> dmsg_state_relay n env msg
      | Master_auth_conn_rx \<Rightarrow> master_auth_conn_rx n env msg
      | Other_func k \<Rightarrow> other_func h k msg)"

definition master_link_rxmsg :: "nat \<Rightarrow> dmsg_env \<Rightarrow> dmsg_handlers \<Rightarrow> dmsg_msg \<Rightarrow> dmsg_msg dio" where
  "master_link_rxmsg n env h msg =
     bindS (deref (m_state msg)) (\<lambda>st.
     bindS (getS (\<lambda>w. state0 (coms w (iocom st)))) (\<lambda>s0.
     let cm = (if m_state msg \<noteq> s0 then icmd st else m_cmd msg) in
     case func st of
       Some f \<Rightarrow>
         bindS (assertS (m_state msg \<noteq> s0) ''link_rxmsg: state0'') (\<lambda>_. state_func_call n env h f msg)
     | None \<Rightarrow>
         if cm AND DMSGF_PROTOS = DMSG_PROTO_LNK then dmsg_msg_lnk n env h msg
         else if cm AND DMSGF_PROTOS = DMSG_PROTO_DBG then dmsg_msg_dbg h msg
         else usrmsg_callback h msg True))"

text \<open>
  \<open>iocom->rcvmsg_callback(msg)\<close>.  A callback may be called again while it aborts a transaction: \<open>depth\<close>
  bounds that recursion.  The handlers \<open>H\<close> are given what they run in.
\<close>

definition service_rxmsg :: "nat \<Rightarrow> dmsg_env \<Rightarrow> dmsg_handlers \<Rightarrow> dmsg_msg \<Rightarrow> dmsg_msg dio" where
  "service_rxmsg n env h msg =
     bindS (deref (m_state msg)) (\<lambda>st.
     bindS (getS (\<lambda>w. rcvmsg_func (coms w (iocom st)))) (\<lambda>f.
     case f of
       Master_auth_rxmsg \<Rightarrow> master_auth_rxmsg msg
     | Master_link_rxmsg \<Rightarrow> master_link_rxmsg n env h msg))"

primrec service_env :: "nat \<Rightarrow> nat \<Rightarrow> dmsg_env \<Rightarrow> (dmsg_env \<Rightarrow> dmsg_handlers) \<Rightarrow> dmsg_env" where
  "service_env 0 n e H = e\<lparr>rcvmsg_callback := (\<lambda>msg. stopS Stack_exhausted)\<rparr>"
| "service_env (Suc depth) n e H =
     (let env = service_env depth n e H in e\<lparr>rcvmsg_callback := service_rxmsg n env (H env)\<rparr>)"


section \<open>The debug shell\<close>

definition shell_msghandler :: "nat \<Rightarrow> dmsg_env \<Rightarrow> dmsg_msg \<Rightarrow> bool \<Rightarrow> dmsg_msg dio" where
  "shell_msghandler n env msg unmanaged =
     (if tcmd msg = DMSG_DBG_SHELL then
        bindS (whenS unmanaged (dmsg_msg_reply n env msg DMSG_ERR_NOSUPP)) (\<lambda>_. returnS msg)
      else if tcmd msg = DMSG_DBG_SHELL OR DMSGF_REPLY then
        (if aux_size msg \<noteq> 0 then aux_terminate msg else returnS msg)
      else if tcmd msg = DMSG_LNK_CONN OR DMSGF_CREATE then
        bindS (deref (m_state msg)) (\<lambda>st.
        bindS (getS (\<lambda>w. state0 (coms w (iocom st)))) (\<lambda>s0.
        bindS (dmsg_msg_alloc env s0 0 DMSG_DBG_SHELL None 0) (\<lambda>nmsg.
        bindS (dmsg_msg_write n env nmsg) (\<lambda>_.
        bindS (dmsg_msg_reply n env msg DMSG_ERR_NOSUPP) (\<lambda>_.
        returnS msg)))))
      else if tcmd msg = DMSG_LNK_CONN OR DMSGF_DELETE then returnS msg
      else
        bindS (whenS (unmanaged \<and> has (m_cmd msg) DMSGF_CREATE) (dmsg_msg_reply n env msg DMSG_ERR_NOSUPP)) (\<lambda>_.
        bindS (whenS (unmanaged \<and> has (m_cmd msg) DMSGF_DELETE) (dmsg_msg_reply n env msg DMSG_ERR_NOSUPP)) (\<lambda>_.
        returnS msg)))"

text \<open>The handlers of the debug shell: \<open>lnk\<close> has the functions of the SPAN protocol.\<close>

definition shell_handlers :: "nat \<Rightarrow> dmsg_handlers \<Rightarrow> dmsg_env \<Rightarrow> dmsg_handlers" where
  "shell_handlers n lnk env = lnk\<lparr>usrmsg_callback := shell_msghandler n env\<rparr>"

end
