(* ===== verification/Dmsg_Callbacks.thy ===== *)
theory Dmsg_Callbacks
  imports Dmsg_Operations Dmsg_Service
begin

text \<open>
  What the library relies on when it calls back: the contract of a callback, that the master service
  meets it if the functions it is given do, and that the debug shell does.
\<close>

section \<open>Replies and new transactions\<close>

lemma open_trans_wp:
  assumes inv: "dmsg_inv dl w held" and q: "heap w q = Some pst"
    and fresh: "heap w (malloc_state env (heap w)) = None"
    and cm: "cm AND (DMSGF_CREATE OR DMSGF_REPLY) = DMSGF_CREATE" "unat (cm AND DMSGF_SIZE) \<ge> 1"
    and fn: "fn \<noteq> Some Dmsg_state_relay"
  shows "dwp dl (open_trans n env q cm fn) (\<lambda>_ w'. dmsg_inv dl w' held) w"
proof -
  have nr: "\<not> has cm DMSGF_REPLY" using cm(1) by (simp add: create_command)
  have "dwp dl (dmsg_msg_alloc env q 0 cm fn 0) (\<lambda>m. dwp dl (dmsg_msg_write n env m) (\<lambda>_ w'. dmsg_inv dl w' held)) w"
    by (rule local_create_wp [OF inv q fresh cm fn], rule msg_write_wp) (use nr in \<open>auto simp: tx_ok_def\<close>)
  then show ?thesis by (simp add: open_trans_def dwp_bind)
qed

lemma lnk_error_bits:
  "\<not> bit (DMSG_LNK_ERROR OR (if a then DMSGF_DELETE else 0) OR (if b then DMSGF_REPLY else 0)) 31"
  "bit (DMSG_LNK_ERROR OR (if a then DMSGF_DELETE else 0) OR (if b then DMSGF_REPLY else 0)) 29 = b"
  "unat ((DMSG_LNK_ERROR OR (if a then DMSGF_DELETE else 0) OR (if b then DMSGF_REPLY else 0)) AND DMSGF_SIZE) \<ge> 1"
  by ((cases a; cases b; simp only: if_True if_False; code_simp)+)

lemma state_answer_wp:
  assumes inv: "dmsg_inv dl w held" and p: "heap w p = Some st"
    and Q: "\<And>w'. dmsg_inv dl w' held \<Longrightarrow> (p \<in> set held \<Longrightarrow> same_com w w' p) \<Longrightarrow> Q () w'"
  shows "dwp dl (dmsg_state_answer final n env p err) Q w"
proof (cases "tx_closed st")
  case True
  then show ?thesis using p inv by (auto simp: dmsg_state_answer_def dwp_simps same_com_def intro: Q)
next
  case False
  have d: "has (txcmd st) DMSGF_REPLY \<longleftrightarrow> is_opp st" if "\<not> is_root st"
    using inv_trans(1) [OF inv p] that by (auto simp: trans_ok_def dir_ok_def)
  have "dwp dl (send_error n env p (DMSG_LNK_ERROR OR (if final then DMSGF_DELETE else 0)
      OR (if has (txcmd st) DMSGF_REPLY then DMSGF_REPLY else 0)) err) Q w"
    by (rule send_error_wp [OF inv p _ _ lnk_error_bits(3)])
      (use False d Q in \<open>simp_all add: has_flags lnk_error_bits\<close>)
  with False p show ?thesis by (simp add: dmsg_state_answer_def dwp_simps)
qed

lemma msg_answer_wp:
  assumes inv: "dmsg_inv dl w held" and p: "heap w (m_state msg) = Some st"
    and Q: "\<And>w'. dmsg_inv dl w' held \<Longrightarrow> (m_state msg \<in> set held \<Longrightarrow> same_com w w' (m_state msg)) \<Longrightarrow> Q () w'"
  shows "dwp dl (dmsg_msg_answer final n env msg err) Q w"
proof (cases "is_root st")
  case True
  have "dwp dl (send_error n env (m_state msg)
      (DMSG_LNK_ERROR OR (if has (m_cmd msg) DMSGF_REPLY then 0 else DMSGF_REPLY)) err) Q w"
    using lnk_error_bits [of False True] lnk_error_bits [of False False]
    by (intro send_error_wp [OF inv p]) (use True Q in \<open>auto simp: has_flags\<close>)
  with True p show ?thesis by (simp add: dmsg_msg_answer_def dwp_simps Let_def)
next
  case False
  have "dwp dl (dmsg_state_answer final n env (m_state msg) err) Q w"
    by (rule state_answer_wp [OF inv p]) (rule Q)
  with False p show ?thesis
    by (simp add: dmsg_msg_answer_def dmsg_state_answer_def dwp_simps Let_def or.commute or.left_commute split: if_splits)
qed

section \<open>The contract of a callback\<close>

text \<open>The auxiliary data of a message that has been received: none, or at least as many bytes as it says.\<close>

definition aux_ok :: "dmsg_msg \<Rightarrow> bool" where
  "aux_ok msg \<longleftrightarrow> (case aux_data msg of None \<Rightarrow> aux_size msg = 0 | Some ds \<Rightarrow> 0 < aux_size msg \<and> aux_size msg \<le> length ds)"

definition ready :: "dmsg_msg \<Rightarrow> dmsg_world \<Rightarrow> bool" where
  "ready msg w \<longleftrightarrow> (\<exists>st. heap w (m_state msg) = Some st \<and> parent st \<noteq> None) \<and> aux_ok msg"

text \<open>
  A callback returns or waits for its own mutex, keeps the transactions consistent, and leaves the
  message with its state to the library.
\<close>

definition keeps_msg :: "bool \<Rightarrow> (dmsg_msg \<Rightarrow> dmsg_msg dio) \<Rightarrow> bool" where
  "keeps_msg dl f \<longleftrightarrow> (\<forall>w msg held. dmsg_inv dl w (m_state msg # held) \<longrightarrow> ready msg w \<longrightarrow>
     dwp dl (f msg) (\<lambda>msg' w'. m_state msg' = m_state msg \<and> dmsg_inv dl w' (m_state msg # held) \<and>
       same_com w w' (m_state msg)) w)"

lemma keeps_msgD:
  "keeps_msg dl f \<Longrightarrow> dmsg_inv dl w (m_state msg # held) \<Longrightarrow> ready msg w \<Longrightarrow>
   dwp dl (f msg) (\<lambda>msg' w'. m_state msg' = m_state msg \<and> dmsg_inv dl w' (m_state msg # held) \<and>
     same_com w w' (m_state msg)) w"
  unfolding keeps_msg_def by blast

definition handlers_ok :: "bool \<Rightarrow> dmsg_handlers \<Rightarrow> bool" where
  "handlers_ok dl h \<longleftrightarrow> keeps_msg dl (dmsg_lnk_conn h) \<and> keeps_msg dl (dmsg_lnk_span h) \<and>
     (\<forall>k. keeps_msg dl (other_func h k)) \<and> (\<forall>u. keeps_msg dl (\<lambda>msg. usrmsg_callback h msg u)) \<and>
     (\<forall>w held i. dmsg_inv dl w held \<longrightarrow> dwp dl (dmsg_msg_lnk_signal h i) (\<lambda>_ w'. dmsg_inv dl w' held) w)"

lemma same_com_refl: "dmsg_inv dl w (p # held) \<Longrightarrow> same_com w w p"
  using inv_live [of dl w "p # held" p] by (auto simp: same_com_def)

lemma same_com_trans: "same_com u v p \<Longrightarrow> same_com v w p \<Longrightarrow> same_com u w p"
  by (auto simp: same_com_def)

lemma keeps_msg_return: "keeps_msg dl returnS"
  by (auto simp: keeps_msg_def dwp_simps same_com_refl)

lemma keeps_msg_reply: "keeps_msg dl (\<lambda>msg. bindS (dmsg_msg_reply n env msg err) (\<lambda>_. returnS msg))"
  unfolding keeps_msg_def ready_def dmsg_msg_reply_def
  by (auto simp: dwp_simps intro!: msg_answer_wp)

lemma keeps_msg_when:
  "keeps_msg dl (\<lambda>msg. bindS (m msg) (\<lambda>_. returnS msg)) \<Longrightarrow>
   keeps_msg dl (\<lambda>msg. bindS (whenS (b msg) (m msg)) (\<lambda>_. returnS msg))"
  by (auto simp: keeps_msg_def dwp_simps same_com_refl)

section \<open>The master service\<close>

lemma auth_rxmsg_keeps: "keeps_msg dl master_auth_rxmsg"
  unfolding master_auth_rxmsg_def by (rule keeps_msg_return)

lemma auth_conn_rx_keeps: "keeps_msg dl (master_auth_conn_rx n env)"
  unfolding master_auth_conn_rx_def by (rule keeps_msg_when [OF keeps_msg_reply])

lemma aux_terminate_wp:
  assumes "aux_ok msg" and "aux_data msg \<noteq> None"
    and "\<And>msg'. m_state msg' = m_state msg \<Longrightarrow> aux_ok msg' \<Longrightarrow> Q msg' w"
  shows "dwp dl (aux_terminate msg) Q w"
  using assms by (auto simp: aux_terminate_def dwp_simps aux_ok_def split: option.splits)

lemma lnk_ping_keeps:
  assumes "handlers_ok dl h"
  shows "keeps_msg dl (dmsg_lnk_ping n env h)"
  unfolding keeps_msg_def
proof (intro allI impI)
  fix w held and msg :: dmsg_msg
  assume inv: "dmsg_inv dl w (m_state msg # held)" and rd: "ready msg w"
  let ?Q = "\<lambda>msg' w'. m_state msg' = m_state msg \<and> dmsg_inv dl w' (m_state msg # held) \<and> same_com w w' (m_state msg)"
  let ?cm = "DMSG_LNK_PING OR DMSGF_REPLY"
  obtain st q where st: "heap w (m_state msg) = Some st" "parent st = Some q" using rd by (auto simp: ready_def)
  have cm: "?cm AND (DMSGF_CREATE OR DMSGF_REPLY) \<noteq> DMSGF_CREATE" "unat (?cm AND DMSGF_SIZE) \<ge> 1"
    "\<not> has ?cm DMSGF_CREATE" "\<not> has ?cm DMSGF_DELETE"
    by code_simp+
  have "dwp dl (dmsg_msg_alloc env (m_state msg) 0 ?cm None 0)
      (\<lambda>rep. dwp dl (dmsg_msg_write n env rep) (\<lambda>_. ?Q msg)) w"
    by (rule msg_alloc_wp [OF inv st cm(1,2)], rule msg_write_wp)
      (use st cm(3,4) in \<open>auto simp: tx_ok_def has_or same_com_def\<close>)
  moreover have "dwp dl (usrmsg_callback h msg True) ?Q w"
    using assms keeps_msgD [OF _ inv rd, of "\<lambda>m. usrmsg_callback h m True"] by (simp add: handlers_ok_def)
  ultimately show "dwp dl (dmsg_lnk_ping n env h msg) ?Q w" by (simp add: dmsg_lnk_ping_def dwp_simps)
qed

lemma msg_lnk_keeps:
  assumes h: "handlers_ok dl h"
  shows "keeps_msg dl (dmsg_msg_lnk n env h)"
  using h lnk_ping_keeps [OF h, of n env] unfolding keeps_msg_def handlers_ok_def
  by (simp add: dmsg_msg_lnk_def Let_def)

lemma msg_dbg_keeps:
  assumes h: "handlers_ok dl h"
  shows "keeps_msg dl (dmsg_msg_dbg h)"
  unfolding keeps_msg_def
proof (intro allI impI)
  fix w held and msg :: dmsg_msg
  assume inv: "dmsg_inv dl w (m_state msg # held)" and rd: "ready msg w"
  let ?Q = "\<lambda>msg' w'. m_state msg' = m_state msg \<and> dmsg_inv dl w' (m_state msg # held) \<and> same_com w w' (m_state msg)"
  have usr: "dwp dl (usrmsg_callback h m u) ?Q w" if "m_state m = m_state msg" "aux_ok m" for m u
    using h keeps_msgD [of dl "\<lambda>m. usrmsg_callback h m u" w m held] inv rd that by (simp add: handlers_ok_def ready_def)
  have ok: "aux_ok msg" using rd by (simp add: ready_def)
  have "dwp dl (aux_terminate msg) (\<lambda>m. dwp dl (usrmsg_callback h m False) ?Q) w"
    "dwp dl (aux_terminate msg) ?Q w" if "aux_data msg \<noteq> None"
    by (rule aux_terminate_wp [OF ok that], use usr inv in \<open>simp add: same_com_refl\<close>)+
  then show "dwp dl (dmsg_msg_dbg h msg) ?Q w"
    using usr ok inv by (auto simp: dmsg_msg_dbg_def dwp_simps same_com_refl)
qed

lemma link_rxmsg_keeps:
  assumes h: "handlers_ok dl h"
  shows "keeps_msg dl (master_link_rxmsg n env h)"
  unfolding keeps_msg_def
proof (intro allI impI)
  fix w held and msg :: dmsg_msg
  assume inv: "dmsg_inv dl w (m_state msg # held)" and rd: "ready msg w"
  define Q :: "dmsg_msg \<Rightarrow> dmsg_world \<Rightarrow> bool" where "Q = (\<lambda>msg' w'. m_state msg' = m_state msg \<and> dmsg_inv dl w' (m_state msg # held) \<and>
    same_com w w' (m_state msg))"
  have keeps: "dwp dl (f msg) Q w" if "keeps_msg dl f" for f
    unfolding Q_def by (rule keeps_msgD [OF that inv rd])
  obtain st where st: "heap w (m_state msg) = Some st" using rd by (auto simp: ready_def)
  have root: "is_root rst" if "heap w (state0 (coms w (iocom st))) = Some rst" for rst
    using inv_trans(2) [OF inv st] that by (auto simp: refers_ok_def root_at_def barec_def bare_apply)
  have "m_state msg \<noteq> state0 (coms w (iocom st))" if "func st \<noteq> None"
    using inv_trans(1) [OF inv st] root [of st] st that by (auto simp: trans_ok_def)
  moreover have "func st \<noteq> Some Dmsg_state_relay" using inv_trans(2) [OF inv st] by (simp add: refers_ok_def)
  then have "dwp dl (state_func_call n env h f msg) Q w" if "func st = Some f" for f
    using that h keeps [OF auth_conn_rx_keeps] keeps [of "other_func h k" for k]
    by (cases f) (simp_all add: state_func_call_def handlers_ok_def)
  moreover have "dwp dl (dmsg_msg_lnk n env h msg) Q w" "dwp dl (dmsg_msg_dbg h msg) Q w"
    by (rule keeps [OF msg_lnk_keeps [OF h]], rule keeps [OF msg_dbg_keeps [OF h]])
  moreover have "dwp dl (usrmsg_callback h msg True) Q w"
    using h keeps [of "\<lambda>m. usrmsg_callback h m True"] by (simp add: handlers_ok_def)
  ultimately have "dwp dl (master_link_rxmsg n env h msg) Q w"
    using st by (simp add: master_link_rxmsg_def dwp_simps split: option.split)
  then show "dwp dl (master_link_rxmsg n env h msg) (\<lambda>msg' w'. m_state msg' = m_state msg \<and>
      dmsg_inv dl w' (m_state msg # held) \<and> same_com w w' (m_state msg)) w"
    by (simp add: Q_def)
qed

lemma service_rxmsg_keeps:
  assumes h: "handlers_ok dl h"
  shows "keeps_msg dl (service_rxmsg n env h)"
  unfolding keeps_msg_def
proof (intro allI impI)
  fix w held and msg :: dmsg_msg
  assume inv: "dmsg_inv dl w (m_state msg # held)" and rd: "ready msg w"
  then show "dwp dl (service_rxmsg n env h msg) (\<lambda>msg' w'. m_state msg' = m_state msg \<and>
      dmsg_inv dl w' (m_state msg # held) \<and> same_com w w' (m_state msg)) w"
    using keeps_msgD [OF auth_rxmsg_keeps inv rd] keeps_msgD [OF link_rxmsg_keeps [OF h] inv rd]
    by (auto simp: service_rxmsg_def dwp_simps ready_def split: rcvmsg_func.split)
qed

text \<open>The signal functions.\<close>

lemma inv_swork: "dmsg_inv dl w held \<Longrightarrow>
    dmsg_inv dl (w\<lparr>coms := (coms w)(i := (coms w i)\<lparr>swork := False\<rparr>)\<rparr>) held"
  by (auto simp: dmsg_inv_def)

lemma inv_signal: "dmsg_inv dl w held \<Longrightarrow>
    dmsg_inv dl (w\<lparr>coms := (coms w)(i := (coms w i)\<lparr>signal_callback := Some f, rcvmsg_func := g, swork := b\<rparr>)\<rparr>) held"
proof -
  assume inv: "dmsg_inv dl w held"
  have "barec ((coms w)(i := (coms w i)\<lparr>signal_callback := Some f, rcvmsg_func := g, swork := b\<rparr>)) = barec (coms w)"
    by (simp add: barec_def fun_eq_iff)
  with inv show ?thesis by (auto simp: dmsg_inv_def)
qed

lemma restate_wp:
  assumes inv: "dmsg_inv dl w held"
  shows "dwp dl (dmsg_iocom_restate i (Some f) g) (\<lambda>_ w'. dmsg_inv dl w' held) w"
proof -
  have "dwp dl (pthread_mutex_lock i) (\<lambda>_ u. dwp dl (pthread_mutex_unlock i) (\<lambda>_ w'. dmsg_inv dl w' held)
      (u\<lparr>coms := (coms u)(i := (coms u i)\<lparr>signal_callback := Some f, rcvmsg_func := g, swork := True\<rparr>)\<rparr>)) w"
    by (rule lock_wp [OF inv]) (use inv in \<open>auto intro!: unlock_wp inv_signal\<close>)
  then show ?thesis by (simp add: dmsg_iocom_restate_def dwp_simps)
qed

lemma auth_signal_wp:
  assumes inv: "dmsg_inv dl w held" and root: "root_at (heap w) (state0 (coms w i)) i"
    and fresh: "heap w (malloc_state env (heap w)) = None"
  shows "dwp dl (master_auth_signal n env i) (\<lambda>_ w'. dmsg_inv dl w' held) w"
proof -
  obtain st where st: "heap w (state0 (coms w i)) = Some st" using root by (auto simp: root_at_def)
  let ?cm = "DMSG_LNK_CONN OR DMSGF_CREATE"
  have cm: "?cm AND (DMSGF_CREATE OR DMSGF_REPLY) = DMSGF_CREATE" "unat (?cm AND DMSGF_SIZE) \<ge> 1"
    "\<not> has ?cm DMSGF_REPLY" "\<not> has ?cm DMSGF_DELETE" by code_simp+
  have "dwp dl (dmsg_msg_alloc env (state0 (coms w i)) 0 ?cm (Some Master_auth_conn_rx) 0)
      (\<lambda>msg. dwp dl (dmsg_msg_write n env (msg\<lparr>ext := x msg\<rparr>))
        (\<lambda>_. dwp dl (dmsg_iocom_restate i (Some Master_link_signal) Master_link_rxmsg) (\<lambda>_ w'. dmsg_inv dl w' held))) w" for x
    by (rule local_create_wp [OF inv st fresh cm(1,2)], simp, rule msg_write_wp)
      (use cm(3,4) in \<open>auto simp: tx_ok_def m_cmd_def intro: restate_wp\<close>)
  then show ?thesis by (simp add: master_auth_signal_def dwp_simps)
qed

lemma core_signal_wp:
  assumes inv: "dmsg_inv dl w held" and root: "root_at (heap w) (state0 (coms w i)) i"
    and fresh: "heap w (malloc_state env (heap w)) = None" and h: "handlers_ok dl h"
  shows "dwp dl (core_signal n env h i) (\<lambda>_ w'. dmsg_inv dl w' held) w"
proof (cases "swork (coms w i)")
  case True
  then obtain f where f: "signal_callback (coms w i) = Some f" using inv by (auto simp: dmsg_inv_def)
  let ?w = "w\<lparr>coms := (coms w)(i := (coms w i)\<lparr>swork := False\<rparr>)\<rparr>"
  have v: "dmsg_inv dl ?w held" by (rule inv_swork [OF inv])
  have "dwp dl (master_auth_signal n env i) (\<lambda>_ w'. dmsg_inv dl w' held) ?w"
    by (rule auth_signal_wp [OF v]) (use root fresh in simp_all)
  moreover have "dwp dl (dmsg_msg_lnk_signal h i) (\<lambda>_ w'. dmsg_inv dl w' held) ?w"
    using h v by (simp add: handlers_ok_def)
  ultimately show ?thesis using True f by (cases f) (simp_all add: core_signal_def dwp_simps)
qed (use inv in \<open>simp add: core_signal_def dwp_simps\<close>)

section \<open>The debug shell\<close>

text \<open>A message without a transaction touches the state of the connection only.\<close>

lemma cleanuptx_root:
  assumes "heap w (m_state msg) = Some st" and "is_root st" and "calm st" and "iocom st = i" and "0 < refs st"
  shows "dmsg_state_cleanuptx n env i msg w = Inr ((), w)"
proof -
  have "(heap w)(m_state msg := Some st) = heap w" using assms(1) by auto
  then show ?thesis
    using assms by (simp add: dmsg_state_cleanuptx_def dmsg_state_hold_def dmsg_state_drop_def deferred_abort_def
        upd_def deref_def put_def bindS_def modifyS_def whenS_def returnS_def assertS_def)
qed

lemma oneoff_write_wp:
  assumes inv: "dmsg_inv dl w (m_state msg # held)" and p: "heap w (m_state msg) = Some st" and root: "is_root st"
    and Q: "\<And>w'. dmsg_inv dl w' held \<Longrightarrow> (\<And>q. q \<in> set held \<Longrightarrow> same_com w w' q) \<Longrightarrow> Q () w'"
  shows "dwp dl (dmsg_msg_write n env msg) Q w"
proof -
  let ?p = "m_state msg" and ?i = "iocom st"
  have live: "\<exists>st. heap w q = Some st" if "q \<in> set held" for q using inv_live [OF inv, of q] that by simp
  have calm: "calm st" using inv_trans(2) [OF inv p] by (simp add: refers_ok_def)
  have refs: "0 < refs st" using held_droppable [OF inv p] by (simp add: droppable_def)
  have "dwp dl (pthread_mutex_lock ?i) (\<lambda>_ u. (tx_closed st \<longrightarrow> dwp dl (dmsg_msg_free msg) Q u) \<and>
      (\<not> tx_closed st \<longrightarrow> dwp dl (dmsg_state_cleanuptx n env ?i msg) (\<lambda>_ u. dwp dl (pthread_mutex_unlock ?i) Q
        (u\<lparr>coms := (coms u)(?i := (coms u ?i)\<lparr>txmsgq := txmsgq (coms u ?i) @ [msg],
          wakeups := wakeups (coms u ?i) + 1\<rparr>)\<rparr>)) u) \<and> heap u ?p = Some st) w"
  proof (rule lock_wp [OF inv], intro conjI impI)
    fix k
    let ?u = "set_mtx ?i k w"
    have u: "dmsg_inv dl ?u (?p # held)" "heap ?u ?p = Some st" using inv p by simp_all
    show "dwp dl (dmsg_msg_free msg) Q ?u"
    proof (rule msg_free_wp [OF u(1)], rule Q)
      fix v q
      assume v: "\<And>q. q \<noteq> ?p \<Longrightarrow> heap v q = heap ?u q" "?p \<in> set held \<Longrightarrow> same_com ?u v ?p" and q: "q \<in> set held"
      show "same_com w v q" using v live [OF q] q by (cases "q = ?p") (auto simp: same_com_def)
    qed
    have "dmsg_inv dl (?u\<lparr>coms := (coms ?u)(?i := (coms ?u ?i)\<lparr>txmsgq := txmsgq (coms ?u ?i) @ [msg], wakeups := m\<rparr>)\<rparr>) held" for m
      by (rule inv_enqueue [OF u refl])
    then show "dwp dl (dmsg_state_cleanuptx n env ?i msg) (\<lambda>_ u. dwp dl (pthread_mutex_unlock ?i) Q
        (u\<lparr>coms := (coms u)(?i := (coms u ?i)\<lparr>txmsgq := txmsgq (coms u ?i) @ [msg],
          wakeups := wakeups (coms u ?i) + 1\<rparr>)\<rparr>)) ?u"
      unfolding dwp_Inr [where m = "dmsg_state_cleanuptx n env ?i msg", OF cleanuptx_root [OF u(2) root calm refl refs]]
      by (intro unlock_wp Q) (use live in \<open>auto simp: same_com_def dest!: live\<close>)
    show "heap ?u ?p = Some st" by (rule u(2))
  qed
  then have "dwp dl (pthread_mutex_lock ?i) (\<lambda>_. dwp dl (write_prepare msg) (\<lambda>msg v. \<exists>st. heap v ?p = Some st \<and>
      (if has (txcmd st) DMSGF_DELETE then dwp dl (dmsg_msg_free msg) Q v
       else \<not> has (flags st) DMSG_STATE_DYING \<and> dwp dl (dmsg_state_cleanuptx n env ?i msg)
         (\<lambda>_ u. dwp dl (pthread_mutex_unlock ?i) Q
           (u\<lparr>coms := (coms u)(?i := (coms u ?i)\<lparr>txmsgq := txmsgq (coms u ?i) @ [msg],
             wakeups := wakeups (coms u ?i) + 1\<rparr>)\<rparr>)) v))) w"
    by (rule dwp_mono) (use root calm in \<open>auto simp: dwp_simps write_prepare_def Let_def has_or\<close>)
  then have "dwp dl (pthread_mutex_lock ?i) (\<lambda>_. dwp dl (write_prepare msg) (\<lambda>msg v. \<exists>st. heap v ?p = Some st \<and>
      dwp dl (if has (txcmd st) DMSGF_DELETE then dmsg_msg_free msg
      else if has (flags st) DMSG_STATE_DYING then
        bindS (dmsg_state_hold ?p) (\<lambda>_.
        bindS (dmsg_state_cleanuptx n env ?i msg) (\<lambda>_.
        bindS (deref ?p) (\<lambda>st.
        bindS (whenS (\<not> has (flags st) DMSG_STATE_ABORTING) (dmsg_simulate_failure n env ?p True)) (\<lambda>_.
        bindS (dmsg_state_drop ?p) (\<lambda>_.
        bindS (dmsg_msg_free msg) (\<lambda>_.
        pthread_mutex_unlock ?i))))))
      else
        bindS (dmsg_state_cleanuptx n env ?i msg) (\<lambda>_.
        bindS (upd_com ?i (\<lambda>c. c\<lparr>txmsgq := txmsgq c @ [msg], wakeups := wakeups c + 1\<rparr>)) (\<lambda>_.
        pthread_mutex_unlock ?i))) Q v)) w"
    by (elim dwp_mono) (auto simp: dwp_simps split: if_splits)
  then show ?thesis using p by (simp only: dmsg_msg_write_def Let_def dwp_bind dwp_mem) blast
qed

lemma oneoff_wp:
  assumes inv: "dmsg_inv dl w held" and root: "root_at (heap w) s i"
    and cm: "\<not> has cm DMSGF_CREATE" "unat (cm AND DMSGF_SIZE) \<ge> 1"
    and Q: "\<And>w'. dmsg_inv dl w' held \<Longrightarrow> (\<And>p. p \<in> set held \<Longrightarrow> same_com w w' p) \<Longrightarrow> Q () w'"
  shows "dwp dl (dmsg_msg_alloc env s 0 cm None 0) (\<lambda>m. dwp dl (dmsg_msg_write n env m) Q) w"
proof -
  obtain st where st: "heap w s = Some st" "is_root st" using root by (auto simp: root_at_def)
  have par: "parent st = Some s" using inv_trans(1) [OF inv st(1)] st(2) by (simp add: trans_ok_def)
  have ne: "cm AND (DMSGF_CREATE OR DMSGF_REPLY) \<noteq> DMSGF_CREATE" using cm(1) by (simp add: create_command)
  show ?thesis
  proof (rule msg_alloc_wp [OF inv st(1) par ne cm(2)])
    fix v and msg :: dmsg_msg
    assume v: "dmsg_inv dl v (s # held)" "heap v s = Some (st\<lparr>refs := refs st + 1\<rparr>)" and m: "m_state msg = s"
      and "\<exists>k. v = set_mtx (iocom st) k (w\<lparr>heap := (heap w)(s := Some (st\<lparr>refs := refs st + 1\<rparr>))\<rparr>)"
    then have com: "same_com w v q" if "q \<in> set held" for q
      using inv_live [OF inv that] st by (cases "q = s") (auto simp: same_com_def)
    show "dwp dl (dmsg_msg_write n env msg) Q v"
      by (rule oneoff_write_wp [where held = held and st = "st\<lparr>refs := refs st + 1\<rparr>"])
        (use v m st com in \<open>auto intro!: Q intro: same_com_trans\<close>)
  qed
qed

lemma root_of:
  assumes "dmsg_inv dl w held" and "heap w p = Some st"
  shows "root_at (heap w) (state0 (coms w (iocom st))) (iocom st)"
  using inv_trans(2) [OF assms] by (auto simp: refers_ok_def root_at_def barec_def bare_apply)

lemma shell_keeps: "keeps_msg dl (\<lambda>msg. shell_msghandler n env msg u)"
  unfolding keeps_msg_def
proof (intro allI impI)
  fix w held and msg :: dmsg_msg
  assume inv: "dmsg_inv dl w (m_state msg # held)" and rd: "ready msg w"
  define Q :: "dmsg_msg \<Rightarrow> dmsg_world \<Rightarrow> bool" where "Q = (\<lambda>msg' w'. m_state msg' = m_state msg \<and>
    dmsg_inv dl w' (m_state msg # held) \<and> same_com w w' (m_state msg))"
  have reply: "dwp dl (dmsg_msg_reply n env msg err) R v"
    if v: "dmsg_inv dl v (m_state msg # held)" "same_com w v (m_state msg)"
      and R: "\<And>v'. dmsg_inv dl v' (m_state msg # held) \<Longrightarrow> same_com w v' (m_state msg) \<Longrightarrow> R () v'" for err R v
  proof -
    obtain st where st: "heap v (m_state msg) = Some st" using v(2) by (auto simp: same_com_def)
    show ?thesis unfolding dmsg_msg_reply_def
      by (rule msg_answer_wp [OF v(1) st]) (use v R in \<open>auto intro: same_com_trans\<close>)
  qed
  have fin: "Q msg v" if "dmsg_inv dl v (m_state msg # held)" "same_com w v (m_state msg)" for v
    using that by (simp add: Q_def)
  note start = inv same_com_refl [OF inv]
  have one: "dwp dl (dmsg_msg_reply n env msg err) (\<lambda>_. Q msg) w"
    "dwp dl (dmsg_msg_reply n env msg err) (\<lambda>_. dwp dl (dmsg_msg_reply n env msg err) (\<lambda>_. Q msg)) w" for err
    by (intro reply start fin; assumption)+
  have cut: "dwp dl (aux_terminate msg) Q w" if "aux_size msg \<noteq> 0"
    by (rule aux_terminate_wp) (use rd that start in \<open>auto simp: ready_def aux_ok_def Q_def split: option.splits\<close>)
  obtain st where st: "heap w (m_state msg) = Some st" using rd by (auto simp: ready_def)
  have cm: "\<not> has DMSG_DBG_SHELL DMSGF_CREATE" "unat (DMSG_DBG_SHELL AND DMSGF_SIZE) \<ge> 1" by code_simp+
  have conn: "dwp dl (dmsg_msg_alloc env (state0 (coms w (iocom st))) 0 DMSG_DBG_SHELL None 0) (\<lambda>m.
      dwp dl (dmsg_msg_write n env m) (\<lambda>_. dwp dl (dmsg_msg_reply n env msg err) (\<lambda>_. Q msg))) w" for err
    by (rule oneoff_wp [OF inv root_of [OF inv st] cm]) (auto intro!: reply fin)
  have "dwp dl (shell_msghandler n env msg u) Q w"
    using one cut conn [of DMSG_ERR_NOSUPP] fin [OF start] st by (simp add: shell_msghandler_def dwp_simps)
  then show "dwp dl (shell_msghandler n env msg u) (\<lambda>msg' w'. m_state msg' = m_state msg \<and>
      dmsg_inv dl w' (m_state msg # held) \<and> same_com w w' (m_state msg)) w"
    by (simp add: Q_def)
qed

lemma shell_handlers_ok:
  assumes "handlers_ok dl (lnk\<lparr>usrmsg_callback := (\<lambda>msg u. returnS msg)\<rparr>)"
  shows "handlers_ok dl (shell_handlers n lnk env)"
  using assms shell_keeps by (simp add: handlers_ok_def shell_handlers_def)

end
