(* ===== verification/Dmsg_Properties.thy ===== *)
theory Dmsg_Properties
  imports Dmsg_Callbacks
begin

text \<open>
  The connections of the master service: the events of a process and its reachable states, for every kind
  of mutex and whatever the peer sends, and the properties of the transactions.
\<close>

section \<open>Reception\<close>

text \<open>\<open>malloc\<close> returns memory that is not in use as long as there is any.\<close>

definition malloc_ok :: "dmsg_env \<Rightarrow> bool" where
  "malloc_ok env \<longleftrightarrow> (\<forall>h p. h p = None \<longrightarrow> h (malloc_state env h) = None)"

text \<open>The message a header announces.\<close>

definition carried :: "dmsg_hdr \<Rightarrow> dmsg_msg" where
  "carried h = \<lparr>m_state = 0, hdr_size = 64, aux_size = 0, aux_data = None, tcmd = 0, head = h, ext = []\<rparr>"

lemma rx_ok_head: "head m = head m' \<Longrightarrow> rx_ok i m w = rx_ok i m' w"
  by (simp only: rx_ok_def msgrx_pstate_def msgrx_lookup_def m_cmd_def)

text \<open>What \<open>dmsg_iocom_core\<close> relies on when it calls \<open>rcvmsg_callback\<close>.\<close>

locale dmsg_user =
  fixes dl :: bool and env :: dmsg_env
  assumes callback: "keeps_msg dl (rcvmsg_callback env)"
begin

lemma run_callback_wp:
  assumes inv: "dmsg_inv dl w (m_state msg # held)" and rd: "ready msg w"
  shows "dwp dl (run_callback env msg) (\<lambda>_ w'. dmsg_inv dl w' held) w"
proof -
  obtain st where st: "heap w (m_state msg) = Some st" using inv_live [OF inv] by auto
  let ?i = "iocom st"
  have clean: "dwp dl (pthread_mutex_lock ?i) (\<lambda>_. dwp dl (dmsg_state_cleanuprx ?i m)
      (\<lambda>_. dwp dl (pthread_mutex_unlock ?i) (\<lambda>_ w'. dmsg_inv dl w' held))) u"
    if u: "m_state m = m_state msg" "dmsg_inv dl u (m_state msg # held)" "same_com w u (m_state msg)" for m u
  proof -
    obtain ust where "heap u (m_state msg) = Some ust" "iocom ust = ?i"
      using u(3) st by (auto simp: same_com_def)
    then show ?thesis
      by (intro lock_wp [OF u(2)] cleanuprx_wp [where st = ust and held = held] unlock_wp)
        (use u in simp_all)
  qed
  have "dwp dl (rcvmsg_callback env msg) (\<lambda>m. dwp dl (pthread_mutex_lock ?i) (\<lambda>_. dwp dl (dmsg_state_cleanuprx ?i m)
      (\<lambda>_. dwp dl (pthread_mutex_unlock ?i) (\<lambda>_ w'. dmsg_inv dl w' held)))) w"
    by (rule dwp_mono [OF keeps_msgD [OF callback inv rd]]) (rule clean, simp_all)
  with st show ?thesis by (simp add: run_callback_def dwp_bind dwp_mem)
qed

lemma receive_end:
  assumes inv: "dmsg_inv dl w (m_state msg # held)" and s0: "m_state msg = state0 (coms w i)"
    and root: "heap w (m_state msg) = Some rst" "is_root rst" "iocom rst = i" and own: "opens_own (head msg)"
    and fresh: "heap w (malloc_state env (heap w)) = None" and aux: "aux_ok msg"
  shows "wlp (rx_ends dl (rx_ok i msg w)) (receive env msg) (\<lambda>_ w'. dmsg_inv dl w' held) w"
proof -
  have "wlp (rx_ends dl (rx_ok i msg w)) (dmsg_state_msgrx env msg False) (\<lambda>em. wlp (rx_ends dl (rx_ok i msg w))
      (case em of (err, msg) \<Rightarrow> if err = DMSG_IOQ_ERROR_EALREADY then dmsg_msg_free msg else run_callback env msg)
      (\<lambda>_ w'. dmsg_inv dl w' held)) w"
  proof (rule msgrx_end [OF inv s0 root own fresh])
    fix err u msg'
    assume u: "dmsg_inv dl u (m_state msg' # held)" "handed i msg msg' u"
    then have rd: "ready msg' u" using aux by (auto simp: handed_def ready_def aux_ok_def split: option.splits)
    show "wlp (rx_ends dl (rx_ok i msg w)) (case (err, msg') of (err, msg) \<Rightarrow>
        if err = DMSG_IOQ_ERROR_EALREADY then dmsg_msg_free msg else run_callback env msg)
        (\<lambda>_ w'. dmsg_inv dl w' held) u"
      by (auto intro!: dwp_ends run_callback_wp [OF u(1) rd] msg_free_wp [OF u(1)])
  qed
  then show ?thesis by (simp add: receive_def wlp_bind)
qed

lemma deliver_end:
  assumes inv: "dmsg_inv dl w held" and root: "root_at (heap w) (state0 (coms w i)) i"
    and size: "unat (cmd hdr AND DMSGF_SIZE) \<ge> 1" and own: "opens_own hdr"
    and aux: "aux_ok ((carried hdr)\<lparr>aux_size := asize, aux_data := ax\<rparr>)"
    and malloc: "malloc_ok env" and left: "heap w f = None"
  shows "wlp (rx_ends dl (rx_ok i (carried hdr) w)) (deliver env i asize hdr ex ax) (\<lambda>_ w'. dmsg_inv dl w' held) w"
proof -
  let ?s = "state0 (coms w i)" and ?cm = "cmd hdr AND DMSGF_SIZE" and ?E = "rx_ends dl (rx_ok i (carried hdr) w)"
  obtain st where st: "heap w ?s = Some st" "is_root st" "iocom st = i" using root by (auto simp: root_at_def)
  have par: "parent st = Some ?s" using inv_trans(1) [OF inv st(1)] st(2) by (simp add: trans_ok_def)
  have cm: "?cm AND (DMSGF_CREATE OR DMSGF_REPLY) \<noteq> DMSGF_CREATE"
    by (simp add: create_command flag_simps DMSGF_SIZE_def bit_simps)
  have size': "unat (?cm AND DMSGF_SIZE) \<ge> 1" using size by (simp add: and.assoc)
  have "dwp dl (dmsg_msg_alloc env ?s asize ?cm None 0)
      (\<lambda>msg. wlp ?E (receive env (msg\<lparr>head := hdr, ext := ex, aux_data := ax\<rparr>)) (\<lambda>_ w'. dmsg_inv dl w' held)) w"
  proof (rule msg_alloc_wp [OF inv st(1) par cm size'])
    fix v and msg :: dmsg_msg and pst
    assume v: "dmsg_inv dl v (?s # held)" "heap v ?s = Some (st\<lparr>refs := refs st + 1\<rparr>)" and m: "m_state msg = ?s"
      "aux_size msg = asize"
      and "\<exists>n. v = set_mtx (iocom st) n (w\<lparr>heap := (heap w)(?s := Some (st\<lparr>refs := refs st + 1\<rparr>))\<rparr>)"
    then obtain n where n: "v = set_mtx i n (w\<lparr>heap := (heap w)(?s := Some (st\<lparr>refs := refs st + 1\<rparr>))\<rparr>)"
      using st(3) by auto
    let ?m = "msg\<lparr>head := hdr, ext := ex, aux_data := ax\<rparr>"
    have rx: "rx_ok i ?m v = rx_ok i (carried hdr) w"
      unfolding n rx_ok_mtx rx_ok_refs [OF st(1)] by (rule rx_ok_head) (simp add: carried_def)
    have "f \<noteq> ?s" using left st by auto
    then have "heap v f = None" using left n by simp
    then have "heap v (malloc_state env (heap v)) = None" using malloc unfolding malloc_ok_def by blast
    then have "wlp (rx_ends dl (rx_ok i ?m v)) (receive env ?m) (\<lambda>_ w'. dmsg_inv dl w' held) v"
      using v m n st own aux
      by (intro receive_end [where rst = "st\<lparr>refs := refs st + 1\<rparr>"]) (auto simp: aux_ok_def carried_def split: option.splits)
    then show "wlp ?E (receive env ?m) (\<lambda>_ w'. dmsg_inv dl w' held) v" by (simp only: rx)
  qed
  then have "wlp ?E (dmsg_msg_alloc env ?s asize ?cm None 0)
      (\<lambda>msg. wlp ?E (receive env (msg\<lparr>head := hdr, ext := ex, aux_data := ax\<rparr>)) (\<lambda>_ w'. dmsg_inv dl w' held)) w"
    by (rule dwp_ends)
  then show ?thesis by (simp add: deliver_def wlp_simps)
qed

end

section \<open>Events and reachable states\<close>









lemma service_keeps:
  assumes "\<forall>dl env. handlers_ok dl (H env)"
  shows "keeps_msg dl (rcvmsg_callback (service_env (Suc depth) n e H))"
  using assms service_rxmsg_keeps by (simp add: Let_def)



text \<open>
  Two users: the callback a connection starts with, which ignores what it gets, and the debug shell
  without the SPAN protocol.
\<close>

definition auth_env :: "dmsg_env \<Rightarrow> dmsg_env" where
  "auth_env e = e\<lparr>rcvmsg_callback := master_auth_rxmsg\<rparr>"

definition no_span :: dmsg_handlers where
  "no_span = \<lparr>dmsg_lnk_conn = returnS, dmsg_lnk_span = returnS, dmsg_msg_lnk_signal = (\<lambda>i. returnS ()),
     other_func = (\<lambda>k. returnS), usrmsg_callback = (\<lambda>msg u. returnS msg)\<rparr>"

lemma no_span_shell: "\<forall>dl env. handlers_ok dl (shell_handlers n no_span env)"
  by (intro allI shell_handlers_ok) (simp add: handlers_ok_def no_span_def keeps_msg_return dwp_simps)

interpretation auth: dmsg_user dl "auth_env e" for dl e
  by unfold_locales (simp add: auth_env_def auth_rxmsg_keeps)

interpretation shell: dmsg_user dl "service_env (Suc depth) n e (shell_handlers n no_span)" for dl depth n e
  by unfold_locales (rule service_keeps [OF no_span_shell])

section \<open>Runs\<close>

text \<open>Symbolic execution: the definitions a run goes through.\<close>

lemmas mem_defs = bindS_def returnS_def stopS_def getS_def modifyS_def assertS_def whenS_def deref_def put_def
  upd_def upd_com_def nonnull_def pthread_mutex_lock_def pthread_mutex_unlock_def dmsg_state_hold_def
  dmsg_state_drop_def dmsg_state_free_def dmsg_msg_free_locked_def dmsg_msg_free_def alloc_state_def
  subq_insert_tail_def RB_INSERT_def subq_remove_def RB_REMOVE_rd_def RB_REMOVE_wr_def init_state0_def new_state_def

lemmas alloc_defs = dmsg_msg_alloc_def dmsg_msg_alloc_locked_def msg_alloc_state_def msg_fill_def
  DMSG_ALIGN_def create_command msg_flags_def set_cmd_def m_cmd_def

lemmas rx_defs = deliver_def receive_def dmsg_state_msgrx_def msgrx_dispatch_def msgrx_pstate_def
  msgrx_lookup_def msgrx_found_def msgrx_switch_def msgrx_create_def msgrx_finish_def msgrx_delete_def
  msgrx_tcmd_def DMSG_IOQ_ERROR_EALREADY_def run_callback_def dmsg_state_cleanuprx_def

lemmas tx_defs = dmsg_msg_reply_def dmsg_msg_answer_def send_error_def dmsg_msg_write_def write_prepare_def
  dmsg_state_cleanuptx_def cleanuptx_delete_def dmsg_subq_delete_def drop_relay_def deferred_abort_def

lemma bit_size: "bit DMSGF_SIZE n \<longleftrightarrow> n < 8"
proof -
  have m: "DMSGF_SIZE = mask 8" by (simp add: DMSGF_SIZE_def mask_eq_exp_minus_1)
  show ?thesis unfolding m bit_mask_iff by auto
qed

lemma lnk_conn_flags:
  "\<not> bit DMSG_LNK_CONN 31" "\<not> bit DMSG_LNK_CONN 30" "\<not> bit DMSG_LNK_CONN 29"
  "\<not> bit DMSG_LNK_CONN 28" "\<not> bit DMSG_LNK_CONN 27" "\<not> bit DMSG_LNK_CONN 26"
  "Suc 0 \<le> unat ((DMSG_LNK_CONN OR DMSGF_CREATE) AND DMSGF_SIZE)"
  by code_simp+

lemma lnk_error_flags:
  "\<not> bit DMSG_LNK_ERROR 31" "\<not> bit DMSG_LNK_ERROR 30" "\<not> bit DMSG_LNK_ERROR 29"
  "\<not> bit DMSG_LNK_ERROR 28" "\<not> bit DMSG_LNK_ERROR 27" "\<not> bit DMSG_LNK_ERROR 26"
  "Suc 0 \<le> unat ((DMSG_LNK_ERROR OR DMSGF_REPLY OR DMSGF_DELETE) AND DMSGF_SIZE)"
  "Suc 0 \<le> unat ((DMSG_LNK_ERROR OR DMSGF_DELETE) AND DMSGF_SIZE)"
  by code_simp+

text \<open>The protocol of a transaction is that of the message that opens it.\<close>

lemma icmd_protos: "(x AND NOT DMSGF_DELETE AND DMSGF_BASECMDMASK) AND DMSGF_PROTOS = x AND DMSGF_PROTOS"
proof -
  have "NOT DMSGF_DELETE AND DMSGF_BASECMDMASK AND DMSGF_PROTOS = DMSGF_PROTOS" by code_simp
  then show ?thesis by (simp only: and.assoc)
qed

lemma tcmd_foreign:
  assumes "x AND DMSGF_PROTOS \<notin> {DMSG_PROTO_LNK, DMSG_PROTO_DBG}"
    and "c \<in> {DMSG_DBG_SHELL, DMSG_DBG_SHELL OR DMSGF_REPLY, DMSG_LNK_CONN OR DMSGF_CREATE,
      DMSG_LNK_CONN OR DMSGF_DELETE}"
  shows "(x AND NOT DMSGF_DELETE AND DMSGF_BASECMDMASK) AND DMSGF_BASECMDMASK OR
    x AND (DMSGF_CREATE OR DMSGF_DELETE OR DMSGF_REPLY) \<noteq> c" (is "?t \<noteq> c")
proof
  assume "?t = c"
  have "(NOT DMSGF_DELETE AND DMSGF_BASECMDMASK AND DMSGF_BASECMDMASK AND DMSGF_PROTOS = DMSGF_PROTOS) \<and>
    ((DMSGF_CREATE OR DMSGF_DELETE OR DMSGF_REPLY) AND DMSGF_PROTOS = 0)" by code_simp
  then have "?t AND DMSGF_PROTOS = x AND DMSGF_PROTOS"
    by (simp add: bit.conj_disj_distrib2 and.assoc)
  moreover have "\<forall>c \<in> set [DMSG_DBG_SHELL, DMSG_DBG_SHELL OR DMSGF_REPLY, DMSG_LNK_CONN OR DMSGF_CREATE,
      DMSG_LNK_CONN OR DMSGF_DELETE]. c AND DMSGF_PROTOS = DMSG_PROTO_LNK \<or> c AND DMSGF_PROTOS = DMSG_PROTO_DBG"
    by code_simp
  ultimately show False using assms \<open>?t = c\<close> by force
qed

text \<open>A process with one connection, right after \<open>dmsg_iocom_init\<close>; \<open>n\<close> references to \<open>state0\<close>.\<close>

definition one_connection :: "mutex_kind \<Rightarrow> nat \<Rightarrow> ptr \<Rightarrow> (nat \<Rightarrow> dmsg_iocom) \<Rightarrow> int \<Rightarrow> nat \<Rightarrow> dmsg_world" where
  "one_connection kind i p c k n = \<lparr>heap = [p \<mapsto> (init_state0 i p)\<lparr>refs := n\<rparr>],
     coms = c(i := new_iocom kind p), dmsg_state_count = k\<rparr>"


text \<open>The same connection when the service has installed the link protocol.\<close>

definition link_connection :: "mutex_kind \<Rightarrow> nat \<Rightarrow> ptr \<Rightarrow> (nat \<Rightarrow> dmsg_iocom) \<Rightarrow> int \<Rightarrow> nat \<Rightarrow> nat \<Rightarrow> dmsg_world" where
  "link_connection kind i p c k n u = \<lparr>heap = [p \<mapsto> (init_state0 i p)\<lparr>refs := n\<rparr>],
     coms = c(i := (new_iocom kind p)\<lparr>wakeups := u, signal_callback := Some Master_link_signal,
       rcvmsg_func := Master_link_rxmsg\<rparr>), dmsg_state_count = k\<rparr>"

lemmas sim_defs = link_connection_def one_connection_def mem_defs alloc_defs rx_defs tx_defs flag_simps bit_xor_iff bit_size
  lnk_error_flags Let_def transmitted_def open_trans_def numeral_2_eq_2

lemmas service_defs = core_signal_def master_auth_signal_def dmsg_iocom_restate_def service_rxmsg_def
  master_auth_conn_rx_def master_link_rxmsg_def state_func_call_def shell_msghandler_def shell_handlers_def




text \<open>Concrete values for the witnesses.\<close>

definition free_address :: "(ptr \<Rightarrow> dmsg_state option) \<Rightarrow> ptr" where
  "free_address h = (if h 1 = None then 1 else if h 2 = None then 2 else (SOME p. h p = None))"

definition ex_env :: dmsg_env where
  "ex_env = \<lparr>malloc_state = free_address, garbage = \<lambda>_. 0, rcvmsg_callback = returnS\<rparr>"

definition ex_coms :: "nat \<Rightarrow> dmsg_iocom" where
  "ex_coms = (\<lambda>_. (new_iocom Mutex_Recursive 0)\<lparr>swork := False\<rparr>)"

definition ex_hdr :: "u32 \<Rightarrow> u64 \<Rightarrow> u64 \<Rightarrow> dmsg_hdr" where
  "ex_hdr cm k circ = zero_hdr\<lparr>cmd := DMSG_LNK_ERROR OR cm, msgid := k, circuit := circ\<rparr>"

abbreviation ex_world :: "mutex_kind \<Rightarrow> dmsg_world" where
  "ex_world kind \<equiv> one_connection kind 0 1 ex_coms 0 1"


lemma ex_malloc_2: "malloc_state ex_env [1 \<mapsto> st] = 2"
  by (simp add: ex_env_def free_address_def)


lemma lnk_error_size: "unat ((DMSG_LNK_ERROR OR cm) AND DMSGF_SIZE) \<ge> 1"
proof -
  have "bit ((DMSG_LNK_ERROR OR cm) AND DMSGF_SIZE) 0"
    by (simp add: flag_simps bit_size DMSG_LNK_ERROR_def DMSG_ALIGN_def bit_simps)
  then have "(DMSG_LNK_ERROR OR cm) AND DMSGF_SIZE \<noteq> 0" by auto
  then show ?thesis by (simp add: unat_gt_0 Suc_le_eq)
qed

lemma ex_hdr_simps [simp]:
  "Suc 0 \<le> unat (cmd (ex_hdr cm k c) AND DMSGF_SIZE)" "circuit (ex_hdr cm k c) = c" "msgid (ex_hdr cm k c) = k"
  "bit (cmd (ex_hdr cm k c)) 31 = bit cm 31" "bit (cmd (ex_hdr cm k c)) 30 = bit cm 30"
  "bit (cmd (ex_hdr cm k c)) 29 = bit cm 29" "bit (cmd (ex_hdr cm k c)) 28 = bit cm 28"
  "bit (cmd (ex_hdr cm k c)) 27 = bit cm 27"
  using lnk_error_size by (simp_all add: ex_hdr_def flag_simps lnk_error_flags)


text \<open>The header of a message of another protocol, with \<open>CREATE\<close> and \<open>DELETE\<close>.\<close>

definition foreign_hdr :: "u64 \<Rightarrow> dmsg_hdr" where
  "foreign_hdr k = zero_hdr\<lparr>cmd := 0xC0200001, msgid := k, circuit := 0\<rparr>"

lemma foreign_hdr_cmd:
  "1 \<le> unat (cmd (foreign_hdr k) AND DMSGF_SIZE) \<and> has (cmd (foreign_hdr k)) DMSGF_CREATE \<and>
   has (cmd (foreign_hdr k)) DMSGF_DELETE \<and> \<not> has (cmd (foreign_hdr k)) DMSGF_REPLY \<and>
   \<not> has (cmd (foreign_hdr k)) DMSGF_REVTRANS \<and> circuit (foreign_hdr k) = 0 \<and>
   cmd (foreign_hdr k) AND DMSGF_PROTOS \<notin> {DMSG_PROTO_LNK, DMSG_PROTO_DBG}"
proof -
  have "1 \<le> unat ((0xC0200001 :: u32) AND DMSGF_SIZE) \<and> has 0xC0200001 DMSGF_CREATE \<and> has 0xC0200001 DMSGF_DELETE \<and>
    \<not> has 0xC0200001 DMSGF_REPLY \<and> \<not> has 0xC0200001 DMSGF_REVTRANS \<and>
    0xC0200001 AND DMSGF_PROTOS \<noteq> DMSG_PROTO_LNK \<and> 0xC0200001 AND DMSGF_PROTOS \<noteq> DMSG_PROTO_DBG" by code_simp
  then show ?thesis by (simp add: foreign_hdr_def)
qed

section \<open>Properties\<close>





text \<open>
  C23: The debug shell answers a transaction that the peer opens and closes with one message, and that is
  none of the link or debug protocol, by one message: an error that closes it too.  Once that is
  transmitted the state is freed and the indexes are empty.  The references to \<open>state0\<close> are two more than
  before: the one of the received message and the one taken for the parent of the new state are never
  given back.  With a mutex of the normal kind the thread waits for itself instead.
\<close>

theorem remote_transaction_retired:
  assumes cmd: "unat (cmd hdr AND DMSGF_SIZE) \<ge> 1" "has (cmd hdr) DMSGF_CREATE" "has (cmd hdr) DMSGF_DELETE"
      "\<not> has (cmd hdr) DMSGF_REPLY" "\<not> has (cmd hdr) DMSGF_REVTRANS" and "circuit hdr = 0"
    and proto: "cmd hdr AND DMSGF_PROTOS \<notin> {DMSG_PROTO_LNK, DMSG_PROTO_DBG}"
    and q: "\<And>st. malloc_state e [p \<mapsto> st] = q" "p \<noteq> q"
  shows "let run = deliver (service_env (Suc depth) N e (shell_handlers N lnk)) i asize hdr ex ax
      (link_connection kind i p c k n u)
    in if kind = Mutex_Normal then run = Inl (Deadlock ''iocom->mtx'')
    else \<exists>w msg. run = Inr ((), w) \<and> heap w q \<noteq> None \<and> txmsgq (coms w i) = [msg] \<and>
      msgid (head msg) = msgid hdr \<and> error (head msg) = DMSG_ERR_NOSUPP \<and>
      has (m_cmd msg) DMSGF_CREATE \<and> has (m_cmd msg) DMSGF_DELETE \<and> has (m_cmd msg) DMSGF_REPLY \<and>
      has (m_cmd msg) DMSGF_REVTRANS \<and>
      transmitted i w = Inr ((), link_connection kind i p c k (n + 2) (u + 1))"
  using assms not_sym [OF q(2)] tcmd_foreign [OF proto]
  by (cases kind) (simp_all add: sim_defs service_defs icmd_protos)

theorem remote_transaction_retired_witness:
  "\<exists>w. bindS (deliver (service_env 1 0 ex_env (shell_handlers 0 no_span)) 0 0 (foreign_hdr 7) [] None)
     (\<lambda>_. transmitted 0) (link_connection Mutex_Recursive 0 1 ex_coms 0 1 2) = Inr ((), w) \<and> heap w 2 = None"
proof -
  let ?env = "service_env (Suc 0) 0 ex_env (shell_handlers 0 no_span)"
  obtain w msg where
    "deliver ?env 0 0 (foreign_hdr 7) [] None (link_connection Mutex_Recursive 0 1 ex_coms 0 1 2) = Inr ((), w)"
    "transmitted 0 w = Inr ((), link_connection Mutex_Recursive 0 1 ex_coms 0 (1 + 2) (2 + 1))"
    using remote_transaction_retired [of "foreign_hdr 7" ex_env 1 2 0 0 no_span 0 0 "[]" None
        Mutex_Recursive ex_coms 0 1 2] ex_malloc_2 foreign_hdr_cmd [of 7]
    by (auto simp: Let_def simp del: service_env.simps)
  then show ?thesis by (simp add: bindS_def link_connection_def del: service_env.simps)
qed

text \<open>
  C24: The transaction of \<open>master_auth_signal\<close>, which the peer answers and closes and \<open>master_auth_conn_rx\<close>
  closes in turn, ends with the heap as it was, and with the functions of the link protocol installed.
  With a mutex of the normal kind the thread waits for itself instead.
\<close>

theorem local_transaction_retired:
  assumes cmd: "unat (cmd hdr AND DMSGF_SIZE) \<ge> 1" "has (cmd hdr) DMSGF_CREATE" "has (cmd hdr) DMSGF_DELETE"
      "has (cmd hdr) DMSGF_REPLY" "has (cmd hdr) DMSGF_REVTRANS" and "circuit hdr = 0" and "msgid hdr = q"
    and q: "\<And>st. malloc_state e [p \<mapsto> st] = q" "p \<noteq> q" and n: "0 < n"
  shows "(let env = service_env (Suc depth) N e H in
      bindS (core_signal N env (H env) i) (\<lambda>_. bindS (transmitted i) (\<lambda>_.
      bindS (deliver env i asize hdr ex ax) (\<lambda>_. transmitted i)))) (one_connection kind i p c k n) =
    (if kind = Mutex_Normal then Inl (Deadlock ''iocom->mtx'') else Inr ((), link_connection kind i p c k n 2))"
proof -
  obtain m where "n = Suc m" using n by (cases n) auto
  with assms not_sym [OF q(2)] show ?thesis
    by (cases kind) (simp_all add: sim_defs service_defs lnk_conn_flags)
qed

theorem local_transaction_retired_witness:
  "\<exists>w. (let env = service_env 1 0 ex_env (shell_handlers 0 no_span) in
      bindS (core_signal 0 env (shell_handlers 0 no_span env) 0) (\<lambda>_. bindS (transmitted 0) (\<lambda>_.
      bindS (deliver env 0 0 (ex_hdr (DMSGF_CREATE OR DMSGF_DELETE OR DMSGF_REPLY OR DMSGF_REVTRANS) 2 0) [] None)
      (\<lambda>_. transmitted 0)))) (ex_world Mutex_Recursive) = Inr ((), w) \<and> heap w = heap (ex_world Mutex_Recursive)"
proof -
  have "(let env = service_env (Suc 0) 0 ex_env (shell_handlers 0 no_span) in
      bindS (core_signal 0 env (shell_handlers 0 no_span env) 0) (\<lambda>_. bindS (transmitted 0) (\<lambda>_.
      bindS (deliver env 0 0 (ex_hdr (DMSGF_CREATE OR DMSGF_DELETE OR DMSGF_REPLY OR DMSGF_REVTRANS) 2 0) [] None)
      (\<lambda>_. transmitted 0)))) (ex_world Mutex_Recursive) =
    (if Mutex_Recursive = Mutex_Normal then Inl (Deadlock ''iocom->mtx'')
     else Inr ((), link_connection Mutex_Recursive 0 1 ex_coms 0 1 2))"
    by (rule local_transaction_retired) (use ex_malloc_2 in \<open>auto simp: flag_simps\<close>)
  then show ?thesis by (simp add: link_connection_def one_connection_def del: service_env.simps)
qed

text \<open>
  C37: With the kind of mutex that waits for itself, the first message without a transaction stops the
  connection: \<open>dmsg_state_cleanuprx\<close> runs with the mutex held and \<open>dmsg_msg_free\<close> locks it again.
\<close>

theorem normal_mutex_deadlock:
  assumes "unat (cmd hdr AND DMSGF_SIZE) \<ge> 1" "\<not> has (cmd hdr) DMSGF_CREATE" "\<not> has (cmd hdr) DMSGF_DELETE"
    "\<not> has (cmd hdr) DMSGF_ABORT" and "circuit hdr = 0"
  shows "deliver (auth_env env) i asize hdr ex ax (one_connection Mutex_Normal i p c k n) =
    Inl (Deadlock ''iocom->mtx'')"
  using assms by (simp add: sim_defs auth_env_def master_auth_rxmsg_def)

theorem normal_mutex_deadlock_witness:
  "deliver (auth_env ex_env) 0 0 (ex_hdr 0 0 0) [] None (one_connection Mutex_Normal 0 1 ex_coms 0 1) =
    Inl (Deadlock ''iocom->mtx'')"
  by (rule normal_mutex_deadlock) (simp_all add: flag_simps)

text \<open>
  C38: A message without a transaction that names a known circuit, and no known message id, fails the
  assertion at the end of \<open>dmsg_state_msgrx\<close>, whatever else the connection is doing.
\<close>

theorem oneoff_over_circuit_asserts:
  assumes "heap w (m_state msg) = Some st" and "iocom st = i" and "mtx (coms w i) = 0"
    and "msgrx_pstate (coms w i) msg = Some q" and "msgrx_lookup (coms w i) msg = None"
    and "heap w q = Some qst" and "q \<noteq> m_state msg"
    and "\<not> has (m_cmd msg) DMSGF_CREATE" "\<not> has (m_cmd msg) DMSGF_DELETE"
  shows "dmsg_state_msgrx env msg False w = Inl (Assert_failed ''msgrx: msg->state == state'')"
proof -
  have "msgrx_pstate ((coms w i)\<lparr>mtx := 1\<rparr>) msg = Some q" "msgrx_lookup ((coms w i)\<lparr>mtx := 1\<rparr>) msg = None"
    using assms(4,5) by (simp_all add: msgrx_pstate_def msgrx_lookup_def split: if_splits)
  with assms show ?thesis
    by (simp add: dmsg_state_msgrx_def msgrx_dispatch_def msgrx_found_def msgrx_switch_def msgrx_missing_def
        msgrx_finish_def mem_defs Let_def)
qed

theorem oneoff_over_circuit_asserts_witness:
  "\<exists>w. dmsg_state_msgrx ex_env ((carried (ex_hdr 0 9 2))\<lparr>m_state := 1\<rparr>) False w =
     Inl (Assert_failed ''msgrx: msg->state == state'')"
proof (rule exI, rule oneoff_over_circuit_asserts [where q = 2 and i = 0])
  let ?w = "\<lparr>heap = [1 \<mapsto> init_state0 0 1, 2 \<mapsto> new_state], coms = ex_coms(0 := (new_iocom Mutex_Recursive 1)
    \<lparr>staterd_tree := [2 \<mapsto> 2]\<rparr>), dmsg_state_count = 1\<rparr>"
  show "heap ?w (m_state ((carried (ex_hdr 0 9 2))\<lparr>m_state := 1\<rparr>)) = Some (init_state0 0 1)" by simp
  show "heap ?w 2 = Some new_state" by simp
qed (simp_all add: carried_def m_cmd_def msgrx_pstate_def msgrx_lookup_def init_state0_def flag_simps
    ex_hdr_def lnk_error_flags)

text \<open>
  C39: With whatever mutex, when the peer aborts a transaction of this side it has not answered yet, the message is dropped as
  belonging to a transaction that is gone, yet the receive side of the transaction is closed; the callback
  never runs, whatever it is, so the user is not told.
\<close>

theorem early_abort_is_silent:
  assumes cm: "unat (cm AND DMSGF_SIZE) \<ge> 1" "has cm DMSGF_CREATE" "\<not> has cm DMSGF_DELETE" "\<not> has cm DMSGF_REPLY"
    and cmd: "unat (cmd hdr AND DMSGF_SIZE) \<ge> 1" "\<not> has (cmd hdr) DMSGF_CREATE" "has (cmd hdr) DMSGF_DELETE"
      "has (cmd hdr) DMSGF_REPLY" "has (cmd hdr) DMSGF_ABORT" "has (cmd hdr) DMSGF_REVTRANS"
      "circuit hdr = 0" "msgid hdr = q"
    and q: "\<And>st. malloc_state env [p \<mapsto> st] = q" "p \<noteq> q" and n: "0 < n"
  shows "\<exists>w st. bindS (open_trans N env p cm fn) (\<lambda>_.
      deliver (env\<lparr>rcvmsg_callback := cb\<rparr>) i asize hdr ex ax) (one_connection kind i p c k n) = Inr ((), w) \<and>
    heap w q = Some st \<and> rx_closed st \<and> \<not> tx_closed st \<and> statewr_tree (coms w i) q = Some q"
proof -
  obtain m where "n = Suc m" using n by (cases n) auto
  with assms not_sym [OF q(2)] show ?thesis
    by (cases kind) (simp_all add: sim_defs msgrx_missing_def)
qed

theorem early_abort_is_silent_witness:
  "\<exists>w st. bindS (open_trans 0 ex_env 1 (DMSG_LNK_ERROR OR DMSGF_CREATE) None) (\<lambda>_.
      deliver (ex_env\<lparr>rcvmsg_callback := master_auth_rxmsg\<rparr>) 0 0
        (ex_hdr (DMSGF_DELETE OR DMSGF_REPLY OR DMSGF_ABORT OR DMSGF_REVTRANS) 2 0) [] None) (ex_world Mutex_Normal) = Inr ((), w) \<and>
    heap w 2 = Some st \<and> rx_closed st \<and> \<not> tx_closed st \<and> statewr_tree (coms w 0) 2 = Some 2"
  by (rule early_abort_is_silent)
    (use ex_malloc_2 lnk_error_size in \<open>simp_all add: flag_simps lnk_error_flags\<close>)

end
