(* ===== verification/Dmsg_Wire.thy ===== *)
theory Dmsg_Wire
  imports Dmsg_State Crc32
begin

text \<open>
  The byte stream of \<open>lib/libdmsg/msg.c\<close>: the header on the wire, the staging buffer of a connection,
  the reception of a message in phases from whatever pieces \<open>read\<close> returns, and the transmission of a
  queue by \<open>writev\<close> calls that may write a part only.
\<close>

section \<open>The header on the wire\<close>

definition hdr_bytes :: "dmsg_hdr \<Rightarrow> u8 list" where
  "hdr_bytes h = le_bytes 2 (magic h) @ le_bytes 2 (reserved02 h) @ le_bytes 4 (salt h) @
     le_bytes 8 (msgid h) @ le_bytes 8 (circuit h) @ le_bytes 8 (link_verifier h) @
     le_bytes 4 (cmd h) @ le_bytes 4 (aux_crc h) @ le_bytes 4 (aux_bytes h) @ le_bytes 4 (error h) @
     le_bytes 8 (aux_descr h) @ le_bytes 4 (reserved38 h) @ le_bytes 4 (hdr_crc h)"

definition field :: "nat \<Rightarrow> nat \<Rightarrow> u8 list \<Rightarrow> 'a::len word" where
  "field off n bs = le_word (take n (drop off bs))"

definition hdr_of :: "u8 list \<Rightarrow> dmsg_hdr" where
  "hdr_of bs = \<lparr>magic = field 0x00 2 bs, reserved02 = field 0x02 2 bs, salt = field 0x04 4 bs,
     msgid = field 0x08 8 bs, circuit = field 0x10 8 bs, link_verifier = field 0x18 8 bs,
     cmd = field 0x20 4 bs, aux_crc = field 0x24 4 bs, aux_bytes = field 0x28 4 bs, error = field 0x2C 4 bs,
     aux_descr = field 0x30 8 bs, reserved38 = field 0x38 4 bs, hdr_crc = field 0x3C 4 bs\<rparr>"

definition bswap16 :: "u16 \<Rightarrow> u16" where "bswap16 x = le_word (rev (le_bytes 2 x))"
definition bswap32 :: "u32 \<Rightarrow> u32" where "bswap32 x = le_word (rev (le_bytes 4 x))"
definition bswap64 :: "u64 \<Rightarrow> u64" where "bswap64 x = le_word (rev (le_bytes 8 x))"

definition dmsg_bswap_head :: "dmsg_hdr \<Rightarrow> dmsg_hdr" where
  "dmsg_bswap_head h = \<lparr>magic = bswap16 (magic h), reserved02 = bswap16 (reserved02 h), salt = bswap32 (salt h),
     msgid = bswap64 (msgid h), circuit = bswap64 (circuit h), link_verifier = bswap64 (link_verifier h),
     cmd = bswap32 (cmd h), aux_crc = bswap32 (aux_crc h), aux_bytes = bswap32 (aux_bytes h),
     error = bswap32 (error h), aux_descr = bswap64 (aux_descr h), reserved38 = bswap32 (reserved38 h),
     hdr_crc = bswap32 (hdr_crc h)\<rparr>"

text \<open>The address of the data does not matter to the checksum.\<close>

definition dmsg_icrc32 :: "u8 list \<Rightarrow> u32" where
  "dmsg_icrc32 buf = iscsi_crc32 0 buf"

text \<open>\<open>DMSG_DOALIGN\<close> of a \<open>uint32_t\<close>.\<close>

definition DMSG_DOALIGN32 :: "u32 \<Rightarrow> u32" where
  "DMSG_DOALIGN32 bytes = (bytes + 63) AND NOT 63"


section \<open>A connection's stream\<close>

datatype msgq_state = MSGQ_HEADER1 | MSGQ_HEADER2 | MSGQ_AUXDATA1 | MSGQ_AUXDATA2 | MSGQ_ERROR

record dmsg_ioq =
  q_state :: msgq_state
  fifo_beg :: nat
  fifo_cdx :: nat
  fifo_cdn :: nat
  fifo_end :: nat
  q_hbytes :: nat
  q_abytes :: nat
  unaligned_aux_size :: nat
  q_error :: nat
  q_seq :: u32
  msgcount :: int
  q_msg :: "dmsg_msg option"
  msgq :: "dmsg_msg list"
  q_buf :: "u8 list"

text \<open>
  What a call of \<open>read\<close> finds: a piece of the stream, of which it takes as much as it has room for, the
  end of the stream, an error, or an interruption; and what a call of \<open>writev\<close> manages to write.
\<close>

datatype arrival = Data "u8 list" | Read_again | Read_error
datatype departure = Write_some nat | Write_again | Write_error

record dmsg_link =
  ioq_rx :: dmsg_ioq
  ioq_tx :: dmsg_ioq
  io_flags :: u32
  arrivals :: "arrival list"
  departures :: "departure list"
  sock_out :: "u8 list"

type_synonym 'a lio = "(dmsg_link, 'a) io"

definition DMSG_IOCOMF_EOF :: u32 where "DMSG_IOCOMF_EOF = 0x00000001"
definition DMSG_IOCOMF_RREQ :: u32 where "DMSG_IOCOMF_RREQ = 0x00000002"
definition DMSG_IOCOMF_WREQ :: u32 where "DMSG_IOCOMF_WREQ = 0x00000004"
definition DMSG_IOCOMF_RWORK :: u32 where "DMSG_IOCOMF_RWORK = 0x00000008"
definition DMSG_IOCOMF_WWORK :: u32 where "DMSG_IOCOMF_WWORK = 0x00000010"
definition DMSG_IOCOMF_CRYPTED :: u32 where "DMSG_IOCOMF_CRYPTED = 0x00000200"

definition DMSG_IOQ_ERROR_SYNC :: nat where "DMSG_IOQ_ERROR_SYNC = 1"
definition DMSG_IOQ_ERROR_EOF :: nat where "DMSG_IOQ_ERROR_EOF = 2"
definition DMSG_IOQ_ERROR_SOCK :: nat where "DMSG_IOQ_ERROR_SOCK = 3"
definition DMSG_IOQ_ERROR_FIELD :: nat where "DMSG_IOQ_ERROR_FIELD = 4"
definition DMSG_IOQ_ERROR_XCRC :: nat where "DMSG_IOQ_ERROR_XCRC = 6"
definition DMSG_IOQ_ERROR_ACRC :: nat where "DMSG_IOQ_ERROR_ACRC = 7"
definition DMSG_IOQ_ERROR_MSGSEQ :: nat where "DMSG_IOQ_ERROR_MSGSEQ = 15"
definition DMSG_IOQ_ERROR_ALGO :: nat where "DMSG_IOQ_ERROR_ALGO = 20"
definition DMSG_IOQ_MAXIOVEC :: nat where "DMSG_IOQ_MAXIOVEC = 16"
definition DMSG_CRYPTO_CHUNK_SIZE :: nat where "DMSG_CRYPTO_CHUNK_SIZE = DMSG_ALIGN"

definition dmsg_ioq_init :: dmsg_ioq where
  "dmsg_ioq_init = \<lparr>q_state = MSGQ_HEADER1, fifo_beg = 0, fifo_cdx = 0, fifo_cdn = 0, fifo_end = 0,
     q_hbytes = 0, q_abytes = 0, unaligned_aux_size = 0, q_error = 0, q_seq = 0, msgcount = 0,
     q_msg = None, msgq = [], q_buf = replicate DMSG_BUF_SIZE 0\<rparr>"

definition upd_rx :: "(dmsg_ioq \<Rightarrow> dmsg_ioq) \<Rightarrow> unit lio" where
  "upd_rx f = modifyS (\<lambda>l. l\<lparr>ioq_rx := f (ioq_rx l)\<rparr>)"

definition upd_tx :: "(dmsg_ioq \<Rightarrow> dmsg_ioq) \<Rightarrow> unit lio" where
  "upd_tx f = modifyS (\<lambda>l. l\<lparr>ioq_tx := f (ioq_tx l)\<rparr>)"

definition set_flags :: "u32 \<Rightarrow> unit lio" where
  "set_flags f = modifyS (\<lambda>l. l\<lparr>io_flags := io_flags l OR f\<rparr>)"

definition clear_flags :: "u32 \<Rightarrow> unit lio" where
  "clear_flags f = modifyS (\<lambda>l. l\<lparr>io_flags := io_flags l AND NOT f\<rparr>)"


section \<open>The staging buffer\<close>

text \<open>
  \<open>fifo_beg\<close> to \<open>fifo_cdx\<close> is processed data, \<open>fifo_cdn\<close> to \<open>fifo_end\<close> data not yet decrypted.  The result
  is the room after \<open>fifo_end\<close>.
\<close>

definition dmsg_ioq_makeroom :: "dmsg_ioq \<Rightarrow> nat \<Rightarrow> nat \<times> dmsg_ioq" where
  "dmsg_ioq_makeroom q needed =
     (let bytes = fifo_cdx q - fifo_beg q;
          nmax = length (q_buf q) - fifo_end q in
      if bytes + nmax div 2 < needed then
        let buf = (if bytes \<noteq> 0 then overwrite (q_buf q) 0 (take bytes (drop (fifo_beg q) (q_buf q))) else q_buf q);
            cdx = fifo_cdx q - fifo_beg q;
            buf = (if fifo_cdn q < fifo_end q
                   then overwrite buf cdx (take (fifo_end q - fifo_cdn q) (drop (fifo_cdn q) buf)) else buf);
            fend = fifo_end q - (fifo_cdn q - cdx) in
        (length buf - fend,
         q\<lparr>fifo_beg := 0, fifo_cdx := cdx, fifo_cdn := cdx, fifo_end := fend, q_buf := buf\<rparr>)
      else (nmax, q))"

definition makeroom :: "nat \<Rightarrow> nat lio" where
  "makeroom needed =
     bindS (getS ioq_rx) (\<lambda>q.
     case dmsg_ioq_makeroom q needed of (nmax, q) \<Rightarrow> bindS (upd_rx (\<lambda>_. q)) (\<lambda>_. returnS nmax))"

text \<open>
  The decryption of one chunk: this port sets \<open>ok = 0\<close> where the IV would be set, so every call fails.
\<close>

definition dmsg_crypto_gcm_decrypt_chunk :: "dmsg_ioq \<Rightarrow> dmsg_ioq \<times> nat" where
  "dmsg_crypto_gcm_decrypt_chunk q = (q\<lparr>q_error := DMSG_IOQ_ERROR_ALGO\<rparr>, 0)"

partial_function (option) crypto_decrypt_loop :: "nat \<Rightarrow> dmsg_ioq \<Rightarrow> dmsg_ioq option" where
  "crypto_decrypt_loop p_len q =
     (if DMSG_CRYPTO_CHUNK_SIZE \<le> p_len then
        case dmsg_crypto_gcm_decrypt_chunk q of (q, used) \<Rightarrow>
          crypto_decrypt_loop (p_len - used)
            (q\<lparr>fifo_cdn := fifo_cdn q + used, fifo_cdx := fifo_cdx q + DMSG_CRYPTO_CHUNK_SIZE\<rparr>)
      else Some q)"

definition dmsg_crypto_decrypt :: "dmsg_ioq \<Rightarrow> dmsg_ioq option" where
  "dmsg_crypto_decrypt q = crypto_decrypt_loop (fifo_end q - fifo_cdn q) q"

definition rx_decrypt :: "unit lio" where
  "rx_decrypt =
     bindS (getS (\<lambda>l. (ioq_rx l, has (io_flags l) DMSG_IOCOMF_CRYPTED))) (\<lambda>(q, crypted).
     if crypted then
       (case dmsg_crypto_decrypt q of
          None \<Rightarrow> stopS (Diverges ''dmsg_crypto_decrypt'')
        | Some q \<Rightarrow> upd_rx (\<lambda>_. q))
     else upd_rx (\<lambda>q. q\<lparr>fifo_cdx := fifo_end q, fifo_cdn := fifo_end q\<rparr>))"

text \<open>\<open>read(iocom->sock_fd, ioq->buf + ioq->fifo_end, nmax)\<close>; the result says whether to go on.\<close>

fun sock_read :: "nat \<Rightarrow> arrival list \<Rightarrow> arrival \<times> arrival list" where
  "sock_read nmax [] = (Read_again, [])"
| "sock_read nmax (Data bs # as) =
     (Data (take nmax bs), if nmax < length bs then Data (drop nmax bs) # as else as)"
| "sock_read nmax (a # as) = (a, as)"

definition rx_error :: "nat \<Rightarrow> unit lio" where
  "rx_error e = upd_rx (\<lambda>q. q\<lparr>q_error := e\<rparr>)"

definition rx_fill :: "nat \<Rightarrow> bool lio" where
  "rx_fill nmax =
     bindS (getS (\<lambda>l. sock_read nmax (arrivals l))) (\<lambda>(r, as).
     bindS (modifyS (\<lambda>l. l\<lparr>arrivals := as\<rparr>)) (\<lambda>_.
     case r of
       Data bs \<Rightarrow>
         if bs = [] then bindS (rx_error DMSG_IOQ_ERROR_EOF) (\<lambda>_. returnS False)
         else
           bindS (getS ioq_rx) (\<lambda>q.
           if fifo_end q + length bs \<le> length (q_buf q) then
             bindS (upd_rx (\<lambda>q. q\<lparr>q_buf := overwrite (q_buf q) (fifo_end q) bs,
               fifo_end := fifo_end q + length bs\<rparr>)) (\<lambda>_. returnS True)
           else stopS (Out_of_bounds ''ioq->buf''))
     | Read_again \<Rightarrow> returnS True
     | Read_error \<Rightarrow> bindS (rx_error DMSG_IOQ_ERROR_SOCK) (\<lambda>_. returnS False)))"


section \<open>Reception\<close>

text \<open>
  The message \<open>dmsg_msg_alloc(&iocom->state0, aux_size, hbytes / DMSG_ALIGN, NULL, NULL)\<close> makes, with
  \<open>s0\<close> the address of \<open>state0\<close>.
\<close>

definition rx_alloc :: "dmsg_env \<Rightarrow> ptr \<Rightarrow> nat \<Rightarrow> nat \<Rightarrow> dmsg_msg" where
  "rx_alloc env s0 asize hbytes =
     \<lparr>m_state = s0, hdr_size = hbytes, aux_size = asize, aux_data = msg_aux env asize, tcmd = 0,
      head = zero_hdr\<lparr>magic := DMSG_HDR_MAGIC, cmd := of_nat (hbytes div DMSG_ALIGN)\<rparr>,
      ext = replicate (hbytes - 64) 0\<rparr>"

definition set_msg :: "dmsg_msg \<Rightarrow> unit lio" where
  "set_msg msg = upd_rx (\<lambda>q. q\<lparr>q_msg := Some msg\<rparr>)"

text \<open>
  The cases of the switch of \<open>dmsg_ioq_read\<close>, each falling through to the next; the result is the local
  variable \<open>msg\<close> at the end of the switch.  \<open>aux_copy\<close> is the copy into the data of the message.
\<close>

definition aux_copy :: "dmsg_msg \<Rightarrow> nat \<Rightarrow> u8 list \<Rightarrow> dmsg_msg lio" where
  "aux_copy msg off bs =
     (case aux_data msg of
        None \<Rightarrow> stopS (Null_deref ''aux_data'')
      | Some aux \<Rightarrow>
          if off + length bs \<le> length aux then
            let msg = msg\<lparr>aux_data := Some (overwrite aux off bs)\<rparr> in
            bindS (set_msg msg) (\<lambda>_. returnS msg)
          else stopS (Out_of_bounds ''aux_data''))"

definition rx_auxdone :: "dmsg_msg \<Rightarrow> dmsg_msg option lio" where
  "rx_auxdone msg =
     bindS (getS ioq_rx) (\<lambda>q.
     if aux_size msg < q_abytes q then returnS None
     else
       bindS (assertS (aux_size msg = q_abytes q) ''ioq_read: aux_size'') (\<lambda>_.
       let msg = msg\<lparr>aux_size := unaligned_aux_size q\<rparr> in
       bindS (set_msg msg) (\<lambda>_.
       bindS (case aux_data msg of
                None \<Rightarrow> stopS (Null_deref ''aux_data'')
              | Some aux \<Rightarrow>
                  whenS (dmsg_icrc32 (take (q_abytes q) aux) \<noteq> aux_crc (head msg))
                    (rx_error DMSG_IOQ_ERROR_ACRC)) (\<lambda>_.
       returnS (Some msg)))))"

definition rx_auxcopy :: "dmsg_msg \<Rightarrow> dmsg_msg lio" where
  "rx_auxcopy msg =
     bindS (getS ioq_rx) (\<lambda>q.
     let bytes = min (fifo_cdx q - fifo_beg q) (q_abytes q - aux_size msg) in
     if bytes \<noteq> 0 then
       bindS (aux_copy msg (aux_size msg) (take bytes (drop (fifo_beg q) (q_buf q)))) (\<lambda>msg.
       let msg = msg\<lparr>aux_size := aux_size msg + bytes\<rparr> in
       bindS (set_msg msg) (\<lambda>_.
       bindS (upd_rx (\<lambda>q. q\<lparr>fifo_beg := fifo_beg q + bytes\<rparr>)) (\<lambda>_.
       returnS msg)))
     else returnS msg)"

definition rx_auxdata2 :: "nat \<Rightarrow> dmsg_msg \<Rightarrow> dmsg_msg option lio" where
  "rx_auxdata2 bytes msg =
     bindS (getS (\<lambda>l. q_abytes (ioq_rx l))) (\<lambda>abytes.
     bindS (makeroom (abytes - aux_size msg)) (\<lambda>nmax.
     bindS (if aux_size msg < abytes then
              bindS (assertS (nmax > 0) ''ioq_read: nmax'') (\<lambda>_.
              bindS (assertS (bytes = 0) ''ioq_read: bytes'') (\<lambda>_.
              rx_fill nmax))
            else returnS True) (\<lambda>goon.
     if \<not> goon then returnS (Some msg)
     else
       bindS rx_decrypt (\<lambda>_.
       bindS (rx_auxcopy msg) rx_auxdone))))"

definition fifo_check :: "unit lio" where
  "fifo_check =
     bindS (getS ioq_rx) (\<lambda>q.
     bindS (assertS (fifo_beg q \<le> fifo_cdx q) ''ioq_read: fifo_cdx'') (\<lambda>_.
     assertS (fifo_cdx q \<le> fifo_cdn q) ''ioq_read: fifo_cdn''))"

definition rx_auxdata1 :: "nat \<Rightarrow> dmsg_msg \<Rightarrow> dmsg_msg option lio" where
  "rx_auxdata1 bytes msg =
     bindS (getS ioq_rx) (\<lambda>q.
     bindS (if q_abytes q \<le> bytes then
              bindS (aux_copy msg 0 (take (q_abytes q) (drop (fifo_beg q) (q_buf q)))) (\<lambda>msg.
              bindS (upd_rx (\<lambda>q. q\<lparr>fifo_beg := fifo_beg q + q_abytes q\<rparr>)) (\<lambda>_.
              bindS fifo_check (\<lambda>_.
              returnS (msg\<lparr>aux_size := q_abytes q\<rparr>, bytes - q_abytes q))))
            else if bytes \<noteq> 0 then
              bindS (aux_copy msg 0 (take bytes (drop (fifo_beg q) (q_buf q)))) (\<lambda>msg.
              bindS (upd_rx (\<lambda>q. q\<lparr>fifo_beg := fifo_beg q + bytes,
                fifo_cdx := max (fifo_cdx q) (fifo_beg q + bytes)\<rparr>)) (\<lambda>_.
              bindS fifo_check (\<lambda>_.
              returnS (msg\<lparr>aux_size := bytes\<rparr>, 0))))
            else returnS (msg\<lparr>aux_size := 0\<rparr>, bytes)) (\<lambda>(msg, bytes).
     bindS (set_msg msg) (\<lambda>_.
     bindS (upd_rx (\<lambda>q. q\<lparr>q_state := MSGQ_AUXDATA2\<rparr>)) (\<lambda>_.
     rx_auxdata2 bytes msg))))"

text \<open>The complete extended header: checksum, byte order, copy into the message.\<close>

definition rx_header_done :: "nat \<Rightarrow> dmsg_msg \<Rightarrow> dmsg_msg option lio" where
  "rx_header_done bytes msg =
     bindS (getS ioq_rx) (\<lambda>q.
     let hbytes = q_hbytes q;
         raw = take hbytes (drop (fifo_beg q) (q_buf q));
         h = hdr_of raw;
         xcrc32 = (if magic h = DMSG_HDR_MAGIC_REV then bswap32 (hdr_crc h) else hdr_crc h) in
     bindS (if dmsg_icrc32 (overwrite raw 0 (hdr_bytes (h\<lparr>hdr_crc := 0\<rparr>))) \<noteq> xcrc32
            then bindS (rx_error DMSG_IOQ_ERROR_XCRC) (\<lambda>_. stopS (Assert_failed ''ioq_read: BAD-XCRC''))
            else returnS ()) (\<lambda>_.
     let h = h\<lparr>hdr_crc := xcrc32\<rparr>;
         h = (if magic h = DMSG_HDR_MAGIC_REV then dmsg_bswap_head h else h);
         raw = overwrite raw 0 (hdr_bytes h);
         msg = msg\<lparr>head := h, ext := drop 64 raw\<rparr> in
     bindS (upd_rx (\<lambda>q. q\<lparr>q_buf := overwrite (q_buf q) (fifo_beg q) raw\<rparr>)) (\<lambda>_.
     bindS (set_msg msg) (\<lambda>_.
     bindS (upd_rx (\<lambda>q. q\<lparr>fifo_beg := fifo_beg q + hbytes\<rparr>)) (\<lambda>_.
     if q_abytes q = 0 then returnS (Some msg)
     else
       bindS (upd_rx (\<lambda>q. q\<lparr>q_state := MSGQ_AUXDATA1\<rparr>)) (\<lambda>_.
       rx_auxdata1 (bytes - hbytes) msg))))))"

definition rx_header2 :: "nat \<Rightarrow> nat \<Rightarrow> dmsg_msg \<Rightarrow> dmsg_msg option lio" where
  "rx_header2 bytes nmax msg =
     bindS (getS (\<lambda>l. q_hbytes (ioq_rx l))) (\<lambda>hbytes.
     bindS (if bytes < hbytes then
              bindS (assertS (nmax > 0) ''ioq_read: nmax'') (\<lambda>_. rx_fill nmax)
            else returnS True) (\<lambda>goon.
     if \<not> goon then returnS (Some msg)
     else
       bindS rx_decrypt (\<lambda>_.
       bindS (getS ioq_rx) (\<lambda>q.
       let bytes = fifo_cdx q - fifo_beg q in
       if bytes < hbytes then returnS None else rx_header_done bytes msg))))"

text \<open>The core header: magic number and sizes, then the message is allocated.\<close>

definition rx_core_header :: "dmsg_env \<Rightarrow> ptr \<Rightarrow> nat \<Rightarrow> dmsg_msg option lio" where
  "rx_core_header env s0 bytes =
     bindS (getS ioq_rx) (\<lambda>q.
     let h = hdr_of (take 64 (drop (fifo_beg q) (q_buf q))) in
     if magic h \<noteq> DMSG_HDR_MAGIC \<and> magic h \<noteq> DMSG_HDR_MAGIC_REV
     then bindS (rx_error DMSG_IOQ_ERROR_SYNC) (\<lambda>_. returnS None)
     else
       let rev = (magic h = DMSG_HDR_MAGIC_REV);
           cm = (if rev then bswap32 (cmd h) else cmd h);
           aux = (if rev then bswap32 (aux_bytes h) else aux_bytes h);
           hbytes = unat (cm AND DMSGF_SIZE) * DMSG_ALIGN;
           abytes = unat (DMSG_DOALIGN32 aux) in
       bindS (upd_rx (\<lambda>q. q\<lparr>q_hbytes := hbytes, q_abytes := abytes, unaligned_aux_size := unat aux\<rparr>)) (\<lambda>_.
       if hbytes < 64 \<or> DMSG_HDR_MAX < hbytes \<or> DMSG_AUX_MAX < abytes
       then bindS (rx_error DMSG_IOQ_ERROR_FIELD) (\<lambda>_. returnS None)
       else
         let msg = rx_alloc env s0 (unat aux) hbytes in
         bindS (set_msg msg) (\<lambda>_.
         bindS (makeroom hbytes) (\<lambda>nmax.
         bindS (upd_rx (\<lambda>q. q\<lparr>q_state := MSGQ_HEADER2\<rparr>)) (\<lambda>_.
         rx_header2 bytes nmax msg)))))"

definition rx_header1 :: "dmsg_env \<Rightarrow> ptr \<Rightarrow> nat \<Rightarrow> dmsg_msg option lio" where
  "rx_header1 env s0 bytes =
     bindS (makeroom 64) (\<lambda>nmax.
     bindS (if bytes < 64 then rx_fill nmax else returnS True) (\<lambda>goon.
     if \<not> goon then returnS None
     else
       bindS rx_decrypt (\<lambda>_.
       bindS (getS ioq_rx) (\<lambda>q.
       let bytes = fifo_cdx q - fifo_beg q in
       bindS (assertS (q_msg q = None) ''ioq_read: msg == NULL'') (\<lambda>_.
       if bytes < 64 then returnS None else rx_core_header env s0 bytes)))))"

definition rx_switch :: "dmsg_env \<Rightarrow> ptr \<Rightarrow> dmsg_msg option lio" where
  "rx_switch env s0 =
     bindS (getS ioq_rx) (\<lambda>q.
     let nmax = length (q_buf q) - fifo_end q;
         bytes = fifo_cdx q - fifo_beg q in
     case q_state q of
       MSGQ_HEADER1 \<Rightarrow> rx_header1 env s0 bytes
     | MSGQ_HEADER2 \<Rightarrow>
         (case q_msg q of
            None \<Rightarrow> stopS (Assert_failed ''ioq_read: msg != NULL'')
          | Some msg \<Rightarrow> rx_header2 bytes nmax msg)
     | MSGQ_AUXDATA1 \<Rightarrow>
         (case q_msg q of
            None \<Rightarrow> stopS (Null_deref ''msg'')
          | Some msg \<Rightarrow> rx_auxdata1 bytes msg)
     | MSGQ_AUXDATA2 \<Rightarrow>
         (case q_msg q of
            None \<Rightarrow> stopS (Assert_failed ''ioq_read: msg'')
          | Some msg \<Rightarrow> rx_auxdata2 bytes msg)
     | MSGQ_ERROR \<Rightarrow>
         bindS (assertS (q_msg q = None) ''ioq_read: msg == NULL'') (\<lambda>_. returnS None))"

definition dmsg_iocom_drain :: "dmsg_msg list lio" where
  "dmsg_iocom_drain =
     bindS (clear_flags (DMSG_IOCOMF_WREQ OR DMSG_IOCOMF_WWORK)) (\<lambda>_.
     bindS (getS (\<lambda>l. msgq (ioq_tx l))) (\<lambda>ms.
     bindS (upd_tx (\<lambda>q. q\<lparr>q_hbytes := 0, q_abytes := 0, msgq := [], msgcount := msgcount q - int (length ms)\<rparr>)) (\<lambda>_.
     returnS ms)))"

text \<open>
  One pass of \<open>dmsg_ioq_read\<close> up to the processing of the transaction: nothing yet (\<open>RREQ\<close>), a message,
  or an error of the stream, with the message in progress, which is freed; the transmit queue is drained then.
\<close>

datatype rx_result = Rx_more | Rx_msg dmsg_msg | Rx_error "dmsg_msg option"

definition rx_skip :: "dmsg_msg option \<Rightarrow> rx_result lio" where
  "rx_skip msg =
     bindS (getS (\<lambda>l. q_msg (ioq_rx l))) (\<lambda>m.
     bindS (assertS (m = msg) ''ioq_read: ioq->msg == msg'') (\<lambda>_.
     bindS (upd_rx (\<lambda>q. q\<lparr>q_msg := None, q_state := MSGQ_ERROR\<rparr>)) (\<lambda>_.
     bindS dmsg_iocom_drain (\<lambda>_.
     returnS (Rx_error msg)))))"

definition rx_finish :: "dmsg_msg option \<Rightarrow> rx_result lio" where
  "rx_finish msg =
     bindS (getS ioq_rx) (\<lambda>q.
     bindS (case msg of
              None \<Rightarrow> returnS ()
            | Some m \<Rightarrow>
                whenS (q_error q = 0)
                  (if salt (head m) AND 255 \<noteq> q_seq q AND 255 then rx_error DMSG_IOQ_ERROR_MSGSEQ
                   else upd_rx (\<lambda>q. q\<lparr>q_seq := q_seq q + 1\<rparr>))) (\<lambda>_.
     bindS (getS ioq_rx) (\<lambda>q.
     if q_error q \<noteq> 0 then rx_skip msg
     else
       (case msg of
          None \<Rightarrow> bindS (set_flags DMSG_IOCOMF_RREQ) (\<lambda>_. returnS Rx_more)
        | Some m \<Rightarrow>
            bindS (if fifo_beg q = fifo_cdx q \<and> fifo_cdn q = fifo_end q then
                     bindS (set_flags DMSG_IOCOMF_RREQ) (\<lambda>_.
                     upd_rx (\<lambda>q. q\<lparr>fifo_cdx := 0, fifo_cdn := 0, fifo_beg := 0, fifo_end := 0\<rparr>))
                   else set_flags DMSG_IOCOMF_RWORK) (\<lambda>_.
            bindS (upd_rx (\<lambda>q. q\<lparr>q_state := MSGQ_HEADER1, q_msg := None\<rparr>)) (\<lambda>_.
            returnS (Rx_msg m)))))))"

definition ioq_poll :: "dmsg_env \<Rightarrow> ptr \<Rightarrow> rx_result lio" where
  "ioq_poll env s0 =
     bindS (clear_flags (DMSG_IOCOMF_RREQ OR DMSG_IOCOMF_RWORK)) (\<lambda>_.
     bindS (getS (\<lambda>l. q_error (ioq_rx l))) (\<lambda>e.
     if e \<noteq> 0 then rx_skip None
     else bindS (rx_switch env s0) rx_finish))"


section \<open>Transmission\<close>

definition tx_hbytes :: "dmsg_msg \<Rightarrow> nat" where
  "tx_hbytes msg = unat (m_cmd msg AND DMSGF_SIZE) * DMSG_ALIGN"

definition tx_abytes :: "dmsg_msg \<Rightarrow> nat" where
  "tx_abytes msg = DMSG_DOALIGN (aux_size msg)"

text \<open>The bytes at \<open>&msg->any.head\<close> and at \<open>msg->aux_data\<close>.\<close>

definition head_mem :: "dmsg_msg \<Rightarrow> u8 list" where
  "head_mem msg = hdr_bytes (head msg) @ ext msg"

definition aux_mem :: "dmsg_msg \<Rightarrow> u8 list" where
  "aux_mem msg = (case aux_data msg of None \<Rightarrow> [] | Some aux \<Rightarrow> aux)"

text \<open>
  The fields \<open>dmsg_iocom_flush1\<close> fills in: the sequence number in the low byte of the salt, whose other
  bits \<open>rnd\<close> come from \<open>random\<close>, the checksum of the data if it is 0, and the checksum of the header.
\<close>

definition tx_prepare :: "u32 \<Rightarrow> u32 \<Rightarrow> dmsg_msg \<Rightarrow> dmsg_msg" where
  "tx_prepare rnd sq msg =
     (let h = (head msg)\<lparr>magic := DMSG_HDR_MAGIC, salt := push_bit 8 rnd OR (sq AND 255)\<rparr>;
          h = (if aux_size msg \<noteq> 0 \<and> aux_crc h = 0
               then h\<lparr>aux_crc := dmsg_icrc32 (take (tx_abytes msg) (aux_mem msg))\<rparr> else h);
          h = h\<lparr>aux_bytes := of_nat (aux_size msg), hdr_crc := 0\<rparr>;
          crc = dmsg_icrc32 (take (tx_hbytes msg) (hdr_bytes h @ ext msg)) in
      msg\<lparr>head := h\<lparr>hdr_crc := crc\<rparr>\<rparr>)"

definition flush1_msg :: "(u32 \<Rightarrow> u32) \<Rightarrow> dmsg_msg \<Rightarrow> dmsg_ioq \<Rightarrow> dmsg_ioq" where
  "flush1_msg rnd msg q =
     (if q_error q \<noteq> 0 then q\<lparr>msgq := msgq q @ [msg], msgcount := msgcount q + 1\<rparr>
      else q\<lparr>msgq := msgq q @ [tx_prepare (rnd (q_seq q)) (q_seq q) msg], q_seq := q_seq q + 1,
        msgcount := msgcount q + 1\<rparr>)"

text \<open>The vector of pieces: at most \<open>DMSG_IOQ_MAXIOVEC\<close>, each at most half the staging buffer.\<close>

fun build_iov :: "nat \<Rightarrow> nat \<Rightarrow> nat \<Rightarrow> nat \<Rightarrow> dmsg_msg list \<Rightarrow> u8 list list run" where
  "build_iov lim cnt hoff aoff [] = Inr []"
| "build_iov lim cnt hoff aoff (msg # msgs) =
     (let hbytes = tx_hbytes msg; abytes = tx_abytes msg;
          aux = (\<lambda>cnt.
            if aoff < abytes then
              let maxlen = min (abytes - aoff) lim in
              (case aux_data msg of
                 None \<Rightarrow> Inl (Assert_failed ''flush2: aux_data'')
               | Some bs \<Rightarrow>
                   let piece = take maxlen (drop aoff bs) in
                   if cnt + 1 = DMSG_IOQ_MAXIOVEC \<or> maxlen \<noteq> abytes - aoff then Inr [piece]
                   else bind_run (build_iov lim (cnt + 1) 0 0 msgs) (\<lambda>v. Inr (piece # v)))
            else build_iov lim cnt 0 0 msgs) in
      if hoff \<le> hbytes \<and> aoff \<le> abytes then
        if hoff < hbytes then
          let maxlen = min (hbytes - hoff) lim; piece = take maxlen (drop hoff (head_mem msg)) in
          if cnt + 1 = DMSG_IOQ_MAXIOVEC \<or> maxlen \<noteq> hbytes - hoff then Inr [piece]
          else bind_run (aux (cnt + 1)) (\<lambda>v. Inr (piece # v))
        else aux cnt
      else Inl (Assert_failed ''flush2: hoff, aoff''))"

text \<open>\<open>writev\<close>: the number of bytes written, or an error, with the rest of the script.\<close>

definition sock_writev :: "u8 list list \<Rightarrow> departure lio" where
  "sock_writev iov =
     bindS (getS departures) (\<lambda>ds.
     case ds of
       [] \<Rightarrow> returnS Write_again
     | Write_some n # ds \<Rightarrow>
         let bs = take n (concat iov) in
         bindS (modifyS (\<lambda>l. l\<lparr>departures := ds, sock_out := sock_out l @ bs\<rparr>)) (\<lambda>_.
         returnS (Write_some (length bs)))
     | d # ds \<Rightarrow> bindS (modifyS (\<lambda>l. l\<lparr>departures := ds\<rparr>)) (\<lambda>_. returnS d))"

text \<open>
  \<open>dmsg_crypto_encrypt\<close>, whose chunk function fails as that of the decryption does: the plaintext counts
  as consumed, nothing is added to the staging buffer.
\<close>

function encrypt_piece :: "nat \<Rightarrow> nat \<Rightarrow> nat" where
  "encrypt_piece nmax p_len =
     (if DMSG_CRYPTO_CHUNK_SIZE \<le> p_len \<and> DMSG_CRYPTO_CHUNK_SIZE \<le> nmax
      then DMSG_CRYPTO_CHUNK_SIZE + encrypt_piece nmax (p_len - DMSG_CRYPTO_CHUNK_SIZE) else 0)"
  by pat_completeness auto
termination
  by (relation "measure snd") (auto simp: DMSG_CRYPTO_CHUNK_SIZE_def DMSG_ALIGN_def)

declare encrypt_piece.simps [simp del]

definition dmsg_crypto_encrypt :: "dmsg_ioq \<Rightarrow> u8 list list \<Rightarrow> (nat \<times> dmsg_ioq \<times> u8 list list) run" where
  "dmsg_crypto_encrypt q iov =
     (let nmax = length (q_buf q) - fifo_end q;
          nact = sum_list (map (\<lambda>bs. encrypt_piece nmax (length bs)) iov);
          q = (if nact = 0 then q else q\<lparr>q_error := DMSG_IOQ_ERROR_ALGO\<rparr>) in
      if nmax \<noteq> 0 \<and> (\<exists>bs\<in>set iov. length bs mod DMSG_ALIGN \<noteq> 0) then Inl (Assert_failed ''encrypt: p_len'')
      else Inr (nact, q, [take (fifo_cdx q - fifo_beg q) (drop (fifo_beg q) (q_buf q))]))"

text \<open>The messages that are sent completely leave the queue: what is left of \<open>nact\<close>, and these messages.\<close>

fun tx_clean :: "nat \<Rightarrow> nat \<Rightarrow> nat \<Rightarrow> dmsg_msg list \<Rightarrow> nat \<times> nat \<times> nat \<times> dmsg_msg list \<times> dmsg_msg list" where
  "tx_clean nact hb ab [] = (nact, hb, ab, [], [])"
| "tx_clean nact hb ab (msg # msgs) =
     (if nact < tx_hbytes msg - hb then (0, hb + nact, ab, msg # msgs, [])
      else
        let nact = nact - (tx_hbytes msg - hb) in
        if nact < tx_abytes msg - ab then (0, tx_hbytes msg, ab + nact, msg # msgs, [])
        else
          (case tx_clean (nact - (tx_abytes msg - ab)) 0 0 msgs of
             (n, hb, ab, rest, done) \<Rightarrow> (n, hb, ab, rest, msg # done)))"

text \<open>
  \<open>dmsg_iocom_flush2\<close>; \<open>pending\<close> says whether \<open>iocom->txmsgq\<close> has messages.  The result is the list of the
  messages that are freed.
\<close>

definition flush2_write :: "u8 list list \<Rightarrow> (nat \<times> departure) lio" where
  "flush2_write iov =
     bindS (getS (\<lambda>l. (ioq_tx l, has (io_flags l) DMSG_IOCOMF_CRYPTED))) (\<lambda>(q, crypted).
     if crypted then
       let q = (if length (q_buf q) div 2 < fifo_beg q \<and> length (q_buf q) - fifo_end q < DMSG_ALIGN * 2 then
                  q\<lparr>q_buf := overwrite (q_buf q) 0 (take (fifo_end q - fifo_beg q) (drop (fifo_beg q) (q_buf q))),
                    fifo_cdx := fifo_cdx q - fifo_beg q, fifo_cdn := fifo_cdn q - fifo_beg q,
                    fifo_end := fifo_end q - fifo_beg q, fifo_beg := 0\<rparr>
                else q) in
       bindS (liftS (dmsg_crypto_encrypt q iov)) (\<lambda>(nact, q, iov).
          bindS (upd_tx (\<lambda>_. q)) (\<lambda>_.
          bindS (sock_writev iov) (\<lambda>n.
          bindS (case n of
                   Write_some n \<Rightarrow>
                     whenS (n > 0) (upd_tx (\<lambda>q.
                       if fifo_beg q + n = fifo_end q
                       then q\<lparr>fifo_beg := 0, fifo_cdn := 0, fifo_cdx := 0, fifo_end := 0\<rparr>
                       else q\<lparr>fifo_beg := fifo_beg q + n\<rparr>))
                 | _ \<Rightarrow> returnS ()) (\<lambda>_.
          returnS (nact, n)))))
     else
       bindS (sock_writev iov) (\<lambda>n.
       returnS (case n of Write_some k \<Rightarrow> k | _ \<Rightarrow> 0, n)))"

definition flush2_result :: "bool \<Rightarrow> departure \<Rightarrow> dmsg_msg list lio" where
  "flush2_result pending n =
     (case n of
        Write_error \<Rightarrow>
          bindS (upd_tx (\<lambda>q. q\<lparr>q_error := DMSG_IOQ_ERROR_SOCK\<rparr>)) (\<lambda>_. dmsg_iocom_drain)
      | Write_again \<Rightarrow> bindS (set_flags DMSG_IOCOMF_WREQ) (\<lambda>_. returnS [])
      | Write_some _ \<Rightarrow>
          bindS (getS ioq_tx) (\<lambda>q.
          bindS (whenS (msgq q \<noteq> [] \<or> pending \<or> fifo_beg q \<noteq> fifo_cdx q) (set_flags DMSG_IOCOMF_WWORK)) (\<lambda>_.
          returnS [])))"

definition flush2_clean :: "bool \<Rightarrow> nat \<Rightarrow> departure \<Rightarrow> dmsg_msg list lio" where
  "flush2_clean pending nact n =
     bindS (getS ioq_tx) (\<lambda>q.
     case tx_clean nact (q_hbytes q) (q_abytes q) (msgq q) of (nact, hb, ab, rest, sent) \<Rightarrow>
       bindS (upd_tx (\<lambda>q. q\<lparr>q_hbytes := hb, q_abytes := ab, msgq := rest,
         msgcount := msgcount q - int (length sent)\<rparr>)) (\<lambda>_.
       bindS (assertS (nact = 0) ''flush2: nact'') (\<lambda>_.
       bindS (flush2_result pending n) (\<lambda>drained.
       bindS (getS (\<lambda>l. q_error (ioq_tx l))) (\<lambda>e.
       bindS (if e \<noteq> 0 then dmsg_iocom_drain else returnS []) (\<lambda>drained'.
       returnS (sent @ drained @ drained')))))))"

definition dmsg_iocom_flush2 :: "bool \<Rightarrow> dmsg_msg list lio" where
  "dmsg_iocom_flush2 pending =
     bindS (getS ioq_tx) (\<lambda>q.
     if q_error q \<noteq> 0 then dmsg_iocom_drain
     else
       bindS (liftS (build_iov (length (q_buf q) div 2) 0 (q_hbytes q) (q_abytes q) (msgq q))) (\<lambda>iov.
       if iov = [] \<and> fifo_beg q = fifo_cdx q then returnS []
       else
         bindS (flush2_write iov) (\<lambda>(nact, n). flush2_clean pending nact n)))"

text \<open>\<open>dmsg_iocom_flush1\<close> on the messages taken from \<open>iocom->txmsgq\<close>.\<close>

definition dmsg_iocom_flush1 :: "(u32 \<Rightarrow> u32) \<Rightarrow> dmsg_msg list \<Rightarrow> dmsg_msg list lio" where
  "dmsg_iocom_flush1 rnd msgs =
     bindS (clear_flags (DMSG_IOCOMF_WREQ OR DMSG_IOCOMF_WWORK)) (\<lambda>_.
     bindS (upd_tx (fold (flush1_msg rnd) msgs)) (\<lambda>_.
     dmsg_iocom_flush2 False))"

end
