(* ===== verification/Dmsg_Stream.thy ===== *)
theory Dmsg_Stream
  imports Dmsg_Wire
begin

text \<open>
  Reception from a stream in pieces: whatever pieces the calls of \<open>read\<close> return, the phases of
  \<open>dmsg_ioq_read\<close> put the messages together again.
\<close>

section \<open>The header on the wire\<close>

lemma length_hdr_bytes [simp]: "length (hdr_bytes h) = 64"
  by (simp add: hdr_bytes_def)

lemma hdr_of_bytes [simp]: "hdr_of (hdr_bytes h @ bs) = h"
  by (simp add: hdr_of_def hdr_bytes_def field_def le_word_le_bytes)

lemma hdr_of_take: "64 \<le> n \<Longrightarrow> hdr_of (take n bs) = hdr_of bs"
  by (simp add: hdr_of_def field_def drop_take)

section \<open>The staging buffer\<close>

text \<open>The processed bytes of the staging buffer, and the bytes still to be read.\<close>

definition fifo :: "dmsg_ioq \<Rightarrow> u8 list" where
  "fifo q = take (fifo_cdx q - fifo_beg q) (drop (fifo_beg q) (q_buf q))"

fun arrived :: "arrival list \<Rightarrow> u8 list" where
  "arrived [] = []"
| "arrived (Data bs # as) = bs @ arrived as"
| "arrived (_ # as) = arrived as"

text \<open>A peer that sends data, with interruptions.\<close>

fun flows :: "arrival list \<Rightarrow> bool" where
  "flows [] = True"
| "flows (Data bs # as) \<longleftrightarrow> bs \<noteq> [] \<and> flows as"
| "flows (Read_again # as) \<longleftrightarrow> flows as"
| "flows (Read_error # as) \<longleftrightarrow> False"

definition fifo_ok :: "dmsg_ioq \<Rightarrow> bool" where
  "fifo_ok q \<longleftrightarrow> length (q_buf q) = DMSG_BUF_SIZE \<and> fifo_beg q \<le> fifo_cdx q \<and> fifo_cdn q = fifo_cdx q \<and>
     fifo_end q = fifo_cdx q \<and> fifo_cdx q \<le> DMSG_BUF_SIZE"

lemma length_fifo: "fifo_ok q \<Longrightarrow> length (fifo q) = fifo_cdx q - fifo_beg q"
  by (auto simp: fifo_ok_def fifo_def)

text \<open>The staging buffer with its contents \<open>b\<close>, of which \<open>x\<close> to \<open>e\<close> is data.\<close>

definition staged :: "u8 list \<Rightarrow> nat \<Rightarrow> nat \<Rightarrow> dmsg_ioq \<Rightarrow> dmsg_ioq" where
  "staged b x e q = q\<lparr>fifo_beg := x, fifo_cdx := e, fifo_cdn := e, fifo_end := e, q_buf := b\<rparr>"

lemma staged_simps [simp]:
  "fifo_beg (staged b x e q) = x" "fifo_cdx (staged b x e q) = e" "fifo_cdn (staged b x e q) = e"
  "fifo_end (staged b x e q) = e" "q_buf (staged b x e q) = b"
  "q_state (staged b x e q) = q_state q" "q_hbytes (staged b x e q) = q_hbytes q"
  "q_abytes (staged b x e q) = q_abytes q" "unaligned_aux_size (staged b x e q) = unaligned_aux_size q"
  "q_error (staged b x e q) = q_error q" "q_seq (staged b x e q) = q_seq q" "q_msg (staged b x e q) = q_msg q"
  by (simp_all add: staged_def)

lemma staged_self: "fifo_ok q \<Longrightarrow> staged (q_buf q) (fifo_beg q) (fifo_cdx q) q = q"
  by (simp add: staged_def fifo_ok_def)

lemma staged_staged [simp]: "staged b x e (staged b' x' e' q) = staged b x e q"
  by (simp add: staged_def)

lemma makeroom_staged:
  assumes ok: "fifo_ok q"
  obtains b x e where "dmsg_ioq_makeroom q needed = (DMSG_BUF_SIZE - e, staged b x e q)"
    and "fifo_ok (staged b x e q)" and "fifo (staged b x e q) = fifo q"
    and "needed \<le> length (fifo q) + (DMSG_BUF_SIZE - e) div 2 \<or> e = length (fifo q)"
proof (cases "fifo_cdx q - fifo_beg q + (length (q_buf q) - fifo_end q) div 2 < needed")
  case True
  let ?n = "fifo_cdx q - fifo_beg q"
  let ?b = "if ?n \<noteq> 0 then overwrite (q_buf q) 0 (take ?n (drop (fifo_beg q) (q_buf q))) else q_buf q"
  have len: "length ?b = DMSG_BUF_SIZE" using ok by (simp add: fifo_ok_def)
  show ?thesis
  proof (rule that [of ?n ?b 0])
    show "dmsg_ioq_makeroom q needed = (DMSG_BUF_SIZE - ?n, staged ?b 0 ?n q)"
      using True ok len by (simp add: dmsg_ioq_makeroom_def Let_def staged_def fifo_ok_def)
    show "fifo_ok (staged ?b 0 ?n q)" using ok len by (auto simp: fifo_ok_def)
    show "fifo (staged ?b 0 ?n q) = fifo q"
      using ok by (auto simp: fifo_def fifo_ok_def overwrite_def)
    show "needed \<le> length (fifo q) + (DMSG_BUF_SIZE - ?n) div 2 \<or> ?n = length (fifo q)"
      using length_fifo [OF ok] by simp
  qed
next
  case False
  show ?thesis
    by (rule that [of "fifo_cdx q" "q_buf q" "fifo_beg q"])
      (use False ok length_fifo [OF ok] in \<open>auto simp: dmsg_ioq_makeroom_def staged_self fifo_ok_def\<close>)
qed

text \<open>A step of reception changes the staging buffer and the script of arrivals.\<close>

definition rx_at :: "dmsg_ioq \<Rightarrow> arrival list \<Rightarrow> dmsg_link \<Rightarrow> dmsg_link" where
  "rx_at q as l = l\<lparr>ioq_rx := q, arrivals := as\<rparr>"

lemma rx_at_simps [simp]:
  "ioq_rx (rx_at q as l) = q" "arrivals (rx_at q as l) = as" "io_flags (rx_at q as l) = io_flags l"
  "rx_at q as (rx_at q' as' l) = rx_at q as l" "(rx_at q as l)\<lparr>ioq_rx := q'\<rparr> = rx_at q' as l"
  "(rx_at q as l)\<lparr>arrivals := as'\<rparr> = rx_at q as' l"
  by (simp_all add: rx_at_def)

lemma rx_at_self: "rx_at (ioq_rx l) (arrivals l) l = l"
  by (simp add: rx_at_def)

lemma upd_rx_wp [wp_simps]: "wp (upd_rx f) Q = (\<lambda>l. Q () (l\<lparr>ioq_rx := f (ioq_rx l)\<rparr>))"
  by (simp add: upd_rx_def wp_simps)

lemma set_msg_wp [wp_simps]: "wp (set_msg m) Q = (\<lambda>l. Q () (l\<lparr>ioq_rx := (ioq_rx l)\<lparr>q_msg := Some m\<rparr>\<rparr>))"
  by (simp add: set_msg_def wp_simps)

definition plain :: "dmsg_link \<Rightarrow> bool" where
  "plain l \<longleftrightarrow> \<not> has (io_flags l) DMSG_IOCOMF_CRYPTED"

lemma plain_rx_at [simp]: "plain (rx_at q as l) = plain l"
  by (simp add: plain_def)

definition effort :: "arrival list \<Rightarrow> nat" where
  "effort as = 2 * length (arrived as) + length as"

lemma sock_read_flows:
  assumes "flows as" and "as \<noteq> []" and "0 < nmax" and r: "sock_read nmax as = (r, as')"
  shows "\<exists>bs. arrived as = bs @ arrived as' \<and> flows as' \<and> length bs \<le> nmax \<and> effort as' + length bs < effort as \<and>
    (r = Data bs \<and> bs \<noteq> [] \<or> r = Read_again \<and> bs = [])"
proof (cases as)
  case (Cons a rest)
  show ?thesis
  proof (cases a)
    case (Data bs)
    have "arrived as = take nmax bs @ drop nmax bs @ arrived rest" using Cons Data by simp
    with assms Cons Data show ?thesis
      by (intro exI [of _ "take nmax bs"]) (auto simp: effort_def)
  qed (use assms Cons in \<open>auto simp: effort_def\<close>)
qed (use assms in simp)

text \<open>One \<open>read\<close> and the (absent) decryption: data is added to the staging buffer.\<close>

lemma fill_wp:
  assumes l: "plain l" and ok: "fifo_ok q" and as: "flows as"
    and n: "nmax = DMSG_BUF_SIZE - fifo_end q" "0 < nmax"
    and Q: "\<And>b e as' bs. fifo_ok (staged b (fifo_beg q) e q) \<Longrightarrow> fifo (staged b (fifo_beg q) e q) = fifo q @ bs \<Longrightarrow>
      e = fifo_end q + length bs \<Longrightarrow> flows as' \<Longrightarrow> arrived as = bs @ arrived as' \<Longrightarrow>
      effort as' + length bs \<le> effort as \<Longrightarrow> (as \<noteq> [] \<Longrightarrow> effort as' + length bs < effort as) \<Longrightarrow>
      (as = [] \<Longrightarrow> as' = []) \<Longrightarrow> Q (rx_at (staged b (fifo_beg q) e q) as' l)"
  shows "wp (rx_fill nmax) (\<lambda>g. if \<not> g then R else wp rx_decrypt (\<lambda>_. Q)) (rx_at q as l)"
proof -
  have dec: "wp rx_decrypt (\<lambda>_. Q) (rx_at q' as' l) \<longleftrightarrow> Q (rx_at (q'\<lparr>fifo_cdx := fifo_end q', fifo_cdn := fifo_end q'\<rparr>) as' l)"
    for q' as'
    using l by (simp add: rx_decrypt_def wp_simps plain_def)
  have same: "Q (rx_at q as' l)" if "flows as'" "arrived as = arrived as'" "effort as' \<le> effort as"
    "as \<noteq> [] \<Longrightarrow> effort as' < effort as" "as = [] \<Longrightarrow> as' = []" for as'
  proof -
    have st: "staged (q_buf q) (fifo_beg q) (fifo_cdx q) q = q" by (rule staged_self [OF ok])
    have "fifo_cdx q = fifo_end q" using ok by (simp add: fifo_ok_def)
    with Q [of "q_buf q" "fifo_cdx q" "[]" as', unfolded st] ok that show ?thesis by simp
  qed
  show ?thesis
  proof (cases "as = []")
    case True
    have cl: "q\<lparr>fifo_cdx := fifo_end q, fifo_cdn := fifo_end q\<rparr> = q" using ok by (simp add: fifo_ok_def)
    from True have "Q (rx_at q [] l)" by (intro same) simp_all
    with True cl show ?thesis by (simp add: rx_fill_def wp_simps dec)
  next
    case False
    obtain r as' where r: "sock_read nmax as = (r, as')" by (cases "sock_read nmax as")
    obtain bs where bs: "arrived as = bs @ arrived as'" "flows as'" "length bs \<le> nmax"
      "effort as' + length bs < effort as" "r = Data bs \<and> bs \<noteq> [] \<or> r = Read_again \<and> bs = []"
      using sock_read_flows [OF as False n(2) r] by blast
    let ?e = "fifo_end q + length bs" and ?b = "overwrite (q_buf q) (fifo_end q) bs"
    have fit: "?e \<le> length (q_buf q)" using bs(3) n ok by (auto simp: fifo_ok_def)
    show ?thesis
    proof (cases "bs = []")
      case True
      have "q\<lparr>fifo_cdx := fifo_end q, fifo_cdn := fifo_end q\<rparr> = q" using ok by (simp add: fifo_ok_def)
      moreover have "Q (rx_at q as' l)" using True bs False by (intro same) simp_all
      ultimately show ?thesis using r True bs(5) by (simp add: rx_fill_def wp_simps dec)
    next
      case ne: False
      have st: "q\<lparr>q_buf := ?b, fifo_end := ?e, fifo_cdx := ?e, fifo_cdn := ?e\<rparr> = staged ?b (fifo_beg q) ?e q"
        by (simp add: staged_def)
      have ok': "fifo_ok (staged ?b (fifo_beg q) ?e q)" using ok fit by (auto simp: fifo_ok_def)
      have "take (?e - fifo_beg q) (drop (fifo_beg q) ?b) = fifo q @ bs"
        using ok fit by (auto simp: fifo_def fifo_ok_def overwrite_def drop_take)
      then have "fifo (staged ?b (fifo_beg q) ?e q) = fifo q @ bs" by (simp add: fifo_def)
      from Q [OF ok' this] have "Q (rx_at (staged ?b (fifo_beg q) ?e q) as' l)" using bs False by auto
      then show ?thesis using r bs(5) ne fit st by (simp add: rx_fill_def wp_simps dec)
    qed
  qed
qed

section \<open>Messages on the wire\<close>

definition wire_bytes :: "dmsg_msg \<Rightarrow> u8 list" where
  "wire_bytes m = head_mem m @ take (tx_abytes m) (aux_mem m)"

text \<open>A message whose header is filled in as \<open>dmsg_iocom_flush1\<close> does, within the limits of the protocol.\<close>

definition wire_msg :: "dmsg_msg \<Rightarrow> bool" where
  "wire_msg m \<longleftrightarrow> magic (head m) = DMSG_HDR_MAGIC \<and> 64 \<le> tx_hbytes m \<and> tx_hbytes m \<le> DMSG_HDR_MAX \<and>
     length (ext m) = tx_hbytes m - 64 \<and> unat (aux_bytes (head m)) = aux_size m \<and> tx_abytes m \<le> DMSG_AUX_MAX \<and>
     (aux_size m \<noteq> 0 \<longrightarrow> (\<exists>aux. aux_data m = Some aux \<and> length aux = tx_abytes m \<and>
        aux_crc (head m) = dmsg_icrc32 aux)) \<and>
     hdr_crc (head m) = dmsg_icrc32 (hdr_bytes ((head m)\<lparr>hdr_crc := 0\<rparr>) @ ext m)"

text \<open>The message the receiver builds.\<close>

definition received :: "ptr \<Rightarrow> dmsg_msg \<Rightarrow> dmsg_msg" where
  "received s0 m = m\<lparr>m_state := s0, hdr_size := tx_hbytes m, tcmd := 0,
     aux_data := (if aux_size m = 0 then None else aux_data m)\<rparr>"

lemma doalign32:
  assumes "unat x + 63 < 2 ^ 32"
  shows "unat (DMSG_DOALIGN32 x) = DMSG_DOALIGN (unat x)"
proof -
  have m: "(63 :: u32) = mask 6" by (simp add: mask_eq_exp_minus_1)
  have "unat (x + 63) = unat x + 63" using assms by (simp add: unat_word_ariths)
  then show ?thesis
    unfolding DMSG_DOALIGN32_def by (simp add: m unat_and_not_mask DMSG_DOALIGN_def DMSG_ALIGN_def minus_mod_eq_div_mult)
qed

lemma doalign_bounds: "n \<le> DMSG_DOALIGN n" "DMSG_DOALIGN n < n + 64" "DMSG_DOALIGN n = 0 \<longleftrightarrow> n = 0"
  by (auto simp: DMSG_DOALIGN_def DMSG_ALIGN_def)

lemma wire_msgD:
  assumes "wire_msg m"
  shows "length (head_mem m) = tx_hbytes m" and "hdr_of (head_mem m) = head m"
    and "unat (DMSG_DOALIGN32 (aux_bytes (head m))) = tx_abytes m" and "tx_abytes m = 0 \<longleftrightarrow> aux_size m = 0"
    and "length (wire_bytes m) = tx_hbytes m + tx_abytes m" and "64 \<le> tx_hbytes m" and "tx_hbytes m \<le> DMSG_HDR_MAX"
    and "wire_bytes m = head_mem m @ (if aux_size m = 0 then [] else aux_mem m)"
    and "aux_size m \<noteq> 0 \<Longrightarrow> length (aux_mem m) = tx_abytes m \<and> aux_data m = Some (aux_mem m) \<and>
      aux_crc (head m) = dmsg_icrc32 (aux_mem m)"
proof -
  show h: "length (head_mem m) = tx_hbytes m" using assms by (auto simp: wire_msg_def head_mem_def)
  show "hdr_of (head_mem m) = head m" by (simp add: head_mem_def)
  have "unat (aux_bytes (head m)) + 63 < 2 ^ 32"
    using assms doalign_bounds(1) [of "aux_size m"] by (simp add: wire_msg_def tx_abytes_def DMSG_AUX_MAX_def)
  then show "unat (DMSG_DOALIGN32 (aux_bytes (head m))) = tx_abytes m"
    using assms by (simp add: doalign32 wire_msg_def tx_abytes_def)
  show z: "tx_abytes m = 0 \<longleftrightarrow> aux_size m = 0" by (simp add: tx_abytes_def doalign_bounds(3))
  show a: "aux_size m \<noteq> 0 \<Longrightarrow> length (aux_mem m) = tx_abytes m \<and> aux_data m = Some (aux_mem m) \<and>
      aux_crc (head m) = dmsg_icrc32 (aux_mem m)"
    using assms by (auto simp: wire_msg_def aux_mem_def)
  show w: "wire_bytes m = head_mem m @ (if aux_size m = 0 then [] else aux_mem m)"
    using a z by (auto simp: wire_bytes_def)
  show "length (wire_bytes m) = tx_hbytes m + tx_abytes m" using w h a z by auto
  show "64 \<le> tx_hbytes m" and "tx_hbytes m \<le> DMSG_HDR_MAX" using assms by (simp_all add: wire_msg_def)
qed

section \<open>The phases of reception\<close>

definition rx_full :: "u8 list \<Rightarrow> dmsg_ioq \<Rightarrow> arrival list \<Rightarrow> u8 list \<Rightarrow> bool" where
  "rx_full fut q as bs \<longleftrightarrow> fifo_ok q \<and> q_error q = 0 \<and> flows as \<and> fifo q @ arrived as @ fut = bs"

definition sizes :: "dmsg_ioq \<Rightarrow> dmsg_msg \<Rightarrow> bool" where
  "sizes q m \<longleftrightarrow> q_hbytes q = tx_hbytes m \<and> q_abytes q = tx_abytes m \<and> unaligned_aux_size q = aux_size m"

text \<open>
  Where reception stands between two calls: \<open>ms\<close> are the messages not delivered yet, of which the first
  may be in progress, and \<open>fut\<close> the part of the stream that has not arrived.
\<close>

definition rx_wait :: "dmsg_env \<Rightarrow> ptr \<Rightarrow> u8 list \<Rightarrow> dmsg_msg list \<Rightarrow> dmsg_ioq \<Rightarrow> arrival list \<Rightarrow> bool" where
  "rx_wait env s0 fut ms q as =
     (case q_state q of
        MSGQ_HEADER1 \<Rightarrow> q_msg q = None \<and> rx_full fut q as (concat (map wire_bytes ms))
      | MSGQ_HEADER2 \<Rightarrow>
          rx_full fut q as (concat (map wire_bytes ms)) \<and>
          (\<exists>m ms'. ms = m # ms' \<and> q_msg q = Some (rx_alloc env s0 (aux_size m) (tx_hbytes m)) \<and> sizes q m \<and>
             tx_hbytes m \<le> length (fifo q) + (DMSG_BUF_SIZE - fifo_end q))
      | MSGQ_AUXDATA2 \<Rightarrow>
          (\<exists>m ms' k a. ms = m # ms' \<and> sizes q m \<and> k < tx_abytes m \<and> length a = tx_abytes m \<and>
             take k a = take k (aux_mem m) \<and> fifo q = [] \<and>
             q_msg q = Some ((received s0 m)\<lparr>aux_size := k, aux_data := Some a\<rparr>) \<and>
             rx_full fut q as (drop k (aux_mem m) @ concat (map wire_bytes ms')))
      | _ \<Rightarrow> False)"

text \<open>What a pass through the switch leaves: reception waits, or the first message is complete.\<close>

definition rx_post :: "dmsg_env \<Rightarrow> ptr \<Rightarrow> u8 list \<Rightarrow> dmsg_msg list \<Rightarrow> nat \<Rightarrow> u32 \<Rightarrow> dmsg_link \<Rightarrow>
    dmsg_msg option \<Rightarrow> dmsg_link \<Rightarrow> bool" where
  "rx_post env s0 fut ms n sq l r l' \<longleftrightarrow> (\<exists>q as. l' = rx_at q as l \<and> q_seq q = sq \<and>
     (case r of
        None \<Rightarrow> rx_wait env s0 fut ms q as \<and> (as = [] \<longrightarrow> fut = [] \<longrightarrow> ms = []) \<and>
          (as \<noteq> [] \<longrightarrow> effort as + length (fifo q) < n)
      | Some m' \<Rightarrow> (\<exists>m ms'. ms = m # ms' \<and> m' = received s0 m \<and>
          rx_full fut q as (concat (map wire_bytes ms')) \<and> effort as + length (fifo q) < n)))"

lemma fifo_other [simp]:
  "fifo (q\<lparr>q_msg := x\<rparr>) = fifo q" "fifo (q\<lparr>q_state := y\<rparr>) = fifo q"
  "fifo (q\<lparr>q_hbytes := h, q_abytes := a, unaligned_aux_size := u\<rparr>) = fifo q"
  "fifo_ok (q\<lparr>q_msg := x\<rparr>) = fifo_ok q" "fifo_ok (q\<lparr>q_state := y\<rparr>) = fifo_ok q"
  "fifo_ok (q\<lparr>q_hbytes := h, q_abytes := a, unaligned_aux_size := u\<rparr>) = fifo_ok q"
  by (simp_all add: fifo_def fifo_ok_def)

lemma rx_full_other [simp]:
  "rx_full fut (q\<lparr>q_msg := x\<rparr>) as bs = rx_full fut q as bs"
  "rx_full fut (q\<lparr>q_state := y\<rparr>) as bs = rx_full fut q as bs"
  by (simp_all add: rx_full_def)

lemma sizes_other [simp]:
  "sizes (q\<lparr>q_msg := x\<rparr>) m = sizes q m" "sizes (q\<lparr>q_state := y\<rparr>) m = sizes q m"
  "sizes (staged b f e q) m = sizes q m"
  by (simp_all add: sizes_def)

lemma rx_error_wp [wp_simps]: "wp (rx_error e) Q = (\<lambda>l. Q () (l\<lparr>ioq_rx := (ioq_rx l)\<lparr>q_error := e\<rparr>\<rparr>))"
  by (simp add: rx_error_def wp_simps)

lemma auxdone_wp:
  assumes m: "wire_msg m" "aux_size m \<noteq> 0" and q: "sizes q m" "q_state q = MSGQ_AUXDATA2" "q_seq q = sq"
    and k: "k \<le> tx_abytes m" "length a = tx_abytes m" "take k a = take k (aux_mem m)"
      "k < tx_abytes m \<Longrightarrow> fifo q = []"
    and msg: "msg = (received s0 m)\<lparr>aux_size := k, aux_data := Some a\<rparr>" "q_msg q = Some msg"
    and full: "rx_full fut q as (drop k (aux_mem m) @ concat (map wire_bytes ms))"
    and n: "k = tx_abytes m \<or> as \<noteq> [] \<Longrightarrow> effort as + length (fifo q) < n"
  shows "wp (rx_auxdone msg) (rx_post env s0 fut (m # ms) n sq l) (rx_at q as l)"
proof -
  note M = wire_msgD [OF m(1)]
  have A: "length (aux_mem m) = tx_abytes m" "aux_data m = Some (aux_mem m)"
    "aux_crc (head m) = dmsg_icrc32 (aux_mem m)" using M(9) [OF m(2)] by simp_all
  have asz: "aux_size msg = k" "aux_data msg = Some a" "head msg = head m"
    by (simp_all add: msg received_def)
  have ab: "q_abytes q = tx_abytes m" "unaligned_aux_size q = aux_size m" using q(1) by (simp_all add: sizes_def)
  show ?thesis
  proof (cases "k < tx_abytes m")
    case True
    have "drop k (aux_mem m) \<noteq> []" using True A by simp
    then have "\<not> (as = [] \<and> fut = [])" using full k(4) [OF True] by (auto simp: rx_full_def)
    moreover have "rx_wait env s0 fut (m # ms) q as"
      using True q k full msg by (auto simp: rx_wait_def)
    ultimately show ?thesis
      using True ab asz n q(3) by (auto simp: rx_auxdone_def wp_simps rx_post_def)
  next
    case False
    then have k': "k = tx_abytes m" "a = aux_mem m" using k A by auto
    let ?m = "msg\<lparr>aux_size := aux_size m\<rparr>"
    have mr: "?m = received s0 m" using m(2) A(2) k' by (simp add: msg received_def)
    have rd: "aux_data (received s0 m) = Some (aux_mem m)" "head (received s0 m) = head m"
      using m(2) A(2) by (simp_all add: received_def)
    have "rx_post env s0 fut (m # ms) n sq l (Some (received s0 m)) (rx_at (q\<lparr>q_msg := Some (received s0 m)\<rparr>) as l)"
      unfolding rx_post_def using full k' A n q(3)
      by (intro exI [of _ "q\<lparr>q_msg := Some (received s0 m)\<rparr>"] exI [of _ as]) simp
    then show ?thesis
      using k' ab asz A(1,3) by (simp add: rx_auxdone_def wp_simps mr rd)
  qed
qed

lemma fifo_consume:
  assumes "fifo_ok q" and "k \<le> length (fifo q)"
  shows "fifo (q\<lparr>fifo_beg := fifo_beg q + k\<rparr>) = drop k (fifo q)" and "fifo_ok (q\<lparr>fifo_beg := fifo_beg q + k\<rparr>)"
  using assms length_fifo [OF assms(1)] by (auto simp: fifo_def fifo_ok_def drop_take add.commute)

lemma overwrite_prefix:
  assumes "take k a = take k b" and "length a = length b" and "k + n \<le> length b"
  shows "take (k + n) (overwrite a k (take n (drop k b))) = take (k + n) b"
  using assms by (simp add: overwrite_def take_add)

lemma aux_copy_wp:
  assumes "aux_data msg = Some a" and "off + length bs \<le> length a"
    and "Q (msg\<lparr>aux_data := Some (overwrite a off bs)\<rparr>)
      (l\<lparr>ioq_rx := (ioq_rx l)\<lparr>q_msg := Some (msg\<lparr>aux_data := Some (overwrite a off bs)\<rparr>)\<rparr>\<rparr>)"
  shows "wp (aux_copy msg off bs) Q l"
  using assms by (simp add: aux_copy_def wp_simps)

lemma auxcopy_wp:
  assumes m: "wire_msg m" "aux_size m \<noteq> 0" and q: "sizes q m" "q_state q = MSGQ_AUXDATA2" "q_seq q = sq"
    and k: "k \<le> tx_abytes m" "length a = tx_abytes m" "take k a = take k (aux_mem m)"
    and msg: "msg = (received s0 m)\<lparr>aux_size := k, aux_data := Some a\<rparr>" "q_msg q = Some msg"
    and full: "rx_full fut q as (drop k (aux_mem m) @ concat (map wire_bytes ms))"
    and n: "tx_abytes m \<le> k + length (fifo q) \<or> as \<noteq> [] \<Longrightarrow> effort as + length (fifo q) < n"
  shows "wp (rx_auxcopy msg) (\<lambda>msg. wp (rx_auxdone msg) (rx_post env s0 fut (m # ms) n sq l)) (rx_at q as l)"
proof -
  let ?n = "min (length (fifo q)) (tx_abytes m - k)"
  have A: "length (aux_mem m) = tx_abytes m" using wire_msgD(9) [OF m] by simp
  have ok: "fifo_ok q" and st: "fifo q @ arrived as @ fut = drop k (aux_mem m) @ concat (map wire_bytes ms)"
    using full by (simp_all add: rx_full_def)
  have fl: "fifo_cdx q - fifo_beg q = length (fifo q)" using length_fifo [OF ok] by simp
  have piece: "take ?n (drop (fifo_beg q) (q_buf q)) = take ?n (fifo q)"
    using fl by (simp add: fifo_def)
  have "take ?n (fifo q) = take ?n (fifo q @ arrived as @ fut)" by simp
  also have "\<dots> = take ?n (drop k (aux_mem m))" unfolding st using A by simp
  finally have new: "take ?n (fifo q) = take ?n (drop k (aux_mem m))" .
  have rest: "drop ?n (fifo q) @ arrived as @ fut = drop (k + ?n) (aux_mem m) @ concat (map wire_bytes ms)"
  proof -
    have "drop ?n (fifo q @ arrived as @ fut) = drop ?n (drop k (aux_mem m) @ concat (map wire_bytes ms))"
      unfolding st ..
    then show ?thesis using A by (simp add: add.commute)
  qed
  show ?thesis
  proof (cases "?n = 0")
    case True
    then have "k < tx_abytes m \<Longrightarrow> fifo q = []" by (simp add: min_def split: if_splits)
    moreover have "k = tx_abytes m \<or> as \<noteq> [] \<Longrightarrow> effort as + length (fifo q) < n" using n by auto
    ultimately have "wp (rx_auxdone msg) (rx_post env s0 fut (m # ms) n sq l) (rx_at q as l)"
      using auxdone_wp [OF m q k _ msg full] by blast
    moreover have "rx_auxcopy msg (rx_at q as l) = Inr (msg, rx_at q as l)"
    proof -
      have "min (fifo_cdx q - fifo_beg q) (q_abytes q - aux_size msg) = 0"
        using True fl q(1) msg(1) by (simp add: sizes_def)
      then show ?thesis unfolding rx_auxcopy_def bindS_def getS_def Let_def by (simp add: returnS_def del: neq0_conv)
    qed
    ultimately show ?thesis by (simp add: wp_def)
  next
    case False
    let ?a = "overwrite a k (take ?n (fifo q))"
    let ?m = "msg\<lparr>aux_data := Some ?a, aux_size := k + ?n\<rparr>"
    let ?q = "q\<lparr>q_msg := Some ?m, fifo_beg := fifo_beg q + ?n\<rparr>"
    have le: "?n \<le> length (fifo q)" by simp
    have f: "fifo ?q = drop ?n (fifo q)" "fifo_ok ?q"
      using fifo_consume [of "q\<lparr>q_msg := Some ?m\<rparr>" ?n] ok le by simp_all
    have fin: "wp (rx_auxdone ?m) (rx_post env s0 fut (m # ms) n sq l) (rx_at ?q as l)"
    proof (rule auxdone_wp [OF m])
      show "length ?a = tx_abytes m" using k(1,2) by simp
      show "take (k + ?n) ?a = take (k + ?n) (aux_mem m)"
        unfolding new by (rule overwrite_prefix) (use k A in auto)
      show "?m = (received s0 m)\<lparr>aux_size := k + ?n, aux_data := Some ?a\<rparr>" using msg(1) by simp
      show "fifo ?q = []" if "k + ?n < tx_abytes m" using that f by simp
      show "rx_full fut ?q as (drop (k + ?n) (aux_mem m) @ concat (map wire_bytes ms))"
        using full f rest by (simp add: rx_full_def)
      show "effort as + length (fifo ?q) < n" if "k + ?n = tx_abytes m \<or> as \<noteq> []"
      proof -
        have "tx_abytes m \<le> k + length (fifo q) \<or> as \<noteq> []" using that by auto
        from n [OF this] show ?thesis unfolding f(1) by simp
      qed
    qed (use q k(1) in \<open>simp_all add: sizes_def\<close>)
    have len: "k + length (take ?n (fifo q)) \<le> length a" using k by simp
    have "wp (aux_copy msg k (take ?n (fifo q))) (\<lambda>msg. wp (set_msg (msg\<lparr>aux_size := aux_size msg + ?n\<rparr>)) (\<lambda>_.
        wp (upd_rx (\<lambda>q. q\<lparr>fifo_beg := fifo_beg q + ?n\<rparr>)) (\<lambda>_. wp (rx_auxdone (msg\<lparr>aux_size := aux_size msg + ?n\<rparr>))
          (rx_post env s0 fut (m # ms) n sq l)))) (rx_at q as l)"
      by (rule aux_copy_wp [OF _ len]) (use fin msg(1) in \<open>simp_all add: wp_simps received_def\<close>)
    with False fl q(1) msg(1) piece show ?thesis
      by (simp add: rx_auxcopy_def wp_bind wp_get wp_if wp_let sizes_def received_def wp_return del: neq0_conv)
  qed
qed

lemma makeroom_wp:
  assumes ok: "fifo_ok q"
    and Q: "\<And>b x e. fifo_ok (staged b x e q) \<Longrightarrow> fifo (staged b x e q) = fifo q \<Longrightarrow>
      needed \<le> length (fifo q) + (DMSG_BUF_SIZE - e) div 2 \<or> e = length (fifo q) \<Longrightarrow>
      Q (DMSG_BUF_SIZE - e) (rx_at (staged b x e q) as l)"
  shows "wp (makeroom needed) Q (rx_at q as l)"
proof -
  obtain b x e where "dmsg_ioq_makeroom q needed = (DMSG_BUF_SIZE - e, staged b x e q)"
    "fifo_ok (staged b x e q)" "fifo (staged b x e q) = fifo q"
    "needed \<le> length (fifo q) + (DMSG_BUF_SIZE - e) div 2 \<or> e = length (fifo q)"
    using makeroom_staged [OF ok] by metis
  with Q show ?thesis by (simp add: makeroom_def wp_simps)
qed

lemma decrypt_wp:
  assumes "plain l" and "fifo_ok q" and "Q () (rx_at q as l)"
  shows "wp rx_decrypt Q (rx_at q as l)"
proof -
  have "q\<lparr>fifo_cdx := fifo_end q, fifo_cdn := fifo_end q\<rparr> = q" using assms(2) by (simp add: fifo_ok_def)
  with assms show ?thesis by (simp add: rx_decrypt_def wp_simps plain_def)
qed

lemma rx_full_staged:
  "rx_full fut q as bs \<Longrightarrow> fifo_ok (staged b x e q) \<Longrightarrow> fifo (staged b x e q) = fifo q \<Longrightarrow>
    rx_full fut (staged b x e q) as bs"
  by (simp add: rx_full_def)

lemma rx_full_fill:
  "rx_full fut q as s \<Longrightarrow> fifo_ok (staged b x e q) \<Longrightarrow> fifo (staged b x e q) = fifo q @ bs \<Longrightarrow>
    arrived as = bs @ arrived as' \<Longrightarrow> flows as' \<Longrightarrow> rx_full fut (staged b x e q) as' s"
  by (simp add: rx_full_def)

lemma auxdata2_wp:
  assumes l: "plain l" and m: "wire_msg m" "aux_size m \<noteq> 0"
    and q: "sizes q m" "q_state q = MSGQ_AUXDATA2" "q_seq q = sq"
    and k: "k \<le> tx_abytes m" "length a = tx_abytes m" "take k a = take k (aux_mem m)"
      "k < tx_abytes m \<Longrightarrow> fifo q = [] \<and> bytes = 0"
    and msg: "msg = (received s0 m)\<lparr>aux_size := k, aux_data := Some a\<rparr>" "q_msg q = Some msg"
    and full: "rx_full fut q as (drop k (aux_mem m) @ concat (map wire_bytes ms))"
    and n: "effort as + length (fifo q) \<le> n" "k = tx_abytes m \<Longrightarrow> effort as + length (fifo q) < n"
  shows "wp (rx_auxdata2 bytes msg) (rx_post env s0 fut (m # ms) n sq l) (rx_at q as l)"
proof -
  let ?P = "rx_post env s0 fut (m # ms) n sq l"
  let ?rest = "\<lambda>l'. wp (rx_auxcopy msg) (\<lambda>msg. wp (rx_auxdone msg) ?P) l'"
  have ok: "fifo_ok q" and fl: "flows as" using full by (simp_all add: rx_full_def)
  have ab: "q_abytes q = tx_abytes m" and sz: "aux_size msg = k"
    using q(1) msg(1) by (simp_all add: sizes_def received_def)
  have "wp (makeroom (tx_abytes m - k)) (\<lambda>nmax. wp (if k < tx_abytes m then
      bindS (assertS (nmax > 0) ''ioq_read: nmax'') (\<lambda>_. bindS (assertS (bytes = 0) ''ioq_read: bytes'') (\<lambda>_.
      rx_fill nmax)) else returnS True)
      (\<lambda>g. if \<not> g then wp (returnS (Some msg)) ?P else wp rx_decrypt (\<lambda>_. ?rest))) (rx_at q as l)"
  proof (rule makeroom_wp [OF ok])
    fix b x e
    let ?q = "staged b x e q"
    assume s: "fifo_ok ?q" "fifo ?q = fifo q" and
      room: "tx_abytes m - k \<le> length (fifo q) + (DMSG_BUF_SIZE - e) div 2 \<or> e = length (fifo q)"
    have full': "rx_full fut ?q as (drop k (aux_mem m) @ concat (map wire_bytes ms))"
      by (rule rx_full_staged [OF full s])
    show "wp (if k < tx_abytes m then
      bindS (assertS (DMSG_BUF_SIZE - e > 0) ''ioq_read: nmax'') (\<lambda>_. bindS (assertS (bytes = 0) ''ioq_read: bytes'') (\<lambda>_.
      rx_fill (DMSG_BUF_SIZE - e))) else returnS True)
      (\<lambda>g. if \<not> g then wp (returnS (Some msg)) ?P else wp rx_decrypt (\<lambda>_. ?rest)) (rx_at ?q as l)"
    proof (cases "k < tx_abytes m")
      case True
      note e = k(4) [OF True]
      have nmax: "0 < DMSG_BUF_SIZE - e" using room True e by (auto simp: DMSG_BUF_SIZE_def DMSG_HDR_MAX_def)
      have "wp (rx_fill (DMSG_BUF_SIZE - e)) (\<lambda>g. if \<not> g then wp (returnS (Some msg)) ?P else wp rx_decrypt (\<lambda>_. ?rest))
          (rx_at ?q as l)"
      proof (rule fill_wp [OF l s(1) fl _ nmax])
        fix b' e' as' bs
        let ?q' = "staged b' (fifo_beg ?q) e' ?q"
        assume t: "fifo_ok ?q'" "fifo ?q' = fifo ?q @ bs" "flows as'" "arrived as = bs @ arrived as'"
          and eff: "as \<noteq> [] \<Longrightarrow> effort as' + length bs < effort as" and emp: "as = [] \<Longrightarrow> as' = []"
        have full'': "rx_full fut ?q' as' (drop k (aux_mem m) @ concat (map wire_bytes ms))"
          by (rule rx_full_fill [OF full' t(1,2,4,3)])
        have "as \<noteq> []" if "tx_abytes m \<le> k + length (fifo ?q') \<or> as' \<noteq> []"
          using that t(2,4) s(2) e True emp by auto
        then show "?rest (rx_at ?q' as' l)"
          by (intro auxcopy_wp [OF m _ _ _ k(1-3) msg(1) _ full'']) (use q msg(2) t s e eff n in auto)
      qed simp
      with True nmax e show ?thesis by (simp add: wp_simps)
    next
      case False
      then have ka: "k = tx_abytes m" using k(1) by simp
      have "?rest (rx_at ?q as l)"
        by (rule auxcopy_wp [OF m _ _ _ k(1-3) msg(1) _ full']) (use q msg(2) s n ka in auto)
      then have "wp rx_decrypt (\<lambda>_. ?rest) (rx_at ?q as l)" by (rule decrypt_wp [OF l s(1)])
      with False show ?thesis by (simp add: wp_return)
    qed
  qed
  then show ?thesis
    using ab sz by (simp add: rx_auxdata2_def wp_bind wp_get if_distrib [of "\<lambda>m. wp m ?P"] cong: if_cong)
qed

lemma ioq_order:
  "q\<lparr>fifo_beg := x, q_msg := m\<rparr> = q\<lparr>q_msg := m, fifo_beg := x\<rparr>"
  "q\<lparr>fifo_beg := x, q_state := s\<rparr> = q\<lparr>q_state := s, fifo_beg := x\<rparr>"
  by simp_all

lemma fifo_check_wp: "fifo_ok (ioq_rx l) \<Longrightarrow> Q () l \<Longrightarrow> wp fifo_check Q l"
  by (simp add: fifo_check_def wp_simps fifo_ok_def)

lemma auxdata1_wp:
  assumes l: "plain l" and m: "wire_msg m" "aux_size m \<noteq> 0" and q: "sizes q m" "q_seq q = sq"
    and a: "length a = tx_abytes m" and msg: "msg = (received s0 m)\<lparr>aux_data := Some a\<rparr>"
    and full: "rx_full fut q as (aux_mem m @ concat (map wire_bytes ms))"
    and n: "effort as + length (fifo q) < n"
  shows "wp (rx_auxdata1 (length (fifo q)) msg) (rx_post env s0 fut (m # ms) n sq l) (rx_at q as l)"
proof -
  let ?P = "rx_post env s0 fut (m # ms) n sq l"
  let ?k = "min (length (fifo q)) (tx_abytes m)"
  have A: "length (aux_mem m) = tx_abytes m" using wire_msgD(9) [OF m] by simp
  have ok: "fifo_ok q" and st: "fifo q @ arrived as @ fut = aux_mem m @ concat (map wire_bytes ms)"
    using full by (simp_all add: rx_full_def)
  have fl: "fifo_cdx q - fifo_beg q = length (fifo q)" using length_fifo [OF ok] by simp
  have piece: "take ?k (drop (fifo_beg q) (q_buf q)) = take ?k (fifo q)" using fl by (simp add: fifo_def)
  have "take ?k (fifo q) = take ?k (fifo q @ arrived as @ fut)" by simp
  also have "\<dots> = take ?k (aux_mem m)" unfolding st using A by simp
  finally have new: "take ?k (fifo q) = take ?k (aux_mem m)" .
  have rest: "drop ?k (fifo q) @ arrived as @ fut = drop ?k (aux_mem m) @ concat (map wire_bytes ms)"
  proof -
    have "drop ?k (fifo q @ arrived as @ fut) = drop ?k (aux_mem m @ concat (map wire_bytes ms))" unfolding st ..
    then show ?thesis using A by simp
  qed
  have fin: "wp (rx_auxdata2 bytes (msg\<lparr>aux_data := Some b, aux_size := ?k\<rparr>)) ?P
      (rx_at (q\<lparr>q_msg := Some (msg\<lparr>aux_data := Some b, aux_size := ?k\<rparr>), q_state := MSGQ_AUXDATA2,
        fifo_beg := fifo_beg q + ?k\<rparr>) as l)" (is "wp _ _ (rx_at ?q as l)")
    if b: "length b = tx_abytes m" "take ?k b = take ?k (aux_mem m)" and z: "?k < tx_abytes m \<Longrightarrow> bytes = 0" for b bytes
  proof (rule auxdata2_wp [OF l m])
    have f: "fifo ?q = drop ?k (fifo q)" "fifo_ok ?q"
      using fifo_consume [of "q\<lparr>q_msg := Some (msg\<lparr>aux_data := Some b, aux_size := ?k\<rparr>), q_state := MSGQ_AUXDATA2\<rparr>" ?k] ok
      by simp_all
    show "msg\<lparr>aux_data := Some b, aux_size := ?k\<rparr> = (received s0 m)\<lparr>aux_size := ?k, aux_data := Some b\<rparr>"
      using msg by simp
    show "rx_full fut ?q as (drop ?k (aux_mem m) @ concat (map wire_bytes ms))"
      using full f rest by (simp add: rx_full_def)
    show "fifo ?q = [] \<and> bytes = 0" if "?k < tx_abytes m" using that f z by auto
    show "effort as + length (fifo ?q) \<le> n" "effort as + length (fifo ?q) < n" unfolding f(1) using n by simp_all
  qed (use q b in \<open>simp_all add: sizes_def\<close>)
  have len: "0 + length (take ?k (fifo q)) \<le> length a" using a by simp
  let ?b = "overwrite a 0 (take ?k (fifo q))"
  have b: "length ?b = tx_abytes m" "take ?k ?b = take ?k (aux_mem m)"
    using a new overwrite_prefix [of 0 a "aux_mem m" ?k] A by simp_all
  have oks: "fifo_ok (q\<lparr>q_msg := Some x, fifo_beg := fifo_beg q + ?k\<rparr>)" for x
    using fifo_consume(2) [of "q\<lparr>q_msg := Some x\<rparr>" ?k] ok by simp
  have ad: "aux_data msg = Some a" and sz: "q_abytes q = tx_abytes m" using msg q by (simp_all add: sizes_def)
  consider "tx_abytes m \<le> length (fifo q)" | "length (fifo q) < tx_abytes m" "fifo q \<noteq> []"
    | "length (fifo q) < tx_abytes m" "fifo q = []" by linarith
  then show ?thesis
  proof cases
    case 1
    then have k: "?k = tx_abytes m" by simp
    have "wp (aux_copy msg 0 (take ?k (fifo q))) (\<lambda>msg. wp (upd_rx (\<lambda>q. q\<lparr>fifo_beg := fifo_beg q + q_abytes q\<rparr>))
        (\<lambda>_. wp fifo_check (\<lambda>_ l'. wp (rx_auxdata2 (length (fifo q) - tx_abytes m) (msg\<lparr>aux_size := tx_abytes m\<rparr>)) ?P
          (l'\<lparr>ioq_rx := (ioq_rx l')\<lparr>q_msg := Some (msg\<lparr>aux_size := tx_abytes m\<rparr>), q_state := MSGQ_AUXDATA2\<rparr>\<rparr>))))
        (rx_at q as l)"
      using fin [OF b, of "length (fifo q) - tx_abytes m"] oks k sz
      by (intro aux_copy_wp [OF ad len]) (simp add: wp_simps fifo_check_wp ioq_order)
    with 1 k sz piece show ?thesis
      by (simp add: rx_auxdata1_def wp_simps)
  next
    case 2
    then have k: "?k = length (fifo q)" by simp
    have mx: "max (fifo_cdx q) (fifo_beg q + length (fifo q)) = fifo_cdx q"
      using fl ok by (auto simp: fifo_ok_def)
    have "wp (aux_copy msg 0 (take ?k (fifo q))) (\<lambda>msg. wp (upd_rx (\<lambda>q'. q'\<lparr>fifo_beg := fifo_beg q' + length (fifo q),
        fifo_cdx := max (fifo_cdx q') (fifo_beg q' + length (fifo q))\<rparr>))
        (\<lambda>_. wp fifo_check (\<lambda>_ l'. wp (rx_auxdata2 0 (msg\<lparr>aux_size := length (fifo q)\<rparr>)) ?P
          (l'\<lparr>ioq_rx := (ioq_rx l')\<lparr>q_msg := Some (msg\<lparr>aux_size := length (fifo q)\<rparr>), q_state := MSGQ_AUXDATA2\<rparr>\<rparr>))))
        (rx_at q as l)"
      using fin [OF b, of 0] oks k sz
      by (intro aux_copy_wp [OF ad len]) (simp add: wp_simps fifo_check_wp ioq_order mx)
    with 2 k sz piece show ?thesis
      by (simp add: rx_auxdata1_def wp_simps)
  next
    case 3
    then have k: "?k = 0" by simp
    have "msg\<lparr>aux_data := Some a, aux_size := 0\<rparr> = msg\<lparr>aux_size := 0\<rparr>" using ad by simp
    with fin [OF a, of 0] 3 k sz show ?thesis
      by (simp add: rx_auxdata1_def wp_simps)
  qed
qed

lemma overwrite_same:
  assumes "off + length bs \<le> length buf" and "take (length bs) (drop off buf) = bs"
  shows "overwrite buf off bs = buf"
proof -
  have "bs @ drop (off + length bs) buf = drop off buf"
    using append_take_drop_id [of "length bs" "drop off buf"] assms by (simp add: add.commute)
  then show ?thesis by (simp add: overwrite_def)
qed

lemma header_done_wp:
  assumes l: "plain l" and m: "wire_msg m" and q: "sizes q m" "q_seq q = sq"
    and msg: "msg = rx_alloc env s0 (aux_size m) (tx_hbytes m)"
    and full: "rx_full fut q as (wire_bytes m @ concat (map wire_bytes ms))"
    and fit: "tx_hbytes m \<le> length (fifo q)" and n: "effort as + length (fifo q) \<le> n"
  shows "wp (rx_header_done (length (fifo q)) msg) (rx_post env s0 fut (m # ms) n sq l) (rx_at q as l)"
proof -
  let ?P = "rx_post env s0 fut (m # ms) n sq l" and ?h = "tx_hbytes m"
  note M = wire_msgD [OF m]
  have mg: "magic (head m) \<noteq> DMSG_HDR_MAGIC_REV"
    and crc: "dmsg_icrc32 (hdr_bytes ((head m)\<lparr>hdr_crc := 0\<rparr>) @ ext m) = hdr_crc (head m)"
    using m by (simp_all add: wire_msg_def DMSG_HDR_MAGIC_def DMSG_HDR_MAGIC_REV_def)
  have ok: "fifo_ok q" and st: "fifo q @ arrived as @ fut = wire_bytes m @ concat (map wire_bytes ms)"
    using full by (simp_all add: rx_full_def)
  have fl: "fifo_cdx q - fifo_beg q = length (fifo q)" using length_fifo [OF ok] by simp
  have "take ?h (fifo q) = take ?h (fifo q @ arrived as @ fut)" using fit by simp
  also have "\<dots> = head_mem m" unfolding st M(8) using M(1) by simp
  finally have hd: "take ?h (fifo q) = head_mem m" .
  have raw: "take ?h (drop (fifo_beg q) (q_buf q)) = head_mem m"
  proof -
    have "?h \<le> fifo_cdx q - fifo_beg q" using fit fl by simp
    then have "take ?h (fifo q) = take ?h (drop (fifo_beg q) (q_buf q))" by (simp add: fifo_def min_absorb1)
    with hd show ?thesis by simp
  qed
  have rest: "drop ?h (fifo q) @ arrived as @ fut =
      (if aux_size m = 0 then [] else aux_mem m) @ concat (map wire_bytes ms)"
  proof -
    have "drop ?h (fifo q @ arrived as @ fut) = drop ?h (wire_bytes m @ concat (map wire_bytes ms))" unfolding st ..
    then show ?thesis unfolding M(8) using M(1) fit by simp
  qed
  have buf: "overwrite (q_buf q) (fifo_beg q) (head_mem m) = q_buf q"
    by (rule overwrite_same) (use raw M(1) fl fit ok in \<open>auto simp: fifo_ok_def\<close>)
  have mem: "overwrite (head_mem m) 0 (hdr_bytes (head m)) = head_mem m" "drop 64 (head_mem m) = ext m"
    "overwrite (head_mem m) 0 (hdr_bytes ((head m)\<lparr>hdr_crc := 0\<rparr>)) = hdr_bytes ((head m)\<lparr>hdr_crc := 0\<rparr>) @ ext m"
    by (simp_all add: head_mem_def overwrite_def)
  let ?m = "msg\<lparr>head := head m, ext := ext m\<rparr>"
  let ?q = "q\<lparr>q_msg := Some ?m, fifo_beg := fifo_beg q + ?h\<rparr>"
  have f: "fifo ?q = drop ?h (fifo q)" "fifo_ok ?q" using fifo_consume [of "q\<lparr>q_msg := Some ?m\<rparr>" ?h] ok fit by simp_all
  have n': "effort as + length (fifo ?q) < n" unfolding f(1) using n fit M(6) by simp
  have full': "rx_full fut ?q as ((if aux_size m = 0 then [] else aux_mem m) @ concat (map wire_bytes ms))"
    using full f rest by (simp add: rx_full_def)
  have "wp (if tx_abytes m = 0 then returnS (Some ?m)
       else bindS (upd_rx (\<lambda>q. q\<lparr>q_state := MSGQ_AUXDATA1\<rparr>)) (\<lambda>_. rx_auxdata1 (length (fifo q) - ?h) ?m)) ?P (rx_at ?q as l)"
  proof (cases "aux_size m = 0")
    case True
    have "?m = received s0 m" using True by (simp add: msg rx_alloc_def received_def msg_aux_def)
    moreover have "?P (Some (received s0 m)) (rx_at ?q as l)"
      unfolding rx_post_def using full' True n' q(2) by (intro exI [of _ ?q] exI [of _ as]) simp
    ultimately show ?thesis using True M(4) by (simp add: wp_return)
  next
    case False
    let ?a = "map (garbage env) [0..<aux_size m] @ replicate (tx_abytes m - aux_size m) 0"
    have "?m = (received s0 m)\<lparr>aux_data := Some ?a\<rparr>"
      using False by (simp add: msg rx_alloc_def received_def msg_aux_def tx_abytes_def)
    moreover have "length ?a = tx_abytes m" using doalign_bounds(1) [of "aux_size m"] by (simp add: tx_abytes_def)
    moreover have "length (fifo q) - ?h = length (fifo (?q\<lparr>q_state := MSGQ_AUXDATA1\<rparr>))" using f by simp
    ultimately have "wp (rx_auxdata1 (length (fifo q) - ?h) ?m) ?P (rx_at (?q\<lparr>q_state := MSGQ_AUXDATA1\<rparr>) as l)"
      using auxdata1_wp [OF l m False _ _ _ _ _ , of "?q\<lparr>q_state := MSGQ_AUXDATA1\<rparr>" sq ?a ?m s0 fut as ms n env]
        q full' False n' by (simp add: sizes_def)
    then show ?thesis using False M(4) by (simp add: wp_simps)
  qed
  then show ?thesis
    using q(1) raw mg crc buf mem M(2)
    by (simp add: rx_header_done_def wp_simps Let_def sizes_def ioq_order hdr_of_take split: if_splits)
qed

lemma header2_wp:
  assumes l: "plain l" and m: "wire_msg m" and q: "sizes q m" "q_seq q = sq" "q_state q = MSGQ_HEADER2"
    and msg: "msg = rx_alloc env s0 (aux_size m) (tx_hbytes m)" "q_msg q = Some msg"
    and full: "rx_full fut q as (wire_bytes m @ concat (map wire_bytes ms))"
    and room: "tx_hbytes m \<le> length (fifo q) + (DMSG_BUF_SIZE - fifo_end q)"
    and n: "effort as + length (fifo q) \<le> n"
  shows "wp (rx_header2 (length (fifo q)) (DMSG_BUF_SIZE - fifo_end q) msg) (rx_post env s0 fut (m # ms) n sq l)
    (rx_at q as l)"
proof -
  let ?P = "rx_post env s0 fut (m # ms) n sq l" and ?h = "tx_hbytes m" and ?nmax = "DMSG_BUF_SIZE - fifo_end q"
  let ?rest = "bindS (getS ioq_rx) (\<lambda>q. let bytes = fifo_cdx q - fifo_beg q in
    if bytes < ?h then returnS None else rx_header_done bytes msg)"
  have ok: "fifo_ok q" and fl: "flows as" using full by (simp_all add: rx_full_def)
  have hb: "q_hbytes q = ?h" using q(1) by (simp add: sizes_def)
  have rest: "wp ?rest ?P (rx_at q' as' l)"
    if full': "rx_full fut q' as' (wire_bytes m @ concat (map wire_bytes ms))" and q': "sizes q' m" "q_seq q' = sq"
      "q_state q' = MSGQ_HEADER2" "q_msg q' = Some msg" and room': "?h \<le> length (fifo q') + (DMSG_BUF_SIZE - fifo_end q')"
      and n': "effort as' + length (fifo q') \<le> n" "as' \<noteq> [] \<Longrightarrow> length (fifo q') < ?h \<Longrightarrow> effort as' + length (fifo q') < n"
    for q' as'
  proof -
    have ok': "fifo_ok q'" using full' by (simp add: rx_full_def)
    have len: "fifo_cdx q' - fifo_beg q' = length (fifo q')" using length_fifo [OF ok'] by simp
    show ?thesis
    proof (cases "length (fifo q') < ?h")
      case True
      have "length (fifo q' @ arrived as' @ fut) \<ge> ?h"
        using full' wire_msgD(5) [OF m] by (simp add: rx_full_def)
      then have "\<not> (as' = [] \<and> fut = [])" using True by auto
      moreover have "rx_wait env s0 fut (m # ms) q' as'"
        using full' q' room' msg(1) by (simp add: rx_wait_def)
      ultimately have "?P None (rx_at q' as' l)"
        unfolding rx_post_def using q'(2) n'(2) True by (intro exI [of _ q'] exI [of _ as']) auto
      with True len show ?thesis by (simp add: wp_simps)
    next
      case False
      then have "wp (rx_header_done (length (fifo q')) msg) ?P (rx_at q' as' l)"
        using header_done_wp [OF l m q'(1,2) msg(1) full' _ n'(1)] by simp
      with False len show ?thesis by (simp add: wp_simps)
    qed
  qed
  have "wp (if length (fifo q) < ?h then bindS (assertS (?nmax > 0) ''ioq_read: nmax'') (\<lambda>_. rx_fill ?nmax)
      else returnS True) (\<lambda>g. if \<not> g then wp (returnS (Some msg)) ?P else wp rx_decrypt (\<lambda>_. wp ?rest ?P)) (rx_at q as l)"
  proof (cases "length (fifo q) < ?h")
    case True
    then have nmax: "0 < ?nmax" using room by simp
    have "wp (rx_fill ?nmax) (\<lambda>g. if \<not> g then wp (returnS (Some msg)) ?P else wp rx_decrypt (\<lambda>_. wp ?rest ?P)) (rx_at q as l)"
    proof (rule fill_wp [OF l ok fl _ nmax])
      fix b e as' bs
      let ?q = "staged b (fifo_beg q) e q"
      assume t: "fifo_ok ?q" "fifo ?q = fifo q @ bs" "e = fifo_end q + length bs" "flows as'" "arrived as = bs @ arrived as'"
        and eff: "effort as' + length bs \<le> effort as" "as \<noteq> [] \<Longrightarrow> effort as' + length bs < effort as" and emp: "as = [] \<Longrightarrow> as' = []"
      show "wp ?rest ?P (rx_at ?q as' l)"
      proof (rule rest)
        show "rx_full fut ?q as' (wire_bytes m @ concat (map wire_bytes ms))" by (rule rx_full_fill [OF full t(1,2,5,4)])
        show "?h \<le> length (fifo ?q) + (DMSG_BUF_SIZE - fifo_end ?q)"
          using room t(1,2,3) by (simp add: fifo_ok_def)
        show "effort as' + length (fifo ?q) \<le> n" using n eff(1) t(2) by simp
        show "effort as' + length (fifo ?q) < n" if "as' \<noteq> []" using n eff(2) emp that t(2) by fastforce
      qed (use q msg in simp_all)
    qed simp
    with True nmax show ?thesis by (simp add: wp_simps)
  next
    case False
    have "wp ?rest ?P (rx_at q as l)" by (rule rest) (use full q msg room n False in simp_all)
    then have "wp rx_decrypt (\<lambda>_. wp ?rest ?P) (rx_at q as l)" by (rule decrypt_wp [OF l ok])
    with False show ?thesis by (simp add: wp_return)
  qed
  then show ?thesis
    using hb by (simp add: rx_header2_def wp_bind wp_get if_distrib [of "\<lambda>m. wp m ?P"] cong: if_cong)
qed

lemma core_header_wp:
  assumes l: "plain l" and ms: "\<forall>m\<in>set ms. wire_msg m" and q: "q_seq q = sq" "q_state q = MSGQ_HEADER1" "q_msg q = None"
    and full: "rx_full fut q as (concat (map wire_bytes ms))"
    and fit: "64 \<le> length (fifo q)" and n: "effort as + length (fifo q) \<le> n"
  shows "wp (rx_core_header env s0 (length (fifo q))) (rx_post env s0 fut ms n sq l) (rx_at q as l)"
proof -
  have ok: "fifo_ok q" and st: "fifo q @ arrived as @ fut = concat (map wire_bytes ms)"
    using full by (simp_all add: rx_full_def)
  have "ms \<noteq> []" using st fit by auto
  then obtain m ms' where mm: "ms = m # ms'" by (cases ms) auto
  have m: "wire_msg m" using ms mm by simp
  note M = wire_msgD [OF m]
  have fl: "fifo_cdx q - fifo_beg q = length (fifo q)" using length_fifo [OF ok] by simp
  have "take 64 (drop (fifo_beg q) (q_buf q)) = take 64 (fifo q)" using fl fit by (simp add: fifo_def)
  also have "\<dots> = take 64 (fifo q @ arrived as @ fut)" using fit by simp
  also have "\<dots> = take 64 (head_mem m)" unfolding st mm using M(1,6,8) by simp
  finally have h: "hdr_of (take 64 (drop (fifo_beg q) (q_buf q))) = head m" using M(2) by (simp add: hdr_of_take)
  have mg: "magic (head m) = DMSG_HDR_MAGIC" and ax: "unat (aux_bytes (head m)) = aux_size m"
    and am: "tx_abytes m \<le> DMSG_AUX_MAX" using m by (simp_all add: wire_msg_def)
  have hb: "unat (cmd (head m) AND DMSGF_SIZE) * DMSG_ALIGN = tx_hbytes m" by (simp add: tx_hbytes_def m_cmd_def)
  have ne: "DMSG_HDR_MAGIC \<noteq> DMSG_HDR_MAGIC_REV" by (simp add: DMSG_HDR_MAGIC_def DMSG_HDR_MAGIC_REV_def)
  let ?msg = "rx_alloc env s0 (aux_size m) (tx_hbytes m)"
  let ?q = "q\<lparr>q_hbytes := tx_hbytes m, q_abytes := tx_abytes m, unaligned_aux_size := aux_size m, q_msg := Some ?msg\<rparr>"
  have f: "fifo ?q = fifo q" "fifo_ok ?q" using ok by (simp_all add: fifo_def fifo_ok_def)
  have "wp (makeroom (tx_hbytes m)) (\<lambda>nmax. wp (upd_rx (\<lambda>q. q\<lparr>q_state := MSGQ_HEADER2\<rparr>)) (\<lambda>_.
      wp (rx_header2 (length (fifo q)) nmax ?msg) (rx_post env s0 fut ms n sq l))) (rx_at ?q as l)"
  proof (rule makeroom_wp [OF f(2)])
    fix b x e
    let ?r = "(staged b x e ?q)\<lparr>q_state := MSGQ_HEADER2\<rparr>"
    assume s: "fifo_ok (staged b x e ?q)" "fifo (staged b x e ?q) = fifo ?q"
      "tx_hbytes m \<le> length (fifo ?q) + (DMSG_BUF_SIZE - e) div 2 \<or> e = length (fifo ?q)"
    have fq: "fifo ?r = fifo q" using s(2) f(1) by simp
    have "wp (rx_header2 (length (fifo ?r)) (DMSG_BUF_SIZE - fifo_end ?r) ?msg) (rx_post env s0 fut (m # ms') n sq l)
        (rx_at ?r as l)"
    proof (rule header2_wp [OF l m])
      show "rx_full fut ?r as (wire_bytes m @ concat (map wire_bytes ms'))"
        using full s f mm by (simp add: rx_full_def)
      have "e \<le> DMSG_BUF_SIZE" using s(1) by (simp add: fifo_ok_def)
      then show "tx_hbytes m \<le> length (fifo ?r) + (DMSG_BUF_SIZE - fifo_end ?r)"
        unfolding fq using s(3) f(1) M(7) by (auto simp: DMSG_BUF_SIZE_def DMSG_HDR_MAX_def)
      show "effort as + length (fifo ?r) \<le> n" unfolding fq by (rule n)
    qed (use q in \<open>simp_all add: sizes_def\<close>)
    then show "wp (upd_rx (\<lambda>q. q\<lparr>q_state := MSGQ_HEADER2\<rparr>)) (\<lambda>_.
        wp (rx_header2 (length (fifo q)) (DMSG_BUF_SIZE - e) ?msg) (rx_post env s0 fut ms n sq l))
        (rx_at (staged b x e ?q) as l)"
      unfolding fq mm by (simp add: wp_simps)
  qed
  then show ?thesis
    using h mg ax am hb ne M(3,6,7) by (simp add: rx_core_header_def wp_bind wp_get wp_let wp_if upd_rx_wp set_msg_wp)
qed

lemma header1_wp:
  assumes l: "plain l" and ms: "\<forall>m\<in>set ms. wire_msg m" and q: "q_seq q = sq" "q_state q = MSGQ_HEADER1" "q_msg q = None"
    and full: "rx_full fut q as (concat (map wire_bytes ms))" and n: "effort as + length (fifo q) \<le> n"
  shows "wp (rx_header1 env s0 (length (fifo q))) (rx_post env s0 fut ms n sq l) (rx_at q as l)"
proof -
  let ?P = "rx_post env s0 fut ms n sq l"
  let ?rest = "bindS (getS ioq_rx) (\<lambda>q. let bytes = fifo_cdx q - fifo_beg q in
       bindS (assertS (q_msg q = None) ''ioq_read: msg == NULL'') (\<lambda>_.
       if bytes < 64 then returnS None else rx_core_header env s0 bytes))"
  have ok: "fifo_ok q" and fl: "flows as" using full by (simp_all add: rx_full_def)
  have rest: "wp ?rest ?P (rx_at q' as' l)"
    if full': "rx_full fut q' as' (concat (map wire_bytes ms))" and q': "q_seq q' = sq" "q_state q' = MSGQ_HEADER1"
      "q_msg q' = None" and n': "effort as' + length (fifo q') \<le> n"
      "as' \<noteq> [] \<Longrightarrow> length (fifo q') < 64 \<Longrightarrow> effort as' + length (fifo q') < n" for q' as'
  proof -
    have len: "fifo_cdx q' - fifo_beg q' = length (fifo q')"
      using length_fifo [of q'] full' by (simp add: rx_full_def)
    show ?thesis
    proof (cases "length (fifo q') < 64")
      case True
      have "ms = []" if "as' = []" "fut = []"
      proof (rule ccontr)
        assume "ms \<noteq> []"
        then obtain m ms' where mm: "ms = m # ms'" by (cases ms) auto
        then have "length (fifo q') \<ge> 64"
          using full' that wire_msgD(5,6) [of m] ms by (simp add: rx_full_def)
        with True show False by simp
      qed
      then have "?P None (rx_at q' as' l)"
        unfolding rx_post_def using q' n'(2) True full'
        by (intro exI [of _ q'] exI [of _ as']) (auto simp: rx_wait_def)
      with True len q'(3) show ?thesis by (simp add: wp_simps)
    next
      case False
      then have "wp (rx_core_header env s0 (length (fifo q'))) ?P (rx_at q' as' l)"
        using core_header_wp [OF l ms q' full' _ n'(1)] by simp
      with False len q'(3) show ?thesis by (simp add: wp_simps)
    qed
  qed
  have "wp (makeroom 64) (\<lambda>nmax. wp (if length (fifo q) < 64 then rx_fill nmax else returnS True)
      (\<lambda>g. if \<not> g then wp (returnS None) ?P else wp rx_decrypt (\<lambda>_. wp ?rest ?P))) (rx_at q as l)"
  proof (rule makeroom_wp [OF ok])
    fix b x e
    let ?q = "staged b x e q"
    assume s: "fifo_ok ?q" "fifo ?q = fifo q" and
      room: "64 \<le> length (fifo q) + (DMSG_BUF_SIZE - e) div 2 \<or> e = length (fifo q)"
    have full': "rx_full fut ?q as (concat (map wire_bytes ms))" by (rule rx_full_staged [OF full s])
    show "wp (if length (fifo q) < 64 then rx_fill (DMSG_BUF_SIZE - e) else returnS True)
      (\<lambda>g. if \<not> g then wp (returnS None) ?P else wp rx_decrypt (\<lambda>_. wp ?rest ?P)) (rx_at ?q as l)"
    proof (cases "length (fifo q) < 64")
      case True
      have nmax: "0 < DMSG_BUF_SIZE - e" using room True by (auto simp: DMSG_BUF_SIZE_def DMSG_HDR_MAX_def)
      have "wp (rx_fill (DMSG_BUF_SIZE - e)) (\<lambda>g. if \<not> g then wp (returnS None) ?P else wp rx_decrypt (\<lambda>_. wp ?rest ?P))
          (rx_at ?q as l)"
      proof (rule fill_wp [OF l s(1) fl _ nmax])
        fix b' e' as' bs
        let ?q' = "staged b' (fifo_beg ?q) e' ?q"
        assume t: "fifo_ok ?q'" "fifo ?q' = fifo ?q @ bs" "flows as'" "arrived as = bs @ arrived as'"
          and eff: "effort as' + length bs \<le> effort as" "as \<noteq> [] \<Longrightarrow> effort as' + length bs < effort as" and emp: "as = [] \<Longrightarrow> as' = []"
        show "wp ?rest ?P (rx_at ?q' as' l)"
        proof (rule rest)
          show "rx_full fut ?q' as' (concat (map wire_bytes ms))" by (rule rx_full_fill [OF full' t(1,2,4,3)])
          show "effort as' + length (fifo ?q') \<le> n" using n eff(1) t(2) s(2) by simp
          show "effort as' + length (fifo ?q') < n" if "as' \<noteq> []" using n eff(2) emp that t(2) s(2) by fastforce
        qed (use q in simp_all)
      qed simp
      with True show ?thesis by simp
    next
      case False
      have "wp ?rest ?P (rx_at ?q as l)" by (rule rest) (use full' q n False s in simp_all)
      then have "wp rx_decrypt (\<lambda>_. wp ?rest ?P) (rx_at ?q as l)" by (rule decrypt_wp [OF l s(1)])
      with False show ?thesis by (simp add: wp_return)
    qed
  qed
  then show ?thesis
    by (simp add: rx_header1_def wp_bind if_distrib [of "\<lambda>m. wp m ?P"] cong: if_cong)
qed

section \<open>Calls and runs\<close>

text \<open>The low byte of the salt numbers the messages.\<close>

fun in_sequence :: "u32 \<Rightarrow> dmsg_msg list \<Rightarrow> bool" where
  "in_sequence sq [] = True"
| "in_sequence sq (m # ms) \<longleftrightarrow> salt (head m) AND 255 = sq AND 255 \<and> in_sequence (sq + 1) ms"

definition rx_ready :: "dmsg_env \<Rightarrow> ptr \<Rightarrow> u8 list \<Rightarrow> dmsg_msg list \<Rightarrow> dmsg_link \<Rightarrow> bool" where
  "rx_ready env s0 fut ms l \<longleftrightarrow> plain l \<and> (\<forall>m\<in>set ms. wire_msg m) \<and> in_sequence (q_seq (ioq_rx l)) ms \<and>
     rx_wait env s0 fut ms (ioq_rx l) (arrivals l)"

definition rx_load :: "dmsg_link \<Rightarrow> nat" where
  "rx_load l = effort (arrivals l) + length (fifo (ioq_rx l))"

lemma switch_wp:
  assumes r: "rx_ready env s0 fut ms l"
  shows "wp (rx_switch env s0) (rx_post env s0 fut ms (rx_load l) (q_seq (ioq_rx l)) l) l"
proof -
  let ?q = "ioq_rx l" and ?as = "arrivals l"
  have p: "plain l" and ms: "\<forall>m\<in>set ms. wire_msg m" and w: "rx_wait env s0 fut ms ?q ?as"
    using r by (simp_all add: rx_ready_def)
  have ok: "fifo_ok ?q" using w by (auto simp: rx_wait_def rx_full_def split: msgq_state.splits)
  have len: "fifo_cdx ?q - fifo_beg ?q = length (fifo ?q)" "length (q_buf ?q) = DMSG_BUF_SIZE"
    using length_fifo [OF ok] ok by (simp_all add: fifo_ok_def)
  have n: "effort ?as + length (fifo ?q) \<le> rx_load l" by (simp add: rx_load_def)
  note at = rx_at_self [of l]
  show ?thesis
  proof (cases "q_state ?q")
    case MSGQ_HEADER1
    with w have c: "q_msg ?q = None" "rx_full fut ?q ?as (concat (map wire_bytes ms))" by (simp_all add: rx_wait_def)
    show ?thesis
      using header1_wp [OF p ms refl MSGQ_HEADER1 c n, of env s0, unfolded at] MSGQ_HEADER1 len
      by (simp add: rx_switch_def wp_bind wp_get Let_def)
  next
    case MSGQ_HEADER2
    with w obtain m ms' where c: "ms = m # ms'" "rx_full fut ?q ?as (concat (map wire_bytes ms))"
      "q_msg ?q = Some (rx_alloc env s0 (aux_size m) (tx_hbytes m))" "sizes ?q m"
      "tx_hbytes m \<le> length (fifo ?q) + (DMSG_BUF_SIZE - fifo_end ?q)" by (auto simp: rx_wait_def)
    have "wp (rx_header2 (length (fifo ?q)) (DMSG_BUF_SIZE - fifo_end ?q) (rx_alloc env s0 (aux_size m) (tx_hbytes m)))
        (rx_post env s0 fut (m # ms') (rx_load l) (q_seq ?q) l) (rx_at ?q ?as l)"
      by (rule header2_wp [OF p]) (use c ms MSGQ_HEADER2 n in simp_all)
    then show ?thesis
      using MSGQ_HEADER2 len c(1,3) at by (simp add: rx_switch_def wp_bind wp_get Let_def)
  next
    case MSGQ_AUXDATA2
    with w obtain m ms' k a where c: "ms = m # ms'" "sizes ?q m" "k < tx_abytes m" "length a = tx_abytes m"
      "take k a = take k (aux_mem m)" "fifo ?q = []"
      "q_msg ?q = Some ((received s0 m)\<lparr>aux_size := k, aux_data := Some a\<rparr>)"
      "rx_full fut ?q ?as (drop k (aux_mem m) @ concat (map wire_bytes ms'))" by (auto simp: rx_wait_def)
    have m: "wire_msg m" "aux_size m \<noteq> 0" using ms c wire_msgD(4) [of m] by auto
    have "wp (rx_auxdata2 (length (fifo ?q)) ((received s0 m)\<lparr>aux_size := k, aux_data := Some a\<rparr>))
        (rx_post env s0 fut (m # ms') (rx_load l) (q_seq ?q) l) (rx_at ?q ?as l)"
      by (rule auxdata2_wp [OF p m c(2) MSGQ_AUXDATA2 refl _ c(4,5) _ refl c(7,8)])
        (use c n in simp_all)
    then show ?thesis
      using MSGQ_AUXDATA2 len c(1,7) at by (simp add: rx_switch_def wp_bind wp_get Let_def)
  qed (use w in \<open>simp_all add: rx_wait_def\<close>)
qed

definition poll_post :: "dmsg_env \<Rightarrow> ptr \<Rightarrow> u8 list \<Rightarrow> dmsg_msg list \<Rightarrow> nat \<Rightarrow> rx_result \<Rightarrow> dmsg_link \<Rightarrow> bool" where
  "poll_post env s0 fut ms n r l' =
     (case r of
        Rx_more \<Rightarrow> rx_ready env s0 fut ms l' \<and> (arrivals l' = [] \<longrightarrow> fut = [] \<longrightarrow> ms = []) \<and>
          (arrivals l' \<noteq> [] \<longrightarrow> rx_load l' < n)
      | Rx_msg m' \<Rightarrow> (\<exists>m ms'. ms = m # ms' \<and> m' = received s0 m \<and> rx_ready env s0 fut ms' l' \<and> rx_load l' < n)
      | Rx_error _ \<Rightarrow> False)"

lemma has_crypted: "has w DMSG_IOCOMF_CRYPTED \<longleftrightarrow> bit w 9"
proof -
  have "DMSG_IOCOMF_CRYPTED = push_bit 9 1" by (simp add: DMSG_IOCOMF_CRYPTED_def)
  then show ?thesis using has_bit [of 9 w] by simp
qed

lemma bit_iocomf:
  "\<not> bit DMSG_IOCOMF_RREQ 9" "\<not> bit DMSG_IOCOMF_RWORK 9" "\<not> bit DMSG_IOCOMF_WREQ 9" "\<not> bit DMSG_IOCOMF_WWORK 9"
  by (simp_all add: DMSG_IOCOMF_RREQ_def DMSG_IOCOMF_RWORK_def DMSG_IOCOMF_WREQ_def DMSG_IOCOMF_WWORK_def bit_simps)

lemma plain_flags:
  "plain (l\<lparr>io_flags := io_flags l AND NOT f\<rparr>) \<longleftrightarrow> \<not> bit (io_flags l) 9 \<or> bit f 9"
  "\<not> bit f 9 \<Longrightarrow> plain (l\<lparr>io_flags := io_flags l OR f\<rparr>) = plain l"
  by (auto simp: plain_def has_crypted bit_simps)

lemma flags_wp [wp_simps]:
  "wp (set_flags f) Q = (\<lambda>l. Q () (l\<lparr>io_flags := io_flags l OR f\<rparr>))"
  "wp (clear_flags f) Q = (\<lambda>l. Q () (l\<lparr>io_flags := io_flags l AND NOT f\<rparr>))"
  by (simp_all add: set_flags_def clear_flags_def wp_simps)

lemma finish_wp:
  assumes p: "plain l" and ms: "\<forall>m\<in>set ms. wire_msg m" and sq: "in_sequence sq ms"
    and post: "rx_post env s0 fut ms n sq l r l'"
  shows "wp (rx_finish r) (poll_post env s0 fut ms n) l'"
proof -
  obtain q as where l': "l' = rx_at q as l" "q_seq q = sq" and c: "case r of
        None \<Rightarrow> rx_wait env s0 fut ms q as \<and> (as = [] \<longrightarrow> fut = [] \<longrightarrow> ms = []) \<and>
          (as \<noteq> [] \<longrightarrow> effort as + length (fifo q) < n)
      | Some m' \<Rightarrow> (\<exists>m ms'. ms = m # ms' \<and> m' = received s0 m \<and>
          rx_full fut q as (concat (map wire_bytes ms')) \<and> effort as + length (fifo q) < n)"
    using post by (auto simp: rx_post_def)
  have pl: "plain ((rx_at q' as l)\<lparr>io_flags := io_flags l OR DMSG_IOCOMF_RREQ\<rparr>)"
    "plain ((rx_at q' as l)\<lparr>io_flags := io_flags l OR DMSG_IOCOMF_RWORK\<rparr>)" for q'
    using plain_flags(2) [OF bit_iocomf(1), of "rx_at q' as l"] plain_flags(2) [OF bit_iocomf(2), of "rx_at q' as l"] p
    by simp_all
  show ?thesis
  proof (cases r)
    case None
    with c have w: "rx_wait env s0 fut ms q as" "as = [] \<longrightarrow> fut = [] \<longrightarrow> ms = []"
      "as \<noteq> [] \<longrightarrow> effort as + length (fifo q) < n" by simp_all
    have "q_error q = 0" using w(1) by (auto simp: rx_wait_def rx_full_def split: msgq_state.splits)
    with None w l' pl ms sq show ?thesis
      by (simp add: rx_finish_def wp_simps poll_post_def rx_ready_def rx_load_def)
  next
    case (Some m')
    with c obtain m ms' where m: "ms = m # ms'" "m' = received s0 m" "rx_full fut q as (concat (map wire_bytes ms'))"
      "effort as + length (fifo q) < n" by auto
    have e: "q_error q = 0" and ok: "fifo_ok q" and s: "salt (head m') AND 255 = sq AND 255"
      using m sq by (simp_all add: rx_full_def received_def)
    let ?q = "q\<lparr>q_seq := sq + 1, fifo_cdx := 0, fifo_cdn := 0, fifo_beg := 0, fifo_end := 0, q_state := MSGQ_HEADER1, q_msg := None\<rparr>"
    let ?r = "q\<lparr>q_seq := sq + 1, q_state := MSGQ_HEADER1, q_msg := None\<rparr>"
    have r: "fifo ?r = fifo q" "rx_full fut ?r as (concat (map wire_bytes ms'))"
      using m(3) by (simp_all add: rx_full_def fifo_def fifo_ok_def)
    have q: "fifo ?q = fifo q" "rx_full fut ?q as (concat (map wire_bytes ms'))" if "fifo_beg q = fifo_cdx q"
      using m(3) that by (simp_all add: rx_full_def fifo_def fifo_ok_def)
    have res: "poll_post env s0 fut ms n (Rx_msg m') ((rx_at q' as l)\<lparr>io_flags := f\<rparr>)"
      if "q' = ?r \<or> fifo_beg q = fifo_cdx q \<and> q' = ?q" and "f = io_flags l OR DMSG_IOCOMF_RREQ \<or> f = io_flags l OR DMSG_IOCOMF_RWORK"
      for q' f
      using that m r q ms sq pl by (auto simp: poll_post_def rx_ready_def rx_wait_def rx_load_def)
    have ord: "(rx_at q'' as l)\<lparr>io_flags := f, ioq_rx := q'\<rparr> = (rx_at q' as l)\<lparr>io_flags := f\<rparr>" for f q' q''
      by (simp add: rx_at_def)
    show ?thesis
      unfolding rx_finish_def Some
      using l' e s ok res [of ?r "io_flags l OR DMSG_IOCOMF_RWORK"] res [of ?q "io_flags l OR DMSG_IOCOMF_RREQ"]
      by (simp add: wp_simps ord fifo_ok_def)
  qed
qed

lemma poll_wp:
  assumes r: "rx_ready env s0 fut ms l"
  shows "wp (ioq_poll env s0) (poll_post env s0 fut ms (rx_load l)) l"
proof -
  let ?l = "l\<lparr>io_flags := io_flags l AND NOT (DMSG_IOCOMF_RREQ OR DMSG_IOCOMF_RWORK)\<rparr>"
  have r': "rx_ready env s0 fut ms ?l"
    using r plain_flags(1) [of l] by (simp add: rx_ready_def plain_def has_crypted bit_simps)
  have e: "q_error (ioq_rx l) = 0"
    using r by (auto simp: rx_ready_def rx_wait_def rx_full_def split: msgq_state.splits)
  have "wp (rx_switch env s0) (rx_post env s0 fut ms (rx_load ?l) (q_seq (ioq_rx ?l)) ?l) ?l" by (rule switch_wp [OF r'])
  then have "wp (rx_switch env s0) (\<lambda>r. wp (rx_finish r) (poll_post env s0 fut ms (rx_load ?l))) ?l"
    by (rule wp_mono) (rule finish_wp [of ?l], use r' in \<open>auto simp: rx_ready_def\<close>)
  then show ?thesis using e by (simp add: ioq_poll_def wp_simps rx_load_def)
qed

text \<open>
  The loop of \<open>dmsg_iocom_core\<close> over what arrives: messages are taken while there are any, then it waits
  for the descriptor to become readable; here it ends when nothing more arrives.
\<close>

fun rx_loop :: "nat \<Rightarrow> dmsg_env \<Rightarrow> ptr \<Rightarrow> dmsg_msg list lio" where
  "rx_loop 0 env s0 = stopS (Diverges ''iocom_core'')"
| "rx_loop (Suc n) env s0 =
     bindS (ioq_poll env s0) (\<lambda>r.
     case r of
       Rx_more \<Rightarrow> bindS (getS arrivals) (\<lambda>as. if as = [] then returnS [] else rx_loop n env s0)
     | Rx_msg m \<Rightarrow> bindS (rx_loop n env s0) (\<lambda>ms. returnS (m # ms))
     | Rx_error _ \<Rightarrow> returnS [])"

lemma rx_loop_wp:
  assumes "rx_ready env s0 [] ms l" and "rx_load l < n"
  shows "wp (rx_loop n env s0) (\<lambda>r l'. r = map (received s0) ms \<and> rx_ready env s0 [] [] l') l"
  using assms
proof (induction n arbitrary: l ms)
  case (Suc n)
  let ?R = "\<lambda>r l'. r = map (received s0) ms \<and> rx_ready env s0 [] [] l'"
  have "wp (ioq_poll env s0) (poll_post env s0 [] ms (rx_load l)) l" by (rule poll_wp [OF Suc.prems(1)])
  then show ?case
    unfolding rx_loop.simps wp_bind
  proof (rule wp_mono)
    fix r l'
    assume p: "poll_post env s0 [] ms (rx_load l) r l'"
    show "wp (case r of
       Rx_more \<Rightarrow> bindS (getS arrivals) (\<lambda>as. if as = [] then returnS [] else rx_loop n env s0)
     | Rx_msg m \<Rightarrow> bindS (rx_loop n env s0) (\<lambda>ms. returnS (m # ms))
     | Rx_error _ \<Rightarrow> returnS []) ?R l'"
    proof (cases r)
      case Rx_more
      then have c: "rx_ready env s0 [] ms l'" "arrivals l' = [] \<Longrightarrow> ms = []" "arrivals l' \<noteq> [] \<Longrightarrow> rx_load l' < rx_load l"
        using p by (simp_all add: poll_post_def)
      then show ?thesis
        using Rx_more Suc.IH [OF c(1)] Suc.prems(2) by (auto simp: wp_simps)
    next
      case (Rx_msg m')
      then obtain m ms' where c: "ms = m # ms'" "m' = received s0 m" "rx_ready env s0 [] ms' l'" "rx_load l' < rx_load l"
        using p by (auto simp: poll_post_def)
      have "wp (rx_loop n env s0) (\<lambda>r l'. r = map (received s0) ms' \<and> rx_ready env s0 [] [] l') l'"
        by (rule Suc.IH [OF c(3)]) (use c(4) Suc.prems(2) in simp)
      then have "wp (rx_loop n env s0) (\<lambda>r. wp (returnS (m' # r)) ?R) l'"
        by (rule wp_mono) (use c in \<open>simp add: wp_return\<close>)
      with Rx_msg show ?thesis by (simp add: wp_bind)
    qed (use p in \<open>simp add: poll_post_def\<close>)
  qed
qed simp

end
