(* ===== verification/Dmsg_Send.thy ===== *)
theory Dmsg_Send
  imports Dmsg_Stream
begin

text \<open>
  Transmission: the messages \<open>dmsg_iocom_flush1\<close> makes ready, and \<open>dmsg_iocom_flush2\<close>, which writes
  what \<open>writev\<close> takes and resumes where it stopped.
\<close>

section \<open>Messages made ready\<close>

text \<open>What the caller of the library provides: sizes within the limits, and data of the aligned size.\<close>

definition sendable :: "dmsg_msg \<Rightarrow> bool" where
  "sendable m \<longleftrightarrow> 64 \<le> tx_hbytes m \<and> tx_hbytes m \<le> DMSG_HDR_MAX \<and> length (ext m) = tx_hbytes m - 64 \<and>
     tx_abytes m \<le> DMSG_AUX_MAX \<and> aux_crc (head m) = 0 \<and>
     (aux_size m \<noteq> 0 \<longrightarrow> (\<exists>aux. aux_data m = Some aux \<and> length aux = tx_abytes m))"

lemma prepare_simps [simp]:
  "aux_size (tx_prepare r sq m) = aux_size m" "aux_data (tx_prepare r sq m) = aux_data m"
  "ext (tx_prepare r sq m) = ext m" "m_cmd (tx_prepare r sq m) = m_cmd m" "m_state (tx_prepare r sq m) = m_state m"
  "tx_hbytes (tx_prepare r sq m) = tx_hbytes m" "tx_abytes (tx_prepare r sq m) = tx_abytes m"
  "aux_mem (tx_prepare r sq m) = aux_mem m" "magic (head (tx_prepare r sq m)) = DMSG_HDR_MAGIC"
  "aux_bytes (head (tx_prepare r sq m)) = of_nat (aux_size m)"
  "salt (head (tx_prepare r sq m)) = push_bit 8 r OR (sq AND 255)"
  by (simp_all add: tx_prepare_def Let_def m_cmd_def tx_hbytes_def tx_abytes_def aux_mem_def)

lemma prepare_wire:
  assumes "sendable m"
  shows "wire_msg (tx_prepare r sq m)"
proof -
  have s: "aux_size m < 2 ^ 32" using assms doalign_bounds(1) [of "aux_size m"]
    by (simp add: sendable_def tx_abytes_def DMSG_AUX_MAX_def)
  have crc: "aux_crc (head (tx_prepare r sq m)) = dmsg_icrc32 (take (tx_abytes m) (aux_mem m))" if "aux_size m \<noteq> 0"
    using that assms by (simp add: tx_prepare_def Let_def sendable_def)
  have hb: "length (ext m) + 64 = tx_hbytes m" using assms by (simp add: sendable_def)
  have "(head (tx_prepare r sq m))\<lparr>hdr_crc := 0\<rparr> = (if aux_size m \<noteq> 0 \<and> aux_crc (head m) = 0
      then (head m)\<lparr>magic := DMSG_HDR_MAGIC, salt := push_bit 8 r OR (sq AND 255),
        aux_crc := dmsg_icrc32 (take (tx_abytes m) (aux_mem m)), aux_bytes := of_nat (aux_size m), hdr_crc := 0\<rparr>
      else (head m)\<lparr>magic := DMSG_HDR_MAGIC, salt := push_bit 8 r OR (sq AND 255), aux_bytes := of_nat (aux_size m), hdr_crc := 0\<rparr>)"
    by (simp add: tx_prepare_def Let_def)
  then have "hdr_crc (head (tx_prepare r sq m)) =
      dmsg_icrc32 (hdr_bytes ((head (tx_prepare r sq m))\<lparr>hdr_crc := 0\<rparr>) @ ext m)"
    using hb by (simp add: tx_prepare_def Let_def)
  with s crc assms show ?thesis
    by (auto simp: wire_msg_def sendable_def unsigned_of_nat take_bit_eq_mod aux_mem_def)
qed

lemma prepare_salt: "salt (head (tx_prepare r sq m)) AND 255 = sq AND 255"
proof -
  have m: "(255 :: u32) = mask 8" by (simp add: mask_eq_exp_minus_1)
  show ?thesis by (rule bit_word_eqI) (auto simp: m bit_simps)
qed

section \<open>The vector of pieces\<close>

lemma build_iov_prefix:
  assumes "\<forall>m\<in>set msgs. wire_msg m" and "0 < lim" and "cnt < DMSG_IOQ_MAXIOVEC"
    and "\<And>m ms. msgs = m # ms \<Longrightarrow> hoff \<le> tx_hbytes m \<and> aoff \<le> tx_abytes m \<and> (aoff \<noteq> 0 \<longrightarrow> hoff = tx_hbytes m)"
    and "msgs = [] \<Longrightarrow> hoff = 0 \<and> aoff = 0"
  shows "\<exists>iov rest. build_iov lim cnt hoff aoff msgs = Inr iov \<and>
    concat iov @ rest = drop (hoff + aoff) (concat (map wire_bytes msgs)) \<and> length iov + cnt \<le> DMSG_IOQ_MAXIOVEC \<and>
    (\<forall>m ms. msgs = m # ms \<longrightarrow> hoff + aoff < length (wire_bytes m) \<longrightarrow> concat iov \<noteq> [])"
  using assms
proof (induction msgs arbitrary: cnt hoff aoff)
  case (Cons m ms)
  have m: "wire_msg m" and ms: "\<forall>m\<in>set ms. wire_msg m" using Cons.prems(1) by simp_all
  note M = wire_msgD [OF m]
  let ?all = "concat (map wire_bytes ms)"
  let ?aux = "if aux_size m = 0 then [] else aux_mem m"
  have off: "hoff \<le> tx_hbytes m" "aoff \<le> tx_abytes m" "aoff \<noteq> 0 \<Longrightarrow> hoff = tx_hbytes m" using Cons.prems(4) by auto
  have alen: "length ?aux = tx_abytes m" using M(4,9) by auto
  have IH: "\<exists>iov rest. build_iov lim c 0 0 ms = Inr iov \<and> concat iov @ rest = ?all \<and> length iov + c \<le> DMSG_IOQ_MAXIOVEC"
    if "c < DMSG_IOQ_MAXIOVEC" for c
    using Cons.IH [OF ms Cons.prems(2) that, of 0 0] by auto
  define auxpart where "auxpart = (\<lambda>cnt. if aoff < tx_abytes m then
      let maxlen = min (tx_abytes m - aoff) lim in
      (case aux_data m of None \<Rightarrow> Inl (Assert_failed ''flush2: aux_data'')
       | Some bs \<Rightarrow> let piece = take maxlen (drop aoff bs) in
           if cnt + 1 = DMSG_IOQ_MAXIOVEC \<or> maxlen \<noteq> tx_abytes m - aoff then Inr [piece]
           else bind_run (build_iov lim (cnt + 1) 0 0 ms) (\<lambda>v. Inr (piece # v)))
      else build_iov lim cnt 0 0 ms)"
  have aux: "\<exists>iov rest. auxpart c = Inr iov \<and> concat iov @ rest = drop aoff ?aux @ ?all \<and>
      length iov + c \<le> DMSG_IOQ_MAXIOVEC \<and> (aoff < tx_abytes m \<longrightarrow> concat iov \<noteq> [])" if c: "c < DMSG_IOQ_MAXIOVEC" for c
  proof (cases "aoff < tx_abytes m")
    case True
    then have nz: "aux_size m \<noteq> 0" using M(4) by auto
    have A: "length (aux_mem m) = tx_abytes m" "aux_data m = Some (aux_mem m)" using M(9) [OF nz] by simp_all
    let ?n = "min (tx_abytes m - aoff) lim"
    have ne: "take ?n (drop aoff (aux_mem m)) \<noteq> []" using True A Cons.prems(2) by simp
    show ?thesis
    proof (cases "c + 1 = DMSG_IOQ_MAXIOVEC \<or> ?n \<noteq> tx_abytes m - aoff")
      case brk: True
      then show ?thesis
        using True A ne nz c
        by (intro exI [of _ "[take ?n (drop aoff (aux_mem m))]"] exI [of _ "drop ?n (drop aoff (aux_mem m)) @ ?all"])
          (simp add: auxpart_def Let_def append_assoc [symmetric] del: append_assoc drop_drop)
    next
      case False
      then have "c + 1 < DMSG_IOQ_MAXIOVEC" using c by simp
      from IH [OF this] obtain iov rest where i: "build_iov lim (c + 1) 0 0 ms = Inr iov" "concat iov @ rest = ?all"
        "length iov + (c + 1) \<le> DMSG_IOQ_MAXIOVEC" by blast
      have "take ?n (drop aoff (aux_mem m)) = drop aoff (aux_mem m)" using False A by simp
      then show ?thesis
        using True A ne nz False i
        by (intro exI [of _ "take ?n (drop aoff (aux_mem m)) # iov"] exI [of _ rest])
          (simp add: auxpart_def Let_def bind_run_def)
    qed
  next
    case False
    then show ?thesis using IH [OF c] alen off(2) by (auto simp: auxpart_def)
  qed
  have unfold: "build_iov lim cnt hoff aoff (m # ms) =
      (if hoff < tx_hbytes m then
         let maxlen = min (tx_hbytes m - hoff) lim; piece = take maxlen (drop hoff (head_mem m)) in
         if cnt + 1 = DMSG_IOQ_MAXIOVEC \<or> maxlen \<noteq> tx_hbytes m - hoff then Inr [piece]
         else bind_run (auxpart (cnt + 1)) (\<lambda>v. Inr (piece # v))
       else auxpart cnt)"
    unfolding build_iov.simps auxpart_def Let_def by (simp only: off(1,2) simp_thms if_True)
  show ?case
  proof (cases "hoff < tx_hbytes m")
    case True
    then have a0: "aoff = 0" using off(3) by auto
    let ?n = "min (tx_hbytes m - hoff) lim"
    have ne: "take ?n (drop hoff (head_mem m)) \<noteq> []" using True M(1) Cons.prems(2) by simp
    have str: "drop (hoff + aoff) (concat (map wire_bytes (m # ms))) = drop hoff (head_mem m) @ ?aux @ ?all"
      using True a0 M(1,8) by simp
    show ?thesis
    proof (cases "cnt + 1 = DMSG_IOQ_MAXIOVEC \<or> ?n \<noteq> tx_hbytes m - hoff")
      case brk: True
      show ?thesis
        unfolding unfold str using True brk ne Cons.prems(3)
        by (intro exI [of _ "[take ?n (drop hoff (head_mem m))]"] exI [of _ "drop ?n (drop hoff (head_mem m)) @ ?aux @ ?all"])
          (simp add: Let_def append_assoc [symmetric] del: append_assoc drop_drop)
    next
      case False
      then have "cnt + 1 < DMSG_IOQ_MAXIOVEC" using Cons.prems(3) by simp
      from aux [OF this] obtain iov rest where i: "auxpart (cnt + 1) = Inr iov" "concat iov @ rest = drop aoff ?aux @ ?all"
        "length iov + (cnt + 1) \<le> DMSG_IOQ_MAXIOVEC" by blast
      have "take ?n (drop hoff (head_mem m)) = drop hoff (head_mem m)" using False M(1) by simp
      then show ?thesis
        unfolding unfold str using True ne False i a0 Cons.prems(2)
        by (intro exI [of _ "take ?n (drop hoff (head_mem m)) # iov"] exI [of _ rest]) (simp add: Let_def bind_run_def)
    qed
  next
    case False
    then have h: "hoff = tx_hbytes m" using off by simp
    have str: "drop (hoff + aoff) (concat (map wire_bytes (m # ms))) = drop aoff ?aux @ ?all"
      using h M(1,8) alen off(2) by simp
    show ?thesis
      unfolding unfold str using False aux [OF Cons.prems(3)] h M(5) by auto
  qed
qed simp

section \<open>The queue\<close>

text \<open>How far the first message of the queue has been sent, and the bytes that are not sent yet.\<close>

definition tx_pos :: "nat \<Rightarrow> nat \<Rightarrow> dmsg_msg list \<Rightarrow> bool" where
  "tx_pos hb ab msgs =
     (case msgs of
        [] \<Rightarrow> hb = 0 \<and> ab = 0
      | m # ms \<Rightarrow> hb \<le> tx_hbytes m \<and> ab \<le> tx_abytes m \<and> (ab \<noteq> 0 \<longrightarrow> hb = tx_hbytes m) \<and>
          hb + ab < length (wire_bytes m))"

definition unsent :: "nat \<Rightarrow> nat \<Rightarrow> dmsg_msg list \<Rightarrow> u8 list" where
  "unsent hb ab msgs = drop (hb + ab) (concat (map wire_bytes msgs))"

lemma tx_clean_spec:
  assumes "\<forall>m\<in>set msgs. wire_msg m" and "tx_pos hb ab msgs" and "n \<le> length (unsent hb ab msgs)"
  shows "\<exists>hb' ab' rest sent. tx_clean n hb ab msgs = (0, hb', ab', rest, sent) \<and> msgs = sent @ rest \<and>
    tx_pos hb' ab' rest \<and> unsent hb' ab' rest = drop n (unsent hb ab msgs)"
  using assms
proof (induction msgs arbitrary: n hb ab)
  case Nil
  then show ?case by (simp add: unsent_def)
next
  case (Cons m ms)
  have m: "wire_msg m" and ms: "\<forall>m\<in>set ms. wire_msg m" using Cons.prems(1) by simp_all
  note M = wire_msgD [OF m]
  have pos: "hb \<le> tx_hbytes m" "ab \<le> tx_abytes m" "ab \<noteq> 0 \<Longrightarrow> hb = tx_hbytes m" "hb + ab < tx_hbytes m + tx_abytes m"
    using Cons.prems(2) M(5) by (simp_all add: tx_pos_def)
  have len: "length (unsent hb ab (m # ms)) = tx_hbytes m + tx_abytes m - (hb + ab) + length (concat (map wire_bytes ms))"
    using pos M(5) by (simp add: unsent_def)
  consider "n < tx_hbytes m - hb" | "tx_hbytes m - hb \<le> n" "n - (tx_hbytes m - hb) < tx_abytes m - ab"
    | "tx_hbytes m - hb \<le> n" "tx_abytes m - ab \<le> n - (tx_hbytes m - hb)" using not_less by blast
  then show ?case
  proof cases
    case 1
    have "unsent (hb + n) ab (m # ms) = drop n (unsent hb ab (m # ms))"
      by (simp only: unsent_def drop_drop add_ac)
    moreover have "tx_pos (hb + n) ab (m # ms)" using 1 pos M(5) by (cases "ab = 0") (auto simp: tx_pos_def)
    ultimately show ?thesis using 1 by simp
  next
    case 2
    let ?a = "ab + (n - (tx_hbytes m - hb))"
    have k: "tx_hbytes m + ?a = n + (hb + ab)" using 2(1) pos(1) by simp
    have "unsent (tx_hbytes m) ?a (m # ms) = drop n (unsent hb ab (m # ms))"
      unfolding unsent_def k by (simp only: drop_drop)
    moreover have "tx_pos (tx_hbytes m) ?a (m # ms)" using 2 pos M(5) by (auto simp: tx_pos_def)
    ultimately show ?thesis using 2 by simp
  next
    case 3
    let ?k = "n - (tx_hbytes m - hb) - (tx_abytes m - ab)"
    obtain x y where xy: "tx_hbytes m = hb + x" "tx_abytes m = ab + y" using pos(1,2) le_Suc_ex by metis
    have k: "?k + (tx_hbytes m + tx_abytes m) = n + (hb + ab)" using 3 by (simp add: xy)
    have p0: "tx_pos 0 0 ms"
    proof (cases ms)
      case (Cons x xs)
      then have "64 \<le> length (wire_bytes x)" using ms wire_msgD(5,6) [of x] by simp
      then show ?thesis using Cons by (auto simp: tx_pos_def)
    qed (simp add: tx_pos_def)
    have "?k \<le> length (unsent 0 0 ms)" using Cons.prems(3) len 3 by (simp add: xy unsent_def)
    from Cons.IH [OF ms p0 this] obtain hb' ab' rest sent where i: "tx_clean ?k 0 0 ms = (0, hb', ab', rest, sent)"
      "ms = sent @ rest" "tx_pos hb' ab' rest" "unsent hb' ab' rest = drop ?k (unsent 0 0 ms)" by blast
    have "drop n (unsent hb ab (m # ms)) = drop (?k + (tx_hbytes m + tx_abytes m)) (concat (map wire_bytes (m # ms)))"
      unfolding k unsent_def by (simp only: drop_drop)
    also have "\<dots> = drop ?k (concat (map wire_bytes ms))" using M(5) by simp
    finally show ?thesis using 3 i by (auto simp: unsent_def)
  qed
qed

section \<open>The writer\<close>

definition tx_unsent :: "dmsg_ioq \<Rightarrow> u8 list" where
  "tx_unsent q = unsent (q_hbytes q) (q_abytes q) (msgq q)"

definition tx_ready :: "dmsg_link \<Rightarrow> bool" where
  "tx_ready l \<longleftrightarrow> plain l \<and> q_error (ioq_tx l) = 0 \<and> (\<forall>m\<in>set (msgq (ioq_tx l)). wire_msg m) \<and>
     tx_pos (q_hbytes (ioq_tx l)) (q_abytes (ioq_tx l)) (msgq (ioq_tx l)) \<and>
     fifo_beg (ioq_tx l) = fifo_cdx (ioq_tx l) \<and> length (q_buf (ioq_tx l)) = DMSG_BUF_SIZE"

lemma upd_tx_wp [wp_simps]: "wp (upd_tx f) Q = (\<lambda>l. Q () (l\<lparr>ioq_tx := f (ioq_tx l)\<rparr>))"
  by (simp add: upd_tx_def wp_simps)

text \<open>The queue after \<open>n\<close> more bytes have been written.\<close>

lemma tx_clean_ready:
  assumes r: "tx_ready l" and n: "n \<le> length (tx_unsent (ioq_tx l))"
  obtains hb ab rest sent where "tx_clean n (q_hbytes (ioq_tx l)) (q_abytes (ioq_tx l)) (msgq (ioq_tx l)) = (0, hb, ab, rest, sent)"
    and "msgq (ioq_tx l) = sent @ rest" and "tx_pos hb ab rest" and "unsent hb ab rest = drop n (tx_unsent (ioq_tx l))"
    and "\<forall>m\<in>set rest. wire_msg m"
proof -
  have w: "\<forall>m\<in>set (msgq (ioq_tx l)). wire_msg m" "tx_pos (q_hbytes (ioq_tx l)) (q_abytes (ioq_tx l)) (msgq (ioq_tx l))"
    using r by (simp_all add: tx_ready_def)
  from tx_clean_spec [OF w n [unfolded tx_unsent_def]] that w(1) show ?thesis unfolding tx_unsent_def by fastforce
qed

definition tx_post :: "dmsg_link \<Rightarrow> dmsg_msg list \<Rightarrow> dmsg_link \<Rightarrow> bool" where
  "tx_post l sent l' \<longleftrightarrow> tx_ready l' \<and> q_seq (ioq_tx l') = q_seq (ioq_tx l) \<and> msgq (ioq_tx l) = sent @ msgq (ioq_tx l') \<and>
     (\<exists>bs. sock_out l' = sock_out l @ bs \<and> bs @ tx_unsent (ioq_tx l') = tx_unsent (ioq_tx l) \<and>
       (msgq (ioq_tx l) \<noteq> [] \<longrightarrow> (\<exists>n ds. departures l = Write_some (Suc n) # ds) \<longrightarrow> bs \<noteq> [])) \<and>
     departures l' = (if msgq (ioq_tx l) = [] then departures l else tl (departures l))"

lemma flush2_wp:
  assumes r: "tx_ready l" and d: "Write_error \<notin> set (departures l)"
  shows "wp (dmsg_iocom_flush2 pending) (tx_post l) l"
proof -
  let ?q = "ioq_tx l"
  have q: "plain l" "q_error ?q = 0" "\<forall>m\<in>set (msgq ?q). wire_msg m" "tx_pos (q_hbytes ?q) (q_abytes ?q) (msgq ?q)"
    "fifo_beg ?q = fifo_cdx ?q" "length (q_buf ?q) = DMSG_BUF_SIZE" using r by (simp_all add: tx_ready_def)
  have lim: "0 < length (q_buf ?q) div 2" "0 < DMSG_IOQ_MAXIOVEC"
    using q(6) by (simp_all add: DMSG_BUF_SIZE_def DMSG_HDR_MAX_def DMSG_IOQ_MAXIOVEC_def)
  have pos: "\<And>m ms. msgq ?q = m # ms \<Longrightarrow> q_hbytes ?q \<le> tx_hbytes m \<and> q_abytes ?q \<le> tx_abytes m \<and>
      (q_abytes ?q \<noteq> 0 \<longrightarrow> q_hbytes ?q = tx_hbytes m)" "msgq ?q = [] \<Longrightarrow> q_hbytes ?q = 0 \<and> q_abytes ?q = 0"
    using q(4) by (simp_all add: tx_pos_def)
  obtain iov rest where iov: "build_iov (length (q_buf ?q) div 2) 0 (q_hbytes ?q) (q_abytes ?q) (msgq ?q) = Inr iov"
    "concat iov @ rest = tx_unsent ?q"
    "\<And>m ms. msgq ?q = m # ms \<Longrightarrow> q_hbytes ?q + q_abytes ?q < length (wire_bytes m) \<Longrightarrow> concat iov \<noteq> []"
    using build_iov_prefix [OF q(3) lim, of "q_hbytes ?q" "q_abytes ?q"] pos unfolding tx_unsent_def unsent_def by auto
  have ne: "msgq ?q \<noteq> [] \<Longrightarrow> concat iov \<noteq> []" using iov(3) q(4) by (cases "msgq ?q") (auto simp: tx_pos_def)
  have em: "msgq ?q = [] \<Longrightarrow> iov = []" using iov(1) by auto
  have cryp: "has (io_flags l) DMSG_IOCOMF_CRYPTED = False" using q(1) by (simp add: plain_def)
  show ?thesis
  proof (cases "iov = []")
    case True
    then have "msgq ?q = []" using ne by auto
    with True q r iov(1) show ?thesis
      by (simp add: dmsg_iocom_flush2_def wp_simps tx_post_def)
  next
    case False
    then have qn: "msgq ?q \<noteq> []" using em by auto
    have step: "wp (flush2_clean pending nact n) (tx_post l)
         (l\<lparr>departures := tl (departures l), sock_out := sock_out l @ take nact (concat iov)\<rparr>)"
      if n: "n \<noteq> Write_error" and nact: "nact \<le> length (concat iov)"
        and prog: "(\<exists>n ds. departures l = Write_some (Suc n) # ds) \<Longrightarrow> nact \<noteq> 0" for n nact
    proof -
      have "nact \<le> length (tx_unsent ?q)" using nact unfolding iov(2) [symmetric] by simp
      then obtain hb ab rst sent where c: "tx_clean nact (q_hbytes ?q) (q_abytes ?q) (msgq ?q) = (0, hb, ab, rst, sent)"
        "msgq ?q = sent @ rst" "tx_pos hb ab rst" "unsent hb ab rst = drop nact (tx_unsent ?q)" "\<forall>m\<in>set rst. wire_msg m"
        using tx_clean_ready [OF r] by metis
      have str: "take nact (concat iov) @ unsent hb ab rst = tx_unsent ?q"
        unfolding c(4) iov(2) [symmetric] using nact by (simp add: append_assoc [symmetric] del: append_assoc)
      have pl: "plain (l'\<lparr>io_flags := io_flags l OR DMSG_IOCOMF_WREQ\<rparr>)" "plain (l'\<lparr>io_flags := io_flags l OR DMSG_IOCOMF_WWORK\<rparr>)" for l'
        using cryp by (simp_all add: plain_def has_crypted bit_simps bit_iocomf)
      show ?thesis
        using n c q qn str pl ne prog
        by (cases n) (auto simp: flush2_clean_def wp_simps flush2_result_def tx_post_def tx_ready_def tx_unsent_def plain_def)
    qed
    have "wp (flush2_write iov) (\<lambda>x. wp (case x of (nact, n) \<Rightarrow> flush2_clean pending nact n) (tx_post l)) l"
    proof (cases "departures l")
      case Nil
      have id: "l\<lparr>departures := tl (departures l), sock_out := sock_out l @ take 0 (concat iov)\<rparr> = l" using Nil by simp
      show ?thesis
        using step [of Write_again 0, unfolded id] Nil cryp by (simp add: flush2_write_def wp_simps sock_writev_def)
    next
      case (Cons w ws)
      show ?thesis
      proof (cases w)
        case (Write_some k)
        have tk: "take (min (length (concat iov)) k) (concat iov) = take k (concat iov)" by (simp add: min_def)
        have "wp (flush2_clean pending (min (length (concat iov)) k) (Write_some (min (length (concat iov)) k))) (tx_post l)
            (l\<lparr>departures := ws, sock_out := sock_out l @ take k (concat iov)\<rparr>)"
          using step [of "Write_some (min (length (concat iov)) k)" "min (length (concat iov)) k", unfolded tk]
            Cons Write_some ne qn by auto
        then show ?thesis
          using Cons Write_some cryp by (simp add: flush2_write_def wp_simps sock_writev_def Let_def)
      next
        case Write_again
        have id: "l\<lparr>departures := tl (departures l), sock_out := sock_out l @ take 0 (concat iov)\<rparr> = l\<lparr>departures := ws\<rparr>"
          using Cons by simp
        show ?thesis
          using step [of Write_again 0, unfolded id] Cons Write_again cryp by (simp add: flush2_write_def wp_simps sock_writev_def)
      qed (use d Cons in simp)
    qed
    with False q iov(1) show ?thesis
      by (simp add: dmsg_iocom_flush2_def wp_simps)
  qed
qed

section \<open>A run of the writer\<close>

text \<open>The messages as \<open>dmsg_iocom_flush1\<close> numbers them.\<close>

fun numbered :: "(u32 \<Rightarrow> u32) \<Rightarrow> u32 \<Rightarrow> dmsg_msg list \<Rightarrow> dmsg_msg list" where
  "numbered rnd sq [] = []"
| "numbered rnd sq (m # ms) = tx_prepare (rnd sq) sq m # numbered rnd (sq + 1) ms"

lemma numbered_append: "numbered rnd sq (as @ bs) = numbered rnd sq as @ numbered rnd (sq + of_nat (length as)) bs"
  by (induction as arbitrary: sq) (simp_all add: add.assoc add.commute)

lemma numbered_wire: "\<forall>m\<in>set ms. sendable m \<Longrightarrow> \<forall>m\<in>set (numbered rnd sq ms). wire_msg m"
  by (induction ms arbitrary: sq) (auto simp: prepare_wire)

lemma numbered_sequence: "in_sequence sq (numbered rnd sq ms)"
  by (induction ms arbitrary: sq) (auto simp: prepare_salt [simplified])

lemma fold_flush1:
  assumes "q_error q = 0"
  shows "fold (flush1_msg rnd) ms q = q\<lparr>msgq := msgq q @ numbered rnd (q_seq q) ms,
    q_seq := q_seq q + of_nat (length ms), msgcount := msgcount q + int (length ms)\<rparr>"
  using assms by (induction ms arbitrary: q) (simp_all add: flush1_msg_def add.assoc add.commute)

text \<open>
  The writer thread: each round takes the messages queued since the last one and flushes.  The rounds stand for
  the passes of the loop of \<open>dmsg_iocom_core\<close> that find the socket writable.
\<close>

fun tx_rounds :: "(u32 \<Rightarrow> u32) \<Rightarrow> dmsg_msg list list \<Rightarrow> dmsg_msg list lio" where
  "tx_rounds rnd [] = returnS []"
| "tx_rounds rnd (ms # rounds) =
     bindS (dmsg_iocom_flush1 rnd ms) (\<lambda>sent.
     bindS (tx_rounds rnd rounds) (\<lambda>sent'.
     returnS (sent @ sent')))"

text \<open>Everything queued so far, \<open>ms\<close>, is freed, queued or in between; \<open>n\<close> bytes are not written.\<close>

definition tx_state :: "(u32 \<Rightarrow> u32) \<Rightarrow> dmsg_msg list \<Rightarrow> dmsg_msg list \<Rightarrow> dmsg_link \<Rightarrow> bool" where
  "tx_state rnd ms sent l \<longleftrightarrow> tx_ready l \<and> q_seq (ioq_tx l) = of_nat (length ms) \<and>
     sent @ msgq (ioq_tx l) = numbered rnd 0 ms \<and>
     sock_out l @ tx_unsent (ioq_tx l) = concat (map wire_bytes (numbered rnd 0 ms))"

lemma unsent_append:
  assumes "\<forall>m\<in>set xs. wire_msg m" and "tx_pos hb ab xs"
  shows "unsent hb ab (xs @ ys) = unsent hb ab xs @ concat (map wire_bytes ys)" and "tx_pos hb ab (xs @ ys) \<or> xs = []"
  using assms wire_msgD(5) by (cases xs; fastforce simp: unsent_def tx_pos_def)+

lemma tx_todo:
  assumes "tx_ready l"
  shows "tx_unsent (ioq_tx l) = [] \<longleftrightarrow> msgq (ioq_tx l) = []"
  using assms by (cases "msgq (ioq_tx l)") (auto simp: tx_ready_def tx_unsent_def unsent_def tx_pos_def)

definition tx_queued :: "(u32 \<Rightarrow> u32) \<Rightarrow> dmsg_msg list \<Rightarrow> dmsg_link \<Rightarrow> dmsg_link" where
  "tx_queued rnd new l = l\<lparr>io_flags := io_flags l AND NOT (DMSG_IOCOMF_WREQ OR DMSG_IOCOMF_WWORK),
     ioq_tx := fold (flush1_msg rnd) new (ioq_tx l)\<rparr>"

lemma tx_queued:
  assumes t: "tx_state rnd ms sent l" and new: "\<forall>m\<in>set new. sendable m"
  shows "tx_state rnd (ms @ new) sent (tx_queued rnd new l)" and "departures (tx_queued rnd new l) = departures l"
    and "tx_unsent (ioq_tx (tx_queued rnd new l)) =
      tx_unsent (ioq_tx l) @ concat (map wire_bytes (numbered rnd (of_nat (length ms)) new))"
proof -
  let ?q = "ioq_tx l" and ?new = "numbered rnd (of_nat (length ms)) new"
  have q: "plain l" "q_error ?q = 0" "\<forall>m\<in>set (msgq ?q). wire_msg m" "tx_pos (q_hbytes ?q) (q_abytes ?q) (msgq ?q)"
    "fifo_beg ?q = fifo_cdx ?q" "length (q_buf ?q) = DMSG_BUF_SIZE" "q_seq ?q = of_nat (length ms)"
    using t by (simp_all add: tx_state_def tx_ready_def)
  have w: "\<forall>m\<in>set ?new. wire_msg m" by (rule numbered_wire [OF new])
  have "tx_pos (q_hbytes ?q) (q_abytes ?q) ?new" if "msgq ?q = []"
    using that q(4) w wire_msgD(5,6) [of "hd ?new"] by (cases ?new) (auto simp: tx_pos_def)
  then have p: "tx_pos (q_hbytes ?q) (q_abytes ?q) (msgq ?q @ ?new)"
    using unsent_append(2) [OF q(3,4), of ?new] by auto
  show u: "tx_unsent (ioq_tx (tx_queued rnd new l)) = tx_unsent ?q @ concat (map wire_bytes ?new)"
    using unsent_append(1) [OF q(3,4), of ?new] q(7)
    by (simp add: tx_queued_def fold_flush1 [OF q(2)] tx_unsent_def)
  have pl: "plain (tx_queued rnd new l)" using q(1) by (simp add: tx_queued_def plain_def has_crypted bit_simps)
  have tr: "tx_ready (tx_queued rnd new l)"
    using pl q p w by (auto simp: tx_ready_def tx_queued_def fold_flush1)
  have fm: "msgq (ioq_tx (tx_queued rnd new l)) = msgq ?q @ ?new"
    "q_seq (ioq_tx (tx_queued rnd new l)) = of_nat (length ms) + of_nat (length new)"
    "sock_out (tx_queued rnd new l) = sock_out l"
    using q(2,7) by (simp_all add: tx_queued_def fold_flush1)
  have s: "sent @ msgq ?q = numbered rnd 0 ms" "sock_out l @ tx_unsent ?q = concat (map wire_bytes (numbered rnd 0 ms))"
    using t by (simp_all add: tx_state_def)
  show "tx_state rnd (ms @ new) sent (tx_queued rnd new l)"
    unfolding tx_state_def u fm numbered_append map_append concat_append s(2) [symmetric]
    using tr s(1) by (simp add: append_assoc [symmetric] del: append_assoc)
  show "departures (tx_queued rnd new l) = departures l" by (simp add: tx_queued_def)
qed

lemma flush1_wp:
  assumes t: "tx_state rnd ms sent l" and new: "\<forall>m\<in>set new. sendable m" and d: "Write_error \<notin> set (departures l)"
  shows "wp (dmsg_iocom_flush1 rnd new) (\<lambda>s l'. tx_state rnd (ms @ new) (sent @ s) l' \<and>
    tx_post (tx_queued rnd new l) s l') l"
proof -
  note q = tx_queued [OF t new]
  have tr: "tx_ready (tx_queued rnd new l)" using q(1) by (simp add: tx_state_def)
  have "wp (dmsg_iocom_flush2 False) (\<lambda>s l'. tx_state rnd (ms @ new) (sent @ s) l' \<and> tx_post (tx_queued rnd new l) s l')
      (tx_queued rnd new l)"
    by (rule wp_mono [OF flush2_wp [OF tr]]) (use q(1,2) d in \<open>auto simp: tx_state_def tx_post_def\<close>)
  then show ?thesis by (simp add: dmsg_iocom_flush1_def wp_simps tx_queued_def)
qed

lemma tx_rounds_wp:
  assumes "tx_state rnd ms sent l" and "\<forall>m\<in>set (concat rounds). sendable m" and "Write_error \<notin> set (departures l)"
  shows "wp (tx_rounds rnd rounds) (\<lambda>s l'. tx_state rnd (ms @ concat rounds) (sent @ s) l') l"
  using assms
proof (induction rounds arbitrary: ms sent l)
  case Nil
  then show ?case by (simp add: wp_return)
next
  case (Cons new rounds)
  have n: "\<forall>m\<in>set new. sendable m" "\<forall>m\<in>set (concat rounds). sendable m" using Cons.prems(2) by auto
  have "wp (dmsg_iocom_flush1 rnd new) (\<lambda>s. wp (tx_rounds rnd rounds)
      (\<lambda>s' l'. tx_state rnd (ms @ new @ concat rounds) (sent @ s @ s') l')) l"
  proof (rule wp_mono [OF flush1_wp [OF Cons.prems(1) n(1) Cons.prems(3)]])
    fix s l'
    assume a: "tx_state rnd (ms @ new) (sent @ s) l' \<and> tx_post (tx_queued rnd new l) s l'"
    have "set (departures l') \<subseteq> set (departures l)"
      using a by (cases "departures l") (auto simp: tx_post_def tx_queued_def split: if_splits)
    then have "Write_error \<notin> set (departures l')" using Cons.prems(3) by auto
    with Cons.IH [OF _ n(2), of "ms @ new" "sent @ s" l'] a
    show "wp (tx_rounds rnd rounds) (\<lambda>s' l'. tx_state rnd (ms @ new @ concat rounds) (sent @ s @ s') l') l'" by simp
  qed
  then show ?case by (simp add: wp_bind wp_return)
qed

lemma tx_rounds_empty:
  assumes "tx_state rnd ms sent l" and "\<forall>d\<in>set (departures l). \<exists>k. d = Write_some (Suc k)"
    and "length (tx_unsent (ioq_tx l)) \<le> n" and "n \<le> length (departures l)"
  shows "wp (tx_rounds rnd (replicate n [])) (\<lambda>s l'. tx_state rnd ms (sent @ s) l' \<and> msgq (ioq_tx l') = []) l"
  using assms
proof (induction n arbitrary: sent l)
  case 0
  then show ?case using tx_todo [of l] by (simp add: wp_return tx_state_def)
next
  case (Suc n)
  have e: "Write_error \<notin> set (departures l)" using Suc.prems(2) by auto
  have "wp (dmsg_iocom_flush1 rnd []) (\<lambda>s. wp (tx_rounds rnd (replicate n []))
      (\<lambda>s' l'. tx_state rnd ms (sent @ s @ s') l' \<and> msgq (ioq_tx l') = [])) l"
  proof (rule wp_mono [OF flush1_wp [OF Suc.prems(1) _ e]])
    fix s l'
    assume a: "tx_state rnd (ms @ []) (sent @ s) l' \<and> tx_post (tx_queued rnd [] l) s l'"
    obtain k ds where ds: "departures l = Write_some (Suc k) # ds" using Suc.prems(2,4) by (cases "departures l") auto
    have st: "tx_state rnd ms (sent @ s) l'" and p: "tx_post (tx_queued rnd [] l) s l'" using a by simp_all
    have q: "msgq (ioq_tx (tx_queued rnd [] l)) = msgq (ioq_tx l)" "departures (tx_queued rnd [] l) = departures l"
      "tx_unsent (ioq_tx (tx_queued rnd [] l)) = tx_unsent (ioq_tx l)" by (simp_all add: tx_queued_def)
    have tr: "tx_ready l" using Suc.prems(1) by (simp add: tx_state_def)
    have dep: "\<forall>d\<in>set (departures l'). \<exists>k. d = Write_some (Suc k)" "n \<le> length (departures l')"
      using p Suc.prems(2,4) ds by (auto simp: tx_post_def q split: if_splits)
    obtain bs where bs: "bs @ tx_unsent (ioq_tx l') = tx_unsent (ioq_tx l)" "msgq (ioq_tx l) \<noteq> [] \<Longrightarrow> bs \<noteq> []"
      using p ds by (auto simp: tx_post_def q)
    have "length (tx_unsent (ioq_tx l')) \<le> n"
      using Suc.prems(3) bs tx_todo [OF tr] unfolding bs(1) [symmetric] by (cases bs) auto
    with Suc.IH [OF st dep(1) _ dep(2)]
    show "wp (tx_rounds rnd (replicate n [])) (\<lambda>s' l'. tx_state rnd ms (sent @ s @ s') l' \<and> msgq (ioq_tx l') = []) l'"
      by simp
  qed simp
  then show ?case by (simp add: wp_bind wp_return)
qed

end
