(* ===== verification/Dmsg_Safety.thy ===== *)
theory Dmsg_Safety
  imports Dmsg_Stream
begin

text \<open>
  Reception of arbitrary bytes: whatever a peer sends and however it is cut, \<open>dmsg_ioq_read\<close> stays within the
  staging buffer and the buffers of the message, and no assertion fails but the one on the checksum of the
  header.
\<close>

text \<open>The one assertion that a peer can make fail.\<close>

abbreviation rx_stops :: "stop set" where
  "rx_stops \<equiv> {Assert_failed ''ioq_read: BAD-XCRC''}"

definition aux_fits :: "dmsg_ioq \<Rightarrow> dmsg_msg \<Rightarrow> bool" where
  "aux_fits q m \<longleftrightarrow> 64 \<le> q_hbytes q \<and> q_hbytes q \<le> DMSG_HDR_MAX \<and>
     (q_abytes q \<noteq> 0 \<longrightarrow> (\<exists>aux. aux_data m = Some aux \<and> length aux = q_abytes q))"

definition rx_safe :: "dmsg_ioq \<Rightarrow> bool" where
  "rx_safe q \<longleftrightarrow> fifo_ok q \<and> q_error q = 0 \<and>
     (case q_state q of
        MSGQ_HEADER1 \<Rightarrow> q_msg q = None
      | MSGQ_HEADER2 \<Rightarrow> (\<exists>m. q_msg q = Some m \<and> aux_fits q m) \<and> q_hbytes q \<le> length (fifo q) + (DMSG_BUF_SIZE - fifo_end q)
      | MSGQ_AUXDATA2 \<Rightarrow> (\<exists>m. q_msg q = Some m \<and> aux_fits q m \<and> aux_size m < q_abytes q) \<and> fifo q = []
      | _ \<Rightarrow> False)"

definition rx_kept :: "dmsg_msg option \<Rightarrow> dmsg_link \<Rightarrow> bool" where
  "rx_kept r l \<longleftrightarrow> plain l \<and>
     (case r of
        None \<Rightarrow> if q_error (ioq_rx l) \<noteq> 0 then q_msg (ioq_rx l) = None else rx_safe (ioq_rx l)
      | Some m \<Rightarrow> q_msg (ioq_rx l) = Some m \<and> (q_error (ioq_rx l) \<noteq> 0 \<or> fifo_ok (ioq_rx l)))"

lemma wlp_upd [wlp_simps]:
  "wlp E (upd_rx f) Q = (\<lambda>l. Q () (l\<lparr>ioq_rx := f (ioq_rx l)\<rparr>))"
  "wlp E (set_msg m) Q = (\<lambda>l. Q () (l\<lparr>ioq_rx := (ioq_rx l)\<lparr>q_msg := Some m\<rparr>\<rparr>))"
  "wlp E (rx_error e) Q = (\<lambda>l. Q () (l\<lparr>ioq_rx := (ioq_rx l)\<lparr>q_error := e\<rparr>\<rparr>))"
  "wlp E (upd_tx f) Q = (\<lambda>l. Q () (l\<lparr>ioq_tx := f (ioq_tx l)\<rparr>))"
  "wlp E (set_flags w) Q = (\<lambda>l. Q () (l\<lparr>io_flags := io_flags l OR w\<rparr>))"
  "wlp E (clear_flags w) Q = (\<lambda>l. Q () (l\<lparr>io_flags := io_flags l AND NOT w\<rparr>))"
  by (simp_all add: upd_rx_def upd_tx_def set_msg_def rx_error_def set_flags_def clear_flags_def wlp_simps)

lemma makeroom_safe:
  assumes "fifo_ok q"
    and "\<And>b x e. fifo_ok (staged b x e q) \<Longrightarrow> fifo (staged b x e q) = fifo q \<Longrightarrow>
      needed \<le> length (fifo q) + (DMSG_BUF_SIZE - e) div 2 \<or> e = length (fifo q) \<Longrightarrow>
      Q (DMSG_BUF_SIZE - e) (rx_at (staged b x e q) as l)"
  shows "wlp E (makeroom needed) Q (rx_at q as l)"
  by (rule wp_wlp, rule makeroom_wp [OF assms(1)]) (rule assms(2))

lemma sock_read_room: "sock_read nmax as = (Data bs, as') \<Longrightarrow> length bs \<le> nmax"
  by (cases "(nmax, as)" rule: sock_read.cases) auto

text \<open>Whatever the socket gives, as much as there is room is added to the staging buffer.\<close>

lemma fill_safe:
  assumes p: "plain l" and ok: "fifo_ok q"
    and err: "\<And>q' as'. q_error q' \<noteq> 0 \<Longrightarrow> q_msg q' = q_msg q \<Longrightarrow> Q (rx_at q' as' l)"
    and fill: "\<And>b e as'. fifo_ok (staged b (fifo_beg q) e q) \<Longrightarrow> fifo_end q \<le> e \<Longrightarrow>
      wlp E k R (rx_at (staged b (fifo_beg q) e q) as' l)"
  shows "wlp E (rx_fill (DMSG_BUF_SIZE - fifo_end q)) (\<lambda>g l'. if g then wlp E (bindS rx_decrypt (\<lambda>_. k)) R l' else Q l')
    (rx_at q as l)"
proof -
  obtain r as' where r: "sock_read (DMSG_BUF_SIZE - fifo_end q) as = (r, as')" by fastforce
  have len: "length (q_buf q) = DMSG_BUF_SIZE" "fifo_end q \<le> DMSG_BUF_SIZE" "fifo_cdx q = fifo_end q"
    "fifo_cdn q = fifo_end q" "fifo_beg q \<le> fifo_end q" using ok by (simp_all add: fifo_ok_def)
  have e: "DMSG_IOQ_ERROR_EOF \<noteq> 0" "DMSG_IOQ_ERROR_SOCK \<noteq> 0" by (simp_all add: DMSG_IOQ_ERROR_EOF_def DMSG_IOQ_ERROR_SOCK_def)
  have cr: "\<not> has (io_flags l) DMSG_IOCOMF_CRYPTED" using p by (simp add: plain_def)
  show ?thesis
  proof (cases r)
    case (Data bs)
    then have "length bs \<le> DMSG_BUF_SIZE - fifo_end q" using r sock_read_room by auto
    then have bs: "fifo_end q + length bs \<le> DMSG_BUF_SIZE" using len(2) by simp
    let ?b = "overwrite (q_buf q) (fifo_end q) bs" and ?e = "fifo_end q + length bs"
    have "fifo_ok (staged ?b (fifo_beg q) ?e q)" using bs len by (simp add: fifo_ok_def)
    from fill [OF this] have "wlp E k R (rx_at (staged ?b (fifo_beg q) ?e q) as' l)" by simp
    moreover have "q\<lparr>q_buf := ?b, fifo_end := ?e, fifo_cdx := ?e, fifo_cdn := ?e\<rparr> = staged ?b (fifo_beg q) ?e q"
      by (simp add: staged_def)
    ultimately show ?thesis
      using r Data bs len e err cr by (simp add: rx_fill_def wlp_simps rx_decrypt_def)
  next
    case Read_again
    have "fifo_ok (staged (q_buf q) (fifo_beg q) (fifo_end q) q)" using len by (simp add: fifo_ok_def)
    from fill [OF this] have "wlp E k R (rx_at (staged (q_buf q) (fifo_beg q) (fifo_end q) q) as' l)" by simp
    moreover have "q\<lparr>fifo_cdx := fifo_end q, fifo_cdn := fifo_end q\<rparr> = staged (q_buf q) (fifo_beg q) (fifo_end q) q"
      by (simp add: staged_def)
    ultimately show ?thesis using r Read_again cr by (simp add: rx_fill_def wlp_simps rx_decrypt_def)
  next
    case Read_error
    then show ?thesis using r e err by (simp add: rx_fill_def wlp_simps)
  qed
qed

lemma fifo_shift:
  assumes "fifo_ok q" and "n \<le> length (fifo q)"
  shows "fifo_ok (q\<lparr>fifo_beg := fifo_beg q + n\<rparr>)" and "fifo (q\<lparr>fifo_beg := fifo_beg q + n\<rparr>) = drop n (fifo q)"
  using assms length_fifo [OF assms(1)] by (auto simp: fifo_ok_def fifo_def drop_take add.commute)

lemma auxcopy_safe:
  assumes p: "plain l" and ok: "fifo_ok q" and e0: "q_error q = 0" and st: "q_state q = MSGQ_AUXDATA2" and ab: "q_abytes q \<noteq> 0"
    and m: "aux_fits q msg" "aux_size msg \<le> q_abytes q" "q_msg q = Some msg"
  shows "wlp rx_stops (bindS (rx_auxcopy msg) rx_auxdone) rx_kept (rx_at q as l)"
proof -
  let ?n = "min (length (fifo q)) (q_abytes q - aux_size msg)"
  obtain aux where aux: "aux_data msg = Some aux" "length aux = q_abytes q" using m(1) ab by (auto simp: aux_fits_def)
  have len: "fifo_cdx q - fifo_beg q = length (fifo q)" using length_fifo [OF ok] by simp
  have d: "wlp rx_stops (rx_auxdone msg') rx_kept (rx_at q' as l)"
    if "fifo_ok q'" "q_error q' = 0" "q_state q' = MSGQ_AUXDATA2" "aux_fits q' msg'" "aux_size msg' \<le> q_abytes q'" "q_msg q' = Some msg'"
      "q_abytes q' \<noteq> 0" "aux_size msg' < q_abytes q' \<Longrightarrow> fifo q' = []" for q' msg'
    using that p unfolding rx_auxdone_def
    by (auto simp: wlp_simps rx_kept_def rx_safe_def aux_fits_def fifo_ok_def)
  show ?thesis
  proof (cases "?n = 0")
    case True
    then have "aux_size msg < q_abytes q \<Longrightarrow> fifo q = []" by (simp add: min_def split: if_splits)
    then show ?thesis
      using True len d [OF ok e0 st m(1,2,3) ab] by (simp add: wlp_simps rx_auxcopy_def del: neq0_conv)
  next
    case False
    define n where "n = ?n"
    define bs where "bs = take n (drop (fifo_beg q) (q_buf q))"
    have n: "n \<le> length (fifo q)" "aux_size msg + n \<le> q_abytes q" "aux_size msg + n < q_abytes q \<Longrightarrow> n = length (fifo q)"
      using m(2) by (auto simp: n_def)
    have tl: "length bs = n" using ok length_fifo [OF ok] n(1) by (auto simp: fifo_ok_def bs_def)
    define m' where "m' = msg\<lparr>aux_data := Some (overwrite aux (aux_size msg) bs), aux_size := aux_size msg + n\<rparr>"
    let ?q = "q\<lparr>q_msg := Some m', fifo_beg := fifo_beg q + n\<rparr>"
    have f: "fifo_ok ?q" "fifo ?q = drop n (fifo q)"
      using fifo_shift [of "q\<lparr>q_msg := Some m'\<rparr>" n] ok n(1) by simp_all
    have fit: "aux_fits ?q m'" "aux_size m' = aux_size msg + n"
      using m(1) aux tl n(2) by (simp_all add: aux_fits_def m'_def)
    have "wlp rx_stops (rx_auxdone m') rx_kept (rx_at ?q as l)"
      by (rule d [OF f(1) _ _ fit(1)]) (use e0 st ab fit(2) n f(2) in simp_all)
    then show ?thesis
      using False [folded n_def] len aux tl n(2) m(3)
      by (simp add: wlp_simps rx_auxcopy_def aux_copy_def n_def [symmetric] bs_def [symmetric] m'_def [symmetric] del: neq0_conv)
  qed
qed

lemma aux_fits_other [simp]:
  "aux_fits (staged b x e q) m = aux_fits q m" "aux_fits (q\<lparr>q_msg := r\<rparr>) m = aux_fits q m"
  "aux_fits (q\<lparr>q_state := y\<rparr>) m = aux_fits q m" "aux_fits (q\<lparr>fifo_beg := z\<rparr>) m = aux_fits q m"
  "aux_fits q (m\<lparr>aux_size := k\<rparr>) = aux_fits q m"
  by (simp_all add: aux_fits_def)

lemma buf_size: "0 < DMSG_BUF_SIZE" "2 * DMSG_HDR_MAX \<le> DMSG_BUF_SIZE" "64 \<le> DMSG_HDR_MAX"
  by (simp_all add: DMSG_BUF_SIZE_def DMSG_HDR_MAX_def)

lemma decrypt_safe:
  assumes "plain l" and "fifo_ok q"
  shows "wlp E (bindS rx_decrypt k) R (rx_at q as l) = wlp E (k ()) R (rx_at q as l)"
proof -
  have "q\<lparr>fifo_cdx := fifo_end q, fifo_cdn := fifo_end q\<rparr> = q" using assms(2) by (simp add: fifo_ok_def)
  with assms(1) show ?thesis by (simp add: rx_decrypt_def wlp_simps plain_def)
qed

lemma kept_error: "plain l \<Longrightarrow> q_error q \<noteq> 0 \<Longrightarrow> q_msg q = r \<Longrightarrow> rx_kept r (rx_at q as l)"
  by (simp add: rx_kept_def split: option.splits)

text \<open>The step all phases share: read if more is needed, then go on with what is there.\<close>

lemma fill_if_safe:
  assumes p: "plain l" and ok: "fifo_ok q" and m: "c \<Longrightarrow> m (rx_at q as l) = rx_fill (DMSG_BUF_SIZE - fifo_end q) (rx_at q as l)"
    and err: "\<And>q' as'. q_error q' \<noteq> 0 \<Longrightarrow> q_msg q' = q_msg q \<Longrightarrow> R r (rx_at q' as' l)"
    and go: "\<And>b e as'. fifo_ok (staged b (fifo_beg q) e q) \<Longrightarrow> fifo_end q \<le> e \<Longrightarrow>
      wlp E k R (rx_at (staged b (fifo_beg q) e q) as' l)"
  shows "wlp E (bindS (if c then m else returnS True) (\<lambda>goon. if \<not> goon then returnS r else bindS rx_decrypt (\<lambda>_. k))) R
    (rx_at q as l)"
proof (cases c)
  case True
  have "wlp E (rx_fill (DMSG_BUF_SIZE - fifo_end q)) (\<lambda>g l'. if g then wlp E (bindS rx_decrypt (\<lambda>_. k)) R l' else R r l')
      (rx_at q as l)"
    by (rule fill_safe [OF p ok]) (fact err, fact go)
  then have "wlp E m (\<lambda>g l'. if g then wlp E (bindS rx_decrypt (\<lambda>_. k)) R l' else R r l') (rx_at q as l)"
    by (simp add: wlp_def m [OF True])
  then show ?thesis
    unfolding wlp_bind [of E _ "\<lambda>goon. if \<not> goon then _ goon else _ goon"] using True
    by (auto simp: wlp_basic elim!: wlp_mono split: if_splits)
next
  case False
  have "staged (q_buf q) (fifo_beg q) (fifo_end q) q = q" using staged_self [OF ok] ok by (simp add: fifo_ok_def)
  with go [of "q_buf q" "fifo_end q" as] ok have "wlp E k R (rx_at q as l)" by simp
  with False show ?thesis by (simp add: wlp_bind [of _ "returnS _"] wlp_basic decrypt_safe [OF p ok])
qed

lemma auxdata2_safe:
  assumes p: "plain l" and ok: "fifo_ok q" and e0: "q_error q = 0" and st: "q_state q = MSGQ_AUXDATA2" and ab: "q_abytes q \<noteq> 0"
    and m: "aux_fits q msg" "aux_size msg \<le> q_abytes q" "q_msg q = Some msg"
    and b: "aux_size msg < q_abytes q \<Longrightarrow> fifo q = [] \<and> bytes = 0"
  shows "wlp rx_stops (rx_auxdata2 bytes msg) rx_kept (rx_at q as l)"
  unfolding rx_auxdata2_def wlp_bind [of _ "getS _"] wlp_basic wlp_bind [of _ "makeroom _"] rx_at_simps
proof (rule makeroom_safe [OF ok])
  fix buf x e
  let ?q = "staged buf x e q"
  assume r: "fifo_ok ?q" "fifo ?q = fifo q"
    "q_abytes q - aux_size msg \<le> length (fifo q) + (DMSG_BUF_SIZE - e) div 2 \<or> e = length (fifo q)"
  show "wlp rx_stops (bindS (if aux_size msg < q_abytes q then
      bindS (assertS (DMSG_BUF_SIZE - e > 0) ''ioq_read: nmax'') (\<lambda>_. bindS (assertS (bytes = 0) ''ioq_read: bytes'') (\<lambda>_.
      rx_fill (DMSG_BUF_SIZE - e))) else returnS True)
      (\<lambda>goon. if \<not> goon then returnS (Some msg) else bindS rx_decrypt (\<lambda>_. bindS (rx_auxcopy msg) rx_auxdone)))
      rx_kept (rx_at ?q as l)"
  proof (rule fill_if_safe [OF p r(1)])
    assume "aux_size msg < q_abytes q"
    with r(3) b buf_size(1) have "0 < DMSG_BUF_SIZE - e" "bytes = 0" by auto
    then show "bindS (assertS (DMSG_BUF_SIZE - e > 0) ''ioq_read: nmax'') (\<lambda>_. bindS (assertS (bytes = 0) ''ioq_read: bytes'') (\<lambda>_.
        rx_fill (DMSG_BUF_SIZE - e))) (rx_at ?q as l) = rx_fill (DMSG_BUF_SIZE - fifo_end ?q) (rx_at ?q as l)"
      by (simp add: bindS_def assertS_def)
  next
    fix b' e' as'
    assume "fifo_ok (staged b' (fifo_beg ?q) e' ?q)"
    then show "wlp rx_stops (bindS (rx_auxcopy msg) rx_auxdone) rx_kept (rx_at (staged b' (fifo_beg ?q) e' ?q) as' l)"
      by (rule auxcopy_safe [OF p]) (use e0 st ab m in simp_all)
  qed (rule kept_error [OF p], use m in simp_all)
qed

lemma auxdata1_safe:
  assumes p: "plain l" and ok: "fifo_ok q" and e0: "q_error q = 0" and ab: "q_abytes q \<noteq> 0" and m: "aux_fits q msg"
  shows "wlp rx_stops (rx_auxdata1 (length (fifo q)) msg) rx_kept (rx_at q as l)"
proof -
  obtain aux where aux: "aux_data msg = Some aux" "length aux = q_abytes q" using m ab by (auto simp: aux_fits_def)
  have len: "length (fifo q) = fifo_cdx q - fifo_beg q" "length (q_buf q) = DMSG_BUF_SIZE" "fifo_beg q \<le> fifo_cdx q"
    "fifo_cdn q = fifo_cdx q" "fifo_cdx q \<le> DMSG_BUF_SIZE"
    using length_fifo [OF ok] ok by (simp_all add: fifo_ok_def)
  have go: "wlp rx_stops (rx_auxdata2 bytes m') rx_kept (rx_at (q\<lparr>fifo_beg := fifo_beg q + n, q_msg := Some m', q_state := MSGQ_AUXDATA2\<rparr>) as l)"
    if "n \<le> length (fifo q)" "aux_fits q m'" "aux_size m' = n" "n \<le> q_abytes q" "n < q_abytes q \<Longrightarrow> n = length (fifo q) \<and> bytes = 0"
    for n m' bytes
  proof (rule auxdata2_safe [OF p])
    show "fifo_ok (q\<lparr>fifo_beg := fifo_beg q + n, q_msg := Some m', q_state := MSGQ_AUXDATA2\<rparr>)"
      using fifo_shift(1) [OF ok that(1)] by (simp add: fifo_ok_def)
    have "fifo (q\<lparr>fifo_beg := fifo_beg q + n, q_msg := Some m', q_state := MSGQ_AUXDATA2\<rparr>) = drop n (fifo q)"
      using fifo_shift(2) [OF ok that(1)] by (simp add: fifo_def)
    then show "fifo (q\<lparr>fifo_beg := fifo_beg q + n, q_msg := Some m', q_state := MSGQ_AUXDATA2\<rparr>) = [] \<and> bytes = 0"
      if "aux_size m' < q_abytes (q\<lparr>fifo_beg := fifo_beg q + n, q_msg := Some m', q_state := MSGQ_AUXDATA2\<rparr>)"
      using that \<open>aux_size m' = n\<close> \<open>n < q_abytes q \<Longrightarrow> n = length (fifo q) \<and> bytes = 0\<close> by simp
  qed (use that ab e0 in \<open>simp_all add: aux_fits_def\<close>)
  define n where "n = min (length (fifo q)) (q_abytes q)"
  define bs where "bs = take n (drop (fifo_beg q) (q_buf q))"
  define m' where "m' = msg\<lparr>aux_data := Some (overwrite aux 0 bs), aux_size := n\<rparr>"
  have lb: "length bs = n" using len by (auto simp: bs_def n_def)
  have fit: "aux_fits q m'" "aux_size m' = n" using m aux lb by (simp_all add: aux_fits_def m'_def n_def)
  show ?thesis
  proof (cases "q_abytes q \<le> length (fifo q)")
    case True
    then have n: "n = q_abytes q" by (simp add: n_def)
    have "fifo_beg q + q_abytes q \<le> fifo_cdx q" using True len by simp
    with True go [OF _ fit, of "length (fifo q) - q_abytes q"] n lb aux len show ?thesis
      by (simp add: rx_auxdata1_def wlp_simps aux_copy_def fifo_check_def bs_def [unfolded n, symmetric] m'_def [unfolded n, symmetric])
  next
    case False
    then have n: "n = length (fifo q)" by (simp add: n_def)
    show ?thesis
    proof (cases "length (fifo q) = 0")
      case True
      then show ?thesis
        using False go [of 0 "msg\<lparr>aux_size := 0\<rparr>" 0] m by (simp add: rx_auxdata1_def wlp_simps)
    next
      case nz: False
      have c: "fifo_beg q + n = fifo_cdx q" using len n by simp
      have w: "wlp rx_stops (rx_auxdata2 0 m') rx_kept (rx_at (q\<lparr>fifo_beg := fifo_beg q + n, q_msg := Some m', q_state := MSGQ_AUXDATA2\<rparr>) as l)"
        by (rule go [OF _ fit]) (use n False in simp_all)
      have eq: "q\<lparr>fifo_beg := y, fifo_cdx := fifo_cdx q, q_msg := u, q_state := v\<rparr> = q\<lparr>fifo_beg := y, q_msg := u, q_state := v\<rparr>" for y u v
        by simp
      have e: "\<not> q_abytes q \<le> n" "n \<noteq> 0" using False nz n by simp_all
      show ?thesis
        unfolding n [symmetric] rx_auxdata1_def
        using w e lb aux len(2,4) c eq
        by (simp add: wlp_simps aux_copy_def fifo_check_def bs_def [symmetric] m'_def [symmetric] del: neq0_conv)
    qed
  qed
qed

lemma header_done_safe:
  assumes p: "plain l" and ok: "fifo_ok q" and e0: "q_error q = 0" and m: "aux_fits q msg" and h: "q_hbytes q \<le> length (fifo q)"
  shows "wlp rx_stops (rx_header_done (length (fifo q)) msg) rx_kept (rx_at q as l)"
proof -
  let ?h = "q_hbytes q"
  let ?n = "fifo_beg q + ?h"
  have len: "length (fifo q) = fifo_cdx q - fifo_beg q" "length (q_buf q) = DMSG_BUF_SIZE" "fifo_beg q \<le> fifo_cdx q"
    "fifo_cdx q \<le> DMSG_BUF_SIZE" "64 \<le> ?h" using length_fifo [OF ok] ok m by (simp_all add: fifo_ok_def aux_fits_def)
  define raw where "raw = take ?h (drop (fifo_beg q) (q_buf q))"
  have rl: "length raw = ?h" "\<And>g. length (overwrite raw 0 (hdr_bytes g)) = ?h" using len h by (simp_all add: raw_def)
  have fin: "wlp rx_stops (if q_abytes q = 0 then returnS (Some m')
       else bindS (upd_rx (\<lambda>q. q\<lparr>q_state := MSGQ_AUXDATA1\<rparr>)) (\<lambda>_. rx_auxdata1 (length (fifo q) - ?h) m')) rx_kept
      (rx_at (q\<lparr>q_buf := b, q_msg := Some m', fifo_beg := ?n\<rparr>) as l)"
    if "length b = DMSG_BUF_SIZE" "aux_fits q m'" for b m'
  proof -
    let ?q = "q\<lparr>q_buf := b, q_msg := Some m', fifo_beg := ?n\<rparr>"
    have f: "fifo_ok ?q" "fifo_ok (?q\<lparr>q_state := MSGQ_AUXDATA1\<rparr>)" using ok that(1) h len(1) by (auto simp: fifo_ok_def)
    have "length (fifo (?q\<lparr>q_state := MSGQ_AUXDATA1\<rparr>)) = length (fifo q) - ?h"
      using length_fifo [OF f(2)] length_fifo [OF ok] by simp
    then have "wlp rx_stops (rx_auxdata1 (length (fifo q) - ?h) m') rx_kept (rx_at (?q\<lparr>q_state := MSGQ_AUXDATA1\<rparr>) as l)"
      if "q_abytes q \<noteq> 0"
      using auxdata1_safe [OF p f(2), of m' as] e0 that \<open>aux_fits q m'\<close> by (simp add: aux_fits_def)
    then show ?thesis using p f(1) by (simp add: wlp_simps rx_kept_def)
  qed
  have fit: "aux_fits q (msg\<lparr>head := g, ext := e\<rparr>)" for g e using m by (simp add: aux_fits_def)
  have bl: "length (overwrite (q_buf q) (fifo_beg q) (overwrite raw 0 (hdr_bytes g))) = DMSG_BUF_SIZE" for g
    using rl(2) len h by simp
  show ?thesis
    unfolding rx_header_done_def wlp_bind [of _ "getS _"] wlp_basic rx_at_simps Let_def raw_def [symmetric]
    using fin [OF bl fit] by (simp add: wlp_bind wlp_upd wlp_basic wlp_branches(1) if_distrib [of "\<lambda>c. wlp _ c _"] cong: if_cong)
qed

lemma header2_safe:
  assumes p: "plain l" and ok: "fifo_ok q" and e0: "q_error q = 0" and st: "q_state q = MSGQ_HEADER2" and m: "aux_fits q msg" "q_msg q = Some msg"
    and room: "q_hbytes q \<le> length (fifo q) + (DMSG_BUF_SIZE - fifo_end q)"
  shows "wlp rx_stops (rx_header2 (length (fifo q)) (DMSG_BUF_SIZE - fifo_end q) msg) rx_kept (rx_at q as l)"
  unfolding rx_header2_def wlp_bind [of _ "getS _"] wlp_basic rx_at_simps
proof (rule fill_if_safe [OF p ok])
  show "bindS (assertS (0 < DMSG_BUF_SIZE - fifo_end q) ''ioq_read: nmax'') (\<lambda>_. rx_fill (DMSG_BUF_SIZE - fifo_end q)) (rx_at q as l) =
      rx_fill (DMSG_BUF_SIZE - fifo_end q) (rx_at q as l)" if "length (fifo q) < q_hbytes q"
  proof -
    have "0 < DMSG_BUF_SIZE - fifo_end q" using that room by linarith
    then show ?thesis by (simp add: bindS_def assertS_def)
  qed
next
  fix b e as'
  let ?q = "staged b (fifo_beg q) e q"
  assume f: "fifo_ok ?q" "fifo_end q \<le> e"
  have len: "length (fifo ?q) = e - fifo_beg q" "length (fifo q) = fifo_end q - fifo_beg q" "fifo_beg q \<le> fifo_end q" "e \<le> DMSG_BUF_SIZE"
    using length_fifo [OF f(1)] length_fifo [OF ok] ok f(1) by (simp_all add: fifo_ok_def)
  have r: "q_hbytes q \<le> length (fifo ?q) + (DMSG_BUF_SIZE - e)" using room len f(2) by simp
  then have "rx_kept None (rx_at ?q as' l)"
    using p f(1) e0 st m by (simp add: rx_kept_def rx_safe_def)
  moreover have "wlp rx_stops (rx_header_done (length (fifo ?q)) msg) rx_kept (rx_at ?q as' l)" if "q_hbytes q \<le> length (fifo ?q)"
    by (rule header_done_safe [OF p f(1)]) (use e0 m that in simp_all)
  ultimately show "wlp rx_stops (bindS (getS ioq_rx) (\<lambda>q'. let bytes = fifo_cdx q' - fifo_beg q' in
      if bytes < q_hbytes q then returnS None else rx_header_done bytes msg)) rx_kept (rx_at ?q as' l)"
    using len(1) by (simp add: wlp_bind wlp_basic wlp_branches)
qed (rule kept_error [OF p], use m in simp_all)

lemma doalign_wraps: "unat (DMSG_DOALIGN32 x) = (if unat x + 63 < 2 ^ 32 then DMSG_DOALIGN (unat x) else 0)"
proof (cases "unat x + 63 < 2 ^ 32")
  case False
  have m: "(63 :: u32) = mask 6" by (simp add: mask_eq_exp_minus_1)
  have lt: "unat x < 2 ^ 32" using unsigned_less [of x, where ?'a = nat] by simp
  have "unat (x + 63) = (unat x + 63) mod 2 ^ 32" by (simp add: unat_word_ariths)
  also have "\<dots> = unat x + 63 - 2 ^ 32" using False lt by (simp add: mod_if)
  finally have "unat (x + 63) < 64" using lt by simp
  then show ?thesis using False unfolding DMSG_DOALIGN32_def by (simp add: m unat_and_not_mask)
qed (simp add: doalign32)

lemma alloc_fits:
  assumes "64 \<le> hb" and "hb \<le> DMSG_HDR_MAX"
  shows "aux_fits (q\<lparr>q_hbytes := hb, q_abytes := unat (DMSG_DOALIGN32 x), unaligned_aux_size := u, q_msg := r\<rparr>)
    (rx_alloc env s0 (unat x) hb)"
  using assms doalign_bounds(1) [of "unat x"]
  by (auto simp: aux_fits_def rx_alloc_def msg_aux_def doalign_wraps doalign_bounds(3) split: if_splits)

lemma core_header_safe:
  assumes p: "plain l" and ok: "fifo_ok q" and e0: "q_error q = 0" and st: "q_state q = MSGQ_HEADER1" "q_msg q = None"
  shows "wlp rx_stops (rx_core_header env s0 (length (fifo q))) rx_kept (rx_at q as l)"
proof -
  have err: "rx_kept None (rx_at (q'\<lparr>q_error := DMSG_IOQ_ERROR_SYNC\<rparr>) as l)" "rx_kept None (rx_at (q'\<lparr>q_error := DMSG_IOQ_ERROR_FIELD\<rparr>) as l)"
    if "q_msg q' = None" for q' 
    by (rule kept_error [OF p], use that in \<open>simp_all add: DMSG_IOQ_ERROR_SYNC_def DMSG_IOQ_ERROR_FIELD_def\<close>)+
  have go: "wlp rx_stops (makeroom hb) (\<lambda>nmax. wlp rx_stops (bindS (upd_rx (\<lambda>q. q\<lparr>q_state := MSGQ_HEADER2\<rparr>)) (\<lambda>_.
      rx_header2 (length (fifo q)) nmax (rx_alloc env s0 (unat x) hb))) rx_kept)
      (rx_at (q\<lparr>q_hbytes := hb, q_abytes := unat (DMSG_DOALIGN32 x), unaligned_aux_size := unat x,
        q_msg := Some (rx_alloc env s0 (unat x) hb)\<rparr>) as l)" if h: "64 \<le> hb" "hb \<le> DMSG_HDR_MAX" for hb x
  proof -
    let ?m = "rx_alloc env s0 (unat x) hb"
    let ?q = "q\<lparr>q_hbytes := hb, q_abytes := unat (DMSG_DOALIGN32 x), unaligned_aux_size := unat x, q_msg := Some ?m\<rparr>"
    have f: "fifo_ok ?q" "fifo ?q = fifo q" using ok by (simp_all add: fifo_ok_def fifo_def)
    show ?thesis
    proof (rule makeroom_safe [OF f(1)])
      fix b y e
      let ?s = "staged b y e ?q"
      assume r: "fifo_ok ?s" "fifo ?s = fifo ?q" "hb \<le> length (fifo ?q) + (DMSG_BUF_SIZE - e) div 2 \<or> e = length (fifo ?q)"
      have e: "e \<le> DMSG_BUF_SIZE" using r(1) by (simp add: fifo_ok_def)
      have room: "hb \<le> length (fifo q) + (DMSG_BUF_SIZE - e)" using r(3) f(2) h(2) buf_size(2) e by auto
      have "wlp rx_stops (rx_header2 (length (fifo (?s\<lparr>q_state := MSGQ_HEADER2\<rparr>))) (DMSG_BUF_SIZE - fifo_end (?s\<lparr>q_state := MSGQ_HEADER2\<rparr>)) ?m)
          rx_kept (rx_at (?s\<lparr>q_state := MSGQ_HEADER2\<rparr>) as l)"
        by (rule header2_safe [OF p]) (use e0 r(1,2) f(2) room alloc_fits [OF h] in simp_all)
      then show "wlp rx_stops (bindS (upd_rx (\<lambda>q. q\<lparr>q_state := MSGQ_HEADER2\<rparr>)) (\<lambda>_.
          rx_header2 (length (fifo q)) (DMSG_BUF_SIZE - e) ?m)) rx_kept (rx_at ?s as l)"
        using r(2) f(2) by (simp add: wlp_bind wlp_upd)
    qed
  qed
  show ?thesis
    unfolding rx_core_header_def wlp_bind wlp_basic rx_at_simps Let_def
    using err go st by (simp add: wlp_bind wlp_upd wlp_basic wlp_branches(1) not_less del: not_less_eq_eq cong: if_cong)
qed

lemma header1_safe:
  assumes p: "plain l" and ok: "fifo_ok q" and e0: "q_error q = 0" and st: "q_state q = MSGQ_HEADER1" "q_msg q = None"
  shows "wlp rx_stops (rx_header1 env s0 (length (fifo q))) rx_kept (rx_at q as l)"
  unfolding rx_header1_def wlp_bind [of _ "makeroom _"]
proof (rule makeroom_safe [OF ok])
  fix b x e
  let ?q = "staged b x e q"
  assume r: "fifo_ok ?q" "fifo ?q = fifo q"
  show "wlp rx_stops (bindS (if length (fifo q) < 64 then rx_fill (DMSG_BUF_SIZE - e) else returnS True) (\<lambda>goon.
      if \<not> goon then returnS None else bindS rx_decrypt (\<lambda>_. bindS (getS ioq_rx) (\<lambda>q. let bytes = fifo_cdx q - fifo_beg q in
      bindS (assertS (q_msg q = None) ''ioq_read: msg == NULL'') (\<lambda>_.
      if bytes < 64 then returnS None else rx_core_header env s0 bytes))))) rx_kept (rx_at ?q as l)"
  proof (rule fill_if_safe [OF p r(1)])
    fix b' e' as'
    let ?s = "staged b' (fifo_beg ?q) e' ?q"
    assume f: "fifo_ok ?s"
    have "rx_kept None (rx_at ?s as' l)" using p f e0 st by (simp add: rx_kept_def rx_safe_def)
    moreover have "wlp rx_stops (rx_core_header env s0 (length (fifo ?s))) rx_kept (rx_at ?s as' l)"
      by (rule core_header_safe [OF p f]) (use e0 st in simp_all)
    ultimately show "wlp rx_stops (bindS (getS ioq_rx) (\<lambda>q. let bytes = fifo_cdx q - fifo_beg q in
        bindS (assertS (q_msg q = None) ''ioq_read: msg == NULL'') (\<lambda>_.
        if bytes < 64 then returnS None else rx_core_header env s0 bytes))) rx_kept (rx_at ?s as' l)"
      using st length_fifo [OF f] by (simp add: wlp_bind wlp_basic wlp_assert wlp_branches)
  qed (use st in \<open>simp_all add: kept_error [OF p]\<close>)
qed

definition rx_sound :: "dmsg_link \<Rightarrow> bool" where
  "rx_sound l \<longleftrightarrow> plain l \<and> (if q_error (ioq_rx l) \<noteq> 0 then q_msg (ioq_rx l) = None else rx_safe (ioq_rx l))"

lemma switch_safe:
  assumes p: "plain l" and s: "rx_safe (ioq_rx l)"
  shows "wlp rx_stops (rx_switch env s0) rx_kept l"
proof -
  let ?q = "ioq_rx l"
  have ok: "fifo_ok ?q" "q_error ?q = 0" using s by (simp_all add: rx_safe_def)
  have len: "fifo_cdx ?q - fifo_beg ?q = length (fifo ?q)" "length (q_buf ?q) = DMSG_BUF_SIZE"
    using length_fifo [OF ok(1)] ok by (simp_all add: fifo_ok_def)
  note at = rx_at_self [of l]
  show ?thesis
  proof (cases "q_state ?q")
    case MSGQ_HEADER1
    then have "wlp rx_stops (rx_header1 env s0 (length (fifo ?q))) rx_kept (rx_at ?q (arrivals l) l)"
      by (rule header1_safe [OF p ok]) (use s MSGQ_HEADER1 in \<open>simp add: rx_safe_def\<close>)
    then show ?thesis using MSGQ_HEADER1 len at by (simp add: rx_switch_def wlp_bind wlp_basic Let_def)
  next
    case MSGQ_HEADER2
    then obtain m where m: "q_msg ?q = Some m" "aux_fits ?q m" "q_hbytes ?q \<le> length (fifo ?q) + (DMSG_BUF_SIZE - fifo_end ?q)"
      using s by (auto simp: rx_safe_def)
    have "wlp rx_stops (rx_header2 (length (fifo ?q)) (DMSG_BUF_SIZE - fifo_end ?q) m) rx_kept (rx_at ?q (arrivals l) l)"
      by (rule header2_safe [OF p ok MSGQ_HEADER2 m(2,1,3)])
    then show ?thesis using MSGQ_HEADER2 len at m(1) by (simp add: rx_switch_def wlp_bind wlp_basic Let_def)
  next
    case MSGQ_AUXDATA2
    then obtain m where m: "q_msg ?q = Some m" "aux_fits ?q m" "aux_size m < q_abytes ?q" "fifo ?q = []"
      using s by (auto simp: rx_safe_def)
    have "wlp rx_stops (rx_auxdata2 (length (fifo ?q)) m) rx_kept (rx_at ?q (arrivals l) l)"
      by (rule auxdata2_safe [OF p ok MSGQ_AUXDATA2 _ m(2) _ m(1)]) (use m in simp_all)
    then show ?thesis using MSGQ_AUXDATA2 len at m(1) by (simp add: rx_switch_def wlp_bind wlp_basic Let_def)
  qed (use s in \<open>simp_all add: rx_safe_def\<close>)
qed

lemma skip_safe:
  assumes "plain l" and "q_error (ioq_rx l) \<noteq> 0" and "q_msg (ioq_rx l) = r"
  shows "wlp rx_stops (rx_skip r) (\<lambda>_. rx_sound) l"
  using assms by (simp add: rx_skip_def dmsg_iocom_drain_def wlp_simps rx_sound_def plain_def has_crypted bit_simps)

lemma finish_safe:
  assumes "rx_kept r l"
  shows "wlp rx_stops (rx_finish r) (\<lambda>_. rx_sound) l"
proof -
  have p: "plain (l\<lparr>ioq_rx := q\<rparr>)" "plain (l\<lparr>ioq_rx := q, io_flags := io_flags l OR DMSG_IOCOMF_RREQ\<rparr>)"
    "plain (l\<lparr>ioq_rx := q, io_flags := io_flags l OR DMSG_IOCOMF_RWORK\<rparr>)"
    "plain (l\<lparr>io_flags := io_flags l OR DMSG_IOCOMF_RREQ, ioq_rx := q\<rparr>)"
    "plain (l\<lparr>io_flags := io_flags l OR DMSG_IOCOMF_RWORK, ioq_rx := q\<rparr>)"
    "plain (l\<lparr>io_flags := io_flags l OR DMSG_IOCOMF_RREQ\<rparr>)" for q
    using assms by (auto simp: rx_kept_def plain_def has_crypted bit_simps bit_iocomf)
  have ms: "0 < DMSG_IOQ_ERROR_MSGSEQ" by (simp add: DMSG_IOQ_ERROR_MSGSEQ_def)
  show ?thesis
  proof (cases r)
    case None
    then show ?thesis using assms p skip_safe [of l None] by (auto simp: rx_finish_def wlp_simps rx_sound_def rx_kept_def)
  next
    case (Some m)
    then show ?thesis
      using assms p ms skip_safe [of _ "Some m"] by (auto simp: rx_finish_def wlp_simps rx_sound_def rx_kept_def rx_safe_def fifo_ok_def)
  qed
qed

lemma poll_safe:
  assumes "rx_sound l"
  shows "wlp rx_stops (ioq_poll env s0) (\<lambda>_. rx_sound) l"
proof -
  let ?l = "l\<lparr>io_flags := io_flags l AND NOT (DMSG_IOCOMF_RREQ OR DMSG_IOCOMF_RWORK)\<rparr>"
  have s: "rx_sound ?l" using assms by (simp add: rx_sound_def plain_def has_crypted bit_simps)
  have "wlp rx_stops (bindS (rx_switch env s0) rx_finish) (\<lambda>_. rx_sound) ?l" if "q_error (ioq_rx l) = 0"
    unfolding wlp_bind by (rule wlp_mono [OF switch_safe]) (use s that finish_safe in \<open>auto simp: rx_sound_def\<close>)
  moreover have "wlp rx_stops (rx_skip None) (\<lambda>_. rx_sound) ?l" if "q_error (ioq_rx l) \<noteq> 0"
    by (rule skip_safe) (use s that in \<open>simp_all add: rx_sound_def\<close>)
  ultimately show ?thesis by (simp add: ioq_poll_def wlp_bind [of _ "clear_flags _"] wlp_bind [of _ "getS _"] wlp_basic wlp_upd)
qed

text \<open>Any number of passes of the reader, whatever they return.\<close>

fun rx_polls :: "nat \<Rightarrow> dmsg_env \<Rightarrow> ptr \<Rightarrow> rx_result list lio" where
  "rx_polls 0 env s0 = returnS []"
| "rx_polls (Suc n) env s0 = bindS (ioq_poll env s0) (\<lambda>r. bindS (rx_polls n env s0) (\<lambda>rs. returnS (r # rs)))"

lemma polls_safe: "rx_sound l \<Longrightarrow> wlp rx_stops (rx_polls n env s0) (\<lambda>_. rx_sound) l"
proof (induction n arbitrary: l)
  case (Suc n)
  show ?case
    unfolding rx_polls.simps wlp_bind [of _ "ioq_poll _ _"]
    by (rule wlp_mono [OF poll_safe [OF Suc.prems]]) (use Suc.IH in \<open>simp add: wlp_bind wlp_basic\<close>)
qed (simp add: wlp_basic)

end
