(* ===== verification/Dmsg_Wire_Properties.thy ===== *)
theory Dmsg_Wire_Properties
  imports Dmsg_Send Dmsg_Safety
begin

text \<open>
  The properties of the byte stream: two connections end to end over sockets that take and give arbitrary
  pieces, reception of arbitrary bytes, and what this port does with wrong checksums, oversized data and the
  encryption.
\<close>

text \<open>A connection that has just been made, with what its socket will do.\<close>

definition new_link :: "arrival list \<Rightarrow> departure list \<Rightarrow> dmsg_link" where
  "new_link as ds = \<lparr>ioq_rx = dmsg_ioq_init, ioq_tx = dmsg_ioq_init, io_flags = 0, arrivals = as,
     departures = ds, sock_out = []\<rparr>"

lemma new_link_tx: "tx_state rnd [] [] (new_link as ds)"
  by (simp add: tx_state_def tx_ready_def new_link_def dmsg_ioq_init_def plain_def has_def tx_pos_def tx_unsent_def unsent_def)

lemma new_link_rx:
  assumes "flows as" and "arrived as = concat (map wire_bytes ms)" and "\<forall>m\<in>set ms. wire_msg m" and "in_sequence 0 ms"
  shows "rx_ready env s0 [] ms (new_link as ds)" and "rx_load (new_link as ds) = effort as"
  using assms
  by (simp_all add: rx_ready_def new_link_def dmsg_ioq_init_def plain_def has_def rx_wait_def rx_full_def fifo_ok_def
      fifo_def rx_load_def)

definition ex_ping :: dmsg_msg where
  "ex_ping = \<lparr>m_state = 0, hdr_size = 64, aux_size = 3, aux_data = Some (replicate 64 7), tcmd = 0,
     head = zero_hdr\<lparr>cmd := 1\<rparr>, ext = []\<rparr>"

lemma ex_ping_sizes: "tx_hbytes ex_ping = 64" "tx_abytes ex_ping = 64"
  by (simp_all add: ex_ping_def tx_hbytes_def tx_abytes_def m_cmd_def zero_hdr_def DMSG_DOALIGN_def DMSG_ALIGN_def DMSGF_SIZE_def)

lemma ex_ping_sendable: "sendable ex_ping"
  by (simp add: sendable_def ex_ping_sizes DMSG_HDR_MAX_def DMSG_AUX_MAX_def) (simp add: ex_ping_def zero_hdr_def)

text \<open>
  C8: Whatever parts of the pieces \<open>writev\<close> takes, and in whatever rounds the messages are queued, the
  bytes written followed by the bytes still to be written are the messages in the order they were queued,
  each numbered and with its checksums, and the messages freed are those before the ones still queued.  No
  assertion of \<open>dmsg_iocom_flush2\<close> fails.
\<close>

theorem flush_partial_writes:
  assumes "\<forall>m\<in>set (concat rounds). sendable m" and "Write_error \<notin> set ds"
  shows "\<exists>sent l. tx_rounds rnd rounds (new_link as ds) = Inr (sent, l) \<and>
    sent @ msgq (ioq_tx l) = numbered rnd 0 (concat rounds) \<and>
    sock_out l @ tx_unsent (ioq_tx l) = concat (map wire_bytes (numbered rnd 0 (concat rounds)))"
proof -
  have "Write_error \<notin> set (departures (new_link as ds))" using assms(2) by (simp add: new_link_def)
  from tx_rounds_wp [OF new_link_tx assms(1) this, of rnd] show ?thesis by (auto simp: wp_def tx_state_def)
qed

theorem flush_partial_writes_witness:
  "\<exists>sent l. tx_rounds (\<lambda>_. 9) [[ex_ping], [], [ex_ping, ex_ping]]
      (new_link [] [Write_some 10, Write_again, Write_some 200]) = Inr (sent, l) \<and>
    sent @ msgq (ioq_tx l) = numbered (\<lambda>_. 9) 0 [ex_ping, ex_ping, ex_ping] \<and>
    sock_out l @ tx_unsent (ioq_tx l) = concat (map wire_bytes (numbered (\<lambda>_. 9) 0 [ex_ping, ex_ping, ex_ping]))"
  using flush_partial_writes [of "[[ex_ping], [], [ex_ping, ex_ping]]" "[Write_some 10, Write_again, Write_some 200]"
      "\<lambda>_. 9" "[]"] by (simp add: ex_ping_sendable)

text \<open>
  C7: Two connections end to end.  If every \<open>writev\<close> writes something, the queue is written out; and if the
  other side finds those bytes, in whatever pieces and with whatever interruptions, its reader delivers every
  message, in order and unchanged but for the fields of the receiving side, and waits for more.  The rounds
  are bounded by the bytes to be written and the passes of the reader by the pieces.
\<close>

theorem dmsg_end_to_end:
  assumes "\<forall>m\<in>set ms. sendable m" and "\<forall>d\<in>set ds. \<exists>k. d = Write_some (Suc k)"
    and "length (concat (map wire_bytes (numbered rnd 0 ms))) \<le> n" and "n < length ds"
  shows "\<exists>l. tx_rounds rnd (ms # replicate n []) (new_link [] ds) = Inr (numbered rnd 0 ms, l) \<and>
    (\<forall>as. flows as \<longrightarrow> arrived as = sock_out l \<longrightarrow>
      (\<exists>l'. rx_loop (Suc (effort as)) env s0 (new_link as []) = Inr (map (received s0) (numbered rnd 0 ms), l')))"
proof -
  let ?ms = "numbered rnd 0 ms" and ?l = "new_link [] ds"
  have e: "Write_error \<notin> set (departures ?l)" using assms(2) by (auto simp: new_link_def)
  have "wp (dmsg_iocom_flush1 rnd ms) (\<lambda>s. wp (tx_rounds rnd (replicate n []))
      (\<lambda>s' l. tx_state rnd ms (s @ s') l \<and> msgq (ioq_tx l) = [])) ?l"
  proof (rule wp_mono [OF flush1_wp [OF new_link_tx assms(1) e]])
    fix s l
    assume a: "tx_state rnd ([] @ ms) ([] @ s) l \<and> tx_post (tx_queued rnd ms ?l) s l"
    have d: "departures l = ds \<or> departures l = tl ds" using a by (auto simp: tx_post_def tx_queued_def new_link_def)
    have "sock_out l @ tx_unsent (ioq_tx l) = concat (map wire_bytes ?ms)" using a by (simp add: tx_state_def)
    then have "length (tx_unsent (ioq_tx l)) \<le> n" using assms(3) by (metis add_leD2 length_append)
    moreover have "n \<le> length (departures l)" using d assms(4) by auto
    moreover have "\<forall>d\<in>set (departures l). \<exists>k. d = Write_some (Suc k)"
      using d assms(2) by (cases ds) auto
    ultimately show "wp (tx_rounds rnd (replicate n [])) (\<lambda>s' l. tx_state rnd ms (s @ s') l \<and> msgq (ioq_tx l) = []) l"
      using tx_rounds_empty [of rnd ms s l n] a by simp
  qed
  then have "wp (tx_rounds rnd (ms # replicate n [])) (\<lambda>s l. tx_state rnd ms s l \<and> msgq (ioq_tx l) = []) ?l"
    by (simp add: wp_bind wp_return)
  then obtain s l where l: "tx_rounds rnd (ms # replicate n []) ?l = Inr (s, l)" "tx_state rnd ms s l" "msgq (ioq_tx l) = []"
    by (auto simp: wp_def)
  have s: "s = ?ms" and out: "sock_out l = concat (map wire_bytes ?ms)"
    using l(2,3) tx_todo [of l] by (simp_all add: tx_state_def)
  have "\<exists>l'. rx_loop (Suc (effort as)) env s0 (new_link as []) = Inr (map (received s0) ?ms, l')"
    if "flows as" "arrived as = sock_out l" for as
  proof -
    have r: "rx_ready env s0 [] ?ms (new_link as [])" "rx_load (new_link as []) < Suc (effort as)"
      using new_link_rx [OF that(1) that(2) [unfolded out] numbered_wire [OF assms(1)] numbered_sequence] by simp_all
    show ?thesis using rx_loop_wp [OF r] by (auto simp: wp_def)
  qed
  with l(1) s show ?thesis by blast
qed

lemma ex_ping_wire: "length (concat (map wire_bytes (numbered rnd 0 [ex_ping]))) = 128"
  using wire_msgD(5) [OF prepare_wire [OF ex_ping_sendable]] by (simp add: ex_ping_sizes)

theorem dmsg_end_to_end_witness:
  "\<exists>l. tx_rounds (\<lambda>_. 9) ([ex_ping] # replicate 128 []) (new_link [] (replicate 129 (Write_some 1))) =
      Inr (numbered (\<lambda>_. 9) 0 [ex_ping], l) \<and>
    (\<forall>as. flows as \<longrightarrow> arrived as = sock_out l \<longrightarrow>
      (\<exists>l'. rx_loop (Suc (effort as)) \<lparr>malloc_state = (\<lambda>_. 1), garbage = (\<lambda>_. 0), rcvmsg_callback = returnS\<rparr> 1
        (new_link as []) = Inr (map (received 1) (numbered (\<lambda>_. 9) 0 [ex_ping]), l')))"
  by (rule dmsg_end_to_end) (simp_all add: ex_ping_sendable ex_ping_wire del: numbered.simps)

lemma bytes_reversed: "LENGTH('a) = 8 * n \<Longrightarrow> le_bytes n (le_word (rev (le_bytes n w)) :: 'a::len word) = rev (le_bytes n (w :: 'a word))"
  using le_bytes_le_word [where 'a = 'a, of "rev (le_bytes n w)" n] by simp

lemma bswap_bswap [simp]: "bswap16 (bswap16 a) = a" "bswap32 (bswap32 b) = b" "bswap64 (bswap64 c) = c"
  by (simp_all add: bswap16_def bswap32_def bswap64_def bytes_reversed le_word_le_bytes)

text \<open>
  C9: Reception of arbitrary bytes.  Whatever a peer sends, in whatever pieces, with whatever ends and errors
  of the socket, and however often the reader runs: either the one assertion on the checksum of a header
  fails, or the connection has an error and no message in progress, or the staging buffer, the phase and the message in progress are
  consistent.  In particular nothing is read or written outside the staging buffer or the data of a message.
  A complete message is handed on here; what \<open>dmsg_state_msgrx\<close> does with it belongs to the transactions.
\<close>

theorem rx_any_bytes_safe:
  "case rx_polls n env s0 (new_link as ds) of
     Inl e \<Rightarrow> e = Assert_failed ''ioq_read: BAD-XCRC''
   | Inr (rs, l) \<Rightarrow> if q_error (ioq_rx l) \<noteq> 0 then q_msg (ioq_rx l) = None else rx_safe (ioq_rx l)"
proof -
  have "rx_sound (new_link as ds)"
    by (simp add: rx_sound_def new_link_def plain_def has_def rx_safe_def dmsg_ioq_init_def fifo_ok_def)
  from polls_safe [OF this, of n env s0] show ?thesis
    by (auto simp: wlp_def rx_sound_def split: sum.splits)
qed

text \<open>A message that is its core header only, arriving as the first of a connection.\<close>

definition core_only :: "dmsg_hdr \<Rightarrow> bool" where
  "core_only h \<longleftrightarrow> magic h = DMSG_HDR_MAGIC \<and> cmd h AND DMSGF_SIZE = 1 \<and> DMSG_DOALIGN32 (aux_bytes h) = 0"

definition core_q :: "dmsg_hdr \<Rightarrow> dmsg_ioq" where
  "core_q h = staged (overwrite (replicate DMSG_BUF_SIZE 0) 0 (hdr_bytes h)) 0 64 dmsg_ioq_init"

definition core_msg :: "dmsg_env \<Rightarrow> ptr \<Rightarrow> dmsg_hdr \<Rightarrow> dmsg_msg" where
  "core_msg env s0 h = (rx_alloc env s0 (unat (aux_bytes h)) 64)\<lparr>head := h, ext := []\<rparr>"

lemma core_sizes: "64 \<le> DMSG_BUF_SIZE" "DMSG_BUF_SIZE div 2 \<ge> 64" "64 \<le> DMSG_HDR_MAX"
  by (simp_all add: DMSG_BUF_SIZE_def DMSG_HDR_MAX_def)

lemma core_q_simps [simp]:
  "q_state (core_q h) = MSGQ_HEADER1" "fifo_beg (core_q h) = 0" "fifo_cdx (core_q h) = 64" "fifo_cdn (core_q h) = 64"
  "fifo_end (core_q h) = 64" "q_error (core_q h) = 0" "q_seq (core_q h) = 0" "q_msg (core_q h) = None"
  "q_abytes (core_q h) = 0" "length (q_buf (core_q h)) = DMSG_BUF_SIZE" "take 64 (q_buf (core_q h)) = hdr_bytes h"
  "overwrite (q_buf (core_q h)) 0 (hdr_bytes h) = q_buf (core_q h)"
  using core_sizes(1) by (simp_all add: core_q_def dmsg_ioq_init_def) (simp_all add: overwrite_def)

lemma core_read:
  "wlp E (rx_header1 env s0 0) Q (new_link [Data (hdr_bytes h)] ds) \<longleftrightarrow>
   wlp E (rx_core_header env s0 64) Q (rx_at (core_q h) [] (new_link [] ds))"
proof -
  have ne: "hdr_bytes h \<noteq> []" using length_hdr_bytes [of h] by fastforce
  show ?thesis
    using core_sizes ne
    by (simp add: new_link_def dmsg_ioq_init_def wlp_simps rx_header1_def makeroom_def
        dmsg_ioq_makeroom_def Let_def rx_fill_def rx_decrypt_def has_def rx_at_def core_q_def staged_def)
qed

lemma core_poll:
  "wlp E (ioq_poll env s0) Q (new_link [Data (hdr_bytes h)] ds) \<longleftrightarrow>
   wlp E (rx_core_header env s0 64) (\<lambda>r. wlp E (rx_finish r) Q) (rx_at (core_q h) [] (new_link [] ds))"
proof -
  have fl: "(new_link as ds)\<lparr>io_flags := 0\<rparr> = new_link as ds" for as by (simp add: new_link_def)
  have "q_state (ioq_rx (new_link as ds)) = MSGQ_HEADER1" "q_error (ioq_rx (new_link as ds)) = 0"
    "fifo_cdx (ioq_rx (new_link as ds)) = 0" "fifo_beg (ioq_rx (new_link as ds)) = 0" "io_flags (new_link as ds) = 0" for as
    by (simp_all add: new_link_def dmsg_ioq_init_def)
  then show ?thesis
    by (simp add: fl ioq_poll_def wlp_bind wlp_basic wlp_upd wlp_branches rx_switch_def Let_def core_read)
qed

lemma core_header:
  assumes "core_only h"
  shows "wlp E (rx_core_header env s0 64) Q (rx_at (core_q h) [] l) \<longleftrightarrow>
    wlp E (rx_header2 64 (DMSG_BUF_SIZE - 64) (rx_alloc env s0 (unat (aux_bytes h)) 64)) Q
      (rx_at ((core_q h)\<lparr>q_hbytes := 64, q_abytes := 0, unaligned_aux_size := unat (aux_bytes h),
        q_msg := Some (rx_alloc env s0 (unat (aux_bytes h)) 64), q_state := MSGQ_HEADER2\<rparr>) [] l)"
proof -
  have h: "magic h = DMSG_HDR_MAGIC" "cmd h AND DMSGF_SIZE = 1" "DMSG_DOALIGN32 (aux_bytes h) = 0" "DMSG_HDR_MAGIC \<noteq> DMSG_HDR_MAGIC_REV"
    using assms by (simp_all add: core_only_def DMSG_HDR_MAGIC_def DMSG_HDR_MAGIC_REV_def)
  have hh: "hdr_of (hdr_bytes h) = h" using hdr_of_bytes [of h "[]"] by simp
  show ?thesis
    using core_sizes h by (simp add: rx_core_header_def wlp_bind wlp_basic wlp_upd wlp_branches Let_def hh makeroom_def dmsg_ioq_makeroom_def DMSG_ALIGN_def)
qed

lemma core_done:
  assumes "core_only h" and "plain l"
  shows "wlp E (rx_header2 64 (DMSG_BUF_SIZE - 64) (rx_alloc env s0 (unat (aux_bytes h)) 64)) Q
      (rx_at ((core_q h)\<lparr>q_hbytes := 64, q_abytes := 0, unaligned_aux_size := u, q_msg := r, q_state := MSGQ_HEADER2\<rparr>) [] l) \<longleftrightarrow>
    (if dmsg_icrc32 (hdr_bytes (h\<lparr>hdr_crc := 0\<rparr>)) \<noteq> hdr_crc h then Assert_failed ''ioq_read: BAD-XCRC'' \<in> E
     else Q (Some (core_msg env s0 h)) (rx_at ((core_q h)\<lparr>q_hbytes := 64, q_abytes := 0, unaligned_aux_size := u,
       q_state := MSGQ_HEADER2, fifo_cdx := 64, fifo_cdn := 64, q_msg := Some (core_msg env s0 h), fifo_beg := 64\<rparr>) [] l))"
proof -
  have h: "magic h = DMSG_HDR_MAGIC" "DMSG_HDR_MAGIC \<noteq> DMSG_HDR_MAGIC_REV"
    using assms by (simp_all add: core_only_def DMSG_HDR_MAGIC_def DMSG_HDR_MAGIC_REV_def)
  have hh: "hdr_of (hdr_bytes h) = h" using hdr_of_bytes [of h "[]"] by simp
  have o: "overwrite (hdr_bytes g) 0 (hdr_bytes g') = hdr_bytes g'" for g g' by (simp add: overwrite_def)
  have c: "\<not> has (io_flags l) DMSG_IOCOMF_CRYPTED" using assms(2) by (simp add: plain_def)
  show ?thesis
    using c h by (simp add: rx_header2_def rx_decrypt_def rx_header_done_def wlp_bind wlp_basic wlp_upd wlp_branches Let_def hh o core_msg_def)
qed

lemma core_only_poll:
  assumes "core_only h"
  shows "wlp E (ioq_poll env s0) Q (new_link [Data (hdr_bytes h)] ds) \<longleftrightarrow>
    (if dmsg_icrc32 (hdr_bytes (h\<lparr>hdr_crc := 0\<rparr>)) \<noteq> hdr_crc h then Assert_failed ''ioq_read: BAD-XCRC'' \<in> E
     else wlp E (rx_finish (Some (core_msg env s0 h))) Q (rx_at ((core_q h)\<lparr>q_hbytes := 64, q_abytes := 0,
       unaligned_aux_size := unat (aux_bytes h), q_state := MSGQ_HEADER2, fifo_cdx := 64, fifo_cdn := 64,
       q_msg := Some (core_msg env s0 h), fifo_beg := 64\<rparr>)
       [] (new_link [] ds)))"
  unfolding core_poll core_header [OF assms] by (rule core_done [OF assms]) (simp add: new_link_def plain_def has_def)

text \<open>
  The header as a machine of the other byte order has it in memory: the members in the order of
  \<open>struct dmsg_hdr\<close>, the most significant byte of each first.
\<close>

definition be_octets :: "nat \<Rightarrow> 'a::len word \<Rightarrow> u8 list" where
  "be_octets n w = map (\<lambda>i. ucast (drop_bit (8 * (n - 1 - i)) w)) [0..<n]"

definition foreign_bytes :: "dmsg_hdr \<Rightarrow> u8 list" where
  "foreign_bytes h = concat [be_octets 2 (magic h), be_octets 2 (reserved02 h), be_octets 4 (salt h),
     be_octets 8 (msgid h), be_octets 8 (circuit h), be_octets 8 (link_verifier h), be_octets 4 (cmd h),
     be_octets 4 (aux_crc h), be_octets 4 (aux_bytes h), be_octets 4 (error h), be_octets 8 (aux_descr h),
     be_octets 4 (reserved38 h), be_octets 4 (hdr_crc h)]"

lemma be_octets_rev: "be_octets n w = rev (le_bytes n w)"
  by (rule nth_equalityI) (simp_all add: be_octets_def le_bytes_def rev_nth)

lemma le_bytes_bswap:
  "le_bytes 2 (bswap16 a) = be_octets 2 a" "le_bytes 4 (bswap32 b) = be_octets 4 b" "le_bytes 8 (bswap64 c) = be_octets 8 c"
  by (simp_all add: bswap16_def bswap32_def bswap64_def bytes_reversed be_octets_rev)

lemma foreign_bytes_swap: "foreign_bytes h = hdr_bytes (dmsg_bswap_head h)"
  by (simp add: foreign_bytes_def hdr_bytes_def dmsg_bswap_head_def le_bytes_bswap)

lemma foreign_header:
  assumes "core_only h"
  shows "wlp E (rx_core_header env s0 64) Q (rx_at (core_q (dmsg_bswap_head h)) [] l) \<longleftrightarrow>
    wlp E (rx_header2 64 (DMSG_BUF_SIZE - 64) (rx_alloc env s0 (unat (aux_bytes h)) 64)) Q
      (rx_at ((core_q (dmsg_bswap_head h))\<lparr>q_hbytes := 64, q_abytes := 0, unaligned_aux_size := unat (aux_bytes h),
        q_msg := Some (rx_alloc env s0 (unat (aux_bytes h)) 64), q_state := MSGQ_HEADER2\<rparr>) [] l)"
proof -
  have "bswap16 DMSG_HDR_MAGIC = DMSG_HDR_MAGIC_REV" by code_simp
  then have g: "magic (dmsg_bswap_head h) = DMSG_HDR_MAGIC_REV" "bswap32 (cmd (dmsg_bswap_head h)) = cmd h"
    "bswap32 (aux_bytes (dmsg_bswap_head h)) = aux_bytes h"
    using assms by (simp_all add: core_only_def dmsg_bswap_head_def)
  have h: "cmd h AND DMSGF_SIZE = 1" "DMSG_DOALIGN32 (aux_bytes h) = 0" using assms by (simp_all add: core_only_def)
  have hh: "hdr_of (hdr_bytes g) = g" for g using hdr_of_bytes [of g "[]"] by simp
  show ?thesis
    using core_sizes h g by (simp add: rx_core_header_def wlp_bind wlp_basic wlp_upd wlp_branches Let_def hh makeroom_def
        dmsg_ioq_makeroom_def DMSG_ALIGN_def)
qed

lemma foreign_done:
  assumes "core_only h" and "plain l" and crc: "hdr_crc h = dmsg_icrc32 (foreign_bytes (h\<lparr>hdr_crc := 0\<rparr>))"
    and Q: "\<And>m l. head m = h\<lparr>hdr_crc := bswap32 (hdr_crc h)\<rparr> \<Longrightarrow> q_error (ioq_rx l) = 0 \<Longrightarrow> q_seq (ioq_rx l) = 0 \<Longrightarrow> Q (Some m) l"
  shows "wlp E (rx_header2 64 (DMSG_BUF_SIZE - 64) (rx_alloc env s0 (unat (aux_bytes h)) 64)) Q
      (rx_at ((core_q (dmsg_bswap_head h))\<lparr>q_hbytes := 64, q_abytes := 0, unaligned_aux_size := u, q_msg := r,
        q_state := MSGQ_HEADER2\<rparr>) [] l)"
proof -
  let ?g = "dmsg_bswap_head h"
  have "bswap16 DMSG_HDR_MAGIC = DMSG_HDR_MAGIC_REV" by code_simp
  then have g: "magic ?g = DMSG_HDR_MAGIC_REV" "bswap32 (hdr_crc ?g) = hdr_crc h"
    using assms(1) by (simp_all add: core_only_def dmsg_bswap_head_def)
  have "bswap32 0 = 0" by code_simp
  then have "?g\<lparr>hdr_crc := 0\<rparr> = dmsg_bswap_head (h\<lparr>hdr_crc := 0\<rparr>)" by (simp add: dmsg_bswap_head_def)
  then have c: "dmsg_icrc32 (hdr_bytes (?g\<lparr>hdr_crc := 0\<rparr>)) = hdr_crc h" using crc by (simp add: foreign_bytes_swap)
  have s: "dmsg_bswap_head (?g\<lparr>hdr_crc := hdr_crc h\<rparr>) = h\<lparr>hdr_crc := bswap32 (hdr_crc h)\<rparr>"
    by (simp add: dmsg_bswap_head_def)
  have hh: "hdr_of (hdr_bytes g) = g" for g using hdr_of_bytes [of g "[]"] by simp
  have o: "overwrite (hdr_bytes g) 0 (hdr_bytes g') = hdr_bytes g'" for g g' by (simp add: overwrite_def)
  have f: "\<not> has (io_flags l) DMSG_IOCOMF_CRYPTED" using assms(2) by (simp add: plain_def)
  show ?thesis
    using f g by (simp add: rx_header2_def rx_decrypt_def rx_header_done_def wlp_bind wlp_basic wlp_upd wlp_branches
        Let_def hh o c s Q rx_at_def)
qed

definition ex_hdr :: "u32 \<Rightarrow> dmsg_hdr" where
  "ex_hdr n = zero_hdr\<lparr>magic := DMSG_HDR_MAGIC, cmd := 1, aux_bytes := n\<rparr>"

lemma ex_hdr_crc: "(ex_hdr n)\<lparr>hdr_crc := c, hdr_crc := 0\<rparr> = ex_hdr n"
  by (simp add: ex_hdr_def zero_hdr_def)

text \<open>
  C29: A machine of the other byte order is understood.  If it opens a connection with a message that is its
  core header, each member with the most significant byte first and the checksum taken over those bytes, the
  reader delivers a message whose header is the one meant.  Only the checksum, which has served its purpose,
  is left in the byte order of the sender.
\<close>

theorem foreign_header_received:
  assumes "core_only h" and "salt h AND 255 = 0" and "hdr_crc h = dmsg_icrc32 (foreign_bytes (h\<lparr>hdr_crc := 0\<rparr>))"
  shows "\<exists>m l. ioq_poll env s0 (new_link [Data (foreign_bytes h)] ds) = Inr (Rx_msg m, l) \<and>
    (head m)\<lparr>hdr_crc := hdr_crc h\<rparr> = h \<and> be_octets 4 (hdr_crc (head m)) = rev (be_octets 4 (hdr_crc h))"
proof -
  have "wlp {} (ioq_poll env s0) (\<lambda>r l. \<exists>m. r = Rx_msg m \<and> head m = h\<lparr>hdr_crc := bswap32 (hdr_crc h)\<rparr>)
      (new_link [Data (hdr_bytes (dmsg_bswap_head h))] ds)"
    unfolding core_poll foreign_header [OF assms(1)]
    by (rule foreign_done [OF assms(1) _ assms(3)])
      (use assms(2) in \<open>simp_all add: rx_finish_def wlp_simps new_link_def plain_def has_def\<close>)
  then have "\<exists>m l. ioq_poll env s0 (new_link [Data (foreign_bytes h)] ds) = Inr (Rx_msg m, l) \<and>
      head m = h\<lparr>hdr_crc := bswap32 (hdr_crc h)\<rparr>"
    by (auto simp: wlp_def foreign_bytes_swap split: sum.splits)
  moreover have "be_octets 4 (bswap32 (hdr_crc h)) = rev (be_octets 4 (hdr_crc h))"
    by (simp add: be_octets_rev [of 4 "bswap32 (hdr_crc h)"] le_bytes_bswap)
  ultimately show ?thesis by fastforce
qed

theorem foreign_header_received_witness:
  "\<exists>m l. ioq_poll \<lparr>malloc_state = (\<lambda>_. 1), garbage = (\<lambda>_. 0), rcvmsg_callback = returnS\<rparr> 1
     (new_link [Data (foreign_bytes ((ex_hdr 0)\<lparr>hdr_crc := dmsg_icrc32 (foreign_bytes (ex_hdr 0))\<rparr>))] []) = Inr (Rx_msg m, l) \<and>
     cmd (head m) = 1"
proof -
  let ?h = "(ex_hdr 0)\<lparr>hdr_crc := dmsg_icrc32 (foreign_bytes (ex_hdr 0))\<rparr>"
  have "core_only ?h" "salt ?h AND 255 = 0" "cmd ?h = 1"
    by (simp_all add: core_only_def ex_hdr_def DMSG_DOALIGN32_def DMSGF_SIZE_def zero_hdr_def)
  moreover have "hdr_crc ?h = dmsg_icrc32 (foreign_bytes (?h\<lparr>hdr_crc := 0\<rparr>))" unfolding ex_hdr_crc by simp
  ultimately obtain m l where "ioq_poll \<lparr>malloc_state = (\<lambda>_. 1), garbage = (\<lambda>_. 0), rcvmsg_callback = returnS\<rparr> 1
      (new_link [Data (foreign_bytes ?h)] []) = Inr (Rx_msg m, l)" "(head m)\<lparr>hdr_crc := hdr_crc ?h\<rparr> = ?h"
    using foreign_header_received by blast
  then show ?thesis using \<open>cmd ?h = 1\<close> by (metis dmsg_hdr.select_convs(7) dmsg_hdr.surjective dmsg_hdr.update_convs(13))
qed

text \<open>
  C34: A header whose checksum does not match ends the process: the assertion behind the message fails.  A peer
  needs 64 bytes for it.
\<close>

theorem bad_header_checksum_asserts:
  assumes "core_only h" and "dmsg_icrc32 (hdr_bytes (h\<lparr>hdr_crc := 0\<rparr>)) \<noteq> hdr_crc h"
  shows "ioq_poll env s0 (new_link [Data (hdr_bytes h)] ds) = Inl (Assert_failed ''ioq_read: BAD-XCRC'')"
proof -
  have "wlp {Assert_failed ''ioq_read: BAD-XCRC''} (ioq_poll env s0) (\<lambda>_ _. False) (new_link [Data (hdr_bytes h)] ds)"
    using assms by (simp add: core_only_poll)
  then show ?thesis by (auto simp: wlp_def split: sum.splits)
qed

theorem bad_header_checksum_asserts_witness:
  "ioq_poll \<lparr>malloc_state = (\<lambda>_. 1), garbage = (\<lambda>_. 0), rcvmsg_callback = returnS\<rparr> 1
     (new_link [Data (hdr_bytes ((ex_hdr 0)\<lparr>hdr_crc := dmsg_icrc32 (hdr_bytes (ex_hdr 0)) + 1\<rparr>))] []) =
   Inl (Assert_failed ''ioq_read: BAD-XCRC'')"
  by (rule bad_header_checksum_asserts, unfold ex_hdr_crc)
    (simp_all add: core_only_def ex_hdr_def DMSG_DOALIGN32_def DMSGF_SIZE_def)

text \<open>
  C35: The size of the data wraps around when it is aligned, so that a header that announces between 4294967233
  and 4294967295 bytes passes the check against \<open>DMSG_AUX_MAX\<close>: the message is complete after its header, and
  what the receiver is given as its data is what the allocator left in memory.
\<close>

theorem oversized_data_accepted:
  assumes "magic h = DMSG_HDR_MAGIC" and "cmd h AND DMSGF_SIZE = 1" and "4294967233 \<le> unat (aux_bytes h)"
    and "dmsg_icrc32 (hdr_bytes (h\<lparr>hdr_crc := 0\<rparr>)) = hdr_crc h" and "salt h AND 255 = 0"
  shows "\<exists>m l. ioq_poll env s0 (new_link [Data (hdr_bytes h)] ds) = Inr (Rx_msg m, l) \<and> head m = h \<and>
    DMSG_AUX_MAX < aux_size m \<and> aux_size m = unat (aux_bytes h) \<and>
    (\<exists>aux. aux_data m = Some aux \<and> (\<forall>i < aux_size m. aux ! i = garbage env i))"
proof -
  have c: "core_only h"
    using assms(1-3) doalign_wraps [of "aux_bytes h"] by (simp add: core_only_def unat_eq_0)
  have "wlp {} (ioq_poll env s0) (\<lambda>r l. r = Rx_msg (core_msg env s0 h)) (new_link [Data (hdr_bytes h)] ds)"
    using assms(4,5) by (simp add: core_only_poll [OF c] rx_finish_def wlp_simps) (simp add: core_msg_def)
  then obtain l where "ioq_poll env s0 (new_link [Data (hdr_bytes h)] ds) = Inr (Rx_msg (core_msg env s0 h), l)"
    by (auto simp: wlp_def split: sum.splits)
  moreover have "\<forall>i < aux_size (core_msg env s0 h). the (aux_data (core_msg env s0 h)) ! i = garbage env i"
    "aux_data (core_msg env s0 h) = Some (the (aux_data (core_msg env s0 h)))"
    using assms(3) by (auto simp: core_msg_def rx_alloc_def msg_aux_def nth_append)
  moreover have "head (core_msg env s0 h) = h" "aux_size (core_msg env s0 h) = unat (aux_bytes h)"
    "DMSG_AUX_MAX < aux_size (core_msg env s0 h)"
    using assms(3) by (simp_all add: core_msg_def rx_alloc_def DMSG_AUX_MAX_def)
  ultimately show ?thesis by metis
qed

theorem oversized_data_accepted_witness:
  "\<exists>m l. ioq_poll \<lparr>malloc_state = (\<lambda>_. 1), garbage = (\<lambda>_. 0x5A), rcvmsg_callback = returnS\<rparr> 1
     (new_link [Data (hdr_bytes ((ex_hdr 0xFFFFFFFF)\<lparr>hdr_crc := dmsg_icrc32 (hdr_bytes (ex_hdr 0xFFFFFFFF))\<rparr>))] []) = Inr (Rx_msg m, l) \<and>
     aux_size m = 4294967295"
proof -
  let ?h = "(ex_hdr 0xFFFFFFFF)\<lparr>hdr_crc := dmsg_icrc32 (hdr_bytes (ex_hdr 0xFFFFFFFF))\<rparr>"
  have "\<exists>m l. ioq_poll \<lparr>malloc_state = (\<lambda>_. 1), garbage = (\<lambda>_. 0x5A), rcvmsg_callback = returnS\<rparr> 1
     (new_link [Data (hdr_bytes ?h)] []) = Inr (Rx_msg m, l) \<and> head m = ?h \<and>
    DMSG_AUX_MAX < aux_size m \<and> aux_size m = unat (aux_bytes ?h) \<and>
    (\<exists>aux. aux_data m = Some aux \<and> (\<forall>i < aux_size m. aux ! i = garbage \<lparr>malloc_state = (\<lambda>_. 1), garbage = (\<lambda>_. 0x5A), rcvmsg_callback = returnS\<rparr> i))"
  proof (rule oversized_data_accepted)
    show "dmsg_icrc32 (hdr_bytes (?h\<lparr>hdr_crc := 0\<rparr>)) = hdr_crc ?h" unfolding ex_hdr_crc by simp
  qed (simp_all add: ex_hdr_def DMSGF_SIZE_def zero_hdr_def)
  then show ?thesis by (auto simp: ex_hdr_def)
qed

lemma crypto_decrypt_short: "crypto_decrypt_loop p_len q = Some r \<Longrightarrow> p_len < DMSG_CRYPTO_CHUNK_SIZE"
proof (rule crypto_decrypt_loop.raw_induct [where P = "\<lambda>p_len q r. p_len < DMSG_CRYPTO_CHUNK_SIZE"])
  fix f p_len q and r :: dmsg_ioq
  assume "\<And>p_len q r. f p_len q = Some r \<Longrightarrow> p_len < DMSG_CRYPTO_CHUNK_SIZE"
    and "(if DMSG_CRYPTO_CHUNK_SIZE \<le> p_len then
        case dmsg_crypto_gcm_decrypt_chunk q of (q, used) \<Rightarrow>
          f (p_len - used) (q\<lparr>fifo_cdn := fifo_cdn q + used, fifo_cdx := fifo_cdx q + DMSG_CRYPTO_CHUNK_SIZE\<rparr>)
      else Some q) = Some r"
  then show "p_len < DMSG_CRYPTO_CHUNK_SIZE"
    by (fastforce simp: dmsg_crypto_gcm_decrypt_chunk_def split: if_splits)
qed

text \<open>
  C36: A connection with the encryption on does not get past its first 64 bytes: the loop of
  \<open>dmsg_crypto_decrypt\<close> retries a chunk whose decryption always fails, since the call that sets the IV is
  replaced by a failure, and makes no progress.
\<close>

theorem crypted_reader_diverges:
  assumes "64 \<le> length bs" and "has fl DMSG_IOCOMF_CRYPTED"
  shows "ioq_poll env s0 ((new_link (Data bs # as) ds)\<lparr>io_flags := fl\<rparr>) = Inl (Diverges ''dmsg_crypto_decrypt'')"
proof -
  have nz: "bs \<noteq> []" using assms(1) by auto
  have f: "has (fl AND NOT (DMSG_IOCOMF_RREQ OR DMSG_IOCOMF_RWORK)) DMSG_IOCOMF_CRYPTED"
    using assms(2) by (simp add: has_crypted bit_simps bit_iocomf)
  have d: "dmsg_crypto_decrypt q = None" if "DMSG_ALIGN \<le> fifo_end q - fifo_cdn q" for q
  proof (rule ccontr)
    assume "dmsg_crypto_decrypt q \<noteq> None"
    then show False using that crypto_decrypt_short by (fastforce simp: dmsg_crypto_decrypt_def DMSG_CRYPTO_CHUNK_SIZE_def)
  qed
  have sz: "64 \<le> DMSG_BUF_SIZE" "\<not> DMSG_BUF_SIZE div 2 < 64" "DMSG_ALIGN = 64" by (simp_all add: DMSG_BUF_SIZE_def DMSG_HDR_MAX_def DMSG_ALIGN_def)
  have "wlp {Diverges ''dmsg_crypto_decrypt''} (ioq_poll env s0) (\<lambda>_ _. False) ((new_link (Data bs # as) ds)\<lparr>io_flags := fl\<rparr>)"
    using assms(1) nz f sz
    by (simp add: new_link_def dmsg_ioq_init_def ioq_poll_def wlp_simps rx_switch_def rx_header1_def makeroom_def
        dmsg_ioq_makeroom_def Let_def rx_fill_def rx_decrypt_def d)
  then show ?thesis by (auto simp: wlp_def split: sum.splits)
qed


theorem crypted_reader_diverges_witness:
  "ioq_poll \<lparr>malloc_state = (\<lambda>_. 1), garbage = (\<lambda>_. 0), rcvmsg_callback = returnS\<rparr> 1
     ((new_link [Data (replicate 64 7)] [])\<lparr>io_flags := DMSG_IOCOMF_CRYPTED\<rparr>) = Inl (Diverges ''dmsg_crypto_decrypt'')"
  by (rule crypted_reader_diverges) (simp_all add: has_def DMSG_IOCOMF_CRYPTED_def)

end
