(* ===== verification/Hammer2_Format.thy ===== *)
theory Hammer2_Format
  imports Crc32 Io_Monad
begin

text \<open>
  The media format of HAMMER2 as far as the volume code needs it, from \<open>sys/vfs/hammer2/hammer2_disk.h\<close>:
  the sizes and masks, and the structures that \<open>newfs_hammer2\<close> fills in a 64 KiB buffer through a
  cast pointer.  A structure is the list of its bytes and a member is its offset and size;
  \<open>getf\<close> and \<open>setf\<close> load and store it, little endian.
\<close>

section \<open>Members of a structure in a buffer\<close>

type_synonym fld = "nat \<times> nat"

definition getf :: "fld \<Rightarrow> u8 list \<Rightarrow> 'a::len word" where
  "getf f buf = le_word (take (snd f) (drop (fst f) buf))"

definition setf :: "fld \<Rightarrow> 'a::len word \<Rightarrow> u8 list \<Rightarrow> u8 list" where
  "setf f v buf = overwrite buf (fst f) (le_bytes (snd f) v)"

definition within :: "fld \<Rightarrow> nat \<Rightarrow> bool" where
  "within f n \<longleftrightarrow> fst f + snd f \<le> n"

definition apart :: "fld \<Rightarrow> fld \<Rightarrow> bool" where
  "apart f g \<longleftrightarrow> fst f + snd f \<le> fst g \<or> fst g + snd g \<le> fst f"

lemma length_setf [simp]: "within f (length buf) \<Longrightarrow> length (setf f v buf) = length buf"
  by (simp add: setf_def within_def)

lemma getf_setf [codec_simps]:
  assumes "within f (length buf)" and "LENGTH('a) \<le> 8 * snd f"
  shows "getf f (setf f v buf) = (v :: 'a::len word)"
  using assms by (simp add: getf_def setf_def within_def overwrite_def le_word_le_bytes)

text \<open>A range of bytes that a store does not touch.\<close>

lemma range_overwrite:
  assumes "a + n \<le> off \<or> off + length bs \<le> a" and "off + length bs \<le> length buf"
  shows "take n (drop a (overwrite buf off bs)) = take n (drop a buf)"
proof (rule nth_equalityI)
  show "length (take n (drop a (overwrite buf off bs))) = length (take n (drop a buf))"
    using assms by simp
next
  fix i assume "i < length (take n (drop a (overwrite buf off bs)))"
  then have i: "i < n" "a + i < length buf" using assms by auto
  have "overwrite buf off bs ! (a + i) = buf ! (a + i)"
    using assms i by (auto simp: overwrite_def nth_append min_def)
  with i assms show "take n (drop a (overwrite buf off bs)) ! i = take n (drop a buf) ! i"
    by simp
qed

lemma range_setf:
  assumes "apart (a, n) f" and "within f (length buf)"
  shows "take n (drop a (setf f v buf)) = take n (drop a buf)"
  using assms unfolding setf_def apart_def within_def by (intro range_overwrite) auto

lemma getf_setf_apart [codec_simps]:
  assumes "apart g f" and "within f (length buf)"
  shows "getf g (setf f v buf) = getf g buf"
  using range_setf [of "fst g" "snd g" f buf v] assms by (simp add: getf_def)

section \<open>Sizes and masks\<close>

abbreviation (input) HAMMER2_PBUFSIZE :: nat where "HAMMER2_PBUFSIZE \<equiv> 65536"
abbreviation (input) HAMMER2_ZONE_BLOCKS_SEG :: nat where "HAMMER2_ZONE_BLOCKS_SEG \<equiv> 64"
abbreviation (input) HAMMER2_RADIX_MIN :: nat where "HAMMER2_RADIX_MIN \<equiv> 10"
abbreviation (input) HAMMER2_INODE_BYTES :: nat where "HAMMER2_INODE_BYTES \<equiv> 1024"
abbreviation (input) HAMMER2_SET_COUNT :: nat where "HAMMER2_SET_COUNT \<equiv> 4"
abbreviation (input) HAMMER2_MAX_VOLUMES :: nat where "HAMMER2_MAX_VOLUMES \<equiv> 64"
abbreviation (input) HAMMER2_NUM_VOLHDRS :: nat where "HAMMER2_NUM_VOLHDRS \<equiv> 4"
abbreviation (input) HAMMER2_ROOT_VOLUME :: int where "HAMMER2_ROOT_VOLUME \<equiv> 0"
abbreviation (input) HAMMER2_VOL_VERSION_MULTI_VOLUMES :: int where "HAMMER2_VOL_VERSION_MULTI_VOLUMES \<equiv> 2"
abbreviation (input) HAMMER2_VOL_VERSION_MIN :: int where "HAMMER2_VOL_VERSION_MIN \<equiv> 1"
abbreviation (input) HAMMER2_VOL_VERSION_WIP :: int where "HAMMER2_VOL_VERSION_WIP \<equiv> 3"

definition HAMMER2_PBUFMASK64 :: u64 where "HAMMER2_PBUFMASK64 = 0xFFFF"
definition HAMMER2_VOLUME_ALIGN :: u64 where "HAMMER2_VOLUME_ALIGN = 8 * 1024 * 1024"
definition HAMMER2_VOLUME_ALIGNMASK64 :: u64 where "HAMMER2_VOLUME_ALIGNMASK64 = HAMMER2_VOLUME_ALIGN - 1"
definition HAMMER2_ZONE_BYTES64 :: u64 where "HAMMER2_ZONE_BYTES64 = 2 * 1024 * 1024 * 1024"
definition HAMMER2_ZONE_SEG64 :: u64 where "HAMMER2_ZONE_SEG64 = 4 * 1024 * 1024"
definition HAMMER2_FREEMAP_LEVEL1_SIZE :: u64 where "HAMMER2_FREEMAP_LEVEL1_SIZE = push_bit 30 1"
definition HAMMER2_FREEMAP_LEVEL1_MASK :: u64 where "HAMMER2_FREEMAP_LEVEL1_MASK = HAMMER2_FREEMAP_LEVEL1_SIZE - 1"
definition HAMMER2_BOOT_NOM_BYTES :: u64 where "HAMMER2_BOOT_NOM_BYTES = 64 * 1024 * 1024"
definition HAMMER2_AUX_NOM_BYTES :: u64 where "HAMMER2_AUX_NOM_BYTES = 256 * 1024 * 1024"
abbreviation (input) HAMMER2_OFF_MASK_RADIX :: u64 where "HAMMER2_OFF_MASK_RADIX \<equiv> 0x3F"
definition HAMMER2_VOLUME_ID_HBO :: u64 where "HAMMER2_VOLUME_ID_HBO = 0x48414d3205172011"
definition HAMMER2_VOLUME_ID_ABO :: u64 where "HAMMER2_VOLUME_ID_ABO = 0x11201705324d4148"

section \<open>The volume header\<close>

datatype hammer2_volume_data =
    VD_magic | VD_boot_beg | VD_boot_end | VD_aux_beg | VD_aux_end | VD_volu_size | VD_version | VD_flags
  | VD_copyid | VD_freemap_version | VD_peer_type | VD_volu_id | VD_nvolumes | VD_fsid | VD_fstype
  | VD_allocator_size | VD_allocator_free | VD_allocator_beg | VD_mirror_tid | VD_freemap_tid
  | VD_bulkfree_tid | VD_total_size | VD_icrc_sects nat | VD_sroot_blockref nat | VD_freemap_blockref nat
  | VD_volu_loff nat | VD_icrc_volheader

fun vd :: "hammer2_volume_data \<Rightarrow> fld" where
  "vd VD_magic = (0x00, 8)"
| "vd VD_boot_beg = (0x08, 8)"
| "vd VD_boot_end = (0x10, 8)"
| "vd VD_aux_beg = (0x18, 8)"
| "vd VD_aux_end = (0x20, 8)"
| "vd VD_volu_size = (0x28, 8)"
| "vd VD_version = (0x30, 4)"
| "vd VD_flags = (0x34, 4)"
| "vd VD_copyid = (0x38, 1)"
| "vd VD_freemap_version = (0x39, 1)"
| "vd VD_peer_type = (0x3A, 1)"
| "vd VD_volu_id = (0x3B, 1)"
| "vd VD_nvolumes = (0x3C, 1)"
| "vd VD_fsid = (0x40, 16)"
| "vd VD_fstype = (0x50, 16)"
| "vd VD_allocator_size = (0x60, 8)"
| "vd VD_allocator_free = (0x68, 8)"
| "vd VD_allocator_beg = (0x70, 8)"
| "vd VD_mirror_tid = (0x78, 8)"
| "vd VD_freemap_tid = (0x90, 8)"
| "vd VD_bulkfree_tid = (0x98, 8)"
| "vd VD_total_size = (0xC0, 8)"
| "vd (VD_icrc_sects i) = (0x1E0 + 4 * i, 4)"
| "vd (VD_sroot_blockref i) = (0x200 + 128 * i, 128)"
| "vd (VD_freemap_blockref i) = (0x800 + 128 * i, 128)"
| "vd (VD_volu_loff i) = (0xE00 + 8 * i, 8)"
| "vd VD_icrc_volheader = (0xFFFC, 4)"

abbreviation (input) HAMMER2_VOL_ICRC_SECT0 :: nat where "HAMMER2_VOL_ICRC_SECT0 \<equiv> 7"
abbreviation (input) HAMMER2_VOL_ICRC_SECT1 :: nat where "HAMMER2_VOL_ICRC_SECT1 \<equiv> 6"

text \<open>The three ranges of the header that have a checksum, as offset and size.\<close>

definition HAMMER2_VOLUME_ICRC0 :: fld where "HAMMER2_VOLUME_ICRC0 = (0, 512 - 4)"
definition HAMMER2_VOLUME_ICRC1 :: fld where "HAMMER2_VOLUME_ICRC1 = (512, 512)"
definition HAMMER2_VOLUME_ICRCVH :: fld where "HAMMER2_VOLUME_ICRCVH = (0, 65536 - 4)"

text \<open>The address of the data does not matter to the checksum.\<close>

definition hammer2_icrc32 :: "u8 list \<Rightarrow> u32" where
  "hammer2_icrc32 buf = iscsi_crc32 0 buf"

definition h2_crc_range :: "fld \<Rightarrow> u8 list \<Rightarrow> u32" where
  "h2_crc_range r buf = hammer2_icrc32 (take (snd r) (drop (fst r) buf))"

lemma crc_range_setf [codec_simps]:
  assumes "apart r f" and "within f (length buf)"
  shows "h2_crc_range r (setf f v buf) = h2_crc_range r buf"
  using range_setf [of "fst r" "snd r" f buf v] assms by (simp add: h2_crc_range_def)

section \<open>Block references and inodes\<close>

datatype hammer2_blockref =
    BR_type | BR_methods | BR_copyid | BR_keybits | BR_vradix | BR_flags | BR_leaf_count | BR_key
  | BR_mirror_tid | BR_modify_tid | BR_data_off | BR_update_tid | BR_check_iscsi32 | BR_check_xxhash64

fun bref :: "hammer2_blockref \<Rightarrow> fld" where
  "bref BR_type = (0x00, 1)"
| "bref BR_methods = (0x01, 1)"
| "bref BR_copyid = (0x02, 1)"
| "bref BR_keybits = (0x03, 1)"
| "bref BR_vradix = (0x04, 1)"
| "bref BR_flags = (0x05, 1)"
| "bref BR_leaf_count = (0x06, 2)"
| "bref BR_key = (0x08, 8)"
| "bref BR_mirror_tid = (0x10, 8)"
| "bref BR_modify_tid = (0x18, 8)"
| "bref BR_data_off = (0x20, 8)"
| "bref BR_update_tid = (0x28, 8)"
| "bref BR_check_iscsi32 = (0x40, 4)"
| "bref BR_check_xxhash64 = (0x40, 8)"

abbreviation (input) HAMMER2_BREF_TYPE_INODE :: u8 where "HAMMER2_BREF_TYPE_INODE \<equiv> 1"
abbreviation (input) HAMMER2_BREF_TYPE_INVALID :: u8 where "HAMMER2_BREF_TYPE_INVALID \<equiv> 7"
abbreviation (input) HAMMER2_BREF_FLAG_PFSROOT :: u8 where "HAMMER2_BREF_FLAG_PFSROOT \<equiv> 1"
abbreviation (input) HAMMER2_COPYID_LOCAL :: u8 where "HAMMER2_COPYID_LOCAL \<equiv> 255"
abbreviation (input) HAMMER2_CHECK_XXHASH64 :: u8 where "HAMMER2_CHECK_XXHASH64 \<equiv> 3"
abbreviation (input) HAMMER2_COMP_NONE :: u8 where "HAMMER2_COMP_NONE \<equiv> 0"
abbreviation (input) HAMMER2_COMP_AUTOZERO :: u8 where "HAMMER2_COMP_AUTOZERO \<equiv> 1"
abbreviation (input) HAMMER2_COMP_LZ4 :: u8 where "HAMMER2_COMP_LZ4 \<equiv> 2"
abbreviation (input) HAMMER2_PFSTYPE_MASTER :: u8 where "HAMMER2_PFSTYPE_MASTER \<equiv> 6"
abbreviation (input) HAMMER2_PFSTYPE_SUPROOT :: u8 where "HAMMER2_PFSTYPE_SUPROOT \<equiv> 8"
abbreviation (input) HAMMER2_OPFLAG_PFSROOT :: u8 where "HAMMER2_OPFLAG_PFSROOT \<equiv> 2"
abbreviation (input) HAMMER2_OBJTYPE_DIRECTORY :: u8 where "HAMMER2_OBJTYPE_DIRECTORY \<equiv> 1"
abbreviation (input) HAMMER2_INODE_VERSION_ONE :: u16 where "HAMMER2_INODE_VERSION_ONE \<equiv> 1"

abbreviation (input) HAMMER2_ENC_CHECK :: "u8 \<Rightarrow> u8" where "HAMMER2_ENC_CHECK n \<equiv> push_bit 4 (n AND 15)"
abbreviation (input) HAMMER2_ENC_COMP :: "u8 \<Rightarrow> u8" where "HAMMER2_ENC_COMP n \<equiv> n AND 15"

datatype hammer2_inode_data =
    IP_version | IP_pfs_subtype | IP_uflags | IP_rmajor | IP_rminor | IP_ctime | IP_mtime | IP_atime
  | IP_btime | IP_uid | IP_gid | IP_type | IP_op_flags | IP_cap_flags | IP_mode | IP_inum | IP_size
  | IP_nlinks | IP_iparent | IP_name_key | IP_name_len | IP_ncopies | IP_comp_algo | IP_target_type
  | IP_check_algo | IP_pfs_nmasters | IP_pfs_type | IP_pfs_inum | IP_pfs_clid | IP_pfs_fsid
  | IP_data_quota | IP_inode_quota | IP_pfs_lsnap_tid | IP_filename | IP_blockref nat

fun ip :: "hammer2_inode_data \<Rightarrow> fld" where
  "ip IP_version = (0x00, 2)"
| "ip IP_pfs_subtype = (0x03, 1)"
| "ip IP_uflags = (0x04, 4)"
| "ip IP_rmajor = (0x08, 4)"
| "ip IP_rminor = (0x0C, 4)"
| "ip IP_ctime = (0x10, 8)"
| "ip IP_mtime = (0x18, 8)"
| "ip IP_atime = (0x20, 8)"
| "ip IP_btime = (0x28, 8)"
| "ip IP_uid = (0x30, 16)"
| "ip IP_gid = (0x40, 16)"
| "ip IP_type = (0x50, 1)"
| "ip IP_op_flags = (0x51, 1)"
| "ip IP_cap_flags = (0x52, 2)"
| "ip IP_mode = (0x54, 4)"
| "ip IP_inum = (0x58, 8)"
| "ip IP_size = (0x60, 8)"
| "ip IP_nlinks = (0x68, 8)"
| "ip IP_iparent = (0x70, 8)"
| "ip IP_name_key = (0x78, 8)"
| "ip IP_name_len = (0x80, 2)"
| "ip IP_ncopies = (0x82, 1)"
| "ip IP_comp_algo = (0x83, 1)"
| "ip IP_target_type = (0x84, 1)"
| "ip IP_check_algo = (0x85, 1)"
| "ip IP_pfs_nmasters = (0x86, 1)"
| "ip IP_pfs_type = (0x87, 1)"
| "ip IP_pfs_inum = (0x88, 8)"
| "ip IP_pfs_clid = (0x90, 16)"
| "ip IP_pfs_fsid = (0xA0, 16)"
| "ip IP_data_quota = (0xB0, 8)"
| "ip IP_inode_quota = (0xC0, 8)"
| "ip IP_pfs_lsnap_tid = (0xD0, 8)"
| "ip IP_filename = (0x100, 256)"
| "ip (IP_blockref i) = (0x200 + 128 * i, 128)"

text \<open>The member of a structure that starts at \<open>base\<close> of the buffer.\<close>

definition fld_at :: "nat \<Rightarrow> fld \<Rightarrow> fld" where
  "fld_at base f = (base + fst f, snd f)"

text \<open>\<open>dirhash\<close>: the parts of a name between the separators are hashed separately and added.\<close>

fun dirhash_parts :: "u8 list \<Rightarrow> u8 list \<Rightarrow> u32 \<Rightarrow> u32" where
  "dirhash_parts [] part crcx = (if part \<noteq> [] then crcx + hammer2_icrc32 part else crcx)"
| "dirhash_parts (c # cs) part crcx =
    (if c = 46 \<or> c = 45 \<or> c = 95 \<or> c = 126
     then dirhash_parts cs [] (if part \<noteq> [] then crcx + hammer2_icrc32 part else crcx)
     else dirhash_parts cs (part @ [c]) crcx)"

definition dirhash :: "u8 list \<Rightarrow> u64" where
  "dirhash aname =
     (let crcx = dirhash_parts aname [] 0 OR 0x80000000;
          key = push_bit 32 (ucast crcx);
          crcx = hammer2_icrc32 aname;
          crcx = crcx XOR push_bit 16 crcx;
          key = key OR ucast (crcx AND 0xFFFF0000)
      in key OR 0x8000)"

end
