(* ===== verification/Hammer2_Files.thy ===== *)
theory Hammer2_Files
  imports Hammer2_Format
begin

text \<open>
  What the HAMMER2 volume code uses of the operating system: files and block devices, descriptors,
  and the calls that open, stat, read, write and close them, with \<open>check_volume\<close> of
  \<open>sbin/hammer2/subs.c\<close> and \<open>getdevpath\<close> of \<open>lib/libc/gen/getdevpath.c\<close> on top of them.
\<close>

section \<open>Files and descriptors\<close>

type_synonym uuid = "128 word"

datatype file_type = S_IFREG | S_IFBLK | S_IFCHR | S_IFDIR | S_IFIFO | S_IFSOCK

text \<open>
  \<open>f_size\<close> is the length of a regular file and the media size of a device, \<open>f_room\<close> the offset
  beyond which a write finds no space, \<open>f_bad\<close> the offsets at which a read fails.
\<close>

record h2_file =
  f_type :: file_type
  f_ino :: u64
  f_dev :: u64
  f_size :: nat
  f_room :: nat
  f_sector :: int
  f_writable :: bool
  f_bytes :: "nat \<Rightarrow> u8"
  f_bad :: "nat \<Rightarrow> bool"

text \<open>
  \<open>os_paths\<close> resolves a path to a file, \<open>os_entry\<close> tells whether \<open>lstat\<close> finds an entry there (a
  dangling link is one), \<open>os_devtab\<close> gives the lines of a \<open>devtab\<close> file.  \<open>os_uuid\<close> is what the
  successive calls of \<open>uuid_generate\<close> return.
\<close>

record h2_os =
  os_paths :: "string \<Rightarrow> nat option"
  os_entry :: "string \<Rightarrow> bool"
  os_devtab :: "string \<Rightarrow> string list option"
  os_files :: "nat \<Rightarrow> h2_file"
  os_fds :: "(int \<times> nat) list"
  os_now :: u64
  os_uuid :: "nat \<Rightarrow> uuid"
  os_uuids :: nat

type_synonym ('z, 'a) osio = "('z h2_os_scheme, 'a) io"

text \<open>The lowest descriptor that is not in use.\<close>

definition fd_free :: "(int \<times> nat) list \<Rightarrow> int" where
  "fd_free fds =
     (case find (\<lambda>n. int n \<notin> fst ` set fds) [0..<Suc (length fds)] of Some n \<Rightarrow> int n | None \<Rightarrow> 0)"

definition sys_open :: "string \<Rightarrow> bool \<Rightarrow> ('z, int) osio" where
  "sys_open path rdonly s =
     (case os_paths s path of
        None \<Rightarrow> Inr (- 1, s)
      | Some k \<Rightarrow>
          if \<not> rdonly \<and> \<not> f_writable (os_files s k) then Inr (- 1, s)
          else let fd = fd_free (os_fds s) in Inr (fd, s\<lparr>os_fds := (fd, k) # os_fds s\<rparr>))"

definition sys_close :: "int \<Rightarrow> ('z, unit) osio" where
  "sys_close fd = modifyS (\<lambda>s. s\<lparr>os_fds := filter (\<lambda>p. fst p \<noteq> fd) (os_fds s)\<rparr>)"

definition sys_stat :: "string \<Rightarrow> ('z, h2_file option) osio" where
  "sys_stat path = getS (\<lambda>s. map_option (os_files s) (os_paths s path))"

definition sys_fstat :: "int \<Rightarrow> ('z, h2_file option) osio" where
  "sys_fstat fd = getS (\<lambda>s. map_option (os_files s) (map_of (os_fds s) fd))"

text \<open>\<open>None\<close> is the result \<open>-1\<close>; a read at the end of the file is short.\<close>

definition sys_pread :: "int \<Rightarrow> nat \<Rightarrow> nat \<Rightarrow> ('z, u8 list option) osio" where
  "sys_pread fd off n = getS (\<lambda>s.
     case map_of (os_fds s) fd of
       None \<Rightarrow> None
     | Some k \<Rightarrow>
         let f = os_files s k in
         if f_bad f off then None else Some (map (f_bytes f) [off..<min (off + n) (f_size f)]))"

text \<open>The bytes of a file after a write, and the number of bytes written.\<close>

definition write_file :: "nat \<Rightarrow> u8 list \<Rightarrow> h2_file \<Rightarrow> h2_file" where
  "write_file off bs f =
     f\<lparr>f_bytes := (\<lambda>i. if off \<le> i \<and> i < off + length bs then bs ! (i - off) else f_bytes f i),
       f_size := max (f_size f) (if bs = [] then 0 else off + length bs)\<rparr>"

definition sys_pwrite :: "int \<Rightarrow> u8 list \<Rightarrow> u64 \<Rightarrow> ('z, int) osio" where
  "sys_pwrite fd buf off s =
     (case map_of (os_fds s) fd of
        None \<Rightarrow> Inr (- 1, s)
      | Some k \<Rightarrow>
          if sint off < 0 then Inr (- 1, s)
          else
            let bs = take (f_room (os_files s k) - unat off) buf
            in Inr (int (length bs), s\<lparr>os_files := (os_files s)(k := write_file (unat off) bs (os_files s k))\<rparr>))"

definition uuid_create :: "('z, uuid) osio" where
  "uuid_create s = Inr (os_uuid s (os_uuids s), s\<lparr>os_uuids := os_uuids s + 1\<rparr>)"

section \<open>Volume size\<close>

definition check_volume :: "int \<Rightarrow> ('z, u64) osio" where
  "check_volume fd =
     bindS (sys_fstat fd) (\<lambda>st.
     case st of
       None \<Rightarrow> stopS (Exit_with 1 ''Unable to stat fd'')
     | Some f \<Rightarrow>
         if f_type f = S_IFBLK then
           if f_sector f > int HAMMER2_PBUFSIZE \<or> int HAMMER2_PBUFSIZE mod f_sector f \<noteq> 0
           then stopS (Exit_with 1 ''media sector size is not supported'')
           else returnS (push_bit 9 (of_nat (f_size f div 512)))
         else if f_type f = S_IFREG then returnS (of_nat (f_size f))
         else stopS (Exit_with 1 ''Unsupported file type''))"

section \<open>Device paths\<close>

definition is_blank :: "char \<Rightarrow> bool" where
  "is_blank c \<longleftrightarrow> c \<in> {CHR '' '', CHR 0x09, CHR 0x0D, CHR 0x0A}"

definition strtok_r :: "string \<Rightarrow> (string \<times> string) option" where
  "strtok_r str =
     (let str = dropWhile is_blank str in
      if str = [] then None
      else Some (takeWhile (\<lambda>c. \<not> is_blank c) str, drop 1 (dropWhile (\<lambda>c. \<not> is_blank c) str)))"

definition dodequote :: "string \<Rightarrow> string" where
  "dodequote base =
     (if base \<noteq> [] \<and> hd base = CHR 0x22 \<and> last base = CHR 0x22 then tl (butlast base) else base)"

text \<open>The length of a device name without its trailer, the part from the last dot on.\<close>

definition trailer_pos :: "string \<Rightarrow> nat" where
  "trailer_pos devname =
     (if CHR ''.'' \<in> set devname
      then length devname - 1 - length (takeWhile (\<lambda>c. c \<noteq> CHR ''.'') (rev devname)) else 0)"

text \<open>The fields after a label that matched.\<close>

definition devtab_entry :: "string \<Rightarrow> string \<Rightarrow> string option" where
  "devtab_entry trailer rest =
     (case strtok_r rest of
        None \<Rightarrow> None
      | Some (ptr2, rest) \<Rightarrow>
          (case strtok_r rest of
             None \<Rightarrow> None
           | Some (ptr3, _) \<Rightarrow>
               Some (if ptr2 = ''path'' then dodequote ptr3 @ trailer
                     else ''/dev/'' @ ptr2 @ ''/'' @ dodequote ptr3 @ trailer)))"

fun devtab_scan :: "string \<Rightarrow> string list \<Rightarrow> string option" where
  "devtab_scan devname [] = None"
| "devtab_scan devname (buf # lines) =
    (let tlen = trailer_pos devname;
         entry =
           (case strtok_r buf of
              None \<Rightarrow> None
            | Some (label, rest) \<Rightarrow>
                if hd label = CHR ''#'' then None
                else if devname = label then devtab_entry [] rest
                else if tlen \<noteq> 0 \<and> length label = tlen \<and> take tlen devname = label
                then devtab_entry (drop tlen devname) rest
                else None)
     in case entry of None \<Rightarrow> devtab_scan devname lines | Some path \<Rightarrow> Some path)"

fun finddevlabel :: "(string \<Rightarrow> string list option) \<Rightarrow> string list \<Rightarrow> string \<Rightarrow> string option" where
  "finddevlabel devtab [] devname = None"
| "finddevlabel devtab (prefix # prefixes) devname =
    (case (case devtab (prefix @ ''/devtab'') of None \<Rightarrow> None | Some lines \<Rightarrow> devtab_scan devname lines) of
       None \<Rightarrow> finddevlabel devtab prefixes devname
     | Some path \<Rightarrow> Some path)"

text \<open>The callers pass no flags, so a link is not translated.\<close>

definition getdevpath :: "string \<Rightarrow> ('z, string) osio" where
  "getdevpath devname = getS (\<lambda>s.
     if devname \<noteq> [] \<and> (hd devname = CHR ''/'' \<or> hd devname = CHR ''.'') then devname
     else if os_entry s (''/dev/'' @ devname) then ''/dev/'' @ devname
     else case finddevlabel (os_devtab s) [''/usr/local/etc'', ''/etc'', ''/etc/defaults''] devname of
            None \<Rightarrow> devname
          | Some path \<Rightarrow> path)"

end
