(* ===== verification/Hammer2_Volumes.thy ===== *)
theory Hammer2_Volumes
  imports Hammer2_Files
begin

text \<open>
  The volumes of a HAMMER2 filesystem, from \<open>sbin/hammer2/ondisk.c\<close>: reading the volume headers,
  collecting the volumes of a filesystem, verifying that they fit together, and finding the volume a
  media offset lies on.
\<close>

section \<open>State\<close>

record hammer2_volume =
  h2v_fd :: int
  h2v_id :: int
  h2v_path :: "string option"
  h2v_offset :: u64
  h2v_size :: u64

record hammer2_ondisk =
  h2_version :: int
  h2_nvolumes :: int
  h2_volumes :: "hammer2_volume list"
  h2_total_size :: u64
  h2_free_size :: u64
  h2_fsid :: uuid
  h2_fstype :: uuid

text \<open>The static variables of the file, beside the state of the system.\<close>

record h2_state = h2_os +
  fso :: hammer2_ondisk
  hammer2_volumes_initialized :: bool

type_synonym 'a h2io = "(h2_state, 'a) io"

definition hammer2_init_volume :: "hammer2_volume \<Rightarrow> hammer2_volume" where
  "hammer2_init_volume vol = vol\<lparr>h2v_fd := - 1, h2v_id := - 1, h2v_offset := - 1, h2v_size := - 1\<rparr>"

definition volume_zero :: hammer2_volume where
  "volume_zero = \<lparr>h2v_fd = 0, h2v_id = 0, h2v_path = None, h2v_offset = 0, h2v_size = 0\<rparr>"

definition hammer2_init_ondisk :: hammer2_ondisk where
  "hammer2_init_ondisk =
     \<lparr>h2_version = - 1, h2_nvolumes = 0,
      h2_volumes = replicate HAMMER2_MAX_VOLUMES (hammer2_init_volume volume_zero),
      h2_total_size = 0, h2_free_size = 0, h2_fsid = 0, h2_fstype = 0\<rparr>"

definition hammer2_install_volume :: "int \<Rightarrow> int \<Rightarrow> string \<Rightarrow> u64 \<Rightarrow> u64 \<Rightarrow> hammer2_volume" where
  "hammer2_install_volume fd idn path off sz =
     \<lparr>h2v_fd = fd, h2v_id = idn, h2v_path = Some path, h2v_offset = off, h2v_size = sz\<rparr>"

text \<open>The path is freed and the pointer to it stays.\<close>

definition hammer2_uninstall_volume :: "hammer2_volume \<Rightarrow> hammer2_volume h2io" where
  "hammer2_uninstall_volume vol =
     bindS (sys_close (h2v_fd vol)) (\<lambda>_. returnS (hammer2_init_volume vol))"

section \<open>Volume headers\<close>

text \<open>The header in zone \<open>i\<close>, when it can be read and its magic and checksums are right.\<close>

definition volume_header_ok :: "u8 list \<Rightarrow> bool" where
  "volume_header_ok p \<longleftrightarrow>
     \<not> (getf (vd VD_magic) p \<noteq> HAMMER2_VOLUME_ID_HBO \<and> getf (vd VD_magic) p \<noteq> HAMMER2_VOLUME_ID_ABO) \<and>
     getf (vd VD_magic) p \<noteq> HAMMER2_VOLUME_ID_ABO \<and>
     getf (vd (VD_icrc_sects HAMMER2_VOL_ICRC_SECT0)) p = h2_crc_range HAMMER2_VOLUME_ICRC0 p \<and>
     getf (vd (VD_icrc_sects HAMMER2_VOL_ICRC_SECT1)) p = h2_crc_range HAMMER2_VOLUME_ICRC1 p \<and>
     getf (vd VD_icrc_volheader) p = h2_crc_range HAMMER2_VOLUME_ICRCVH p"

definition read_header_zone :: "int \<Rightarrow> nat \<Rightarrow> (nat \<times> u8 list) option \<Rightarrow> (nat \<times> u8 list) option h2io" where
  "read_header_zone fd i best =
     bindS (sys_pread fd (i * unat HAMMER2_ZONE_BYTES64) HAMMER2_PBUFSIZE) (\<lambda>ret.
     returnS (case ret of
         None \<Rightarrow> best
       | Some p \<Rightarrow>
           if length p \<noteq> HAMMER2_PBUFSIZE \<or> \<not> volume_header_ok p then best
           else
             (case best of
                None \<Rightarrow> Some (i, p)
              | Some (zone, q) \<Rightarrow>
                  if (getf (vd VD_mirror_tid) q :: u64) < getf (vd VD_mirror_tid) p then Some (i, p) else best)))"

text \<open>
  The result is the zone and the header found there, \<open>None\<close> the result \<open>-1\<close>.  The loop stops at the
  first zone that starts beyond the end of the volume.
\<close>

definition hammer2_read_volume_header :: "int \<Rightarrow> (nat \<times> u8 list) option h2io" where
  "hammer2_read_volume_header fd =
     bindS (check_volume fd) (\<lambda>size.
     forS (takeWhile (\<lambda>i. of_nat i * HAMMER2_ZONE_BYTES64 < size) [0..<HAMMER2_NUM_VOLHDRS])
       (read_header_zone fd) None)"

section \<open>Adding a volume\<close>

text \<open>The header agrees with what the volumes added before have said.\<close>

definition check_volume_header :: "u8 list \<Rightarrow> hammer2_ondisk \<Rightarrow> hammer2_ondisk h2io" where
  "check_volume_header voldata f =
     (if h2_nvolumes f = 0 then
        returnS (f\<lparr>h2_version := sint (getf (vd VD_version) voldata :: u32),
          h2_nvolumes := uint (getf (vd VD_nvolumes) voldata :: u8),
          h2_fsid := getf (vd VD_fsid) voldata, h2_fstype := getf (vd VD_fstype) voldata\<rparr>)
      else if h2_version f \<noteq> sint (getf (vd VD_version) voldata :: u32)
      then stopS (Exit_with 1 ''Volume version mismatch'')
      else if h2_nvolumes f \<noteq> uint (getf (vd VD_nvolumes) voldata :: u8)
      then stopS (Exit_with 1 ''Volume count mismatch'')
      else if h2_fsid f \<noteq> getf (vd VD_fsid) voldata
      then stopS (Exit_with 1 ''fsid uuid mismatch'')
      else if h2_fstype f \<noteq> getf (vd VD_fstype) voldata
      then stopS (Exit_with 1 ''fstype uuid mismatch'')
      else returnS f)"

definition hammer2_add_volume :: "string \<Rightarrow> bool \<Rightarrow> unit h2io" where
  "hammer2_add_volume path rdonly =
     bindS (sys_open path rdonly) (\<lambda>fd.
     if fd = - 1 then stopS (Exit_with 1 ''open'')
     else
       bindS (sys_fstat fd) (\<lambda>st.
       case st of
         None \<Rightarrow> stopS (Exit_with 1 ''fstat'')
       | Some f \<Rightarrow>
           if f_type f \<noteq> S_IFCHR \<and> f_type f \<noteq> S_IFREG then stopS (Exit_with 1 ''Unsupported file type'')
           else
             bindS (hammer2_read_volume_header fd) (\<lambda>zone.
             case zone of
               None \<Rightarrow> stopS (Exit_with 1 ''No valid volume headers found!'')
             | Some (_, voldata) \<Rightarrow>
                 let i = unat (getf (vd VD_volu_id) voldata :: u8) in
                 if i \<ge> HAMMER2_MAX_VOLUMES then stopS (Exit_with 1 ''bad volume id'')
                 else
                   bindS (getS fso) (\<lambda>f.
                   if h2v_id (h2_volumes f ! i) \<noteq> - 1 then stopS (Exit_with 1 ''volume id already initialized'')
                   else
                     bindS (check_volume_header voldata f) (\<lambda>f.
                     let vol = hammer2_install_volume fd (int i) path
                           (getf (vd (VD_volu_loff i)) voldata) (getf (vd VD_volu_size) voldata) in
                     modifyS (\<lambda>s. s\<lparr>fso := f\<lparr>h2_volumes := (h2_volumes f)[i := vol],
                       h2_total_size := h2_total_size f + h2v_size vol\<rparr>\<rparr>))))))"

section \<open>Verification\<close>

definition init_volume_count :: "hammer2_ondisk \<Rightarrow> nat" where
  "init_volume_count fsp = length (filter (\<lambda>vol. h2v_id vol \<noteq> - 1) (h2_volumes fsp))"

text \<open>One round of the first loop; \<open>st\<close> holds the inode and device numbers of the volumes.\<close>

definition verify_common_volume ::
  "hammer2_ondisk \<Rightarrow> nat \<Rightarrow> (u64 \<times> u64) list \<Rightarrow> (u64 \<times> u64) list h2io" where
  "verify_common_volume fsp i st =
     (let vol = h2_volumes fsp ! i in
      if h2v_id vol = - 1 then returnS st
      else
        bindS (case h2v_path vol of None \<Rightarrow> returnS None | Some path \<Rightarrow> sys_stat path) (\<lambda>f.
        case f of
          None \<Rightarrow> stopS (Exit_with 1 ''Failed to stat'')
        | Some _ \<Rightarrow>
            if i \<ge> length st then stopS (Out_of_bounds ''st[i]'')
            else
              bindS (sys_fstat (h2v_fd vol)) (\<lambda>f.
              case f of
                None \<Rightarrow> stopS (Exit_with 1 ''Failed to fstat'')
              | Some f \<Rightarrow>
                  if (f_ino f, f_dev f) \<in> set (take i st)
                  then stopS (Exit_with 1 ''specified more than once'')
                  else if h2v_fd vol = - 1 then stopS (Exit_with 1 ''bad fd'')
                  else if h2v_offset vol = - 1 then stopS (Exit_with 1 ''bad offset'')
                  else if h2v_size vol = - 1 then stopS (Exit_with 1 ''bad size'')
                  else
                    bindS (check_volume (h2v_fd vol)) (\<lambda>size.
                    if h2v_size vol > size then stopS (Exit_with 1 ''size exceeds device size'')
                    else returnS (st[i := (f_ino f, f_dev f)])))))"

definition hammer2_verify_volumes_common :: "hammer2_ondisk \<Rightarrow> unit h2io" where
  "hammer2_verify_volumes_common fsp =
     (if h2_version fsp = - 1 then stopS (Exit_with 1 ''Bad volume version'')
      else
        bindS (forS [0..<HAMMER2_MAX_VOLUMES] (verify_common_volume fsp)
          (replicate (init_volume_count fsp) (0, 0))) (\<lambda>_. returnS ()))"

definition hammer2_verify_volumes_1 :: "hammer2_ondisk \<Rightarrow> u8 list option \<Rightarrow> hammer2_ondisk h2io" where
  "hammer2_verify_volumes_1 fsp rootvoldata =
     (let nvolumes = init_volume_count fsp in
      if nvolumes \<noteq> 1 then stopS (Exit_with 1 ''Only 1 volume supported'')
      else
        let fsp = fsp\<lparr>h2_nvolumes := int nvolumes\<rparr> in
        bindS (case rootvoldata of
            None \<Rightarrow> returnS ()
          | Some v \<Rightarrow>
              if (getf (vd VD_volu_id) v :: u8) \<noteq> 0 then stopS (Exit_with 1 ''Volume id must be 0'')
              else if (getf (vd VD_nvolumes) v :: u8) \<noteq> 0 then stopS (Exit_with 1 ''Volume count must be 0'')
              else if (getf (vd VD_total_size) v :: u64) \<noteq> 0 then stopS (Exit_with 1 ''Total size must be 0'')
              else if \<exists>i\<in>set [0..<HAMMER2_MAX_VOLUMES]. (getf (vd (VD_volu_loff i)) v :: u64) \<noteq> 0
              then stopS (Exit_with 1 ''Volume offset must be 0'')
              else returnS ()) (\<lambda>_.
        let vol = h2_volumes fsp ! 0 in
        if h2v_id vol \<noteq> 0 then stopS (Exit_with 1 ''has non zero id'')
        else if h2v_offset vol \<noteq> 0 then stopS (Exit_with 1 ''has non zero offset'')
        else if h2v_size vol AND HAMMER2_VOLUME_ALIGNMASK64 \<noteq> 0 then stopS (Exit_with 1 ''size is not aligned'')
        else returnS fsp))"

text \<open>The header checks of \<open>hammer2_verify_volumes_2\<close> read the static \<open>fso\<close>, not the argument.\<close>

definition verify_root_header :: "nat \<Rightarrow> u8 list \<Rightarrow> unit h2io" where
  "verify_root_header nvolumes v =
     bindS (getS fso) (\<lambda>f.
     if uint (getf (vd VD_volu_id) v :: u8) \<noteq> HAMMER2_ROOT_VOLUME then stopS (Exit_with 1 ''Volume id must be 0'')
     else if uint (getf (vd VD_nvolumes) v :: u8) \<noteq> h2_nvolumes f
     then stopS (Exit_with 1 ''Volume header requires devices'')
     else if getf (vd VD_total_size) v \<noteq> h2_total_size f
     then stopS (Exit_with 1 ''Total size does not equal sum of volumes'')
     else if \<exists>i\<in>set [0..<nvolumes]. (getf (vd (VD_volu_loff i)) v :: u64) = - 1
     then stopS (Exit_with 1 ''Volume offset must not be -1'')
     else if \<exists>i\<in>set [nvolumes..<HAMMER2_MAX_VOLUMES]. (getf (vd (VD_volu_loff i)) v :: u64) \<noteq> - 1
     then stopS (Exit_with 1 ''Volume offset must be -1'')
     else returnS ())"

definition verify_volume_2 :: "hammer2_ondisk \<Rightarrow> nat \<Rightarrow> unit \<Rightarrow> unit h2io" where
  "verify_volume_2 fsp i u =
     (let vol = h2_volumes fsp ! i; prev = h2_volumes fsp ! (i - 1) in
      if h2v_id vol = - 1 then returnS ()
      else if h2v_offset vol AND HAMMER2_FREEMAP_LEVEL1_MASK \<noteq> 0
      then stopS (Exit_with 1 ''offset not aligned'')
      else if i \<noteq> 0 \<and> h2v_id vol \<noteq> h2v_id prev + 1 then stopS (Exit_with 1 ''has inconsistent id'')
      else if i \<noteq> 0 \<and> h2v_offset vol \<noteq> h2v_offset prev + h2v_size prev
      then stopS (Exit_with 1 ''has inconsistent offset'')
      else if i = 0 \<and> h2v_offset vol \<noteq> 0 then stopS (Exit_with 1 ''has non zero offset'')
      else if int i \<noteq> h2_nvolumes fsp - 1 then
        if h2v_size vol < HAMMER2_FREEMAP_LEVEL1_SIZE then stopS (Exit_with 1 ''size must be larger'')
        else if h2v_size vol AND HAMMER2_FREEMAP_LEVEL1_MASK \<noteq> 0
        then stopS (Exit_with 1 ''size is not aligned'')
        else returnS ()
      else if h2v_size vol AND HAMMER2_VOLUME_ALIGNMASK64 \<noteq> 0
      then stopS (Exit_with 1 ''size is not aligned'')
      else returnS ())"

definition hammer2_verify_volumes_2 :: "hammer2_ondisk \<Rightarrow> u8 list option \<Rightarrow> unit h2io" where
  "hammer2_verify_volumes_2 fsp rootvoldata =
     (let nvolumes = init_volume_count fsp in
      if h2_nvolumes fsp \<noteq> int nvolumes then stopS (Exit_with 1 ''Volume count mismatch'')
      else
        bindS (case rootvoldata of None \<Rightarrow> returnS () | Some v \<Rightarrow> verify_root_header nvolumes v) (\<lambda>_.
        forS [0..<HAMMER2_MAX_VOLUMES] (verify_volume_2 fsp) ()))"

definition hammer2_verify_volumes :: "hammer2_ondisk \<Rightarrow> u8 list option \<Rightarrow> hammer2_ondisk h2io" where
  "hammer2_verify_volumes fsp rootvoldata =
     bindS (hammer2_verify_volumes_common fsp) (\<lambda>_.
     bindS (if h2_version fsp \<ge> HAMMER2_VOL_VERSION_MULTI_VOLUMES
            then bindS (hammer2_verify_volumes_2 fsp rootvoldata) (\<lambda>_. returnS fsp)
            else hammer2_verify_volumes_1 fsp rootvoldata) (\<lambda>fsp.
     bindS (assertS (h2_nvolumes fsp > 0) ''fsp->nvolumes > 0'') (\<lambda>_.
     returnS fsp)))"

section \<open>Finding the volume of an offset\<close>

definition attr_step :: "u64 \<Rightarrow> (hammer2_volume \<Rightarrow> 'a) \<Rightarrow> nat \<Rightarrow> 'a option \<Rightarrow> 'a option h2io" where
  "attr_step offset fn i ret =
     (case ret of
        Some x \<Rightarrow> returnS ret
      | None \<Rightarrow>
          if i \<ge> HAMMER2_MAX_VOLUMES then stopS (Out_of_bounds ''fso.volumes[i]'')
          else
            bindS (getS fso) (\<lambda>f.
            let vol = h2_volumes f ! i in
            returnS (if offset \<ge> h2v_offset vol \<and> offset < h2v_offset vol + h2v_size vol
                     then Some (fn vol) else None)))"

text \<open>\<open>None\<close> is the result \<open>-1\<close>; otherwise the callback's value for the volume.\<close>

definition hammer2_get_volume_attr :: "u64 \<Rightarrow> (hammer2_volume \<Rightarrow> 'a) \<Rightarrow> 'a option h2io" where
  "hammer2_get_volume_attr offset fn =
     bindS (getS hammer2_volumes_initialized) (\<lambda>initialized.
     bindS (assertS initialized ''hammer2_volumes_initialized == 1'') (\<lambda>_.
     bindS (getS fso) (\<lambda>f.
     forS [0..<nat (h2_nvolumes f)] (attr_step (offset AND NOT HAMMER2_OFF_MASK_RADIX) fn) None)))"

definition hammer2_get_volume_fd :: "u64 \<Rightarrow> int h2io" where
  "hammer2_get_volume_fd offset =
     bindS (hammer2_get_volume_attr offset h2v_fd) (\<lambda>r. returnS (case r of None \<Rightarrow> - 1 | Some x \<Rightarrow> x))"

definition hammer2_get_volume_id :: "u64 \<Rightarrow> int h2io" where
  "hammer2_get_volume_id offset =
     bindS (hammer2_get_volume_attr offset h2v_id) (\<lambda>r. returnS (case r of None \<Rightarrow> - 1 | Some x \<Rightarrow> x))"

definition hammer2_get_volume_path :: "u64 \<Rightarrow> string option h2io" where
  "hammer2_get_volume_path offset =
     bindS (hammer2_get_volume_attr offset h2v_path) (\<lambda>r. returnS (case r of None \<Rightarrow> None | Some x \<Rightarrow> x))"

definition hammer2_get_volume_offset :: "u64 \<Rightarrow> u64 h2io" where
  "hammer2_get_volume_offset offset =
     bindS (hammer2_get_volume_attr offset h2v_offset) (\<lambda>r. returnS (case r of None \<Rightarrow> - 1 | Some x \<Rightarrow> x))"

definition hammer2_get_volume_size :: "u64 \<Rightarrow> u64 h2io" where
  "hammer2_get_volume_size offset =
     bindS (hammer2_get_volume_attr offset h2v_size) (\<lambda>r. returnS (case r of None \<Rightarrow> - 1 | Some x \<Rightarrow> x))"

definition hammer2_read_root_volume_header :: "u8 list option h2io" where
  "hammer2_read_root_volume_header =
     bindS (hammer2_get_volume_fd 0) (\<lambda>fd.
     bindS (hammer2_get_volume_path 0) (\<lambda>path.
     if fd = - 1 then returnS None
     else
       bindS (hammer2_read_volume_header fd) (\<lambda>zone.
       case zone of
         None \<Rightarrow> stopS (Exit_with 1 ''Failed to read volume header'')
       | Some (_, voldata) \<Rightarrow> returnS (Some voldata))))"

section \<open>Opening and closing a filesystem\<close>

text \<open>The device names between the colons.\<close>

fun split_colon :: "string \<Rightarrow> string list" where
  "split_colon [] = [[]]"
| "split_colon (c # cs) =
    (if c = CHR '':'' then [] # split_colon cs
     else (c # hd (split_colon cs)) # tl (split_colon cs))"

text \<open>
  A device path that names several devices is opened by a recursive call; \<open>depth\<close> is the depth the
  stack allows.
\<close>

fun hammer2_init_volumes :: "nat \<Rightarrow> string \<Rightarrow> bool \<Rightarrow> unit h2io" where
  "hammer2_init_volumes 0 blkdevs rdonly = stopS Stack_exhausted"
| "hammer2_init_volumes (Suc depth) blkdevs rdonly =
    bindS (getS hammer2_volumes_initialized) (\<lambda>initialized.
    if initialized then stopS (Exit_with 1 ''Already initialized'')
    else
      bindS (modifyS (\<lambda>s. s\<lparr>fso := hammer2_init_ondisk\<rparr>)) (\<lambda>_.
      bindS (forS (split_colon blkdevs) (\<lambda>devpath _.
        bindS (getdevpath devpath) (\<lambda>devpath.
        if CHR '':'' \<in> set devpath then hammer2_init_volumes depth devpath rdonly
        else hammer2_add_volume devpath rdonly)) ()) (\<lambda>_.
      bindS (modifyS (\<lambda>s. s\<lparr>hammer2_volumes_initialized := True\<rparr>)) (\<lambda>_.
      bindS hammer2_read_root_volume_header (\<lambda>rootvoldata.
      bindS (getS fso) (\<lambda>f.
      bindS (hammer2_verify_volumes f rootvoldata) (\<lambda>f.
      modifyS (\<lambda>s. s\<lparr>fso := f\<rparr>))))))))"

definition cleanup_step :: "nat \<Rightarrow> unit \<Rightarrow> unit h2io" where
  "cleanup_step i u =
     bindS (getS fso) (\<lambda>f.
     let vol = h2_volumes f ! i in
     if h2v_id vol = - 1 then returnS ()
     else
       bindS (hammer2_uninstall_volume vol) (\<lambda>vol.
       modifyS (\<lambda>s. s\<lparr>fso := f\<lparr>h2_volumes := (h2_volumes f)[i := vol]\<rparr>\<rparr>)))"

definition hammer2_cleanup_volumes :: "unit h2io" where
  "hammer2_cleanup_volumes =
     bindS (forS [0..<HAMMER2_MAX_VOLUMES] cleanup_step ()) (\<lambda>_.
     modifyS (\<lambda>s. s\<lparr>hammer2_volumes_initialized := False\<rparr>))"

end
