(* ===== verification/Hammer2_Newfs.thy ===== *)
theory Hammer2_Newfs
  imports Hammer2_Volumes Xxhash
begin

text \<open>
  Creating a HAMMER2 filesystem, from \<open>sbin/newfs_hammer2/mkfs_hammer2.c\<close>: the sizes of the reserved
  areas, the super-root and label inodes, and the volume headers with their checksums.
\<close>

section \<open>Options\<close>

datatype label_type = HAMMER2_LABEL_NONE | HAMMER2_LABEL_BOOT | HAMMER2_LABEL_ROOT | HAMMER2_LABEL_DATA

abbreviation (input) MAXLABELS :: nat where "MAXLABELS \<equiv> HAMMER2_SET_COUNT"

record hammer2_mkfs_options =
  Hammer2Version :: int
  Hammer2_FSType :: uuid
  Hammer2_VolFSID :: uuid
  Hammer2_SupCLID :: uuid
  Hammer2_SupFSID :: uuid
  BootAreaSize :: u64
  AuxAreaSize :: u64
  Label :: "u8 list list"
  CompType :: u8
  DefaultLabelType :: label_type

definition cstr :: "string \<Rightarrow> u8 list" where
  "cstr s = map of_char s"

text \<open>Swapping the first three members of a UUID between byte orders.\<close>

definition uuid_swap :: "u8 list \<Rightarrow> u8 list" where
  "uuid_swap p = rev (take 4 p) @ rev (take 2 (drop 4 p)) @ rev (take 2 (drop 6 p)) @ drop 8 p"

definition hammer2_uuid_from_string :: "(string \<Rightarrow> u8 list option) \<Rightarrow> string \<Rightarrow> uuid option" where
  "hammer2_uuid_from_string uuid_parse str = map_option (\<lambda>b. le_word (uuid_swap b)) (uuid_parse str)"

text \<open>
  \<open>sysctlbyname\<close> always fails on this platform, so the version is the default one.  \<open>uuid_parse\<close> is
  the function of the UUID library.
\<close>

definition hammer2_mkfs_init :: "(string \<Rightarrow> u8 list option) \<Rightarrow> hammer2_mkfs_options h2io" where
  "hammer2_mkfs_init uuid_parse =
     bindS uuid_create (\<lambda>volfsid.
     bindS uuid_create (\<lambda>supclid.
     bindS uuid_create (\<lambda>supfsid.
     case hammer2_uuid_from_string uuid_parse ''5cbb9ad1-862d-11dc-a94d-01301bb8a9f5'' of
       None \<Rightarrow> stopS (Exit_with 1 ''uuids file does not have the DragonFly HAMMER2 filesystem type'')
     | Some fstype \<Rightarrow>
         returnS \<lparr>Hammer2Version = HAMMER2_VOL_VERSION_MULTI_VOLUMES, Hammer2_FSType = fstype,
           Hammer2_VolFSID = volfsid, Hammer2_SupCLID = supclid, Hammer2_SupFSID = supfsid,
           BootAreaSize = 0, AuxAreaSize = 0, Label = [cstr ''LOCAL''], CompType = HAMMER2_COMP_LZ4,
           DefaultLabelType = HAMMER2_LABEL_NONE\<rparr>)))"

text \<open>Halving a nominal size until it is at most a twentieth of the filesystem.\<close>

function halve_to :: "u64 \<Rightarrow> u64 \<Rightarrow> u64" where
  "halve_to b limit = (if b > limit then halve_to (drop_bit 1 b) limit else b)"
  by auto
termination
proof (relation "measure (\<lambda>(b, limit). unat b)")
  fix b limit :: u64 assume "limit < b"
  then have "0 < unat b" by (metis unat_gt_0 word_not_simps(1))
  then show "((drop_bit 1 b, limit), b, limit) \<in> measure (\<lambda>(b, limit). unat b)"
    by (simp add: drop_bit_unat)
qed simp

declare halve_to.simps [simp del]

definition area_size :: "u64 \<Rightarrow> u64 \<Rightarrow> u64 \<Rightarrow> u64 \<Rightarrow> u64" where
  "area_size requested nom least bytes =
     (let area = (if requested = 0 then max least (halve_to nom (bytes div 20)) else max least requested)
      in (area + HAMMER2_VOLUME_ALIGNMASK64) AND NOT HAMMER2_VOLUME_ALIGNMASK64)"

definition adjust_options :: "u64 \<Rightarrow> hammer2_mkfs_options \<Rightarrow> hammer2_mkfs_options" where
  "adjust_options bytes opt =
     opt\<lparr>Label := Label opt @
           (case DefaultLabelType opt of
              HAMMER2_LABEL_BOOT \<Rightarrow> [cstr ''BOOT'']
            | HAMMER2_LABEL_ROOT \<Rightarrow> [cstr ''ROOT'']
            | HAMMER2_LABEL_DATA \<Rightarrow> [cstr ''DATA'']
            | HAMMER2_LABEL_NONE \<Rightarrow> []),
         BootAreaSize := area_size (BootAreaSize opt) HAMMER2_BOOT_NOM_BYTES HAMMER2_VOLUME_ALIGN bytes,
         AuxAreaSize := area_size (AuxAreaSize opt) HAMMER2_AUX_NOM_BYTES HAMMER2_VOLUME_ALIGN bytes\<rparr>"

section \<open>Writing blocks\<close>

definition zero_bytes :: "nat \<Rightarrow> u8 list" where
  "zero_bytes n = replicate n 0"

definition pwrite_block :: "int \<Rightarrow> u8 list \<Rightarrow> u64 \<Rightarrow> unit h2io" where
  "pwrite_block fd buf off =
     bindS (sys_pwrite fd buf off) (\<lambda>n.
     if n \<noteq> int HAMMER2_PBUFSIZE then stopS (Exit_with 1 ''write'') else returnS ())"

text \<open>The values of a loop variable that runs from \<open>p\<close> to \<open>e\<close> in steps of a block.\<close>

definition block_steps :: "u64 \<Rightarrow> u64 \<Rightarrow> u64 list" where
  "block_steps p e =
     map (\<lambda>k. p + of_nat k * of_nat HAMMER2_PBUFSIZE)
       [0..<(unat e - unat p + HAMMER2_PBUFSIZE - 1) div HAMMER2_PBUFSIZE]"

definition format_hammer2_misc :: "int \<Rightarrow> hammer2_mkfs_options \<Rightarrow> u64 \<Rightarrow> u64 \<Rightarrow> u64 h2io" where
  "format_hammer2_misc fd opt boot_base aux_base =
     (let buf = zero_bytes HAMMER2_PBUFSIZE; alloc_base = aux_base + AuxAreaSize opt in
      bindS (forS [0..<HAMMER2_ZONE_BLOCKS_SEG]
        (\<lambda>i _. pwrite_block fd buf (of_nat i * of_nat HAMMER2_PBUFSIZE)) ()) (\<lambda>_.
      bindS (assertS (alloc_base AND HAMMER2_PBUFMASK64 = 0) ''(alloc_base & HAMMER2_PBUFMASK) == 0'') (\<lambda>_.
      bindS (assertS (alloc_base < HAMMER2_FREEMAP_LEVEL1_SIZE) ''alloc_base < HAMMER2_FREEMAP_LEVEL1_SIZE'') (\<lambda>_.
      bindS (forS (block_steps boot_base alloc_base) (\<lambda>tmp_base _. pwrite_block fd buf tmp_base) ()) (\<lambda>_.
      returnS alloc_base)))))"

section \<open>Block references and inodes\<close>

function radix_loop :: "nat \<Rightarrow> nat \<Rightarrow> nat \<times> nat" where
  "radix_loop bytes radix =
     (if bytes \<noteq> 0 \<and> even bytes then radix_loop (bytes div 2) (radix + 1) else (bytes, radix))"
  by auto
termination
  by (relation "measure fst") auto

declare radix_loop.simps [simp del]

definition alloc_direct :: "u64 \<Rightarrow> nat \<Rightarrow> (u64 \<times> u8 list) h2io" where
  "alloc_direct base bytes =
     bindS (assertS (bytes \<noteq> 0) ''bytes'') (\<lambda>_.
     case radix_loop bytes 0 of (bytes, radix) \<Rightarrow>
     bindS (assertS (bytes = 1) ''bytes == 1'') (\<lambda>_.
     let radix = max radix HAMMER2_RADIX_MIN;
         br = zero_bytes 128;
         br = setf (bref BR_data_off) (base OR of_nat radix :: u64) br;
         br = setf (bref BR_vradix) (of_nat radix :: u8) br
     in returnS (base + ucast (push_bit radix 1 :: u32), br)))"

definition strcasecmp_eq :: "u8 list \<Rightarrow> u8 list \<Rightarrow> bool" where
  "strcasecmp_eq a b =
     (let lower = map (\<lambda>c. if 65 \<le> c \<and> c \<le> 90 then c + 32 else c) in lower a = lower b)"

abbreviation (input) XXH_HAMMER2_SEED :: u64 where "XXH_HAMMER2_SEED \<equiv> 0x4d617474446c6c6e"

text \<open>The root directory inode of a label, at \<open>base\<close> of the buffer.\<close>

definition label_inode ::
  "hammer2_mkfs_options \<Rightarrow> u8 list \<Rightarrow> u64 \<Rightarrow> uuid \<Rightarrow> uuid \<Rightarrow> nat \<Rightarrow> u8 list \<Rightarrow> u8 list" where
  "label_inode opt label now clid fsid base buf =
     (let at = (\<lambda>m. fld_at base (ip m)); name_len = of_nat (length label) :: u16;
          buf = setf (at IP_version) HAMMER2_INODE_VERSION_ONE buf;
          buf = setf (at IP_ctime) now buf;
          buf = setf (at IP_mtime) now buf;
          buf = setf (at IP_btime) now buf;
          buf = setf (at IP_type) HAMMER2_OBJTYPE_DIRECTORY buf;
          buf = setf (at IP_mode) (493 :: u32) buf;
          buf = setf (at IP_inum) (1 :: u64) buf;
          buf = setf (at IP_nlinks) (1 :: u64) buf;
          buf = setf (at IP_name_len) name_len buf;
          buf = overwrite buf (fst (at IP_filename)) (take (unat name_len) label);
          buf = setf (at IP_name_key) (dirhash (take (unat name_len) label)) buf;
          buf = setf (at IP_comp_algo)
            (if strcasecmp_eq label (cstr ''BOOT'') then HAMMER2_COMP_AUTOZERO else CompType opt) buf;
          buf = setf (at IP_check_algo) HAMMER2_CHECK_XXHASH64 buf;
          buf = setf (at IP_pfs_clid) clid buf;
          buf = setf (at IP_pfs_fsid) fsid buf;
          buf = setf (at IP_pfs_type) HAMMER2_PFSTYPE_MASTER buf;
          buf = setf (at IP_op_flags) (getf (at IP_op_flags) buf OR HAMMER2_OPFLAG_PFSROOT) buf
      in setf (at IP_pfs_inum) (16 :: u64) buf)"

text \<open>The block reference of a label's inode.\<close>

definition label_blockref :: "u8 list \<Rightarrow> nat \<Rightarrow> u8 list \<Rightarrow> u8 list" where
  "label_blockref buf base br =
     (let br = setf (bref BR_key) (getf (fld_at base (ip IP_name_key)) buf :: u64) br;
          br = setf (bref BR_copyid) HAMMER2_COPYID_LOCAL br;
          br = setf (bref BR_keybits) (0 :: u8) br;
          br = setf (bref BR_check_xxhash64) (XXH64 (take HAMMER2_INODE_BYTES (drop base buf)) XXH_HAMMER2_SEED) br;
          br = setf (bref BR_type) HAMMER2_BREF_TYPE_INODE br;
          br = setf (bref BR_methods) (HAMMER2_ENC_CHECK HAMMER2_CHECK_XXHASH64 OR HAMMER2_ENC_COMP HAMMER2_COMP_NONE) br;
          br = setf (bref BR_mirror_tid) (16 :: u64) br
      in setf (bref BR_flags) HAMMER2_BREF_FLAG_PFSROOT br)"

text \<open>\<open>HAMMER2_OFF_MASK_LO & data_off\<close>, the offset of the inode in its 64 KiB block.\<close>

definition inode_base :: "u8 list \<Rightarrow> nat" where
  "inode_base br =
     unat ((0xFFFFFFFFFFFFFFC0 AND HAMMER2_PBUFMASK64) AND (getf (bref BR_data_off) br :: u64))"

text \<open>One round of the loop over the labels, on the buffer, the next free offset and the references.\<close>

definition format_label ::
  "hammer2_mkfs_options \<Rightarrow> u8 list \<Rightarrow> u64 \<Rightarrow> nat \<Rightarrow> u8 list \<times> u64 \<times> u8 list list \<Rightarrow>
   (u8 list \<times> u64 \<times> u8 list list) h2io" where
  "format_label opt sroot now i acc =
     (case acc of (buf, alloc_base, roots) \<Rightarrow>
      if i \<ge> MAXLABELS then stopS (Out_of_bounds ''root_blockref[i]'')
      else
        bindS uuid_create (\<lambda>clid.
        bindS uuid_create (\<lambda>fsid.
        bindS (alloc_direct alloc_base HAMMER2_INODE_BYTES) (\<lambda>(alloc_base, br).
        bindS (assertS (((getf (bref BR_data_off) sroot XOR getf (bref BR_data_off) br :: u64) AND NOT HAMMER2_PBUFMASK64) = 0)
          ''inodes in the same block'') (\<lambda>_.
        let base = inode_base br in
        if base + 0x100 + length (Label opt ! i) > HAMMER2_PBUFSIZE then stopS (Out_of_bounds ''filename'')
        else
          let buf = label_inode opt (Label opt ! i) now clid fsid base buf
          in returnS (buf, alloc_base, roots @ [label_blockref buf base br]))))))"

text \<open>
  The super-root inode, with the references of the labels sorted by key.  \<open>qsort\<close> leaves the order of equal
  keys open, which only labels with the same key have; here they stay in the order of the labels.
\<close>

definition sroot_inode :: "hammer2_mkfs_options \<Rightarrow> u64 \<Rightarrow> u8 list list \<Rightarrow> nat \<Rightarrow> u8 list \<Rightarrow> u8 list" where
  "sroot_inode opt now roots base buf =
     (let at = (\<lambda>m. fld_at base (ip m));
          buf = setf (at IP_version) HAMMER2_INODE_VERSION_ONE buf;
          buf = setf (at IP_ctime) now buf;
          buf = setf (at IP_mtime) now buf;
          buf = setf (at IP_btime) now buf;
          buf = setf (at IP_type) HAMMER2_OBJTYPE_DIRECTORY buf;
          buf = setf (at IP_mode) (448 :: u32) buf;
          buf = setf (at IP_inum) (0 :: u64) buf;
          buf = setf (at IP_nlinks) (2 :: u64) buf;
          buf = setf (at IP_name_len) (0 :: u16) buf;
          buf = setf (at IP_name_key) (0 :: u64) buf;
          buf = setf (at IP_comp_algo) HAMMER2_COMP_AUTOZERO buf;
          buf = setf (at IP_check_algo) HAMMER2_CHECK_XXHASH64 buf;
          buf = setf (at IP_pfs_clid) (Hammer2_SupCLID opt) buf;
          buf = setf (at IP_pfs_fsid) (Hammer2_SupFSID opt) buf;
          buf = setf (at IP_pfs_type) HAMMER2_PFSTYPE_SUPROOT buf;
          buf = overwrite buf (fst (at IP_filename)) (cstr ''SUPROOT'' @ [0]);
          buf = setf (at IP_name_key) (0 :: u64) buf;
          buf = setf (at IP_name_len) (7 :: u16) buf;
          buf = setf (at IP_pfs_inum) (0 :: u64) buf;
          sorted = sort_key (\<lambda>br. getf (bref BR_key) br :: u64) roots
      in foldl (\<lambda>buf i. overwrite buf (fst (at (IP_blockref i))) (sorted ! i)) buf [0..<length sorted])"

definition sroot_blockref :: "u8 list \<Rightarrow> nat \<Rightarrow> u8 list \<Rightarrow> u8 list" where
  "sroot_blockref buf base br =
     (let br = setf (bref BR_copyid) HAMMER2_COPYID_LOCAL br;
          br = setf (bref BR_keybits) (0 :: u8) br;
          br = setf (bref BR_check_xxhash64) (XXH64 (take HAMMER2_INODE_BYTES (drop base buf)) XXH_HAMMER2_SEED) br;
          br = setf (bref BR_type) HAMMER2_BREF_TYPE_INODE br;
          br = setf (bref BR_methods) (HAMMER2_ENC_CHECK HAMMER2_CHECK_XXHASH64 OR HAMMER2_ENC_COMP HAMMER2_COMP_AUTOZERO) br
      in setf (bref BR_mirror_tid) (16 :: u64) br)"

definition format_hammer2_inode ::
  "int \<Rightarrow> hammer2_mkfs_options \<Rightarrow> u64 \<Rightarrow> (u64 \<times> u8 list) h2io" where
  "format_hammer2_inode fd opt alloc_base =
     bindS (getS os_now) (\<lambda>now.
     bindS (alloc_direct (alloc_base AND NOT HAMMER2_PBUFMASK64) HAMMER2_INODE_BYTES) (\<lambda>(alloc_base, sroot).
     bindS (forS [0..<length (Label opt)] (format_label opt sroot now)
       (zero_bytes HAMMER2_PBUFSIZE, alloc_base, [])) (\<lambda>(buf, alloc_base, roots).
     let base = inode_base sroot;
         buf = sroot_inode opt now roots base buf;
         data_off = getf (bref BR_data_off) sroot :: u64;
         sroot = sroot_blockref buf base sroot in
     bindS (assertS (data_off AND NOT HAMMER2_PBUFMASK64 = (alloc_base - 1) AND NOT HAMMER2_PBUFMASK64)
       ''root and sroot in one block'') (\<lambda>_.
     bindS (pwrite_block fd buf (data_off AND NOT HAMMER2_PBUFMASK64)) (\<lambda>_.
     returnS (alloc_base, sroot))))))"

section \<open>The volume header\<close>

text \<open>The first part of the header, up to the checksums.\<close>

definition volume_header_fields ::
  "hammer2_ondisk \<Rightarrow> hammer2_mkfs_options \<Rightarrow> hammer2_volume \<Rightarrow> u64 \<Rightarrow> u8 list list \<Rightarrow> u8 list" where
  "volume_header_fields f opt vol alloc_base sroot_blockset =
     (let root = (h2v_id vol = HAMMER2_ROOT_VOLUME);
          boot_base = HAMMER2_ZONE_SEG64; aux_base = boot_base + BootAreaSize opt;
          buf = zero_bytes HAMMER2_PBUFSIZE;
          buf = setf (vd VD_magic) HAMMER2_VOLUME_ID_HBO buf;
          buf = (if root then
                   setf (vd VD_aux_end) (aux_base + AuxAreaSize opt)
                   (setf (vd VD_aux_beg) aux_base
                   (setf (vd VD_boot_end) (boot_base + BootAreaSize opt)
                   (setf (vd VD_boot_beg) boot_base buf)))
                 else buf);
          buf = setf (vd VD_volu_size) (h2v_size vol) buf;
          buf = setf (vd VD_version) (word_of_int (Hammer2Version opt) :: u32) buf;
          buf = setf (vd VD_flags) (0 :: u32) buf;
          buf = (if uint (getf (vd VD_version) buf :: u32) \<ge> HAMMER2_VOL_VERSION_MULTI_VOLUMES then
                   foldl (\<lambda>buf i. setf (vd (VD_volu_loff i))
                       (if int i < h2_nvolumes f then h2v_offset (h2_volumes f ! i) else - 1) buf)
                     (setf (vd VD_total_size) (h2_total_size f)
                     (setf (vd VD_nvolumes) (word_of_int (h2_nvolumes f) :: u8)
                     (setf (vd VD_volu_id) (word_of_int (h2v_id vol) :: u8) buf)))
                     [0..<HAMMER2_MAX_VOLUMES]
                 else buf);
          buf = setf (vd VD_fsid) (Hammer2_VolFSID opt) buf;
          buf = setf (vd VD_fstype) (Hammer2_FSType opt) buf;
          buf = setf (vd VD_peer_type) (3 :: u8) buf;
          buf = setf (vd VD_allocator_size) (h2_free_size f) buf;
          buf = (if root then
                   setf (vd VD_allocator_beg) alloc_base (setf (vd VD_allocator_free) (h2_free_size f) buf)
                 else buf);
          buf = foldl (\<lambda>buf i. overwrite buf (fst (vd (VD_sroot_blockref i))) (sroot_blockset ! i)) buf
                  [0..<HAMMER2_SET_COUNT];
          buf = setf (vd VD_mirror_tid) (16 :: u64) buf
      in setf (vd VD_freemap_tid) (16 :: u64) buf)"

text \<open>The checksums: section 1 first, since it lies in section 0, and the whole header last.\<close>

definition volume_header_seal :: "u8 list \<Rightarrow> u8 list" where
  "volume_header_seal buf =
     (let buf = setf (vd (VD_icrc_sects HAMMER2_VOL_ICRC_SECT1)) (h2_crc_range HAMMER2_VOLUME_ICRC1 buf) buf;
          buf = setf (vd (VD_icrc_sects HAMMER2_VOL_ICRC_SECT0)) (h2_crc_range HAMMER2_VOLUME_ICRC0 buf) buf
      in setf (vd VD_icrc_volheader) (h2_crc_range HAMMER2_VOLUME_ICRCVH buf) buf)"

definition format_hammer2 :: "hammer2_ondisk \<Rightarrow> hammer2_mkfs_options \<Rightarrow> nat \<Rightarrow> unit h2io" where
  "format_hammer2 f opt index =
     (let vol = h2_volumes f ! index; boot_base = HAMMER2_ZONE_SEG64; aux_base = boot_base + BootAreaSize opt in
      bindS (pwrite_block (h2v_fd vol) (zero_bytes HAMMER2_PBUFSIZE) (h2v_size vol - of_nat HAMMER2_PBUFSIZE)) (\<lambda>_.
      bindS (if h2v_id vol = HAMMER2_ROOT_VOLUME then
               bindS (format_hammer2_misc (h2v_fd vol) opt boot_base aux_base) (\<lambda>alloc_base.
               bindS (format_hammer2_inode (h2v_fd vol) opt alloc_base) (\<lambda>(alloc_base, sroot).
               returnS (alloc_base, sroot # replicate 3 (zero_bytes 128))))
             else
               returnS (0, replicate 4 (setf (bref BR_type) HAMMER2_BREF_TYPE_INVALID (zero_bytes 128))))
        (\<lambda>(alloc_base, sroot_blockset).
      bindS (assertS (h2v_id vol = HAMMER2_ROOT_VOLUME \<or> alloc_base = 0) ''alloc_base == 0'') (\<lambda>_.
      let buf = volume_header_seal (volume_header_fields f opt vol alloc_base sroot_blockset) in
      forS (takeWhile (\<lambda>i. of_nat i * HAMMER2_ZONE_BYTES64 < h2v_size vol) [0..<HAMMER2_NUM_VOLHDRS])
        (\<lambda>i _. pwrite_block (h2v_fd vol) buf (of_nat i * HAMMER2_ZONE_BYTES64)) ()))))"

section \<open>The filesystem\<close>

definition mkfs_volume :: "string list \<Rightarrow> nat \<Rightarrow> hammer2_ondisk \<Rightarrow> hammer2_ondisk h2io" where
  "mkfs_volume av i f =
     bindS (sys_open (av ! i) False) (\<lambda>fd.
     if fd < 0 then stopS (Exit_with 1 ''Unable to open R+W'')
     else
       bindS (check_volume fd) (\<lambda>size.
       let size = (if int i = h2_nvolumes f - 1 then size AND NOT HAMMER2_VOLUME_ALIGNMASK64
                   else size AND NOT HAMMER2_FREEMAP_LEVEL1_MASK) in
       if i \<ge> HAMMER2_MAX_VOLUMES then stopS (Out_of_bounds ''fso.volumes[i]'')
       else
         returnS (f\<lparr>h2_volumes := (h2_volumes f)[i := hammer2_install_volume fd (int i) (av ! i) (h2_total_size f) size],
           h2_total_size := h2_total_size f + size\<rparr>)))"

definition uninstall_step :: "nat \<Rightarrow> hammer2_ondisk \<Rightarrow> hammer2_ondisk h2io" where
  "uninstall_step i f =
     bindS (hammer2_uninstall_volume (h2_volumes f ! i)) (\<lambda>vol.
     returnS (f\<lparr>h2_volumes := (h2_volumes f)[i := vol]\<rparr>))"

definition hammer2_mkfs :: "string list \<Rightarrow> hammer2_mkfs_options \<Rightarrow> unit h2io" where
  "hammer2_mkfs av opt =
     (let f = hammer2_init_ondisk\<lparr>h2_version := Hammer2Version opt, h2_nvolumes := int (length av)\<rparr> in
      bindS (forS [0..<length av] (mkfs_volume av) f) (\<lambda>f.
      bindS (hammer2_verify_volumes f None) (\<lambda>f.
      let opt = adjust_options (h2_total_size f) opt;
          reserved_size = ((h2_total_size f + HAMMER2_FREEMAP_LEVEL1_MASK) div HAMMER2_FREEMAP_LEVEL1_SIZE) * HAMMER2_ZONE_SEG64;
          f = f\<lparr>h2_free_size := h2_total_size f - reserved_size - BootAreaSize opt - AuxAreaSize opt\<rparr> in
      if sint (h2_free_size f) < 0 then stopS (Exit_with 1 ''Not enough free space'')
      else
        bindS (forS [0..<nat (h2_nvolumes f)] (\<lambda>i _. format_hammer2 f opt i) ()) (\<lambda>_.
        bindS (forS [0..<nat (h2_nvolumes f)] uninstall_step f) (\<lambda>_.
        returnS ())))))"

end
