(* ===== verification/Hammer2_Headers.thy ===== *)
theory Hammer2_Headers
  imports Hammer2_Newfs
begin

text \<open>
  The volume headers of HAMMER2: a header sealed by \<open>newfs_hammer2\<close> passes the checks of
  \<open>hammer2_read_volume_header\<close>, which picks the best of the copies, and the members of a header that
  was written are the ones that are read back.
\<close>

section \<open>Sealing a header\<close>

lemma apart_simps [simp]: "apart (a, m) (b, n) \<longleftrightarrow> a + m \<le> b \<or> b + n \<le> a"
  by (simp add: apart_def)

lemma within_simps [simp]: "within (a, m) n \<longleftrightarrow> a + m \<le> n"
  by (simp add: within_def)

lemmas range_defs = HAMMER2_VOLUME_ICRC0_def HAMMER2_VOLUME_ICRC1_def HAMMER2_VOLUME_ICRCVH_def

lemma length_seal [simp]: "length buf = HAMMER2_PBUFSIZE \<Longrightarrow> length (volume_header_seal buf) = HAMMER2_PBUFSIZE"
  by (simp add: volume_header_seal_def Let_def)

lemma getf_seal:
  assumes "length buf = HAMMER2_PBUFSIZE"
    and "apart g (vd (VD_icrc_sects HAMMER2_VOL_ICRC_SECT0))"
    and "apart g (vd (VD_icrc_sects HAMMER2_VOL_ICRC_SECT1))" and "apart g (vd VD_icrc_volheader)"
  shows "getf g (volume_header_seal buf) = getf g buf"
  using assms by (simp add: volume_header_seal_def Let_def getf_setf_apart)

text \<open>A sealed header passes the checks of \<open>hammer2_read_volume_header\<close>.\<close>

lemma sealed_header_ok:
  assumes l: "length buf = HAMMER2_PBUFSIZE" and m: "getf (vd VD_magic) buf = HAMMER2_VOLUME_ID_HBO"
  shows "volume_header_ok (volume_header_seal buf)"
proof -
  define b1 where "b1 = setf (vd (VD_icrc_sects HAMMER2_VOL_ICRC_SECT1)) (h2_crc_range HAMMER2_VOLUME_ICRC1 buf) buf"
  define b2 where "b2 = setf (vd (VD_icrc_sects HAMMER2_VOL_ICRC_SECT0)) (h2_crc_range HAMMER2_VOLUME_ICRC0 b1) b1"
  define b3 where "b3 = setf (vd VD_icrc_volheader) (h2_crc_range HAMMER2_VOLUME_ICRCVH b2) b2"
  have s: "volume_header_seal buf = b3"
    by (simp add: volume_header_seal_def b1_def b2_def b3_def Let_def)
  have l1: "length b1 = HAMMER2_PBUFSIZE" using l by (simp add: b1_def)
  have l2: "length b2 = HAMMER2_PBUFSIZE" using l1 by (simp add: b2_def)
  have "(getf (vd (VD_icrc_sects HAMMER2_VOL_ICRC_SECT0)) b3 :: u32) = getf (vd (VD_icrc_sects HAMMER2_VOL_ICRC_SECT0)) b2"
    unfolding b3_def by (rule getf_setf_apart) (simp_all add: l2)
  moreover have "getf (vd (VD_icrc_sects HAMMER2_VOL_ICRC_SECT0)) b2 = h2_crc_range HAMMER2_VOLUME_ICRC0 b1"
    unfolding b2_def by (rule getf_setf) (simp_all add: l1)
  moreover have "h2_crc_range HAMMER2_VOLUME_ICRC0 b3 = h2_crc_range HAMMER2_VOLUME_ICRC0 b2"
    unfolding b3_def by (rule crc_range_setf) (simp_all add: l2 range_defs)
  moreover have "h2_crc_range HAMMER2_VOLUME_ICRC0 b2 = h2_crc_range HAMMER2_VOLUME_ICRC0 b1"
    unfolding b2_def by (rule crc_range_setf) (simp_all add: l1 range_defs)
  moreover have "(getf (vd (VD_icrc_sects HAMMER2_VOL_ICRC_SECT1)) b3 :: u32) = getf (vd (VD_icrc_sects HAMMER2_VOL_ICRC_SECT1)) b2"
    unfolding b3_def by (rule getf_setf_apart) (simp_all add: l2)
  moreover have "(getf (vd (VD_icrc_sects HAMMER2_VOL_ICRC_SECT1)) b2 :: u32) = getf (vd (VD_icrc_sects HAMMER2_VOL_ICRC_SECT1)) b1"
    unfolding b2_def by (rule getf_setf_apart) (simp_all add: l1)
  moreover have "getf (vd (VD_icrc_sects HAMMER2_VOL_ICRC_SECT1)) b1 = h2_crc_range HAMMER2_VOLUME_ICRC1 buf"
    unfolding b1_def by (rule getf_setf) (simp_all add: l)
  moreover have "h2_crc_range HAMMER2_VOLUME_ICRC1 b3 = h2_crc_range HAMMER2_VOLUME_ICRC1 b2"
    unfolding b3_def by (rule crc_range_setf) (simp_all add: l2 range_defs)
  moreover have "h2_crc_range HAMMER2_VOLUME_ICRC1 b2 = h2_crc_range HAMMER2_VOLUME_ICRC1 b1"
    unfolding b2_def by (rule crc_range_setf) (simp_all add: l1 range_defs)
  moreover have "h2_crc_range HAMMER2_VOLUME_ICRC1 b1 = h2_crc_range HAMMER2_VOLUME_ICRC1 buf"
    unfolding b1_def by (rule crc_range_setf) (simp_all add: l range_defs)
  moreover have "getf (vd VD_icrc_volheader) b3 = h2_crc_range HAMMER2_VOLUME_ICRCVH b2"
    unfolding b3_def by (rule getf_setf) (simp_all add: l2)
  moreover have "h2_crc_range HAMMER2_VOLUME_ICRCVH b3 = h2_crc_range HAMMER2_VOLUME_ICRCVH b2"
    unfolding b3_def by (rule crc_range_setf) (simp_all add: l2 range_defs)
  moreover have "getf (vd VD_magic) (volume_header_seal buf) = HAMMER2_VOLUME_ID_HBO"
    using m by (subst getf_seal) (simp_all add: l)
  ultimately show ?thesis
    unfolding volume_header_ok_def s by (simp add: HAMMER2_VOLUME_ID_HBO_def HAMMER2_VOLUME_ID_ABO_def)
qed
section \<open>Reading the headers of a volume\<close>

lemma zone_bytes: "unat HAMMER2_ZONE_BYTES64 = 2 ^ 31"
  by (simp add: HAMMER2_ZONE_BYTES64_def)

definition zone_off :: "nat \<Rightarrow> nat" where
  "zone_off i = i * unat HAMMER2_ZONE_BYTES64"

text \<open>Zone \<open>i\<close> of a file holds the valid header \<open>p\<close>.\<close>

definition valid_header :: "h2_file \<Rightarrow> nat \<Rightarrow> u8 list \<Rightarrow> bool" where
  "valid_header f i p \<longleftrightarrow>
     \<not> f_bad f (zone_off i) \<and> zone_off i + HAMMER2_PBUFSIZE \<le> f_size f \<and>
     p = map (f_bytes f) [zone_off i..<zone_off i + HAMMER2_PBUFSIZE] \<and> volume_header_ok p"

definition header_tid :: "u8 list \<Rightarrow> u64" where
  "header_tid p = getf (vd VD_mirror_tid) p"

definition zone_header :: "h2_file \<Rightarrow> nat \<Rightarrow> u8 list option" where
  "zone_header f i =
     (let p = map (f_bytes f) [zone_off i..<zone_off i + HAMMER2_PBUFSIZE] in
      if valid_header f i p then Some p else None)"

lemma zone_header_Some: "zone_header f i = Some p \<longleftrightarrow> valid_header f i p"
  by (auto simp: zone_header_def Let_def valid_header_def)

lemma zone_header_None: "zone_header f i = None \<longleftrightarrow> (\<forall>p. \<not> valid_header f i p)"
  by (metis not_None_eq zone_header_Some)

definition pick_header :: "h2_file \<Rightarrow> (nat \<times> u8 list) option \<Rightarrow> nat \<Rightarrow> (nat \<times> u8 list) option" where
  "pick_header f best i =
     (case zone_header f i of
        None \<Rightarrow> best
      | Some p \<Rightarrow>
          (case best of
             None \<Rightarrow> Some (i, p)
           | Some (z, q) \<Rightarrow> if header_tid q < header_tid p then Some (i, p) else best))"

lemma read_header_zone_eq:
  assumes "map_of (os_fds s) fd = Some k"
  shows "read_header_zone fd i best s = Inr (pick_header (os_files s k) best i, s)"
proof -
  define f where "f = os_files s k"
  define off where "off = zone_off i"
  define p where "p = map (f_bytes f) [off..<min (off + HAMMER2_PBUFSIZE) (f_size f)]"
  have l: "length p = HAMMER2_PBUFSIZE \<longleftrightarrow> off + HAMMER2_PBUFSIZE \<le> f_size f"
    by (auto simp: p_def min_def)
  have z: "zone_header f i = (if \<not> f_bad f off \<and> length p = HAMMER2_PBUFSIZE \<and> volume_header_ok p then Some p else None)"
    unfolding zone_header_def Let_def valid_header_def off_def [symmetric]
    by (cases "off + HAMMER2_PBUFSIZE \<le> f_size f") (use l in \<open>auto simp: p_def min_def\<close>)
  show ?thesis
    using assms
    by (simp add: read_header_zone_def bindS_def sys_pread_def getS_def returnS_def zone_off_def [symmetric] Let_def
        f_def [symmetric] off_def [symmetric] p_def [symmetric] pick_header_def z header_tid_def split: option.split)
qed

definition is_best :: "h2_file \<Rightarrow> nat list \<Rightarrow> (nat \<times> u8 list) option \<Rightarrow> bool" where
  "is_best f zones best \<longleftrightarrow>
     (case best of
        None \<Rightarrow> \<forall>i\<in>set zones. zone_header f i = None
      | Some (z, p) \<Rightarrow> z \<in> set zones \<and> zone_header f z = Some p \<and>
          (\<forall>i\<in>set zones. \<forall>q. zone_header f i = Some q \<longrightarrow>
             header_tid q \<le> header_tid p \<and> (i < z \<longrightarrow> header_tid q < header_tid p)))"

lemma pick_best:
  assumes b: "is_best f zones best" and lt: "\<forall>i\<in>set zones. i < z"
  shows "is_best f (zones @ [z]) (pick_header f best z)"
proof (cases "zone_header f z")
  case None
  then show ?thesis
    using b lt by (cases best) (auto simp: is_best_def pick_header_def)
next
  case (Some p)
  show ?thesis
  proof (cases best)
    case None
    then show ?thesis
      using b Some by (simp add: is_best_def pick_header_def)
  next
    case (Some best')
    obtain y q where best: "best = Some (y, q)" using Some by (cases best') auto
    have y: "y \<in> set zones" "zone_header f y = Some q"
      and all: "\<And>i r. i \<in> set zones \<Longrightarrow> zone_header f i = Some r \<Longrightarrow>
        header_tid r \<le> header_tid q \<and> (i < y \<longrightarrow> header_tid r < header_tid q)"
      using b unfolding is_best_def best by auto
    show ?thesis
    proof (cases "header_tid q < header_tid p")
      case True
      have "header_tid r < header_tid p" if "i \<in> set zones" "zone_header f i = Some r" for i r
        using all [OF that] True by auto
      with True \<open>zone_header f z = Some p\<close> show ?thesis
        unfolding is_best_def pick_header_def best by (auto intro: less_imp_le)
    next
      case False
      then have "header_tid p \<le> header_tid q" "\<not> z < y" using lt y by auto
      with False \<open>zone_header f z = Some p\<close> y all show ?thesis
        unfolding is_best_def pick_header_def best by auto
    qed
  qed
qed

lemma fold_best: "is_best f [0..<n] (foldl (pick_header f) None [0..<n])"
proof (induction n)
  case 0
  show ?case by (simp add: is_best_def)
next
  case (Suc n)
  then show ?case using pick_best [of f "[0..<n]" "foldl (pick_header f) None [0..<n]" n] by simp
qed

lemma zone_less:
  assumes "i < 4" and "n < 2 ^ 64"
  shows "of_nat i * HAMMER2_ZONE_BYTES64 < (of_nat n :: u64) \<longleftrightarrow> zone_off i < n"
proof -
  have "unat (of_nat i * HAMMER2_ZONE_BYTES64 :: u64) = zone_off i"
    using assms by (subst unat_mult_lem [THEN iffD1]) (simp_all add: zone_bytes unat_of_nat zone_off_def)
  moreover have "unat (of_nat n :: u64) = n" using assms by (simp add: unat_of_nat)
  ultimately show ?thesis by (simp add: word_less_nat_alt)
qed

lemma upt_4: "[0..<4] = [0, 1, 2, 3::nat]"
  by (simp add: upt_rec)

text \<open>The zones the loops visit.\<close>

lemma header_zones:
  assumes "n < 2 ^ 64"
  obtains m where "m \<le> 4" and "\<And>i. i < m \<longleftrightarrow> i < 4 \<and> zone_off i < n"
    and "takeWhile (\<lambda>i. of_nat i * HAMMER2_ZONE_BYTES64 < (of_nat n :: u64)) [0..<4] = [0..<m]"
proof -
  define m where "m = length (takeWhile (\<lambda>i. zone_off i < n) [0..<4])"
  have t: "takeWhile (\<lambda>i. of_nat i * HAMMER2_ZONE_BYTES64 < (of_nat n :: u64)) [0..<4] = takeWhile (\<lambda>i. zone_off i < n) [0..<4]"
    by (rule takeWhile_cong) (use assms in \<open>simp_all add: zone_less\<close>)
  also have "\<dots> = [0..<m]"
    using takeWhile_eq_take [of "\<lambda>i. zone_off i < n" "[0..<4]"] length_takeWhile_le [of "\<lambda>i. zone_off i < n" "[0..<4]"]
    unfolding m_def by simp
  finally have e: "takeWhile (\<lambda>i. of_nat i * HAMMER2_ZONE_BYTES64 < (of_nat n :: u64)) [0..<4] = [0..<m]" .
  have "m \<le> 4" using length_takeWhile_le [of "\<lambda>i. zone_off i < n" "[0..<4]"] by (simp add: m_def)
  moreover have "i < m \<longleftrightarrow> i < 4 \<and> zone_off i < n" for i
    by (auto simp: m_def upt_4 zone_off_def zone_bytes)
  ultimately show ?thesis using that e by blast
qed

lemma read_volume_header_eq:
  assumes "map_of (os_fds s) fd = Some k" and "f_type (os_files s k) = S_IFREG" and "f_size (os_files s k) < 2 ^ 64"
  obtains m where "m \<le> 4" and "\<And>i. i < m \<longleftrightarrow> i < 4 \<and> zone_off i < f_size (os_files s k)"
    and "hammer2_read_volume_header fd s = Inr (foldl (pick_header (os_files s k)) None [0..<m], s)"
proof -
  obtain m where m: "m \<le> 4" "\<And>i. i < m \<longleftrightarrow> i < 4 \<and> zone_off i < f_size (os_files s k)"
    and e: "takeWhile (\<lambda>i. of_nat i * HAMMER2_ZONE_BYTES64 < (of_nat (f_size (os_files s k)) :: u64)) [0..<4] = [0..<m]"
    using header_zones [OF assms(3)] by blast
  have "hammer2_read_volume_header fd s = forS [0..<m] (read_header_zone fd) None s"
    using assms e
    by (simp add: hammer2_read_volume_header_def bindS_def check_volume_def sys_fstat_def getS_def returnS_def)
  also have "\<dots> = Inr (foldl (pick_header (os_files s k)) None [0..<m], s)"
    by (rule forS_pure) (rule read_header_zone_eq [OF assms(1)])
  finally show ?thesis using that m by blast
qed

section \<open>Blocks of a file\<close>

definition block_at :: "h2_file \<Rightarrow> nat \<Rightarrow> u8 list" where
  "block_at f off = map (f_bytes f) [off..<off + HAMMER2_PBUFSIZE]"

lemma length_block [simp]: "length (block_at f off) = HAMMER2_PBUFSIZE"
  by (simp add: block_at_def)

lemma block_write_same:
  "length bs = HAMMER2_PBUFSIZE \<Longrightarrow> block_at (write_file off bs f) off = bs"
  by (rule nth_equalityI) (simp_all add: block_at_def write_file_def)

lemma block_write_other:
  "length bs = HAMMER2_PBUFSIZE \<Longrightarrow> off + HAMMER2_PBUFSIZE \<le> off' \<or> off' + HAMMER2_PBUFSIZE \<le> off \<Longrightarrow>
   block_at (write_file off bs f) off' = block_at f off'"
  by (rule nth_equalityI) (auto simp: block_at_def write_file_def)

lemma valid_header_block:
  "valid_header f i p \<longleftrightarrow>
     \<not> f_bad f (zone_off i) \<and> zone_off i + HAMMER2_PBUFSIZE \<le> f_size f \<and> p = block_at f (zone_off i) \<and> volume_header_ok p"
  by (simp add: valid_header_def block_at_def)

text \<open>A header that only has a magic number and a transaction id, and a file with two of them.\<close>

lemma length_zero_bytes [simp]: "length (zero_bytes n) = n"
  by (simp add: zero_bytes_def)

definition plain_header :: "u64 \<Rightarrow> u8 list" where
  "plain_header tid =
     volume_header_seal (setf (vd VD_mirror_tid) tid (setf (vd VD_magic) HAMMER2_VOLUME_ID_HBO (zero_bytes HAMMER2_PBUFSIZE)))"

lemma plain_header: "length (plain_header tid) = HAMMER2_PBUFSIZE" "volume_header_ok (plain_header tid)" "header_tid (plain_header tid) = tid"
  unfolding plain_header_def header_tid_def
  by (simp, rule sealed_header_ok, simp, subst getf_setf_apart, simp_all add: getf_setf getf_seal)

definition blank_file :: "nat \<Rightarrow> nat \<Rightarrow> h2_file" where
  "blank_file ino n =
     \<lparr>f_type = S_IFREG, f_ino = of_nat ino, f_dev = 1, f_size = n, f_room = n, f_sector = 512, f_writable = True,
      f_bytes = (\<lambda>_. 0), f_bad = (\<lambda>_. False)\<rparr>"

definition no_files :: h2_state where
  "no_files =
     \<lparr>os_paths = (\<lambda>_. None), os_entry = (\<lambda>_. False), os_devtab = (\<lambda>_. None), os_files = (\<lambda>_. blank_file 0 0),
      os_fds = [(0, 0), (1, 0), (2, 0)], os_now = 0, os_uuid = of_nat, os_uuids = 0,
      fso = hammer2_init_ondisk, hammer2_volumes_initialized = False\<rparr>"

definition two_headers :: h2_file where
  "two_headers = write_file (zone_off 1) (plain_header 17) (write_file (zone_off 0) (plain_header 16) (blank_file 1 (2 ^ 32)))"

lemma two_headers: "f_type two_headers = S_IFREG" "f_size two_headers = 2 ^ 32" "f_bad two_headers = (\<lambda>_. False)"
  by (simp_all add: two_headers_def write_file_def blank_file_def plain_header zone_off_def zone_bytes)

lemma two_headers_block: "block_at two_headers (zone_off 0) = plain_header 16" "block_at two_headers (zone_off 1) = plain_header 17"
proof -
  have z: "zone_off 0 + 65536 \<le> zone_off 1" by (simp add: zone_off_def zone_bytes)
  show "block_at two_headers (zone_off 1) = plain_header 17"
    unfolding two_headers_def by (rule block_write_same) (rule plain_header)
  have "block_at two_headers (zone_off 0) = block_at (write_file (zone_off 0) (plain_header 16) (blank_file 1 (2 ^ 32))) (zone_off 0)"
    unfolding two_headers_def by (rule block_write_other) (use z plain_header in auto)
  then show "block_at two_headers (zone_off 0) = plain_header 16"
    by (simp only: block_write_same [OF plain_header(1)])
qed

lemma two_headers_valid:
  "valid_header two_headers 0 (plain_header 16)" "valid_header two_headers 1 (plain_header 17)"
  "valid_header two_headers i p \<Longrightarrow> i < 2"
  unfolding valid_header_block two_headers_block two_headers
  by (simp_all add: plain_header zone_off_def zone_bytes)
section \<open>The members of a formatted header\<close>

lemma loff_fold:
  fixes v :: "nat \<Rightarrow> u64"
  assumes l: "length buf = HAMMER2_PBUFSIZE" and n: "n \<le> 64"
  defines "buf' \<equiv> foldl (\<lambda>buf i. setf (vd (VD_volu_loff i)) (v i) buf) buf [0..<n]"
  shows "length buf' = HAMMER2_PBUFSIZE" and "\<And>i. i < n \<Longrightarrow> getf (vd (VD_volu_loff i)) buf' = v i"
    and "\<And>g. apart g (0xE00, 512) \<Longrightarrow> getf g buf' = getf g buf"
  using n unfolding buf'_def
proof (induction n)
  case (Suc n)
  case 1
  with Suc(1) show ?case by simp
next
  case (Suc n)
  case (2 i)
  with Suc(1-2) show ?case
    by (cases "i = n") (auto simp: getf_setf getf_setf_apart)
next
  case (Suc n)
  case (3 g)
  moreover have "apart g (vd (VD_volu_loff n))" using 3 by (auto simp: apart_def)
  ultimately show ?case using Suc(1,3) by (auto simp: getf_setf_apart)
qed (use l in simp_all)

lemma getf_overwrite:
  assumes "apart g (off, length bs)" and "off + length bs \<le> length buf"
  shows "getf g (overwrite buf off bs) = getf g buf"
  using range_overwrite [of "fst g" "snd g" off bs buf] assms by (simp add: getf_def apart_def)

lemma blockset_fold:
  assumes l: "length buf = HAMMER2_PBUFSIZE" and n: "n \<le> 4" and b: "\<And>i. i < n \<Longrightarrow> length (bs ! i) = 128"
  defines "buf' \<equiv> foldl (\<lambda>buf i. overwrite buf (fst (vd (VD_sroot_blockref i))) (bs ! i)) buf [0..<n]"
  shows "length buf' = HAMMER2_PBUFSIZE" and "\<And>g. apart g (0x200, 512) \<Longrightarrow> getf g buf' = getf g buf"
  using n b unfolding buf'_def
proof (induction n)
  case (Suc n)
  case 1
  with Suc(1) show ?case by simp
next
  case (Suc n)
  case (2 g)
  have "length (foldl (\<lambda>buf i. overwrite buf (fst (vd (VD_sroot_blockref i))) (bs ! i)) buf [0..<n]) = HAMMER2_PBUFSIZE"
    using Suc(1) 2 by simp
  moreover have "apart g (fst (vd (VD_sroot_blockref n)), length (bs ! n))" using 2 by (auto simp: apart_def)
  ultimately show ?case using Suc(2) 2 by (simp add: getf_overwrite)
qed (use l in simp_all)

lemma header_fields:
  fixes alloc_base :: u64
  assumes v: "Hammer2Version opt = 2" and n: "n \<le> 64" "h2_nvolumes f = int n"
    and i: "h2v_id vol = int k" and bs: "\<forall>i<4. length (bs ! i) = 128"
  defines "buf \<equiv> volume_header_fields f opt vol alloc_base bs"
  shows "length buf = HAMMER2_PBUFSIZE" and "getf (vd VD_magic) buf = HAMMER2_VOLUME_ID_HBO"
    and "getf (vd VD_volu_size) buf = h2v_size vol" and "getf (vd VD_version) buf = (2 :: u32)"
    and "getf (vd VD_volu_id) buf = (of_nat k :: u8)" and "getf (vd VD_nvolumes) buf = (of_nat n :: u8)"
    and "getf (vd VD_total_size) buf = h2_total_size f"
    and "\<And>j. j < 64 \<Longrightarrow> getf (vd (VD_volu_loff j)) buf = (if j < n then h2v_offset (h2_volumes f ! j) else - 1)"
    and "getf (vd VD_fsid) buf = Hammer2_VolFSID opt" and "getf (vd VD_fstype) buf = Hammer2_FSType opt"
    and "getf (vd VD_mirror_tid) buf = (16 :: u64)"
proof -
  define b0 where "b0 = setf (vd VD_magic) HAMMER2_VOLUME_ID_HBO (zero_bytes HAMMER2_PBUFSIZE)"
  define b1 where "b1 = (if h2v_id vol = HAMMER2_ROOT_VOLUME then
      setf (vd VD_aux_end) (HAMMER2_ZONE_SEG64 + BootAreaSize opt + AuxAreaSize opt)
       (setf (vd VD_aux_beg) (HAMMER2_ZONE_SEG64 + BootAreaSize opt)
         (setf (vd VD_boot_end) (HAMMER2_ZONE_SEG64 + BootAreaSize opt)
           (setf (vd VD_boot_beg) HAMMER2_ZONE_SEG64 b0))) else b0)"
  define b2 where "b2 = setf (vd VD_flags) (0 :: u32) (setf (vd VD_version) (word_of_int (Hammer2Version opt) :: u32)
      (setf (vd VD_volu_size) (h2v_size vol) b1))"
  define b3 where "b3 = setf (vd VD_total_size) (h2_total_size f)
      (setf (vd VD_nvolumes) (word_of_int (h2_nvolumes f) :: u8) (setf (vd VD_volu_id) (word_of_int (h2v_id vol) :: u8) b2))"
  define w where "w = (\<lambda>i. if int i < h2_nvolumes f then h2v_offset (h2_volumes f ! i) else - 1)"
  define b4 where "b4 = foldl (\<lambda>buf i. setf (vd (VD_volu_loff i)) (w i) buf) b3 [0..<64]"
  define b5 where "b5 = setf (vd VD_allocator_size) (h2_free_size f) (setf (vd VD_peer_type) (3 :: u8)
      (setf (vd VD_fstype) (Hammer2_FSType opt) (setf (vd VD_fsid) (Hammer2_VolFSID opt) b4)))"
  define b6 where "b6 = (if h2v_id vol = HAMMER2_ROOT_VOLUME then
      setf (vd VD_allocator_beg) alloc_base (setf (vd VD_allocator_free) (h2_free_size f) b5) else b5)"
  define b7 where "b7 = foldl (\<lambda>buf i. overwrite buf (fst (vd (VD_sroot_blockref i))) (bs ! i)) b6 [0..<4]"
  have l0: "length b0 = HAMMER2_PBUFSIZE" by (simp add: b0_def)
  have l1: "length b1 = HAMMER2_PBUFSIZE" using l0 by (simp add: b1_def)
  have l2: "length b2 = HAMMER2_PBUFSIZE" using l1 by (simp add: b2_def)
  have l3: "length b3 = HAMMER2_PBUFSIZE" using l2 by (simp add: b3_def)
  note f4 = loff_fold [OF l3 order.refl, where v = w, folded b4_def]
  have l5: "length b5 = HAMMER2_PBUFSIZE" using f4(1) by (simp add: b5_def)
  have l6: "length b6 = HAMMER2_PBUFSIZE" using l5 by (simp add: b6_def)
  note f7 = blockset_fold [OF l6 order.refl, where bs = bs, OF bs [rule_format], folded b7_def]
  have version: "getf (vd VD_version) b2 = (2 :: u32)"
    using v l1 by (simp add: b2_def getf_setf getf_setf_apart)
  have buf: "buf = setf (vd VD_freemap_tid) (16 :: u64) (setf (vd VD_mirror_tid) (16 :: u64) b7)"
    using version unfolding buf_def volume_header_fields_def Let_def
    unfolding b0_def [symmetric] unfolding b1_def [symmetric] unfolding b2_def [symmetric]
    unfolding b3_def [symmetric] unfolding b7_def b6_def b5_def b4_def by (simp add: w_def)
  have out: "getf g buf = getf g b6" if "apart g (0x200, 512)" "apart g (vd VD_freemap_tid)" "apart g (vd VD_mirror_tid)" for g
    using that f7 unfolding buf by (simp add: getf_setf_apart)
  have mid: "getf g b6 = getf g b4" if "apart g (vd VD_allocator_beg)" "apart g (vd VD_allocator_free)"
    "apart g (vd VD_allocator_size)" "apart g (vd VD_peer_type)" "apart g (vd VD_fstype)" "apart g (vd VD_fsid)" for g
    using that l5 f4(1) unfolding b6_def b5_def by (simp add: getf_setf_apart)
  show "length buf = HAMMER2_PBUFSIZE" using f7(1) unfolding buf by simp
  show "getf (vd VD_magic) buf = HAMMER2_VOLUME_ID_HBO"
    using l0 by (simp add: out mid f4(3) b3_def b2_def b1_def b0_def getf_setf getf_setf_apart)
  show "getf (vd VD_volu_size) buf = h2v_size vol"
    using l1 by (simp add: out mid f4(3) b3_def b2_def getf_setf getf_setf_apart)
  show "getf (vd VD_version) buf = (2 :: u32)"
    using l2 version by (simp add: out mid f4(3) b3_def getf_setf_apart)
  show "getf (vd VD_volu_id) buf = (of_nat k :: u8)"
    using l2 i by (simp add: out mid f4(3) b3_def getf_setf getf_setf_apart)
  show "getf (vd VD_nvolumes) buf = (of_nat n :: u8)"
    using l2 n by (simp add: out mid f4(3) b3_def getf_setf getf_setf_apart)
  show "getf (vd VD_total_size) buf = h2_total_size f"
    using l2 by (simp add: out mid f4(3) b3_def getf_setf)
  show "getf (vd (VD_volu_loff j)) buf = (if j < n then h2v_offset (h2_volumes f ! j) else - 1)" if "j < 64" for j
    using that n f4(2) [of j] by (simp add: out mid w_def)
  show "getf (vd VD_fsid) buf = Hammer2_VolFSID opt" "getf (vd VD_fstype) buf = Hammer2_FSType opt"
    using f4(1) by (simp_all add: out b6_def b5_def getf_setf getf_setf_apart)
  show "getf (vd VD_mirror_tid) buf = (16 :: u64)"
    using f7(1) unfolding buf by (simp add: getf_setf getf_setf_apart)
qed

text \<open>The same of the sealed header.\<close>

lemma formatted_header:
  fixes alloc_base :: u64
  assumes hyps: "Hammer2Version opt = 2" "n \<le> 64" "h2_nvolumes f = int n" "h2v_id vol = int k"
    "\<forall>i<4. length (bs ! i) = 128"
  defines "buf \<equiv> volume_header_seal (volume_header_fields f opt vol alloc_base bs)"
  shows "length buf = HAMMER2_PBUFSIZE" and "volume_header_ok buf"
    and "getf (vd VD_volu_size) buf = h2v_size vol" and "getf (vd VD_version) buf = (2 :: u32)"
    and "getf (vd VD_volu_id) buf = (of_nat k :: u8)" and "getf (vd VD_nvolumes) buf = (of_nat n :: u8)"
    and "getf (vd VD_total_size) buf = h2_total_size f"
    and "\<And>j. j < 64 \<Longrightarrow> getf (vd (VD_volu_loff j)) buf = (if j < n then h2v_offset (h2_volumes f ! j) else - 1)"
    and "getf (vd VD_fsid) buf = Hammer2_VolFSID opt" and "getf (vd VD_fstype) buf = Hammer2_FSType opt"
    and "header_tid buf = 16"
proof -
  note F = header_fields [where alloc_base = alloc_base, OF hyps]
  show "length buf = HAMMER2_PBUFSIZE" unfolding buf_def by (rule length_seal) (rule F(1))
  show "volume_header_ok buf" unfolding buf_def by (rule sealed_header_ok) (rule F(1), rule F(2))
  note S = getf_seal [OF F(1), folded buf_def]
  show "getf (vd VD_volu_size) buf = h2v_size vol" by (rule trans [OF S F(3)]) simp_all
  show "getf (vd VD_version) buf = (2 :: u32)" by (rule trans [OF S F(4)]) simp_all
  show "getf (vd VD_volu_id) buf = (of_nat k :: u8)" by (rule trans [OF S F(5)]) simp_all
  show "getf (vd VD_nvolumes) buf = (of_nat n :: u8)" by (rule trans [OF S F(6)]) simp_all
  show "getf (vd VD_total_size) buf = h2_total_size f" by (rule trans [OF S F(7)]) simp_all
  show "getf (vd (VD_volu_loff j)) buf = (if j < n then h2v_offset (h2_volumes f ! j) else - 1)" if "j < 64" for j
    by (rule trans [OF S F(8) [OF that]]) (use that in simp_all)
  show "getf (vd VD_fsid) buf = Hammer2_VolFSID opt" by (rule trans [OF S F(9)]) simp_all
  show "getf (vd VD_fstype) buf = Hammer2_FSType opt" by (rule trans [OF S F(10)]) simp_all
  show "header_tid buf = 16" unfolding header_tid_def by (rule trans [OF S F(11)]) simp_all
qed

text \<open>
  C15: of the four copies of the volume header, \<open>hammer2_read_volume_header\<close> returns the valid one with
  the highest \<open>mirror_tid\<close>, the first of them if several have it, and fails exactly if no copy inside the
  volume is valid.
\<close>

theorem read_volume_header_best:
  assumes "map_of (os_fds s) fd = Some k" and "f_type (os_files s k) = S_IFREG" and "f_size (os_files s k) < 2 ^ 64"
  shows "\<exists>r. hammer2_read_volume_header fd s = Inr (r, s) \<and>
    (case r of
       None \<Rightarrow> \<forall>i<4. \<forall>p. \<not> valid_header (os_files s k) i p
     | Some (z, p) \<Rightarrow> z < 4 \<and> valid_header (os_files s k) z p \<and>
         (\<forall>i<4. \<forall>q. valid_header (os_files s k) i q \<longrightarrow>
            header_tid q \<le> header_tid p \<and> (i < z \<longrightarrow> header_tid q < header_tid p)))"
proof -
  obtain m where m: "m \<le> 4" "\<And>i. i < m \<longleftrightarrow> i < 4 \<and> zone_off i < f_size (os_files s k)"
    and e: "hammer2_read_volume_header fd s = Inr (foldl (pick_header (os_files s k)) None [0..<m], s)"
    using read_volume_header_eq [OF assms] by blast
  have "i < m" if "valid_header (os_files s k) i p" "i < 4" for i p
    using that m(2) [of i] by (auto simp: valid_header_def)
  with fold_best [of "os_files s k" m] m(1) show ?thesis
    unfolding e is_best_def zone_header_Some zone_header_None by (auto split: option.splits)
qed

theorem read_volume_header_best_witness:
  "\<exists>s. hammer2_read_volume_header 3 s = Inr (Some (1, plain_header 17), s)"
proof -
  define s where "s = no_files\<lparr>os_files := (\<lambda>_. two_headers), os_fds := [(3, 7)]\<rparr>"
  have s: "map_of (os_fds s) 3 = Some 7" "os_files s 7 = two_headers" by (simp_all add: s_def)
  have "f_type (os_files s 7) = S_IFREG" "f_size (os_files s 7) < 2 ^ 64" by (simp_all add: s two_headers)
  from read_volume_header_best [OF s(1) this] obtain r where e: "hammer2_read_volume_header 3 s = Inr (r, s)"
    and r: "case r of None \<Rightarrow> \<forall>i<4. \<forall>p. \<not> valid_header two_headers i p
     | Some (z, p) \<Rightarrow> z < 4 \<and> valid_header two_headers z p \<and>
         (\<forall>i<4. \<forall>q. valid_header two_headers i q \<longrightarrow>
            header_tid q \<le> header_tid p \<and> (i < z \<longrightarrow> header_tid q < header_tid p))"
    unfolding s(2) by blast
  obtain z p where zp: "r = Some (z, p)" using r two_headers_valid(1) by (cases r) auto
  then have v: "valid_header two_headers z p"
    and best: "\<And>i q. i < 4 \<Longrightarrow> valid_header two_headers i q \<Longrightarrow> header_tid q \<le> header_tid p"
    using r by auto
  have "header_tid (plain_header 17) \<le> header_tid p" by (rule best [OF _ two_headers_valid(2)]) simp
  then have "17 \<le> header_tid p" by (simp add: plain_header)
  moreover have "z < 2" by (rule two_headers_valid(3) [OF v])
  moreover have "p = block_at two_headers (zone_off z)" using v by (simp add: valid_header_block)
  ultimately have "z = 1" "p = plain_header 17"
    using two_headers_block by (auto simp: less_2_cases_iff plain_header)
  with e zp show ?thesis by blast
qed

end
