(* ===== verification/Hammer2_Writes.thy ===== *)
theory Hammer2_Writes
  imports Hammer2_Headers
begin

text \<open>
  What \<open>newfs_hammer2\<close> writes outside the volume headers: the reserved areas and the block with the
  super-root and label inodes.  The parts return, they change the bytes of one device only, and the
  inodes lie one after the other in one block.
\<close>

section \<open>Writing to a device\<close>

text \<open>The descriptor is open on file \<open>k\<close>, which has at least the \<open>n\<close> bytes of the volume.\<close>

definition on_dev :: "int \<Rightarrow> nat \<Rightarrow> nat \<Rightarrow> h2_state \<Rightarrow> bool" where
  "on_dev fd k n s \<longleftrightarrow>
     map_of (os_fds s) fd = Some k \<and> n \<le> f_size (os_files s k) \<and> f_size (os_files s k) \<le> f_room (os_files s k)"

text \<open>
  Only the first \<open>n\<close> bytes of file \<open>k\<close> have changed, and the number of identifiers handed out.
\<close>

definition touched :: "nat \<Rightarrow> nat \<Rightarrow> h2_state \<Rightarrow> h2_state \<Rightarrow> bool" where
  "touched k n s t \<longleftrightarrow>
     (\<exists>b u. (\<forall>i\<ge>n. b i = f_bytes (os_files s k) i) \<and>
       t = s\<lparr>os_files := (os_files s)(k := (os_files s k)\<lparr>f_bytes := b\<rparr>), os_uuids := u\<rparr>)"

lemma touchedI:
  "(\<And>i. n \<le> i \<Longrightarrow> b i = f_bytes (os_files s k) i) \<Longrightarrow>
   t = s\<lparr>os_files := (os_files s)(k := (os_files s k)\<lparr>f_bytes := b\<rparr>), os_uuids := u\<rparr> \<Longrightarrow> touched k n s t"
  unfolding touched_def by blast

lemma touched_uuids: "touched k n s (s\<lparr>os_uuids := u\<rparr>)"
  by (rule touchedI [of n "f_bytes (os_files s k)" s k _ u]) simp_all

lemma touched_refl: "touched k n s s"
  using touched_uuids [of k n s "os_uuids s"] by simp

lemma touched_trans:
  assumes "touched k n s t" and "touched k n t u"
  shows "touched k n s u"
proof -
  obtain b v where b: "\<forall>i\<ge>n. b i = f_bytes (os_files s k) i"
    and t: "t = s\<lparr>os_files := (os_files s)(k := (os_files s k)\<lparr>f_bytes := b\<rparr>), os_uuids := v\<rparr>"
    using assms(1) unfolding touched_def by blast
  obtain c w where c: "\<forall>i\<ge>n. c i = f_bytes (os_files t k) i"
    and u: "u = t\<lparr>os_files := (os_files t)(k := (os_files t k)\<lparr>f_bytes := c\<rparr>), os_uuids := w\<rparr>"
    using assms(2) unfolding touched_def by blast
  show ?thesis
    by (rule touchedI [of n c s k u w]) (use b c in \<open>simp_all add: t u\<close>)
qed

lemma touched_on_dev: "touched k n s t \<Longrightarrow> on_dev fd k n s \<Longrightarrow> on_dev fd k n t"
  by (auto simp: touched_def on_dev_def)

definition put_block :: "nat \<Rightarrow> nat \<Rightarrow> u8 list \<Rightarrow> h2_state \<Rightarrow> h2_state" where
  "put_block k off buf s =
     s\<lparr>os_files := (os_files s)(k := (os_files s k)\<lparr>f_bytes := f_bytes (write_file off buf (os_files s k))\<rparr>)\<rparr>"

lemma touched_put: "off + length buf \<le> n \<Longrightarrow> touched k n s (put_block k off buf s)"
  by (rule touchedI [of n "f_bytes (write_file off buf (os_files s k))" s k _ "os_uuids s"])
    (simp_all add: put_block_def write_file_def)

lemma sint_small:
  fixes x :: u64
  assumes "unat x < 2 ^ 63"
  shows "sint x = int (unat x)"
proof -
  have "int (unat x) < int (2 ^ 63)" using assms by (simp only: of_nat_less_iff)
  then have "uint x < 2 ^ 63" by simp
  then have "signed_take_bit 63 (uint x) = uint x"
    by (intro signed_take_bit_int_eq_self) (use uint_ge_0 [of x] in linarith)+
  then show ?thesis by (simp add: sint_uint)
qed

lemma pwrite_block_eq:
  assumes dev: "on_dev fd k n s" and buf: "length buf = HAMMER2_PBUFSIZE"
    and off: "unat off + HAMMER2_PBUFSIZE \<le> n" and n: "n < 2 ^ 63"
  shows "pwrite_block fd buf off s = Inr ((), put_block k (unat off) buf s)"
proof -
  have sint: "sint off = int (unat off)" by (rule sint_small) (use off n in simp)
  have room: "take (f_room (os_files s k) - unat off) buf = buf"
    using dev off buf by (auto simp: on_dev_def intro!: take_all)
  have fd: "map_of (os_fds s) fd = Some k" using dev by (simp add: on_dev_def)
  have "max (f_size (os_files s k)) (if buf = [] then 0 else unat off + length buf) = f_size (os_files s k)"
    using off buf dev by (auto simp: on_dev_def)
  then have "write_file (unat off) buf (os_files s k) =
      (os_files s k)\<lparr>f_bytes := f_bytes (write_file (unat off) buf (os_files s k))\<rparr>"
    by (simp add: write_file_def)
  then show ?thesis
    using fd buf
    by (simp add: pwrite_block_def bindS_def sys_pwrite_def sint room returnS_def put_block_def Let_def)
qed

text \<open>What the parts of the formatter promise: file \<open>k\<close> is still the device, and nothing else has changed.\<close>

abbreviation kept :: "int \<Rightarrow> nat \<Rightarrow> nat \<Rightarrow> h2_state \<Rightarrow> h2_state \<Rightarrow> bool" where
  "kept fd k n s t \<equiv> touched k n s t \<and> on_dev fd k n t"

lemma pwrite_block_wp:
  assumes "kept fd k n s t" and "length buf = HAMMER2_PBUFSIZE"
    and "unat off + HAMMER2_PBUFSIZE \<le> n" and "n < 2 ^ 63"
  shows "wp (pwrite_block fd buf off) (\<lambda>_. kept fd k n s) t"
  unfolding wp_def
  using pwrite_block_eq [of fd k n t buf off] assms touched_put [of "unat off" buf n k t]
    touched_trans touched_on_dev by metis

section \<open>The reserved areas\<close>

lemma pbufmask: "HAMMER2_PBUFMASK64 = mask 16"
  by (simp add: HAMMER2_PBUFMASK64_def mask_eq_exp_minus_1)

lemma level1_size: "unat HAMMER2_FREEMAP_LEVEL1_SIZE = 2 ^ 30"
  by (simp add: HAMMER2_FREEMAP_LEVEL1_SIZE_def)

lemma and_pbufmask_0: "x AND HAMMER2_PBUFMASK64 = 0 \<longleftrightarrow> unat x mod 65536 = 0"
  using and_mask_unat [of x 16] by (auto simp: pbufmask word_unat_eq_iff)

lemma block_steps_bound:
  assumes x: "x \<in> set (block_steps p e)" and "unat p \<le> unat e" and "unat p mod 65536 = 0" and "unat e mod 65536 = 0"
  shows "unat x + 65536 \<le> unat e"
proof -
  obtain c where c: "unat e - unat p = c * 65536"
    using assms(3,4) by (metis dvd_diff_nat dvd_div_mult_self mod_0_imp_dvd)
  then have cc: "(unat e - unat p + 65536 - 1) div 65536 = c" by simp
  obtain j where j: "j < c" and x: "x = p + of_nat j * of_nat 65536"
    using x unfolding block_steps_def cc set_map by (auto simp del: of_nat_numeral)
  have le: "unat p + j * 65536 + 65536 \<le> unat e"
  proof -
    have "j * 65536 + 65536 \<le> c * 65536" using j by (metis Suc_leI mult_Suc mult_le_mono1 add.commute)
    then show ?thesis using c assms(2) by linarith
  qed
  have "x = of_nat (unat p + j * 65536)" by (simp add: x)
  then have "unat x = (unat p + j * 65536) mod 2 ^ 64" by (simp only: unat_of_nat) simp
  also have "\<dots> = unat p + j * 65536"
    using le unsigned_less [of e, where ?'a = nat] by (intro mod_less) simp
  finally show ?thesis using le by simp
qed

lemma format_hammer2_misc_wp:
  fixes opt aux_base
  defines "A \<equiv> aux_base + AuxAreaSize opt"
  assumes kept: "kept fd k n s t" and n: "n < 2 ^ 63" "2 ^ 22 \<le> n"
    and A: "unat A mod 65536 = 0" "unat A < 2 ^ 30" "unat A \<le> n"
    and boot: "unat boot_base \<le> unat A" "unat boot_base mod 65536 = 0"
  shows "wp (format_hammer2_misc fd opt boot_base aux_base) (\<lambda>r u. r = A \<and> kept fd k n s u) t"
proof -
  have zone: "wp (pwrite_block fd (zero_bytes HAMMER2_PBUFSIZE) (of_nat i * of_nat HAMMER2_PBUFSIZE)) (\<lambda>_. kept fd k n s) u"
    if "i < 64" "kept fd k n s u" for i u
  proof (rule pwrite_block_wp [OF that(2)])
    have "unat (of_nat i * of_nat HAMMER2_PBUFSIZE :: u64) = i * 65536"
      using that(1) by (subst unat_mult_lem [THEN iffD1]) (simp_all add: unat_of_nat)
    moreover have "i * 65536 + 65536 \<le> 64 * 65536" using that(1) by simp
    ultimately show "unat (of_nat i * of_nat HAMMER2_PBUFSIZE :: u64) + HAMMER2_PBUFSIZE \<le> n" using n by simp
  qed (use n in simp_all)
  have area: "wp (pwrite_block fd (zero_bytes HAMMER2_PBUFSIZE) x) (\<lambda>_. kept fd k n s) u"
    if "x \<in> set (block_steps boot_base A)" "kept fd k n s u" for x u
    using block_steps_bound [OF that(1) boot(1,2) A(1)] A n
    by (intro pwrite_block_wp [OF that(2)]) simp_all
  have "wp (forS (block_steps boot_base A) (\<lambda>tmp_base _. pwrite_block fd (zero_bytes HAMMER2_PBUFSIZE) tmp_base) ()) (\<lambda>_. kept fd k n s) u"
    if "kept fd k n s u" for u
    by (rule wp_for_all [where J = "kept fd k n s", OF that]) (rule area)
  moreover have "wp (forS [0..<64] (\<lambda>i _. pwrite_block fd (zero_bytes HAMMER2_PBUFSIZE) (of_nat i * of_nat HAMMER2_PBUFSIZE)) ()) (\<lambda>_. kept fd k n s) t"
    by (rule wp_for_all [where J = "kept fd k n s", OF kept]) (rule zone, simp_all)
  moreover have "A AND HAMMER2_PBUFMASK64 = 0" "A < HAMMER2_FREEMAP_LEVEL1_SIZE"
    using A by (simp_all add: and_pbufmask_0 word_less_nat_alt level1_size)
  ultimately show ?thesis
    unfolding format_hammer2_misc_def Let_def A_def [symmetric] wp_bind wp_assert wp_return
    by (auto elim!: wp_mono)
qed

section \<open>The inodes\<close>

definition fresh_bref :: "u64 \<Rightarrow> u8 list" where
  "fresh_bref base = setf (bref BR_vradix) (10 :: u8) (setf (bref BR_data_off) (base OR 10) (zero_bytes 128))"

lemma fresh_bref: "length (fresh_bref base) = 128" "getf (bref BR_data_off) (fresh_bref base) = base OR 10"
  by (simp_all add: fresh_bref_def getf_setf getf_setf_apart)

lemma radix_1024: "radix_loop 1024 0 = (1, 10)"
  by (simp add: radix_loop.simps)

lemma alloc_direct_eq: "alloc_direct base HAMMER2_INODE_BYTES s = Inr ((base + 1024, fresh_bref base), s)"
  by (simp add: alloc_direct_def bindS_def assertS_def radix_1024 returnS_def Let_def fresh_bref_def)

lemma bref_offset:
  assumes "unat base mod 1024 = 0"
  shows "unat (base OR 10 :: u64) = unat base + 10"
  using assms unat_or_above [of 10 base 10] by (simp add: dvd_eq_mod_eq_0)

lemma inode_base_eq:
  assumes "unat base mod 1024 = 0"
  shows "inode_base (fresh_bref base) = unat base mod 65536"
proof -
  have m: "(0xFFFFFFFFFFFFFFC0 :: u64) = NOT (mask 6)" by (simp add: mask_eq_exp_minus_1)
  have "inode_base (fresh_bref base) = unat (((base OR 10) AND mask 16) AND NOT (mask 6))"
    by (simp only: inode_base_def fresh_bref(2) pbufmask m ac_simps)
  also have "\<dots> = (unat base + 10) mod 65536 - (unat base + 10) mod 65536 mod 64"
    by (simp only: unat_and_not_mask and_mask_unat bref_offset [OF assms]) simp
  also have "\<dots> = unat base mod 65536"
  proof -
    obtain r where r: "unat base mod 65536 = r" by simp
    have "r mod 1024 = 0" "r < 65536"
      using assms mod_mod_cancel [of 1024 65536 "unat base"] by (auto simp: r [symmetric])
    then obtain q where q: "r = 1024 * q" "q < 64" by auto
    then have "r + 10 < 65536" by simp
    moreover have "(unat base + 10) mod 65536 = (r + 10) mod 65536" by (simp add: r [symmetric] mod_simps)
    ultimately have "(unat base + 10) mod 65536 = r + 10" by simp
    moreover have "(r + 10) mod 64 = 10" using nat_digit(2) [of 10 64 "16 * q"] by (simp add: q ac_simps)
    ultimately show ?thesis using r by simp
  qed
  finally show ?thesis .
qed

lemma same_pbuf:
  assumes "unat x div 65536 = unat y div 65536"
  shows "(x :: u64) AND NOT HAMMER2_PBUFMASK64 = y AND NOT HAMMER2_PBUFMASK64"
proof -
  have "unat x - unat x mod 65536 = unat y - unat y mod 65536"
    by (simp only: minus_mod_eq_div_mult assms)
  then show ?thesis by (simp add: pbufmask word_unat_eq_iff unat_and_not_mask)
qed

lemma same_pbuf_xor:
  assumes "unat x div 65536 = unat y div 65536"
  shows "((x :: u64) XOR y) AND NOT HAMMER2_PBUFMASK64 = 0"
proof -
  have "(x XOR y) AND NOT HAMMER2_PBUFMASK64 = (x AND NOT HAMMER2_PBUFMASK64) XOR (y AND NOT HAMMER2_PBUFMASK64)"
    by (rule bit_word_eqI) (auto simp: bit_simps)
  then show ?thesis using same_pbuf [OF assms] by simp
qed

lemma len_setf: "length buf = n \<Longrightarrow> within f n \<Longrightarrow> length (setf f v buf) = n"
  by simp

lemma len_overwrite: "length buf = n \<Longrightarrow> off + length bs \<le> n \<Longrightarrow> length (overwrite buf off bs) = n"
  by simp

lemma length_label_inode:
  assumes "length buf = HAMMER2_PBUFSIZE" and "base + 1024 \<le> HAMMER2_PBUFSIZE" and "length label \<le> 256"
  shows "length (label_inode opt label now clid fsid base buf) = HAMMER2_PBUFSIZE"
  unfolding label_inode_def Let_def
  by (intro len_setf len_overwrite) (use assms in \<open>simp_all add: fld_at_def min.coboundedI1\<close>)

lemma length_label_blockref: "length br = 128 \<Longrightarrow> length (label_blockref buf base br) = 128"
  unfolding label_blockref_def Let_def by (intro len_setf) simp_all

lemma length_sroot_blockref: "length br = 128 \<Longrightarrow> length (sroot_blockref buf base br) = 128"
  unfolding sroot_blockref_def Let_def by (intro len_setf) simp_all

lemma length_blockref_fold:
  assumes "length buf = HAMMER2_PBUFSIZE" and "base + 1024 \<le> HAMMER2_PBUFSIZE"
    and "n \<le> 4" and "\<And>i. i < n \<Longrightarrow> length (bs ! i) = 128"
  shows "length (foldl (\<lambda>buf i. overwrite buf (fst (fld_at base (ip (IP_blockref i)))) (bs ! i)) buf [0..<n]) = HAMMER2_PBUFSIZE"
  using assms(3,4)
proof (induction n)
  case (Suc n)
  then show ?case using assms(2) by (simp add: fld_at_def)
qed (use assms in simp)

lemma length_sroot_inode:
  assumes "length buf = HAMMER2_PBUFSIZE" and "base + 1024 \<le> HAMMER2_PBUFSIZE"
    and r: "length roots \<le> 4" "\<And>r. r \<in> set roots \<Longrightarrow> length r = 128"
  shows "length (sroot_inode opt now roots base buf) = HAMMER2_PBUFSIZE"
proof -
  define sorted where "sorted = sort_key (\<lambda>br. getf (bref BR_key) br :: u64) roots"
  have "length sorted \<le> 4" "length (sorted ! i) = 128" if "i < length sorted" for i
    using r that nth_mem [of i sorted] by (simp_all add: sorted_def)
  then show ?thesis
    unfolding sroot_inode_def Let_def sorted_def [symmetric]
    by (intro length_blockref_fold len_setf len_overwrite) (use assms(1,2) r(1) in \<open>simp_all add: fld_at_def cstr_def sorted_def\<close>)
qed

lemma wp_uuid_create:
  "wp uuid_create Q s = Q (os_uuid s (os_uuids s)) (s\<lparr>os_uuids := os_uuids s + 1\<rparr>)"
  by (simp add: wp_def uuid_create_def)

lemma kept_uuids: "kept fd k n s t \<Longrightarrow> kept fd k n s (t\<lparr>os_uuids := u\<rparr>)"
  using touched_trans [OF _ touched_uuids] touched_on_dev [OF touched_uuids] by blast

lemma wp_alloc_direct:
  "wp (alloc_direct base HAMMER2_INODE_BYTES) Q s = Q (base + 1024, fresh_bref base) s"
  by (simp add: wp_def alloc_direct_eq)

text \<open>The inodes lie one after the other in the block at \<open>b\<close>.\<close>

definition inode_acc :: "nat \<Rightarrow> nat \<Rightarrow> u8 list \<times> u64 \<times> u8 list list \<Rightarrow> bool" where
  "inode_acc b i acc \<longleftrightarrow>
     (case acc of (buf, w, roots) \<Rightarrow>
      length buf = HAMMER2_PBUFSIZE \<and> unat w = b + 1024 * (i + 1) \<and> length roots = i \<and>
      (\<forall>r\<in>set roots. length r = 128))"

lemma format_label_wp:
  assumes kept: "kept fd k n s t" and acc: "inode_acc b i acc" and i: "i < 4"
    and label: "length (Label opt ! i) \<le> 256" and b: "b mod 65536 = 0" "b < 2 ^ 30"
    and sroot: "getf (bref BR_data_off) sroot = (a :: u64) OR 10" "unat a = b"
  shows "wp (format_label opt sroot now i acc) (\<lambda>acc u. inode_acc b (Suc i) acc \<and> kept fd k n s u) t"
proof -
  obtain buf w roots where a: "acc = (buf, w, roots)" by (cases acc) auto
  obtain c where c: "b = c * 65536" using b(1) by auto
  have w: "unat w = c * 65536 + 1024 * (i + 1)" and l: "length buf = HAMMER2_PBUFSIZE"
    using acc by (simp_all add: inode_acc_def a c)
  have i5: "1024 * (i + 1) \<le> 4096" using i by simp
  have w1024: "unat w mod 1024 = 0" by (simp add: w mod_add_eq [symmetric])
  have base: "inode_base (fresh_bref w) = 1024 * (i + 1)"
    unfolding inode_base_eq [OF w1024] w by (rule nat_digit) (use i5 in simp)
  have "unat a mod 1024 = 0" by (simp add: sroot(2) c)
  from bref_offset [OF this] have "unat (a OR 10) = c * 65536 + 10" by (simp add: sroot(2) c)
  moreover have "unat (w OR 10) = c * 65536 + (1024 * (i + 1) + 10)" using bref_offset [OF w1024] w by simp
  ultimately have "unat (a OR 10) div 65536 = unat (w OR 10) div 65536"
    using i5 by (simp only: nat_digit)
  then have x: "((a OR 10) XOR (w OR 10)) AND NOT HAMMER2_PBUFMASK64 = 0" by (rule same_pbuf_xor)
  have u: "unat (w + 1024) = b + 1024 * (Suc i + 1)"
  proof -
    have "unat w + unat (1024 :: u64) < 2 ^ 64" using w i5 b(2) by (simp add: c)
    then have "unat (w + 1024) = unat w + 1024" by (simp add: unat_add_lem [THEN iffD1])
    then show ?thesis using w by (simp add: c)
  qed
  have len: "length (label_inode opt (Label opt ! i) now clid fsid (1024 * (i + 1)) buf) = HAMMER2_PBUFSIZE" for clid fsid
    by (rule length_label_inode) (use l i5 label in simp_all)
  have "inode_acc b (Suc i) (label_inode opt (Label opt ! i) now clid fsid (1024 * (i + 1)) buf, w + 1024,
      roots @ [label_blockref (label_inode opt (Label opt ! i) now clid fsid (1024 * (i + 1)) buf) (1024 * (i + 1)) (fresh_bref w)])" for clid fsid
    using acc len u unfolding inode_acc_def a by (auto simp: length_label_blockref fresh_bref)
  moreover have "\<not> HAMMER2_PBUFSIZE < 1024 * (i + 1) + 0x100 + length (Label opt ! i)" using i5 label by simp
  ultimately show ?thesis
    using kept_uuids [OF kept_uuids [OF kept]] i
    unfolding format_label_def a
    by (simp add: wp_simps wp_uuid_create wp_alloc_direct fresh_bref sroot(1) x base Let_def del: bref.simps)
qed

lemma and_not_aligned: "unat x mod 65536 = 0 \<Longrightarrow> (x :: u64) AND NOT HAMMER2_PBUFMASK64 = x"
  using unat_and_not_mask [of x 16] by (simp add: pbufmask word_unat_eq_iff)

text \<open>The condition on the options: at most four labels, none longer than a file name.\<close>

definition labels_ok :: "hammer2_mkfs_options \<Rightarrow> bool" where
  "labels_ok opt \<longleftrightarrow> length (Label opt) \<le> 4 \<and> (\<forall>l\<in>set (Label opt). length l \<le> 256)"

lemma format_hammer2_inode_wp:
  assumes kept: "kept fd k n s t" and labels: "labels_ok opt"
    and A: "unat A mod 65536 = 0" "unat A < 2 ^ 30" "unat A + 65536 \<le> n" and n: "n < 2 ^ 63"
  shows "wp (format_hammer2_inode fd opt A) (\<lambda>(_, sroot) u. length sroot = 128 \<and> kept fd k n s u) t"
proof -
  obtain c where c: "unat A = c * 65536" using A(1) by auto
  have A1024: "unat A mod 1024 = 0" by (simp add: c)
  have labels4: "length (Label opt) \<le> 4" using labels by (simp add: labels_ok_def)
  have u1024: "unat (A + 1024) = unat A + 1024"
    by (subst unat_add_lem [THEN iffD1]) (use A(2) in simp_all)
  have acc0: "inode_acc (unat A) 0 (zero_bytes HAMMER2_PBUFSIZE, A + 1024, [])"
    by (simp add: inode_acc_def u1024)
  have loop: "wp (forS [0..<length (Label opt)] (format_label opt (fresh_bref A) now) (zero_bytes HAMMER2_PBUFSIZE, A + 1024, []))
      (\<lambda>acc u. inode_acc (unat A) (length (Label opt)) acc \<and> kept fd k n s u) t" for now
  proof -
    have "wp (forS (map id [0..<length (Label opt)]) (format_label opt (fresh_bref A) now) (zero_bytes HAMMER2_PBUFSIZE, A + 1024, []))
        (\<lambda>acc u. inode_acc (unat A) (length (Label opt)) acc \<and> kept fd k n s u) t"
    proof (rule wp_for_upto [where I = "\<lambda>i acc u. inode_acc (unat A) i acc \<and> kept fd k n s u"])
      show "inode_acc (unat A) 0 (zero_bytes HAMMER2_PBUFSIZE, A + 1024, []) \<and> kept fd k n s t" using acc0 kept by simp
      fix i acc u assume i: "i < length (Label opt)" and I: "inode_acc (unat A) i acc \<and> kept fd k n s u"
      show "wp (format_label opt (fresh_bref A) now (id i) acc) (\<lambda>acc u. inode_acc (unat A) (Suc i) acc \<and> kept fd k n s u) u"
        unfolding id_apply
        by (rule format_label_wp [where a = A]) (use I i labels A in \<open>auto simp: labels_ok_def fresh_bref simp del: bref.simps\<close>)
    qed
    then show ?thesis by simp
  qed
  have finish: "wp (let base = inode_base (fresh_bref A); buf = sroot_inode opt now roots base buf;
         data_off = getf (bref BR_data_off) (fresh_bref A) :: u64; sroot = sroot_blockref buf base (fresh_bref A) in
       bindS (assertS (data_off AND NOT HAMMER2_PBUFMASK64 = (alloc_base - 1) AND NOT HAMMER2_PBUFMASK64)
         ''root and sroot in one block'') (\<lambda>_.
       bindS (pwrite_block fd buf (data_off AND NOT HAMMER2_PBUFMASK64)) (\<lambda>_. returnS (alloc_base, sroot))))
     (\<lambda>(_, sroot) u. length sroot = 128 \<and> kept fd k n s u) u"
    if acc: "inode_acc (unat A) (length (Label opt)) (buf, alloc_base, roots)" and u: "kept fd k n s u"
    for now buf alloc_base roots u
  proof -
    have base: "inode_base (fresh_bref A) = 0" using inode_base_eq [OF A1024] by (simp add: A(1))
    have w: "unat alloc_base = c * 65536 + 1024 * (length (Label opt) + 1)"
      using acc by (simp add: inode_acc_def c)
    have off: "(A OR 10) AND NOT HAMMER2_PBUFMASK64 = A"
    proof -
      have "unat (A OR 10) div 65536 = unat A div 65536"
        unfolding bref_offset [OF A1024] c by (simp only: nat_digit [of 10 65536 c])
      from same_pbuf [OF this] show ?thesis using and_not_aligned [OF A(1)] by simp
    qed
    have "unat (alloc_base - 1) = unat alloc_base - 1"
      using w by (intro unat_minus_one) auto
    then have "unat (alloc_base - 1) = c * 65536 + (1024 * (length (Label opt) + 1) - 1)" using w by simp
    then have "unat (alloc_base - 1) div 65536 = unat A div 65536"
      using labels4 by (simp add: c)
    from same_pbuf [OF this] have "A = (alloc_base - 1) AND NOT HAMMER2_PBUFMASK64"
      using and_not_aligned [OF A(1)] by simp
    moreover have "length (sroot_inode opt now roots 0 buf) = HAMMER2_PBUFSIZE"
      by (rule length_sroot_inode) (use acc labels4 in \<open>auto simp: inode_acc_def\<close>)
    then have "wp (pwrite_block fd (sroot_inode opt now roots 0 buf) A) (\<lambda>_. kept fd k n s) u"
      by (intro pwrite_block_wp u) (use A n in simp_all)
    ultimately show ?thesis
      unfolding Let_def base fresh_bref(2) off wp_bind wp_assert wp_return
      by (auto simp: length_sroot_blockref fresh_bref elim!: wp_mono)
  qed
  show ?thesis
    unfolding format_hammer2_inode_def wp_bind [of "getS os_now"] wp_get and_not_aligned [OF A(1)]
      wp_bind [of "alloc_direct _ _"] wp_alloc_direct case_prod_conv wp_bind [of "forS _ _ _"]
    by (rule wp_mono [OF loop]) (use finish in \<open>auto simp: wp_case_prod\<close>)
qed

end
