(* ===== verification/Hammer2_Lookup.thy ===== *)
theory Hammer2_Lookup
  imports Hammer2_Headers
begin

text \<open>
  Volumes that pass \<open>hammer2_verify_volumes\<close> follow each other without gap or overlap, and after
  \<open>hammer2_init_volumes\<close> the lookup of an offset finds the one volume that contains it.  An example
  opens a filesystem of one small volume.
\<close>

section \<open>Sets of numbers closed downwards\<close>

lemma closed_lessThan:
  fixes A :: "nat set"
  assumes "finite A" and "\<And>i j. i \<in> A \<Longrightarrow> j < i \<Longrightarrow> j \<in> A"
  shows "A = {..<card A}"
proof -
  define n where "n = (LEAST n. n \<notin> A)"
  have "\<exists>n. n \<notin> A" using assms(1) by (metis ex_new_if_finite infinite_UNIV_nat)
  then have n: "n \<notin> A" unfolding n_def by (rule LeastI_ex)
  have "A = {..<n}"
    using n assms(2) not_less_Least [of _ "\<lambda>n. n \<notin> A"] unfolding n_def [symmetric]
    by (auto, metis linorder_neqE_nat)
  then show ?thesis by simp
qed

section \<open>Volumes that fit together\<close>

text \<open>A volume is installed in the slot of its id.\<close>

definition slots_ok :: "hammer2_ondisk \<Rightarrow> bool" where
  "slots_ok f \<longleftrightarrow>
     length (h2_volumes f) = HAMMER2_MAX_VOLUMES \<and>
     (\<forall>i<HAMMER2_MAX_VOLUMES. h2v_id (h2_volumes f ! i) = - 1 \<or> h2v_id (h2_volumes f ! i) = int i)"

text \<open>Where the volumes before the \<open>n\<close>-th end.\<close>

definition volume_base :: "hammer2_ondisk \<Rightarrow> nat \<Rightarrow> nat" where
  "volume_base f n = (\<Sum>j<n. unat (h2v_size (h2_volumes f ! j)))"

text \<open>The first \<open>n\<close> slots are in use, and the volumes follow each other without a gap.\<close>

definition contiguous :: "hammer2_ondisk \<Rightarrow> nat \<Rightarrow> bool" where
  "contiguous f n \<longleftrightarrow>
     0 < n \<and> n \<le> HAMMER2_MAX_VOLUMES \<and> h2_nvolumes f = int n \<and>
     (\<forall>i<HAMMER2_MAX_VOLUMES. h2v_id (h2_volumes f ! i) = (if i < n then int i else - 1)) \<and>
     (\<forall>i<n. unat (h2v_offset (h2_volumes f ! i)) = volume_base f i) \<and>
     (\<forall>i<n. unat (h2v_size (h2_volumes f ! i)) mod 2 ^ 23 = 0)"

lemma volume_base_mono: "i \<le> n \<Longrightarrow> volume_base f i \<le> volume_base f n"
  unfolding volume_base_def by (rule sum_mono2) auto

lemma volume_base_Suc [simp]: "volume_base f (Suc i) = volume_base f i + unat (h2v_size (h2_volumes f ! i))"
  by (simp add: volume_base_def)

lemma count_prefix:
  assumes len: "length (h2_volumes f) = 64"
    and closed: "\<And>i. Suc i < 64 \<Longrightarrow> h2v_id (h2_volumes f ! Suc i) \<noteq> - 1 \<Longrightarrow> h2v_id (h2_volumes f ! i) \<noteq> - 1"
    and "i < 64"
  shows "h2v_id (h2_volumes f ! i) \<noteq> - 1 \<longleftrightarrow> i < init_volume_count f"
proof -
  define A where "A = {i. i < 64 \<and> h2v_id (h2_volumes f ! i) \<noteq> - 1}"
  have "j \<in> A" if "i \<in> A" "j < i" for i j
    using that(2,1)
  proof (induction rule: strict_inc_induct)
    case (base j)
    then show ?case using closed [of j] by (auto simp: A_def)
  next
    case (step j)
    then show ?case using closed [of j] by (auto simp: A_def)
  qed
  moreover have "finite A" by (simp add: A_def)
  ultimately have "A = {..<card A}" by (rule closed_lessThan [rotated])
  moreover have "card A = init_volume_count f"
    by (simp add: A_def init_volume_count_def length_filter_conv_card len)
  ultimately show ?thesis using assms(3) by (auto simp: A_def)
qed

lemma mask_of_ones: "HAMMER2_VOLUME_ALIGNMASK64 = mask 23" "HAMMER2_FREEMAP_LEVEL1_MASK = mask 30"
  by (simp_all add: HAMMER2_VOLUME_ALIGNMASK64_def HAMMER2_VOLUME_ALIGN_def HAMMER2_FREEMAP_LEVEL1_MASK_def
      HAMMER2_FREEMAP_LEVEL1_SIZE_def mask_eq_exp_minus_1)

lemma and_mask_0: "(x :: u64) AND mask k = 0 \<longleftrightarrow> unat x mod 2 ^ k = 0"
  using and_mask_unat [of x k] by (simp add: word_unat_eq_iff)

lemma and_masks_0:
  "x AND HAMMER2_VOLUME_ALIGNMASK64 = 0 \<longleftrightarrow> unat x mod 2 ^ 23 = 0"
  "x AND HAMMER2_FREEMAP_LEVEL1_MASK = 0 \<longleftrightarrow> unat x mod 2 ^ 30 = 0"
  unfolding mask_of_ones by (rule and_mask_0)+

lemma verify_volume_2_pure:
  "verify_volume_2 f i u s = Inr ((), s) \<or> (\<exists>e. verify_volume_2 f i u s = Inl e)"
  unfolding verify_volume_2_def Let_def by (simp add: returnS_def stopS_def)

lemma verify_volume_2_ok:
  assumes "verify_volume_2 f i u s = Inr ((), s)" and "h2v_id (h2_volumes f ! i) \<noteq> - 1"
  shows "i \<noteq> 0 \<Longrightarrow> h2v_id (h2_volumes f ! i) = h2v_id (h2_volumes f ! (i - 1)) + 1"
    and "i \<noteq> 0 \<Longrightarrow> h2v_offset (h2_volumes f ! i) = h2v_offset (h2_volumes f ! (i - 1)) + h2v_size (h2_volumes f ! (i - 1))"
    and "i = 0 \<Longrightarrow> h2v_offset (h2_volumes f ! i) = 0"
    and "unat (h2v_size (h2_volumes f ! i)) mod 2 ^ 23 = 0"
proof -
  have "unat (h2v_size (h2_volumes f ! i)) mod 2 ^ 30 = 0 \<Longrightarrow> unat (h2v_size (h2_volumes f ! i)) mod 2 ^ 23 = 0"
    using mod_mod_cancel [OF le_imp_power_dvd [of 23 30 2], of "unat (h2v_size (h2_volumes f ! i))"] by simp
  then show "i \<noteq> 0 \<Longrightarrow> h2v_id (h2_volumes f ! i) = h2v_id (h2_volumes f ! (i - 1)) + 1"
    "i \<noteq> 0 \<Longrightarrow> h2v_offset (h2_volumes f ! i) = h2v_offset (h2_volumes f ! (i - 1)) + h2v_size (h2_volumes f ! (i - 1))"
    "i = 0 \<Longrightarrow> h2v_offset (h2_volumes f ! i) = 0"
    "unat (h2v_size (h2_volumes f ! i)) mod 2 ^ 23 = 0"
    using assms unfolding verify_volume_2_def Let_def and_masks_0
    by (auto simp: returnS_def stopS_def split: if_splits)
qed

lemma verify_2_contiguous:
  assumes slots: "slots_ok f" and run: "hammer2_verify_volumes_2 f root s = Inr (r, t)"
    and pos: "0 < init_volume_count f" and sum: "volume_base f (init_volume_count f) < 2 ^ 64"
  shows "contiguous f (init_volume_count f)"
proof -
  define n where "n = init_volume_count f"
  have nv: "h2_nvolumes f = int n"
    using run by (auto simp: hammer2_verify_volumes_2_def n_def Let_def stopS_def split: if_splits)
  obtain u where "forS [0..<64] (verify_volume_2 f) () u = Inr (r, t)"
    using run unfolding hammer2_verify_volumes_2_def Let_def
    by (auto simp: bindS_def stopS_def split: if_splits sum.splits)
  then have ok: "\<And>i. i < 64 \<Longrightarrow> verify_volume_2 f i () u = Inr ((), u)"
    using forS_checks [of "verify_volume_2 f" u] verify_volume_2_pure by auto
  have idn: "h2v_id (h2_volumes f ! i) = - 1 \<or> h2v_id (h2_volumes f ! i) = int i" if "i < 64" for i
    using slots that by (auto simp: slots_ok_def)
  have closed: "h2v_id (h2_volumes f ! i) \<noteq> - 1" if "Suc i < 64" "h2v_id (h2_volumes f ! Suc i) \<noteq> - 1" for i
    using verify_volume_2_ok(1) [OF ok [OF that(1)] that(2)] idn [OF that(1)] that(2) by auto
  have len: "length (h2_volumes f) = 64" using slots by (simp add: slots_ok_def)
  have used: "h2v_id (h2_volumes f ! i) \<noteq> - 1 \<longleftrightarrow> i < n" if "i < 64" for i
    unfolding n_def by (rule count_prefix [OF len closed that])
  have n64: "n \<le> 64" by (metis init_volume_count_def len length_filter_le n_def)
  have off: "unat (h2v_offset (h2_volumes f ! i)) = volume_base f i" if "i < n" for i
    using that
  proof (induction i)
    case 0
    then show ?case using verify_volume_2_ok(3) [OF ok, of 0] used [of 0] n64 by (simp add: volume_base_def)
  next
    case (Suc i)
    have i: "Suc i < 64" using Suc.prems n64 by simp
    have "h2v_offset (h2_volumes f ! Suc i) = h2v_offset (h2_volumes f ! i) + h2v_size (h2_volumes f ! i)"
      using verify_volume_2_ok(2) [OF ok [OF i]] used [OF i] Suc.prems by simp
    moreover have "volume_base f (Suc i) < 2 ^ 64"
      using volume_base_mono [of "Suc i" n f] Suc.prems sum by (simp add: n_def)
    ultimately show ?case using Suc by (simp add: unat_add_lem [THEN iffD1])
  qed
  have "h2v_id (h2_volumes f ! i) = (if i < n then int i else - 1)" if "i < 64" for i
    using used [OF that] idn [OF that] by auto
  moreover have "unat (h2v_size (h2_volumes f ! i)) mod 2 ^ 23 = 0" if "i < n" for i
    using verify_volume_2_ok(4) [OF ok, of i] used [of i] that n64 by simp
  ultimately show ?thesis
    unfolding contiguous_def n_def [symmetric] using pos n64 nv off by (simp add: n_def)
qed

lemma verify_1_contiguous:
  assumes slots: "slots_ok f" and run: "hammer2_verify_volumes_1 f root s = Inr (f', t)"
  shows "f' = f\<lparr>h2_nvolumes := 1\<rparr>" and "contiguous f' 1"
proof -
  have one: "init_volume_count f = 1"
    using run by (auto simp: hammer2_verify_volumes_1_def Let_def stopS_def split: if_splits)
  have "\<exists>u. (let vol = h2_volumes f ! 0 in
        if h2v_id vol \<noteq> 0 then stopS (Exit_with 1 ''has non zero id'')
        else if h2v_offset vol \<noteq> 0 then stopS (Exit_with 1 ''has non zero offset'')
        else if h2v_size vol AND HAMMER2_VOLUME_ALIGNMASK64 \<noteq> 0 then stopS (Exit_with 1 ''size is not aligned'')
        else returnS (f\<lparr>h2_nvolumes := 1\<rparr>)) u = Inr (f', t)"
    using run unfolding hammer2_verify_volumes_1_def by (simp add: one bindS_Inr_iff) blast
  then have chk: "h2v_id (h2_volumes f ! 0) = 0" "h2v_offset (h2_volumes f ! 0) = 0"
    "unat (h2v_size (h2_volumes f ! 0)) mod 2 ^ 23 = 0" "f' = f\<lparr>h2_nvolumes := 1\<rparr>"
    unfolding Let_def and_masks_0 by (auto simp: stopS_def returnS_def split: if_splits)
  then show "f' = f\<lparr>h2_nvolumes := 1\<rparr>" by simp
  have len: "length (h2_volumes f) = 64" using slots by (simp add: slots_ok_def)
  define A where "A = {i. i < 64 \<and> h2v_id (h2_volumes f ! i) \<noteq> - 1}"
  have "card A = init_volume_count f"
    unfolding A_def init_volume_count_def length_filter_conv_card len by simp
  then have "card A = 1" by (simp only: one)
  then obtain x where "A = {x}" by (rule card_1_singletonE)
  moreover have "0 \<in> A" using chk by (simp add: A_def)
  ultimately have A: "A = {0}" by blast
  have "h2v_id (h2_volumes f ! i) = - 1" if "i < 64" "i \<noteq> 0" for i
  proof -
    have "i \<notin> A" using that A by blast
    then show ?thesis using that by (simp add: A_def)
  qed
  then have "h2v_id (h2_volumes f ! i) = (if i < 1 then int i else - 1)" if "i < 64" for i
    using that chk(1) by (cases "i = 0") simp_all
  with chk show "contiguous f' 1"
    by (simp add: contiguous_def volume_base_def)
qed

lemma verify_cases:
  assumes "hammer2_verify_volumes f root s = Inr (f', t)"
  obtains (multi) r u v where "hammer2_verify_volumes_2 f root u = Inr (r, v)" and "f' = f"
      and "h2_nvolumes f = int (init_volume_count f)" and "0 < init_volume_count f"
  | (single) u v where "hammer2_verify_volumes_1 f root u = Inr (f', v)" and "init_volume_count f = 1"
proof -
  obtain u v where run: "(if h2_version f \<ge> 2 then bindS (hammer2_verify_volumes_2 f root) (\<lambda>_. returnS f)
      else hammer2_verify_volumes_1 f root) u = Inr (f', v)" and pos: "h2_nvolumes f' > 0"
    using assms unfolding hammer2_verify_volumes_def bindS_Inr_iff [of "hammer2_verify_volumes_common f"]
      bindS_Inr_iff [of "if _ then _ else _"]
    by (auto simp: bindS_Inr_iff [of "assertS _ _"] returnS_def assertS_def simp del: if_split split: if_splits)
  show ?thesis
  proof (cases "h2_version f \<ge> 2")
    case True
    then obtain r w where v2: "hammer2_verify_volumes_2 f root u = Inr (r, w)" and f': "f' = f"
      using run by (auto simp: bindS_def returnS_def split: sum.splits)
    have "h2_nvolumes f = int (init_volume_count f)"
      using v2 by (auto simp: hammer2_verify_volumes_2_def Let_def stopS_def split: if_splits)
    then show ?thesis using multi [OF v2 f'] pos f' by simp
  next
    case False
    then have v1: "hammer2_verify_volumes_1 f root u = Inr (f', v)" using run by simp
    have "init_volume_count f = 1"
      using v1 by (auto simp: hammer2_verify_volumes_1_def Let_def stopS_def split: if_splits)
    then show ?thesis using single [OF v1] by simp
  qed
qed

text \<open>
  A set of volumes that passes \<open>hammer2_verify_volumes\<close> is contiguous; of the sizes it is assumed that
  their sum does not wrap, which the code does not check.
\<close>

lemma verify_same_volumes:
  assumes "slots_ok f" and "hammer2_verify_volumes f root s = Inr (f', t)"
  shows "h2_volumes f' = h2_volumes f"
  using assms(2)
proof (cases rule: verify_cases)
  case (single u v)
  then show ?thesis using verify_1_contiguous(1) [OF assms(1) single(1)] by simp
qed simp

lemma verify_contiguous:
  assumes "slots_ok f" and "hammer2_verify_volumes f root s = Inr (f', t)"
    and "volume_base f (init_volume_count f) < 2 ^ 64"
  shows "contiguous f' (init_volume_count f)"
  using assms(2)
proof (cases rule: verify_cases)
  case (multi r u v)
  then show ?thesis using verify_2_contiguous [OF assms(1) multi(1) _ assms(3)] by simp
next
  case (single u v)
  then show ?thesis using verify_1_contiguous(2) [OF assms(1) single(1)] by simp
qed

section \<open>Looking up an offset\<close>

definition in_volume :: "hammer2_ondisk \<Rightarrow> u64 \<Rightarrow> nat \<Rightarrow> bool" where
  "in_volume f a i \<longleftrightarrow>
     a \<ge> h2v_offset (h2_volumes f ! i) \<and> a < h2v_offset (h2_volumes f ! i) + h2v_size (h2_volumes f ! i)"

lemma attr_found: "forS is (attr_step a fn) (Some x) u = Inr (Some x, u)"
  by (induction "is") (simp_all add: returnS_def bindS_def attr_step_def)

lemma attr_round:
  "i < 64 \<Longrightarrow> attr_step a fn i None u =
     Inr (if in_volume (fso u) a i then Some (fn (h2_volumes (fso u) ! i)) else None, u)"
  by (simp add: attr_step_def bindS_def getS_def returnS_def Let_def in_volume_def)

lemma attr_search:
  assumes "\<forall>i\<in>set is. i < 64"
  shows "forS is (attr_step a fn) None u =
    Inr (map_option (\<lambda>i. fn (h2_volumes (fso u) ! i)) (find (in_volume (fso u) a) is), u)"
  using assms
proof (induction "is")
  case Nil
  then show ?case by (simp add: returnS_def)
next
  case (Cons i "is")
  then show ?case
    by (simp add: bindS_def attr_round attr_found)
qed

lemma volume_base_aligned:
  assumes "contiguous f n" and "i \<le> n"
  shows "volume_base f i mod 64 = 0"
  using assms(2)
proof (induction i)
  case (Suc i)
  then have "unat (h2v_size (h2_volumes f ! i)) mod 2 ^ 23 = 0" using assms(1) by (simp add: contiguous_def)
  then have "unat (h2v_size (h2_volumes f ! i)) mod 64 = 0"
    using mod_mod_cancel [OF le_imp_power_dvd [of 6 23 2], of "unat (h2v_size (h2_volumes f ! i))"] by simp
  with Suc show ?case by (simp add: mod_add_eq [symmetric])
qed (simp add: volume_base_def)

lemma radix_bits: "unat (off AND NOT HAMMER2_OFF_MASK_RADIX :: u64) = unat off div 64 * 64"
proof -
  have m: "(0x3F :: u64) = mask 6" by (simp add: mask_eq_exp_minus_1)
  show ?thesis unfolding m unat_and_not_mask by (simp add: minus_mod_eq_div_mult)
qed

lemma aligned_le_iff: "k mod 64 = 0 \<Longrightarrow> k \<le> x div 64 * 64 \<longleftrightarrow> k \<le> (x :: nat)"
proof -
  assume "k mod 64 = 0"
  then obtain q where "k = q * 64" by auto
  then show ?thesis by (simp add: less_eq_div_iff_mult_less_eq)
qed

lemma in_volume_iff:
  assumes c: "contiguous f n" and sum: "volume_base f n < 2 ^ 64" and i: "i < n"
  shows "in_volume f (off AND NOT HAMMER2_OFF_MASK_RADIX) i \<longleftrightarrow>
    volume_base f i \<le> unat off \<and> unat off < volume_base f (Suc i)"
proof -
  have off: "unat (h2v_offset (h2_volumes f ! i)) = volume_base f i" using c i by (simp add: contiguous_def)
  have "volume_base f (Suc i) < 2 ^ 64" using volume_base_mono [of "Suc i" n f] i sum by simp
  then have "unat (h2v_offset (h2_volumes f ! i) + h2v_size (h2_volumes f ! i)) = volume_base f (Suc i)"
    using off by (simp add: unat_add_lem [THEN iffD1])
  then show ?thesis
    unfolding in_volume_def word_le_nat_alt word_less_nat_alt radix_bits off
    using aligned_le_iff [OF volume_base_aligned [OF c, of i], of "unat off"]
      aligned_le_iff [OF volume_base_aligned [OF c, of "Suc i"], of "unat off"] i by (simp add: not_le [symmetric])
qed

lemma volume_base_interval: "x < volume_base f n \<Longrightarrow> \<exists>i<n. volume_base f i \<le> x \<and> x < volume_base f (Suc i)"
proof (induction n)
  case (Suc n)
  then show ?case by (metis less_SucI lessI linorder_not_le)
qed (simp add: volume_base_def)

lemma find_interval:
  assumes c: "contiguous f n" and sum: "volume_base f n < 2 ^ 64"
  shows "case find (in_volume f (off AND NOT HAMMER2_OFF_MASK_RADIX)) [0..<n] of
      None \<Rightarrow> volume_base f n \<le> unat off
    | Some i \<Rightarrow> i < n \<and> volume_base f i \<le> unat off \<and> unat off < volume_base f (Suc i)"
proof (cases "find (in_volume f (off AND NOT HAMMER2_OFF_MASK_RADIX)) [0..<n]")
  case None
  then have "\<not> (\<exists>i<n. volume_base f i \<le> unat off \<and> unat off < volume_base f (Suc i))"
    using in_volume_iff [OF c sum] by (auto simp: find_None_iff)
  then have "\<not> unat off < volume_base f n" using volume_base_interval by blast
  with None show ?thesis by simp
next
  case (Some i)
  then have "i < n" "in_volume f (off AND NOT HAMMER2_OFF_MASK_RADIX) i"
    by (auto simp: find_Some_iff)
  with Some show ?thesis using in_volume_iff [OF c sum, of i] by simp
qed

lemma volume_attr_lookup:
  assumes c: "contiguous (fso u) n" and sum: "volume_base (fso u) n < 2 ^ 64" and ini: "hammer2_volumes_initialized u"
  shows "\<exists>r. hammer2_get_volume_attr off fn u = Inr (r, u) \<and>
    (case r of
       None \<Rightarrow> volume_base (fso u) n \<le> unat off
     | Some x \<Rightarrow> \<exists>i<n. x = fn (h2_volumes (fso u) ! i) \<and>
         volume_base (fso u) i \<le> unat off \<and> unat off < volume_base (fso u) (Suc i))"
proof -
  have n: "nat (h2_nvolumes (fso u)) = n" "n \<le> 64" using c by (simp_all add: contiguous_def)
  have "hammer2_get_volume_attr off fn u =
      Inr (map_option (\<lambda>i. fn (h2_volumes (fso u) ! i)) (find (in_volume (fso u) (off AND NOT HAMMER2_OFF_MASK_RADIX)) [0..<n]), u)"
    using ini n attr_search [of "[0..<n]"]
    by (simp add: hammer2_get_volume_attr_def bindS_def getS_def assertS_def)
  with find_interval [OF c sum, of off] show ?thesis
    by (cases "find (in_volume (fso u) (off AND NOT HAMMER2_OFF_MASK_RADIX)) [0..<n]") auto
qed

section \<open>Opening a filesystem\<close>

text \<open>Operations that leave the volumes alone.\<close>

definition vols :: "h2_state \<Rightarrow> hammer2_ondisk \<times> bool" where
  "vols s = (fso s, hammer2_volumes_initialized s)"

definition keeps_fso :: "'a h2io \<Rightarrow> bool" where
  "keeps_fso m \<longleftrightarrow> (\<forall>s. wlp UNIV m (\<lambda>_ t. vols t = vols s) s)"

named_theorems fso_intros \<open>operations that leave the volumes alone\<close>

lemma fso_basic [fso_intros]: "keeps_fso (returnS x)" "keeps_fso (getS g)" "keeps_fso (stopS e)" "keeps_fso (assertS b w)"
  by (simp_all add: keeps_fso_def wlp_simps)

lemma fso_bind [fso_intros]:
  assumes "keeps_fso m" and "\<And>x. keeps_fso (f x)"
  shows "keeps_fso (bindS m f)"
  unfolding keeps_fso_def wlp_bind
proof
  fix s
  show "wlp UNIV m (\<lambda>x. wlp UNIV (f x) (\<lambda>_ t. vols t = vols s)) s"
  proof (rule wlp_mono)
    show "wlp UNIV m (\<lambda>_ t. vols t = vols s) s" using assms(1) by (simp add: keeps_fso_def)
    fix x and t :: h2_state assume "vols t = vols s"
    moreover have "wlp UNIV (f x) (\<lambda>_ u. vols u = vols t) t" using assms(2) by (simp add: keeps_fso_def)
    ultimately show "wlp UNIV (f x) (\<lambda>_ u. vols u = vols s) t" by simp
  qed
qed

lemma fso_branches [fso_intros]:
  "keeps_fso m \<Longrightarrow> keeps_fso m' \<Longrightarrow> keeps_fso (if b then m else m')"
  "keeps_fso m \<Longrightarrow> (\<And>y. keeps_fso (f y)) \<Longrightarrow> keeps_fso (case z of None \<Rightarrow> m | Some y \<Rightarrow> f y)"
  "(\<And>x y. keeps_fso (g x y)) \<Longrightarrow> keeps_fso (case p of (x, y) \<Rightarrow> g x y)"
  "keeps_fso (h w) \<Longrightarrow> keeps_fso (Let w h)"
  by (auto split: option.splits prod.splits)

lemma fso_for [fso_intros]: "(\<And>i x. keeps_fso (body i x)) \<Longrightarrow> keeps_fso (forS is body x)"
  by (induction "is" arbitrary: x) (auto intro!: fso_intros)

lemma fso_calls [fso_intros]:
  "keeps_fso (sys_open path rdonly)" "keeps_fso (sys_fstat fd)" "keeps_fso (sys_stat path)" "keeps_fso (sys_pread fd off n)"
  "keeps_fso (getdevpath dev)"
  by (auto simp: keeps_fso_def vols_def wlp_def sys_open_def Let_def sys_fstat_def sys_stat_def sys_pread_def getdevpath_def getS_def
      split: option.splits)

lemma fso_check_volume [fso_intros]: "keeps_fso (check_volume fd)"
  unfolding check_volume_def by (intro fso_intros)

lemma fso_read_header [fso_intros]: "keeps_fso (hammer2_read_volume_header fd)"
  unfolding hammer2_read_volume_header_def read_header_zone_def by (intro fso_intros)

lemma fso_lookup [fso_intros]: "keeps_fso (hammer2_get_volume_attr off fn)"
  unfolding hammer2_get_volume_attr_def attr_step_def by (intro fso_intros)

lemma fso_read_root [fso_intros]: "keeps_fso hammer2_read_root_volume_header"
  unfolding hammer2_read_root_volume_header_def hammer2_get_volume_fd_def hammer2_get_volume_path_def by (intro fso_intros)

lemma slots_init: "slots_ok hammer2_init_ondisk"
  by (simp add: slots_ok_def hammer2_init_ondisk_def hammer2_init_volume_def)

lemma slots_install:
  assumes "slots_ok f" and "h2_volumes g = h2_volumes f" and "i < 64"
  shows "slots_ok (g\<lparr>h2_volumes := (h2_volumes f)[i := hammer2_install_volume fd (int i) path off sz], h2_total_size := x\<rparr>)"
  using assms by (auto simp: slots_ok_def hammer2_install_volume_def nth_list_update)

lemma check_header_wlp:
  "wlp UNIV (check_volume_header voldata f) (\<lambda>g t. h2_volumes g = h2_volumes f \<and> vols t = vols s) s"
  unfolding check_volume_header_def by (simp add: wlp_simps)

lemma wlp_fso_bind:
  assumes "keeps_fso m" and "\<And>x t. vols t = vols s \<Longrightarrow> wlp UNIV (f x) Q t"
  shows "wlp UNIV (bindS m f) Q s"
  unfolding wlp_bind by (rule wlp_mono [of UNIV m "\<lambda>_ t. vols t = vols s"]) (use assms in \<open>auto simp: keeps_fso_def\<close>)

lemma wlp_UNIV_intros:
  "wlp UNIV (stopS e) Q s"
  "(b \<Longrightarrow> wlp UNIV m Q s) \<Longrightarrow> (\<not> b \<Longrightarrow> wlp UNIV m' Q s) \<Longrightarrow> wlp UNIV (if b then m else m') Q s"
  "(z = None \<Longrightarrow> wlp UNIV m Q s) \<Longrightarrow> (\<And>y. z = Some y \<Longrightarrow> wlp UNIV (f y) Q s) \<Longrightarrow>
     wlp UNIV (case z of None \<Rightarrow> m | Some y \<Rightarrow> f y) Q s"
  "(\<And>x y. p = (x, y) \<Longrightarrow> wlp UNIV (g x y) Q s) \<Longrightarrow> wlp UNIV (case p of (x, y) \<Rightarrow> g x y) Q s"
  "wlp UNIV (h w) Q s \<Longrightarrow> wlp UNIV (Let w h) Q s"
  by (auto simp: wlp_basic split: option.splits prod.splits)

lemma add_volume_slots:
  assumes "slots_ok (fso s)"
  shows "wlp UNIV (hammer2_add_volume path rdonly) (\<lambda>_ t. slots_ok (fso t)) s"
proof -
  have install: "wlp UNIV (bindS (check_volume_header voldata f) (\<lambda>f.
         let vol = hammer2_install_volume fd (int i) path off sz in
         modifyS (\<lambda>s. s\<lparr>fso := f\<lparr>h2_volumes := (h2_volumes f)[i := vol], h2_total_size := h2_total_size f + h2v_size vol\<rparr>\<rparr>)))
     (\<lambda>_ t. slots_ok (fso t)) t" if "slots_ok f" "\<not> i \<ge> 64" for t i voldata fd off sz f
    unfolding wlp_bind wlp_branches(5) wlp_basic
    by (rule wlp_mono [OF check_header_wlp]) (use that in \<open>auto intro!: slots_install\<close>)
  have start: "wlp UNIV (bindS (getS fso) F) Q t" if "wlp UNIV (F (fso t)) Q t" for F and Q :: "unit \<Rightarrow> h2_state \<Rightarrow> bool" and t
    using that by (simp add: wlp_bind wlp_basic)
  show ?thesis
    unfolding hammer2_add_volume_def
    by (intro wlp_UNIV_intros install start
        wlp_fso_bind [OF fso_calls(1)] wlp_fso_bind [OF fso_calls(2)] wlp_fso_bind [OF fso_read_header])
      (use assms in \<open>simp_all add: vols_def\<close>)
qed

text \<open>The volumes keep their slots, also across the recursive calls.\<close>

lemma fso_verify [fso_intros]: "keeps_fso (hammer2_verify_volumes f root)"
  unfolding hammer2_verify_volumes_def hammer2_verify_volumes_common_def verify_common_volume_def
    hammer2_verify_volumes_1_def hammer2_verify_volumes_2_def verify_root_header_def verify_volume_2_def
  by (intro fso_intros)

definition opened :: "h2_state \<Rightarrow> bool" where
  "opened t \<longleftrightarrow> hammer2_volumes_initialized t \<and> slots_ok (fso t) \<and>
     (volume_base (fso t) (init_volume_count (fso t)) < 2 ^ 64 \<longrightarrow> contiguous (fso t) (init_volume_count (fso t)))"

lemma verify_opened:
  assumes "hammer2_volumes_initialized s" and "slots_ok (fso s)"
  shows "wlp UNIV (bindS (hammer2_verify_volumes (fso s) root) (\<lambda>f. modifyS (\<lambda>s. s\<lparr>fso := f\<rparr>))) (\<lambda>_. opened) s"
proof -
  have "opened (t\<lparr>fso := f'\<rparr>)" if r: "hammer2_verify_volumes (fso s) root s = Inr (f', t)" for f' t
  proof -
    have "vols t = vols s"
      using fso_verify [of "fso s" root] r by (auto simp: keeps_fso_def wlp_def dest: spec [of _ s])
    then have i: "hammer2_volumes_initialized t" using assms(1) by (simp add: vols_def)
    have "h2_volumes f' = h2_volumes (fso s)" by (rule verify_same_volumes [OF assms(2) r])
    then have "volume_base f' = volume_base (fso s)" "init_volume_count f' = init_volume_count (fso s)" "slots_ok f'"
      using assms(2) by (simp_all add: fun_eq_iff volume_base_def init_volume_count_def slots_ok_def)
    then show ?thesis using i verify_contiguous [OF assms(2) r] by (simp add: opened_def)
  qed
  then show ?thesis unfolding wlp_bind wlp_basic by (auto simp: wlp_def split: sum.splits)
qed

lemma init_volumes_opened:
  "wlp UNIV (hammer2_init_volumes depth blkdevs rdonly) (\<lambda>_. opened) s"
proof (induction depth arbitrary: blkdevs s)
  case 0
  show ?case by (simp add: wlp_basic)
next
  case (Suc depth)
  have dev: "wlp UNIV (bindS (getdevpath devpath) (\<lambda>devpath.
        if CHR '':'' \<in> set devpath then hammer2_init_volumes depth devpath rdonly
        else hammer2_add_volume devpath rdonly)) (\<lambda>_ t. slots_ok (fso t)) t" if "slots_ok (fso t)" for devpath t
    by (intro wlp_UNIV_intros wlp_fso_bind [OF fso_calls(5)] add_volume_slots wlp_mono [OF Suc.IH])
      (use that in \<open>simp_all add: vols_def opened_def\<close>)
  have devs: "wlp UNIV (forS (split_colon blkdevs) (\<lambda>devpath _.
        bindS (getdevpath devpath) (\<lambda>devpath.
        if CHR '':'' \<in> set devpath then hammer2_init_volumes depth devpath rdonly
        else hammer2_add_volume devpath rdonly)) ()) (\<lambda>_ t. slots_ok (fso t)) t" if "slots_ok (fso t)" for t
    by (rule wlp_for_all [where J = "\<lambda>t. slots_ok (fso t)", OF that]) (rule dev)
  have root: "wlp UNIV (bindS hammer2_read_root_volume_header (\<lambda>rootvoldata.
      bindS (getS fso) (\<lambda>f.
      bindS (hammer2_verify_volumes f rootvoldata) (\<lambda>f.
      modifyS (\<lambda>s. s\<lparr>fso := f\<rparr>))))) (\<lambda>_. opened) t" if "hammer2_volumes_initialized t" "slots_ok (fso t)" for t
  proof (rule wlp_fso_bind [OF fso_read_root])
    fix root u assume "vols u = vols t"
    then have "hammer2_volumes_initialized u" "slots_ok (fso u)" using that by (simp_all add: vols_def)
    from verify_opened [OF this, of root]
    show "wlp UNIV (bindS (getS fso) (\<lambda>f. bindS (hammer2_verify_volumes f root) (\<lambda>f. modifyS (\<lambda>s. s\<lparr>fso := f\<rparr>)))) (\<lambda>_. opened) u"
      unfolding wlp_bind [of _ "getS fso"] wlp_basic .
  qed
  show ?case
    unfolding hammer2_init_volumes.simps wlp_bind [of _ "getS hammer2_volumes_initialized"]
      wlp_bind [of _ "modifyS _"] wlp_bind [of _ "forS _ _ _"] wlp_basic wlp_branches
    by (auto intro!: wlp_mono [OF devs] root simp: slots_init)
qed

section \<open>A filesystem on one small volume\<close>

definition ex_vol :: hammer2_volume where
  "ex_vol = hammer2_install_volume 3 0 ''/d'' 0 (2 ^ 23)"

definition ex_fs :: hammer2_ondisk where
  "ex_fs = hammer2_init_ondisk\<lparr>h2_version := 2, h2_nvolumes := 1,
     h2_volumes := (h2_volumes hammer2_init_ondisk)[0 := ex_vol], h2_total_size := 2 ^ 23,
     h2_fsid := 6, h2_fstype := 5\<rparr>"

definition ex_opt :: hammer2_mkfs_options where
  "ex_opt = \<lparr>Hammer2Version = 2, Hammer2_FSType = 5, Hammer2_VolFSID = 6, Hammer2_SupCLID = 7, Hammer2_SupFSID = 8,
     BootAreaSize = 0, AuxAreaSize = 0, Label = [], CompType = 0, DefaultLabelType = HAMMER2_LABEL_NONE\<rparr>"

definition ex_header :: "u8 list" where
  "ex_header = volume_header_seal (volume_header_fields ex_fs ex_opt ex_vol 0 (replicate 4 (zero_bytes 128)))"

definition ex_file :: h2_file where
  "ex_file = write_file 0 ex_header (blank_file 1 (2 ^ 23))"

definition ex_state :: h2_state where
  "ex_state = no_files\<lparr>os_paths := [''/d'' \<mapsto> 7], os_files := (\<lambda>_. ex_file)\<rparr>"

lemma ex_volumes: "h2_volumes ex_fs ! 0 = ex_vol" "h2v_id ex_vol = 0" "h2v_offset ex_vol = 0" "h2v_size ex_vol = 2 ^ 23"
  "h2v_fd ex_vol = 3" "h2v_path ex_vol = Some ''/d''"
  by (simp_all add: ex_fs_def ex_vol_def hammer2_install_volume_def hammer2_init_ondisk_def)

lemma ex_header_hyps:
  "Hammer2Version ex_opt = 2" "(1 :: nat) \<le> 64" "h2_nvolumes ex_fs = int 1" "h2v_id ex_vol = int 0"
  "\<forall>i<4. length (replicate 4 (zero_bytes 128) ! i) = 128"
  by (simp_all add: ex_opt_def ex_fs_def ex_volumes)

lemmas ex_header = formatted_header [where alloc_base = 0, OF ex_header_hyps, folded ex_header_def]

lemma ex_file: "f_type ex_file = S_IFREG" "f_size ex_file = 2 ^ 23" "f_bad ex_file = (\<lambda>_. False)"
  by (simp_all add: ex_file_def write_file_def blank_file_def ex_header(1))

lemma ex_valid: "valid_header ex_file 0 ex_header"
  unfolding valid_header_block ex_file
  using ex_header(1,2) block_write_same [of ex_header 0 "blank_file 1 (2 ^ 23)"]
  by (simp add: zone_off_def ex_file_def)

lemma ex_read:
  assumes "map_of (os_fds s) fd = Some k" and "os_files s k = ex_file"
  shows "hammer2_read_volume_header fd s = Inr (Some (0, ex_header), s)"
proof -
  have f: "f_type (os_files s k) = S_IFREG" "f_size (os_files s k) < 2 ^ 64" using assms(2) ex_file by simp_all
  obtain m where m: "m \<le> 4" "\<And>i. i < m \<longleftrightarrow> i < 4 \<and> zone_off i < f_size ex_file"
    and e: "hammer2_read_volume_header fd s = Inr (foldl (pick_header ex_file) None [0..<m], s)"
    using read_volume_header_eq [OF assms(1) f] unfolding assms(2) by blast
  have "0 < m" "\<not> 1 < m" using m(2) [of 0] m(2) [of 1] by (simp_all add: zone_off_def zone_bytes ex_file)
  then have "[0..<m] = [0]" by (cases m) auto
  then show ?thesis
    using ex_valid unfolding e by (simp add: pick_header_def zone_header_Some [symmetric])
qed

definition ex_opened :: h2_state where
  "ex_opened = ex_state\<lparr>os_fds := [(3, 7), (0, 0), (1, 0), (2, 0)], fso := ex_fs, hammer2_volumes_initialized := True\<rparr>"

lemma ex_add:
  "hammer2_add_volume ''/d'' rdonly (ex_state\<lparr>fso := hammer2_init_ondisk\<rparr>) =
     Inr ((), ex_opened\<lparr>hammer2_volumes_initialized := False\<rparr>)"
proof -
  define s where "s = ex_state\<lparr>fso := hammer2_init_ondisk, os_fds := [(3, 7), (0, 0), (1, 0), (2, 0)]\<rparr>"
  have fd: "fd_free [(0, 0), (1, 0), (2, 0)] = 3" by (simp add: fd_free_def upt_rec)
  have o: "sys_open ''/d'' rdonly (ex_state\<lparr>fso := hammer2_init_ondisk\<rparr>) = Inr (3, s)"
    by (simp add: sys_open_def ex_state_def no_files_def s_def fd ex_file_def write_file_def blank_file_def)
  have st: "sys_fstat 3 s = Inr (Some ex_file, s)"
    by (simp add: sys_fstat_def getS_def s_def ex_state_def)
  have rd: "hammer2_read_volume_header 3 s = Inr (Some (0, ex_header), s)"
    by (rule ex_read [of _ _ 7]) (simp_all add: s_def ex_state_def)
  have fs: "fso s = hammer2_init_ondisk" by (simp add: s_def)
  have u: "unat (getf (vd VD_volu_id) ex_header :: u8) = 0" by (simp add: ex_header(5) del: vd.simps)
  have loff: "getf (vd (VD_volu_loff 0)) ex_header = (0 :: u64)"
    using ex_header(8) [of 0] by (simp add: ex_volumes del: vd.simps)
  have chk: "check_volume_header ex_header hammer2_init_ondisk s =
      Inr (hammer2_init_ondisk\<lparr>h2_version := 2, h2_nvolumes := 1, h2_fsid := 6, h2_fstype := 5\<rparr>, s)"
    by (simp add: check_volume_header_def returnS_def ex_header(4,6,9,10) ex_opt_def hammer2_init_ondisk_def del: vd.simps)
  have slot: "h2v_id (h2_volumes hammer2_init_ondisk ! 0) = - 1"
    by (simp add: hammer2_init_ondisk_def hammer2_init_volume_def)
  have "hammer2_add_volume ''/d'' rdonly (ex_state\<lparr>fso := hammer2_init_ondisk\<rparr>) =
      modifyS (\<lambda>s. s\<lparr>fso := ex_fs\<rparr>) s"
    unfolding hammer2_add_volume_def
    by (simp add: bindS_def o st rd ex_file Let_def u loff getS_def fs slot chk ex_header(3) ex_volumes del: vd.simps)
      (simp add: ex_fs_def ex_vol_def hammer2_install_volume_def hammer2_init_ondisk_def modifyS_def)
  then show ?thesis by (simp add: modifyS_def s_def ex_opened_def ex_state_def no_files_def)
qed

lemma upt_64: "[0..<64] = 0 # [1..<64::nat]"
  by (simp add: upt_rec)

lemma ex_slots: "0 < i \<Longrightarrow> i < 64 \<Longrightarrow> h2v_id (h2_volumes ex_fs ! i) = - 1"
  by (simp add: ex_fs_def hammer2_init_ondisk_def hammer2_init_volume_def)

lemma ex_count: "init_volume_count ex_fs = 1"
proof -
  have "h2_volumes ex_fs = ex_vol # replicate 63 (hammer2_init_volume volume_zero)"
    by (simp add: ex_fs_def hammer2_init_ondisk_def numeral_eq_Suc)
  then show ?thesis
    by (simp add: init_volume_count_def ex_volumes hammer2_init_volume_def)
qed

lemma ex_opened: "fso ex_opened = ex_fs" "map_of (os_fds ex_opened) 3 = Some 7" "os_files ex_opened 7 = ex_file"
  "hammer2_volumes_initialized ex_opened" "os_paths ex_opened = [''/d'' \<mapsto> 7]"
  by (simp_all add: ex_opened_def ex_state_def)

lemma ex_verify: "hammer2_verify_volumes ex_fs (Some ex_header) ex_opened = Inr (ex_fs, ex_opened)"
proof -
  have size: "check_volume 3 ex_opened = Inr (2 ^ 23, ex_opened)"
    by (simp add: check_volume_def bindS_def sys_fstat_def getS_def ex_opened ex_file returnS_def)
  have "verify_common_volume ex_fs 0 [(0, 0)] ex_opened = Inr ([(1, 1)], ex_opened)"
    by (simp add: verify_common_volume_def Let_def ex_volumes bindS_def sys_stat_def sys_fstat_def getS_def ex_opened size returnS_def)
      (simp add: ex_file_def write_file_def blank_file_def)
  moreover have "verify_common_volume ex_fs i st ex_opened = Inr (st, ex_opened)" if "i \<in> set [1..<64]" for i st
    using that ex_slots [of i] by (simp add: verify_common_volume_def Let_def returnS_def)
  then have "forS [1..<64] (verify_common_volume ex_fs) [(1, 1)] ex_opened = Inr ([(1, 1)], ex_opened)"
    by (rule forS_skip)
  ultimately have "forS [0..<64] (verify_common_volume ex_fs) [(0, 0)] ex_opened = Inr ([(1, 1)], ex_opened)"
    unfolding upt_64 forS.simps by (simp add: bindS_def)
  then have common: "hammer2_verify_volumes_common ex_fs ex_opened = Inr ((), ex_opened)"
    by (simp add: hammer2_verify_volumes_common_def ex_count bindS_def returnS_def) (simp add: ex_fs_def)
  have "verify_volume_2 ex_fs i () ex_opened = Inr ((), ex_opened)" if "i \<in> set [0..<64]" for i
  proof (cases "i = 0")
    case True
    then show ?thesis
      by (simp add: verify_volume_2_def Let_def ex_volumes returnS_def and_masks_0) (simp add: ex_fs_def)
  next
    case False
    then show ?thesis using that ex_slots [of i] by (simp add: verify_volume_2_def Let_def returnS_def)
  qed
  then have vols: "forS [0..<64] (verify_volume_2 ex_fs) () ex_opened = Inr ((), ex_opened)" by (rule forS_skip)
  have fs: "h2_nvolumes ex_fs = 1" "h2_total_size ex_fs = 2 ^ 23" "h2_version ex_fs = 2" by (simp_all add: ex_fs_def)
  have "verify_root_header 1 ex_header ex_opened = Inr ((), ex_opened)"
    unfolding verify_root_header_def
    by (simp add: bindS_def getS_def ex_opened ex_header(5,6,7) fs returnS_def del: vd.simps)
      (auto simp: ex_header(8) ex_volumes simp del: vd.simps)
  then have "hammer2_verify_volumes_2 ex_fs (Some ex_header) ex_opened = Inr ((), ex_opened)"
    using vols by (simp add: hammer2_verify_volumes_2_def ex_count fs bindS_def)
  then show ?thesis
    using common by (simp add: hammer2_verify_volumes_def bindS_def fs returnS_def assertS_def)
qed

lemma ex_init: "hammer2_init_volumes 1 ''/d'' rdonly ex_state = Inr ((), ex_opened)"
proof -
  have colon: "split_colon ''/d'' = [''/d'']" by simp
  have path: "getdevpath ''/d'' s = Inr (''/d'', s)" for s :: h2_state by (simp add: getdevpath_def getS_def)
  have ini: "\<not> hammer2_volumes_initialized ex_state" by (simp add: ex_state_def no_files_def)
  have one: "[0..<nat (h2_nvolumes ex_fs)] = [0]" by (simp add: ex_fs_def)
  have attr: "hammer2_get_volume_attr 0 fn ex_opened = Inr (Some (fn ex_vol), ex_opened)" for fn :: "hammer2_volume \<Rightarrow> 'x"
    using attr_search [of "[0]" 0 fn ex_opened]
    by (simp add: hammer2_get_volume_attr_def bindS_def getS_def assertS_def ex_opened one in_volume_def ex_volumes del: forS.simps)
  have root: "hammer2_read_root_volume_header ex_opened = Inr (Some ex_header, ex_opened)"
    using ex_read [OF ex_opened(2,3)]
    by (simp add: hammer2_read_root_volume_header_def hammer2_get_volume_fd_def hammer2_get_volume_path_def bindS_def attr
        returnS_def ex_volumes)
  have op: "ex_opened\<lparr>hammer2_volumes_initialized := True\<rparr> = ex_opened" "ex_opened\<lparr>fso := ex_fs\<rparr> = ex_opened"
    by (simp_all add: ex_opened_def)
  show ?thesis
    unfolding One_nat_def hammer2_init_volumes.simps colon
    by (simp add: bindS_def getS_def ini modifyS_def path ex_add returnS_def op root ex_opened ex_verify)
qed

text \<open>
  C13: if \<open>hammer2_init_volumes\<close> opens a set of volumes whose sizes have a sum below \<open>2^64\<close>, the volumes
  have the ids 0, 1, and so on in their slots and follow each other without gap or overlap from offset
  0, and \<open>hammer2_get_volume_attr\<close> returns for every offset below the total size the attribute of the one
  volume that contains it, and fails for every other offset.
\<close>

theorem opened_filesystem_lookup:
  assumes "hammer2_init_volumes depth blkdevs rdonly s = Inr ((), t)"
    and "volume_base (fso t) (init_volume_count (fso t)) < 2 ^ 64"
  shows "contiguous (fso t) (init_volume_count (fso t)) \<and>
    (\<exists>r. hammer2_get_volume_attr off fn t = Inr (r, t) \<and>
      (case r of
         None \<Rightarrow> volume_base (fso t) (init_volume_count (fso t)) \<le> unat off
       | Some x \<Rightarrow> \<exists>i<init_volume_count (fso t). x = fn (h2_volumes (fso t) ! i) \<and>
           volume_base (fso t) i \<le> unat off \<and> unat off < volume_base (fso t) (Suc i)))"
proof -
  have "opened t" using init_volumes_opened [of depth blkdevs rdonly s] assms(1) by (simp add: wlp_def)
  then have "contiguous (fso t) (init_volume_count (fso t))" "hammer2_volumes_initialized t"
    using assms(2) unfolding opened_def by blast+
  then show ?thesis using volume_attr_lookup [OF _ assms(2)] by blast
qed

theorem opened_filesystem_lookup_witness:
  "contiguous ex_fs 1 \<and> (\<exists>r. hammer2_get_volume_attr 0x1234 h2v_path ex_opened = Inr (r, ex_opened) \<and> r = Some (Some ''/d''))"
proof -
  have sum: "volume_base ex_fs 1 = 2 ^ 23" by (simp add: volume_base_def ex_volumes)
  have "volume_base (fso ex_opened) (init_volume_count (fso ex_opened)) < 2 ^ 64" by (simp add: ex_opened ex_count sum del: One_nat_def)
  from opened_filesystem_lookup [where off = "0x1234" and fn = h2v_path, OF ex_init this]
  show ?thesis unfolding ex_opened(1) ex_count sum by (auto simp: ex_volumes split: option.splits)
qed

text \<open>
  C33: when the only volume given is not the root volume, which passes every check of
  \<open>hammer2_add_volume\<close>, \<open>hammer2_verify_volumes\<close> writes beyond the end of its array of \<open>stat\<close> results.
\<close>

theorem lone_volume_out_of_bounds:
  assumes "h2_version f \<noteq> - 1" and len: "length (h2_volumes f) = 64" and i: "0 < i" "i < 64"
    and ids: "\<forall>j<64. h2v_id (h2_volumes f ! j) = (if j = i then int i else - 1)"
    and path: "h2v_path (h2_volumes f ! i) = Some path" "os_paths s path = Some k"
  shows "hammer2_verify_volumes f root s = Inl (Out_of_bounds ''st[i]'')"
proof -
  have "{j. j < 64 \<and> h2v_id (h2_volumes f ! j) \<noteq> - 1} = {i}"
    using i ids by (auto split: if_splits)
  then have count: "init_volume_count f = 1"
    by (simp add: init_volume_count_def length_filter_conv_card len)
  have skip: "forS [0..<i] (verify_common_volume f) [(0, 0)] s = Inr ([(0, 0)], s)"
    by (rule forS_skip) (use i ids in \<open>auto simp: verify_common_volume_def Let_def returnS_def\<close>)
  have "verify_common_volume f i [(0, 0)] s = Inl (Out_of_bounds ''st[i]'')"
    using i ids path by (simp add: verify_common_volume_def Let_def bindS_def sys_stat_def getS_def stopS_def)
  moreover have "[0..<64] = [0..<i] @ i # [Suc i..<64]"
    using i upt_add_eq_append [of 0 i "64 - i"] upt_conv_Cons [of i 64] by simp
  ultimately have "forS [0..<64] (verify_common_volume f) [(0, 0)] s = Inl (Out_of_bounds ''st[i]'')"
    using skip by (simp only: forS_append forS.simps) (simp add: bindS_def)
  then show ?thesis
    using assms(1) count by (simp add: hammer2_verify_volumes_def hammer2_verify_volumes_common_def bindS_def)
qed

theorem lone_volume_out_of_bounds_witness:
  "\<exists>f s. hammer2_verify_volumes f None s = Inl (Out_of_bounds ''st[i]'')"
proof -
  define f where "f = hammer2_init_ondisk\<lparr>h2_version := 2, h2_nvolumes := 2,
     h2_volumes := (h2_volumes hammer2_init_ondisk)[5 := hammer2_install_volume 3 5 ''/d'' (2 ^ 30) (2 ^ 23)]\<rparr>"
  have "h2_version f \<noteq> - 1" "length (h2_volumes f) = 64" "(0 :: nat) < 5" "(5 :: nat) < 64"
    "\<forall>j<64. h2v_id (h2_volumes f ! j) = (if j = 5 then int 5 else - 1)"
    "h2v_path (h2_volumes f ! 5) = Some ''/d''" "os_paths ex_state ''/d'' = Some 7"
    by (simp_all add: f_def hammer2_init_ondisk_def hammer2_install_volume_def hammer2_init_volume_def ex_state_def nth_list_update)
  from lone_volume_out_of_bounds [OF this, of None] show ?thesis by blast
qed

end
