(* ===== verification/Hammer2_Mkfs.thy ===== *)
theory Hammer2_Mkfs
  imports Hammer2_Writes Hammer2_Lookup
begin

text \<open>
  Formatting one HAMMER2 volume and reading it back: every copy of the header inside the volume is the
  sealed header, so \<open>hammer2_read_volume_header\<close> returns it, unless an older header with a higher
  transaction id has survived beyond the end of the volume.
\<close>

section \<open>One volume\<close>

lemma zone_word:
  assumes "i < 4"
  shows "unat (of_nat i * HAMMER2_ZONE_BYTES64 :: u64) = zone_off i"
  using assms by (subst unat_mult_lem [THEN iffD1]) (simp_all add: zone_bytes unat_of_nat zone_off_def)

lemma zone_apart: "i < j \<Longrightarrow> zone_off i + HAMMER2_PBUFSIZE \<le> zone_off j"
proof -
  assume "i < j"
  then have "Suc i * 2147483648 \<le> j * 2147483648" by simp
  then show ?thesis by (simp add: zone_off_def zone_bytes)
qed

lemma zone_inside:
  assumes "zone_off i < v" and "v mod 2 ^ 23 = 0"
  shows "zone_off i + HAMMER2_PBUFSIZE \<le> v"
proof -
  obtain q where q: "v = q * 8388608" using assms(2) by auto
  then have "i * 256 < q" using assms(1) by (simp add: zone_off_def zone_bytes)
  then have "(i * 256 + 1) * 8388608 \<le> q * 8388608" by simp
  then show ?thesis by (simp add: q zone_off_def zone_bytes)
qed

lemma block_put_same:
  "length buf = HAMMER2_PBUFSIZE \<Longrightarrow> block_at (os_files (put_block k off buf s) k) off = buf"
  by (rule nth_equalityI) (simp_all add: block_at_def put_block_def write_file_def)

lemma block_put_other:
  "length buf = HAMMER2_PBUFSIZE \<Longrightarrow> off + HAMMER2_PBUFSIZE \<le> off' \<or> off' + HAMMER2_PBUFSIZE \<le> off \<Longrightarrow>
   block_at (os_files (put_block k off buf s) k) off' = block_at (os_files s k) off'"
  by (rule nth_equalityI) (auto simp: block_at_def put_block_def write_file_def)

text \<open>Every zone of the volume has the sealed header.\<close>

definition stamped :: "hammer2_ondisk \<Rightarrow> hammer2_mkfs_options \<Rightarrow> hammer2_volume \<Rightarrow> h2_file \<Rightarrow> bool" where
  "stamped f opt vol file \<longleftrightarrow>
     (\<exists>alloc_base bs. (\<forall>i<4. length (bs ! i) = 128) \<and>
       (\<forall>z<4. zone_off z < unat (h2v_size vol) \<longrightarrow>
          block_at file (zone_off z) = volume_header_seal (volume_header_fields f opt vol alloc_base bs)))"

lemma header_loop_wp:
  assumes kept: "kept fd k n s t" and buf: "length buf = HAMMER2_PBUFSIZE" and n: "n < 2 ^ 63"
    and v: "unat sz \<le> n" "unat sz mod 2 ^ 23 = 0"
  shows "wp (forS (takeWhile (\<lambda>i. of_nat i * HAMMER2_ZONE_BYTES64 < sz) [0..<4])
      (\<lambda>i _. pwrite_block fd buf (of_nat i * HAMMER2_ZONE_BYTES64)) ())
    (\<lambda>_ u. kept fd k n s u \<and> (\<forall>z<4. zone_off z < unat sz \<longrightarrow> block_at (os_files u k) (zone_off z) = buf)) t"
proof -
  obtain m where m: "m \<le> 4" "\<And>i. i < m \<longleftrightarrow> i < 4 \<and> zone_off i < unat sz"
    and e: "takeWhile (\<lambda>i. of_nat i * HAMMER2_ZONE_BYTES64 < sz) [0..<4] = [0..<m]"
    using header_zones [of "unat sz"] unsigned_less [of sz, where ?'a = nat] by auto
  have "wp (forS (map id [0..<m]) (\<lambda>i _. pwrite_block fd buf (of_nat i * HAMMER2_ZONE_BYTES64)) ())
    (\<lambda>_ u. kept fd k n s u \<and> (\<forall>z<m. block_at (os_files u k) (zone_off z) = buf)) t"
  proof (rule wp_for_upto [where I = "\<lambda>m _ u. kept fd k n s u \<and> (\<forall>z<m. block_at (os_files u k) (zone_off z) = buf)"])
    show "kept fd k n s t \<and> (\<forall>z<0. block_at (os_files t k) (zone_off z) = buf)" using kept by simp
    fix i :: nat and x :: unit and u
    assume "i < m" and I: "kept fd k n s u \<and> (\<forall>z<i. block_at (os_files u k) (zone_off z) = buf)"
    then have i: "i < 4" "zone_off i + HAMMER2_PBUFSIZE \<le> unat sz" using m(2) zone_inside v(2) by auto
    then have "pwrite_block fd buf (of_nat i * HAMMER2_ZONE_BYTES64) u = Inr ((), put_block k (zone_off i) buf u)"
      using pwrite_block_eq [of fd k n u buf "of_nat i * HAMMER2_ZONE_BYTES64"] I buf v(1) n by (simp add: zone_word)
    moreover have "kept fd k n s (put_block k (zone_off i) buf u)"
      using I i v(1) buf touched_put [of "zone_off i" buf n k u] touched_trans touched_on_dev
      by (metis le_trans)
    moreover have "block_at (os_files (put_block k (zone_off i) buf u) k) (zone_off z) = buf" if "z < Suc i" for z
      using that I buf zone_apart [of z i] by (cases "z = i") (auto simp: block_put_same block_put_other)
    ultimately show "wp (pwrite_block fd buf (of_nat (id i) * HAMMER2_ZONE_BYTES64))
      (\<lambda>_ u. kept fd k n s u \<and> (\<forall>z<Suc i. block_at (os_files u k) (zone_off z) = buf)) u"
      by (simp add: wp_def)
  qed
  then have "wp (forS [0..<m] (\<lambda>i _. pwrite_block fd buf (of_nat i * HAMMER2_ZONE_BYTES64)) ())
    (\<lambda>_ u. kept fd k n s u \<and> (\<forall>z<m. block_at (os_files u k) (zone_off z) = buf)) t" by simp
  then show ?thesis unfolding e m(2) by (rule wp_mono) auto
qed

text \<open>The reserved areas end in the first gigabyte and leave room for the inodes on the root volume.\<close>

definition areas_fit :: "hammer2_mkfs_options \<Rightarrow> nat \<Rightarrow> bool" where
  "areas_fit opt v \<longleftrightarrow>
     unat (BootAreaSize opt) mod 2 ^ 23 = 0 \<and> unat (AuxAreaSize opt) mod 2 ^ 23 = 0 \<and>
     2 ^ 22 + unat (BootAreaSize opt) + unat (AuxAreaSize opt) < 2 ^ 30 \<and>
     2 ^ 22 + unat (BootAreaSize opt) + unat (AuxAreaSize opt) + HAMMER2_PBUFSIZE \<le> v"

lemma areas_alloc_base:
  assumes "areas_fit opt v"
  defines "A \<equiv> HAMMER2_ZONE_SEG64 + BootAreaSize opt + AuxAreaSize opt"
  shows "unat A = 2 ^ 22 + unat (BootAreaSize opt) + unat (AuxAreaSize opt)" and "unat A mod 65536 = 0"
    and "unat A < 2 ^ 30" and "unat A + HAMMER2_PBUFSIZE \<le> v"
proof -
  have seg: "unat HAMMER2_ZONE_SEG64 = 2 ^ 22" by (simp add: HAMMER2_ZONE_SEG64_def)
  have "unat (HAMMER2_ZONE_SEG64 + BootAreaSize opt) = 2 ^ 22 + unat (BootAreaSize opt)"
    using assms(1) seg by (subst unat_add_lem [THEN iffD1]) (auto simp: areas_fit_def)
  then show A: "unat A = 2 ^ 22 + unat (BootAreaSize opt) + unat (AuxAreaSize opt)"
    using assms(1) unfolding A_def by (subst unat_add_lem [THEN iffD1]) (auto simp: areas_fit_def)
  obtain p q where "unat (BootAreaSize opt) = 8388608 * p" "unat (AuxAreaSize opt) = 8388608 * q"
    using assms(1) by (auto simp: areas_fit_def elim!: dvdE)
  then have "unat A = (64 + p * 128 + q * 128) * 65536" using A by simp
  then show "unat A mod 65536 = 0" by (metis mod_mult_self2_is_0)
  show "unat A < 2 ^ 30" "unat A + HAMMER2_PBUFSIZE \<le> v" using assms(1) A by (simp_all add: areas_fit_def)
qed

text \<open>The root volume also gets the areas and inodes, the others only their header.\<close>

lemma root_blocks_wp:
  assumes kept: "kept fd k n s t" and n: "n < 2 ^ 63" and labels: "labels_ok opt" and fit: "areas_fit opt n"
  shows "wp (bindS (format_hammer2_misc fd opt HAMMER2_ZONE_SEG64 (HAMMER2_ZONE_SEG64 + BootAreaSize opt)) (\<lambda>alloc_base.
      bindS (format_hammer2_inode fd opt alloc_base) (\<lambda>(alloc_base, sroot).
      returnS (alloc_base, sroot # replicate 3 (zero_bytes 128)))))
    (\<lambda>(alloc_base, bs) u. (\<forall>i<4. length (bs ! i) = 128) \<and> kept fd k n s u) t"
proof -
  note A = areas_alloc_base [OF fit]
  have four: "\<forall>i<4. length ((sroot # replicate 3 (zero_bytes 128)) ! i) = 128" if "length sroot = 128" for sroot
    using that by (auto simp: nth_Cons split: nat.splits)
  have inode: "wp (bindS (format_hammer2_inode fd opt (HAMMER2_ZONE_SEG64 + BootAreaSize opt + AuxAreaSize opt)) (\<lambda>(alloc_base, sroot).
      returnS (alloc_base, sroot # replicate 3 (zero_bytes 128))))
    (\<lambda>(alloc_base, bs) u. (\<forall>i<4. length (bs ! i) = 128) \<and> kept fd k n s u) u" if "kept fd k n s u" for u
    unfolding wp_bind
    by (rule wp_mono [OF format_hammer2_inode_wp [OF that labels A(2,3,4) n]])
      (use four in \<open>auto simp: wp_return\<close>)
  have "wp (format_hammer2_misc fd opt HAMMER2_ZONE_SEG64 (HAMMER2_ZONE_SEG64 + BootAreaSize opt))
    (\<lambda>r u. r = HAMMER2_ZONE_SEG64 + BootAreaSize opt + AuxAreaSize opt \<and> kept fd k n s u) t"
    by (rule format_hammer2_misc_wp [OF kept n])
      (use A fit in \<open>auto simp: areas_fit_def HAMMER2_ZONE_SEG64_def\<close>)
  then show ?thesis
    unfolding wp_bind [of "format_hammer2_misc _ _ _ _"] by (rule wp_mono) (use inode in auto)
qed

lemma header_length:
  assumes "Hammer2Version opt = 2" and "m \<le> 64" and "h2_nvolumes f = int m" and "h2v_id vol = int i"
    and "\<forall>i<4. length (bs ! i) = 128"
  shows "length (volume_header_seal (volume_header_fields f opt vol alloc_base bs)) = HAMMER2_PBUFSIZE"
  by (rule length_seal, rule header_fields(1) [of opt m f vol i bs]) (use assms in auto)

lemma format_hammer2_wp:
  assumes vol: "h2_volumes f ! index = vol" "h2v_fd vol = fd" "h2v_id vol = int i"
    and dev: "on_dev fd k n t" and n: "n < 2 ^ 63"
    and v: "unat (h2v_size vol) \<le> n" "unat (h2v_size vol) mod 2 ^ 23 = 0" "h2v_size vol \<noteq> 0"
    and root: "i = 0 \<Longrightarrow> areas_fit opt n" and labels: "labels_ok opt"
    and opt: "Hammer2Version opt = 2" "m \<le> 64" "h2_nvolumes f = int m"
  shows "wp (format_hammer2 f opt index) (\<lambda>_ u. kept fd k n t u \<and> stamped f opt vol (os_files u k)) t"
proof -
  have kept: "kept fd k n t t" using dev touched_refl by simp
  have last: "wp (pwrite_block fd (zero_bytes HAMMER2_PBUFSIZE) (h2v_size vol - of_nat HAMMER2_PBUFSIZE)) (\<lambda>_. kept fd k n t) t"
  proof (rule pwrite_block_wp [OF kept])
    have pos: "0 < unat (h2v_size vol)" using v(3) by (simp add: unat_gt_0)
    obtain q where q: "unat (h2v_size vol) = q * 8388608" using v(2) by auto
    with pos have "65536 \<le> unat (h2v_size vol)" by (cases q) auto
    then have "unat (h2v_size vol - 65536) = unat (h2v_size vol) - 65536"
      by (subst unat_sub) (simp_all add: word_le_nat_alt)
    then show "unat (h2v_size vol - of_nat HAMMER2_PBUFSIZE) + HAMMER2_PBUFSIZE \<le> n"
      using v(1) \<open>65536 \<le> unat (h2v_size vol)\<close> by simp
  qed (use n in simp_all)
  define blocks where "blocks = (if h2v_id vol = 0 then
      bindS (format_hammer2_misc fd opt HAMMER2_ZONE_SEG64 (HAMMER2_ZONE_SEG64 + BootAreaSize opt)) (\<lambda>alloc_base.
      bindS (format_hammer2_inode fd opt alloc_base) (\<lambda>(alloc_base, sroot).
      returnS (alloc_base, sroot # replicate 3 (zero_bytes 128))))
    else returnS (0, replicate 4 (setf (bref BR_type) HAMMER2_BREF_TYPE_INVALID (zero_bytes 128))))"
  have blocks: "wp blocks (\<lambda>(alloc_base, bs) u. (i = 0 \<or> alloc_base = 0) \<and> (\<forall>i<4. length (bs ! i) = 128) \<and> kept fd k n t u) u"
    if "kept fd k n t u" for u
  proof (cases "i = 0")
    case True
    have "wp blocks (\<lambda>(alloc_base, bs) u. (\<forall>i<4. length (bs ! i) = 128) \<and> kept fd k n t u) u"
      unfolding blocks_def using root_blocks_wp [OF that n labels root] True vol(3) by simp
    then show ?thesis by (rule wp_mono) (use True in auto)
  next
    case False
    then show ?thesis unfolding blocks_def using that vol(3) by (auto simp: wp_return)
  qed
  have rest: "wp (bindS (assertS (h2v_id vol = 0 \<or> alloc_base = 0) ''alloc_base == 0'') (\<lambda>_.
      let buf = volume_header_seal (volume_header_fields f opt vol alloc_base bs) in
      forS (takeWhile (\<lambda>i. of_nat i * HAMMER2_ZONE_BYTES64 < h2v_size vol) [0..<4])
        (\<lambda>i _. pwrite_block fd buf (of_nat i * HAMMER2_ZONE_BYTES64)) ()))
     (\<lambda>_ u. kept fd k n t u \<and> stamped f opt vol (os_files u k)) u"
    if "i = 0 \<or> alloc_base = 0" "\<forall>i<4. length (bs ! i) = 128" "kept fd k n t u" for alloc_base bs u
  proof -
    define buf where "buf = volume_header_seal (volume_header_fields f opt vol alloc_base bs)"
    have "wp (forS (takeWhile (\<lambda>i. of_nat i * HAMMER2_ZONE_BYTES64 < h2v_size vol) [0..<4])
        (\<lambda>i _. pwrite_block fd buf (of_nat i * HAMMER2_ZONE_BYTES64)) ())
      (\<lambda>_ u. kept fd k n t u \<and> (\<forall>z<4. zone_off z < unat (h2v_size vol) \<longrightarrow> block_at (os_files u k) (zone_off z) = buf)) u"
      by (rule header_loop_wp [OF that(3) _ n v(1,2)])
        (unfold buf_def, rule header_length [OF opt vol(3) that(2)])
    then have "wp (forS (takeWhile (\<lambda>i. of_nat i * HAMMER2_ZONE_BYTES64 < h2v_size vol) [0..<4])
        (\<lambda>i _. pwrite_block fd buf (of_nat i * HAMMER2_ZONE_BYTES64)) ())
      (\<lambda>_ u. kept fd k n t u \<and> stamped f opt vol (os_files u k)) u"
      by (rule wp_mono) (use that(2) in \<open>auto simp: stamped_def buf_def\<close>)
    moreover have "h2v_id vol = 0 \<or> alloc_base = 0" using that(1) vol(3) by auto
    ultimately show ?thesis unfolding wp_bind wp_assert Let_def buf_def by simp
  qed
  have "wp (bindS (pwrite_block fd (zero_bytes HAMMER2_PBUFSIZE) (h2v_size vol - of_nat HAMMER2_PBUFSIZE)) (\<lambda>_.
      bindS blocks (\<lambda>(alloc_base, bs).
      bindS (assertS (h2v_id vol = 0 \<or> alloc_base = 0) ''alloc_base == 0'') (\<lambda>_.
      let buf = volume_header_seal (volume_header_fields f opt vol alloc_base bs) in
      forS (takeWhile (\<lambda>i. of_nat i * HAMMER2_ZONE_BYTES64 < h2v_size vol) [0..<4])
        (\<lambda>i _. pwrite_block fd buf (of_nat i * HAMMER2_ZONE_BYTES64)) ()))))
    (\<lambda>_ u. kept fd k n t u \<and> stamped f opt vol (os_files u k)) t"
    unfolding wp_bind [of "pwrite_block _ _ _"] wp_bind [of blocks]
    by (rule wp_mono [OF last], rule wp_mono [OF blocks]) (use rest in auto)
  then show ?thesis
    unfolding format_hammer2_def Let_def blocks_def vol(1,2) by simp
qed

section \<open>Reading back what was written\<close>

lemma touched_file:
  assumes "touched k n s t"
  shows "f_type (os_files t k) = f_type (os_files s k)" and "f_size (os_files t k) = f_size (os_files s k)"
    and "f_bad (os_files t k) = f_bad (os_files s k)" and "n \<le> off \<Longrightarrow> block_at (os_files t k) off = block_at (os_files s k) off"
  using assms by (auto simp: touched_def block_at_def)

text \<open>The valid headers after formatting: the new one below the end of the volume, the old ones above.\<close>

lemma stamped_valid:
  assumes touched: "touched k n t u"
    and regular: "f_type (os_files t k) = S_IFREG" "f_size (os_files t k) < 2 ^ 63" "\<And>i. \<not> f_bad (os_files t k) i"
    and v: "n \<le> f_size (os_files t k)" "n mod 2 ^ 23 = 0"
    and buf: "volume_header_ok buf"
    and put: "\<And>z. z < 4 \<Longrightarrow> zone_off z < n \<Longrightarrow> block_at (os_files u k) (zone_off z) = buf"
    and z: "z < 4"
  shows "valid_header (os_files u k) z p \<longleftrightarrow>
    (if zone_off z < n then p = buf else valid_header (os_files t k) z p)"
proof (cases "zone_off z < n")
  case True
  have "zone_off z + HAMMER2_PBUFSIZE \<le> f_size (os_files u k)"
    using zone_inside [OF True v(2)] v(1) touched_file(2) [OF touched] by simp
  then show ?thesis
    using True put [OF z True] buf regular(3) touched_file(3) [OF touched] by (auto simp: valid_header_block)
next
  case False
  then show ?thesis using touched_file [OF touched] by (simp add: valid_header_block)
qed

lemma stamped_read:
  assumes touched: "touched k n t u" and fd: "map_of (os_fds u) fd = Some k"
    and regular: "f_type (os_files t k) = S_IFREG" "f_size (os_files t k) < 2 ^ 63" "\<And>i. \<not> f_bad (os_files t k) i"
    and v: "n \<le> f_size (os_files t k)" "n mod 2 ^ 23 = 0" "0 < n"
    and clean: "\<And>z p. z < 4 \<Longrightarrow> n \<le> zone_off z \<Longrightarrow> \<not> valid_header (os_files t k) z p"
    and buf: "volume_header_ok buf"
    and put: "\<And>z. z < 4 \<Longrightarrow> zone_off z < n \<Longrightarrow> block_at (os_files u k) (zone_off z) = buf"
  shows "hammer2_read_volume_header fd u = Inr (Some (0, buf), u)"
proof -
  note same = touched_file [OF touched]
  define f where "f = os_files u k"
  have f: "f_type f = S_IFREG" "f_size f < 2 ^ 64" using regular(1,2) same by (simp_all add: f_def)
  have valid: "valid_header f z p \<longleftrightarrow> zone_off z < n \<and> p = buf" if z: "z < 4" for z p
    unfolding f_def using stamped_valid [OF touched regular v(1,2) buf put z] clean [OF z] by auto
  obtain m where m: "m \<le> 4" "\<And>i. i < m \<longleftrightarrow> i < 4 \<and> zone_off i < f_size f"
    and e: "hammer2_read_volume_header fd u = Inr (foldl (pick_header f) None [0..<m], u)"
    using read_volume_header_eq [OF fd] f unfolding f_def by blast
  have zero: "zone_off 0 = 0" by (simp add: zone_off_def)
  then have "0 < m" using m(2) [of 0] v same(2) by (simp add: f_def)
  have best: "is_best f [0..<m] (foldl (pick_header f) None [0..<m])" by (rule fold_best)
  have v0: "zone_header f 0 = Some buf" using valid [of 0 buf] v(3) zero by (simp add: zone_header_Some)
  obtain z p where r: "foldl (pick_header f) None [0..<m] = Some (z, p)"
    using best v0 \<open>0 < m\<close> by (cases "foldl (pick_header f) None [0..<m]") (auto simp: is_best_def)
  then have "z < m" "valid_header f z p" and first: "0 < z \<Longrightarrow> header_tid buf < header_tid p"
    using best v0 \<open>0 < m\<close> unfolding is_best_def zone_header_Some [symmetric] by auto
  then have "p = buf" using valid [of z p] m(1) by auto
  with first have "z = 0" by auto
  with e r \<open>p = buf\<close> show ?thesis by simp
qed

lemma format_hammer2_stamps:
  assumes vol: "h2_volumes f ! index = vol" "h2v_id vol = int i"
    and dev: "map_of (os_fds t) (h2v_fd vol) = Some k" "unat (h2v_size vol) \<le> f_size (os_files t k)"
      "f_size (os_files t k) \<le> f_room (os_files t k)" "f_size (os_files t k) < 2 ^ 63"
    and size: "unat (h2v_size vol) mod 2 ^ 23 = 0" "h2v_size vol \<noteq> 0"
    and opt: "Hammer2Version opt = 2" "n \<le> 64" "h2_nvolumes f = int n" "labels_ok opt"
      "i = 0 \<longrightarrow> areas_fit opt (unat (h2v_size vol))"
  shows "\<exists>u A bs. format_hammer2 f opt index t = Inr ((), u) \<and> kept (h2v_fd vol) k (unat (h2v_size vol)) t u \<and>
    (\<forall>i<4. length (bs ! i) = 128) \<and>
    (\<forall>z<4. zone_off z < unat (h2v_size vol) \<longrightarrow>
      block_at (os_files u k) (zone_off z) = volume_header_seal (volume_header_fields f opt vol A bs))"
proof -
  define m where "m = unat (h2v_size vol)"
  have on: "on_dev (h2v_fd vol) k m t" using dev by (simp add: on_dev_def m_def)
  have m: "m < 2 ^ 63" using dev(2,4) by (simp add: m_def)
  obtain u where "format_hammer2 f opt index t = Inr ((), u)" "kept (h2v_fd vol) k m t u"
    and "stamped f opt vol (os_files u k)"
    using wp_returns [OF format_hammer2_wp [OF vol(1) refl vol(2) on m _ size _ opt(4) opt(1-3)]] opt(5) m_def by auto
  then show ?thesis unfolding stamped_def m_def by blast
qed

text \<open>
  C14: formatting a volume of a version 2 filesystem returns, and reading the headers of the device then
  gives the first copy, with the id, size, volume count, total size, volume offsets and identifiers that
  were to be written.  The device is a regular file without bad blocks that holds the volume, the
  reserved areas fit, and beyond the volume it has no valid header of an earlier filesystem.
\<close>

theorem format_hammer2_readback:
  assumes vol: "h2_volumes f ! index = vol" "h2v_id vol = int i" "i < 64"
    and dev: "map_of (os_fds t) (h2v_fd vol) = Some k" "f_type (os_files t k) = S_IFREG"
      "unat (h2v_size vol) \<le> f_size (os_files t k)" "f_size (os_files t k) \<le> f_room (os_files t k)"
      "f_size (os_files t k) < 2 ^ 63" "\<forall>x. \<not> f_bad (os_files t k) x"
    and size: "unat (h2v_size vol) mod 2 ^ 23 = 0" "h2v_size vol \<noteq> 0"
    and clean: "\<forall>z<4. unat (h2v_size vol) \<le> zone_off z \<longrightarrow> (\<forall>p. \<not> valid_header (os_files t k) z p)"
    and opt: "Hammer2Version opt = 2" "n \<le> 64" "h2_nvolumes f = int n" "labels_ok opt"
      "i = 0 \<longrightarrow> areas_fit opt (unat (h2v_size vol))"
  shows "\<exists>u p. format_hammer2 f opt index t = Inr ((), u) \<and>
    hammer2_read_volume_header (h2v_fd vol) u = Inr (Some (0, p), u) \<and>
    unat (getf (vd VD_volu_id) p :: u8) = i \<and> getf (vd VD_volu_size) p = h2v_size vol \<and>
    unat (getf (vd VD_nvolumes) p :: u8) = n \<and> getf (vd VD_total_size) p = h2_total_size f \<and>
    getf (vd VD_fsid) p = Hammer2_VolFSID opt \<and> getf (vd VD_fstype) p = Hammer2_FSType opt \<and>
    (\<forall>j<64. getf (vd (VD_volu_loff j)) p = (if j < n then h2v_offset (h2_volumes f ! j) else - 1))"
proof -
  define m where "m = unat (h2v_size vol)"
  obtain u bs A where run: "format_hammer2 f opt index t = Inr ((), u)" and kept: "kept (h2v_fd vol) k m t u"
    and bs: "\<forall>i<4. length (bs ! i) = 128"
    and put: "\<And>z. z < 4 \<Longrightarrow> zone_off z < m \<Longrightarrow>
      block_at (os_files u k) (zone_off z) = volume_header_seal (volume_header_fields f opt vol A bs)"
    using format_hammer2_stamps [OF vol(1,2) dev(1,3,4,5) size opt(1-5)] unfolding m_def by blast
  note H = formatted_header [where alloc_base = A, OF opt(1-3) vol(2) bs]
  have "hammer2_read_volume_header (h2v_fd vol) u = Inr (Some (0, volume_header_seal (volume_header_fields f opt vol A bs)), u)"
    by (rule stamped_read [where k = k and n = m and t = t])
      (use kept dev size clean put H(2) in \<open>auto simp: m_def on_dev_def unat_gt_0\<close>)
  moreover have "unat (of_nat i :: u8) = i" "unat (of_nat n :: u8) = n"
    using vol(3) opt(2) by (simp_all add: unat_of_nat)
  ultimately show ?thesis
    using run H(3,5-10) by (intro exI [of _ u] exI conjI) (auto simp del: vd.simps)
qed

text \<open>A root volume of 32 MiB with areas of 8 MiB each.\<close>

definition small_vol :: hammer2_volume where
  "small_vol = hammer2_install_volume 3 0 ''/d'' 0 (2 ^ 25)"

definition small_fs :: hammer2_ondisk where
  "small_fs = hammer2_init_ondisk\<lparr>h2_version := 2, h2_nvolumes := 1,
     h2_volumes := (h2_volumes hammer2_init_ondisk)[0 := small_vol], h2_total_size := 2 ^ 25\<rparr>"

definition small_opt :: hammer2_mkfs_options where
  "small_opt = ex_opt\<lparr>BootAreaSize := 2 ^ 23, AuxAreaSize := 2 ^ 23, Label := [cstr ''LOCAL'']\<rparr>"

definition small_state :: h2_state where
  "small_state = no_files\<lparr>os_files := (\<lambda>_. blank_file 1 (2 ^ 25)), os_fds := [(3, 7)]\<rparr>"

theorem format_hammer2_readback_witness:
  "\<exists>u p. format_hammer2 small_fs small_opt 0 small_state = Inr ((), u) \<and>
    hammer2_read_volume_header 3 u = Inr (Some (0, p), u) \<and> getf (vd VD_total_size) p = (2 ^ 25 :: u64)"
proof -
  have v: "h2_volumes small_fs ! 0 = small_vol" "h2v_id small_vol = int 0" "(0 :: nat) < 64" "h2v_fd small_vol = 3"
      "h2v_size small_vol = 2 ^ 25"
    by (simp_all add: small_fs_def small_vol_def hammer2_install_volume_def hammer2_init_ondisk_def)
  have size: "unat (h2v_size small_vol) = 2 ^ 25" by (simp add: v)
  have "map_of (os_fds small_state) (h2v_fd small_vol) = Some 7" "f_type (os_files small_state 7) = S_IFREG"
      "unat (h2v_size small_vol) \<le> f_size (os_files small_state 7)"
      "f_size (os_files small_state 7) \<le> f_room (os_files small_state 7)"
      "f_size (os_files small_state 7) < 2 ^ 63" "\<forall>x. \<not> f_bad (os_files small_state 7) x"
    by (simp_all add: small_state_def v blank_file_def)
  moreover have "unat (h2v_size small_vol) mod 2 ^ 23 = 0" "h2v_size small_vol \<noteq> 0" by (simp_all add: v)
  moreover have "\<forall>z<4. unat (h2v_size small_vol) \<le> zone_off z \<longrightarrow> (\<forall>p. \<not> valid_header (os_files small_state 7) z p)"
    unfolding size by (simp add: small_state_def blank_file_def valid_header_def)
  moreover have "Hammer2Version small_opt = 2" "(1 :: nat) \<le> 64" "h2_nvolumes small_fs = int 1" "labels_ok small_opt"
      "(0 :: nat) = 0 \<longrightarrow> areas_fit small_opt (unat (h2v_size small_vol))"
    by (simp_all add: small_opt_def ex_opt_def small_fs_def labels_ok_def cstr_def areas_fit_def v)
  ultimately have "\<exists>u p. format_hammer2 small_fs small_opt 0 small_state = Inr ((), u) \<and>
    hammer2_read_volume_header (h2v_fd small_vol) u = Inr (Some (0, p), u) \<and> getf (vd VD_total_size) p = h2_total_size small_fs"
    using format_hammer2_readback [OF v(1-3)] by metis
  then show ?thesis by (simp add: v small_fs_def)
qed

text \<open>
  C32: a valid header that an earlier filesystem left beyond the end of the new volume survives the
  formatting, and if its \<open>mirror_tid\<close> is above the 16 of a new header, reading the headers of the
  freshly formatted device gives such an old header and none of the new ones.
\<close>

theorem stale_header_preferred:
  assumes vol: "h2_volumes f ! index = vol" "h2v_id vol = int i"
    and dev: "map_of (os_fds t) (h2v_fd vol) = Some k" "f_type (os_files t k) = S_IFREG"
      "unat (h2v_size vol) \<le> f_size (os_files t k)" "f_size (os_files t k) \<le> f_room (os_files t k)"
      "f_size (os_files t k) < 2 ^ 63" "\<forall>x. \<not> f_bad (os_files t k) x"
    and size: "unat (h2v_size vol) mod 2 ^ 23 = 0" "h2v_size vol \<noteq> 0"
    and stale: "y < 4" "unat (h2v_size vol) \<le> zone_off y" "valid_header (os_files t k) y q" "16 < header_tid q"
    and opt: "Hammer2Version opt = 2" "n \<le> 64" "h2_nvolumes f = int n" "labels_ok opt"
      "i = 0 \<longrightarrow> areas_fit opt (unat (h2v_size vol))"
  shows "\<exists>u z p. format_hammer2 f opt index t = Inr ((), u) \<and>
    hammer2_read_volume_header (h2v_fd vol) u = Inr (Some (z, p), u) \<and>
    unat (h2v_size vol) \<le> zone_off z \<and> valid_header (os_files t k) z p"
proof -
  define m where "m = unat (h2v_size vol)"
  obtain u bs A where run: "format_hammer2 f opt index t = Inr ((), u)" and kept: "kept (h2v_fd vol) k m t u"
    and bs: "\<forall>i<4. length (bs ! i) = 128"
    and put: "\<And>z. z < 4 \<Longrightarrow> zone_off z < m \<Longrightarrow>
      block_at (os_files u k) (zone_off z) = volume_header_seal (volume_header_fields f opt vol A bs)"
    using format_hammer2_stamps [OF vol(1,2) dev(1,3,4,5) size opt(1-5)] unfolding m_def by blast
  define buf where "buf = volume_header_seal (volume_header_fields f opt vol A bs)"
  note H = formatted_header [where alloc_base = A, OF opt(1-3) vol(2) bs, folded buf_def]
  have valid: "valid_header (os_files u k) z p \<longleftrightarrow> (if zone_off z < m then p = buf else valid_header (os_files t k) z p)"
    if "z < 4" for z p
    by (rule stamped_valid [where t = t and n = m]) (use kept dev size put H(2) that in \<open>auto simp: m_def buf_def\<close>)
  have q: "zone_header (os_files u k) y = Some q"
    using valid [OF stale(1)] stale by (simp add: m_def zone_header_Some)
  have fd: "map_of (os_fds u) (h2v_fd vol) = Some k" using kept by (simp add: on_dev_def)
  have f: "f_type (os_files u k) = S_IFREG" "f_size (os_files u k) < 2 ^ 64"
    using kept dev touched_file [of k m t u] by simp_all
  obtain j where j: "j \<le> 4" "\<And>i. i < j \<longleftrightarrow> i < 4 \<and> zone_off i < f_size (os_files u k)"
    and e: "hammer2_read_volume_header (h2v_fd vol) u = Inr (foldl (pick_header (os_files u k)) None [0..<j], u)"
    using read_volume_header_eq [OF fd f] by blast
  have "y < j" using j(2) [of y] stale(1) q by (auto simp: zone_header_Some valid_header_def)
  have best: "is_best (os_files u k) [0..<j] (foldl (pick_header (os_files u k)) None [0..<j])" by (rule fold_best)
  obtain z p where r: "foldl (pick_header (os_files u k)) None [0..<j] = Some (z, p)"
    using best q \<open>y < j\<close> by (cases "foldl (pick_header (os_files u k)) None [0..<j]") (auto simp: is_best_def)
  then have "z < j" "valid_header (os_files u k) z p" "header_tid q \<le> header_tid p"
    using best q \<open>y < j\<close> unfolding is_best_def zone_header_Some [symmetric] by auto
  then have z: "z < 4" "valid_header (os_files u k) z p" "16 < header_tid p" using j(1) stale(4) by auto
  have "\<not> zone_off z < m" using valid [OF z(1), of p] z(2,3) H(11) by auto
  with valid [OF z(1)] z(2) run e r show ?thesis unfolding m_def by auto
qed

definition cut_vol :: hammer2_volume where
  "cut_vol = hammer2_install_volume 3 0 ''/d'' 0 (2 ^ 31)"

definition cut_fs :: hammer2_ondisk where
  "cut_fs = hammer2_init_ondisk\<lparr>h2_version := 2, h2_nvolumes := 1,
     h2_volumes := (h2_volumes hammer2_init_ondisk)[0 := cut_vol], h2_total_size := 2 ^ 31\<rparr>"

definition used_file :: h2_file where
  "used_file = write_file (zone_off 1) (plain_header 17) (blank_file 1 (2 ^ 31 + 2 ^ 23))"

definition used_state :: h2_state where
  "used_state = no_files\<lparr>os_files := (\<lambda>_. used_file), os_fds := [(3, 7)]\<rparr>"

lemma used_file: "f_type used_file = S_IFREG" "f_size used_file = 2 ^ 31 + 2 ^ 23" "f_room used_file = 2 ^ 31 + 2 ^ 23"
  "f_bad used_file = (\<lambda>_. False)"
  by (simp_all add: used_file_def write_file_def blank_file_def plain_header zone_off_def zone_bytes)

lemma used_valid: "valid_header used_file 1 (plain_header 17)"
  unfolding valid_header_block used_file
  using block_write_same [OF plain_header(1), of "zone_off 1" 17 "blank_file 1 (2 ^ 31 + 2 ^ 23)"]
  by (simp add: plain_header used_file_def zone_off_def zone_bytes)

theorem stale_header_preferred_witness:
  "\<exists>u z p. format_hammer2 cut_fs small_opt 0 used_state = Inr ((), u) \<and>
    hammer2_read_volume_header 3 u = Inr (Some (z, p), u) \<and> 2 ^ 31 \<le> zone_off z \<and> valid_header used_file z p"
proof -
  have v: "h2_volumes cut_fs ! 0 = cut_vol" "h2v_id cut_vol = int 0" "h2v_fd cut_vol = 3" "h2v_size cut_vol = 2 ^ 31"
    by (simp_all add: cut_fs_def cut_vol_def hammer2_install_volume_def hammer2_init_ondisk_def)
  have size: "unat (h2v_size cut_vol) = 2 ^ 31" by (simp add: v)
  have st: "os_files used_state 7 = used_file" by (simp add: used_state_def)
  have "map_of (os_fds used_state) (h2v_fd cut_vol) = Some 7" by (simp add: used_state_def v)
  moreover have "f_type (os_files used_state 7) = S_IFREG" "unat (h2v_size cut_vol) \<le> f_size (os_files used_state 7)"
      "f_size (os_files used_state 7) \<le> f_room (os_files used_state 7)"
      "f_size (os_files used_state 7) < 2 ^ 63" "\<forall>x. \<not> f_bad (os_files used_state 7) x"
    unfolding st size used_file by simp_all
  moreover have "unat (h2v_size cut_vol) mod 2 ^ 23 = 0" "h2v_size cut_vol \<noteq> 0" by (simp_all add: v)
  moreover have "unat (h2v_size cut_vol) \<le> zone_off 1" unfolding size by (simp add: zone_off_def zone_bytes)
  moreover have "valid_header (os_files used_state 7) 1 (plain_header 17)" "16 < header_tid (plain_header 17)"
    unfolding st plain_header(3) by (rule used_valid) simp
  moreover have "Hammer2Version small_opt = 2" "(1 :: nat) \<le> 64" "h2_nvolumes cut_fs = int 1" "labels_ok small_opt"
      "(0 :: nat) = 0 \<longrightarrow> areas_fit small_opt (unat (h2v_size cut_vol))"
    by (simp_all add: small_opt_def ex_opt_def cut_fs_def labels_ok_def cstr_def areas_fit_def v)
  moreover have "(1 :: nat) < 4" by simp
  ultimately have "\<exists>u z p. format_hammer2 cut_fs small_opt 0 used_state = Inr ((), u) \<and>
    hammer2_read_volume_header (h2v_fd cut_vol) u = Inr (Some (z, p), u) \<and>
    unat (h2v_size cut_vol) \<le> zone_off z \<and> valid_header (os_files used_state 7) z p"
    by (intro stale_header_preferred [OF v(1,2)])
  then show ?thesis unfolding size st v(3) .
qed

end
