(* ===== verification/Spec2Isabelle.thy ===== *)
theory Spec2Isabelle
  imports Buffer_Properties Freemap_Properties Sha2_Properties Xxhash Dmsg_Properties Dmsg_Wire_Properties
    Hammer2_Mkfs
begin

text \<open>
  Verification of the userspace utilities of the HAMMER and HAMMER2 file systems.  Paths are relative
  to the directory \<open>src\<close> of the repository.

  \<^bold>\<open>The program.\<close>  \<open>hammer(8)\<close> and \<open>newfs_hammer(8)\<close> work on the volumes of a HAMMER file system
  through a buffer cache (\<open>sbin/hammer/ondisk.c\<close>, \<open>cache.c\<close>); an offset of the media names a zone and is
  translated to a place of a volume by the two layers of the freemap (\<open>sbin/hammer/blockmap.c\<close>), which
  are themselves read through the cache.  The structures on the media carry checksums
  (\<open>sys/vfs/hammer/hammer_crc.h\<close> over \<open>sys/libkern\<close>).  \<open>hammer2(8)\<close>, \<open>fsck_hammer2\<close> and \<open>newfs_hammer2\<close>
  share the volumes of HAMMER2 (\<open>sbin/hammer2/ondisk.c\<close>) and its hashes (\<open>sys/crypto/sha2\<close>,
  \<open>sys/vfs/hammer2/xxhash\<close>).  \<open>lib/libdmsg\<close> carries transactions between the nodes of a cluster.

  \<^bold>\<open>Conventions.\<close>  \<open>Prelude\<close> has the machine integers as words of their width, the little endian byte
  codec and the collections \<open>run_simps\<close>, \<open>mask_simps\<close> and \<open>codec_simps\<close>.  \<open>Io_Monad\<close> has operations as
  functions of an explicit state that return a result or the reason the process stopped (a failed
  assertion, an exit, an invalid access, a loop that does not end).  \<open>wp\<close> is total: the operation returns
  and the result satisfies the condition.  \<open>wlp\<close> allows the named ways to stop.

  \<^bold>\<open>HAMMER media format and checksums.\<close>
  \<^item> \<open>Disk_Format\<close>: offsets, blockmap layers and volume header of \<open>hammer_disk.h\<close>; the encodings decode
    to what was encoded, and the layer indices enumerate the big-blocks.
  \<^item> \<open>Btree_Format\<close>: nodes and elements of \<open>hammer_btree.h\<close>.
  \<^item> \<open>Crc_Tables\<close>, \<open>Crc32\<close>: \<open>crc32.c\<close> and \<open>icrc32.c\<close> with their tables; both routines compute the bit-serial
    checksum, can be continued, and tell buffers apart that differ in a burst of up to four bytes.
  \<^item> \<open>Hammer_Crc\<close>: the checksum of each structure as an instance of the contract \<open>crc_struct\<close>; what was
    stored under one version is accepted under a later one.

  \<^bold>\<open>Buffer cache and blockmap.\<close>
  \<^item> \<open>Buffer_State\<close>, \<open>Buffer_Cache\<close>: volumes, buffers, hash chains, the cache list, device transfers,
    \<open>get_buffer\<close>, \<open>rel_buffer\<close>, read ahead, eviction and write back.
  \<^item> \<open>Blockmap\<close>: \<open>blockmap_lookup\<close>, \<open>alloc_blockmap\<close>, \<open>bootstrap_bigblock\<close> and the UNDO allocation.
  \<^item> \<open>Cache_Invariant\<close>, \<open>Buffer_Access\<close>, \<open>Cache_Flush\<close>: \<open>media\<close> is the content of a volume as the
    process sees it, the cached buffers over the device; every operation keeps the invariant \<open>good\<close>.
  \<^item> \<open>Blockmap_Lookup\<close>, \<open>Media_Access\<close>: the contract \<open>buffer_reader\<close> of the cache towards the translation, and
    the translation as a function of the media.
  \<^item> \<open>Media_Write\<close>, \<open>Media_Layout\<close>: operations that change the media, and runs of entries.
  \<^item> \<open>Buffer_Properties\<close>: translation and access refine the media, eviction ends, a flush writes back all.

  \<^bold>\<open>Formatting of the freemap\<close> (end of \<open>sbin/hammer/ondisk.c\<close>).  \<open>Freemap_Format\<close> has the operations;
  \<open>Freemap_Layers\<close>, \<open>Freemap_Init\<close> and \<open>Freemap_Fill\<close> follow \<open>format_freemap\<close> and the two loops of
  \<open>initialize_freemap\<close>; \<open>Freemap_Properties\<close> reads the result back and compares it with \<open>count_freemap\<close>.

  \<^bold>\<open>Hashes.\<close>  \<open>Stream_Hash\<close> is the contract of an init/update/final interface.  \<open>Sha2\<close> has \<open>sha2.c\<close>;
  \<open>Sha256\<close> and \<open>Sha512\<close> have the definitions of FIPS 180 and the refinement; \<open>Sha2_Properties\<close> covers
  the unrolled transforms and the digest strings in the buffer of the caller.  \<open>Xxhash\<close> has \<open>xxhash.c\<close> in its one-shot, streaming and
  canonical forms.

  \<^bold>\<open>Cluster messages\<close> (\<open>lib/libdmsg/msg.c\<close>, \<open>service.c\<close>).
  \<^item> \<open>Dmsg_Format\<close>, \<open>Dmsg_State\<close>: flags, headers, and the transactions as reference counted states in a heap,
    with the mutex of the connection, of any kind of POSIX: the sources take the default attributes, which
    on Linux give the kind that waits for itself.  \<open>malloc\<close> is a parameter.
  \<^item> \<open>Dmsg_Service\<close>: the callbacks of the master service (\<open>service.c\<close>), the dispatch of \<open>dmsg_msg_lnk\<close> and
    \<open>dmsg_lnk_ping\<close> (\<open>msg_lnk.c\<close>), and \<open>shell_msghandler\<close> (\<open>sbin/hammer2/cmd_debug.c\<close>).  The functions of the
    SPAN protocol and the callback of the user are parameters.
  \<^item> \<open>Dmsg_Invariant\<close>, \<open>Dmsg_Operations\<close>: the invariant of the heap, kept by every operation, and how
    \<open>dmsg_state_msgrx\<close> ends on a message that conforms and on one that does not.
  \<^item> \<open>Dmsg_Callbacks\<close>: the contract of a callback, kept by those of the service and by the debug shell.
  \<^item> \<open>Dmsg_Properties\<close>: the interface \<open>dmsg_user\<close> and the reachable states: what is linked is live, the only
    stops are a normal mutex that is waited for by its holder and the assertions on messages that do not
    conform, and transactions are retired.
  \<^item> \<open>Dmsg_Wire\<close>, \<open>Dmsg_Stream\<close>, \<open>Dmsg_Send\<close>, \<open>Dmsg_Safety\<close>: header, staging buffer, \<open>dmsg_ioq_read\<close>,
    \<open>dmsg_iocom_flush1\<close> and \<open>flush2\<close>, with sockets that take and give arbitrary pieces.
  \<^item> \<open>Dmsg_Wire_Properties\<close>: delivery end to end, reception of arbitrary bytes up to \<open>dmsg_state_msgrx\<close>, headers
    of the other byte order, and the ways a peer ends or hangs the receiver.

  \<^bold>\<open>HAMMER2 volumes and newfs_hammer2.\<close>
  \<^item> \<open>Hammer2_Format\<close>: structures as members of a byte buffer.  \<open>Hammer2_Files\<close>: files, devices and
    descriptors.
  \<^item> \<open>Hammer2_Volumes\<close>, \<open>Hammer2_Newfs\<close>: \<open>sbin/hammer2/ondisk.c\<close> and \<open>mkfs_hammer2.c\<close>.
  \<^item> \<open>Hammer2_Headers\<close>: \<open>hammer2_read_volume_header\<close> returns the best valid copy.
  \<^item> \<open>Hammer2_Lookup\<close>: volumes that were opened lie without gap or overlap, and offsets find their volume.
  \<^item> \<open>Hammer2_Writes\<close>, \<open>Hammer2_Mkfs\<close>: what \<open>format_hammer2\<close> writes, and that the header reads back.

  \<^bold>\<open>Bounds.\<close>  Loops of the sources that have a bound run over a list or recurse on their data.
  \<^item> \<open>hammer_cache_flush\<close> has one turn per buffer of the cache list and one more; it is proved to return.
  \<^item> \<open>blockmap_lookup\<close> and \<open>buffer_data\<close> have the depth of the recursion between cache and translation; the
    theorems hold at every depth above zero, since the layers are in a zone that needs no translation.
  \<^item> \<open>hammer2_init_volumes\<close> has the depth of its recursion through device paths that hold a colon; the theorem
    is about runs that open the volumes.
  \<^item> \<open>alloc_blockmap\<close> has the number of big-blocks to the end of the zone, which a turn advances by one; that
    this is enough is not among the theorems.
  \<^item> \<open>dmsg_state_dying\<close> and \<open>dmsg_simulate_failure\<close> run on fuel, a parameter; the
    callback may change the tree, so no bound is claimed of them.  The reachable states are those before a
    connection is lost, which is what calls \<open>dmsg_simulate_failure\<close>: none of their events needs the fuel.
  \<^item> \<open>service_env\<close> has the depth of the callbacks that run while a callback aborts a transaction; the theorems
    hold at every depth above zero, since no event of the reachable states aborts one.
  \<^item> \<open>rx_loop\<close>, the passes of a connection, has a bound that the delivery theorem states.

  \<^bold>\<open>Not modelled.\<close>
  \<^item> The commands of \<open>hammer(8)\<close>: the walks that print or recover the media, the stream of mirroring, the
    schedule of cleanup, deduplication, pruning.  Much of their effect is in kernel ioctls; the logic that
    is in the process is not reached by this development.
  \<^item> The rest of \<open>newfs_hammer\<close>, the loading of volumes and the parsing of options and sizes.
  \<^item> The commands of \<open>hammer2(8)\<close> and the verification of \<open>fsck_hammer2\<close>, apart from opening the volumes.
  \<^item> The SPAN protocol of \<open>msg_lnk.c\<close> and the relays it opens, which share trees between the threads of
    several connections; here the events of a connection come one after another.  The key exchange of \<open>crypto.c\<close> is OpenSSL.
  \<^item> \<open>undo\<close>, \<open>fstyp\<close>, the mount commands, \<open>libutil\<close>, the replacements of \<open>libc\<close> functions, and the tree, queue
    and atomic macros, whose uses are lists and maps of the model.
  \<^item> Big endian machines, failing \<open>malloc\<close>, and the text that is printed.
\<close>

end
